(* ===== verification/Prelude.thy ===== *)
theory Prelude
  imports Main "HOL-Library.Word"
begin

section \<open>Prelude: errors, effects, ordered maps and bytes\<close>

text \<open>
  What every component shares: the exceptions of the program as values, a state monad
  whose exceptions keep the state reached (as C++ exceptions do), ordered maps as
  strictly sorted association lists (the contents of a \<open>std::map\<close> or of an ordered
  unique index, in iteration order), and little-endian byte encodings.
\<close>

unbundle bit_operations_syntax

subsection \<open>Collections and type names\<close>

named_theorems om_simps \<open>lookup in and well-formedness of ordered maps\<close>
named_theorems sx_simps \<open>unfolding of the state and exception combinators\<close>

type_synonym byte = "8 word"
type_synonym bytes = "8 word list"
type_synonym u16 = "16 word"
type_synonym u32 = "32 word"
type_synonym u64 = "64 word"
type_synonym i64 = "64 word"

lemma unat_bound: "unat (w :: 'w::len word) < 2 ^ LENGTH('w)"
  by (rule unsigned_less)

lemma unat_small: "m < 2 ^ 32 \<Longrightarrow> unat (word_of_nat m :: u32) = m"
  by (simp add: unsigned_of_nat take_bit_nat_eq_self)

lemma byte_bound: "unat (b :: byte) < 256"
  using unat_bound [of b] by simp

text \<open>
  The exceptions the modelled code raises. \<open>Undefined\<close> marks behaviour C++ leaves
  undefined (dereferencing a null pointer or an end iterator): the model stops there.
  \<open>Diverged\<close> is a loop that used up the steps the model gives it.
\<close>

datatype error =
    Fc_Assert
  | Unlinkable_Block
  | Net_Unlinkable_Block
  | Logic_Error
  | Out_Of_Range
  | Runtime_Error
  | Stream_Range
  | Overflow
  | Underflow
  | Divide_By_Zero
  | Parse_Error
  | Eof
  | Bad_Cast
  | Key_Not_Found
  | Lock_Exception
  | Unreachable_Fork
  | Older_Than_Undo_History
  | Unhandled
  | Undefined
  | Diverged

subsection \<open>Fallible results\<close>

type_synonym 'a result = "error + 'a"

definition rbind :: "'a result \<Rightarrow> ('a \<Rightarrow> 'b result) \<Rightarrow> 'b result" where
  "rbind r f = (case r of Inl e \<Rightarrow> Inl e | Inr x \<Rightarrow> f x)"

lemma rbind_simps [simp]:
  "rbind (Inl e) f = Inl e" "rbind (Inr x) f = f x"
  by (simp_all add: rbind_def)

lemma rbind_Inr_iff: "rbind r f = Inr y \<longleftrightarrow> (\<exists>x. r = Inr x \<and> f x = Inr y)"
  by (cases r) auto

definition assert_r :: "bool \<Rightarrow> error \<Rightarrow> unit result" where
  "assert_r b e = (if b then Inr () else Inl e)"

lemma assert_r_Inr_iff [simp]: "assert_r b e = Inr u \<longleftrightarrow> b"
  by (simp add: assert_r_def)

lemma assert_r_True [simp]: "assert_r True e = Inr ()"
  by (simp add: assert_r_def)

lemma assert_r_False [simp]: "assert_r False e = Inl e"
  by (simp add: assert_r_def)

subsection \<open>State and exceptions\<close>

text \<open>
  A statement maps a state to its outcome, an exception or a value, and to the state at
  that point: what was modified before a \<^theory_text>\<open>throw\<close> stays modified.
\<close>

type_synonym ('s, 'a) sx = "'s \<Rightarrow> 'a result \<times> 's"

definition ret :: "'a \<Rightarrow> ('s, 'a) sx" where
  "ret x s = (Inr x, s)"

definition raise :: "error \<Rightarrow> ('s, 'a) sx" where
  "raise e s = (Inl e, s)"

definition bnd :: "('s, 'a) sx \<Rightarrow> ('a \<Rightarrow> ('s, 'b) sx) \<Rightarrow> ('s, 'b) sx" where
  "bnd m f s = (case m s of (Inl e, s') \<Rightarrow> (Inl e, s') | (Inr x, s') \<Rightarrow> f x s')"

definition seq :: "('s, 'a) sx \<Rightarrow> ('s, 'b) sx \<Rightarrow> ('s, 'b) sx" where
  "seq m n = bnd m (\<lambda>_. n)"

definition gets :: "('s \<Rightarrow> 'a) \<Rightarrow> ('s, 'a) sx" where
  "gets f s = (Inr (f s), s)"

definition update :: "('s \<Rightarrow> 's) \<Rightarrow> ('s, unit) sx" where
  "update f s = (Inr (), f s)"

definition check :: "bool \<Rightarrow> error \<Rightarrow> ('s, unit) sx" where
  "check b e = (if b then ret () else raise e)"

definition lift_r :: "'a result \<Rightarrow> ('s, 'a) sx" where
  "lift_r r s = (r, s)"

definition catch_sx :: "('s, 'a) sx \<Rightarrow> (error \<Rightarrow> ('s, 'a) sx) \<Rightarrow> ('s, 'a) sx" where
  "catch_sx m h s = (case m s of (Inl e, s') \<Rightarrow> h e s' | (Inr x, s') \<Rightarrow> (Inr x, s'))"

text \<open>A scope guard: the clean-up runs on both exits and does not raise.\<close>

definition on_exit :: "('s, 'a) sx \<Rightarrow> ('s \<Rightarrow> 's) \<Rightarrow> ('s, 'a) sx" where
  "on_exit m f s = (case m s of (r, s') \<Rightarrow> (r, f s'))"

fun each :: "('a \<Rightarrow> ('s, unit) sx) \<Rightarrow> 'a list \<Rightarrow> ('s, unit) sx" where
  "each f [] = ret ()"
| "each f (x # xs) = seq (f x) (each f xs)"

lemma sx_unfold [sx_simps]:
  "ret x s = (Inr x, s)"
  "raise e s = (Inl e, s)"
  "gets f s = (Inr (f s), s)"
  "update g s = (Inr (), g s)"
  "lift_r r s = (r, s)"
  "check b e s = (if b then (Inr (), s) else (Inl e, s))"
  by (simp_all add: ret_def raise_def gets_def update_def lift_r_def check_def)

lemma bnd_simps [sx_simps]:
  "m s = (Inl e, s') \<Longrightarrow> bnd m f s = (Inl e, s')"
  "m s = (Inr x, s') \<Longrightarrow> bnd m f s = f x s'"
  by (simp_all add: bnd_def)

lemma seq_simps [sx_simps]:
  "m s = (Inl e, s') \<Longrightarrow> seq m n s = (Inl e, s')"
  "m s = (Inr x, s') \<Longrightarrow> seq m n s = n s'"
  by (simp_all add: seq_def bnd_def)

lemma bnd_assoc: "bnd (bnd m f) g = bnd m (\<lambda>x. bnd (f x) g)"
  by (auto simp: bnd_def fun_eq_iff split: prod.splits sum.splits)

lemma bnd_Inr_iff:
  "bnd m f s = (Inr y, t) \<longleftrightarrow> (\<exists>x s'. m s = (Inr x, s') \<and> f x s' = (Inr y, t))"
  by (auto simp: bnd_def split: prod.splits sum.splits)

lemma seq_Inr_iff:
  "seq m n s = (Inr y, t) \<longleftrightarrow> (\<exists>x s'. m s = (Inr x, s') \<and> n s' = (Inr y, t))"
  by (simp add: seq_def bnd_Inr_iff)

text \<open>A property of the state every statement of a block keeps is kept by the block.\<close>

definition keeps :: "('s \<Rightarrow> bool) \<Rightarrow> ('s, 'a) sx \<Rightarrow> bool" where
  "keeps P m \<longleftrightarrow> (\<forall>s. P s \<longrightarrow> P (snd (m s)))"

lemma keepsD: "keeps P m \<Longrightarrow> P s \<Longrightarrow> m s = (r, t) \<Longrightarrow> P t"
  by (auto simp: keeps_def dest: spec [of _ s])

lemma keeps_ret [intro]: "keeps P (ret x)"
  by (simp add: keeps_def ret_def)

lemma keeps_raise [intro]: "keeps P (raise e)"
  by (simp add: keeps_def raise_def)

lemma keeps_gets [intro]: "keeps P (gets f)"
  by (simp add: keeps_def gets_def)

lemma keeps_check [intro]: "keeps P (check b e)"
  by (simp add: check_def keeps_ret keeps_raise)

lemma keeps_lift_r [intro]: "keeps P (lift_r r)"
  by (simp add: keeps_def lift_r_def)

lemma keeps_update: "(\<And>s. P s \<Longrightarrow> P (f s)) \<Longrightarrow> keeps P (update f)"
  by (simp add: keeps_def update_def)

lemma keeps_bnd:
  assumes m: "keeps P m" and f: "\<And>x. keeps P (f x)"
  shows "keeps P (bnd m f)"
proof -
  have "P (snd (bnd m f s))" if s: "P s" for s
  proof (cases "m s")
    case (Pair r t)
    with m s have t: "P t" by (rule keepsD)
    show ?thesis
    proof (cases r)
      case (Inl e)
      with Pair t show ?thesis by (simp add: bnd_def)
    next
      case (Inr x)
      with Pair t f show ?thesis by (simp add: bnd_def keeps_def)
    qed
  qed
  then show ?thesis by (simp add: keeps_def)
qed

lemma keeps_seq: "keeps P m \<Longrightarrow> keeps P n \<Longrightarrow> keeps P (seq m n)"
  unfolding seq_def by (rule keeps_bnd)

lemma keeps_each: "(\<And>x. x \<in> set xs \<Longrightarrow> keeps P (f x)) \<Longrightarrow> keeps P (each f xs)"
  by (induction xs) (auto intro!: keeps_seq)

lemma keeps_catch:
  assumes m: "keeps P m" and h: "\<And>e. keeps P (h e)"
  shows "keeps P (catch_sx m h)"
proof -
  have "P (snd (catch_sx m h s))" if s: "P s" for s
  proof (cases "m s")
    case (Pair r t)
    with m s have t: "P t" by (rule keepsD)
    show ?thesis
    proof (cases r)
      case (Inl e)
      with Pair t h show ?thesis by (simp add: catch_sx_def keeps_def)
    next
      case (Inr x)
      with Pair t show ?thesis by (simp add: catch_sx_def)
    qed
  qed
  then show ?thesis by (simp add: keeps_def)
qed

lemma keeps_on_exit:
  assumes m: "keeps P m" and f: "\<And>s. P s \<Longrightarrow> P (f s)"
  shows "keeps P (on_exit m f)"
proof -
  have "P (snd (on_exit m f s))" if s: "P s" for s
  proof (cases "m s")
    case (Pair r t)
    with m s have "P t" by (rule keepsD)
    with Pair f show ?thesis by (simp add: on_exit_def)
  qed
  then show ?thesis by (simp add: keeps_def)
qed

subsection \<open>Ordered maps\<close>

type_synonym ('k, 'v) omap = "('k \<times> 'v) list"

definition om_wf :: "('k::linorder, 'v) omap \<Rightarrow> bool" where
  "om_wf m \<longleftrightarrow> sorted_wrt (<) (map fst m)"

fun om_put :: "'k::linorder \<Rightarrow> 'v \<Rightarrow> ('k, 'v) omap \<Rightarrow> ('k, 'v) omap" where
  "om_put k v [] = [(k, v)]"
| "om_put k v ((a, b) # m) =
     (if k < a then (k, v) # (a, b) # m
      else if k = a then (k, v) # m
      else (a, b) # om_put k v m)"

definition om_del :: "'k \<Rightarrow> ('k, 'v) omap \<Rightarrow> ('k, 'v) omap" where
  "om_del k m = filter (\<lambda>p. fst p \<noteq> k) m"

text \<open>\<open>std::map::emplace\<close>: no effect when the key is present.\<close>

definition om_emplace :: "'k::linorder \<Rightarrow> 'v \<Rightarrow> ('k, 'v) omap \<Rightarrow> ('k, 'v) omap" where
  "om_emplace k v m = (if map_of m k = None then om_put k v m else m)"

lemma map_of_om_put [om_simps]: "map_of (om_put k v m) = (map_of m)(k \<mapsto> v)"
  by (induction k v m rule: om_put.induct) (auto simp: fun_upd_twist)

lemma map_of_om_del [om_simps]: "map_of (om_del k m) = (map_of m)(k := None)"
  by (induction m) (auto simp: om_del_def fun_upd_twist)

lemma map_of_om_emplace [om_simps]:
  "map_of (om_emplace k v m) = (if map_of m k = None then (map_of m)(k \<mapsto> v) else map_of m)"
  by (simp add: om_emplace_def map_of_om_put)

lemma keys_om_put: "set (map fst (om_put k v m)) = insert k (set (map fst m))"
  by (induction k v m rule: om_put.induct) auto

lemma om_wf_Nil [simp]: "om_wf []"
  by (simp add: om_wf_def)

lemma om_wf_Cons: "om_wf ((k, v) # m) \<longleftrightarrow> (\<forall>x \<in> set (map fst m). k < x) \<and> om_wf m"
  by (simp add: om_wf_def)

lemma om_wf_put [om_simps]: "om_wf m \<Longrightarrow> om_wf (om_put k v m)"
proof (induction k v m rule: om_put.induct)
  case (1 k v)
  then show ?case by (simp add: om_wf_def)
next
  case (2 k v a b m)
  then show ?case
    using keys_om_put [of k v m] by (auto simp: om_wf_Cons)
qed

lemma om_wf_del [om_simps]: "om_wf m \<Longrightarrow> om_wf (om_del k m)"
  by (induction m) (auto simp: om_del_def om_wf_Cons om_wf_def)

lemma om_wf_emplace [om_simps]: "om_wf m \<Longrightarrow> om_wf (om_emplace k v m)"
  by (simp add: om_emplace_def om_wf_put)

lemma om_wf_filter: "om_wf m \<Longrightarrow> om_wf (filter P m)"
  by (induction m) (auto simp: om_wf_def)

lemma om_wf_distinct: "om_wf m \<Longrightarrow> distinct (map fst m)"
  by (simp add: om_wf_def strict_sorted_iff)

lemma map_of_filter_keys [om_simps]:
  "map_of (filter (\<lambda>p. Q (fst p)) m) k = (if Q k then map_of m k else None)"
  by (induction m) auto

lemma om_lookup_iff: "om_wf m \<Longrightarrow> map_of m k = Some v \<longleftrightarrow> (k, v) \<in> set m"
  by (simp add: om_wf_distinct)

lemma om_as_map: "om_wf m \<Longrightarrow> m = map (\<lambda>k. (k, the (map_of m k))) (map fst m)"
proof (induction m)
  case Nil
  then show ?case by simp
next
  case (Cons p m)
  obtain a b where p: "p = (a, b)" by (cases p)
  from Cons.prems have m: "om_wf m" and a: "a \<notin> set (map fst m)"
    by (auto simp: p om_wf_Cons)
  have "map (\<lambda>k. (k, the (map_of (p # m) k))) (map fst m)
      = map (\<lambda>k. (k, the (map_of m k))) (map fst m)"
    using a by (intro map_cong) (auto simp: p)
  with Cons.IH [OF m] show ?case by (simp add: p)
qed

lemma om_ext:
  assumes "om_wf m" and "om_wf n" and "map_of m = map_of n"
  shows "m = n"
proof -
  have "set (map fst m) = set (map fst n)"
    using assms(3) by (metis dom_map_of_conv_image_fst set_map)
  then have "map fst m = map fst n"
    using assms(1,2) unfolding om_wf_def by (simp add: strict_sorted_equal)
  then show ?thesis
    using om_as_map [OF assms(1)] om_as_map [OF assms(2)] assms(3) by simp
qed

end
