(* ===== verification/Undo_Index.thy ===== *)
theory Undo_Index
  imports Prelude
begin

section \<open>chainbase: one index with its undo stack\<close>

text \<open>
  \<open>generic_index\<close> of \<open>libraries/chainbase/include/chainbase/chainbase.hpp\<close>. The
  container \<open>_indices\<close> is given by its contents, the objects by id in id order; the
  other unique keys its \<open>multi_index\<close> declares are the argument \<open>clash\<close> (two
  objects cannot be stored together). As Boost documents it, a refused insertion leaves
  the container alone, while an element whose modification is refused is erased; one whose
  modifier throws stays, as it was since no modifier here writes before it throws. The deque \<open>_stack\<close> is a list with its back first. Ids
  are natural numbers and revisions integers: neither reaches the 64-bit limit.
\<close>

subsection \<open>State\<close>

record 'v undo_state =
  old_values :: "(nat, 'v) omap"
  removed_values :: "(nat, 'v) omap"
  new_ids :: "nat set"
  old_next_id :: nat
  us_revision :: int

record 'v generic_index =
  stack :: "'v undo_state list"
  gi_revision :: int
  next_id :: nat
  indices :: "(nat, 'v) omap"

definition empty_index :: "'v generic_index" where
  "empty_index = \<lparr>stack = [], gi_revision = 0, next_id = 0, indices = []\<rparr>"

definition enabled :: "'v generic_index \<Rightarrow> bool" where
  "enabled g \<longleftrightarrow> stack g \<noteq> []"

text \<open>Would \<open>v\<close> stored under id \<open>i\<close> violate a unique key?\<close>

definition clashes :: "('v \<Rightarrow> 'v \<Rightarrow> bool) \<Rightarrow> nat \<Rightarrow> 'v \<Rightarrow> (nat, 'v) omap \<Rightarrow> bool" where
  "clashes clash i v m \<longleftrightarrow> (\<exists>p \<in> set m. fst p \<noteq> i \<and> clash v (snd p))"

subsection \<open>Recording changes\<close>

definition with_head ::
    "('v undo_state \<Rightarrow> 'v undo_state) \<Rightarrow> 'v generic_index \<Rightarrow> 'v generic_index" where
  "with_head f g = (case stack g of [] \<Rightarrow> g | u # us \<Rightarrow> g\<lparr>stack := f u # us\<rparr>)"

text \<open>What \<open>on_create\<close>, \<open>on_modify\<close> and \<open>on_remove\<close> do to the newest undo state.\<close>

definition note_create :: "nat \<Rightarrow> 'v undo_state \<Rightarrow> 'v undo_state" where
  "note_create i u = u\<lparr>new_ids := insert i (new_ids u)\<rparr>"

definition note_modify :: "nat \<Rightarrow> 'v \<Rightarrow> 'v undo_state \<Rightarrow> 'v undo_state" where
  "note_modify i v u =
     (if i \<in> new_ids u then u
      else if map_of (old_values u) i \<noteq> None then u
      else u\<lparr>old_values := om_emplace i v (old_values u)\<rparr>)"

definition note_remove :: "nat \<Rightarrow> 'v \<Rightarrow> 'v undo_state \<Rightarrow> 'v undo_state" where
  "note_remove i v u =
     (if i \<in> new_ids u then u\<lparr>new_ids := new_ids u - {i}\<rparr>
      else case map_of (old_values u) i of
        Some x \<Rightarrow> u\<lparr>removed_values := om_emplace i x (removed_values u),
                    old_values := om_del i (old_values u)\<rparr>
      | None \<Rightarrow>
          if map_of (removed_values u) i \<noteq> None then u
          else u\<lparr>removed_values := om_emplace i v (removed_values u)\<rparr>)"

definition on_create :: "nat \<Rightarrow> 'v generic_index \<Rightarrow> 'v generic_index" where
  "on_create i = with_head (note_create i)"

definition on_modify :: "nat \<Rightarrow> 'v \<Rightarrow> 'v generic_index \<Rightarrow> 'v generic_index" where
  "on_modify i v = with_head (note_modify i v)"

definition on_remove :: "nat \<Rightarrow> 'v \<Rightarrow> 'v generic_index \<Rightarrow> 'v generic_index" where
  "on_remove i v = with_head (note_remove i v)"

subsection \<open>Create, modify, remove, find\<close>

definition gi_emplace ::
    "('v \<Rightarrow> 'v \<Rightarrow> bool) \<Rightarrow> 'v \<Rightarrow> ('v generic_index, nat) sx" where
  "gi_emplace clash v g =
     (let i = next_id g in
      if map_of (indices g) i \<noteq> None \<or> clashes clash i v (indices g) then (Inl Logic_Error, g)
      else (Inr i, on_create i (g\<lparr>indices := om_put i v (indices g), next_id := Suc i\<rparr>)))"

definition gi_modify ::
    "('v \<Rightarrow> 'v \<Rightarrow> bool) \<Rightarrow> nat \<Rightarrow> ('v \<Rightarrow> 'v result) \<Rightarrow> ('v generic_index, unit) sx" where
  "gi_modify clash i f g =
     (case map_of (indices g) i of
        None \<Rightarrow> (Inl Undefined, g)
      | Some v \<Rightarrow>
          (let g' = on_modify i v g in
           case f v of
             Inl e \<Rightarrow> (Inl e, g')
           | Inr w \<Rightarrow>
               if clashes clash i w (indices g')
               then (Inl Logic_Error, g'\<lparr>indices := om_del i (indices g')\<rparr>)
               else (Inr (), g'\<lparr>indices := om_put i w (indices g')\<rparr>)))"

definition gi_remove :: "nat \<Rightarrow> ('v generic_index, unit) sx" where
  "gi_remove i g =
     (case map_of (indices g) i of
        None \<Rightarrow> (Inl Undefined, g)
      | Some v \<Rightarrow>
          (let g' = on_remove i v g
           in (Inr (), g'\<lparr>indices := om_del i (indices g')\<rparr>)))"

definition gi_find :: "nat \<Rightarrow> 'v generic_index \<Rightarrow> 'v option" where
  "gi_find i g = map_of (indices g) i"

definition gi_get :: "nat \<Rightarrow> 'v generic_index \<Rightarrow> 'v result" where
  "gi_get i g = (case gi_find i g of None \<Rightarrow> Inl Out_Of_Range | Some v \<Rightarrow> Inr v)"

subsection \<open>Undo sessions\<close>

definition gi_start_undo_session :: "'v generic_index \<Rightarrow> 'v generic_index" where
  "gi_start_undo_session g =
     g\<lparr>stack := \<lparr>old_values = [], removed_values = [], new_ids = {},
                 old_next_id = next_id g, us_revision = gi_revision g + 1\<rparr> # stack g,
       gi_revision := gi_revision g + 1\<rparr>"

text \<open>The three loops of \<open>undo\<close>.\<close>

fun restore_old ::
    "('v \<Rightarrow> 'v \<Rightarrow> bool) \<Rightarrow> (nat, 'v) omap \<Rightarrow> ((nat, 'v) omap, unit) sx" where
  "restore_old clash [] m = (Inr (), m)"
| "restore_old clash ((i, v) # xs) m =
     (if map_of m i = None then (Inl Undefined, m)
      else if clashes clash i v m then (Inl Logic_Error, om_del i m)
      else restore_old clash xs (om_put i v m))"

definition erase_new :: "nat set \<Rightarrow> ((nat, 'v) omap, unit) sx" where
  "erase_new ids m =
     (if ids \<subseteq> fst ` set m then (Inr (), filter (\<lambda>p. fst p \<notin> ids) m)
      else (Inl Undefined, filter (\<lambda>p. fst p \<notin> ids) m))"

fun restore_removed ::
    "('v \<Rightarrow> 'v \<Rightarrow> bool) \<Rightarrow> (nat, 'v) omap \<Rightarrow> ((nat, 'v) omap, unit) sx" where
  "restore_removed clash [] m = (Inr (), m)"
| "restore_removed clash ((i, v) # xs) m =
     (if map_of m i \<noteq> None \<or> clashes clash i v m then (Inl Logic_Error, m)
      else restore_removed clash xs (om_put i v m))"

definition gi_undo :: "('v \<Rightarrow> 'v \<Rightarrow> bool) \<Rightarrow> ('v generic_index, unit) sx" where
  "gi_undo clash g =
     (case stack g of
        [] \<Rightarrow> (Inr (), g)
      | u # us \<Rightarrow>
         (case restore_old clash (old_values u) (indices g) of
            (Inl e, m) \<Rightarrow> (Inl e, g\<lparr>indices := m\<rparr>)
          | (Inr _, m) \<Rightarrow>
             (case erase_new (new_ids u) m of
                (Inl e, m') \<Rightarrow> (Inl e, g\<lparr>indices := m'\<rparr>)
              | (Inr _, m') \<Rightarrow>
                 (case restore_removed clash (removed_values u) m' of
                    (Inl e, m'') \<Rightarrow> (Inl e, g\<lparr>indices := m'', next_id := old_next_id u\<rparr>)
                  | (Inr _, m'') \<Rightarrow>
                      (Inr (), g\<lparr>indices := m'', next_id := old_next_id u, stack := us,
                                 gi_revision := gi_revision g - 1\<rparr>)))))"

text \<open>The loops of \<open>squash\<close>, merging the newer state into the older one.\<close>

definition merge_old_step ::
    "nat set \<Rightarrow> nat \<times> 'v \<Rightarrow> (nat, 'v) omap \<Rightarrow> (nat, 'v) omap" where
  "merge_old_step new p old =
     (if fst p \<in> new then old
      else if map_of old (fst p) \<noteq> None then old
      else om_emplace (fst p) (snd p) old)"

definition merge_removed_step :: "nat \<times> 'v \<Rightarrow> 'v undo_state \<Rightarrow> 'v undo_state" where
  "merge_removed_step p u =
     (if fst p \<in> new_ids u then u\<lparr>new_ids := new_ids u - {fst p}\<rparr>
      else case map_of (old_values u) (fst p) of
        Some x \<Rightarrow> u\<lparr>removed_values := om_emplace (fst p) x (removed_values u),
                    old_values := om_del (fst p) (old_values u)\<rparr>
      | None \<Rightarrow> u\<lparr>removed_values := om_emplace (fst p) (snd p) (removed_values u)\<rparr>)"

definition merge_states :: "'v undo_state \<Rightarrow> 'v undo_state \<Rightarrow> 'v undo_state" where
  "merge_states u prev =
     fold merge_removed_step (removed_values u)
       (prev\<lparr>old_values := fold (merge_old_step (new_ids prev)) (old_values u) (old_values prev),
             new_ids := new_ids prev \<union> new_ids u\<rparr>)"

definition gi_squash :: "'v generic_index \<Rightarrow> 'v generic_index" where
  "gi_squash g =
     (case stack g of
        [] \<Rightarrow> g
      | [u] \<Rightarrow> g\<lparr>stack := []\<rparr>
      | u # prev # us \<Rightarrow>
          g\<lparr>stack := merge_states u prev # us, gi_revision := gi_revision g - 1\<rparr>)"

definition gi_commit :: "int \<Rightarrow> 'v generic_index \<Rightarrow> 'v generic_index" where
  "gi_commit r g = g\<lparr>stack := rev (dropWhile (\<lambda>u. us_revision u \<le> r) (rev (stack g)))\<rparr>"

lemma gi_undo_pops:
  "gi_undo clash g = (Inr (), g') \<Longrightarrow> stack g' = tl (stack g)"
  by (auto simp: gi_undo_def split: list.splits prod.splits sum.splits)

text \<open>
  \<open>undo_all\<close> loops while the stack is not empty; a failing \<open>undo\<close> leaves it by its
  exception.
\<close>

fun undo_times :: "('v \<Rightarrow> 'v \<Rightarrow> bool) \<Rightarrow> nat \<Rightarrow> ('v generic_index, unit) sx" where
  "undo_times clash 0 g = (Inr (), g)"
| "undo_times clash (Suc n) g =
     (if enabled g
      then (case gi_undo clash g of (Inl e, g') \<Rightarrow> (Inl e, g')
            | (Inr _, g') \<Rightarrow> undo_times clash n g')
      else (Inr (), g))"

definition gi_undo_all :: "('v \<Rightarrow> 'v \<Rightarrow> bool) \<Rightarrow> ('v generic_index, unit) sx" where
  "gi_undo_all clash g = undo_times clash (length (stack g)) g"

definition gi_set_revision :: "int \<Rightarrow> ('v generic_index, unit) sx" where
  "gi_set_revision r g =
     (if stack g \<noteq> [] then (Inl Logic_Error, g) else (Inr (), g\<lparr>gi_revision := r\<rparr>))"

end
