(* ===== verification/Undo_Facts.thy ===== *)
theory Undo_Facts
  imports Undo_Index
begin

section \<open>chainbase: an undo stack is a stack of snapshots\<close>

text \<open>
  The abstract reading of an index: the list of its snapshots, the present contents
  first, then what each undo state would restore. \<open>base u m\<close> is the contents an undo
  state \<open>u\<close> leads back to from \<open>m\<close>. The invariant \<open>gi_inv\<close> says how the three
  containers of an undo state and the contents fit together.
\<close>

subsection \<open>Snapshots and the invariant\<close>

type_synonym 'v snap = "(nat \<Rightarrow> 'v option) \<times> nat"

definition base :: "'v undo_state \<Rightarrow> (nat \<Rightarrow> 'v option) \<Rightarrow> nat \<Rightarrow> 'v option" where
  "base u m i =
     (case map_of (old_values u) i of Some v \<Rightarrow> Some v
      | None \<Rightarrow> (case map_of (removed_values u) i of Some v \<Rightarrow> Some v
                | None \<Rightarrow> if i \<in> new_ids u then None else m i))"

definition no_clash :: "('v \<Rightarrow> 'v \<Rightarrow> bool) \<Rightarrow> (nat \<Rightarrow> 'v option) \<Rightarrow> bool" where
  "no_clash clash m \<longleftrightarrow>
     (\<forall>i j v w. i \<noteq> j \<longrightarrow> m i = Some v \<longrightarrow> m j = Some w \<longrightarrow> \<not> clash v w)"

definition same_key :: "('v \<Rightarrow> 'v \<Rightarrow> bool) \<Rightarrow> 'v \<Rightarrow> 'v \<Rightarrow> bool" where
  "same_key clash v w \<longleftrightarrow> (\<forall>x. clash v x = clash w x \<and> clash x v = clash x w)"

definition us_inv ::
    "('v \<Rightarrow> 'v \<Rightarrow> bool) \<Rightarrow> 'v undo_state \<Rightarrow> (nat \<Rightarrow> 'v option) \<Rightarrow> nat \<Rightarrow> bool" where
  "us_inv clash u m n \<longleftrightarrow>
     om_wf (old_values u) \<and> om_wf (removed_values u) \<and>
     dom (map_of (old_values u)) \<subseteq> dom m \<and>
     dom (map_of (removed_values u)) \<inter> dom m = {} \<and>
     new_ids u = {i \<in> dom m. old_next_id u \<le> i} \<and>
     (\<forall>i. map_of (old_values u) i \<noteq> None \<or> map_of (removed_values u) i \<noteq> None \<longrightarrow>
          i < old_next_id u) \<and>
     old_next_id u \<le> n \<and>
     (\<forall>i v w. map_of (old_values u) i = Some v \<longrightarrow> m i = Some w \<longrightarrow> same_key clash v w)"

fun st_inv ::
    "('v \<Rightarrow> 'v \<Rightarrow> bool) \<Rightarrow> 'v undo_state list \<Rightarrow> (nat \<Rightarrow> 'v option) \<Rightarrow> nat \<Rightarrow> int \<Rightarrow> bool" where
  "st_inv clash [] m n r \<longleftrightarrow> dom m \<subseteq> {..<n} \<and> no_clash clash m"
| "st_inv clash (u # us) m n r \<longleftrightarrow>
     dom m \<subseteq> {..<n} \<and> no_clash clash m \<and> us_inv clash u m n \<and> us_revision u = r \<and>
     st_inv clash us (base u m) (old_next_id u) (r - 1)"

definition gi_inv :: "('v \<Rightarrow> 'v \<Rightarrow> bool) \<Rightarrow> 'v generic_index \<Rightarrow> bool" where
  "gi_inv clash g \<longleftrightarrow>
     symp clash \<and> om_wf (indices g) \<and>
     st_inv clash (stack g) (map_of (indices g)) (next_id g) (gi_revision g)"

fun older :: "'v undo_state list \<Rightarrow> (nat \<Rightarrow> 'v option) \<Rightarrow> 'v snap list" where
  "older [] m = []"
| "older (u # us) m = (base u m, old_next_id u) # older us (base u m)"

definition present :: "'v generic_index \<Rightarrow> 'v snap" where
  "present g = (map_of (indices g), next_id g)"

definition snapshots :: "'v generic_index \<Rightarrow> 'v snap list" where
  "snapshots g = present g # older (stack g) (map_of (indices g))"

lemma length_older [simp]: "length (older us m) = length us"
  by (induction us arbitrary: m) auto

lemma st_inv_dom: "st_inv clash us m n r \<Longrightarrow> dom m \<subseteq> {..<n}"
  by (cases us) auto

lemma st_inv_no_clash: "st_inv clash us m n r \<Longrightarrow> no_clash clash m"
  by (cases us) auto

lemma gi_invD:
  assumes "gi_inv clash g"
  shows "symp clash" "om_wf (indices g)" "no_clash clash (map_of (indices g))"
    "dom (map_of (indices g)) \<subseteq> {..<next_id g}"
  using assms st_inv_dom [of clash "stack g"] st_inv_no_clash [of clash "stack g"]
  unfolding gi_inv_def by blast+

lemma no_clashD:
  "no_clash clash m \<Longrightarrow> i \<noteq> j \<Longrightarrow> m i = Some v \<Longrightarrow> m j = Some w \<Longrightarrow> \<not> clash v w"
  unfolding no_clash_def by blast

lemma no_clash_submap: "no_clash clash m \<Longrightarrow> (\<And>i v. m' i = Some v \<Longrightarrow> m i = Some v) \<Longrightarrow> no_clash clash m'"
  unfolding no_clash_def by blast

lemma clashes_iff:
  assumes "om_wf m"
  shows "clashes clash i v m \<longleftrightarrow> (\<exists>j w. j \<noteq> i \<and> map_of m j = Some w \<and> clash v w)"
  unfolding clashes_def using om_lookup_iff [OF assms] by force

lemma same_key_refl [simp]: "same_key clash v v"
  by (simp add: same_key_def)

lemma same_key_trans: "same_key clash u v \<Longrightarrow> same_key clash v w \<Longrightarrow> same_key clash u w"
  by (simp add: same_key_def)

lemma no_clash_upd_same:
  assumes nc: "no_clash clash m" and i: "m i = Some w" and k: "same_key clash v w"
  shows "no_clash clash (m(i \<mapsto> v))"
  unfolding no_clash_def
proof (intro allI impI)
  fix a b x y
  assume ab: "a \<noteq> b" and x: "(m(i \<mapsto> v)) a = Some x" and y: "(m(i \<mapsto> v)) b = Some y"
  show "\<not> clash x y"
  proof (cases "a = i")
    case True
    then have "x = v" and "m b = Some y" using ab x y by auto
    moreover have "\<not> clash w y" using no_clashD [OF nc _ i \<open>m b = Some y\<close>] ab True by simp
    ultimately show ?thesis using k by (simp add: same_key_def)
  next
    case False
    then have a: "m a = Some x" using x by simp
    show ?thesis
    proof (cases "b = i")
      case True
      then have "y = v" using y by simp
      moreover have "\<not> clash x w" using no_clashD [OF nc False a i] .
      ultimately show ?thesis using k by (simp add: same_key_def)
    next
      case b: False
      then show ?thesis using no_clashD [OF nc ab a] y by simp
    qed
  qed
qed

subsection \<open>The loops of undo\<close>

lemma restore_old_ok:
  assumes "om_wf m" and "om_wf xs" and "no_clash clash (map_of m)"
    and "\<And>i v. map_of xs i = Some v \<Longrightarrow> \<exists>w. map_of m i = Some w \<and> same_key clash v w"
  shows "\<exists>m'. restore_old clash xs m = (Inr (), m') \<and> om_wf m' \<and>
              map_of m' = map_of m ++ map_of xs \<and> no_clash clash (map_of m')"
  using assms
proof (induction xs arbitrary: m)
  case Nil
  then show ?case by simp
next
  case (Cons p xs)
  obtain i v where p: "p = (i, v)" by (cases p)
  from Cons.prems(4) [of i v] obtain w where w: "map_of m i = Some w" "same_key clash v w"
    by (auto simp: p)
  have xi: "map_of xs i = None" and xs: "om_wf xs"
    using Cons.prems(2) by (auto simp: p om_wf_Cons map_of_eq_None_iff)
  have ncl: "\<not> clashes clash i v m"
  proof
    assume "clashes clash i v m"
    then obtain j x where "j \<noteq> i" "map_of m j = Some x" "clash v x"
      using clashes_iff [OF Cons.prems(1)] by blast
    with w no_clashD [OF Cons.prems(3)] show False unfolding same_key_def by metis
  qed
  let ?m = "om_put i v m"
  have m: "om_wf ?m" "map_of ?m = (map_of m)(i \<mapsto> v)" "no_clash clash (map_of ?m)"
    using Cons.prems(1,3) w by (simp_all add: om_simps no_clash_upd_same)
  have "\<exists>y. map_of ?m j = Some y \<and> same_key clash x y" if "map_of xs j = Some x" for j x
  proof -
    have "j \<noteq> i" using that xi by auto
    then show ?thesis using Cons.prems(4) [of j x] that by (simp add: p m(2))
  qed
  from Cons.IH [OF m(1) xs m(3) this] obtain m' where
    m': "restore_old clash xs ?m = (Inr (), m')" "om_wf m'"
        "map_of m' = map_of ?m ++ map_of xs" "no_clash clash (map_of m')" by blast
  have "map_of ?m ++ map_of xs = map_of m ++ map_of (p # xs)"
    using xi by (auto simp: p m(2) map_add_def fun_eq_iff split: option.splits)
  then have m'': "map_of m' = map_of m ++ map_of (p # xs)" using m'(3) by simp
  have "restore_old clash (p # xs) m = (Inr (), m')"
    using m'(1) w ncl by (simp add: p)
  with m' m'' show ?case by blast
qed

lemma erase_new_ok:
  assumes "om_wf m" and "ids \<subseteq> dom (map_of m)"
  shows "\<exists>m'. erase_new ids m = (Inr (), m') \<and> om_wf m' \<and>
              map_of m' = (\<lambda>i. if i \<in> ids then None else map_of m i)"
proof -
  have "ids \<subseteq> fst ` set m" using assms(2) by (simp add: dom_map_of_conv_image_fst)
  then show ?thesis
    using assms(1) map_of_filter_keys [of "\<lambda>i. i \<notin> ids" m]
    by (auto simp: erase_new_def om_wf_filter fun_eq_iff)
qed

lemma restore_removed_ok:
  assumes "om_wf m" and "om_wf xs" and "dom (map_of xs) \<inter> dom (map_of m) = {}"
    and "no_clash clash (map_of m ++ map_of xs)"
  shows "\<exists>m'. restore_removed clash xs m = (Inr (), m') \<and> om_wf m' \<and>
              map_of m' = map_of m ++ map_of xs"
  using assms
proof (induction xs arbitrary: m)
  case Nil
  then show ?case by simp
next
  case (Cons p xs)
  obtain i v where p: "p = (i, v)" by (cases p)
  have i: "map_of xs i = None" and xs: "om_wf xs"
    using Cons.prems(2) by (auto simp: p om_wf_Cons map_of_eq_None_iff)
  have mi: "map_of m i = None" using Cons.prems(3) by (auto simp: p)
  have all: "(map_of m ++ map_of (p # xs)) i = Some v"
    by (simp add: p)
  have ncl: "\<not> clashes clash i v m"
  proof
    assume "clashes clash i v m"
    then obtain j x where j: "j \<noteq> i" "map_of m j = Some x" "clash v x"
      using clashes_iff [OF Cons.prems(1)] by blast
    then have "map_of (p # xs) j = None" using Cons.prems(3) by (metis disjoint_iff domI domIff)
    then have "(map_of m ++ map_of (p # xs)) j = Some x" using j by (simp add: map_add_def)
    from no_clashD [OF Cons.prems(4) _ all this] j show False by simp
  qed
  let ?m = "om_put i v m"
  have m: "om_wf ?m" "map_of ?m = (map_of m)(i \<mapsto> v)"
    using Cons.prems(1) by (simp_all add: om_simps)
  have eq: "map_of ?m ++ map_of xs = map_of m ++ map_of (p # xs)"
    using i by (auto simp: p m(2) map_add_def fun_eq_iff split: option.splits)
  have "dom (map_of xs) \<inter> dom (map_of ?m) = {}"
    using Cons.prems(3) i by (auto simp: p m(2) disjoint_iff dom_def split: if_splits)
  from Cons.IH [OF m(1) xs this, unfolded eq, OF Cons.prems(4)] obtain m' where
    m': "restore_removed clash xs ?m = (Inr (), m')" "om_wf m'"
        "map_of m' = map_of m ++ map_of (p # xs)"
    by blast
  have "restore_removed clash (p # xs) m = (Inr (), m')"
    using m'(1) mi ncl by (simp add: p)
  with m' show ?case by blast
qed

text \<open>\<open>undo\<close> restores exactly the base of the newest undo state.\<close>

lemma gi_undo_ok:
  assumes inv: "gi_inv clash g" and st: "stack g = u # us"
  shows "\<exists>m'. gi_undo clash g =
           (Inr (), g\<lparr>indices := m', next_id := old_next_id u, stack := us,
                      gi_revision := gi_revision g - 1\<rparr>) \<and>
         om_wf m' \<and> map_of m' = base u (map_of (indices g))"
proof -
  let ?m = "map_of (indices g)"
  have wf: "om_wf (indices g)" and nc: "no_clash clash ?m" and u: "us_inv clash u ?m (next_id g)"
    and us: "st_inv clash us (base u ?m) (old_next_id u) (gi_revision g - 1)"
    using inv st by (simp_all add: gi_inv_def)
  have old: "om_wf (old_values u)" and removed: "om_wf (removed_values u)"
    using u by (simp_all add: us_inv_def)
  have "\<exists>w. ?m i = Some w \<and> same_key clash v w" if "map_of (old_values u) i = Some v" for i v
    using u that unfolding us_inv_def by blast
  from restore_old_ok [OF wf old nc this] obtain m1 where
    m1: "restore_old clash (old_values u) (indices g) = (Inr (), m1)" "om_wf m1"
        "map_of m1 = ?m ++ map_of (old_values u)"
    by blast
  have "new_ids u \<subseteq> dom (map_of m1)"
    using u unfolding us_inv_def m1(3) by auto
  from erase_new_ok [OF m1(2) this] obtain m2 where
    m2: "erase_new (new_ids u) m1 = (Inr (), m2)" "om_wf m2"
        "map_of m2 = (\<lambda>i. if i \<in> new_ids u then None else map_of m1 i)" by blast
  have lt: "i < old_next_id u" if "map_of (removed_values u) i \<noteq> None \<or> map_of (old_values u) i \<noteq> None" for i
    using u that unfolding us_inv_def by blast
  have eq: "map_of m2 ++ map_of (removed_values u) = base u ?m"
  proof
    fix i
    have "i \<notin> new_ids u" if "map_of (old_values u) i \<noteq> None"
      using lt [of i] that u unfolding us_inv_def by auto
    moreover have "map_of (removed_values u) i = None" if "map_of (old_values u) i \<noteq> None"
      using that u unfolding us_inv_def by (metis IntI domIff empty_iff subsetD)
    ultimately show "(map_of m2 ++ map_of (removed_values u)) i = base u ?m i"
      by (auto simp: base_def m2(3) m1(3) map_add_def split: option.splits)
  qed
  have "dom (map_of m1) \<subseteq> dom ?m"
    using u unfolding us_inv_def m1(3) by simp
  moreover have "dom (map_of m2) \<subseteq> dom (map_of m1)"
    unfolding m2(3) by (auto split: if_splits)
  moreover have "dom (map_of (removed_values u)) \<inter> dom ?m = {}"
    using u by (simp add: us_inv_def)
  ultimately have "dom (map_of (removed_values u)) \<inter> dom (map_of m2) = {}"
    by blast
  from restore_removed_ok [OF m2(2) removed this, unfolded eq, OF st_inv_no_clash [OF us]]
  obtain m3 where
    m3: "restore_removed clash (removed_values u) m2 = (Inr (), m3)" "om_wf m3"
        "map_of m3 = base u ?m"
    by blast
  show ?thesis
    using m1 m2 m3 st by (auto simp: gi_undo_def)
qed

lemma gi_undo_inv:
  assumes "gi_inv clash g" and "gi_undo clash g = (r, g')"
  shows "r = Inr () \<and> gi_inv clash g' \<and> stack g' = tl (stack g) \<and>
         snapshots g' = (if stack g = [] then snapshots g else tl (snapshots g))"
proof (cases "stack g")
  case Nil
  with assms show ?thesis by (auto simp: gi_undo_def)
next
  case (Cons u us)
  from gi_undo_ok [OF assms(1) Cons] obtain m' where
    m': "g' = g\<lparr>indices := m', next_id := old_next_id u, stack := us,
                 gi_revision := gi_revision g - 1\<rparr>" "r = Inr ()"
        "om_wf m'" "map_of m' = base u (map_of (indices g))"
    using assms(2) by auto
  then show ?thesis
    using assms(1) Cons by (simp add: gi_inv_def snapshots_def present_def)
qed

subsection \<open>Writes change the present only\<close>

text \<open>
  The common part of the three writes: the contents become \<open>m'\<close> and the newest undo
  state records the change so that its base stays what it was.
\<close>

definition written ::
    "'v generic_index \<Rightarrow> ('v undo_state \<Rightarrow> 'v undo_state) \<Rightarrow> (nat, 'v) omap \<Rightarrow> nat \<Rightarrow>
     'v generic_index" where
  "written g f m n = with_head f (g\<lparr>indices := m, next_id := n\<rparr>)"

lemma written_fields [simp]:
  "indices (written g f m n) = m" "next_id (written g f m n) = n"
  "gi_revision (written g f m n) = gi_revision g"
  "stack (written g f m n) = (case stack g of [] \<Rightarrow> [] | u # us \<Rightarrow> f u # us)"
  by (simp_all add: written_def with_head_def split: list.splits)

definition records ::
    "('v \<Rightarrow> 'v \<Rightarrow> bool) \<Rightarrow> ('v undo_state \<Rightarrow> 'v undo_state) \<Rightarrow> (nat \<Rightarrow> 'v option) \<Rightarrow>
     (nat \<Rightarrow> 'v option) \<Rightarrow> nat \<Rightarrow> nat \<Rightarrow> bool" where
  "records clash f m m' n n' \<longleftrightarrow>
     (\<forall>u. dom m \<subseteq> {..<n} \<longrightarrow> us_inv clash u m n \<longrightarrow>
          us_inv clash (f u) m' n' \<and> base (f u) m' = base u m \<and>
          old_next_id (f u) = old_next_id u \<and> us_revision (f u) = us_revision u)"

lemma written_ok:
  assumes inv: "gi_inv clash g" and wf: "om_wf m" and dom: "dom (map_of m) \<subseteq> {..<n}"
    and nc: "no_clash clash (map_of m)"
    and rec: "records clash f (map_of (indices g)) (map_of m) (next_id g) n"
  shows "gi_inv clash (written g f m n) \<and> tl (snapshots (written g f m n)) = tl (snapshots g)"
proof (cases "stack g")
  case Nil
  with assms show ?thesis by (simp add: gi_inv_def snapshots_def)
next
  case (Cons u us)
  let ?m = "map_of (indices g)"
  have "dom ?m \<subseteq> {..<next_id g}" and "us_inv clash u ?m (next_id g)"
    using inv Cons by (simp_all add: gi_inv_def)
  with rec have "us_inv clash (f u) (map_of m) n" "base (f u) (map_of m) = base u ?m"
    "old_next_id (f u) = old_next_id u" "us_revision (f u) = us_revision u"
    unfolding records_def by blast+
  with assms Cons show ?thesis by (simp add: gi_inv_def snapshots_def)
qed

lemma us_invD:
  assumes "us_inv clash u m n"
  shows "om_wf (old_values u)" "om_wf (removed_values u)"
    "map_of (old_values u) i = Some v \<Longrightarrow> m i \<noteq> None"
    "m i = Some w \<Longrightarrow> map_of (removed_values u) i = None"
    "map_of (old_values u) i = Some v \<Longrightarrow> map_of (removed_values u) i = None"
    "i \<in> new_ids u \<longleftrightarrow> m i \<noteq> None \<and> old_next_id u \<le> i"
    "map_of (old_values u) i = Some v \<Longrightarrow> i < old_next_id u"
    "map_of (removed_values u) i = Some v \<Longrightarrow> i < old_next_id u"
    "old_next_id u \<le> n"
    "map_of (old_values u) i = Some v \<Longrightarrow> m i = Some w \<Longrightarrow> same_key clash v w"
proof -
  have disj: "dom (map_of (removed_values u)) \<inter> dom m = {}"
    and sub: "dom (map_of (old_values u)) \<subseteq> dom m"
    using assms by (simp_all add: us_inv_def)
  show "om_wf (old_values u)" "om_wf (removed_values u)" "old_next_id u \<le> n"
    using assms by (simp_all add: us_inv_def)
  show "i \<in> new_ids u \<longleftrightarrow> m i \<noteq> None \<and> old_next_id u \<le> i"
    using assms by (auto simp: us_inv_def)
  show "m i \<noteq> None" if "map_of (old_values u) i = Some v" using sub that by blast
  show "map_of (removed_values u) i = None" if "m i = Some w" using disj that by blast
  show "map_of (removed_values u) i = None" if "map_of (old_values u) i = Some v"
    using disj sub that by blast
  show "i < old_next_id u" if "map_of (old_values u) i = Some v"
    using assms that unfolding us_inv_def by blast
  show "i < old_next_id u" if "map_of (removed_values u) i = Some v"
    using assms that unfolding us_inv_def by blast
  show "same_key clash v w" if "map_of (old_values u) i = Some v" "m i = Some w"
    using assms that unfolding us_inv_def by blast
qed

lemma us_invI:
  assumes "om_wf (old_values u)" "om_wf (removed_values u)"
    "\<And>i v. map_of (old_values u) i = Some v \<Longrightarrow>
       i < old_next_id u \<and> (\<exists>w. m i = Some w \<and> same_key clash v w)"
    "\<And>i v. map_of (removed_values u) i = Some v \<Longrightarrow> i < old_next_id u \<and> m i = None"
    "\<And>i. i \<in> new_ids u \<longleftrightarrow> m i \<noteq> None \<and> old_next_id u \<le> i"
    "old_next_id u \<le> n"
  shows "us_inv clash u m n"
  unfolding us_inv_def
proof (intro conjI)
  show "dom (map_of (old_values u)) \<subseteq> dom m" using assms(3) by blast
  show "dom (map_of (removed_values u)) \<inter> dom m = {}" using assms(4) by fastforce
  show "new_ids u = {i \<in> dom m. old_next_id u \<le> i}" using assms(5) by auto
  show "\<forall>i. map_of (old_values u) i \<noteq> None \<or> map_of (removed_values u) i \<noteq> None \<longrightarrow>
          i < old_next_id u" using assms(3,4) by blast
  show "\<forall>i v w. map_of (old_values u) i = Some v \<longrightarrow> m i = Some w \<longrightarrow> same_key clash v w"
    using assms(3) by fastforce
qed (use assms in simp_all)

lemma records_create:
  "records clash (note_create n) m (m(n \<mapsto> v)) n (Suc n)"
  unfolding records_def
proof (intro allI impI conjI)
  fix u
  assume dom: "dom m \<subseteq> {..<n}" and u: "us_inv clash u m n"
  note D = us_invD [OF u]
  have n: "map_of (old_values u) n = None" "map_of (removed_values u) n = None" "m n = None"
    using dom D(7,8) [of n] D(9) by (cases "map_of (old_values u) n"; fastforce)+
  show "base (note_create n u) (m(n \<mapsto> v)) = base u m"
    using n by (auto simp: base_def note_create_def fun_eq_iff split: option.splits)
  show "us_inv clash (note_create n u) (m(n \<mapsto> v)) (Suc n)"
  proof (rule us_invI)
    fix i x
    assume x: "map_of (old_values (note_create n u)) i = Some x"
    then have "i \<noteq> n" using n by (auto simp: note_create_def)
    then show "i < old_next_id (note_create n u) \<and>
        (\<exists>w. (m(n \<mapsto> v)) i = Some w \<and> same_key clash x w)"
      using x D(3,7,10) [of i x] by (auto simp: note_create_def)
  next
    fix i x
    assume x: "map_of (removed_values (note_create n u)) i = Some x"
    then have "i \<noteq> n" using n by (auto simp: note_create_def)
    then show "i < old_next_id (note_create n u) \<and> (m(n \<mapsto> v)) i = None"
      using x D(8) [of i x] D(4) [of i] by (cases "m i") (auto simp: note_create_def)
  qed (use D n in \<open>auto simp: note_create_def\<close>)
qed (auto simp: note_create_def)

lemma records_modify:
  assumes i: "m i = Some v" and k: "same_key clash v w"
  shows "records clash (note_modify i v) m (m(i \<mapsto> w)) n n"
  unfolding records_def
proof (intro allI impI conjI)
  fix u
  assume dom: "dom m \<subseteq> {..<n}" and u: "us_inv clash u m n"
  note D = us_invD [OF u]
  have ri: "map_of (removed_values u) i = None" using D(4) [OF i] .
  have old: "map_of (old_values (note_modify i v u)) j =
      (if j = i \<and> i \<notin> new_ids u \<and> map_of (old_values u) i = None then Some v
       else map_of (old_values u) j)" for j
    by (auto simp: note_modify_def om_simps)
  have rest: "removed_values (note_modify i v u) = removed_values u"
    "new_ids (note_modify i v u) = new_ids u" "old_next_id (note_modify i v u) = old_next_id u"
    "us_revision (note_modify i v u) = us_revision u"
    by (auto simp: note_modify_def)
  show "old_next_id (note_modify i v u) = old_next_id u"
    "us_revision (note_modify i v u) = us_revision u" using rest by simp_all
  show "base (note_modify i v u) (m(i \<mapsto> w)) = base u m"
    using i ri D(6) [of i]
    by (auto simp: base_def fun_eq_iff old rest split: option.splits dest: D(7))
  show "us_inv clash (note_modify i v u) (m(i \<mapsto> w)) n"
  proof (rule us_invI)
    show "om_wf (old_values (note_modify i v u))"
      using D(1) by (simp add: note_modify_def om_simps)
    fix j x
    assume x: "map_of (old_values (note_modify i v u)) j = Some x"
    show "j < old_next_id (note_modify i v u) \<and>
        (\<exists>y. (m(i \<mapsto> w)) j = Some y \<and> same_key clash x y)"
    proof (cases "map_of (old_values u) j")
      case None
      with x have "j = i" "x = v" "i \<notin> new_ids u" by (auto simp: old split: if_splits)
      with i k D(6) [of i] show ?thesis by (auto simp: rest)
    next
      case (Some y)
      with x have "x = y" by (auto simp: old split: if_splits)
      with Some D(3,7) [OF Some] D(10) [OF Some] i k show ?thesis
        by (auto simp: rest intro: same_key_trans)
    qed
  next
    fix j x
    assume "map_of (removed_values (note_modify i v u)) j = Some x"
    then have x: "map_of (removed_values u) j = Some x" by (simp add: rest)
    then have "j \<noteq> i" and "m j = None" using ri D(4) [of j] by (auto, cases "m j", auto)
    with D(8) [OF x] show "j < old_next_id (note_modify i v u) \<and> (m(i \<mapsto> w)) j = None"
      by (simp add: rest)
  qed (use D i in \<open>auto simp: rest\<close>)
qed

lemma records_remove:
  assumes i: "m i = Some v"
  shows "records clash (note_remove i v) m (m(i := None)) n n"
  unfolding records_def
proof (intro allI impI conjI)
  fix u
  assume dom: "dom m \<subseteq> {..<n}" and u: "us_inv clash u m n"
  note D = us_invD [OF u]
  have ri: "map_of (removed_values u) i = None" using D(4) [OF i] .
  have oldn: "map_of (old_values u) i = None" if "i \<in> new_ids u"
    using that D(6) [of i] D(7) [of i] by (cases "map_of (old_values u) i") auto
  have old: "map_of (old_values (note_remove i v u)) j =
      (if j = i then None else map_of (old_values u) j)" for j
    using oldn by (auto simp: note_remove_def om_simps split: option.splits)
  have removed: "map_of (removed_values (note_remove i v u)) j =
      (if j = i \<and> i \<notin> new_ids u
       then (case map_of (old_values u) i of Some x \<Rightarrow> Some x | None \<Rightarrow> Some v)
       else map_of (removed_values u) j)" for j
    using ri by (auto simp: note_remove_def om_simps split: option.splits)
  have rest: "new_ids (note_remove i v u) = new_ids u - {i}"
    "old_next_id (note_remove i v u) = old_next_id u"
    "us_revision (note_remove i v u) = us_revision u"
    by (auto simp: note_remove_def split: option.splits)
  show "old_next_id (note_remove i v u) = old_next_id u"
    "us_revision (note_remove i v u) = us_revision u" using rest by simp_all
  show "base (note_remove i v u) (m(i := None)) = base u m"
    using i ri oldn
    by (auto simp: base_def fun_eq_iff old removed rest split: option.splits)
  show "us_inv clash (note_remove i v u) (m(i := None)) n"
  proof (rule us_invI)
    show "om_wf (old_values (note_remove i v u))" "om_wf (removed_values (note_remove i v u))"
      using D(1,2) by (auto simp: note_remove_def om_simps split: option.splits)
    fix j x
    assume x: "map_of (old_values (note_remove i v u)) j = Some x"
    then show "j < old_next_id (note_remove i v u) \<and>
        (\<exists>w. (m(i := None)) j = Some w \<and> same_key clash x w)"
      using D(3,7,10) [of j x] by (auto simp: old rest split: if_splits)
  next
    fix j x
    assume x: "map_of (removed_values (note_remove i v u)) j = Some x"
    show "j < old_next_id (note_remove i v u) \<and> (m(i := None)) j = None"
    proof (cases "j = i")
      case True
      with x ri D(6) [of i] i show ?thesis by (auto simp: removed rest split: if_splits)
    next
      case False
      with x have y: "map_of (removed_values u) j = Some x" by (simp add: removed)
      then have "m j = None" using D(4) [of j] by (cases "m j") auto
      with D(8) [OF y] False show ?thesis by (simp add: rest)
    qed
  qed (use D in \<open>auto simp: rest\<close>)
qed

end
