(* ===== verification/Undo_Store.thy ===== *)
theory Undo_Store
  imports Prelude
begin

section \<open>The interface between a store with undo sessions and its clients\<close>

text \<open>
  What \<open>news::chain::database\<close> relies on when it wraps every block and transaction in a
  session: the present contents (\<open>now\<close>), the contents the open sessions would restore
  (\<open>past\<close>, newest first) and the laws of starting, squashing and undoing a session. The
  index of one object class and the list of all indices both provide it.
\<close>

text \<open>What may happen inside a session: writes and nested sessions, squashed or undone.\<close>

inductive nested ::
    "('s \<Rightarrow> 's) \<Rightarrow> ('s \<Rightarrow> 's) \<Rightarrow> ('s \<Rightarrow> unit result \<times> 's) \<Rightarrow> ('s \<Rightarrow> 's \<Rightarrow> bool) \<Rightarrow> 's \<Rightarrow> 's \<Rightarrow> bool"
  for start squash :: "'s \<Rightarrow> 's" and undo :: "'s \<Rightarrow> unit result \<times> 's"
  and wr :: "'s \<Rightarrow> 's \<Rightarrow> bool" where
  nested_nil: "nested start squash undo wr s s"
| nested_write: "nested start squash undo wr s t \<Longrightarrow> wr t u \<Longrightarrow> nested start squash undo wr s u"
| nested_squash: "nested start squash undo wr s t \<Longrightarrow> nested start squash undo wr (start t) u \<Longrightarrow>
     nested start squash undo wr s (squash u)"
| nested_undo: "nested start squash undo wr s t \<Longrightarrow> nested start squash undo wr (start t) u \<Longrightarrow>
     undo u = (Inr (), v) \<Longrightarrow> nested start squash undo wr s v"

text \<open>Sessions left open one after the other, as the database does with one per block.\<close>

inductive opened ::
    "('s \<Rightarrow> 's) \<Rightarrow> ('s \<Rightarrow> 's) \<Rightarrow> ('s \<Rightarrow> unit result \<times> 's) \<Rightarrow> ('s \<Rightarrow> 's \<Rightarrow> bool) \<Rightarrow> 's list \<Rightarrow> 's \<Rightarrow> bool"
  for start squash :: "'s \<Rightarrow> 's" and undo :: "'s \<Rightarrow> unit result \<times> 's"
  and wr :: "'s \<Rightarrow> 's \<Rightarrow> bool" where
  opened_none: "opened start squash undo wr [] s"
| opened_next: "opened start squash undo wr ss s \<Longrightarrow> nested start squash undo wr (start s) t \<Longrightarrow>
     opened start squash undo wr (s # ss) t"

fun undo_n :: "nat \<Rightarrow> ('s \<Rightarrow> unit result \<times> 's) \<Rightarrow> 's \<Rightarrow> unit result \<times> 's" where
  "undo_n 0 undo s = (Inr (), s)"
| "undo_n (Suc k) undo s = (case undo s of (Inl e, t) \<Rightarrow> (Inl e, t) | (Inr _, t) \<Rightarrow> undo_n k undo t)"

locale undo_store =
  fixes inv :: "'s \<Rightarrow> bool"
    and now :: "'s \<Rightarrow> 'a"
    and past :: "'s \<Rightarrow> 'a list"
    and start squash :: "'s \<Rightarrow> 's"
    and undo :: "'s \<Rightarrow> unit result \<times> 's"
    and wr :: "'s \<Rightarrow> 's \<Rightarrow> bool"
  assumes write_law: "inv s \<Longrightarrow> wr s t \<Longrightarrow> inv t \<and> past t = past s"
    and start_law: "inv s \<Longrightarrow> inv (start s) \<and> now (start s) = now s \<and> past (start s) = now s # past s"
    and squash_law: "inv s \<Longrightarrow> past s = a # h \<Longrightarrow>
          inv (squash s) \<and> now (squash s) = now s \<and> past (squash s) = h"
    and undo_law: "inv s \<Longrightarrow> past s = a # h \<Longrightarrow>
          \<exists>t. undo s = (Inr (), t) \<and> inv t \<and> now t = a \<and> past t = h"
begin

lemma nested_ok:
  assumes "nested start squash undo wr s t" and "inv s"
  shows "inv t \<and> past t = past s"
  using assms
proof (induction rule: nested.induct)
  case (nested_nil s)
  then show ?case by simp
next
  case (nested_write s t u)
  then show ?case by (metis write_law)
next
  case (nested_squash s t u)
  then have t: "inv t" "past t = past s" by simp_all
  then have u: "inv u" "past u = now t # past s"
    using nested_squash.IH(2) start_law [OF t(1)] by simp_all
  then show ?case using squash_law [OF u] by simp
next
  case (nested_undo s t u v)
  then have t: "inv t" "past t = past s" by simp_all
  then have u: "inv u" "past u = now t # past s"
    using nested_undo.IH(2) start_law [OF t(1)] by simp_all
  then show ?case using undo_law [OF u] nested_undo.hyps(3) by auto
qed

lemma rollback:
  assumes "inv s" and "nested start squash undo wr (start s) t"
  shows "\<exists>u. undo t = (Inr (), u) \<and> inv u \<and> now u = now s \<and> past u = past s"
proof -
  have "inv t" "past t = now s # past s"
    using nested_ok [OF assms(2)] start_law [OF assms(1)] by simp_all
  then show ?thesis by (rule undo_law)
qed

lemma merged:
  assumes "inv s" and "nested start squash undo wr (start s) t"
  shows "inv (squash t) \<and> now (squash t) = now t \<and> past (squash t) = past s"
proof -
  have "inv t" "past t = now s # past s"
    using nested_ok [OF assms(2)] start_law [OF assms(1)] by simp_all
  then show ?thesis by (rule squash_law)
qed

lemma opened_ok:
  assumes "opened start squash undo wr ss t" and "ss \<noteq> []" and "inv (last ss)"
  shows "inv t \<and> past t = map now ss @ past (last ss)"
  using assms
proof (induction rule: opened.induct)
  case (opened_none s)
  then show ?case by simp
next
  case (opened_next ss s t)
  have s: "inv s \<and> past s = map now ss @ past (last (s # ss))"
    using opened_next by (cases "ss = []") auto
  then show ?case
    using nested_ok [OF opened_next.hyps(2)] start_law by simp
qed

lemma undo_n_ok:
  assumes "inv s" and "length hs = k" and "past s = hs @ h" and "k > 0"
  shows "\<exists>t. undo_n k undo s = (Inr (), t) \<and> inv t \<and> now t = last hs \<and> past t = h"
  using assms
proof (induction hs arbitrary: s k)
  case Nil
  then show ?case by simp
next
  case (Cons a hs)
  obtain j where j: "k = Suc j" using Cons.prems(4) by (cases k) auto
  have "past s = a # (hs @ h)" using Cons.prems(3) by simp
  from undo_law [OF Cons.prems(1) this] obtain t where
    t: "undo s = (Inr (), t)" "inv t" "now t = a" "past t = hs @ h" by blast
  show ?case
  proof (cases "hs = []")
    case True
    with t j Cons.prems(2) show ?thesis by auto
  next
    case False
    with Cons.IH [OF t(2) _ t(4), of j] j Cons.prems(2) t(1) show ?thesis by auto
  qed
qed

text \<open>Undoing every open session gives back the contents before the first one.\<close>

lemma unwind:
  assumes "opened start squash undo wr ss t" and "ss \<noteq> []" and "inv (last ss)"
  shows "\<exists>u. undo_n (length ss) undo t = (Inr (), u) \<and> inv u \<and> now u = now (last ss) \<and>
             past u = past (last ss)"
  using opened_ok [OF assms] undo_n_ok [of t "map now ss" "length ss" "past (last ss)"] assms(2)
  by (simp add: last_map)

end

end
