(* ===== verification/Undo_Theorems.thy ===== *)
theory Undo_Theorems
  imports Undo_Facts Undo_Store
begin

section \<open>chainbase: what the operations of an index do to its snapshots\<close>

text \<open>
  Each operation as a step on the list of snapshots: writes replace the present, a
  session duplicates it, undo drops it, squash drops the one before it. The last part
  states the interface a database builds on as a locale.
\<close>

subsection \<open>Writes\<close>

lemma gi_emplace_written:
  assumes "gi_emplace clash v g = (Inr i, g')"
  shows "i = next_id g \<and> map_of (indices g) i = None \<and> \<not> clashes clash i v (indices g) \<and>
         g' = written g (note_create i) (om_put i v (indices g)) (Suc i)"
  using assms
  by (auto simp: gi_emplace_def on_create_def written_def Let_def split: if_splits)

lemma gi_emplace_error:
  "gi_emplace clash v g = (Inl e, g') \<Longrightarrow> g' = g"
  by (auto simp: gi_emplace_def Let_def split: if_splits)

lemma gi_modify_written:
  assumes "gi_modify clash i f g = (Inr x, g')"
  shows "\<exists>v w. map_of (indices g) i = Some v \<and> f v = Inr w \<and> \<not> clashes clash i w (indices g) \<and>
         g' = written g (note_modify i v) (om_put i w (indices g)) (next_id g)"
proof -
  obtain v where v: "map_of (indices g) i = Some v"
    using assms by (auto simp: gi_modify_def split: option.splits)
  moreover obtain w where w: "f v = Inr w"
    using assms v by (auto simp: gi_modify_def Let_def split: sum.splits)
  ultimately show ?thesis
    using assms
    by (cases "stack g")
       (auto simp: gi_modify_def on_modify_def written_def with_head_def Let_def split: if_splits)
qed

lemma gi_remove_written:
  assumes "gi_remove i g = (Inr x, g')"
  shows "\<exists>v. map_of (indices g) i = Some v \<and>
         g' = written g (note_remove i v) (om_del i (indices g)) (next_id g)"
  using assms
  by (cases "stack g")
     (auto simp: gi_remove_def on_remove_def written_def with_head_def Let_def
       split: option.splits)

lemma no_clash_put:
  assumes nc: "no_clash clash (map_of m)" and wf: "om_wf m" and s: "symp clash"
    and new: "\<not> clashes clash i v m"
  shows "no_clash clash (map_of (om_put i v m))"
  unfolding no_clash_def
proof (intro allI impI)
  fix a b x y
  assume ab: "a \<noteq> b" and x: "map_of (om_put i v m) a = Some x"
    and y: "map_of (om_put i v m) b = Some y"
  have free: "\<not> clash v w \<and> \<not> clash w v" if "j \<noteq> i" "map_of m j = Some w" for j w
    using new that clashes_iff [OF wf] sympD [OF s] by metis
  show "\<not> clash x y"
  proof (cases "a = i \<or> b = i")
    case True
    with x y ab free [of a x] free [of b y] show ?thesis by (auto simp: om_simps)
  next
    case False
    with x y ab nc show ?thesis by (auto simp: om_simps dest: no_clashD)
  qed
qed

lemma gi_emplace_ok:
  assumes inv: "gi_inv clash g" and e: "gi_emplace clash v g = (r, g')"
  shows "gi_inv clash g' \<and> tl (snapshots g') = tl (snapshots g) \<and>
         present g' = (case r of Inl _ \<Rightarrow> present g
           | Inr i \<Rightarrow> ((fst (present g))(i \<mapsto> v), Suc i))"
proof (cases r)
  case (Inl x)
  with e have "g' = g" by (intro gi_emplace_error) simp
  with Inl inv show ?thesis by simp
next
  case (Inr i)
  note w = gi_emplace_written [OF e [unfolded Inr]]
  note s = gi_invD(1) [OF inv] and wf = gi_invD(2) [OF inv] and nc = gi_invD(3) [OF inv]
    and dom = gi_invD(4) [OF inv]
  have "gi_inv clash (written g (note_create i) (om_put i v (indices g)) (Suc i)) \<and>
      tl (snapshots (written g (note_create i) (om_put i v (indices g)) (Suc i))) = tl (snapshots g)"
  proof (rule written_ok [OF inv])
    show "om_wf (om_put i v (indices g))" using wf by (simp add: om_simps)
    show "dom (map_of (om_put i v (indices g))) \<subseteq> {..<Suc i}"
      using w dom by (auto simp: om_simps)
    show "no_clash clash (map_of (om_put i v (indices g)))"
      using no_clash_put [OF nc wf s] w by blast
    show "records clash (note_create i) (map_of (indices g)) (map_of (om_put i v (indices g)))
        (next_id g) (Suc i)"
      using w records_create by (simp add: om_simps)
  qed
  with w Inr show ?thesis by (simp add: present_def om_simps)
qed

lemma gi_modify_ok:
  assumes inv: "gi_inv clash g" and e: "gi_modify clash i f g = (Inr x, g')"
    and key: "\<And>v w. f v = Inr w \<Longrightarrow> same_key clash v w"
  shows "gi_inv clash g' \<and> tl (snapshots g') = tl (snapshots g) \<and>
         (\<exists>v w. fst (present g) i = Some v \<and> f v = Inr w \<and>
                present g' = ((fst (present g))(i \<mapsto> w), snd (present g)))"
proof -
  from gi_modify_written [OF e] obtain v w where
    v: "map_of (indices g) i = Some v" and fv: "f v = Inr w" and
    g': "g' = written g (note_modify i v) (om_put i w (indices g)) (next_id g)" by blast
  note wf = gi_invD(2) [OF inv] and nc = gi_invD(3) [OF inv] and dom = gi_invD(4) [OF inv]
  have k: "same_key clash v w" by (rule key [OF fv])
  then have k': "same_key clash w v" by (simp add: same_key_def)
  have "gi_inv clash g' \<and> tl (snapshots g') = tl (snapshots g)"
    unfolding g'
  proof (rule written_ok [OF inv])
    show "om_wf (om_put i w (indices g))" using wf by (simp add: om_simps)
    show "dom (map_of (om_put i w (indices g))) \<subseteq> {..<next_id g}"
      using v dom by (auto simp: om_simps)
    show "no_clash clash (map_of (om_put i w (indices g)))"
      using no_clash_upd_same [OF nc v k'] by (simp add: om_simps)
    show "records clash (note_modify i v) (map_of (indices g)) (map_of (om_put i w (indices g)))
        (next_id g) (next_id g)"
      using records_modify [of "map_of (indices g)", OF v k] by (simp add: om_simps)
  qed
  with v fv show ?thesis by (auto simp: g' present_def om_simps)
qed

lemma gi_remove_ok:
  assumes inv: "gi_inv clash g" and e: "gi_remove i g = (Inr x, g')"
  shows "gi_inv clash g' \<and> tl (snapshots g') = tl (snapshots g) \<and>
         present g' = ((fst (present g))(i := None), snd (present g))"
proof -
  from gi_remove_written [OF e] obtain v where
    v: "map_of (indices g) i = Some v" and
    g': "g' = written g (note_remove i v) (om_del i (indices g)) (next_id g)" by blast
  note wf = gi_invD(2) [OF inv] and nc = gi_invD(3) [OF inv] and dom = gi_invD(4) [OF inv]
  have "gi_inv clash g' \<and> tl (snapshots g') = tl (snapshots g)"
    unfolding g'
  proof (rule written_ok [OF inv])
    show "om_wf (om_del i (indices g))" using wf by (simp add: om_simps)
    show "dom (map_of (om_del i (indices g))) \<subseteq> {..<next_id g}"
      using dom by (auto simp: om_simps)
    show "no_clash clash (map_of (om_del i (indices g)))"
      using nc by (rule no_clash_submap) (auto simp: om_simps split: if_splits)
    show "records clash (note_remove i v) (map_of (indices g)) (map_of (om_del i (indices g)))
        (next_id g) (next_id g)"
      using records_remove [of "map_of (indices g)", OF v] by (simp add: om_simps)
  qed
  then show ?thesis by (simp add: g' present_def om_simps)
qed

subsection \<open>One write\<close>

text \<open>
  One call of \<open>emplace\<close> (refused or not), \<open>modify\<close> with a modifier that leaves the
  unique keys alone, or \<open>remove\<close>.
\<close>

inductive write_step ::
    "('v \<Rightarrow> 'v \<Rightarrow> bool) \<Rightarrow> 'v generic_index \<Rightarrow> 'v generic_index \<Rightarrow> bool"
  for clash :: "'v \<Rightarrow> 'v \<Rightarrow> bool" where
  create: "gi_emplace clash v g = (r, g') \<Longrightarrow> write_step clash g g'"
| modify: "gi_modify clash i f g = (Inr (), g') \<Longrightarrow>
     (\<And>v w. f v = Inr w \<Longrightarrow> same_key clash v w) \<Longrightarrow> write_step clash g g'"
| remove: "gi_remove i g = (Inr (), g') \<Longrightarrow> write_step clash g g'"

lemma write_step_ok:
  assumes "write_step clash g g'" and "gi_inv clash g"
  shows "gi_inv clash g' \<and> tl (snapshots g') = tl (snapshots g)"
  using assms
proof (cases rule: write_step.cases)
  case create
  with assms(2) show ?thesis using gi_emplace_ok by metis
next
  case (modify i f)
  with assms(2) show ?thesis using gi_modify_ok by metis
next
  case (remove i)
  with assms(2) show ?thesis using gi_remove_ok by metis
qed

lemma written_frame:
  assumes "g' = written g f m n"
  shows "tl (stack g') = tl (stack g) \<and> gi_revision g' = gi_revision g \<and>
         (stack g' = []) = (stack g = [])"
  using assms by (cases "stack g") simp_all

lemma write_step_frame:
  assumes "write_step clash g g'"
  shows "tl (stack g') = tl (stack g) \<and> gi_revision g' = gi_revision g \<and>
         (stack g' = []) = (stack g = [])"
  using assms
proof (cases rule: write_step.cases)
  case (create v r)
  show ?thesis
  proof (cases r)
    case (Inl e)
    with create have "g' = g" by (intro gi_emplace_error) simp
    then show ?thesis by simp
  next
    case (Inr i)
    with gi_emplace_written [of clash v g i g'] create
    show ?thesis by (intro written_frame) simp
  qed
next
  case (modify i f)
  then obtain v w where "g' = written g (note_modify i v) (om_put i w (indices g)) (next_id g)"
    using gi_modify_written by blast
  then show ?thesis by (rule written_frame)
next
  case (remove i)
  then obtain v where "g' = written g (note_remove i v) (om_del i (indices g)) (next_id g)"
    using gi_remove_written by blast
  then show ?thesis by (rule written_frame)
qed

subsection \<open>Starting a session\<close>

lemma gi_start_ok:
  assumes "gi_inv clash g"
  shows "gi_inv clash (gi_start_undo_session g) \<and>
         snapshots (gi_start_undo_session g) = present g # snapshots g"
proof -
  let ?u = "\<lparr>old_values = [], removed_values = [], new_ids = {},
             old_next_id = next_id g, us_revision = gi_revision g + 1\<rparr> :: 'a undo_state"
  let ?m = "map_of (indices g)"
  note nc = gi_invD(3) [OF assms] and dom = gi_invD(4) [OF assms]
  have b: "base ?u ?m = ?m" by (simp add: base_def fun_eq_iff)
  have "us_inv clash ?u ?m (next_id g)"
    using dom by (intro us_invI) auto
  with assms dom nc b show ?thesis
    by (simp add: gi_inv_def gi_start_undo_session_def snapshots_def present_def)
qed

lemma index_ext:
  fixes g h :: "'v generic_index"
  assumes "gi_inv clash g" and "gi_inv clash h" and "present g = present h"
    and "stack g = stack h" and "gi_revision g = gi_revision h"
  shows "g = h"
proof -
  have "indices g = indices h"
    using assms by (intro om_ext) (auto simp: gi_inv_def present_def)
  with assms show ?thesis by (simp add: present_def)
qed

subsection \<open>Squash\<close>

lemma merge_old_fold:
  "map_of (fold (merge_old_step N) xs old) k =
     (case map_of old k of Some x \<Rightarrow> Some x
      | None \<Rightarrow> if k \<in> N then None else map_of xs k)"
  by (induction xs arbitrary: old)
     (auto simp: merge_old_step_def om_simps split: option.splits)

lemma merge_old_wf: "om_wf old \<Longrightarrow> om_wf (fold (merge_old_step N) xs old)"
  by (induction xs arbitrary: old) (auto simp: merge_old_step_def om_simps)

lemma merge_removed_fold:
  assumes "distinct (map fst xs)"
  shows "map_of (old_values (fold merge_removed_step xs u)) k =
           (if k \<in> new_ids u \<or> map_of xs k = None then map_of (old_values u) k else None) \<and>
         map_of (removed_values (fold merge_removed_step xs u)) k =
           (if k \<in> new_ids u \<or> map_of xs k = None then map_of (removed_values u) k
            else case map_of (removed_values u) k of Some y \<Rightarrow> Some y
                 | None \<Rightarrow> (case map_of (old_values u) k of Some x \<Rightarrow> Some x
                           | None \<Rightarrow> map_of xs k)) \<and>
         (k \<in> new_ids (fold merge_removed_step xs u) \<longleftrightarrow> k \<in> new_ids u \<and> map_of xs k = None)"
  using assms
proof (induction xs arbitrary: u)
  case Nil
  then show ?case by simp
next
  case (Cons p xs)
  obtain i v where p: "p = (i, v)" by (cases p)
  have i: "map_of xs i = None" and d: "distinct (map fst xs)"
    using Cons.prems by (auto simp: p map_of_eq_None_iff)
  note IH = Cons.IH [OF d, of "merge_removed_step p u"]
  show ?case
  proof (cases "k = i")
    case True
    with IH i show ?thesis
      by (auto simp: p merge_removed_step_def om_simps split: option.splits)
  next
    case False
    then have same:
      "map_of (old_values (merge_removed_step p u)) k = map_of (old_values u) k"
      "map_of (removed_values (merge_removed_step p u)) k = map_of (removed_values u) k"
      "k \<in> new_ids (merge_removed_step p u) \<longleftrightarrow> k \<in> new_ids u"
      by (auto simp: p merge_removed_step_def om_simps split: option.splits)
    have "k \<noteq> fst p" using False by (simp add: p)
    then show ?thesis using IH unfolding same by (simp cong: if_cong option.case_cong)
  qed
qed

lemma merge_removed_frame:
  "om_wf (old_values u) \<Longrightarrow> om_wf (removed_values u) \<Longrightarrow>
     om_wf (old_values (fold merge_removed_step xs u)) \<and>
     om_wf (removed_values (fold merge_removed_step xs u)) \<and>
     old_next_id (fold merge_removed_step xs u) = old_next_id u \<and>
     us_revision (fold merge_removed_step xs u) = us_revision u"
proof (induction xs arbitrary: u)
  case Nil
  then show ?case by simp
next
  case (Cons p xs)
  have wf: "om_wf (old_values (merge_removed_step p u))" "om_wf (removed_values (merge_removed_step p u))"
    using Cons.prems by (auto simp: merge_removed_step_def om_simps split: option.splits)
  have eq: "old_next_id (merge_removed_step p u) = old_next_id u"
    "us_revision (merge_removed_step p u) = us_revision u"
    by (auto simp: merge_removed_step_def split: option.splits)
  from Cons.IH [OF wf] show ?case by (simp add: eq)
qed

lemma merge_states_fields:
  fixes u p :: "'v undo_state"
  assumes u: "om_wf (removed_values u)"
  defines "old \<equiv> fold (merge_old_step (new_ids p)) (old_values u) (old_values p)"
    and "new \<equiv> new_ids p \<union> new_ids u"
  shows "map_of (old_values (merge_states u p)) k =
           (if k \<in> new \<or> map_of (removed_values u) k = None then map_of old k else None)"
    and "map_of (removed_values (merge_states u p)) k =
           (if k \<in> new \<or> map_of (removed_values u) k = None then map_of (removed_values p) k
            else case map_of (removed_values p) k of Some y \<Rightarrow> Some y
                 | None \<Rightarrow> (case map_of old k of Some x \<Rightarrow> Some x
                           | None \<Rightarrow> map_of (removed_values u) k))"
    and "k \<in> new_ids (merge_states u p) \<longleftrightarrow> k \<in> new \<and> map_of (removed_values u) k = None"
  using merge_removed_fold [OF om_wf_distinct [OF u],
      of "p\<lparr>old_values := old, new_ids := new\<rparr>" k]
  unfolding merge_states_def old_def new_def by (simp_all cong: if_cong option.case_cong)

text \<open>
  Two consecutive undo states and their merge lead back to the same contents, and no
  combination the source marks N/A occurs.
\<close>

lemma merge_states_ok:
  assumes u: "us_inv clash u m n" and p: "us_inv clash p (base u m) (old_next_id u)"
  shows "us_inv clash (merge_states u p) m n \<and>
         base (merge_states u p) m = base p (base u m) \<and>
         old_next_id (merge_states u p) = old_next_id p \<and>
         us_revision (merge_states u p) = us_revision p"
proof -
  note U = us_invD [OF u] and P = us_invD [OF p]
  let ?q = "merge_states u p"
  let ?old = "fold (merge_old_step (new_ids p)) (old_values u) (old_values p)"
  note F = merge_states_fields [OF U(2), where p = p]
  have frame: "om_wf (old_values ?q)" "om_wf (removed_values ?q)"
    "old_next_id ?q = old_next_id p" "us_revision ?q = us_revision p"
    using merge_removed_frame [of "p\<lparr>old_values := ?old, new_ids := new_ids p \<union> new_ids u\<rparr>"
        "removed_values u"] P(1,2)
    unfolding merge_states_def by (simp_all add: merge_old_wf)
  have old: "map_of ?old k = (case map_of (old_values p) k of Some x \<Rightarrow> Some x
      | None \<Rightarrow> if k \<in> new_ids p then None else map_of (old_values u) k)" for k
    by (rule merge_old_fold)
  have newp: "k \<in> new_ids p \<longleftrightarrow> base u m k \<noteq> None \<and> old_next_id p \<le> k" for k
    by (rule P(6))
  have newu: "k \<in> new_ids u \<longleftrightarrow> m k \<noteq> None \<and> old_next_id u \<le> k" for k
    by (rule U(6))
  have le: "old_next_id p \<le> old_next_id u" by (rule P(9))
  have b: "base ?q m k = base p (base u m) k" for k
  proof (cases "k \<in> new_ids p \<union> new_ids u")
    case True
    then have ge: "old_next_id p \<le> k" using newp newu le by auto
    then have "map_of (old_values p) k = None" "map_of (removed_values p) k = None"
      using P(7,8) [of k] by (metis leD option.exhaust)+
    moreover have "map_of (old_values u) k = None" if "k \<in> new_ids u"
      using U(7) [of k] that newu by (metis leD option.exhaust)
    moreover have "map_of (removed_values u) k = None" if "k \<in> new_ids u"
      using U(8) [of k] that newu by (metis leD option.exhaust)
    moreover have "m k = None" if "map_of (removed_values u) k = Some y" for y
      using U(4) [of k] that by (cases "m k") auto
    ultimately show ?thesis
      using True by (auto simp: base_def F old split: option.splits)
  next
    case False
    have r: "map_of (removed_values p) k = None" if x: "map_of (removed_values u) k = Some x" for x
    proof -
      have "map_of (old_values u) k = None"
        using U(5) [of k] x by (cases "map_of (old_values u) k") auto
      then have "base u m k = Some x" using x by (simp add: base_def)
      then show ?thesis by (rule P(4))
    qed
    moreover have "map_of (removed_values p) k = None" if "map_of (old_values u) k = Some x" for x
      using P(4) [of k x] that by (simp add: base_def)
    ultimately show ?thesis
      using False by (auto simp: base_def F old split: option.splits)
  qed
  have "us_inv clash ?q m n"
  proof (rule us_invI)
    fix k x
    assume x: "map_of (old_values ?q) k = Some x"
    then have kx: "map_of ?old k = Some x"
      and nr: "k \<in> new_ids p \<union> new_ids u \<or> map_of (removed_values u) k = None"
      by (auto simp: F split: if_splits)
    show "k < old_next_id ?q \<and> (\<exists>w. m k = Some w \<and> same_key clash x w)"
    proof (cases "map_of (old_values p) k")
      case None
      with kx have ux: "map_of (old_values u) k = Some x" and nn: "k \<notin> new_ids p"
        by (auto simp: old split: if_splits)
      then have "base u m k = Some x" by (simp add: base_def)
      with nn newp have "k < old_next_id p" by auto
      with U(3,10) [OF ux] show ?thesis by (auto simp: frame)
    next
      case (Some y)
      with kx have px: "map_of (old_values p) k = Some x" by (simp add: old)
      obtain w where w: "base u m k = Some w" "same_key clash x w"
        using P(3) [OF px] P(10) [OF px] by (cases "base u m k") auto
      have lt: "k < old_next_id p" by (rule P(7) [OF px])
      then have "k \<notin> new_ids p \<union> new_ids u" using newp newu le by auto
      with nr have ur: "map_of (removed_values u) k = None" by simp
      show ?thesis
      proof (cases "map_of (old_values u) k")
        case None
        with w ur have "m k = Some w" by (auto simp: base_def split: if_splits)
        with w lt show ?thesis by (simp add: frame)
      next
        case (Some z)
        with w have "z = w" by (simp add: base_def)
        with U(3,10) [OF Some] w lt show ?thesis
          by (auto simp: frame intro: same_key_trans)
      qed
    qed
  next
    fix k x
    assume x: "map_of (removed_values ?q) k = Some x"
    show "k < old_next_id ?q \<and> m k = None"
    proof (cases "k \<in> new_ids p \<union> new_ids u \<or> map_of (removed_values u) k = None")
      case True
      with x have px: "map_of (removed_values p) k = Some x" by (auto simp: F split: if_splits)
      have lt: "k < old_next_id p" by (rule P(8) [OF px])
      have "base u m k = None" using P(4) [of k] px by (cases "base u m k") auto
      then have "m k = None"
        using lt newu [of k] le by (auto simp: base_def split: option.splits if_splits)
      with lt show ?thesis by (simp add: frame)
    next
      case False
      then obtain y where y: "map_of (removed_values u) k = Some y" by auto
      then have "m k = None" using U(4) [of k] by (cases "m k") auto
      moreover have "base u m k \<noteq> None" using y by (auto simp: base_def split: option.splits)
      ultimately show ?thesis using False newp [of k] by (auto simp: frame)
    qed
  next
    fix k
    show "k \<in> new_ids ?q \<longleftrightarrow> m k \<noteq> None \<and> old_next_id ?q \<le> k"
    proof (cases "m k")
      case None
      have "k \<notin> new_ids ?q"
      proof
        assume "k \<in> new_ids ?q"
        then have "k \<in> new_ids p" "map_of (removed_values u) k = None"
          using None newu by (auto simp: F)
        then show False
          using None newp U(3) [of k] by (auto simp: base_def split: option.splits if_splits)
      qed
      with None show ?thesis by simp
    next
      case (Some w)
      have r: "map_of (removed_values u) k = None" by (rule U(4) [OF Some])
      have "base u m k = None \<longleftrightarrow> k \<in> new_ids u"
        using Some r U(7) [of k] newu [of k]
        by (auto simp: base_def split: option.splits) 
      then show ?thesis using Some r newp newu le by (auto simp: F frame)
    qed
  qed (use frame U P le in auto)
  with b frame show ?thesis by blast
qed

lemma gi_squash_ok:
  assumes "gi_inv clash g"
  shows "gi_inv clash (gi_squash g) \<and>
         snapshots (gi_squash g) =
           (if stack g = [] then snapshots g else present g # tl (tl (snapshots g)))"
proof (cases "stack g")
  case Nil
  with assms show ?thesis by (simp add: gi_squash_def)
next
  case (Cons u us)
  note u = Cons
  show ?thesis
  proof (cases us)
    case Nil
    with assms u show ?thesis
      by (simp add: gi_squash_def gi_inv_def snapshots_def present_def)
  next
    case (Cons p ps)
    let ?m = "map_of (indices g)"
    have "us_inv clash u ?m (next_id g)" "us_inv clash p (base u ?m) (old_next_id u)"
      using assms u Cons by (simp_all add: gi_inv_def)
    from merge_states_ok [OF this] show ?thesis
      using assms u Cons by (simp add: gi_squash_def gi_inv_def snapshots_def present_def)
  qed
qed

subsection \<open>Sessions: runs of writes and nested sessions\<close>

text \<open>
  What can happen between the start of a session and its end: writes, and nested
  sessions that are either squashed into it or undone.
\<close>

abbreviation run ::
    "('v \<Rightarrow> 'v \<Rightarrow> bool) \<Rightarrow> 'v generic_index \<Rightarrow> 'v generic_index \<Rightarrow> bool" where
  "run clash \<equiv> nested gi_start_undo_session gi_squash (gi_undo clash) (write_step clash)"

lemma start_fields [simp]:
  "stack (gi_start_undo_session g) \<noteq> []"
  "tl (stack (gi_start_undo_session g)) = stack g"
  "gi_revision (gi_start_undo_session g) = gi_revision g + 1"
  "present (gi_start_undo_session g) = present g"
  by (simp_all add: gi_start_undo_session_def present_def)

lemma gi_undo_revision:
  assumes "gi_inv clash g" and "gi_undo clash g = (Inr (), g')" and "stack g \<noteq> []"
  shows "gi_revision g' = gi_revision g - 1"
  using assms gi_undo_ok [OF assms(1)] by (cases "stack g") fastforce+

lemma run_ok:
  assumes "run clash g h" and "gi_inv clash g" and "stack g \<noteq> []"
  shows "gi_inv clash h \<and> tl (snapshots h) = tl (snapshots g) \<and>
         tl (stack h) = tl (stack g) \<and> gi_revision h = gi_revision g \<and> stack h \<noteq> []"
  using assms
proof (induction rule: nested.induct)
  case (nested_nil g)
  then show ?case by simp
next
  case (nested_write g h k)
  with write_step_ok [OF nested_write.hyps(2)] write_step_frame [OF nested_write.hyps(2)]
  show ?case by simp
next
  case (nested_squash g h k)
  then have h: "gi_inv clash h" "tl (snapshots h) = tl (snapshots g)" "tl (stack h) = tl (stack g)"
    "gi_revision h = gi_revision g" "stack h \<noteq> []" by auto
  with nested_squash.IH(2) gi_start_ok [OF h(1)] have k: "gi_inv clash k" "tl (snapshots k) = snapshots h"
    "tl (stack k) = stack h" "gi_revision k = gi_revision h + 1" "stack k \<noteq> []" by auto
  obtain c p ps where st: "stack k = c # p # ps" "stack h = p # ps"
    using h(5) k(3,5) by (cases "stack k"; cases "stack h") auto
  from gi_squash_ok [OF k(1)] k st h show ?case
    by (simp add: gi_squash_def)
next
  case (nested_undo g h k l)
  then have h: "gi_inv clash h" "tl (snapshots h) = tl (snapshots g)" "tl (stack h) = tl (stack g)"
    "gi_revision h = gi_revision g" "stack h \<noteq> []" by auto
  with nested_undo.IH(2) gi_start_ok [OF h(1)] have k: "gi_inv clash k" "tl (snapshots k) = snapshots h"
    "tl (stack k) = stack h" "gi_revision k = gi_revision h + 1" "stack k \<noteq> []" by auto
  from gi_undo_inv [OF k(1) nested_undo.hyps(3)] gi_undo_revision [OF k(1) nested_undo.hyps(3)] k h
  show ?case by simp
qed

text \<open>A session, whatever is nested in it, ended by undo gives back the very same index.\<close>

lemma session_undo:
  assumes inv: "gi_inv clash g" and w: "run clash (gi_start_undo_session g) h"
  shows "gi_undo clash h = (Inr (), g)"
proof -
  have s: "gi_inv clash (gi_start_undo_session g)"
    "snapshots (gi_start_undo_session g) = present g # snapshots g"
    using gi_start_ok [OF inv] by auto
  from run_ok [OF w s(1)] have h: "gi_inv clash h" "tl (snapshots h) = snapshots g"
    "tl (stack h) = stack g" "gi_revision h = gi_revision g + 1" "stack h \<noteq> []"
    unfolding s(2) by simp_all
  obtain r k where k: "gi_undo clash h = (r, k)" by (cases "gi_undo clash h")
  from gi_undo_inv [OF h(1) this] h have r: "r = Inr ()" "gi_inv clash k" "stack k = stack g"
    "snapshots k = snapshots g" by auto
  have "gi_revision k = gi_revision g"
    using gi_undo_revision [OF h(1) k [unfolded r(1)] h(5)] h(4) by simp
  with r have "k = g"
    by (intro index_ext [OF r(2) inv]) (simp_all add: snapshots_def)
  with k r show ?thesis by simp
qed

subsection \<open>Commit and undo-all\<close>

lemma st_inv_append: "st_inv clash (us @ vs) m n r \<Longrightarrow> st_inv clash us m n r"
proof (induction us arbitrary: m n r)
  case Nil
  then show ?case using st_inv_dom st_inv_no_clash by (metis append_Nil st_inv.simps(1))
next
  case (Cons u us)
  then show ?case by simp
qed

lemma older_take: "older (take k us) m = take k (older us m)"
proof (induction us arbitrary: k m)
  case Nil
  then show ?case by simp
next
  case (Cons u us)
  then show ?case by (cases k) simp_all
qed

lemma st_inv_revisions:
  "st_inv clash us m n r \<Longrightarrow> k < length us \<Longrightarrow> us_revision (us ! k) = r - int k"
proof (induction us arbitrary: m n r k)
  case Nil
  then show ?case by simp
next
  case (Cons u us)
  then show ?case by (cases k) fastforce+
qed

text \<open>\<open>commit\<close> keeps exactly the undo states newer than the given revision.\<close>

lemma gi_commit_stack:
  assumes "gi_inv clash g"
  shows "stack (gi_commit r g) = take (nat (gi_revision g - r)) (stack g)"
proof -
  let ?us = "stack g" and ?k = "nat (gi_revision g - r)"
  let ?P = "\<lambda>u. us_revision u \<le> r"
  have rev: "us_revision (?us ! j) = gi_revision g - int j" if "j < length ?us" for j
    using assms that st_inv_revisions unfolding gi_inv_def by blast
  have old: "\<forall>u \<in> set (drop ?k ?us). ?P u"
    by (auto simp: in_set_conv_nth rev)
  have new: "\<forall>u \<in> set (take ?k ?us). \<not> ?P u"
    by (auto simp: in_set_conv_nth rev)
  have "rev ?us = rev (drop ?k ?us) @ rev (take ?k ?us)"
    by (metis append_take_drop_id rev_append)
  moreover have "dropWhile ?P (rev (drop ?k ?us) @ rev (take ?k ?us)) =
      dropWhile ?P (rev (take ?k ?us))"
    using old by (intro dropWhile_append2) auto
  ultimately have "dropWhile ?P (rev ?us) = dropWhile ?P (rev (take ?k ?us))"
    by (simp only:)
  also have "\<dots> = rev (take ?k ?us)"
    using new by (cases "rev (take ?k ?us)") (auto dest: arg_cong [of _ _ rev])
  finally show ?thesis by (simp add: gi_commit_def)
qed

lemma gi_commit_ok:
  assumes "gi_inv clash g"
  shows "gi_inv clash (gi_commit r g) \<and>
         snapshots (gi_commit r g) = take (Suc (nat (gi_revision g - r))) (snapshots g)"
proof -
  let ?k = "nat (gi_revision g - r)" and ?m = "map_of (indices g)"
  have same: "indices (gi_commit r g) = indices g" "next_id (gi_commit r g) = next_id g"
    "gi_revision (gi_commit r g) = gi_revision g"
    by (simp_all add: gi_commit_def)
  have "st_inv clash (take ?k (stack g)) ?m (next_id g) (gi_revision g)"
    using assms st_inv_append [of clash "take ?k (stack g)" "drop ?k (stack g)"]
    by (simp add: gi_inv_def)
  then show ?thesis
    using assms gi_commit_stack [OF assms, of r]
    by (simp add: gi_inv_def snapshots_def present_def same older_take)
qed

lemma undo_times_ok:
  assumes "gi_inv clash g" and "n = length (stack g)"
  shows "\<exists>h. undo_times clash n g = (Inr (), h) \<and> gi_inv clash h \<and> stack h = [] \<and>
             snapshots h = [last (snapshots g)]"
  using assms
proof (induction n arbitrary: g)
  case 0
  then show ?case by (simp add: snapshots_def)
next
  case (Suc n)
  obtain r h where h: "gi_undo clash g = (r, h)" by (cases "gi_undo clash g")
  have st: "stack g \<noteq> []" using Suc.prems by auto
  from gi_undo_inv [OF Suc.prems(1) h] st have k: "r = Inr ()" "gi_inv clash h"
    "stack h = tl (stack g)" "snapshots h = tl (snapshots g)" by auto
  have "n = length (stack h)" using Suc.prems k by simp
  from Suc.IH [OF k(2) this] obtain l where l: "undo_times clash n h = (Inr (), l)"
    "gi_inv clash l" "stack l = []" "snapshots l = [last (snapshots h)]" by blast
  have "last (snapshots h) = last (snapshots g)"
    using k(4) st by (cases "stack g") (auto simp: snapshots_def)
  with l h k st show ?case by (auto simp: enabled_def)
qed

lemma gi_undo_all_unfold:
  "gi_undo_all clash g =
     (if enabled g
      then (case gi_undo clash g of (Inl e, g') \<Rightarrow> (Inl e, g') | (Inr _, g') \<Rightarrow> gi_undo_all clash g')
      else (Inr (), g))"
proof (cases "stack g")
  case Nil
  then show ?thesis by (simp add: gi_undo_all_def enabled_def)
next
  case (Cons u us)
  show ?thesis
  proof (cases "gi_undo clash g")
    case (Pair r h)
    show ?thesis
    proof (cases r)
      case (Inl e)
      with Pair Cons show ?thesis by (simp add: gi_undo_all_def enabled_def)
    next
      case (Inr x)
      then have "stack h = us" using Pair Cons gi_undo_pops [of clash g h] by auto
      with Pair Inr Cons show ?thesis by (simp add: gi_undo_all_def enabled_def)
    qed
  qed
qed

text \<open>An index is an undo store: its contents are its present, its past the older snapshots.\<close>

interpretation ix: undo_store "gi_inv clash" present "\<lambda>g. tl (snapshots g)"
  gi_start_undo_session gi_squash "gi_undo clash" "write_step clash"
  for clash :: "'v \<Rightarrow> 'v \<Rightarrow> bool"
proof
  fix s t :: "'v generic_index"
  assume "gi_inv clash s" and "write_step clash s t"
  then show "gi_inv clash t \<and> tl (snapshots t) = tl (snapshots s)"
    using write_step_ok by blast
next
  fix s :: "'v generic_index"
  assume "gi_inv clash s"
  then show "gi_inv clash (gi_start_undo_session s) \<and>
      present (gi_start_undo_session s) = present s \<and>
      tl (snapshots (gi_start_undo_session s)) = present s # tl (snapshots s)"
    using gi_start_ok by (simp add: snapshots_def)
next
  fix s :: "'v generic_index" and a h
  assume s: "gi_inv clash s" and h: "tl (snapshots s) = a # h"
  then have st: "stack s \<noteq> []" by (auto simp: snapshots_def)
  show "gi_inv clash (gi_squash s) \<and> present (gi_squash s) = present s \<and>
      tl (snapshots (gi_squash s)) = h"
    using gi_squash_ok [OF s] st h by (simp add: snapshots_def)
  obtain r t where u: "gi_undo clash s = (r, t)" by (cases "gi_undo clash s")
  from gi_undo_inv [OF s u] st h
  show "\<exists>t. gi_undo clash s = (Inr (), t) \<and> gi_inv clash t \<and> present t = a \<and>
      tl (snapshots t) = h"
    using u by (auto simp: snapshots_def)
qed

end
