(* ===== verification/Chainbase.thy ===== *)
theory Chainbase
  imports Undo_Theorems
begin

section \<open>chainbase: the database of indices\<close>

text \<open>
  \<open>chainbase::database\<close> of \<open>libraries/chainbase\<close>: a list of indices, known by the
  type number of their objects, over which every undo operation is repeated. The mapped
  file keeps the indices themselves (\<open>find_or_construct\<close>), so they outlive
  \<open>_index_list\<close>. Locks, file growth and the environment check are not modelled.
  All objects are of one type \<open>'v\<close> (the sum of the object classes of the program);
  \<open>clash t\<close> gives the unique keys of the index of type \<open>t\<close>.
\<close>

subsection \<open>State and index registration\<close>

record 'v cdb =
  segment :: "(nat, 'v generic_index) omap"
  index_list :: "nat list"
  index_types :: "nat list"
  undo_session_count :: int

definition empty_cdb :: "'v cdb" where
  "empty_cdb = \<lparr>segment = [], index_list = [], index_types = [], undo_session_count = 0\<rparr>"

definition idx :: "nat \<Rightarrow> 'v cdb \<Rightarrow> 'v generic_index" where
  "idx t db = (case map_of (segment db) t of Some g \<Rightarrow> g | None \<Rightarrow> empty_index)"

definition put_idx :: "nat \<Rightarrow> 'v generic_index \<Rightarrow> 'v cdb \<Rightarrow> 'v cdb" where
  "put_idx t g db = db\<lparr>segment := om_put t g (segment db)\<rparr>"

definition has_index :: "nat \<Rightarrow> 'v cdb \<Rightarrow> bool" where
  "has_index t db \<longleftrightarrow> t \<in> set (index_list db)"

definition get_index :: "nat \<Rightarrow> 'v cdb \<Rightarrow> 'v generic_index result" where
  "get_index t db = (if has_index t db then Inr (idx t db) else Inl Runtime_Error)"

definition add_index_helper :: "nat \<Rightarrow> ('v cdb, unit) sx" where
  "add_index_helper t db =
     (if has_index t db then (Inl Logic_Error, db)
      else (Inr (), (put_idx t (idx t db) db)\<lparr>index_list := index_list db @ [t]\<rparr>))"

definition add_index :: "nat \<Rightarrow> ('v cdb, unit) sx" where
  "add_index t db = add_index_helper t (db\<lparr>index_types := index_types db @ [t]\<rparr>)"

definition cdb_wipe :: "'v cdb \<Rightarrow> 'v cdb" where
  "cdb_wipe db = db\<lparr>segment := [], index_list := []\<rparr>"

definition cdb_resize :: "('v cdb, unit) sx" where
  "cdb_resize db =
     (if undo_session_count db \<noteq> 0 then (Inl Runtime_Error, db)
      else each add_index_helper (index_types db) (db\<lparr>index_list := []\<rparr>))"

subsection \<open>Objects\<close>

text \<open>Run an operation of one index: \<open>get_mutable_index\<close> and the call on it.\<close>

definition on_index :: "nat \<Rightarrow> ('v generic_index, 'a) sx \<Rightarrow> ('v cdb, 'a) sx" where
  "on_index t m db =
     (if has_index t db
      then (case m (idx t db) of (r, g) \<Rightarrow> (r, put_idx t g db))
      else (Inl Runtime_Error, db))"

definition db_create ::
    "(nat \<Rightarrow> 'v \<Rightarrow> 'v \<Rightarrow> bool) \<Rightarrow> nat \<Rightarrow> 'v \<Rightarrow> ('v cdb, nat) sx" where
  "db_create clash t v = on_index t (gi_emplace (clash t) v)"

definition db_modify ::
    "(nat \<Rightarrow> 'v \<Rightarrow> 'v \<Rightarrow> bool) \<Rightarrow> nat \<Rightarrow> nat \<Rightarrow> ('v \<Rightarrow> 'v result) \<Rightarrow> ('v cdb, unit) sx" where
  "db_modify clash t i f = on_index t (gi_modify (clash t) i f)"

definition db_remove :: "nat \<Rightarrow> nat \<Rightarrow> ('v cdb, unit) sx" where
  "db_remove t i = on_index t (gi_remove i)"

definition db_find :: "nat \<Rightarrow> nat \<Rightarrow> 'v cdb \<Rightarrow> 'v option result" where
  "db_find t i db = rbind (get_index t db) (\<lambda>g. Inr (gi_find i g))"

definition db_get :: "nat \<Rightarrow> nat \<Rightarrow> 'v cdb \<Rightarrow> 'v result" where
  "db_get t i db = rbind (get_index t db) (gi_get i)"

text \<open>Lookup through a unique secondary key: the object and its id.\<close>

definition db_find_by :: "nat \<Rightarrow> ('v \<Rightarrow> bool) \<Rightarrow> 'v cdb \<Rightarrow> (nat \<times> 'v) option result" where
  "db_find_by t p db = rbind (get_index t db) (\<lambda>g. Inr (find (\<lambda>q. p (snd q)) (indices g)))"

subsection \<open>Undo over all indices\<close>

definition db_undo :: "(nat \<Rightarrow> 'v \<Rightarrow> 'v \<Rightarrow> bool) \<Rightarrow> ('v cdb, unit) sx" where
  "db_undo clash db = each (\<lambda>t. on_index t (gi_undo (clash t))) (index_list db) db"

definition db_undo_all :: "(nat \<Rightarrow> 'v \<Rightarrow> 'v \<Rightarrow> bool) \<Rightarrow> ('v cdb, unit) sx" where
  "db_undo_all clash db = each (\<lambda>t. on_index t (gi_undo_all (clash t))) (index_list db) db"

definition all_indices ::
    "('v generic_index \<Rightarrow> 'v generic_index) \<Rightarrow> 'v cdb \<Rightarrow> 'v cdb" where
  "all_indices f db = fold (\<lambda>t d. put_idx t (f (idx t d)) d) (index_list db) db"

definition db_squash :: "'v cdb \<Rightarrow> 'v cdb" where
  "db_squash = all_indices gi_squash"

definition db_commit :: "int \<Rightarrow> 'v cdb \<Rightarrow> 'v cdb" where
  "db_commit r = all_indices (gi_commit r)"

definition db_start :: "'v cdb \<Rightarrow> 'v cdb" where
  "db_start = all_indices gi_start_undo_session"

definition db_set_revision :: "int \<Rightarrow> ('v cdb, unit) sx" where
  "db_set_revision r db = each (\<lambda>t. on_index t (gi_set_revision r)) (index_list db) db"

definition db_revision :: "'v cdb \<Rightarrow> int" where
  "db_revision db = (case index_list db of [] \<Rightarrow> -1 | t # _ \<Rightarrow> gi_revision (idx t db))"

text \<open>
  A \<open>database::session\<close> holds one session per index; \<open>push\<close>, \<open>squash\<close>,
  \<open>undo\<close> end them all and forget them, and the destructor undoes what is still held.
\<close>

record db_session =
  held :: "nat list"
  ses_revision :: int

definition start_undo_session :: "'v cdb \<Rightarrow> db_session \<times> 'v cdb" where
  "start_undo_session db =
     (let d = db_start db
      in (\<lparr>held = index_list db, ses_revision = db_revision d\<rparr>,
          d\<lparr>undo_session_count := undo_session_count db + 1\<rparr>))"

definition session_push :: "db_session \<Rightarrow> db_session" where
  "session_push ses = ses\<lparr>held := []\<rparr>"

definition session_squash :: "db_session \<Rightarrow> 'v cdb \<Rightarrow> db_session \<times> 'v cdb" where
  "session_squash ses db =
     (ses\<lparr>held := []\<rparr>, fold (\<lambda>t d. put_idx t (gi_squash (idx t d)) d) (held ses) db)"

definition session_undo_sx ::
    "(nat \<Rightarrow> 'v \<Rightarrow> 'v \<Rightarrow> bool) \<Rightarrow> db_session \<Rightarrow> ('v cdb, db_session) sx" where
  "session_undo_sx clash ses =
     seq (each (\<lambda>t. on_index t (gi_undo (clash t))) (held ses)) (ret (ses\<lparr>held := []\<rparr>))"

definition session_destroy ::
    "(nat \<Rightarrow> 'v \<Rightarrow> 'v \<Rightarrow> bool) \<Rightarrow> db_session \<Rightarrow> ('v cdb, unit) sx" where
  "session_destroy clash ses =
     seq (session_undo_sx clash ses)
         (update (\<lambda>db. db\<lparr>undo_session_count := undo_session_count db - 1\<rparr>))"

subsection \<open>Lemmas on single indices\<close>

lemma idx_put [simp]: "idx t (put_idx s g db) = (if t = s then g else idx t db)"
  by (simp add: idx_def put_idx_def om_simps)

lemma put_idx_fields [simp]:
  "index_list (put_idx s g db) = index_list db"
  "index_types (put_idx s g db) = index_types db"
  "undo_session_count (put_idx s g db) = undo_session_count db"
  "has_index t (put_idx s g db) = has_index t db"
  by (simp_all add: put_idx_def has_index_def)

lemma fold_put:
  assumes "distinct ts"
  shows "idx t (fold (\<lambda>t d. put_idx t (f (idx t d)) d) ts db) =
           (if t \<in> set ts then f (idx t db) else idx t db) \<and>
         index_list (fold (\<lambda>t d. put_idx t (f (idx t d)) d) ts db) = index_list db \<and>
         index_types (fold (\<lambda>t d. put_idx t (f (idx t d)) d) ts db) = index_types db \<and>
         undo_session_count (fold (\<lambda>t d. put_idx t (f (idx t d)) d) ts db) = undo_session_count db"
  using assms by (induction ts arbitrary: db) auto

end
