(* ===== verification/Chainbase_Theorems.thy ===== *)
theory Chainbase_Theorems
  imports Chainbase
begin

section \<open>chainbase: sessions of the whole database\<close>

text \<open>
  The undo laws of one index lifted to all of them, and the interface
  \<open>undo_store\<close> through which the chain uses its database: what a started session, its
  squash and an undo promise, proved for the list of indices and for the database.
\<close>

subsection \<open>The invariant\<close>

definition db_inv :: "(nat \<Rightarrow> 'v \<Rightarrow> 'v \<Rightarrow> bool) \<Rightarrow> 'v cdb \<Rightarrow> bool" where
  "db_inv clash db \<longleftrightarrow>
     distinct (index_list db) \<and> om_wf (segment db) \<and>
     set (index_list db) \<subseteq> dom (map_of (segment db)) \<and>
     (\<forall>t \<in> set (index_list db). gi_inv (clash t) (idx t db))"

lemma on_index_has:
  "has_index t db \<Longrightarrow> on_index t m db = (fst (m (idx t db)), put_idx t (snd (m (idx t db))) db)"
  by (simp add: on_index_def split: prod.splits)

lemma each_on_index:
  assumes "distinct ts" and "set ts \<subseteq> set (index_list db)"
    and "\<And>t. t \<in> set ts \<Longrightarrow> m t (idx t db) = (Inr (), f t)"
  shows "\<exists>d. each (\<lambda>t. on_index t (m t)) ts db = (Inr (), d) \<and>
             (\<forall>t. idx t d = (if t \<in> set ts then f t else idx t db)) \<and>
             index_list d = index_list db \<and> index_types d = index_types db \<and>
             undo_session_count d = undo_session_count db \<and>
             (om_wf (segment db) \<longrightarrow> om_wf (segment d)) \<and>
             dom (map_of (segment d)) = dom (map_of (segment db)) \<union> set ts"
  using assms
proof (induction ts arbitrary: db)
  case Nil
  then show ?case by (simp add: ret_def)
next
  case (Cons t ts)
  let ?d = "put_idx t (f t) db"
  have "on_index t (m t) db = (Inr (), ?d)"
    using Cons.prems by (simp add: on_index_has has_index_def)
  then have e: "each (\<lambda>t. on_index t (m t)) (t # ts) db = each (\<lambda>t. on_index t (m t)) ts ?d"
    by (simp add: seq_def bnd_def)
  have "distinct ts" "set ts \<subseteq> set (index_list ?d)"
    "\<And>s. s \<in> set ts \<Longrightarrow> m s (idx s ?d) = (Inr (), f s)"
    using Cons.prems by auto
  from Cons.IH [OF this] obtain d where
    d: "each (\<lambda>t. on_index t (m t)) ts ?d = (Inr (), d)"
       "\<forall>s. idx s d = (if s \<in> set ts then f s else idx s ?d)"
       "index_list d = index_list ?d" "index_types d = index_types ?d"
       "undo_session_count d = undo_session_count ?d"
       "om_wf (segment ?d) \<longrightarrow> om_wf (segment d)"
       "dom (map_of (segment d)) = dom (map_of (segment ?d)) \<union> set ts"
    by blast
  have "om_wf (segment db) \<longrightarrow> om_wf (segment ?d)"
    and "dom (map_of (segment ?d)) = insert t (dom (map_of (segment db)))"
    by (simp_all add: put_idx_def om_simps)
  with d e show ?case by auto
qed

lemma cdb_ext:
  fixes d e :: "'v cdb"
  assumes "om_wf (segment d)" and "om_wf (segment e)"
    and "dom (map_of (segment d)) = dom (map_of (segment e))"
    and "\<And>t. idx t d = idx t e" and "index_list d = index_list e"
    and "index_types d = index_types e" and "undo_session_count d = undo_session_count e"
  shows "d = e"
proof -
  have "map_of (segment d) t = map_of (segment e) t" for t
  proof (cases "map_of (segment d) t")
    case None
    with assms(3) show ?thesis by (metis domIff)
  next
    case (Some g)
    then obtain h where h: "map_of (segment e) t = Some h" using assms(3) by (metis domI domD)
    with Some assms(4) [of t] show ?thesis by (simp add: idx_def)
  qed
  then have "segment d = segment e" using assms(1,2) by (intro om_ext) auto
  with assms(5-7) show ?thesis by simp
qed

lemma all_indices_idx:
  assumes "distinct (index_list db)"
  shows "idx t (all_indices f db) = (if t \<in> set (index_list db) then f (idx t db) else idx t db)"
    and "index_list (all_indices f db) = index_list db"
    and "index_types (all_indices f db) = index_types db"
    and "undo_session_count (all_indices f db) = undo_session_count db"
  using fold_put [OF assms, of t f db] by (simp_all add: all_indices_def)

lemma fold_put_segment:
  "om_wf (segment db) \<Longrightarrow> om_wf (segment (fold (\<lambda>t d. put_idx t (f (idx t d)) d) ts db))"
  "dom (map_of (segment (fold (\<lambda>t d. put_idx t (f (idx t d)) d) ts db))) =
     dom (map_of (segment db)) \<union> set ts"
  by (induction ts arbitrary: db) (auto simp: put_idx_def om_simps)

lemma all_indices_inv:
  assumes "db_inv clash db"
    and "\<And>t. t \<in> set (index_list db) \<Longrightarrow> gi_inv (clash t) (f (idx t db))"
  shows "db_inv clash (all_indices f db)"
proof -
  have d: "distinct (index_list db)" using assms(1) by (simp add: db_inv_def)
  show ?thesis
    using assms all_indices_idx (1) [OF d, where f = f] all_indices_idx(2-4) [OF d, of f] fold_put_segment [where db = db and f = f and ts = "index_list db"]
    unfolding db_inv_def all_indices_def by auto
qed

lemma on_index_inv:
  assumes inv: "db_inv clash db" and m: "on_index t m db = (r, db')" and has: "has_index t db"
    and g: "gi_inv (clash t) (snd (m (idx t db)))"
  shows "db_inv clash db' \<and> index_list db' = index_list db \<and> index_types db' = index_types db \<and>
         undo_session_count db' = undo_session_count db \<and>
         (\<forall>s. idx s db' = (if s = t then snd (m (idx t db)) else idx s db)) \<and>
         dom (map_of (segment db')) = dom (map_of (segment db))"
proof -
  have db': "db' = put_idx t (snd (m (idx t db))) db"
    using m has by (simp add: on_index_has)
  have "t \<in> dom (map_of (segment db))" using inv has by (auto simp: db_inv_def has_index_def)
  then have "dom (map_of (segment db')) = dom (map_of (segment db))"
    by (auto simp: db' put_idx_def om_simps)
  with inv g show ?thesis
    by (auto simp: db' db_inv_def put_idx_def om_simps idx_def split: option.splits)
qed

subsection \<open>Runs of the database\<close>

text \<open>A write of the chain: it creates, modifies without touching unique keys, or removes.\<close>

inductive db_write ::
    "(nat \<Rightarrow> 'v \<Rightarrow> 'v \<Rightarrow> bool) \<Rightarrow> 'v cdb \<Rightarrow> 'v cdb \<Rightarrow> bool"
  for clash :: "nat \<Rightarrow> 'v \<Rightarrow> 'v \<Rightarrow> bool" where
  db_create_write: "db_create clash t v db = (r, db') \<Longrightarrow> db_write clash db db'"
| db_modify_write: "db_modify clash t i f db = (Inr (), db') \<Longrightarrow>
     (\<And>v w. f v = Inr w \<Longrightarrow> same_key (clash t) v w) \<Longrightarrow> db_write clash db db'"
| db_remove_write: "db_remove t i db = (Inr (), db') \<Longrightarrow> db_write clash db db'"

abbreviation db_run ::
    "(nat \<Rightarrow> 'v \<Rightarrow> 'v \<Rightarrow> bool) \<Rightarrow> 'v cdb \<Rightarrow> 'v cdb \<Rightarrow> bool" where
  "db_run clash \<equiv> nested db_start db_squash (db_undo clash) (db_write clash)"

text \<open>What a run of the database is for each index.\<close>

definition index_runs ::
    "(nat \<Rightarrow> 'v \<Rightarrow> 'v \<Rightarrow> bool) \<Rightarrow> 'v cdb \<Rightarrow> 'v cdb \<Rightarrow> bool" where
  "index_runs clash d e \<longleftrightarrow>
     db_inv clash e \<and> index_list e = index_list d \<and> index_types e = index_types d \<and>
     undo_session_count e = undo_session_count d \<and>
     dom (map_of (segment e)) = dom (map_of (segment d)) \<and>
     (\<forall>t \<in> set (index_list d). run (clash t) (idx t d) (idx t e)) \<and>
     (\<forall>t. t \<notin> set (index_list d) \<longrightarrow> idx t e = idx t d)"

lemma db_write_index:
  assumes "db_write clash d e" and "db_inv clash d"
  shows "\<exists>t. (d = e \<or> write_step (clash t) (idx t d) (idx t e) \<and> t \<in> set (index_list d)) \<and>
             (\<forall>s. s \<noteq> t \<longrightarrow> idx s e = idx s d) \<and> db_inv clash e \<and>
             index_list e = index_list d \<and> index_types e = index_types d \<and>
             undo_session_count e = undo_session_count d \<and>
             dom (map_of (segment e)) = dom (map_of (segment d))"
  using assms
proof (cases rule: db_write.cases)
  case (db_create_write t v r)
  show ?thesis
  proof (cases "has_index t d")
    case True
    obtain q g where q: "gi_emplace (clash t) v (idx t d) = (q, g)"
      by (cases "gi_emplace (clash t) v (idx t d)")
    then have w: "write_step (clash t) (idx t d) g" by (rule write_step.create)
    have inv: "gi_inv (clash t) (idx t d)" using assms(2) True by (simp add: db_inv_def has_index_def)
    show ?thesis
      using on_index_inv [OF assms(2) db_create_write [unfolded db_create_def] True]
        q w write_step_ok [OF w inv] True
      by (intro exI [of _ t]) (simp add: has_index_def)
  next
    case False
    then have "d = e" using db_create_write by (simp add: db_create_def on_index_def)
    then show ?thesis using assms(2) by simp
  qed
next
  case (db_modify_write t i f)
  have has: "has_index t d" using db_modify_write(1)
    by (auto simp: db_modify_def on_index_def split: if_splits)
  obtain q g where q: "gi_modify (clash t) i f (idx t d) = (q, g)"
    by (cases "gi_modify (clash t) i f (idx t d)")
  then have qq: "q = Inr ()" using db_modify_write(1) has by (simp add: db_modify_def on_index_has)
  have w: "write_step (clash t) (idx t d) g"
    by (rule write_step.modify [OF q [unfolded qq]]) (rule db_modify_write(2))
  have inv: "gi_inv (clash t) (idx t d)" using assms(2) has by (simp add: db_inv_def has_index_def)
  show ?thesis
    using on_index_inv [OF assms(2) db_modify_write(1) [unfolded db_modify_def] has]
      q w write_step_ok [OF w inv] has
    by (intro exI [of _ t]) (simp add: has_index_def)
next
  case (db_remove_write t i)
  have has: "has_index t d" using db_remove_write
    by (auto simp: db_remove_def on_index_def split: if_splits)
  obtain q g where q: "gi_remove i (idx t d) = (q, g)" by (cases "gi_remove i (idx t d)")
  then have qq: "q = Inr ()" using db_remove_write has by (simp add: db_remove_def on_index_has)
  have w: "write_step (clash t) (idx t d) g" by (rule write_step.remove [OF q [unfolded qq]])
  have inv: "gi_inv (clash t) (idx t d)" using assms(2) has by (simp add: db_inv_def has_index_def)
  show ?thesis
    using on_index_inv [OF assms(2) db_remove_write [unfolded db_remove_def] has]
      q w write_step_ok [OF w inv] has
    by (intro exI [of _ t]) (simp add: has_index_def)
qed

lemma db_start_inv:
  assumes "db_inv clash d"
  shows "db_inv clash (db_start d)"
  unfolding db_start_def using assms gi_start_ok
  by (intro all_indices_inv [OF assms]) (auto simp: db_inv_def)

lemma db_undo_all_ok:
  assumes inv: "db_inv clash d"
    and u: "\<And>t. t \<in> set (index_list d) \<Longrightarrow> gi_undo (clash t) (idx t d) = (Inr (), f t)"
  shows "\<exists>e. db_undo clash d = (Inr (), e) \<and> db_inv clash e \<and> index_list e = index_list d \<and>
             index_types e = index_types d \<and> undo_session_count e = undo_session_count d \<and>
             dom (map_of (segment e)) = dom (map_of (segment d)) \<and>
             (\<forall>t. idx t e = (if t \<in> set (index_list d) then f t else idx t d))"
proof -
  have d: "distinct (index_list d)" "om_wf (segment d)"
    "set (index_list d) \<subseteq> dom (map_of (segment d))"
    using inv by (simp_all add: db_inv_def)
  from each_on_index [OF d(1) subset_refl, of "\<lambda>t. gi_undo (clash t)" f] u obtain e where
    e: "db_undo clash d = (Inr (), e)" "\<forall>t. idx t e = (if t \<in> set (index_list d) then f t else idx t d)"
       "index_list e = index_list d" "index_types e = index_types d"
       "undo_session_count e = undo_session_count d" "om_wf (segment e)"
       "dom (map_of (segment e)) = dom (map_of (segment d)) \<union> set (index_list d)"
    using d(2) unfolding db_undo_def by blast
  have "gi_inv (clash t) (f t)" if "t \<in> set (index_list d)" for t
    using gi_undo_inv [OF _ u [OF that]] inv that by (simp add: db_inv_def)
  with e d show ?thesis
    by (intro exI [of _ e]) (auto simp: db_inv_def)
qed

lemma undo_of_run:
  assumes "gi_inv c g" and "run c (gi_start_undo_session g) h"
  shows "gi_undo c h = (Inr (), g)"
  by (rule session_undo [OF assms])

lemma db_run_index:
  assumes "db_run clash d e" and "db_inv clash d"
  shows "index_runs clash d e"
  using assms
proof (induction rule: nested.induct)
  case (nested_nil d)
  then show ?case by (simp add: index_runs_def nested.nested_nil)
next
  case (nested_write d e k)
  then have e: "index_runs clash d e" by simp
  then have inv: "db_inv clash e" by (simp add: index_runs_def)
  from db_write_index [OF nested_write.hyps(2) inv] e show ?case
    unfolding index_runs_def by (metis nested.nested_write)
next
  case (nested_squash d e k)
  then have e: "index_runs clash d e" by simp
  then have inv: "db_inv clash e" by (simp add: index_runs_def)
  from nested_squash.IH(2) [OF db_start_inv [OF inv]] have k: "index_runs clash (db_start e) k" .
  have de: "distinct (index_list e)" using inv by (simp add: db_inv_def)
  note st = all_indices_idx [OF de, where f = gi_start_undo_session, folded db_start_def]
  have kinv: "db_inv clash k" and dk: "distinct (index_list k)"
    using k unfolding index_runs_def db_inv_def by blast+
  note sq = all_indices_idx [OF dk, where f = gi_squash, folded db_squash_def]
  have "db_inv clash (db_squash k)"
    unfolding db_squash_def using kinv gi_squash_ok
    by (intro all_indices_inv) (auto simp: db_inv_def)
  moreover have "dom (map_of (segment (db_squash k))) = dom (map_of (segment k))"
    using kinv fold_put_segment(2) [of gi_squash "index_list k" k]
    unfolding db_squash_def all_indices_def by (auto simp: db_inv_def)
  moreover have "dom (map_of (segment (db_start e))) = dom (map_of (segment e))"
    using inv fold_put_segment(2) [of gi_start_undo_session "index_list e" e]
    unfolding db_start_def all_indices_def by (auto simp: db_inv_def)
  ultimately show ?case
    using e k unfolding index_runs_def by (auto simp: st sq intro: nested.nested_squash)
next
  case (nested_undo d e k l)
  then have e: "index_runs clash d e" by simp
  then have inv: "db_inv clash e" by (simp add: index_runs_def)
  from nested_undo.IH(2) [OF db_start_inv [OF inv]] have k: "index_runs clash (db_start e) k" .
  have de: "distinct (index_list e)" using inv by (simp add: db_inv_def)
  note st = all_indices_idx [OF de, where f = gi_start_undo_session, folded db_start_def]
  have kinv: "db_inv clash k" using k by (simp add: index_runs_def)
  have ks: "index_list k = index_list e" using k by (simp add: index_runs_def st)
  have u: "gi_undo (clash t) (idx t k) = (Inr (), idx t e)" if "t \<in> set (index_list k)" for t
    using k inv that by (intro undo_of_run) (auto simp: index_runs_def st ks db_inv_def)
  from db_undo_all_ok [OF kinv u] nested_undo.hyps(3)
  have l: "db_inv clash l" "index_list l = index_list k" "index_types l = index_types k"
    "undo_session_count l = undo_session_count k"
    "dom (map_of (segment l)) = dom (map_of (segment k))"
    "\<forall>t. idx t l = (if t \<in> set (index_list k) then idx t e else idx t k)" by auto
  have "dom (map_of (segment (db_start e))) = dom (map_of (segment e))"
    using inv fold_put_segment(2) [of gi_start_undo_session "index_list e" e]
    unfolding db_start_def all_indices_def by (auto simp: db_inv_def)
  with e k l show ?case unfolding index_runs_def by (auto simp: st)
qed

text \<open>The end of a session by undo restores the very same database.\<close>

lemma db_session_undo:
  assumes inv: "db_inv clash d" and r: "db_run clash (db_start d) e"
  shows "db_undo clash e = (Inr (), d)"
proof -
  from db_run_index [OF r db_start_inv [OF inv]] have k: "index_runs clash (db_start d) e" .
  have dd: "distinct (index_list d)" "om_wf (segment d)"
    "set (index_list d) \<subseteq> dom (map_of (segment d))" using inv by (simp_all add: db_inv_def)
  note st = all_indices_idx [OF dd(1), where f = gi_start_undo_session, folded db_start_def]
  have ks: "index_list e = index_list d" using k by (simp add: index_runs_def st)
  have einv: "db_inv clash e" using k by (simp add: index_runs_def)
  have u: "gi_undo (clash t) (idx t e) = (Inr (), idx t d)" if "t \<in> set (index_list e)" for t
    using k inv that by (intro undo_of_run) (auto simp: index_runs_def st ks db_inv_def)
  from db_undo_all_ok [OF einv u] obtain l where l: "db_undo clash e = (Inr (), l)"
    "db_inv clash l" "index_list l = index_list e" "index_types l = index_types e"
    "undo_session_count l = undo_session_count e"
    "dom (map_of (segment l)) = dom (map_of (segment e))"
    "\<forall>t. idx t l = (if t \<in> set (index_list e) then idx t d else idx t e)" by blast
  have "dom (map_of (segment (db_start d))) = dom (map_of (segment d))"
    using dd(3) fold_put_segment(2) [of gi_start_undo_session "index_list d" d]
    unfolding db_start_def all_indices_def by auto
  then have "l = d"
    using l k dd by (intro cdb_ext) (auto simp: index_runs_def st db_inv_def)
  with l show ?thesis by simp
qed

subsection \<open>The database as an undo store\<close>

text \<open>
  The contents of the \<open>k\<close>-th newest snapshot of every index. The sessions of the
  indices are started and ended together, so they all have the same number of them.
\<close>

definition layer :: "'v cdb \<Rightarrow> nat \<Rightarrow> nat \<Rightarrow> 'v snap option" where
  "layer db k t = (if has_index t db then Some (snapshots (idx t db) ! k) else None)"

definition depth :: "'v cdb \<Rightarrow> nat" where
  "depth db = length (stack (idx (hd (index_list db)) db))"

definition level :: "'v cdb \<Rightarrow> bool" where
  "level db \<longleftrightarrow> index_list db \<noteq> [] \<and>
     (\<forall>t \<in> set (index_list db). length (stack (idx t db)) = depth db)"

definition contents :: "'v cdb \<Rightarrow> nat \<Rightarrow> 'v snap option" where
  "contents db = layer db 0"

definition earlier :: "'v cdb \<Rightarrow> (nat \<Rightarrow> 'v snap option) list" where
  "earlier db = map (layer db) [1..<Suc (depth db)]"

definition db_ok :: "(nat \<Rightarrow> 'v \<Rightarrow> 'v \<Rightarrow> bool) \<Rightarrow> 'v cdb \<Rightarrow> bool" where
  "db_ok clash db \<longleftrightarrow> db_inv clash db \<and> level db"

lemma length_snapshots: "length (snapshots g) = Suc (length (stack g))"
  by (simp add: snapshots_def)

lemma earlier_eqI:
  assumes "length h = depth db"
    and "\<And>k t. k < depth db \<Longrightarrow> layer db (Suc k) t = (h ! k) t"
  shows "earlier db = h"
  using assms by (intro nth_equalityI ext) (auto simp: earlier_def simp del: upt_Suc)

lemma levelI:
  assumes "index_list db \<noteq> []" and "\<And>t. t \<in> set (index_list db) \<Longrightarrow> length (stack (idx t db)) = n"
  shows "level db \<and> depth db = n"
proof -
  have "depth db = n" using assms by (simp add: depth_def)
  with assms show ?thesis by (simp add: level_def)
qed

lemma snapshots_nth_Suc: "snapshots g ! Suc k = tl (snapshots g) ! k"
  by (simp add: snapshots_def)

lemma length_stack: "length (stack g) = length (snapshots g) - 1"
  by (simp add: length_snapshots)

lemma earlier_nth: "k < depth db \<Longrightarrow> earlier db ! k = layer db (Suc k)"
  by (simp add: earlier_def del: upt_Suc)

lemma length_earlier [simp]: "length (earlier db) = depth db"
  by (simp add: earlier_def)

lemma depth_nth: "level db \<Longrightarrow> t \<in> set (index_list db) \<Longrightarrow> length (snapshots (idx t db)) = Suc (depth db)"
  by (simp add: level_def length_snapshots)

lemma start_layer:
  assumes "db_ok clash db"
  shows "db_ok clash (db_start db) \<and> contents (db_start db) = contents db \<and>
         earlier (db_start db) = contents db # earlier db"
proof -
  have inv: "db_inv clash db" and lv: "level db" using assms by (simp_all add: db_ok_def)
  then have d: "distinct (index_list db)" by (simp add: db_inv_def)
  note st = all_indices_idx [OF d, where f = gi_start_undo_session, folded db_start_def]
  have snap: "snapshots (idx t (db_start db)) = present (idx t db) # snapshots (idx t db)"
    if "t \<in> set (index_list db)" for t
    using inv that gi_start_ok [of "clash t" "idx t db"] by (simp add: st db_inv_def)
  have "index_list (db_start db) \<noteq> []" using lv by (simp add: level_def st)
  moreover have "length (stack (idx t (db_start db))) = Suc (depth db)"
    if "t \<in> set (index_list (db_start db))" for t
    using depth_nth [OF lv] that snap by (simp add: length_stack st)
  ultimately have l: "level (db_start db) \<and> depth (db_start db) = Suc (depth db)" by (rule levelI)
  have k: "layer (db_start db) (Suc k) = layer db k" for k
    using snap by (auto simp: layer_def has_index_def st)
  have "earlier (db_start db) = contents db # earlier db"
    using l by (intro earlier_eqI)
      (auto simp: earlier_nth k contents_def nth_Cons split: nat.splits)
  moreover have "contents (db_start db) = contents db"
    using snap by (auto simp: contents_def layer_def has_index_def st snapshots_def)
  ultimately show ?thesis using l db_start_inv [OF inv] by (simp add: db_ok_def)
qed

lemma squash_layer:
  assumes "db_ok clash db" and h: "earlier db = a # h"
  shows "db_ok clash (db_squash db) \<and> contents (db_squash db) = contents db \<and>
         earlier (db_squash db) = h"
proof -
  have inv: "db_inv clash db" and lv: "level db" using assms by (simp_all add: db_ok_def)
  then have d: "distinct (index_list db)" by (simp add: db_inv_def)
  note st = all_indices_idx [OF d, where f = gi_squash, folded db_squash_def]
  have dp: "depth db = Suc (length h)" using h length_earlier [of db] by simp
  have snap: "snapshots (idx t (db_squash db)) = present (idx t db) # tl (tl (snapshots (idx t db)))"
    and two: "\<exists>x y xs. snapshots (idx t db) = x # y # xs \<and> x = present (idx t db)"
    if t: "t \<in> set (index_list db)" for t
  proof -
    have n: "length (snapshots (idx t db)) = Suc (Suc (length h))"
      using depth_nth [OF lv t] dp by simp
    then have "stack (idx t db) \<noteq> []" using length_snapshots [of "idx t db"] by auto
    then show "snapshots (idx t (db_squash db)) = present (idx t db) # tl (tl (snapshots (idx t db)))"
      using inv t gi_squash_ok [of "clash t" "idx t db"] by (simp add: st db_inv_def)
    show "\<exists>x y xs. snapshots (idx t db) = x # y # xs \<and> x = present (idx t db)"
      using n by (cases "snapshots (idx t db)"; cases "tl (snapshots (idx t db))")
        (auto simp: snapshots_def)
  qed
  have "index_list (db_squash db) \<noteq> []" using lv by (simp add: level_def st)
  moreover have "length (stack (idx t (db_squash db))) = length h"
    if "t \<in> set (index_list (db_squash db))" for t
    using depth_nth [OF lv] that snap dp by (simp add: length_stack st)
  ultimately have l: "level (db_squash db) \<and> depth (db_squash db) = length h" by (rule levelI)
  have k: "layer (db_squash db) (Suc k) = layer db (Suc (Suc k))" for k
  proof
    fix t
    show "layer (db_squash db) (Suc k) t = layer db (Suc (Suc k)) t"
      using snap [of t] two [of t] by (auto simp: layer_def has_index_def st)
  qed
  have "earlier (db_squash db) = h"
  proof (rule earlier_eqI)
    show "length h = depth (db_squash db)" using l by simp
    fix k t
    assume "k < depth (db_squash db)"
    then show "layer (db_squash db) (Suc k) t = (h ! k) t"
      using l dp h earlier_nth [of "Suc k" db] by (simp add: k)
  qed
  moreover have "contents (db_squash db) = contents db"
    using snap by (auto simp: contents_def layer_def has_index_def st snapshots_def)
  moreover have "db_inv clash (db_squash db)"
    unfolding db_squash_def using inv gi_squash_ok
    by (intro all_indices_inv) (auto simp: db_inv_def)
  ultimately show ?thesis using l by (simp add: db_ok_def)
qed

lemma undo_layer:
  assumes "db_ok clash db" and h: "earlier db = a # h"
  shows "\<exists>e. db_undo clash db = (Inr (), e) \<and> db_ok clash e \<and> contents e = a \<and> earlier e = h"
proof -
  have inv: "db_inv clash db" and lv: "level db" using assms by (simp_all add: db_ok_def)
  have dp: "depth db = Suc (length h)" using h length_earlier [of db] by simp
  define f where "f t = snd (gi_undo (clash t) (idx t db))" for t
  have u: "gi_undo (clash t) (idx t db) = (Inr (), f t)"
    and snap: "snapshots (f t) = tl (snapshots (idx t db))"
    if t: "t \<in> set (index_list db)" for t
  proof -
    have n: "length (snapshots (idx t db)) = Suc (Suc (length h))"
      using depth_nth [OF lv t] dp by simp
    then have s: "stack (idx t db) \<noteq> []" using length_snapshots [of "idx t db"] by auto
    have i: "gi_inv (clash t) (idx t db)" using inv t by (simp add: db_inv_def)
    obtain r g where q: "gi_undo (clash t) (idx t db) = (r, g)"
      by (cases "gi_undo (clash t) (idx t db)")
    from gi_undo_inv [OF i q] s q
    show "gi_undo (clash t) (idx t db) = (Inr (), f t)"
      and "snapshots (f t) = tl (snapshots (idx t db))" by (simp_all add: f_def)
  qed
  from db_undo_all_ok [OF inv u] obtain e where e: "db_undo clash db = (Inr (), e)" "db_inv clash e"
    "index_list e = index_list db"
    "\<forall>t. idx t e = (if t \<in> set (index_list db) then f t else idx t db)" by blast
  have "index_list e \<noteq> []" using lv by (simp add: level_def e)
  moreover have "length (stack (idx t e)) = length h" if "t \<in> set (index_list e)" for t
    using depth_nth [OF lv] that snap dp by (simp add: length_stack e)
  ultimately have l: "level e \<and> depth e = length h" by (rule levelI)
  have k: "layer e k = layer db (Suc k)" for k
  proof
    fix t
    show "layer e k t = layer db (Suc k) t"
      using snap [of t] by (auto simp: layer_def has_index_def e snapshots_nth_Suc)
  qed
  have "earlier e = h"
  proof (rule earlier_eqI)
    show "length h = depth e" using l by simp
    fix k t
    assume "k < depth e"
    then show "layer e (Suc k) t = (h ! k) t"
      using l dp h earlier_nth [of "Suc k" db] by (simp add: k)
  qed
  moreover have "contents e = a"
    using h dp earlier_nth [of 0 db] by (simp add: contents_def k)
  ultimately show ?thesis using e l by (auto simp: db_ok_def)
qed

lemma write_layer:
  assumes "db_ok clash db" and w: "db_write clash db e"
  shows "db_ok clash e \<and> earlier e = earlier db"
proof -
  have inv: "db_inv clash db" and lv: "level db" using assms by (simp_all add: db_ok_def)
  from db_write_index [OF w inv] obtain s where
    s: "db = e \<or> write_step (clash s) (idx s db) (idx s e) \<and> s \<in> set (index_list db)"
    and o: "\<forall>t. t \<noteq> s \<longrightarrow> idx t e = idx t db" and e: "db_inv clash e" "index_list e = index_list db"
    by blast
  have tl: "tl (snapshots (idx t e)) = tl (snapshots (idx t db))"
    if "t \<in> set (index_list db)" for t
    using s o inv that write_step_ok [of "clash s" "idx s db" "idx s e"]
    by (cases "t = s") (auto simp: db_inv_def)
  then have n: "length (snapshots (idx t e)) = length (snapshots (idx t db))"
    if "t \<in> set (index_list db)" for t
    using that by (metis length_tl length_snapshots diff_Suc_1)
  have "index_list e \<noteq> []" using lv by (simp add: level_def e)
  moreover have "length (stack (idx t e)) = depth db" if "t \<in> set (index_list e)" for t
    using depth_nth [OF lv] that n by (simp add: length_stack e)
  ultimately have l: "level e \<and> depth e = depth db" by (rule levelI)
  have k: "layer e (Suc k) = layer db (Suc k)" for k
  proof
    fix t
    show "layer e (Suc k) t = layer db (Suc k) t"
      using tl [of t] by (auto simp: layer_def has_index_def e snapshots_nth_Suc)
  qed
  have "earlier e = earlier db"
    using l by (intro earlier_eqI) (auto simp: k earlier_nth)
  then show ?thesis using l e by (simp add: db_ok_def)
qed

interpretation cb: undo_store "db_ok clash" contents earlier db_start db_squash "db_undo clash"
  "db_write clash"
  for clash :: "nat \<Rightarrow> 'v \<Rightarrow> 'v \<Rightarrow> bool"
  by unfold_locales (auto simp: start_layer squash_layer write_layer intro: undo_layer)

end
