(* ===== verification/Chainbase_Props.thy ===== *)
theory Chainbase_Props
  imports Chainbase_Theorems
begin

section \<open>chainbase: the properties of the database\<close>

text \<open>
  The claims about chainbase, over the database of all indices, and a small database on
  which they are applied.
\<close>

subsection \<open>A database with two indices\<close>

text \<open>Object class 3 has its low decimal digit as a unique key, class 0 has none.\<close>

definition demo_clash :: "nat \<Rightarrow> nat \<Rightarrow> nat \<Rightarrow> bool" where
  "demo_clash t v w \<longleftrightarrow> t = 3 \<and> v mod 10 = w mod 10"

definition demo_db :: "nat cdb" where
  "demo_db = \<lparr>segment = [(0, empty_index), (3, empty_index)], index_list = [0, 3],
              index_types = [0, 3], undo_session_count = 0\<rparr>"

lemma demo_idx: "idx t demo_db = empty_index"
  by (simp add: demo_db_def idx_def)

lemma demo_ok: "db_ok demo_clash demo_db"
  by (auto simp: db_ok_def db_inv_def level_def depth_def demo_idx gi_inv_def om_wf_def
      empty_index_def no_clash_def symp_def demo_clash_def)
     (auto simp: demo_db_def)

lemma demo_create: "db_write demo_clash d (snd (db_create demo_clash 3 15 d))"
  by (rule db_create_write [of _ _ _ _ "fst (db_create demo_clash 3 15 d)"]) simp

lemma demo_run: "db_run demo_clash d (snd (db_create demo_clash 3 15 d))"
  by (rule nested_write [where wr = "db_write demo_clash" and t = d])
     (rule nested_nil, rule demo_create)

subsection \<open>Sessions\<close>

text \<open>
  C7: A session of the database is a transaction. Whatever is created, modified (without
  touching a unique key) or removed in it, through any index and in any nested session that is
  squashed or undone, its undo raises nothing and gives back the very same database, object by
  object, with the same next ids and the same undo stacks.
\<close>

theorem session_rollback:
  assumes "db_inv clash d" and "db_run clash (db_start d) e"
  shows "db_undo clash e = (Inr (), d)"
  by (rule db_session_undo [OF assms])

theorem session_rollback_witness:
  "db_undo demo_clash (snd (db_create demo_clash 3 15 (db_start demo_db))) = (Inr (), demo_db)"
  by (rule session_rollback [OF demo_ok [unfolded db_ok_def, THEN conjunct1] demo_run])

text \<open>
  Squashing a session keeps what it wrote and forgets that there was a session: contents
  and next ids of every index are those at its end, and the contents the sessions below it
  would restore are those they had before it was started.
\<close>

theorem session_merge:
  assumes "db_ok clash d" and "db_run clash (db_start d) e"
  shows "db_ok clash (db_squash e) \<and> contents (db_squash e) = contents e \<and>
         earlier (db_squash e) = earlier d"
  by (rule cb.merged [OF assms])

theorem session_merge_witness:
  "earlier (db_squash (snd (db_create demo_clash 3 15 (db_start demo_db)))) = earlier demo_db"
  using session_merge [OF demo_ok demo_run] by simp

text \<open>
  Sessions pushed one per block unwind one by one: after any number of sessions left open
  one above the other, undoing as many times succeeds each time and ends at the contents before
  the first of them (this is what popping blocks relies on).
\<close>

theorem sessions_unwind:
  assumes "opened db_start db_squash (db_undo clash) (db_write clash) ds e"
    and "ds \<noteq> []" and "db_ok clash (last ds)"
  shows "\<exists>u. undo_n (length ds) (db_undo clash) e = (Inr (), u) \<and> db_ok clash u \<and>
             contents u = contents (last ds) \<and> earlier u = earlier (last ds)"
  by (rule cb.unwind [OF assms])

theorem sessions_unwind_witness:
  "let d1 = snd (db_create demo_clash 3 15 (db_start demo_db));
       d2 = snd (db_create demo_clash 3 15 (db_start d1))
   in \<exists>u. undo_n 2 (db_undo demo_clash) d2 = (Inr (), u) \<and> contents u = contents demo_db"
  using sessions_unwind [OF opened_next [OF opened_next [OF opened_none demo_run] demo_run]] demo_ok
  by (force simp: Let_def numeral_2_eq_2)

subsection \<open>Objects\<close>

text \<open>
  \<open>create\<close> on every branch. It fails exactly when the class has no index, when the index
  already holds an object with the next id, or when an object with the same unique key exists; then no
  contents change. Otherwise it returns the next id, the object is stored under it, the next
  id is incremented, the contents of every other class and of every other id are as before, and
  the invariant (unique keys, ids below the next id, recordable undo states) holds.
\<close>

theorem create_branches:
  assumes inv: "db_inv clash d" and c: "db_create clash t v d = (r, e)"
  shows "db_inv clash e \<and>
    (case r of
       Inl x \<Rightarrow> contents e = contents d \<and>
         (if has_index t d then x = Logic_Error \<and> (gi_find (next_id (idx t d)) (idx t d) \<noteq> None \<or>
              (\<exists>j w. gi_find j (idx t d) = Some w \<and> clash t v w))
          else x = Runtime_Error)
     | Inr i \<Rightarrow> has_index t d \<and> i = next_id (idx t d) \<and> gi_find i (idx t d) = None \<and>
         gi_find i (idx t e) = Some v \<and>
         (\<forall>s j. (s, j) \<noteq> (t, i) \<longrightarrow> gi_find j (idx s e) = gi_find j (idx s d)) \<and>
         (\<forall>s. next_id (idx s e) = (if s = t then Suc i else next_id (idx s d))))"
proof (cases "has_index t d")
  case False
  then show ?thesis using assms by (auto simp: db_create_def on_index_def)
next
  case True
  let ?g = "idx t d"
  have g: "gi_inv (clash t) ?g" using inv True by (simp add: db_inv_def has_index_def)
  obtain q h where h: "gi_emplace (clash t) v ?g = (q, h)" by (cases "gi_emplace (clash t) v ?g")
  from gi_emplace_ok [OF g h] have k: "gi_inv (clash t) h"
    "present h = (case q of Inl _ \<Rightarrow> present ?g | Inr i \<Rightarrow> ((fst (present ?g))(i \<mapsto> v), Suc i))"
    by simp_all
  from c h True have r: "r = q" by (simp add: db_create_def on_index_has)
  from on_index_inv [OF inv c [unfolded db_create_def] True] h k(1)
  have e: "db_inv clash e" "index_list e = index_list d" "idx t e = h"
    "\<And>s. s \<noteq> t \<Longrightarrow> idx s e = idx s d" by auto
  show ?thesis
  proof (cases q)
    case (Inl x)
    with h have hg: "h = ?g" and x: "x = Logic_Error"
      and why: "map_of (indices ?g) (next_id ?g) \<noteq> None \<or> clashes (clash t) (next_id ?g) v (indices ?g)"
      by (auto simp: gi_emplace_def Let_def split: if_splits)
    have "idx s e = idx s d" for s using e hg by (cases "s = t") auto
    then have "contents e = contents d" by (simp add: contents_def layer_def has_index_def e fun_eq_iff)
    with Inl r x why True e(1) gi_invD(2) [OF g] show ?thesis
      by (auto simp: gi_find_def clashes_iff)
  next
    case (Inr i)
    from gi_emplace_written [OF h [unfolded Inr]]
    have i: "i = next_id ?g" "map_of (indices ?g) i = None" by auto
    have m: "map_of (indices h) = (map_of (indices ?g))(i \<mapsto> v)" "next_id h = Suc i"
      using k(2) Inr by (simp_all add: present_def)
    have "gi_find j (idx s e) = gi_find j (idx s d)" if "(s, j) \<noteq> (t, i)" for s j
      using that e m by (cases "s = t") (auto simp: gi_find_def)
    moreover have "next_id (idx s e) = (if s = t then Suc i else next_id (idx s d))" for s
      using e m by simp
    ultimately show ?thesis using Inr r i m e True by (simp add: gi_find_def)
  qed
qed

theorem create_branches_witness:
  "gi_find 0 (idx 3 (snd (db_create demo_clash 3 15 demo_db))) = Some 15"
proof -
  obtain r e where c: "db_create demo_clash 3 15 demo_db = (r, e)"
    by (cases "db_create demo_clash 3 15 demo_db")
  moreover have "fst (db_create demo_clash 3 15 demo_db) = Inr 0" by code_simp
  ultimately show ?thesis
    using create_branches [OF demo_ok [unfolded db_ok_def, THEN conjunct1] c] by simp
qed

text \<open>
  \<open>commit(r)\<close> makes everything up to revision \<open>r\<close> permanent and touches nothing else:
  in every index the present contents and the snapshots of the sessions newer than \<open>r\<close> stay as
  they were, the older ones are gone, and the invariant holds.
\<close>

theorem commit_keeps_newer:
  assumes "db_inv clash d"
  shows "db_inv clash (db_commit r d) \<and>
    (\<forall>t \<in> set (index_list d).
       present (idx t (db_commit r d)) = present (idx t d) \<and>
       stack (idx t (db_commit r d)) = take (nat (gi_revision (idx t d) - r)) (stack (idx t d)) \<and>
       snapshots (idx t (db_commit r d)) =
         take (Suc (nat (gi_revision (idx t d) - r))) (snapshots (idx t d)))"
proof -
  have d: "distinct (index_list d)" using assms by (simp add: db_inv_def)
  note st = all_indices_idx [OF d, where f = "gi_commit r", folded db_commit_def]
  have g: "gi_inv (clash t) (idx t d)" if "t \<in> set (index_list d)" for t
    using assms that by (simp add: db_inv_def)
  have "db_inv clash (db_commit r d)"
    unfolding db_commit_def using gi_commit_ok [OF g] by (intro all_indices_inv [OF assms]) simp
  moreover have "present (gi_commit r h) = present h" for h :: "'a generic_index"
    by (simp add: present_def gi_commit_def)
  ultimately show ?thesis
    using gi_commit_ok [OF g] gi_commit_stack [OF g] by (simp add: st)
qed

theorem commit_keeps_newer_witness:
  "present (idx 3 (db_commit 0 demo_db)) = present (idx 3 demo_db)"
  using commit_keeps_newer [OF demo_ok [unfolded db_ok_def, THEN conjunct1]]
  by (simp add: demo_db_def)

text \<open>
  \<open>undo_all\<close> raises nothing, empties every undo stack and goes back, in every index, to
  the contents before its oldest open session.
\<close>

theorem undo_all_to_oldest:
  assumes "db_inv clash d"
  shows "\<exists>e. db_undo_all clash d = (Inr (), e) \<and>
    (\<forall>t \<in> set (index_list d). stack (idx t e) = [] \<and> snapshots (idx t e) = [last (snapshots (idx t d))])"
proof -
  have d: "distinct (index_list d)" using assms by (simp add: db_inv_def)
  define f where "f t = snd (gi_undo_all (clash t) (idx t d))" for t
  have f: "gi_undo_all (clash t) (idx t d) = (Inr (), f t) \<and> stack (f t) = [] \<and>
      snapshots (f t) = [last (snapshots (idx t d))]" if "t \<in> set (index_list d)" for t
    using undo_times_ok [of "clash t" "idx t d"] assms that
    by (auto simp: f_def gi_undo_all_def db_inv_def)
  from each_on_index [OF d subset_refl, of "\<lambda>t. gi_undo_all (clash t)" f] f show ?thesis
    unfolding db_undo_all_def by auto
qed

theorem undo_all_to_oldest_witness:
  "\<exists>e. db_undo_all demo_clash (snd (db_create demo_clash 3 15 (db_start demo_db))) = (Inr (), e)"
proof -
  have "db_ok demo_clash (db_start demo_db)" using start_layer [OF demo_ok] by simp
  then have "db_ok demo_clash (snd (db_create demo_clash 3 15 (db_start demo_db)))"
    by (rule write_layer [OF _ demo_create, THEN conjunct1])
  then show ?thesis using undo_all_to_oldest unfolding db_ok_def by meson
qed

text \<open>
  A wiped database that registers its indices again cannot be resized any more: \<open>wipe\<close>
  clears \<open>_index_list\<close> but not \<open>_index_types\<close>, which \<open>resize\<close> replays.
\<close>

lemma wiped_cannot_resize:
  "fst (cdb_resize (snd (add_index 3 (cdb_wipe (snd (add_index 3 empty_cdb)))))) = Inl Logic_Error"
  by (simp add: cdb_resize_def add_index_def add_index_helper_def cdb_wipe_def empty_cdb_def
      has_index_def put_idx_def seq_def bnd_def ret_def)

end
