(* ===== verification/Raw.thy ===== *)
theory Raw
  imports Prelude
begin

section \<open>fc::raw: the binary encoding\<close>

text \<open>
  \<open>fc/io/raw.hpp\<close>, \<open>datastream.hpp\<close>, \<open>varint.hpp\<close> and \<open>container/flat.hpp\<close>. An
  overload pair \<open>pack\<close>, \<open>unpack\<close> for a type is a codec: the writes it makes, in
  order, the reader, and \<open>sizeof\<close> of the type, on which the allocation checks depend.
  A reader is a statement whose state is the rest of the input. \<open>sizeof\<close> depends on the
  platform and is the natural number given with each codec.
\<close>

subsection \<open>Streams\<close>

text \<open>\<open>datastream\<close> over a buffer to read: a read past its end raises a range error.\<close>

definition ds_read :: "nat \<Rightarrow> (bytes, bytes) sx" where
  "ds_read n s = (if n \<le> length s then (Inr (take n s), drop n s) else (Inl Stream_Range, s))"

definition ds_get :: "(bytes, byte) sx" where
  "ds_get s = (case s of [] \<Rightarrow> (Inl Stream_Range, s) | b # t \<Rightarrow> (Inr b, t))"

text \<open>
  \<open>datastream\<close> over a buffer to write: the room left and what has been written. The
  size is compared as a signed 32-bit integer; copying past the end is undefined.
\<close>

type_synonym wbuf = "nat \<times> bytes"

definition as_int32 :: "nat \<Rightarrow> int" where
  "as_int32 n = sint (word_of_nat n :: u32)"

definition ds_write :: "bytes \<Rightarrow> (wbuf, unit) sx" where
  "ds_write d buf =
     (case buf of (room, out) \<Rightarrow>
        if int room \<ge> as_int32 (length d)
        then (if length d \<le> room then (Inr (), (room - length d, out @ d)) else (Inl Undefined, buf))
        else (Inl Stream_Range, buf))"

subsection \<open>Codecs\<close>

record 'a codec =
  c_put :: "'a \<Rightarrow> bytes list"
  c_get :: "(bytes, 'a) sx"
  c_sizeof :: nat

definition packed :: "'a codec \<Rightarrow> 'a \<Rightarrow> bytes" where
  "packed c v = concat (c_put c v)"

text \<open>\<open>datastream<size_t>\<close>: a dry run that only counts.\<close>

definition pack_size :: "'a codec \<Rightarrow> 'a \<Rightarrow> nat" where
  "pack_size c v = sum_list (map length (c_put c v))"

definition pack_to_vector :: "'a codec \<Rightarrow> 'a \<Rightarrow> bytes result" where
  "pack_to_vector c v =
     (let n = pack_size c v
      in if n = 0 then Inr []
         else case each ds_write (c_put c v) (n, []) of
                (Inl e, _) \<Rightarrow> Inl e
              | (Inr _, (room, out)) \<Rightarrow> Inr (out @ replicate room 0))"

text \<open>An empty vector leaves the value default-constructed (\<open>d\<close>).\<close>

definition unpack_from_vector :: "'a codec \<Rightarrow> 'a \<Rightarrow> bytes \<Rightarrow> 'a result" where
  "unpack_from_vector c d s = (if s = [] then Inr d else fst (c_get c s))"

subsection \<open>Integers and plain memory\<close>

fun le_bytes :: "nat \<Rightarrow> nat \<Rightarrow> bytes" where
  "le_bytes 0 x = []"
| "le_bytes (Suc k) x = word_of_nat x # le_bytes k (x div 256)"

fun of_le :: "bytes \<Rightarrow> nat" where
  "of_le [] = 0"
| "of_le (b # bs) = unat b + 256 * of_le bs"

text \<open>\<open>s.write( (char*)&v, sizeof(v) )\<close> on a little-endian machine.\<close>

definition c_word :: "nat \<Rightarrow> 'w::len word codec" where
  "c_word k = \<lparr>c_put = \<lambda>w. [le_bytes k (unat w)],
               c_get = bnd (ds_read k) (\<lambda>bs. ret (word_of_nat (of_le bs))), c_sizeof = k\<rparr>"

definition c_array :: "nat \<Rightarrow> bytes codec" where
  "c_array n = \<lparr>c_put = \<lambda>bs. [bs], c_get = ds_read n, c_sizeof = n\<rparr>"

definition c_bool :: "bool codec" where
  "c_bool = \<lparr>c_put = \<lambda>b. [[if b then 1 else 0]],
             c_get = bnd ds_get (\<lambda>b. seq (check (b AND NOT 1 = 0) Fc_Assert) (ret (b \<noteq> 0))),
             c_sizeof = 1\<rparr>"

subsection \<open>Variable-length integers\<close>

text \<open>The loop of both \<open>pack\<close> functions: seven bits a byte, the low ones first.\<close>

function put_varint :: "'w::len word \<Rightarrow> bytes list" where
  "put_varint v =
     (let b = ucast v AND 0x7f :: byte; v' = drop_bit 7 v
      in if v' = 0 then [[b]] else [b OR 0x80] # put_varint v')"
  by auto

termination
proof (relation "measure unat")
  fix v :: "'w::len word" and b :: byte and v'
  assume v': "v' = drop_bit 7 v" and "\<not> v' = 0"
  then have "v \<noteq> 0" by auto
  then have "unat v \<noteq> 0" by (simp add: unsigned_eq_0_iff)
  moreover have "unat v' = unat v div 128"
    unfolding v' by (simp add: unat_drop_bit_eq del: drop_bit_eq_div) (simp add: drop_bit_eq_div)
  ultimately show "(v', v) \<in> measure unat" by simp
qed simp

declare put_varint.simps [simp del]

text \<open>
  \<open>unpack\<close> of \<open>unsigned_int\<close>: the 7 bits are a \<open>uint32_t\<close>, whose shift by 32 or
  more C++ leaves undefined; the accumulator is 64 bits wide and truncated at the end.
\<close>

fun get_unsigned :: "u64 \<Rightarrow> nat \<Rightarrow> (bytes, u64) sx" where
  "get_unsigned v by [] = (Inl Stream_Range, [])"
| "get_unsigned v by (b # bs) =
     (if by \<ge> 32 then (Inl Undefined, bs)
      else let v' = v OR ucast (push_bit by (ucast (b AND 0x7f) :: u32))
           in if b AND 0x80 \<noteq> 0 then get_unsigned v' (by + 7) bs else (Inr v', bs))"

definition c_unsigned_int :: "u32 codec" where
  "c_unsigned_int =
     \<lparr>c_put = \<lambda>x. put_varint (ucast x :: u64),
      c_get = bnd (get_unsigned 0 0) (\<lambda>v. ret (ucast v)), c_sizeof = 4\<rparr>"

fun get_signed :: "u32 \<Rightarrow> nat \<Rightarrow> (bytes, u32) sx" where
  "get_signed v by [] = (Inl Stream_Range, [])"
| "get_signed v by (b # bs) =
     (if by \<ge> 32 then (Inl Undefined, bs)
      else let v' = v OR push_bit by (ucast (b AND 0x7f) :: u32)
           in if b AND 0x80 \<noteq> 0 then get_signed v' (by + 7) bs else (Inr v', bs))"

definition signed_value :: "u32 \<Rightarrow> u32" where
  "signed_value v =
     (let x = (drop_bit 1 v XOR drop_bit 31 v) + (v AND 1);
          x = (if v AND 1 \<noteq> 0 then x else - x)
      in - x)"

definition zigzag :: "u32 \<Rightarrow> u32" where
  "zigzag v = push_bit 1 v XOR signed_drop_bit 31 v"

definition c_signed_int :: "u32 codec" where
  "c_signed_int =
     \<lparr>c_put = \<lambda>x. put_varint (zigzag x),
      c_get = bnd (get_signed 0 0) (\<lambda>v. ret (signed_value v)), c_sizeof = 4\<rparr>"

subsection \<open>Sequences\<close>

definition max_alloc :: nat where
  "max_alloc = 1024 * 1024 * 10"

definition put_size :: "'a list \<Rightarrow> bytes list" where
  "put_size xs = c_put c_unsigned_int (word_of_nat (length xs))"

definition c_bytes :: "bytes codec" where
  "c_bytes =
     \<lparr>c_put = \<lambda>bs. put_size bs @ (if bs = [] then [] else [bs]),
      c_get = bnd (c_get c_unsigned_int) (\<lambda>n.
        seq (check (unat n < max_alloc) Fc_Assert)
            (if n = 0 then ret [] else ds_read (unat n))),
      c_sizeof = 24\<rparr>"

text \<open>A \<open>std::string\<close> is written like a vector of characters and read through one.\<close>

definition c_string :: "bytes codec" where
  "c_string = c_bytes\<lparr>c_put := \<lambda>bs. put_size bs @ (if bs = [] then [] else [bs]), c_sizeof := 32\<rparr>"

fun get_n :: "(bytes, 'a) sx \<Rightarrow> nat \<Rightarrow> (bytes, 'a list) sx" where
  "get_n g 0 = ret []"
| "get_n g (Suc n) = bnd g (\<lambda>x. bnd (get_n g n) (\<lambda>xs. ret (x # xs)))"

definition get_sized :: "nat \<Rightarrow> (bytes, 'a) sx \<Rightarrow> (bytes, 'a list) sx" where
  "get_sized bound g =
     bnd (c_get c_unsigned_int) (\<lambda>n.
       seq (check (unat n * bound < max_alloc) Fc_Assert) (get_n g (unat n)))"

definition c_vector :: "'a codec \<Rightarrow> 'a list codec" where
  "c_vector c =
     \<lparr>c_put = \<lambda>xs. put_size xs @ concat (map (c_put c) xs),
      c_get = get_sized (c_sizeof c) (c_get c), c_sizeof = 24\<rparr>"

subsection \<open>Pairs, options, maps, sets, variants\<close>

definition c_pair :: "'a codec \<Rightarrow> 'b codec \<Rightarrow> ('a \<times> 'b) codec" where
  "c_pair c d =
     \<lparr>c_put = \<lambda>(x, y). c_put c x @ c_put d y,
      c_get = bnd (c_get c) (\<lambda>x. bnd (c_get d) (\<lambda>y. ret (x, y))),
      c_sizeof = c_sizeof c + c_sizeof d\<rparr>"

definition c_optional :: "'a codec \<Rightarrow> 'a option codec" where
  "c_optional c =
     \<lparr>c_put = \<lambda>v. c_put c_bool (v \<noteq> None) @ (case v of None \<Rightarrow> [] | Some x \<Rightarrow> c_put c x),
      c_get = bnd (c_get c_bool) (\<lambda>b.
        if b then bnd (c_get c) (\<lambda>x. ret (Some x)) else ret None),
      c_sizeof = c_sizeof c + 8\<rparr>"

text \<open>\<open>std::map\<close>: entries in key order; \<open>insert\<close> keeps the first of equal keys.\<close>

definition insert_all :: "('k::linorder \<times> 'v) list \<Rightarrow> ('k, 'v) omap" where
  "insert_all kvs = fold (\<lambda>(k, v) m. om_emplace k v m) kvs []"

definition c_map :: "'k::linorder codec \<Rightarrow> 'v codec \<Rightarrow> ('k, 'v) omap codec" where
  "c_map c d =
     \<lparr>c_put = \<lambda>m. put_size m @ concat (map (c_put (c_pair c d)) m),
      c_get = bnd (get_sized (c_sizeof c + c_sizeof d) (c_get (c_pair c d)))
                (\<lambda>kvs. ret (insert_all kvs)),
      c_sizeof = 48\<rparr>"

text \<open>\<open>std::set\<close>, read without an allocation check, and \<open>flat_set\<close>, with one.\<close>

definition c_set :: "'k::linorder codec \<Rightarrow> 'k list codec" where
  "c_set c =
     \<lparr>c_put = \<lambda>xs. put_size xs @ concat (map (c_put c) xs),
      c_get = bnd (bnd (c_get c_unsigned_int) (\<lambda>n. get_n (c_get c) (unat n)))
                (\<lambda>xs. ret (map fst (insert_all (map (\<lambda>x. (x, ())) xs)))),
      c_sizeof = 48\<rparr>"

definition c_flat_set :: "'k::linorder codec \<Rightarrow> 'k list codec" where
  "c_flat_set c =
     \<lparr>c_put = \<lambda>xs. put_size xs @ concat (map (c_put c) xs),
      c_get = bnd (get_sized (c_sizeof c) (c_get c))
                (\<lambda>xs. ret (map fst (insert_all (map (\<lambda>x. (x, ())) xs)))),
      c_sizeof = 24\<rparr>"

text \<open>
  \<open>static_variant\<close>: the tag, then the alternative it names. \<open>readers\<close> are the readers of
  the alternatives; \<open>set_which\<close> refuses a tag past the last.
\<close>

definition c_variant ::
    "('a \<Rightarrow> nat) \<Rightarrow> ('a \<Rightarrow> bytes list) \<Rightarrow> (bytes, 'a) sx list \<Rightarrow> nat \<Rightarrow> 'a codec" where
  "c_variant which put readers n =
     \<lparr>c_put = \<lambda>v. c_put c_unsigned_int (word_of_nat (which v)) @ put v,
      c_get = bnd (c_get c_unsigned_int) (\<lambda>w.
        if unat w < length readers then readers ! unat w else raise Fc_Assert),
      c_sizeof = n\<rparr>"

text \<open>
  A reflected class is its members in the order of \<open>FC_REFLECT\<close>: the codec of the tuple
  of members carried over to the class.
\<close>

definition c_class :: "('a \<Rightarrow> 'm) \<Rightarrow> ('m \<Rightarrow> 'a) \<Rightarrow> nat \<Rightarrow> 'm codec \<Rightarrow> 'a codec" where
  "c_class members build n c =
     \<lparr>c_put = \<lambda>v. c_put c (members v),
      c_get = bnd (c_get c) (\<lambda>m. ret (build m)), c_sizeof = n\<rparr>"

end
