(* ===== verification/Raw_Facts.thy ===== *)
theory Raw_Facts
  imports Raw
begin

section \<open>fc::raw: reading back what was written\<close>

text \<open>
  The law every codec keeps, \<open>round_trip\<close>: reading from the bytes of a value followed by
  anything returns the value and leaves the rest. It is a locale with the consequences the
  program relies on, and a property of each combinator. \<open>put_varint\<close> and its readers are
  compared bit by bit.
\<close>

subsection \<open>The law\<close>

definition round_trip :: "('a \<Rightarrow> bool) \<Rightarrow> 'a codec \<Rightarrow> bool" where
  "round_trip P c \<longleftrightarrow> (\<forall>v rest. P v \<longrightarrow> c_get c (packed c v @ rest) = (Inr v, rest))"

named_theorems rt_intros \<open>round trips of the combinators\<close>

lemma round_tripI:
  "(\<And>v rest. P v \<Longrightarrow> c_get c (concat (c_put c v) @ rest) = (Inr v, rest)) \<Longrightarrow> round_trip P c"
  by (simp add: round_trip_def packed_def)

lemma round_tripD:
  "round_trip P c \<Longrightarrow> P v \<Longrightarrow> c_get c (concat (c_put c v) @ rest) = (Inr v, rest)"
  by (simp add: round_trip_def packed_def)

lemma round_trip_mono: "round_trip Q c \<Longrightarrow> (\<And>v. P v \<Longrightarrow> Q v) \<Longrightarrow> round_trip P c"
  by (simp add: round_trip_def)

lemma pack_size_packed: "pack_size c v = length (packed c v)"
  by (simp add: pack_size_def packed_def length_concat)

lemma each_write:
  assumes "sum_list (map length ds) \<le> room" and "room < 2 ^ 31"
  shows "each ds_write ds (room, out) = (Inr (), (room - sum_list (map length ds), out @ concat ds))"
  using assms
proof (induction ds arbitrary: room out)
  case Nil
  then show ?case by (simp add: ret_def)
next
  case (Cons d ds)
  have d: "length d \<le> room" using Cons.prems(1) by simp
  then have "length d < 2 ^ 31" using Cons.prems(2) by (rule order.strict_trans1)
  then have "int (length d) < 2 ^ 31" by (metis of_nat_less_numeral_power_cancel_iff)
  then have "as_int32 (length d) = int (length d)"
    by (simp add: as_int32_def signed_of_nat signed_take_bit_int_eq_self)
  then have w: "ds_write d (room, out) = (Inr (), (room - length d, out @ d))"
    using d by (simp add: ds_write_def)
  show ?case
    using Cons.IH [of "room - length d" "out @ d"] Cons.prems w by (simp add: seq_def bnd_def)
qed

locale codec_law =
  fixes c :: "'a codec" and ok :: "'a \<Rightarrow> bool"
  assumes law: "round_trip ok c"
begin

text \<open>No encoding of a value is the beginning of another one's.\<close>

lemma unambiguous:
  assumes "ok v" and "ok w" and "packed c v @ r = packed c w @ s"
  shows "v = w \<and> r = s"
  using law assms unfolding round_trip_def by (metis Inr_inject prod.inject)

lemma packed_inj: "ok v \<Longrightarrow> ok w \<Longrightarrow> packed c v = packed c w \<Longrightarrow> v = w"
  using unambiguous [of v w "[]" "[]"] by simp

lemma pack_ok:
  assumes "pack_size c v < 2 ^ 31"
  shows "pack_to_vector c v = Inr (packed c v)"
proof (cases "pack_size c v = 0")
  case True
  then show ?thesis by (simp add: pack_to_vector_def pack_size_packed)
next
  case False
  have "each ds_write (c_put c v) (pack_size c v, []) = (Inr (), (0, packed c v))"
    using each_write [of "c_put c v" "pack_size c v" "[]"] assms
    by (simp add: pack_size_def packed_def)
  with False show ?thesis by (simp add: pack_to_vector_def)
qed

lemma vector_round_trip:
  assumes "ok v" and "pack_to_vector c v = Inr bs" and "pack_size c v < 2 ^ 31" and "bs \<noteq> []"
  shows "unpack_from_vector c d bs = Inr v"
proof -
  have "bs = packed c v" using pack_ok [OF assms(3)] assms(2) by simp
  then have "c_get c bs = (Inr v, [])"
    using law assms(1) unfolding round_trip_def by (metis append_Nil2)
  then show ?thesis using assms(4) by (simp add: unpack_from_vector_def)
qed

end

subsection \<open>Plain memory\<close>

lemma length_le_bytes [simp]: "length (le_bytes k x) = k"
  by (induction k x rule: le_bytes.induct) simp_all

lemma of_le_bytes: "of_le (le_bytes k x) = x mod 256 ^ k"
proof (induction k x rule: le_bytes.induct)
  case (1 x)
  then show ?case by simp
next
  case (2 k x)
  have "unat (word_of_nat x :: byte) = x mod 256" by (simp add: unat_of_nat)
  then show ?case using 2 by (simp add: mod_mult2_eq)
qed

lemma le_bytes_of_le: "length bs = k \<Longrightarrow> le_bytes k (of_le bs) = bs"
proof (induction bs arbitrary: k)
  case Nil
  then show ?case by simp
next
  case (Cons b bs)
  then obtain j where k: "k = Suc j" "length bs = j" by auto
  have b: "unat b < 256" by (rule byte_bound)
  have "unat (word_of_nat (unat b + 256 * of_le bs) :: byte) = unat b"
    by (simp only: unat_of_nat) (use b in simp)
  then have "(word_of_nat (unat b + 256 * of_le bs) :: byte) = b"
    by (rule unsigned_word_eqI)
  then show ?case using Cons.IH [OF k(2)] b by (simp add: k)
qed

lemma of_le_bound: "of_le bs < 256 ^ length bs"
proof (induction bs)
  case (Cons b bs)
  have "unat b < 256" by (rule byte_bound)
  with Cons show ?case by simp
qed simp

lemma ds_read_append [simp]: "length bs = n \<Longrightarrow> ds_read n (bs @ rest) = (Inr bs, rest)"
  by (simp add: ds_read_def)

lemma rt_word [rt_intros]:
  assumes "LENGTH('w) \<le> 8 * k"
  shows "round_trip (\<lambda>_. True) (c_word k :: 'w::len word codec)"
proof (rule round_tripI)
  fix w :: "'w word" and rest
  have "unat w < 2 ^ (8 * k)"
    by (rule order.strict_trans2 [OF unat_bound power_increasing [OF assms]]) simp
  then have "unat w < 256 ^ k" by (simp add: power_mult)
  then have "word_of_nat (of_le (le_bytes k (unat w))) = w" by (simp add: of_le_bytes)
  then show "c_get (c_word k) (concat (c_put (c_word k) w) @ rest) = (Inr w, rest)"
    by (simp add: c_word_def bnd_def ret_def)
qed

lemma rt_array [rt_intros]: "round_trip (\<lambda>bs. length bs = n) (c_array n)"
  by (rule round_tripI) (simp add: c_array_def)

lemma rt_bool [rt_intros]: "round_trip (\<lambda>_. True) c_bool"
proof (rule round_tripI)
  fix b rest
  have "(1 :: byte) AND NOT 1 = 0" "(0 :: byte) AND NOT 1 = 0" by simp_all
  then show "c_get c_bool (concat (c_put c_bool b) @ rest) = (Inr b, rest)"
    by (simp add: c_bool_def bnd_def seq_def ds_get_def check_def ret_def)
qed

subsection \<open>Variable-length integers\<close>

lemma low_seven: "(v :: 'w::len word) AND 0x7f = take_bit 7 v"
proof -
  have "mask 7 = (0x7f :: 'w word)" by (simp add: mask_eq_exp_minus_1)
  then show ?thesis by (simp add: take_bit_eq_mask)
qed

lemma bit_0x80: "bit (0x80 :: byte) n \<longleftrightarrow> n = 7"
proof -
  have "(0x80 :: byte) = 2 ^ 7" by simp
  then show ?thesis by (simp only: bit_exp_iff) auto
qed

lemma high_bit: "(b :: byte) AND 0x80 \<noteq> 0 \<longleftrightarrow> bit b 7"
proof -
  have "(0x80 :: byte) = 2 ^ 7" by simp
  then show ?thesis by (simp only: and_exp_eq_0_iff_not_bit not_not)
qed

text \<open>The byte written for seven bits: its low bits and its continuation bit.\<close>

lemma varint_byte:
  fixes v :: "'w::len word"
  defines "b \<equiv> (ucast v AND 0x7f) :: byte"
  shows "b AND 0x80 = 0" "(b OR 0x80) AND 0x80 \<noteq> 0"
    "take_bit 7 b = take_bit 7 (ucast v)" "take_bit 7 (b OR 0x80) = take_bit 7 (ucast v)"
proof -
  show "b AND 0x80 = 0" using high_bit [of b] by (simp add: b_def low_seven bit_simps)
  show "(b OR 0x80) AND 0x80 \<noteq> 0"
    unfolding high_bit by (simp add: bit_simps bit_0x80)
  show "take_bit 7 b = take_bit 7 (ucast v)" by (simp add: b_def low_seven)
  show "take_bit 7 (b OR 0x80) = take_bit 7 (ucast v)"
    by (rule bit_word_eqI) (auto simp: b_def low_seven bit_simps bit_0x80)
qed

lemma no_bits_from:
  "drop_bit k (v :: 'w::len word) = 0 \<Longrightarrow> k \<le> n \<Longrightarrow> \<not> bit v n"
  by (metis bit_drop_bit_eq comp_apply le_add_diff_inverse bit_0_eq bot_apply bot_bool_def)

lemma or_next_unsigned:
  fixes x :: u64 and b :: byte
  assumes "take_bit 7 b = take_bit 7 (ucast (drop_bit by x))" and "drop_bit 32 x = 0"
  shows "take_bit by x OR ucast (push_bit by (ucast (b AND 0x7f) :: u32)) = take_bit (by + 7) x"
proof (rule bit_word_eqI)
  fix n
  have k: "bit (take_bit 7 b) k \<longleftrightarrow> k < 7 \<and> bit x (by + k)" for k
    unfolding assms(1) by (auto simp: bit_simps add.commute)
  have p: "bit (ucast (push_bit by (ucast (take_bit 7 b) :: u32)) :: u64) n \<longleftrightarrow>
      n < 32 \<and> by \<le> n \<and> bit (take_bit 7 b) (n - by)"
    by (simp only: bit_simps) (auto simp: bit_simps)
  have "bit x n \<Longrightarrow> n < 32" using no_bits_from [OF assms(2), of n] by linarith
  then show "bit (take_bit by x OR ucast (push_bit by (ucast (b AND 0x7f) :: u32))) n \<longleftrightarrow>
      bit (take_bit (by + 7) x) n"
    unfolding bit_or_iff low_seven p k unfolding bit_take_bit_iff by (cases "by \<le> n") auto
qed

lemma ucast_u32_u64: "ucast (ucast (w :: u32) :: u64) = w"
  by (rule bit_word_eqI) (simp add: bit_simps)

lemma get_unsigned_put:
  fixes x :: u64
  assumes "drop_bit 32 x = 0" and "by < 32"
  shows "get_unsigned (take_bit by x) by (concat (put_varint (drop_bit by x)) @ rest) = (Inr x, rest)"
  using assms(2)
proof (induction "40 - by" arbitrary: "by" rule: less_induct)
  case (less "by")
  let ?v = "drop_bit by x"
  let ?b = "ucast ?v AND 0x7f :: byte"
  note byte = varint_byte [of ?v] or_next_unsigned [OF _ assms(1), of _ "by"]
  have d: "drop_bit 7 ?v = drop_bit (by + 7) x" by (simp add: add.commute)
  show ?case
  proof (cases "drop_bit 7 ?v = 0")
    case True
    then have "take_bit (by + 7) x = x"
      using no_bits_from [of "by + 7" x] unfolding d
      by (intro bit_word_eqI) (metis bit_take_bit_iff not_less)
    with True byte less.prems show ?thesis
      by (subst put_varint.simps) (simp add: Let_def)
  next
    case False
    have lt: "by + 7 < 32"
    proof (rule ccontr)
      assume "\<not> by + 7 < 32"
      then have "drop_bit (by + 7) x = 0"
        using no_bits_from [OF assms(1)] by (intro bit_word_eqI) (simp add: bit_simps)
      with False show False unfolding d by simp
    qed
    then have "get_unsigned (take_bit (by + 7) x) (by + 7)
        (concat (put_varint (drop_bit (by + 7) x)) @ rest) = (Inr x, rest)"
      by (intro less.hyps) auto
    with False byte less.prems show ?thesis
      by (subst put_varint.simps) (simp add: Let_def d del: drop_bit_drop_bit)
  qed
qed

lemma rt_unsigned_int [rt_intros]: "round_trip (\<lambda>_. True) c_unsigned_int"
proof (rule round_tripI)
  fix y :: u32 and rest
  have z: "drop_bit 32 (ucast y :: u64) = 0"
    by (rule bit_word_eqI) (auto simp: bit_simps dest: bit_imp_le_length)
  have "get_unsigned 0 0 (concat (put_varint (ucast y :: u64)) @ rest) = (Inr (ucast y), rest)"
    using get_unsigned_put [OF z, of 0 rest] by simp
  then show "c_get c_unsigned_int (concat (c_put c_unsigned_int y) @ rest) = (Inr y, rest)"
    by (simp add: c_unsigned_int_def bnd_def ret_def ucast_u32_u64)
qed

subsection \<open>Signed integers\<close>

text \<open>The loops for signed integers are those for unsigned ones at 32 bits.\<close>

lemma put_varint_ucast: "put_varint (ucast (v :: u32) :: u64) = put_varint v"
proof (induction v rule: put_varint.induct)
  case (1 v)
  have d: "drop_bit 7 (ucast v :: u64) = ucast (drop_bit 7 v)"
    by (rule bit_word_eqI) (auto simp: bit_simps dest: bit_imp_le_length)
  have z: "ucast (drop_bit 7 v) = (0 :: u64) \<longleftrightarrow> drop_bit 7 v = 0"
    by (metis ucast_0 ucast_u32_u64)
  have u: "ucast (ucast v :: u64) = (ucast v :: byte)"
    by (rule bit_word_eqI) (auto simp: bit_simps)
  show ?case
    by (subst (1 2) put_varint.simps) (use 1 in \<open>simp add: Let_def d z u\<close>)
qed

lemma get_unsigned_signed:
  "get_unsigned (ucast v) by s =
     (case get_signed v by s of (Inl e, t) \<Rightarrow> (Inl e, t) | (Inr w, t) \<Rightarrow> (Inr (ucast w), t))"
proof (induction v "by" s rule: get_signed.induct)
  case (1 v "by")
  then show ?case by simp
next
  case (2 v "by" b bs)
  have "ucast v OR ucast p = (ucast (v OR p) :: u64)" for p :: u32
    by (rule bit_word_eqI) (auto simp: bit_simps)
  with 2 show ?case by (simp add: Let_def)
qed

lemma get_signed_put:
  "get_signed 0 0 (concat (put_varint (z :: u32)) @ rest) = (Inr z, rest)"
proof -
  have "drop_bit 32 (ucast z :: u64) = 0"
    by (rule bit_word_eqI) (auto simp: bit_simps dest: bit_imp_le_length)
  from get_unsigned_put [OF this, of 0 rest]
  have "get_unsigned (ucast (0 :: u32)) 0 (concat (put_varint z) @ rest) = (Inr (ucast z), rest)"
    by (simp add: put_varint_ucast)
  then have e: "(case get_signed 0 0 (concat (put_varint z) @ rest) of
      (Inl e, t) \<Rightarrow> (Inl e, t) | (Inr w, t) \<Rightarrow> (Inr (ucast w :: u64), t)) = (Inr (ucast z), rest)"
    by (simp only: get_unsigned_signed)
  obtain r t where r: "get_signed 0 0 (concat (put_varint z) @ rest) = (r, t)" by fastforce
  have inj: "ucast w = (ucast z :: u64) \<Longrightarrow> w = z" for w :: u32
    by (metis ucast_u32_u64)
  show ?thesis
    using e inj unfolding r by (cases r) auto
qed

lemma bit_zigzag:
  "bit (zigzag v) n \<longleftrightarrow> n < 32 \<and> ((n \<noteq> 0 \<and> bit v (n - 1)) \<noteq> bit v 31)"
  unfolding zigzag_def bit_xor_iff bit_push_bit_iff bit_signed_drop_bit_iff
  by (cases n) (auto dest: bit_imp_le_length)

lemma signed_zigzag:
  "signed_value (zigzag v) = v XOR (if bit v 30 = bit v 31 then 0 else 1)"
proof -
  let ?z = "zigzag v" and ?s = "bit v 31"
  have one: "?z AND 1 = of_bool ?s"
    by (rule bit_word_eqI) (auto simp: bit_zigzag bit_and_iff bit_1_iff bit_of_bool_iff)
  have top: "drop_bit 31 ?z = of_bool (bit v 30 \<noteq> ?s)"
    by (rule bit_word_eqI) (auto simp: bit_zigzag bit_drop_bit_eq bit_of_bool_iff)
  have half: "drop_bit 1 ?z = (if ?s then NOT v else v)"
  proof (rule bit_word_eqI)
    fix n
    assume "n < LENGTH(32)"
    then have "n < 31 \<or> n = 31" by auto
    then show "bit (drop_bit 1 ?z) n \<longleftrightarrow> bit (if ?s then NOT v else v) n"
      by (auto simp: bit_zigzag bit_drop_bit_eq bit_not_iff)
  qed
  show ?thesis
  proof (cases ?s)
    case True
    have "- (x + 1) = NOT x" for x :: u32 by (simp add: not_eq_complement)
    moreover have "NOT (NOT v XOR t) = v XOR t" for t :: u32
      by (rule bit_word_eqI) (auto simp: bit_simps)
    ultimately show ?thesis
      using True unfolding signed_value_def one top half by (simp add: Let_def)
  next
    case False
    then show ?thesis unfolding signed_value_def one top half by (simp add: Let_def)
  qed
qed

lemma signed_int_reads:
  "c_get c_signed_int (packed c_signed_int v @ rest) =
     (Inr (v XOR (if bit v 30 = bit v 31 then 0 else 1)), rest)"
  by (simp add: c_signed_int_def packed_def bnd_def ret_def get_signed_put signed_zigzag)

end
