(* ===== verification/Base58.thy ===== *)
theory Base58
  imports Raw_Facts
begin

section \<open>fc: base 58\<close>

text \<open>
  \<open>libraries/fc/src/crypto/base58.cpp\<close>. \<open>CBigNum\<close> wraps an OpenSSL \<open>BIGNUM\<close>, here a
  natural number. Text is a list of characters; a C string ends at the first NUL.
\<close>

definition isspace :: "char \<Rightarrow> bool" where
  "isspace c \<longleftrightarrow> c \<in> set [CHR 0x20, CHR 0x09, CHR 0x0A, CHR 0x0B, CHR 0x0C, CHR 0x0D]"

definition c_str :: "string \<Rightarrow> string" where
  "c_str s = takeWhile (\<lambda>c. c \<noteq> CHR 0x00) s"

definition pszBase58 :: string where
  "pszBase58 = ''123456789ABCDEFGHJKLMNPQRSTUVWXYZabcdefghijkmnopqrstuvwxyz''"

fun strchr :: "string \<Rightarrow> char \<Rightarrow> nat option" where
  "strchr [] c = None"
| "strchr (a # s) c = (if a = c then Some 0 else map_option Suc (strchr s c))"

subsection \<open>Big numbers and bytes\<close>

text \<open>\<open>setvch\<close> of little-endian bytes whose last is zero (it would be the sign).\<close>

definition setvch :: "bytes \<Rightarrow> nat" where
  "setvch bs = of_le bs"

fun min_bytes :: "nat \<Rightarrow> bytes" where
  "min_bytes n = (if n = 0 then [] else word_of_nat n # min_bytes (n div 256))"

declare min_bytes.simps [simp del]

text \<open>\<open>getvch\<close>: as few bytes as possible, and one more when the last has its top bit set.\<close>

definition getvch :: "nat \<Rightarrow> bytes" where
  "getvch n = (let bs = min_bytes n
               in if bs \<noteq> [] \<and> 0x80 \<le> last bs then bs @ [0] else bs)"

fun digits58 :: "nat \<Rightarrow> nat list" where
  "digits58 n = (if n = 0 then [] else n mod 58 # digits58 (n div 58))"

declare digits58.simps [simp del]

subsection \<open>Encoding and decoding\<close>

definition to_base58 :: "bytes \<Rightarrow> string" where
  "to_base58 bs =
     (let bn = setvch (rev bs @ [0])
      in rev (map (\<lambda>d. pszBase58 ! d) (digits58 bn) @
              map (\<lambda>_. pszBase58 ! 0) (takeWhile (\<lambda>b. b = 0) bs)))"

fun decode_digits :: "nat \<Rightarrow> string \<Rightarrow> nat option" where
  "decode_digits bn [] = Some bn"
| "decode_digits bn (c # s) =
     (case strchr pszBase58 c of
        Some d \<Rightarrow> decode_digits (bn * 58 + d) s
      | None \<Rightarrow> if dropWhile isspace (c # s) = [] then Some bn else None)"

definition trim_sign :: "bytes \<Rightarrow> bytes" where
  "trim_sign v =
     (if 2 \<le> length v \<and> last v = 0 \<and> 0x80 \<le> v ! (length v - 2) then butlast v else v)"

definition from_base58 :: "string \<Rightarrow> bytes result" where
  "from_base58 s =
     (let psz = dropWhile isspace (c_str s)
      in case decode_digits 0 psz of
           None \<Rightarrow> Inl Parse_Error
         | Some bn \<Rightarrow>
             Inr (map (\<lambda>_. 0) (takeWhile (\<lambda>c. c = pszBase58 ! 0) psz) @ rev (trim_sign (getvch bn))))"

subsection \<open>Decoding what was encoded\<close>

lemma alphabet: "length pszBase58 = 58" "distinct pszBase58"
  "\<forall>c \<in> set pszBase58. \<not> isspace c \<and> c \<noteq> CHR 0x00"
  by code_simp+

lemma strchr_nth: "distinct s \<Longrightarrow> d < length s \<Longrightarrow> strchr s (s ! d) = Some d"
  by (induction s arbitrary: d) (auto simp: nth_Cons nth_mem split: nat.splits)

lemma digit_bound: "d \<in> set (digits58 n) \<Longrightarrow> d < 58"
proof (induction n rule: digits58.induct)
  case (1 n)
  then show ?case by (subst (asm) (2) digits58.simps) (auto split: if_splits)
qed

lemma decode_digits_append:
  assumes "\<forall>d \<in> set ds. d < 58"
  shows "decode_digits bn (map (\<lambda>d. pszBase58 ! d) ds @ s) =
         decode_digits (foldl (\<lambda>a d. a * 58 + d) bn ds) s"
  using assms by (induction ds arbitrary: bn) (simp_all add: strchr_nth alphabet)

lemma digits58_value: "foldl (\<lambda>a d. a * 58 + d) 0 (rev (digits58 n)) = n"
proof (induction n rule: digits58.induct)
  case (1 n)
  then show ?case by (subst digits58.simps) simp
qed

lemma foldl_zeros: "foldl (\<lambda>a d. a * 58 + d) (0 :: nat) (map (\<lambda>_. 0) xs @ ds) =
    foldl (\<lambda>a d. a * 58 + d) 0 ds"
  by (induction xs) simp_all

lemma digits58_last: "n \<noteq> 0 \<Longrightarrow> digits58 n \<noteq> [] \<and> last (digits58 n) \<noteq> 0"
proof (induction n rule: digits58.induct)
  case (1 n)
  then show ?case
    by (subst (1 2) digits58.simps) (cases "n div 58 = 0", auto simp: digits58.simps)
qed

lemma digits58_0: "digits58 0 = []"
  by (subst digits58.simps) simp

lemma min_bytes_0: "min_bytes 0 = []"
  by (subst min_bytes.simps) simp

lemma min_bytes_of_le: "bs = [] \<or> last bs \<noteq> 0 \<Longrightarrow> min_bytes (of_le bs) = bs"
proof (induction bs)
  case Nil
  then show ?case by (simp add: min_bytes_0)
next
  case (Cons b bs)
  have nz: "of_le (b # bs) \<noteq> 0"
  proof
    assume z: "of_le (b # bs) = 0"
    then have "b = 0" "of_le bs = 0" by (simp_all add: unsigned_eq_0_iff)
    moreover have "of_le xs = 0 \<Longrightarrow> xs \<noteq> [] \<Longrightarrow> last xs = 0" for xs
      by (induction xs) (auto simp: unsigned_eq_0_iff)
    ultimately show False using Cons.prems by (cases "bs = []") auto
  qed
  have w: "word_of_nat (of_le (b # bs)) = b" "of_le (b # bs) div 256 = of_le bs"
    using le_bytes_of_le [of "b # bs" "Suc (length bs)"] byte_bound [of b] by simp_all
  show ?case
    using Cons nz w by (subst min_bytes.simps) (cases "bs = []", simp_all add: min_bytes_0)
qed

lemma trim_getvch: "trim_sign (getvch n) = min_bytes n"
proof (cases "min_bytes n" rule: rev_cases)
  case Nil
  then show ?thesis by (simp add: getvch_def trim_sign_def)
next
  case (snoc bs b)
  have nz: "n \<noteq> 0 \<Longrightarrow> last (min_bytes n) \<noteq> 0 \<and> min_bytes n \<noteq> []" for n
  proof (induction n rule: min_bytes.induct)
    case (1 n)
    show ?case
    proof (cases "n div 256 = 0")
      case True
      then have "n < 256" by simp
      then have "unat (word_of_nat n :: byte) = n" by (simp add: unat_of_nat)
      then have "(word_of_nat n :: byte) \<noteq> 0" using 1(2) by (metis unat_0)
      with True show ?thesis by (subst (1 2) min_bytes.simps) (use 1(2) in \<open>simp add: min_bytes_0\<close>)
    next
      case False
      with 1 show ?thesis by (subst (1 2) min_bytes.simps) simp
    qed
  qed
  have "n \<noteq> 0"
  proof
    assume "n = 0"
    with snoc show False by (simp add: min_bytes_0)
  qed
  with nz [of n] snoc have "b \<noteq> 0" by simp
  then show ?thesis by (auto simp: getvch_def trim_sign_def snoc nth_append butlast_append Let_def)
qed

lemma of_le_append_zeros: "of_le (bs @ map (\<lambda>_. 0) xs) = of_le bs"
  by (induction bs) (simp_all, induction xs, simp_all)

lemma base58_round_trip: "from_base58 (to_base58 bs) = Inr bs"
proof -
  let ?z = "takeWhile (\<lambda>b. b = 0) bs" and ?r = "dropWhile (\<lambda>b. b = 0) bs"
  define n where "n = of_le (rev ?r)"
  have z0: "?z = map (\<lambda>_. 0) ?z" by (metis (mono_tags, lifting) map_idI set_takeWhileD)
  have bs: "bs = map (\<lambda>_. 0) ?z @ ?r" using z0 takeWhile_dropWhile_id [of "\<lambda>b. b = 0" bs] by simp
  have "rev bs @ [0] = rev ?r @ map (\<lambda>_. 0) (0 # ?z)"
    by (subst bs) (simp add: rev_map [symmetric] map_replicate_const replicate_append_same)
  then have v: "setvch (rev bs @ [0]) = n" by (simp only: setvch_def of_le_append_zeros n_def)
  have r: "rev ?r = [] \<or> last (rev ?r) \<noteq> 0"
    using hd_dropWhile [of "\<lambda>b. b = 0" bs] by (auto simp: last_rev)
  then have mb: "min_bytes n = rev ?r" unfolding n_def by (rule min_bytes_of_le)
  let ?ds = "map (\<lambda>_. 0) ?z @ rev (digits58 n)"
  have enc: "to_base58 bs = map (\<lambda>d. pszBase58 ! d) ?ds"
    by (simp add: to_base58_def v rev_map comp_def map_replicate_const Let_def)
  have ds: "\<forall>d \<in> set ?ds. d < 58" using digit_bound by auto
  have chars: "\<not> isspace c \<and> c \<noteq> CHR 0x00" if c: "c \<in> set (to_base58 bs)" for c
  proof -
    obtain d where "d \<in> set ?ds" "c = pszBase58 ! d" using c unfolding enc by auto
    moreover from this have "c \<in> set pszBase58" using ds alphabet(1) by (metis nth_mem)
    ultimately show ?thesis using alphabet(3) by blast
  qed
  then have "c_str (to_base58 bs) = to_base58 bs"
    unfolding c_str_def takeWhile_eq_all_conv by blast
  moreover have "dropWhile isspace (to_base58 bs) = to_base58 bs"
    unfolding dropWhile_eq_self_iff using chars by (metis hd_in_set)
  ultimately have psz: "dropWhile isspace (c_str (to_base58 bs)) = to_base58 bs" by simp
  have dec: "decode_digits 0 (to_base58 bs) = Some n"
    using decode_digits_append [OF ds, of 0 "[]"] unfolding enc foldl_zeros digits58_value by simp
  have "takeWhile (\<lambda>c. c = pszBase58 ! 0) (to_base58 bs) = map (\<lambda>_. pszBase58 ! 0) ?z"
  proof (cases "n = 0")
    case True
    then show ?thesis unfolding enc by (simp add: digits58_0 comp_def takeWhile_eq_all_conv [THEN iffD2])
  next
    case False
    obtain e es where es: "rev (digits58 n) = e # es" "e \<noteq> 0" "e < 58"
      using digits58_last [OF False] digit_bound by (metis hd_rev last_in_set list.collapse rev_is_Nil_conv)
    then have "pszBase58 ! e \<noteq> pszBase58 ! 0"
      using alphabet by (simp add: nth_eq_iff_index_eq)
    then show ?thesis unfolding enc es(1) by (simp add: takeWhile_append)
  qed
  then have "from_base58 (to_base58 bs) = Inr (map (\<lambda>_. 0) ?z @ ?r)"
    by (simp add: from_base58_def psz Let_def dec trim_getvch mb comp_def)
  then show ?thesis using bs by simp
qed

end
