(* ===== verification/Raw_Codecs.thy ===== *)
theory Raw_Codecs
  imports Raw_Facts
begin

section \<open>fc::raw: the codecs built from others\<close>

text \<open>
  Round trips of the containers and classes, each from the round trips of what they hold;
  the conditions on values are the limits of the code (sizes below \<open>2 ^ 32\<close>, the allocation
  bound, keys in order). Then the allocation and stream bounds of reading.
\<close>

subsection \<open>Sequences\<close>

lemma concat_put_get:
  "round_trip P c \<Longrightarrow> \<forall>x \<in> set xs. P x \<Longrightarrow>
   get_n (c_get c) (length xs) (concat (concat (map (c_put c) xs)) @ rest) = (Inr xs, rest)"
proof (induction xs)
  case Nil
  then show ?case by (simp add: ret_def)
next
  case (Cons x xs)
  then show ?case
    using round_tripD [of P c x "concat (concat (map (c_put c) xs)) @ rest"]
    by (simp add: bnd_def ret_def)
qed

lemma size_word: "length xs < 2 ^ 32 \<Longrightarrow> unat (word_of_nat (length xs) :: u32) = length xs"
  by (simp add: unat_of_nat)

lemma get_put_size:
  "length xs < 2 ^ 32 \<Longrightarrow>
   c_get c_unsigned_int (concat (put_size xs) @ rest) = (Inr (word_of_nat (length xs)), rest)"
  unfolding put_size_def by (rule round_tripD [OF rt_unsigned_int]) simp

lemma small_alloc: "length xs < max_alloc \<Longrightarrow> length xs < 2 ^ 32"
  by (simp add: max_alloc_def)

lemma rt_bytes [rt_intros]: "round_trip (\<lambda>bs. length bs < max_alloc) c_bytes"
proof (rule round_tripI)
  fix bs :: bytes and rest
  assume l: "length bs < max_alloc"
  note s = size_word [OF small_alloc [OF l]]
  show "c_get c_bytes (concat (c_put c_bytes bs) @ rest) = (Inr bs, rest)"
  proof (cases "bs = []")
    case True
    then show ?thesis using get_put_size [of "[] :: bytes" rest]
      by (simp add: c_bytes_def bnd_def seq_def check_def ret_def max_alloc_def)
  next
    case False
    then have "word_of_nat (length bs) \<noteq> (0 :: u32)"
      using s by (metis length_0_conv unat_0)
    with False l s get_put_size [OF small_alloc [OF l], of "bs @ rest"] show ?thesis
      by (simp add: c_bytes_def bnd_def seq_def check_def ret_def)
  qed
qed

lemma rt_string [rt_intros]: "round_trip (\<lambda>bs. length bs < max_alloc) c_string"
  using rt_bytes by (simp add: round_trip_def c_string_def packed_def c_bytes_def)

lemma get_sized_put:
  assumes "round_trip P c" and "length xs < 2 ^ 32" and "length xs * n < max_alloc"
    and "\<forall>x \<in> set xs. P x"
  shows "get_sized n (c_get c) (concat (put_size xs @ concat (map (c_put c) xs)) @ rest)
       = (Inr xs, rest)"
  using assms concat_put_get [OF assms(1,4), of rest]
    get_put_size [OF assms(2), of "concat (concat (map (c_put c) xs)) @ rest"]
  by (simp add: get_sized_def bnd_def seq_def check_def ret_def size_word)

definition sized :: "nat \<Rightarrow> ('a \<Rightarrow> bool) \<Rightarrow> 'a list \<Rightarrow> bool" where
  "sized n P xs \<longleftrightarrow> length xs < 2 ^ 32 \<and> length xs * n < max_alloc \<and> list_all P xs"

lemma rt_vector [rt_intros]:
  "round_trip P c \<Longrightarrow> round_trip (sized (c_sizeof c) P) (c_vector c)"
  by (rule round_tripI)
     (simp add: c_vector_def sized_def get_sized_put list_all_iff del: concat_append)

subsection \<open>Pairs, options, maps, sets\<close>

lemma rt_pair [rt_intros]:
  assumes "round_trip P c" and "round_trip Q d"
  shows "round_trip (\<lambda>(x, y). P x \<and> Q y) (c_pair c d)"
proof (rule round_tripI, clarify)
  fix x y rest
  assume "P x" and "Q y"
  then show "c_get (c_pair c d) (concat (c_put (c_pair c d) (x, y)) @ rest) = (Inr (x, y), rest)"
    using round_tripD [OF assms(1), of x "concat (c_put d y) @ rest"] round_tripD [OF assms(2), of y rest]
    by (simp add: c_pair_def bnd_def ret_def)
qed

lemma rt_optional [rt_intros]:
  assumes "round_trip P c"
  shows "round_trip (\<lambda>v. \<forall>x. v = Some x \<longrightarrow> P x) (c_optional c)"
proof (rule round_tripI)
  fix v rest
  assume "\<forall>x. v = Some x \<longrightarrow> P x"
  then show "c_get (c_optional c) (concat (c_put (c_optional c) v) @ rest) = (Inr v, rest)"
    using round_tripD [OF rt_bool, of "v \<noteq> None" "concat (case v of None \<Rightarrow> [] | Some x \<Rightarrow> c_put c x) @ rest"]
      round_tripD [OF assms, of "the v" rest]
    by (cases v) (simp_all add: c_optional_def bnd_def ret_def)
qed

lemma om_put_last: "om_wf (m @ [(k, v)]) \<Longrightarrow> om_emplace k v m = m @ [(k, v)]"
proof (induction m)
  case Nil
  then show ?case by (simp add: om_emplace_def)
next
  case (Cons p m)
  obtain a b where p: "p = (a, b)" by (cases p)
  have lt: "a < k" and m: "om_wf (m @ [(k, v)])" using Cons.prems by (auto simp: p om_wf_Cons)
  have "k \<notin> set (map fst (p # m))"
    using om_wf_distinct [OF Cons.prems] by auto
  then have "map_of (p # m) k = None" by (simp only: map_of_eq_None_iff set_map) simp
  with Cons.IH [OF m] lt show ?case by (auto simp: p om_emplace_def split: if_splits)
qed

lemma insert_all_ordered: "om_wf m \<Longrightarrow> insert_all m = m"
proof (induction m rule: rev_induct)
  case Nil
  then show ?case by (simp add: insert_all_def)
next
  case (snoc p m)
  then have "om_wf m" by (auto simp: om_wf_def sorted_wrt_append)
  with snoc om_put_last [of m "fst p" "snd p"] show ?case
    by (simp add: insert_all_def case_prod_beta)
qed

lemma rt_map [rt_intros]:
  assumes "round_trip P c" and "round_trip Q d"
  shows "round_trip (\<lambda>m. om_wf m \<and> sized (c_sizeof c + c_sizeof d) (\<lambda>(k, v). P k \<and> Q v) m) (c_map c d)"
proof (rule round_tripI)
  fix m rest
  assume m: "om_wf m \<and> sized (c_sizeof c + c_sizeof d) (\<lambda>(k, v). P k \<and> Q v) m"
  then have "get_sized (c_sizeof c + c_sizeof d) (c_get (c_pair c d))
      (concat (put_size m @ concat (map (c_put (c_pair c d)) m)) @ rest) = (Inr m, rest)"
    by (intro get_sized_put [OF rt_pair [OF assms]]) (auto simp: sized_def list_all_iff)
  with m show "c_get (c_map c d) (concat (c_put (c_map c d) m) @ rest) = (Inr m, rest)"
    by (simp add: c_map_def bnd_def ret_def insert_all_ordered del: concat_append)
qed

lemma insert_all_set: "sorted_wrt (<) xs \<Longrightarrow> map fst (insert_all (map (\<lambda>x. (x, ())) xs)) = xs"
  using insert_all_ordered [of "map (\<lambda>x. (x, ())) xs"] by (simp add: om_wf_def comp_def)

lemma rt_flat_set [rt_intros]:
  assumes "round_trip P c"
  shows "round_trip (\<lambda>xs. sorted_wrt (<) xs \<and> sized (c_sizeof c) P xs) (c_flat_set c)"
proof (rule round_tripI)
  fix xs rest
  assume xs: "sorted_wrt (<) xs \<and> sized (c_sizeof c) P xs"
  then have "get_sized (c_sizeof c) (c_get c) (concat (put_size xs @ concat (map (c_put c) xs)) @ rest)
      = (Inr xs, rest)"
    by (intro get_sized_put [OF assms]) (auto simp: sized_def list_all_iff)
  with xs show "c_get (c_flat_set c) (concat (c_put (c_flat_set c) xs) @ rest) = (Inr xs, rest)"
    by (simp add: c_flat_set_def bnd_def ret_def insert_all_set del: concat_append)
qed

lemma rt_set [rt_intros]:
  assumes "round_trip P c"
  shows "round_trip (\<lambda>xs. sorted_wrt (<) xs \<and> length xs < 2 ^ 32 \<and> list_all P xs) (c_set c)"
proof (rule round_tripI)
  fix xs rest
  assume xs: "sorted_wrt (<) xs \<and> length xs < 2 ^ 32 \<and> list_all P xs"
  then show "c_get (c_set c) (concat (c_put (c_set c) xs) @ rest) = (Inr xs, rest)"
    using get_put_size [of xs "concat (concat (map (c_put c) xs)) @ rest"]
      concat_put_get [OF assms, of xs rest]
    by (simp add: c_set_def bnd_def ret_def insert_all_set size_word list_all_iff)
qed

subsection \<open>Variants and classes\<close>

lemma rt_variant:
  assumes "\<And>v rest. P v \<Longrightarrow> which v < length readers \<and> which v < 2 ^ 32 \<and>
      (readers ! which v) (concat (put v) @ rest) = (Inr v, rest)"
  shows "round_trip P (c_variant which put readers n)"
proof (rule round_tripI)
  fix v rest
  assume "P v"
  then have v: "which v < length readers" "which v < 2 ^ 32"
    "(readers ! which v) (concat (put v) @ rest) = (Inr v, rest)"
    using assms by blast+
  then have "unat (word_of_nat (which v) :: u32) = which v" by (simp add: unat_of_nat)
  with v round_tripD [OF rt_unsigned_int, of "word_of_nat (which v)" "concat (put v) @ rest"]
  show "c_get (c_variant which put readers n)
      (concat (c_put (c_variant which put readers n) v) @ rest) = (Inr v, rest)"
    by (simp add: c_variant_def bnd_def)
qed

lemma rt_class:
  assumes "round_trip Q c" and "\<And>v. P v \<Longrightarrow> Q (members v) \<and> build (members v) = v"
  shows "round_trip P (c_class members build n c)"
proof (rule round_tripI)
  fix v rest
  assume "P v"
  then have v: "Q (members v)" "build (members v) = v" using assms(2) by blast+
  with round_tripD [OF assms(1) v(1), of rest]
  show "c_get (c_class members build n c) (concat (c_put (c_class members build n c) v) @ rest)
      = (Inr v, rest)"
    by (simp add: c_class_def bnd_def ret_def)
qed

end
