(* ===== verification/Base.thy ===== *)
theory Base
  imports Base58 Raw_Codecs "HOL-Library.Signed_Division"
begin

section \<open>Base types: checked integers, assets, versions, keys\<close>

text \<open>
  \<open>fc/safe.hpp\<close>, \<open>fc/bitutil.hpp\<close> and \<open>libraries/chain/{src,include/news}/base\<close>:
  \<open>asset\<close>, \<open>asset_symbol\<close>, \<open>version\<close>, \<open>public_key_type\<close> and the text form of private
  keys. A 64-bit integer is a word read with \<^const>\<open>sint\<close>; arithmetic on it wraps as the
  machine does. Hash functions and signatures (OpenSSL, secp256k1) are a record of functions,
  and so are Boost's \<open>trim\<close> and \<open>lexical_cast\<close>. Digests and keys are byte lists.
\<close>

subsection \<open>Constants of the chain\<close>

definition news_genesis_time :: u32 where "news_genesis_time = 1533633600"
definition news_block_interval :: nat where "news_block_interval = 3"
definition news_max_block_size :: nat where "news_max_block_size = 1024 * 1024"
definition news_max_producer_vote :: nat where "news_max_producer_vote = 21"
definition irreversible_block_num :: nat where "irreversible_block_num = 21"
definition news_system_account_name :: u64 where "news_system_account_name = 1"
definition news_system_accept_name :: u64 where "news_system_accept_name = 10"
definition news_max_time_expiration :: nat where "news_max_time_expiration = 60 * 30"
definition news_address_prefix :: string where "news_address_prefix = ''NT''"

definition news_symbol :: u64 where
  "news_symbol = 8 OR push_bit 8 (of_nat (of_char CHR ''N'')) OR push_bit 16 (of_nat (of_char CHR ''E''))
     OR push_bit 24 (of_nat (of_char CHR ''W'')) OR push_bit 32 (of_nat (of_char CHR ''T''))"

subsection \<open>Byte order\<close>

definition endian_reverse_u32 :: "u32 \<Rightarrow> u32" where
  "endian_reverse_u32 x =
     (drop_bit 0x18 x AND 0xFF) OR push_bit 0x08 (drop_bit 0x10 x AND 0xFF)
     OR push_bit 0x10 (drop_bit 0x08 x AND 0xFF) OR push_bit 0x18 (x AND 0xFF)"

definition endian_reverse_u64 :: "u64 \<Rightarrow> u64" where
  "endian_reverse_u64 x =
     (drop_bit 0x38 x AND 0xFF) OR push_bit 0x08 (drop_bit 0x30 x AND 0xFF)
     OR push_bit 0x10 (drop_bit 0x28 x AND 0xFF) OR push_bit 0x18 (drop_bit 0x20 x AND 0xFF)
     OR push_bit 0x20 (drop_bit 0x18 x AND 0xFF) OR push_bit 0x28 (drop_bit 0x10 x AND 0xFF)
     OR push_bit 0x30 (drop_bit 0x08 x AND 0xFF) OR push_bit 0x38 (x AND 0xFF)"

subsection \<open>fc::safe\<close>

definition max64 :: i64 where "max64 = 0x7FFFFFFFFFFFFFFF"
definition min64 :: i64 where "min64 = 0x8000000000000000"

text \<open>C++ division and remainder of \<open>int64_t\<close>: towards zero.\<close>

definition quot64 :: "i64 \<Rightarrow> i64 \<Rightarrow> i64" where
  "quot64 a b = word_of_int (sint a sdiv sint b)"

definition rem64 :: "i64 \<Rightarrow> i64 \<Rightarrow> i64" where
  "rem64 a b = word_of_int (sint a smod sint b)"

definition safe_add :: "i64 \<Rightarrow> i64 \<Rightarrow> i64 result" where
  "safe_add a b =
     (if 0 < sint b \<and> sint (max64 - b) < sint a then Inl Overflow
      else if sint b < 0 \<and> sint a < sint (min64 - b) then Inl Underflow
      else Inr (a + b))"

definition safe_sub :: "i64 \<Rightarrow> i64 \<Rightarrow> i64 result" where
  "safe_sub a b =
     (if 0 < sint b \<and> sint a < sint (min64 + b) then Inl Underflow
      else if sint b < 0 \<and> sint (max64 + b) < sint a then Inl Overflow
      else Inr (a - b))"

definition safe_mul :: "i64 \<Rightarrow> i64 \<Rightarrow> i64 result" where
  "safe_mul a b =
     (if 0 < sint a then
        if 0 < sint b then
          if sint (quot64 max64 b) < sint a then Inl Overflow else Inr (a * b)
        else
          if sint b < sint (quot64 min64 a) then Inl Underflow else Inr (a * b)
      else
        if 0 < sint b then
          if sint a < sint (quot64 min64 b) then Inl Underflow else Inr (a * b)
        else
          if a \<noteq> 0 \<and> sint b < sint (quot64 max64 a) then Inl Overflow else Inr (a * b))"

definition safe_div :: "i64 \<Rightarrow> i64 \<Rightarrow> i64 result" where
  "safe_div a b =
     (if b = 0 then Inl Divide_By_Zero
      else if a = min64 \<and> b = - 1 then Inl Overflow
      else Inr (quot64 a b))"

definition safe_rem :: "i64 \<Rightarrow> i64 \<Rightarrow> i64 result" where
  "safe_rem a b =
     (if b = 0 then Inl Divide_By_Zero
      else if a = min64 \<and> b = - 1 then Inl Overflow
      else Inr (rem64 a b))"

definition safe_neg :: "i64 \<Rightarrow> i64 result" where
  "safe_neg a = (if a = min64 then Inl Overflow else Inr (- a))"

definition safe_inc :: "i64 \<Rightarrow> i64 result" where
  "safe_inc a = safe_add a 1"

definition safe_dec :: "i64 \<Rightarrow> i64 result" where
  "safe_dec a = safe_sub a 1"

subsection \<open>Asset symbols\<close>

fun symbol_chars :: "nat \<Rightarrow> string" where
  "symbol_chars n =
     (if n > 0 then (char_of (n mod 256) :: char) # symbol_chars (n div 256) else [])"

declare symbol_chars.simps [simp del]

definition symbol_name :: "u64 \<Rightarrow> string" where
  "symbol_name s = symbol_chars (unat (drop_bit 8 s))"

definition symbol_decimals :: "u64 \<Rightarrow> byte" where
  "symbol_decimals s = ucast s"

fun pow10 :: "nat \<Rightarrow> u64 \<Rightarrow> u64" where
  "pow10 0 acc = acc"
| "pow10 (Suc p) acc = pow10 p (acc * 10)"

definition symbol_precision :: "u64 \<Rightarrow> u64" where
  "symbol_precision s = pow10 (unat (symbol_decimals s)) 1"

definition symbol_from_string :: "string \<Rightarrow> u64 result" where
  "symbol_from_string name =
     (if name = ''NEWT'' \<or> name = '' NEWT'' then Inr news_symbol else Inl Fc_Assert)"

subsection \<open>Assets\<close>

record asset =
  amount :: i64
  symbol :: u64

definition same_symbol :: "asset \<Rightarrow> asset \<Rightarrow> 'a \<Rightarrow> 'a result" where
  "same_symbol a b x = (if symbol a = symbol b then Inr x else Inl Fc_Assert)"

definition asset_add :: "asset \<Rightarrow> asset \<Rightarrow> asset result" where
  "asset_add a b = same_symbol a b \<lparr>amount = amount a + amount b, symbol = symbol a\<rparr>"

definition asset_sub :: "asset \<Rightarrow> asset \<Rightarrow> asset result" where
  "asset_sub a b = same_symbol a b \<lparr>amount = amount a - amount b, symbol = symbol a\<rparr>"

definition asset_gt :: "asset \<Rightarrow> asset \<Rightarrow> bool result" where
  "asset_gt a b = same_symbol a b (sint (amount a) > sint (amount b))"

definition asset_ge :: "asset \<Rightarrow> asset \<Rightarrow> bool result" where
  "asset_ge a b = same_symbol a b (sint (amount a) \<ge> sint (amount b))"

definition asset_lt :: "asset \<Rightarrow> asset \<Rightarrow> bool result" where
  "asset_lt a b = same_symbol a b (sint (amount a) < sint (amount b))"

definition asset_le :: "asset \<Rightarrow> asset \<Rightarrow> bool result" where
  "asset_le a b = same_symbol a b (sint (amount a) \<le> sint (amount b))"

definition asset_neg :: "asset \<Rightarrow> asset" where
  "asset_neg a = a\<lparr>amount := - amount a\<rparr>"

text \<open>
  The text form. \<open>trim\<close> and \<open>to_int64\<close> come from Boost. \<open>fc::to_string\<close> of an
  unsigned integer is its decimal numeral; the amount is converted to unsigned by the
  division with the unsigned precision.
\<close>

record text_lib =
  trim :: "string \<Rightarrow> string"
  lex_int64 :: "string \<Rightarrow> i64 option"

fun decimal :: "nat \<Rightarrow> string" where
  "decimal n = (if n < 10 then [char_of (48 + n)] else decimal (n div 10) @ [char_of (48 + n mod 10)])"

declare decimal.simps [simp del]

definition asset_to_string :: "asset \<Rightarrow> string" where
  "asset_to_string a =
     (let p = symbol_precision (symbol a);
          s = decimal (unat (amount a div p));
          s = (if symbol_decimals (symbol a) \<noteq> 0
               then s @ ''.'' @ tl (decimal (unat (p + amount a mod p))) else s)
      in s @ '', '' @ symbol_name (symbol a))"

definition to_int64 :: "text_lib \<Rightarrow> string \<Rightarrow> i64 result" where
  "to_int64 lib s = (case lex_int64 lib s of None \<Rightarrow> Inl Parse_Error | Some v \<Rightarrow> Inr v)"

definition asset_from_string :: "text_lib \<Rightarrow> string \<Rightarrow> asset result" where
  "asset_from_string lib str =
     (let s = trim lib str;
          before = takeWhile (\<lambda>c. c \<noteq> CHR '','') s;
          from = dropWhile (\<lambda>c. c \<noteq> CHR '','') s
      in if from = [] then Inl Fc_Assert
         else
           let amount_str = trim lib before;
               symbol_str = tl (trim lib from);
               int_str = takeWhile (\<lambda>c. c \<noteq> CHR ''.'') amount_str;
               rest = dropWhile (\<lambda>c. c \<noteq> CHR ''.'') amount_str
           in if rest = [] then Inl Fc_Assert
              else rbind (symbol_from_string (dropWhile (\<lambda>c. c = CHR '' '') symbol_str)) (\<lambda>sym.
                   rbind (to_int64 lib int_str) (\<lambda>int_part.
                   rbind (to_int64 lib (tl rest)) (\<lambda>fract_part.
                   Inr \<lparr>amount = int_part * symbol_precision sym + fract_part, symbol = sym\<rparr>))))"

subsection \<open>Versions\<close>

text \<open>
  The constructor shifts its accumulator (an \<open>int\<close> when the first field is shifted, the
  32-bit field afterwards) and the comparisons compare the argument with the object.
\<close>

definition make_version :: "byte \<Rightarrow> byte \<Rightarrow> u16 \<Rightarrow> u32" where
  "make_version m h r =
     (let v = push_bit 8 (0 OR ucast m);
          v = push_bit 16 (v OR ucast h);
          v = push_bit 24 (v OR ucast r)
      in v)"

definition version_lt :: "u32 \<Rightarrow> u32 \<Rightarrow> bool" where "version_lt a b \<longleftrightarrow> b < a"
definition version_le :: "u32 \<Rightarrow> u32 \<Rightarrow> bool" where "version_le a b \<longleftrightarrow> b \<le> a"
definition version_gt :: "u32 \<Rightarrow> u32 \<Rightarrow> bool" where "version_gt a b \<longleftrightarrow> b > a"
definition version_ge :: "u32 \<Rightarrow> u32 \<Rightarrow> bool" where "version_ge a b \<longleftrightarrow> b \<ge> a"

definition version_string :: "u32 \<Rightarrow> string" where
  "version_string v =
     decimal (unat (drop_bit 24 v AND 0xFF)) @ ''.'' @ decimal (unat (drop_bit 16 v AND 0xFF)) @ ''.'' @
     decimal (unat (v AND 0xFFFF))"

definition news_version :: u32 where
  "news_version = make_version 0 0 1"

subsection \<open>Keys\<close>

record crypto =
  sha256 :: "bytes \<Rightarrow> bytes"
  sha224 :: "bytes \<Rightarrow> bytes"
  ripemd160 :: "bytes \<Rightarrow> bytes"
  recover :: "bytes \<Rightarrow> bytes \<Rightarrow> bytes result"
  sign_compact :: "bytes \<Rightarrow> bytes \<Rightarrow> bytes"
  public_of :: "bytes \<Rightarrow> bytes"

text \<open>A public key is its 33 bytes; \<open>binary_key\<close> adds the first word of their hash.\<close>

definition c_public_key :: "bytes codec" where
  "c_public_key = c_array 33"

definition c_binary_key :: "(bytes \<times> bytes) codec" where
  "c_binary_key = c_pair c_public_key (c_array 4)"

definition public_key_string :: "crypto \<Rightarrow> bytes \<Rightarrow> string result" where
  "public_key_string cr key =
     rbind (pack_to_vector c_binary_key (key, take 4 (ripemd160 cr key)))
       (\<lambda>data. Inr (news_address_prefix @ to_base58 data))"

definition public_key_of_string :: "crypto \<Rightarrow> string \<Rightarrow> bytes result" where
  "public_key_of_string cr s =
     (let n = length news_address_prefix
      in rbind (assert_r (n < length s) Fc_Assert) (\<lambda>_.
         rbind (assert_r (take n s = news_address_prefix) Fc_Assert) (\<lambda>_.
         rbind (from_base58 (drop n s)) (\<lambda>bin.
         rbind (unpack_from_vector c_binary_key (replicate 33 0, replicate 4 0) bin) (\<lambda>(data, chk).
         rbind (assert_r (take 4 (ripemd160 cr data) = chk) Fc_Assert) (\<lambda>_. Inr data))))))"

text \<open>
  The text form of a private key, whose secret is 32 bytes. Reading copies at most 32 bytes
  over a zero secret.
\<close>

definition key_to_wif :: "crypto \<Rightarrow> bytes \<Rightarrow> string" where
  "key_to_wif cr secret =
     (let data = 0x80 # secret;
          digest = sha256 cr (sha256 cr data)
      in to_base58 (data @ take 4 digest))"

definition secret_of_bytes :: "bytes \<Rightarrow> bytes" where
  "secret_of_bytes bs = take 32 bs @ replicate (32 - length bs) 0"

definition wif_to_key :: "crypto \<Rightarrow> string \<Rightarrow> bytes option" where
  "wif_to_key cr wif =
     (case from_base58 wif of
        Inl _ \<Rightarrow> None
      | Inr bs \<Rightarrow>
          if length bs < 5 then None
          else
            let body = take (length bs - 4) bs;
                last4 = drop (length bs - 4) bs;
                key = secret_of_bytes (tl body);
                chk = sha256 cr body;
                chk2 = sha256 cr chk
            in if take 4 chk = last4 \<or> take 4 chk2 = last4 then Some key else None)"

end
