(* ===== verification/Base_Facts.thy ===== *)
theory Base_Facts
  imports Base
begin

section \<open>Base types: lemmas\<close>

text \<open>
  The exact results of the checked arithmetic (a result that fits is the integer one, any other throws)
  and what the operations on assets, versions and keys do, for the claims and the chain above.
\<close>

subsection \<open>Checked arithmetic\<close>

definition in64 :: "int \<Rightarrow> bool" where
  "in64 z \<longleftrightarrow> - (2 ^ 63) \<le> z \<and> z < 2 ^ 63"

lemma in64_sint [simp]: "in64 (sint (a :: i64))"
  using sint_ge [of a] sint_lt [of a] by (simp add: in64_def)

lemma sint_word_of_int: "in64 z \<Longrightarrow> sint (word_of_int z :: i64) = z"
  by (simp add: in64_def signed_of_int signed_take_bit_int_eq_self)

lemma sint_add64: "in64 (sint a + sint b) \<Longrightarrow> sint (a + b :: i64) = sint a + sint b"
  using sint_word_of_int [of "sint a + sint b"] by simp

lemma sint_sub64: "in64 (sint a - sint b) \<Longrightarrow> sint (a - b :: i64) = sint a - sint b"
  using sint_word_of_int [of "sint a - sint b"] by simp

lemma sint_mul64: "in64 (sint a * sint b) \<Longrightarrow> sint (a * b :: i64) = sint a * sint b"
  using sint_word_of_int [of "sint a * sint b"] by simp

lemma sint_max64: "sint max64 = 2 ^ 63 - 1" and sint_min64: "sint min64 = - (2 ^ 63)"
  by (simp_all add: max64_def min64_def)

text \<open>The outcome of an operation whose mathematical result is \<open>z\<close>.\<close>

definition exact64 :: "int \<Rightarrow> i64 result \<Rightarrow> bool" where
  "exact64 z r \<longleftrightarrow>
     (case r of
        Inr w \<Rightarrow> sint w = z
      | Inl e \<Rightarrow> (e = Overflow \<and> 2 ^ 63 \<le> z) \<or> (e = Underflow \<and> z < - (2 ^ 63)))"

lemma exact64_Inr: "in64 z \<Longrightarrow> w = word_of_int z \<Longrightarrow> exact64 z (Inr w)"
  by (simp add: exact64_def sint_word_of_int)

lemma safe_add_exact: "exact64 (sint a + sint b) (safe_add a b)"
proof -
  have "sint b > 0 \<Longrightarrow> sint (max64 - b) = 2 ^ 63 - 1 - sint b"
    using in64_sint [of b] by (subst sint_sub64) (auto simp: sint_max64 in64_def)
  moreover have "sint b < 0 \<Longrightarrow> sint (min64 - b) = - (2 ^ 63) - sint b"
    using in64_sint [of b] by (subst sint_sub64) (auto simp: sint_min64 in64_def)
  ultimately show ?thesis
    using in64_sint [of a] in64_sint [of b]
    by (auto simp: safe_add_def exact64_def in64_def intro!: sint_add64)
qed

lemma safe_sub_exact: "exact64 (sint a - sint b) (safe_sub a b)"
proof -
  have "sint b > 0 \<Longrightarrow> sint (min64 + b) = - (2 ^ 63) + sint b"
    using in64_sint [of b] by (subst sint_add64) (auto simp: sint_min64 in64_def)
  moreover have "sint b < 0 \<Longrightarrow> sint (max64 + b) = 2 ^ 63 - 1 + sint b"
    using in64_sint [of b] by (subst sint_add64) (auto simp: sint_max64 in64_def)
  ultimately show ?thesis
    using in64_sint [of a] in64_sint [of b]
    by (auto simp: safe_sub_def exact64_def in64_def intro!: sint_sub64)
qed

lemma div_less_mult:
  fixes a b m :: int
  assumes b: "0 < b"
  shows "m div b < a \<longleftrightarrow> m < a * b"
proof -
  have m: "m = m div b * b + m mod b" "0 \<le> m mod b" "m mod b < b" using b by simp_all
  show ?thesis
  proof
    assume "m div b < a"
    then have "(m div b + 1) * b \<le> a * b" using b by (intro mult_right_mono) auto
    with m show "m < a * b" by (simp only: distrib_right mult_1)
  next
    assume "m < a * b"
    show "m div b < a"
    proof (rule ccontr)
      assume "\<not> m div b < a"
      then have "a * b \<le> m div b * b" using b by (intro mult_right_mono) auto
      with m \<open>m < a * b\<close> show False by linarith
    qed
  qed
qed

lemma sint_inj: "sint x = sint y \<Longrightarrow> x = (y :: i64)"
  by (rule signed_word_eqI)

lemma sint_eq_0: "sint (x :: i64) = 0 \<longleftrightarrow> x = 0"
  using sint_inj [of x 0] by auto

lemma sdiv_range:
  fixes k l :: int
  assumes "in64 k" and "l \<noteq> 0" and "k \<noteq> - (2 ^ 63) \<or> l \<noteq> - 1"
  shows "in64 (k sdiv l)"
proof (cases "k = - (2 ^ 63)")
  case False
  then show ?thesis using sdiv_int_range [of k l] assms(1) by (auto simp: in64_def)
next
  case True
  show ?thesis
  proof (cases "l = 1")
    case True
    with assms(1) show ?thesis by simp
  next
    case False
    then have "2 \<le> \<bar>l\<bar>" using assms(2,3) True by auto
    then have "\<bar>k\<bar> div \<bar>l\<bar> \<le> \<bar>k\<bar> div 2" by (intro zdiv_mono2) auto
    also have "\<dots> = 2 ^ 62" by (simp add: True)
    finally have "\<bar>k\<bar> div \<bar>l\<bar> \<le> 2 ^ 62" .
    moreover have "0 \<le> \<bar>k\<bar> div \<bar>l\<bar>" using assms(2) by (simp add: pos_imp_zdiv_nonneg_iff)
    ultimately show ?thesis
      by (auto simp: signed_divide_int_def in64_def sgn_if)
  qed
qed

lemma sint_quot64:
  "b \<noteq> 0 \<Longrightarrow> a \<noteq> min64 \<or> b \<noteq> - 1 \<Longrightarrow> sint (quot64 a b) = sint a sdiv sint b"
proof -
  assume b: "b \<noteq> 0" and ab: "a \<noteq> min64 \<or> b \<noteq> - 1"
  have "sint b \<noteq> 0" using b by (simp add: sint_eq_0)
  moreover have "sint a \<noteq> - (2 ^ 63) \<or> sint b \<noteq> - 1"
    using ab sint_min64 sint_inj [of a min64] sint_inj [of b "- 1"] by auto
  ultimately show ?thesis unfolding quot64_def by (intro sint_word_of_int sdiv_range) simp_all
qed

lemma safe_mul_exact: "exact64 (sint a * sint b) (safe_mul a b)"
proof -
  let ?a = "sint a" and ?b = "sint b"
  have nz: "x \<noteq> 0" if "sint x \<noteq> 0" for x :: i64 using that by auto
  have ranges: "- (2 ^ 63) \<le> ?a" "?a < 2 ^ 63" "- (2 ^ 63) \<le> ?b" "?b < 2 ^ 63"
    using in64_sint [of a] in64_sint [of b] by (simp_all add: in64_def)
  have r: "exact64 (?a * ?b) (Inr (a * b))" if "in64 (?a * ?b)"
    using that by (intro exact64_Inr) simp_all
  consider "0 < ?a" "0 < ?b" | "0 < ?a" "?b \<le> 0" | "?a \<le> 0" "0 < ?b" | "?a < 0" "?b \<le> 0"
    | "?a = 0" "?b \<le> 0" by linarith
  then show ?thesis
  proof cases
    case 1
    have "sint (quot64 max64 b) = (2 ^ 63 - 1) div ?b"
      using 1 nz [of b] by (subst sint_quot64) (auto simp: sint_max64 signed_divide_int_def max64_def min64_def)
    moreover have "- (2 ^ 63) \<le> ?a * ?b" using mult_pos_pos [OF 1] by simp
    ultimately show ?thesis
      using 1 div_less_mult [of ?b "2 ^ 63 - 1" ?a] r
      by (auto simp: safe_mul_def exact64_def in64_def not_less)
  next
    case 2
    have "sint (quot64 min64 a) = - (2 ^ 63 div ?a)"
      using 2 nz [of a] by (subst sint_quot64) (auto simp: sint_min64 signed_divide_int_def)
    moreover have "?a * ?b \<le> 0" using 2 by (simp add: mult_le_0_iff)
    ultimately show ?thesis
      using 2 div_less_mult [of ?a "2 ^ 63" "- ?b"] r
      by (auto simp: safe_mul_def exact64_def in64_def not_less mult.commute)
  next
    case 3
    have "sint (quot64 min64 b) = - (2 ^ 63 div ?b)"
      using 3 nz [of b] by (subst sint_quot64) (auto simp: sint_min64 signed_divide_int_def)
    moreover have "?a * ?b \<le> 0" using 3 by (simp add: mult_le_0_iff)
    ultimately show ?thesis
      using 3 div_less_mult [of ?b "2 ^ 63" "- ?a"] r
      by (auto simp: safe_mul_def exact64_def in64_def not_less)
  next
    case 4
    have "sint (quot64 max64 a) = - ((2 ^ 63 - 1) div (- ?a))"
      using 4 nz [of a] by (subst sint_quot64) (auto simp: sint_max64 signed_divide_int_def max64_def min64_def)
    moreover have "0 \<le> ?a * ?b" using 4 by (simp add: mult_nonpos_nonpos)
    moreover have "a \<noteq> 0" using 4 by auto
    ultimately show ?thesis
      using 4 div_less_mult [of "- ?a" "2 ^ 63 - 1" "- ?b"] r
      by (auto simp: safe_mul_def exact64_def in64_def not_less mult.commute)
  next
    case 5
    then have "a = 0" by (simp add: sint_eq_0)
    with 5 show ?thesis by (simp add: safe_mul_def exact64_def)
  qed
qed

lemma safe_div_exact:
  "safe_div a b =
     (if sint b = 0 then Inl Divide_By_Zero
      else if in64 (sint a sdiv sint b) then Inr (word_of_int (sint a sdiv sint b)) else Inl Overflow)"
proof -
  have b: "b = 0 \<longleftrightarrow> sint b = 0" by (simp add: sint_eq_0)
  have ab: "a = min64 \<and> b = - 1 \<longleftrightarrow> sint a = - (2 ^ 63) \<and> sint b = - 1"
    using sint_min64 sint_inj [of a min64] sint_inj [of b "- 1"] by auto
  show ?thesis
  proof (cases "sint a = - (2 ^ 63) \<and> sint b = - 1")
    case True
    then have "\<not> in64 (sint a sdiv sint b)" by (simp add: in64_def)
    with True show ?thesis using b ab by (simp add: safe_div_def)
  next
    case False
    with sdiv_range [of "sint a" "sint b"] show ?thesis
      using b ab by (auto simp: safe_div_def quot64_def)
  qed
qed

subsection \<open>Byte order\<close>

lemma low_byte: "(x :: 'w::len word) AND 0xFF = take_bit 8 x"
proof -
  have "mask 8 = (0xFF :: 'w word)" by (simp add: mask_eq_exp_minus_1)
  then show ?thesis by (simp add: take_bit_eq_mask)
qed

lemma bit_byte_to:
  "bit (push_bit k (drop_bit j (x :: u32) AND 0xFF)) n \<longleftrightarrow>
     k \<le> n \<and> n < k + 8 \<and> n < 32 \<and> bit x (j + (n - k))"
  "bit (drop_bit j (x :: u32) AND 0xFF) n \<longleftrightarrow> n < 8 \<and> bit x (j + n)"
  "bit (push_bit k ((x :: u32) AND 0xFF)) n \<longleftrightarrow> k \<le> n \<and> n < k + 8 \<and> n < 32 \<and> bit x (n - k)"
  unfolding low_byte by (auto simp: bit_push_bit_iff bit_take_bit_iff bit_drop_bit_eq)

lemma bit_reverse_u32:
  "bit (endian_reverse_u32 x) n \<longleftrightarrow>
     (n < 8 \<and> bit x (24 + n)) \<or> (8 \<le> n \<and> n < 16 \<and> bit x (16 + (n - 8))) \<or>
     (16 \<le> n \<and> n < 24 \<and> bit x (8 + (n - 16))) \<or> (24 \<le> n \<and> n < 32 \<and> bit x (n - 24))"
proof -
  consider "n < 8" | "8 \<le> n" "n < 16" | "16 \<le> n" "n < 24" | "24 \<le> n" by linarith
  then show ?thesis
    unfolding endian_reverse_u32_def bit_or_iff bit_byte_to by cases (simp_all add: bit_drop_bit_eq)
qed

lemma reverse_reverse_u32: "endian_reverse_u32 (endian_reverse_u32 x) = x"
proof (rule bit_word_eqI)
  fix n
  assume "n < LENGTH(32)"
  then consider "n < 8" | "8 \<le> n" "n < 16" | "16 \<le> n" "n < 24" | "24 \<le> n" "n < 32" by fastforce
  then show "bit (endian_reverse_u32 (endian_reverse_u32 x)) n = bit x n"
    by cases (auto simp: bit_reverse_u32)
qed

subsection \<open>Decimal text\<close>

definition dec_value :: "string \<Rightarrow> nat" where
  "dec_value s = foldl (\<lambda>a c. a * 10 + (of_char c - 48)) 0 s"

definition is_digit :: "char \<Rightarrow> bool" where
  "is_digit c \<longleftrightarrow> 48 \<le> (of_char c :: nat) \<and> (of_char c :: nat) \<le> 57"

text \<open>
  What the chain relies on from Boost: a numeral of digits below \<open>2 ^ 63\<close> is read as its value,
  and text that neither begins nor ends with a space is not changed by \<open>trim\<close>.
\<close>

definition text_lib_ok :: "text_lib \<Rightarrow> bool" where
  "text_lib_ok lib \<longleftrightarrow>
     (\<forall>s. s \<noteq> [] \<longrightarrow> list_all is_digit s \<longrightarrow> dec_value s < 2 ^ 63 \<longrightarrow>
        lex_int64 lib s = Some (word_of_nat (dec_value s))) \<and>
     (\<forall>s. s \<noteq> [] \<longrightarrow> \<not> isspace (hd s) \<longrightarrow> \<not> isspace (last s) \<longrightarrow> trim lib s = s)"

fun pad10 :: "nat \<Rightarrow> nat \<Rightarrow> string" where
  "pad10 0 r = []"
| "pad10 (Suc k) r = pad10 k (r div 10) @ [char_of (48 + r mod 10)]"

lemma digit_char: "d < 10 \<Longrightarrow> (of_char (char_of (48 + d) :: char) :: nat) = 48 + d"
  by simp

lemma dec_value_snoc: "dec_value (s @ [c]) = dec_value s * 10 + (of_char c - 48)"
  by (simp add: dec_value_def)

lemma dec_value_pad: "dec_value (pad10 k r) = r mod 10 ^ k"
proof (induction k r rule: pad10.induct)
  case (1 r)
  then show ?case by (simp add: dec_value_def)
next
  case (2 k r)
  have "r mod 10 ^ Suc k = r div 10 mod 10 ^ k * 10 + r mod 10"
    by (simp add: mod_mult2_eq mult.commute)
  with 2 show ?case by (simp add: dec_value_snoc)
qed

lemma pad_digits: "list_all is_digit (pad10 k r)"
  by (induction k r rule: pad10.induct) (simp_all add: is_digit_def)

lemma length_pad [simp]: "length (pad10 k r) = k"
  by (induction k r rule: pad10.induct) simp_all

lemma dec_value_decimal: "dec_value (decimal n) = n"
proof (induction n rule: decimal.induct)
  case (1 n)
  show ?case
  proof (cases "n < 10")
    case True
    then show ?thesis by (subst decimal.simps) (simp add: dec_value_def)
  next
    case False
    with 1 show ?thesis by (subst decimal.simps) (simp add: dec_value_snoc)
  qed
qed

lemma is_digit_char: "(d :: nat) < 10 \<Longrightarrow> is_digit (char_of (48 + d))"
  by (simp add: is_digit_def)

lemma decimal_digits: "decimal n \<noteq> [] \<and> list_all is_digit (decimal n)"
proof (induction n rule: decimal.induct)
  case (1 n)
  then show ?case by (subst (1 2) decimal.simps) (simp add: is_digit_char)
qed

lemma decimal_1: "decimal (Suc 0) = ''1''"
  by code_simp

lemma decimal_pad: "r < 10 ^ k \<Longrightarrow> decimal (10 ^ k + r) = CHR ''1'' # pad10 k r"
proof (induction k arbitrary: r)
  case 0
  then show ?case using decimal_1 by simp
next
  case (Suc k)
  have "(10 ^ Suc k + r) div 10 = 10 ^ k + r div 10" "(10 ^ Suc k + r) mod 10 = r mod 10" by simp_all
  moreover have "(1 :: nat) \<le> 10 ^ k" by simp
  then have "\<not> 10 ^ Suc k + r < 10" unfolding power_Suc by linarith
  moreover have "decimal (10 ^ k + r div 10) = CHR ''1'' # pad10 k (r div 10)"
    using Suc.prems by (intro Suc.IH) (simp add: less_mult_imp_div_less mult.commute)
  ultimately show ?case by (subst decimal.simps) (simp del: power_Suc)
qed

lemma is_digit_not: "is_digit c \<Longrightarrow> \<not> isspace c \<and> c \<noteq> CHR '','' \<and> c \<noteq> CHR ''.''"
  by (auto simp: is_digit_def isspace_def)

lemma digits_takeWhile:
  assumes "list_all is_digit s" and "c = CHR '','' \<or> c = CHR ''.''"
  shows "takeWhile (\<lambda>x. x \<noteq> c) (s @ c # t) = s" and "dropWhile (\<lambda>x. x \<noteq> c) (s @ c # t) = c # t"
  using assms by (induction s) (auto dest: is_digit_not)

lemma news_symbol_value: "news_symbol = 0x5457454E08"
  by (simp add: news_symbol_def push_bit_eq_mult)

lemma news_symbol_decimals: "symbol_decimals news_symbol = 8"
  unfolding news_symbol_value symbol_decimals_def by simp

lemma news_symbol_precision: "symbol_precision news_symbol = 10 ^ 8"
  unfolding symbol_precision_def news_symbol_decimals by code_simp

lemma newt_chars:
  "char_of (78 :: nat) = CHR ''N''" "char_of (69 :: nat) = CHR ''E''"
  "char_of (87 :: nat) = CHR ''W''" "char_of (84 :: nat) = CHR ''T''"
  by code_simp+

lemma news_symbol_name: "symbol_name news_symbol = ''NEWT''"
  unfolding news_symbol_value symbol_name_def
  by (simp add: symbol_chars.simps drop_bit_eq_div unat_div_distrib newt_chars)

lemmas news_symbol_facts = news_symbol_decimals news_symbol_precision news_symbol_name

lemma asset_round_trip:
  assumes lib: "text_lib_ok lib" and sym: "symbol a = news_symbol" and pos: "0 \<le> sint (amount a)"
  shows "asset_from_string lib (asset_to_string a) = Inr a"
proof -
  let ?n = "unat (amount a)"
  define q r where "q = ?n div 10 ^ 8" and "r = ?n mod 10 ^ 8"
  have n: "?n < 2 ^ 63"
    using pos sint_lt [of "amount a"] by (simp add: unat_eq_nat_uint uint_sint take_bit_int_eq_self)
  let ?d = "decimal q" and ?f = "pad10 8 r"
  have "unat (amount a div 10 ^ 8) = q" by (simp add: q_def unat_div_distrib)
  moreover have m: "unat (amount a mod 10 ^ 8) = r" by (simp add: r_def unat_mod_distrib)
  moreover have "unat (10 ^ 8 + amount a mod 10 ^ 8) = 10 ^ 8 + r"
    by (subst unat_plus_if') (simp add: m [simplified] r_def)
  moreover have "decimal (10 ^ 8 + r) = CHR ''1'' # ?f" by (rule decimal_pad) (simp add: r_def)
  ultimately have s: "asset_to_string a = ?d @ CHR ''.'' # ?f @ '', NEWT''"
    by (simp add: asset_to_string_def sym news_symbol_facts Let_def)
  have dd: "?d \<noteq> []" "list_all is_digit ?d" using decimal_digits by auto
  have ff: "list_all is_digit ?f" "?f \<noteq> []" using pad_digits length_pad [of 8 r] by (simp, metis list.size(3) zero_neq_numeral)
  have hd: "\<not> isspace (hd ?d)" and lf: "\<not> isspace (last ?f)"
    using dd ff is_digit_not by (metis hd_in_set list_all_iff, metis last_in_set list_all_iff)
  have tr: "trim lib t = t" if "t \<noteq> []" "\<not> isspace (hd t)" "\<not> isspace (last t)" for t
    using lib that by (simp add: text_lib_ok_def)
  have T: "\<not> isspace CHR ''T''" "\<not> isspace CHR '',''" by (simp_all add: isspace_def)
  have t1: "trim lib (asset_to_string a) = asset_to_string a"
    unfolding s using hd dd T by (intro tr) auto
  have am: "list_all (\<lambda>c. c \<noteq> CHR '','') (?d @ CHR ''.'' # ?f)"
    using dd ff is_digit_not by (auto simp: list_all_iff)
  have split: "takeWhile (\<lambda>c. c \<noteq> CHR '','') (asset_to_string a) = ?d @ CHR ''.'' # ?f"
    "dropWhile (\<lambda>c. c \<noteq> CHR '','') (asset_to_string a) = '', NEWT''"
    unfolding s using am by (simp_all add: list_all_iff takeWhile_append dropWhile_append)
  have t2: "trim lib (?d @ CHR ''.'' # ?f) = ?d @ CHR ''.'' # ?f"
    using hd lf dd ff by (intro tr) auto
  have t3: "trim lib '', NEWT'' = '', NEWT''" using T by (intro tr) auto
  have lex: "to_int64 lib t = Inr (word_of_nat (dec_value t))"
    if "t \<noteq> []" "list_all is_digit t" "dec_value t < 2 ^ 63" for t
    using lib that by (simp add: text_lib_ok_def to_int64_def)
  have i: "to_int64 lib ?d = Inr (word_of_nat q)" and f: "to_int64 lib ?f = Inr (word_of_nat r)"
    using lex [OF dd] lex [OF ff(2,1)] n by (simp_all add: dec_value_decimal dec_value_pad q_def r_def)
  have "word_of_nat q * 10 ^ 8 + word_of_nat r = (word_of_nat (q * 10 ^ 8 + r) :: i64)" by simp
  also have "\<dots> = amount a" by (simp only: q_def r_def div_mult_mod_eq) simp
  finally have "word_of_nat q * 10 ^ 8 + word_of_nat r = amount a" .
  moreover have "CHR '','' \<in> set (asset_to_string a)" unfolding s by simp
  ultimately show ?thesis
    using sym digits_takeWhile [OF dd(2), of "CHR ''.''" ?f]
    by (simp add: asset_from_string_def t1 split t2 t3 i f Let_def symbol_from_string_def
        news_symbol_facts)
qed

end
