(* ===== verification/Base_Props.thy ===== *)
theory Base_Props
  imports Base_Facts
begin

section \<open>Base types: properties\<close>

text \<open>Claims about the encodings and the base types, with the inputs they are applied to.\<close>

subsection \<open>The binary encoding\<close>

text \<open>
  Variable-length integers. \<open>unsigned_int\<close> reads back every value and leaves what follows;
  \<open>signed_int\<close> reads back exactly the values whose bits 30 and 31 agree, that is those from
  \<open>- 2 ^ 30\<close> to \<open>2 ^ 30 - 1\<close>, and flips the low bit of the others, because the sign is
  taken from an unsigned shift.
\<close>

theorem varint_round_trips:
  "c_get c_unsigned_int (packed c_unsigned_int x @ rest) = (Inr x, rest) \<and>
   (fst (c_get c_signed_int (packed c_signed_int y @ rest)) = Inr y \<longleftrightarrow> bit y 30 = bit y 31)"
proof -
  have "y XOR 1 \<noteq> y"
    by (metis bit_1_0 bit_xor_iff)
  then show ?thesis
    using rt_unsigned_int by (simp add: round_trip_def signed_int_reads)
qed

subsection \<open>Checked integers\<close>

text \<open>
  \<open>fc::safe<int64_t>\<close> is exact. Sum, difference and product are the mathematical ones
  whenever these fit in 64 bits; otherwise the operation raises an overflow exactly when the
  result is above the range and an underflow exactly when it is below. The quotient is the
  truncated one, and raises only for a zero divisor and for the one quotient out of range.
\<close>

theorem safe_exact:
  "exact64 (sint a + sint b) (safe_add a b) \<and>
   exact64 (sint a - sint b) (safe_sub a b) \<and>
   exact64 (sint a * sint b) (safe_mul a b) \<and>
   safe_div a b =
     (if sint b = 0 then Inl Divide_By_Zero
      else if in64 (sint a sdiv sint b) then Inr (word_of_int (sint a sdiv sint b)) else Inl Overflow)"
  by (intro conjI safe_add_exact safe_sub_exact safe_mul_exact safe_div_exact)

subsection \<open>Text forms\<close>

text \<open>
  Base 58 loses nothing: \<open>from_base58 (to_base58 bs) = bs\<close> for every byte string, leading
  zero bytes and bytes above \<open>0x7f\<close> in front included.
\<close>

theorem base58_inverse: "from_base58 (to_base58 bs) = Inr bs"
  by (rule base58_round_trip)

definition crypto_ok :: "crypto \<Rightarrow> bool" where
  "crypto_ok cr \<longleftrightarrow>
     (\<forall>x. length (sha256 cr x) = 32 \<and> length (sha224 cr x) = 28 \<and> length (ripemd160 cr x) = 20)"

definition demo_crypto :: crypto where
  "demo_crypto =
     \<lparr>sha256 = \<lambda>x. take 32 ((if x = [] then 0 else hd x + 1) # x @ replicate 32 0), sha224 = \<lambda>x. take 28 (x @ replicate 28 0),
      ripemd160 = \<lambda>x. take 20 (x @ replicate 20 0), recover = \<lambda>s d. Inr (take 33 s),
      sign_compact = \<lambda>k d. take 65 (k @ replicate 65 0), public_of = \<lambda>k. take 33 (k @ replicate 33 0)\<rparr>"

lemma demo_sha256: "hd (sha256 demo_crypto x) = (if x = [] then 0 else hd x + 1)" "sha256 demo_crypto x \<noteq> []"
  by (simp_all add: demo_crypto_def)

lemma demo_crypto_ok: "crypto_ok demo_crypto"
  by (auto simp: crypto_ok_def demo_crypto_def min_def)

lemma rt_binary_key: "round_trip (\<lambda>(k, s). length k = 33 \<and> length s = 4) c_binary_key"
  unfolding c_binary_key_def c_public_key_def by (rule rt_pair [OF rt_array rt_array])

interpretation binary_key: codec_law c_binary_key "\<lambda>(k, s). length k = 33 \<and> length s = 4"
  by unfold_locales (rule rt_binary_key)

lemma from_base58_empty: "from_base58 [] = Inr []"
  by code_simp

lemma public_key_text:
  assumes "crypto_ok cr" and "length key = 33"
  shows "rbind (public_key_string cr key) (public_key_of_string cr) = Inr key"
proof -
  let ?v = "(key, take 4 (ripemd160 cr key))"
  have ok: "length (snd ?v) = 4" using assms(1) by (simp add: crypto_ok_def)
  have n: "pack_size c_binary_key ?v = 37"
    using ok assms(2)
    by (simp add: pack_size_def c_binary_key_def c_pair_def c_public_key_def c_array_def)
  then have p: "pack_to_vector c_binary_key ?v = Inr (packed c_binary_key ?v)"
    by (intro binary_key.pack_ok) simp
  have ne: "packed c_binary_key ?v \<noteq> []" using n by (auto simp: pack_size_packed)
  have u: "unpack_from_vector c_binary_key d (packed c_binary_key ?v) = Inr ?v" for d
    by (rule binary_key.vector_round_trip [OF _ p _ ne]) (use ok assms(2) n in auto)
  have "to_base58 (packed c_binary_key ?v) \<noteq> []"
    using base58_round_trip [of "packed c_binary_key ?v"] from_base58_empty ne by auto
  then show ?thesis
    by (simp add: public_key_string_def public_key_of_string_def p u base58_round_trip
        news_address_prefix_def)
qed

lemma wif_text:
  assumes "crypto_ok cr" and "length secret = 32"
  shows "wif_to_key cr (key_to_wif cr secret) = Some secret"
proof -
  have "length (take 4 (sha256 cr (sha256 cr (0x80 # secret)))) = 4"
    using assms(1) by (simp add: crypto_ok_def)
  then show ?thesis
    using assms(2)
    by (simp add: wif_to_key_def key_to_wif_def base58_round_trip secret_of_bytes_def Let_def)
qed

text \<open>
  Text of keys. Whatever the hash functions are, as long as a hash has its length: a public key
  of 33 bytes written in its text form is accepted by the constructor from text and gives the
  key back, and a secret of 32 bytes written in WIF is found again by \<open>wif_to_key\<close>.
\<close>

theorem key_text_round_trips:
  assumes "crypto_ok cr" and "length key = 33" and "length secret = 32"
  shows "rbind (public_key_string cr key) (public_key_of_string cr) = Inr key \<and>
         wif_to_key cr (key_to_wif cr secret) = Some secret"
  using public_key_text wif_text assms by blast

theorem key_text_round_trips_witness:
  "wif_to_key demo_crypto (key_to_wif demo_crypto (replicate 32 7)) = Some (replicate 32 7)"
  using key_text_round_trips [OF demo_crypto_ok, of "replicate 33 9" "replicate 32 7"] by simp

subsection \<open>Assets\<close>

definition demo_text_lib :: text_lib where
  "demo_text_lib =
     \<lparr>trim = \<lambda>s. rev (dropWhile isspace (rev (dropWhile isspace s))),
      lex_int64 = \<lambda>s. if s \<noteq> [] \<and> list_all is_digit s \<and> dec_value s < 2 ^ 63
                      then Some (word_of_nat (dec_value s)) else None\<rparr>"

lemma demo_text_lib_ok: "text_lib_ok demo_text_lib"
proof -
  have "rev (dropWhile isspace (rev (dropWhile isspace s))) = s"
    if "s \<noteq> []" "\<not> isspace (hd s)" "\<not> isspace (last s)" for s
  proof -
    have "dropWhile isspace s = s" "dropWhile isspace (rev s) = rev s"
      using that by (simp_all add: dropWhile_eq_self_iff hd_rev)
    then show ?thesis by simp
  qed
  then show ?thesis by (simp add: text_lib_ok_def demo_text_lib_def)
qed

text \<open>
  The text form of an asset that is not negative is read back as the same asset, for every
  amount up to the largest, when \<open>trim\<close> and \<open>lexical_cast\<close> do what Boost documents.
\<close>

theorem asset_text_round_trip:
  assumes "text_lib_ok lib" and "symbol a = news_symbol" and "0 \<le> sint (amount a)"
  shows "asset_from_string lib (asset_to_string a) = Inr a"
  by (rule asset_round_trip [OF assms])

theorem asset_text_round_trip_witness:
  "asset_from_string demo_text_lib (asset_to_string \<lparr>amount = 150000000, symbol = news_symbol\<rparr>)
     = Inr \<lparr>amount = 150000000, symbol = news_symbol\<rparr>"
  by (rule asset_text_round_trip [OF demo_text_lib_ok]) simp_all

text \<open>
  But the digits after the point are added as they are, not scaled to the precision: one and a
  half NEWT written \<open>1.5\<close> is one NEWT and five units.
\<close>

lemma asset_fraction_not_scaled:
  "asset_from_string demo_text_lib ''1.5, NEWT'' = Inr \<lparr>amount = 100000005, symbol = news_symbol\<rparr>"
proof -
  have "list_all is_digit ''1''" "list_all is_digit ''5''" "dec_value ''1'' = 1" "dec_value ''5'' = 5"
    by code_simp+
  then show ?thesis
    by (simp add: asset_from_string_def demo_text_lib_def isspace_def to_int64_def
        symbol_from_string_def news_symbol_facts Let_def)
qed

text \<open>The version 0.0.1 of the program is the number of 1.0.0, and the order is reversed.\<close>

lemma version_wrong: "version_string news_version = ''1.0.0''" "version_lt 2 1 \<and> \<not> version_lt 1 2"
  by code_simp+

end
