(* ===== verification/Chain_Types.thy ===== *)
theory Chain_Types
  imports Base
begin

section \<open>Operations, transactions, blocks\<close>

text \<open>
  The data of \<open>news/base/operation.hpp\<close>, \<open>authority.hpp\<close>, \<open>news/chain/transaction.hpp\<close>,
  \<open>block_header.hpp\<close> and \<open>block.hpp\<close> and the functions of the matching .cpp files: encodings,
  ids, signatures, validation and the Merkle root. A digest, id, key, signature or memo is the
  list of its bytes.
\<close>

subsection \<open>Operations\<close>

record shared_authority =
  auth_key :: bytes
  auth_weight :: u32

record create_account_operation =
  new_name :: u64
  creator :: u64
  posting :: shared_authority
  owner :: shared_authority

record transfer_operation =
  t_from :: u64
  t_to :: u64
  t_amount :: asset
  t_memo :: bytes

record transfers_operation =
  ts_from :: u64
  to_names :: "(u64, asset) omap"
  ts_memo :: bytes

datatype operation =
    Create_Account create_account_operation
  | Transfer transfer_operation
  | Transfers transfers_operation

definition validate_create :: "create_account_operation \<Rightarrow> unit result" where
  "validate_create o' = Inr ()"

definition validate_transfer :: "transfer_operation \<Rightarrow> unit result" where
  "validate_transfer o' =
     rbind (assert_r (t_from o' \<noteq> t_to o') Fc_Assert) (\<lambda>_.
     assert_r (sint (amount (t_amount o')) > 0) Fc_Assert)"

fun validate_targets :: "u64 \<Rightarrow> (u64 \<times> asset) list \<Rightarrow> unit result" where
  "validate_targets from [] = Inr ()"
| "validate_targets from ((n, a) # m) =
     rbind (assert_r (from \<noteq> n) Fc_Assert) (\<lambda>_.
     rbind (assert_r (sint (amount a) > 0) Fc_Assert) (\<lambda>_.
     validate_targets from m))"

definition validate_transfers :: "transfers_operation \<Rightarrow> unit result" where
  "validate_transfers o' =
     rbind (assert_r (length (to_names o') > 0) Fc_Assert) (\<lambda>_.
     validate_targets (ts_from o') (to_names o'))"

text \<open>\<open>operation_validate_visitor\<close>.\<close>

definition validate_operation :: "operation \<Rightarrow> unit result" where
  "validate_operation op =
     (case op of
        Create_Account o' \<Rightarrow> validate_create o'
      | Transfer o' \<Rightarrow> validate_transfer o'
      | Transfers o' \<Rightarrow> validate_transfers o')"

text \<open>
  The names whose signature an operation needs, and \<open>operation_get_sign_name_visitor\<close>, which
  inserts them in the \<open>flat_set\<close>s; no operation overrides \<open>get_sign_owner\<close>.
\<close>

definition sign_name :: "operation \<Rightarrow> u64" where
  "sign_name op =
     (case op of
        Create_Account o' \<Rightarrow> creator o'
      | Transfer o' \<Rightarrow> t_from o'
      | Transfers o' \<Rightarrow> ts_from o')"

definition insert_name :: "u64 \<Rightarrow> u64 list \<Rightarrow> u64 list" where
  "insert_name n ns = (if n \<in> set ns then ns else insort n ns)"

definition visit_sign_names :: "operation \<Rightarrow> u64 list \<times> u64 list \<Rightarrow> u64 list \<times> u64 list" where
  "visit_sign_names op = (\<lambda>(post, own). (insert_name (sign_name op) post, own))"

subsection \<open>Encodings of operations\<close>

definition c_asset :: "asset codec" where
  "c_asset = c_class (\<lambda>a. (amount a, symbol a)) (\<lambda>(x, y). \<lparr>amount = x, symbol = y\<rparr>) 16
     (c_pair (c_word 8) (c_word 8))"

definition c_authority :: "shared_authority codec" where
  "c_authority = c_class (\<lambda>a. (auth_key a, auth_weight a)) (\<lambda>(x, y). \<lparr>auth_key = x, auth_weight = y\<rparr>) 40
     (c_pair c_public_key (c_word 4))"

definition c_create_account :: "create_account_operation codec" where
  "c_create_account =
     c_class (\<lambda>o'. (new_name o', creator o', posting o', owner o'))
       (\<lambda>(a, b, c, d). \<lparr>new_name = a, creator = b, posting = c, owner = d\<rparr>) 96
       (c_pair (c_word 8) (c_pair (c_word 8) (c_pair c_authority c_authority)))"

definition c_transfer :: "transfer_operation codec" where
  "c_transfer =
     c_class (\<lambda>o'. (t_from o', t_to o', t_amount o', t_memo o'))
       (\<lambda>(a, b, c, d). \<lparr>t_from = a, t_to = b, t_amount = c, t_memo = d\<rparr>) 64
       (c_pair (c_word 8) (c_pair (c_word 8) (c_pair c_asset c_string)))"

definition c_transfers :: "transfers_operation codec" where
  "c_transfers =
     c_class (\<lambda>o'. (ts_from o', to_names o', ts_memo o'))
       (\<lambda>(a, b, c). \<lparr>ts_from = a, to_names = b, ts_memo = c\<rparr>) 88
       (c_pair (c_word 8) (c_pair (c_map (c_word 8) c_asset) c_string))"

fun operation_which :: "operation \<Rightarrow> nat" where
  "operation_which (Create_Account _) = 0"
| "operation_which (Transfer _) = 1"
| "operation_which (Transfers _) = 2"

fun operation_put :: "operation \<Rightarrow> bytes list" where
  "operation_put (Create_Account x) = c_put c_create_account x"
| "operation_put (Transfer x) = c_put c_transfer x"
| "operation_put (Transfers x) = c_put c_transfers x"

definition operation_readers :: "(bytes, operation) sx list" where
  "operation_readers =
     [bnd (c_get c_create_account) (\<lambda>x. ret (Create_Account x)),
      bnd (c_get c_transfer) (\<lambda>x. ret (Transfer x)),
      bnd (c_get c_transfers) (\<lambda>x. ret (Transfers x))]"

definition c_operation :: "operation codec" where
  "c_operation = c_variant operation_which operation_put operation_readers 104"

subsection \<open>Transactions\<close>

record transaction =
  ref_block_num :: u16
  ref_block_prefix :: u32
  expiration :: u32
  operations :: "operation list"

record signed_transaction = transaction +
  signatures :: "bytes list"

definition c_transaction :: "transaction codec" where
  "c_transaction =
     c_class (\<lambda>t. (ref_block_num t, ref_block_prefix t, expiration t, operations t))
       (\<lambda>(a, b, c, d). \<lparr>ref_block_num = a, ref_block_prefix = b, expiration = c, operations = d\<rparr>) 40
       (c_pair (c_word 2) (c_pair (c_word 4) (c_pair (c_word 4) (c_vector c_operation))))"

text \<open>A derived class is encoded as its base followed by its own members.\<close>

definition c_signed_transaction :: "signed_transaction codec" where
  "c_signed_transaction =
     c_class (\<lambda>t. (transaction.truncate t, signatures t))
       (\<lambda>(t, s). transaction.extend t (signed_transaction.fields s)) 64
       (c_pair c_transaction (c_vector (c_array 65)))"

definition transaction_digest :: "crypto \<Rightarrow> ('x) transaction_scheme \<Rightarrow> bytes" where
  "transaction_digest cr t = sha256 cr (packed c_transaction (transaction.truncate t))"

definition transaction_id :: "crypto \<Rightarrow> ('x) transaction_scheme \<Rightarrow> bytes" where
  "transaction_id cr t = take 20 (transaction_digest cr t)"

text \<open>The chain id is an argument of the code that its body does not use.\<close>

definition sig_digest :: "crypto \<Rightarrow> bytes \<Rightarrow> ('x) transaction_scheme \<Rightarrow> bytes" where
  "sig_digest cr chain_id t = sha256 cr (packed c_transaction (transaction.truncate t))"

fun all_r :: "('a \<Rightarrow> unit result) \<Rightarrow> 'a list \<Rightarrow> unit result" where
  "all_r f [] = Inr ()"
| "all_r f (x # xs) = rbind (f x) (\<lambda>_. all_r f xs)"

definition validate_transaction :: "('x) transaction_scheme \<Rightarrow> unit result" where
  "validate_transaction t =
     rbind (assert_r (length (operations t) > 0) Fc_Assert) (\<lambda>_. all_r validate_operation (operations t))"

definition set_expiration :: "u32 \<Rightarrow> ('x) transaction_scheme \<Rightarrow> ('x) transaction_scheme" where
  "set_expiration e t = t\<lparr>expiration := e\<rparr>"

text \<open>The \<open>k\<close>-th 32-bit word of a hash in memory.\<close>

definition hash_word :: "nat \<Rightarrow> bytes \<Rightarrow> u32" where
  "hash_word k h = word_of_nat (of_le (take 4 (drop (4 * k) h)))"

definition set_reference_block :: "bytes \<Rightarrow> ('x) transaction_scheme \<Rightarrow> ('x) transaction_scheme" where
  "set_reference_block r t =
     t\<lparr>ref_block_num := ucast (endian_reverse_u32 (hash_word 0 r)), ref_block_prefix := hash_word 1 r\<rparr>"

text \<open>The two \<open>sign\<close> functions: one appends the signature, the other returns it.\<close>

definition sign_transaction :: "crypto \<Rightarrow> bytes \<Rightarrow> bytes \<Rightarrow> signed_transaction \<Rightarrow> signed_transaction" where
  "sign_transaction cr pk chain_id t =
     t\<lparr>signatures := signatures t @ [sign_compact cr pk (sig_digest cr chain_id t)]\<rparr>"

definition signature_of :: "crypto \<Rightarrow> bytes \<Rightarrow> bytes \<Rightarrow> signed_transaction \<Rightarrow> bytes" where
  "signature_of cr pk chain_id t =
     sign_compact cr pk (sha256 cr (packed (c_array 32) chain_id @ packed c_signed_transaction t))"

definition merkle_digest :: "crypto \<Rightarrow> signed_transaction \<Rightarrow> bytes" where
  "merkle_digest cr t = sha256 cr (packed c_signed_transaction t)"

fun signature_keys_from :: "crypto \<Rightarrow> bytes \<Rightarrow> bytes list \<Rightarrow> bytes list \<Rightarrow> bytes list result" where
  "signature_keys_from cr d [] keys = Inr keys"
| "signature_keys_from cr d (s # ss) keys =
     rbind (recover cr s d) (\<lambda>k. signature_keys_from cr d ss (List.insert k keys))"

definition get_signature_keys :: "crypto \<Rightarrow> bytes \<Rightarrow> signed_transaction \<Rightarrow> bytes list result" where
  "get_signature_keys cr chain_id t =
     signature_keys_from cr (sig_digest cr chain_id t) (signatures t) []"

text \<open>
  \<open>verify_authority\<close>: \<open>used\<close> is the map from the recovered keys to whether a required name
  has that key.
\<close>

type_synonym used_keys = "(bytes \<times> bool) list"

definition mark_used :: "bytes \<Rightarrow> used_keys \<Rightarrow> used_keys" where
  "mark_used pk used = map (\<lambda>(k, b). (k, b \<or> k = pk)) used"

fun require_keys :: "(u64 \<Rightarrow> bytes result) \<Rightarrow> u64 list \<Rightarrow> used_keys \<Rightarrow> used_keys result" where
  "require_keys get_key [] used = Inr used"
| "require_keys get_key (n # ns) used =
     rbind (get_key n) (\<lambda>pk.
     rbind (assert_r (pk \<in> set (map fst used)) Fc_Assert) (\<lambda>_.
     require_keys get_key ns (mark_used pk used)))"

definition verify_authority ::
    "crypto \<Rightarrow> (u64 \<Rightarrow> bytes result) \<Rightarrow> (u64 \<Rightarrow> bytes result) \<Rightarrow> bytes \<Rightarrow> signed_transaction \<Rightarrow> unit result" where
  "verify_authority cr get_posting get_owner chain_id t =
     rbind (get_signature_keys cr chain_id t) (\<lambda>pubs.
     (let (posting_names, owner_names) = fold visit_sign_names (operations t) ([], [])
      in rbind (require_keys get_posting posting_names (map (\<lambda>p. (p, False)) pubs)) (\<lambda>used.
         rbind (require_keys get_owner owner_names used) (\<lambda>used.
         all_r (\<lambda>kb. assert_r (snd kb) Fc_Assert) used))))"

subsection \<open>Block headers\<close>

record block_header =
  timestamp :: u32
  producer :: u64
  transaction_merkle_root :: bytes
  previous :: bytes
  version_num :: u32

record signed_block_header = block_header +
  producer_signature :: bytes

record signed_block = signed_block_header +
  transactions :: "signed_transaction list"

definition c_block_header :: "block_header codec" where
  "c_block_header =
     c_class (\<lambda>h. (timestamp h, producer h, transaction_merkle_root h, previous h, version_num h))
       (\<lambda>(a, b, c, d, e). \<lparr>timestamp = a, producer = b, transaction_merkle_root = c, previous = d, version_num = e\<rparr>)
       88 (c_pair (c_word 4) (c_pair (c_word 8) (c_pair (c_array 32) (c_pair (c_array 20) (c_word 4)))))"

definition c_signed_block_header :: "signed_block_header codec" where
  "c_signed_block_header =
     c_class (\<lambda>h. (block_header.truncate h, producer_signature h))
       (\<lambda>(h, s). block_header.extend h (signed_block_header.fields s)) 160
       (c_pair c_block_header (c_array 65))"

definition c_signed_block :: "signed_block codec" where
  "c_signed_block =
     c_class (\<lambda>b. (signed_block_header.truncate b, transactions b))
       (\<lambda>(h, t). signed_block_header.extend h (signed_block.fields t)) 184
       (c_pair c_signed_block_header (c_vector c_signed_transaction))"

definition header_digest :: "crypto \<Rightarrow> ('x) block_header_scheme \<Rightarrow> bytes" where
  "header_digest cr h = sha256 cr (packed c_block_header (block_header.truncate h))"

definition num_from_id :: "bytes \<Rightarrow> u32" where
  "num_from_id i = endian_reverse_u32 (hash_word 0 i)"

definition block_num :: "('x) block_header_scheme \<Rightarrow> u32" where
  "block_num h = endian_reverse_u32 (hash_word 0 (previous h)) + 1"

definition block_id :: "crypto \<Rightarrow> ('x) signed_block_header_scheme \<Rightarrow> bytes" where
  "block_id cr h =
     (let tmp = sha224 cr (packed c_signed_block_header (signed_block_header.truncate h));
          tmp = le_bytes 4 (unat (endian_reverse_u32 (block_num h))) @ drop 4 tmp
      in take 20 tmp)"

definition signee :: "crypto \<Rightarrow> ('x) signed_block_header_scheme \<Rightarrow> bytes result" where
  "signee cr h = recover cr (producer_signature h) (header_digest cr h)"

definition sign_header :: "crypto \<Rightarrow> bytes \<Rightarrow> ('x) signed_block_header_scheme \<Rightarrow> ('x) signed_block_header_scheme" where
  "sign_header cr pk h = h\<lparr>producer_signature := sign_compact cr pk (header_digest cr h)\<rparr>"

definition validate_signee :: "crypto \<Rightarrow> bytes \<Rightarrow> ('x) signed_block_header_scheme \<Rightarrow> bool result" where
  "validate_signee cr expected h = rbind (signee cr h) (\<lambda>k. Inr (k = expected))"

subsection \<open>The Merkle root\<close>

definition hash_pair :: "crypto \<Rightarrow> bytes \<Rightarrow> bytes \<Rightarrow> bytes" where
  "hash_pair cr x y = sha256 cr (packed (c_pair (c_array 32) (c_array 32)) (x, y))"

text \<open>One pass of the loop over the hashes left: pairs are hashed, an odd last one is kept.\<close>

fun merkle_pass :: "crypto \<Rightarrow> bytes list \<Rightarrow> bytes list" where
  "merkle_pass cr (x # y # ids) = hash_pair cr x y # merkle_pass cr ids"
| "merkle_pass cr ids = ids"

lemma length_merkle_pass: "length (merkle_pass cr ids) = (length ids + 1) div 2"
  by (induction cr ids rule: merkle_pass.induct) auto

function merkle_loop :: "crypto \<Rightarrow> bytes list \<Rightarrow> bytes list" where
  "merkle_loop cr ids = (if length ids > 1 then merkle_loop cr (merkle_pass cr ids) else ids)"
  by auto

termination by (relation "measure (\<lambda>(cr, ids). length ids)") (auto simp: length_merkle_pass)

declare merkle_loop.simps [simp del]

definition caculate_merkle_root :: "crypto \<Rightarrow> signed_block \<Rightarrow> bytes" where
  "caculate_merkle_root cr b =
     (if transactions b = [] then replicate 32 0
      else sha256 cr (hd (merkle_loop cr (map (merkle_digest cr) (transactions b)))))"

end
