(* ===== verification/Chain_Types_Facts.thy ===== *)
theory Chain_Types_Facts
  imports Chain_Types Base_Facts
begin

section \<open>Operations, transactions, blocks: lemmas\<close>

subsection \<open>Every block can be read back\<close>

text \<open>
  The values the encodings are for: fixed-size fields have their size, containers are within
  the allocation bound and maps are in key order.
\<close>

definition authority_ok :: "shared_authority \<Rightarrow> bool" where
  "authority_ok a \<longleftrightarrow> length (auth_key a) = 33"

fun operation_ok :: "operation \<Rightarrow> bool" where
  "operation_ok (Create_Account x) \<longleftrightarrow> authority_ok (posting x) \<and> authority_ok (owner x)"
| "operation_ok (Transfer x) \<longleftrightarrow> length (t_memo x) < max_alloc"
| "operation_ok (Transfers x) \<longleftrightarrow>
     om_wf (to_names x) \<and> sized 24 (\<lambda>_. True) (to_names x) \<and> length (ts_memo x) < max_alloc"

definition transaction_ok :: "('x) transaction_scheme \<Rightarrow> bool" where
  "transaction_ok t \<longleftrightarrow> sized 104 operation_ok (operations t)"

definition signed_transaction_ok :: "signed_transaction \<Rightarrow> bool" where
  "signed_transaction_ok t \<longleftrightarrow> transaction_ok t \<and> sized 65 (\<lambda>s. length s = 65) (signatures t)"

definition header_ok :: "('x) block_header_scheme \<Rightarrow> bool" where
  "header_ok h \<longleftrightarrow> length (transaction_merkle_root h) = 32 \<and> length (previous h) = 20"

definition signed_header_ok :: "('x) signed_block_header_scheme \<Rightarrow> bool" where
  "signed_header_ok h \<longleftrightarrow> header_ok h \<and> length (producer_signature h) = 65"

definition block_ok :: "signed_block \<Rightarrow> bool" where
  "block_ok b \<longleftrightarrow> signed_header_ok b \<and> sized 64 signed_transaction_ok (transactions b)"

lemma sized_mono: "sized n P xs \<Longrightarrow> (\<And>x. P x \<Longrightarrow> Q x) \<Longrightarrow> sized n Q xs"
  by (auto simp: sized_def list_all_iff)

lemma rt_asset: "round_trip (\<lambda>_. True) c_asset"
  unfolding c_asset_def
  by (rule rt_class [OF rt_pair [OF rt_word rt_word]]) simp_all

lemma rt_authority: "round_trip authority_ok c_authority"
  unfolding c_authority_def c_public_key_def
  by (rule rt_class [OF rt_pair [OF rt_array rt_word]]) (simp_all add: authority_ok_def)

lemma rt_create_account:
  "round_trip (\<lambda>x. authority_ok (posting x) \<and> authority_ok (owner x)) c_create_account"
  unfolding c_create_account_def
  by (rule rt_class [OF rt_pair [OF rt_word rt_pair [OF rt_word rt_pair [OF rt_authority rt_authority]]]])
     simp_all

lemma rt_transfer: "round_trip (\<lambda>x. length (t_memo x) < max_alloc) c_transfer"
  unfolding c_transfer_def
  by (rule rt_class [OF rt_pair [OF rt_word rt_pair [OF rt_word rt_pair [OF rt_asset rt_string]]]])
     simp_all

lemma rt_transfers: "round_trip (\<lambda>x. operation_ok (Transfers x)) c_transfers"
proof -
  have s: "c_sizeof (c_word 8 :: u64 codec) + c_sizeof c_asset = 24"
    by (simp add: c_word_def c_asset_def c_class_def)
  show ?thesis
    unfolding c_transfers_def
    by (rule rt_class [OF rt_pair [OF rt_word rt_pair [OF rt_map [OF rt_word rt_asset] rt_string]]])
       (auto simp: s sized_def list_all_iff)
qed

lemma rt_operation: "round_trip operation_ok c_operation"
  unfolding c_operation_def
proof (rule rt_variant)
  fix v rest
  assume ok: "operation_ok v"
  show "operation_which v < length operation_readers \<and> operation_which v < 2 ^ 32 \<and>
      (operation_readers ! operation_which v) (concat (operation_put v) @ rest) = (Inr v, rest)"
  proof (cases v)
    case (Create_Account x)
    with ok round_tripD [OF rt_create_account, of x rest] show ?thesis
      by (simp add: operation_readers_def bnd_def ret_def)
  next
    case (Transfer x)
    with ok round_tripD [OF rt_transfer, of x rest] show ?thesis
      by (simp add: operation_readers_def bnd_def ret_def)
  next
    case (Transfers x)
    with ok round_tripD [OF rt_transfers, of x rest] show ?thesis
      by (simp add: operation_readers_def bnd_def ret_def)
  qed
qed

lemma rt_transaction: "round_trip transaction_ok c_transaction"
proof -
  have s: "c_sizeof c_operation = 104" by (simp add: c_operation_def c_variant_def)
  show ?thesis
    unfolding c_transaction_def
    by (rule rt_class [OF rt_pair [OF rt_word rt_pair [OF rt_word rt_pair [OF rt_word
          rt_vector [OF rt_operation]]]]])
       (auto simp: s transaction_ok_def)
qed

lemma rt_signed_transaction: "round_trip signed_transaction_ok c_signed_transaction"
proof -
  have s: "c_sizeof (c_array 65) = 65" by (simp add: c_array_def)
  show ?thesis
    unfolding c_signed_transaction_def
    by (rule rt_class [OF rt_pair [OF rt_transaction rt_vector [OF rt_array]]])
       (auto simp: s signed_transaction_ok_def transaction_ok_def transaction.defs signed_transaction.defs)
qed

lemma rt_block_header: "round_trip header_ok c_block_header"
  unfolding c_block_header_def
  by (rule rt_class [OF rt_pair [OF rt_word rt_pair [OF rt_word rt_pair [OF rt_array rt_pair
        [OF rt_array rt_word]]]]])
     (auto simp: header_ok_def)

lemma rt_signed_block_header: "round_trip signed_header_ok c_signed_block_header"
  unfolding c_signed_block_header_def
  by (rule rt_class [OF rt_pair [OF rt_block_header rt_array]])
     (auto simp: signed_header_ok_def header_ok_def block_header.defs signed_block_header.defs)

lemma rt_signed_block: "round_trip block_ok c_signed_block"
proof -
  have s: "c_sizeof c_signed_transaction = 64"
    by (simp add: c_signed_transaction_def c_class_def)
  show ?thesis
    unfolding c_signed_block_def
    by (rule rt_class [OF rt_pair [OF rt_signed_block_header rt_vector [OF rt_signed_transaction]]])
       (auto simp: s block_ok_def signed_header_ok_def header_ok_def signed_block_header.defs
          signed_block.defs)
qed

interpretation signed_block: codec_law c_signed_block block_ok
  by unfold_locales (rule rt_signed_block)

interpretation signed_transaction: codec_law c_signed_transaction signed_transaction_ok
  by unfold_locales (rule rt_signed_transaction)

interpretation transaction: codec_law c_transaction transaction_ok
  by unfold_locales (rule rt_transaction)

subsection \<open>Block numbers and ids\<close>

lemma hash_word_le_bytes: "hash_word 0 (le_bytes 4 (unat (w :: u32)) @ rest) = w"
proof -
  have "unat w < 256 ^ 4" using unat_bound [of w] by simp
  then show ?thesis by (simp add: hash_word_def of_le_bytes)
qed

lemma num_of_block_id: "num_from_id (block_id cr h) = block_num h"
proof -
  have "take 20 (le_bytes 4 (unat (w :: u32)) @ t) = le_bytes 4 (unat w) @ take 16 t" for w t
    by simp
  then show ?thesis
    by (simp add: num_from_id_def block_id_def hash_word_le_bytes reverse_reverse_u32 Let_def
        del: take_append)
qed

lemma length_block_id: "length (sha224 cr x) = 28 \<Longrightarrow> \<forall>x. length (sha224 cr x) = 28 \<Longrightarrow> length (block_id cr h) = 20"
  by (simp add: block_id_def Let_def)

text \<open>The number of a block is one more than that of the block it names as previous.\<close>

lemma block_num_previous: "block_num h = num_from_id (previous h) + 1"
  by (simp add: block_num_def num_from_id_def)

subsection \<open>The Merkle root determines the transactions\<close>

text \<open>The inputs the loop hashes.\<close>

fun pass_inputs :: "bytes list \<Rightarrow> bytes set" where
  "pass_inputs (x # y # ids) = insert (packed (c_pair (c_array 32) (c_array 32)) (x, y)) (pass_inputs ids)"
| "pass_inputs ids = {}"

function loop_inputs :: "crypto \<Rightarrow> bytes list \<Rightarrow> bytes set" where
  "loop_inputs cr ids =
     (if length ids > 1 then pass_inputs ids \<union> loop_inputs cr (merkle_pass cr ids) else {})"
  by auto

termination by (relation "measure (\<lambda>(cr, ids). length ids)") (auto simp: length_merkle_pass)

declare loop_inputs.simps [simp del]

lemma packed_pair_inj:
  assumes "length x = 32" "length y = 32" "length x' = 32" "length y' = 32"
    and "packed (c_pair (c_array 32) (c_array 32)) (x, y) = packed (c_pair (c_array 32) (c_array 32)) (x', y')"
  shows "x = x' \<and> y = y'"
  using assms by (simp add: packed_def c_pair_def c_array_def)

lemma merkle_pass_inj:
  assumes "inj_on (sha256 cr) (pass_inputs xs \<union> pass_inputs ys)" and "length xs = length ys"
    and "\<forall>x \<in> set xs \<union> set ys. length x = 32" and "merkle_pass cr xs = merkle_pass cr ys"
  shows "xs = ys"
  using assms
proof (induction cr xs arbitrary: ys rule: merkle_pass.induct [case_names pair none one])
  case (pair cr a b xs)
  then obtain c d zs where ys: "ys = c # d # zs" by (cases ys; cases "tl ys") auto
  have h: "sha256 cr (packed (c_pair (c_array 32) (c_array 32)) (a, b)) =
      sha256 cr (packed (c_pair (c_array 32) (c_array 32)) (c, d))"
    and m: "merkle_pass cr xs = merkle_pass cr zs"
    using pair ys by (simp_all add: hash_pair_def)
  have "packed (c_pair (c_array 32) (c_array 32)) (a, b) = packed (c_pair (c_array 32) (c_array 32)) (c, d)"
    by (rule inj_onD [OF pair(2) h]) (simp_all add: ys)
  then have "a = c \<and> b = d" using pair(4) ys by (intro packed_pair_inj) auto
  moreover have "xs = zs"
  proof (rule pair(1))
    show "inj_on (sha256 cr) (pass_inputs xs \<union> pass_inputs zs)"
      by (rule inj_on_subset [OF pair(2)]) (use ys in auto)
  qed (use pair ys m in auto)
  ultimately show ?case using ys by simp
next
  case (none cr)
  then show ?case by simp
next
  case (one cr x)
  then obtain y where "ys = [y]" by (cases ys) auto
  with one show ?case by simp
qed

lemma merkle_pass_hashes:
  assumes "\<forall>x. length (sha256 cr x) = 32"
  shows "\<forall>x \<in> set xs. length x = 32 \<Longrightarrow> \<forall>x \<in> set (merkle_pass cr xs). length x = 32"
  using assms by (induction cr xs rule: merkle_pass.induct) (auto simp: hash_pair_def)

lemma loop_inputs_step:
  "length xs > 1 \<Longrightarrow> loop_inputs cr xs = pass_inputs xs \<union> loop_inputs cr (merkle_pass cr xs)"
  by (subst loop_inputs.simps) simp

lemma merkle_loop_step:
  "length xs > 1 \<Longrightarrow> merkle_loop cr xs = merkle_loop cr (merkle_pass cr xs)"
  by (subst merkle_loop.simps) simp

lemma merkle_loop_stop: "\<not> length xs > 1 \<Longrightarrow> merkle_loop cr xs = xs"
  by (subst merkle_loop.simps) simp

lemma merkle_loop_inj:
  assumes len: "\<forall>x. length (sha256 cr x) = 32"
  shows "inj_on (sha256 cr) (loop_inputs cr xs \<union> loop_inputs cr ys) \<Longrightarrow> length xs = length ys \<Longrightarrow>
    \<forall>x \<in> set xs \<union> set ys. length x = 32 \<Longrightarrow> merkle_loop cr xs = merkle_loop cr ys \<Longrightarrow> xs = ys"
proof (induction "length xs" arbitrary: xs ys rule: less_induct)
  case less
  show ?case
  proof (cases "length xs > 1")
    case False
    then have x: "merkle_loop cr xs = xs" and y: "merkle_loop cr ys = ys"
      using less.prems(2) by (simp_all add: merkle_loop_stop)
    note x [symmetric]
    also note less.prems(4)
    also note y
    finally show ?thesis .
  next
    case True
    then have ys: "length ys > 1" using less.prems by simp
    let ?p = "merkle_pass cr"
    note st = loop_inputs_step [OF True, of cr] loop_inputs_step [OF ys, of cr]
    have "?p xs = ?p ys"
    proof (rule less.hyps)
      show "length (?p xs) < length xs" using True by (simp add: length_merkle_pass)
      show "inj_on (sha256 cr) (loop_inputs cr (?p xs) \<union> loop_inputs cr (?p ys))"
        by (rule inj_on_subset [OF less.prems(1)]) (auto simp: st)
      show "length (?p xs) = length (?p ys)" using less.prems(2) by (simp add: length_merkle_pass)
      have "\<forall>x \<in> set (?p xs). length x = 32" "\<forall>x \<in> set (?p ys). length x = 32"
        using less.prems(3) by (intro merkle_pass_hashes [OF len]; simp)+
      then show "\<forall>x \<in> set (?p xs) \<union> set (?p ys). length x = 32" by blast
      show "merkle_loop cr (?p xs) = merkle_loop cr (?p ys)"
        using less.prems(4) merkle_loop_step [OF True, of cr] merkle_loop_step [OF ys, of cr] by simp
    qed
    moreover have "inj_on (sha256 cr) (pass_inputs xs \<union> pass_inputs ys)"
      by (rule inj_on_subset [OF less.prems(1)]) (auto simp: st)
    ultimately show ?thesis using less.prems(2,3) merkle_pass_inj by blast
  qed
qed

lemma length_merkle_loop: "ids \<noteq> [] \<Longrightarrow> length (merkle_loop cr ids) = 1"
proof (induction cr ids rule: merkle_loop.induct)
  case (1 cr ids)
  show ?case
  proof (cases "length ids > 1")
    case True
    then have "length (merkle_pass cr ids) \<noteq> 0" by (simp add: length_merkle_pass)
    then have "merkle_pass cr ids \<noteq> []" by auto
    with 1 True show ?thesis by (subst merkle_loop.simps) simp
  next
    case False
    with 1 show ?thesis by (subst merkle_loop.simps) (cases ids, auto)
  qed
qed

text \<open>Everything the computation of a root hashes: transactions, pairs, and the last hash.\<close>

definition root_inputs :: "crypto \<Rightarrow> signed_block \<Rightarrow> bytes set" where
  "root_inputs cr b =
     (let ids = map (merkle_digest cr) (transactions b)
      in set (map (packed c_signed_transaction) (transactions b)) \<union> loop_inputs cr ids \<union>
         set (merkle_loop cr ids))"

lemma merkle_root_binds:
  assumes len: "\<forall>x. length (sha256 cr x) = 32"
    and inj: "inj_on (sha256 cr) (root_inputs cr a \<union> root_inputs cr b)"
    and n: "length (transactions a) = length (transactions b)"
    and ok: "\<forall>t \<in> set (transactions a) \<union> set (transactions b). signed_transaction_ok t"
    and root: "caculate_merkle_root cr a = caculate_merkle_root cr b"
  shows "transactions a = transactions b"
proof (cases "transactions a = []")
  case True
  with n show ?thesis by simp
next
  case False
  let ?da = "map (merkle_digest cr) (transactions a)" and ?db = "map (merkle_digest cr) (transactions b)"
  have ne: "?da \<noteq> []" "?db \<noteq> []" using False n by auto
  obtain x y where xy: "merkle_loop cr ?da = [x]" "merkle_loop cr ?db = [y]"
    using length_merkle_loop [OF ne(1), of cr] length_merkle_loop [OF ne(2), of cr]
    by (auto simp: length_Suc_conv)
  have "sha256 cr x = sha256 cr y" using root False ne xy by (simp add: caculate_merkle_root_def)
  then have "x = y" by (rule inj_onD [OF inj]) (simp_all add: root_inputs_def xy)
  have "?da = ?db"
  proof (rule merkle_loop_inj [OF len])
    show "inj_on (sha256 cr) (loop_inputs cr ?da \<union> loop_inputs cr ?db)"
      by (rule inj_on_subset [OF inj]) (auto simp: root_inputs_def Let_def)
    show "\<forall>x \<in> set ?da \<union> set ?db. length x = 32" using len by (auto simp: merkle_digest_def)
  qed (simp_all add: n xy \<open>x = y\<close>)
  then show ?thesis
  proof (rule map_inj_on)
    show "inj_on (merkle_digest cr) (set (transactions a) \<union> set (transactions b))"
    proof (rule inj_onI)
      fix s t
      assume st: "s \<in> set (transactions a) \<union> set (transactions b)"
        "t \<in> set (transactions a) \<union> set (transactions b)" and e: "merkle_digest cr s = merkle_digest cr t"
      have "packed c_signed_transaction s = packed c_signed_transaction t"
        using inj_onD [OF inj e [unfolded merkle_digest_def]] st
        by (auto simp: root_inputs_def Let_def)
      then show "s = t" using ok st by (intro signed_transaction.packed_inj) auto
    qed
  qed
qed

subsection \<open>Who must sign\<close>

lemma all_r_iff: "all_r f xs = Inr () \<longleftrightarrow> (\<forall>x \<in> set xs. f x = Inr ())"
  by (induction xs) (auto simp: rbind_Inr_iff)

lemma set_insert_name [simp]: "set (insert_name n ns) = insert n (set ns)"
  by (auto simp: insert_name_def set_insort_key)

lemma visit_names:
  "\<exists>ns. fold visit_sign_names ops (ms, own) = (ns, own) \<and> set ns = set ms \<union> sign_name ` set ops"
proof (induction ops arbitrary: ms)
  case Nil
  then show ?case by simp
next
  case (Cons op ops)
  from Cons [of "insert_name (sign_name op) ms"] show ?case by (auto simp: visit_sign_names_def)
qed

lemma fst_mark_used [simp]: "map fst (mark_used pk used) = map fst used"
  by (auto simp: mark_used_def)

definition mark_where :: "(bytes \<Rightarrow> bool) \<Rightarrow> used_keys \<Rightarrow> used_keys" where
  "mark_where S used = map (\<lambda>(k, b). (k, b \<or> S k)) used"

lemma mark_where_used: "mark_where S (mark_used pk used) = mark_where (\<lambda>k. k = pk \<or> S k) used"
  by (auto simp: mark_where_def mark_used_def)

lemma require_keys_iff:
  "require_keys gp ns used = Inr used' \<longleftrightarrow>
     (\<forall>n \<in> set ns. \<exists>k. gp n = Inr k \<and> k \<in> set (map fst used)) \<and>
     used' = mark_where (\<lambda>k. \<exists>n \<in> set ns. gp n = Inr k) used"
proof (induction ns arbitrary: used)
  case Nil
  then show ?case by (auto simp: mark_where_def)
next
  case (Cons n ns)
  show ?case
  proof (cases "gp n")
    case (Inl e)
    then show ?thesis by simp
  next
    case (Inr k)
    have "mark_where (\<lambda>x. \<exists>m \<in> set (n # ns). gp m = Inr x) used =
        mark_where (\<lambda>x. \<exists>m \<in> set ns. gp m = Inr x) (mark_used k used)"
      unfolding mark_where_used using Inr by (auto simp: mark_where_def)
    then show ?thesis
      using Cons [of "mark_used k used"] Inr unfolding fst_mark_used
      by (simp add: rbind_Inr_iff del: bex_simps)
  qed
qed

lemma verify_authority_iff:
  "verify_authority cr gp go chain_id t = Inr () \<longleftrightarrow>
     (\<exists>keys. get_signature_keys cr chain_id t = Inr keys \<and>
        (\<forall>op \<in> set (operations t). \<exists>k \<in> set keys. gp (sign_name op) = Inr k) \<and>
        (\<forall>k \<in> set keys. \<exists>op \<in> set (operations t). gp (sign_name op) = Inr k))"
proof -
  obtain ns where ns: "fold visit_sign_names (operations t) ([], []) = (ns, [])"
    "set ns = sign_name ` set (operations t)"
    using visit_names [of "operations t" "[]" "[]"] by auto
  have "verify_authority cr gp go chain_id t = Inr () \<longleftrightarrow>
      (\<exists>keys used. get_signature_keys cr chain_id t = Inr keys \<and>
         require_keys gp ns (map (\<lambda>p. (p, False)) keys) = Inr used \<and> (\<forall>kb \<in> set used. snd kb))"
    by (auto simp: verify_authority_def ns rbind_Inr_iff all_r_iff)
  also have "\<dots> \<longleftrightarrow> (\<exists>keys. get_signature_keys cr chain_id t = Inr keys \<and>
        (\<forall>n \<in> set ns. \<exists>k \<in> set keys. gp n = Inr k) \<and> (\<forall>k \<in> set keys. \<exists>n \<in> set ns. gp n = Inr k))"
    unfolding require_keys_iff by (auto simp: mark_where_def comp_def) blast+
  finally show ?thesis unfolding ns by auto
qed

lemma signature_keys_set:
  "signature_keys_from cr d ss keys = Inr ks \<longleftrightarrow>
     (\<forall>s \<in> set ss. \<exists>k. recover cr s d = Inr k) \<and>
     ks = fold List.insert (map (\<lambda>s. case recover cr s d of Inr k \<Rightarrow> k | Inl _ \<Rightarrow> []) ss) keys"
  by (induction ss arbitrary: keys) (auto simp: rbind_Inr_iff)

end
