(* ===== verification/Chain_Types_Props.thy ===== *)
theory Chain_Types_Props
  imports Chain_Types_Facts Base_Props
begin

section \<open>Operations, transactions, blocks: properties\<close>

text \<open>Claims about transactions and blocks, and a small transaction they are applied to.\<close>

definition demo_transfer :: operation where
  "demo_transfer = Transfer \<lparr>t_from = 1, t_to = 2, t_amount = \<lparr>amount = 5, symbol = news_symbol\<rparr>, t_memo = []\<rparr>"

definition demo_trx :: signed_transaction where
  "demo_trx = \<lparr>ref_block_num = 0, ref_block_prefix = 0, expiration = 100,
               operations = [demo_transfer], signatures = [replicate 65 1]\<rparr>"

definition demo_block :: signed_block where
  "demo_block = \<lparr>timestamp = 9, producer = 1, transaction_merkle_root = replicate 32 0,
                 previous = replicate 20 0, version_num = 1, producer_signature = replicate 65 3,
                 transactions = [demo_trx]\<rparr>"

lemma demo_trx_ok: "signed_transaction_ok demo_trx"
  by (simp add: signed_transaction_ok_def transaction_ok_def sized_def demo_trx_def
      demo_transfer_def max_alloc_def)

lemma demo_block_ok: "block_ok demo_block"
  by (simp add: block_ok_def signed_header_ok_def header_ok_def sized_def demo_block_def
      demo_trx_ok max_alloc_def)

text \<open>
  C40: A block survives its encoding. Every block whose fixed-size fields have their size and whose
  containers are within the allocation bounds is read back from its bytes, followed by anything,
  with all its transactions, operations and memos; so no block is encoded as the beginning of
  another one.
\<close>

theorem block_round_trip:
  assumes "block_ok b"
  shows "c_get c_signed_block (packed c_signed_block b @ rest) = (Inr b, rest)"
  using rt_signed_block assms by (simp add: round_trip_def)

theorem block_round_trip_witness:
  "c_get c_signed_block (packed c_signed_block demo_block @ [1, 2]) = (Inr demo_block, [1, 2])"
  by (rule block_round_trip [OF demo_block_ok])

text \<open>
  The id of a block carries its number: whatever the hash, the number read from the id is
  the block's number, and that is one more (modulo \<open>2 ^ 32\<close>) than the number in the id of the
  previous block it names.
\<close>

theorem id_carries_number:
  "num_from_id (block_id cr h) = block_num h \<and> block_num h = num_from_id (previous h) + 1"
  using num_of_block_id block_num_previous by blast

text \<open>
  The Merkle root commits to the transactions. Two blocks with as many transactions and
  the same root have the same transactions, signatures included, in the same order, unless two
  of the byte strings hashed while computing the two roots have the same hash.
\<close>

theorem merkle_root_commits:
  assumes "\<forall>x. length (sha256 cr x) = 32"
    and "inj_on (sha256 cr) (root_inputs cr a \<union> root_inputs cr b)"
    and "length (transactions a) = length (transactions b)"
    and "\<forall>t \<in> set (transactions a) \<union> set (transactions b). signed_transaction_ok t"
    and "caculate_merkle_root cr a = caculate_merkle_root cr b"
  shows "transactions a = transactions b"
  by (rule merkle_root_binds [OF assms])

lemma demo_root_inputs:
  "root_inputs demo_crypto demo_block = {packed c_signed_transaction demo_trx, merkle_digest demo_crypto demo_trx}"
  by (simp add: root_inputs_def demo_block_def loop_inputs.simps merkle_loop.simps Let_def)

lemma demo_packed: "packed c_signed_transaction demo_trx \<noteq> []"
  by (simp add: packed_def c_signed_transaction_def c_class_def c_pair_def c_transaction_def
      c_word_def numeral_2_eq_2)

theorem merkle_root_commits_witness:
  "transactions demo_block = transactions (demo_block\<lparr>timestamp := 12\<rparr>)"
proof (rule merkle_root_commits [of demo_crypto])
  have r: "root_inputs demo_crypto (demo_block\<lparr>timestamp := 12\<rparr>) = root_inputs demo_crypto demo_block"
    by (simp add: root_inputs_def)
  let ?p = "packed c_signed_transaction demo_trx"
  have "sha256 demo_crypto ?p \<noteq> sha256 demo_crypto (sha256 demo_crypto ?p)"
  proof
    assume "sha256 demo_crypto ?p = sha256 demo_crypto (sha256 demo_crypto ?p)"
    from arg_cong [OF this, of hd] show False
      unfolding demo_sha256(1) by (simp add: demo_packed demo_sha256)
  qed
  then show "inj_on (sha256 demo_crypto)
      (root_inputs demo_crypto demo_block \<union> root_inputs demo_crypto (demo_block\<lparr>timestamp := 12\<rparr>))"
    by (auto simp: r demo_root_inputs merkle_digest_def inj_on_def)
qed (use demo_crypto_ok demo_trx_ok in \<open>auto simp: crypto_ok_def demo_block_def caculate_merkle_root_def\<close>)

text \<open>
  C13: Who must sign. \<open>verify_authority\<close> accepts a transaction exactly when every signature
  recovers to a key, the posting key of every account an operation names as its signer is among
  the recovered keys, and each recovered key is needed by some operation. The owner keys and the
  chain id play no part.
\<close>

theorem verify_authority_exact:
  "verify_authority cr gp go chain_id t = Inr () \<longleftrightarrow>
     (\<exists>keys. get_signature_keys cr chain_id t = Inr keys \<and>
        (\<forall>op \<in> set (operations t). \<exists>k \<in> set keys. gp (sign_name op) = Inr k) \<and>
        (\<forall>k \<in> set keys. \<exists>op \<in> set (operations t). gp (sign_name op) = Inr k))"
  by (rule verify_authority_iff)

theorem verify_authority_exact_witness:
  "verify_authority demo_crypto (\<lambda>_. Inr (replicate 33 1)) (\<lambda>_. Inl Out_Of_Range) [] demo_trx = Inr ()"
  unfolding verify_authority_exact
  by (auto simp: get_signature_keys_def demo_trx_def demo_crypto_def)

text \<open>
  A transaction passes \<open>validate\<close> exactly when it has an operation and each is valid: a
  transfer moves a positive amount to another account; a batch has at least one target, none of
  them the sender, each with a positive amount; creating an account is always valid.
\<close>

fun valid_operation :: "operation \<Rightarrow> bool" where
  "valid_operation (Create_Account x) \<longleftrightarrow> True"
| "valid_operation (Transfer x) \<longleftrightarrow> t_from x \<noteq> t_to x \<and> 0 < sint (amount (t_amount x))"
| "valid_operation (Transfers x) \<longleftrightarrow>
     to_names x \<noteq> [] \<and> (\<forall>(n, a) \<in> set (to_names x). n \<noteq> ts_from x \<and> 0 < sint (amount a))"

lemma validate_targets_iff:
  "validate_targets from m = Inr () \<longleftrightarrow> (\<forall>(n, a) \<in> set m. n \<noteq> from \<and> 0 < sint (amount a))"
  by (induction m) (auto simp: rbind_Inr_iff)

lemma validate_operation_iff: "validate_operation op = Inr () \<longleftrightarrow> valid_operation op"
  by (cases op)
     (auto simp: validate_operation_def validate_create_def validate_transfer_def
        validate_transfers_def validate_targets_iff rbind_Inr_iff)

theorem validate_exact:
  "validate_transaction t = Inr () \<longleftrightarrow> operations t \<noteq> [] \<and> list_all valid_operation (operations t)"
  by (auto simp: validate_transaction_def rbind_Inr_iff all_r_iff validate_operation_iff list_all_iff)

text \<open>A signature does not depend on the chain: a transaction of one chain is valid on another.\<close>

lemma sig_digest_ignores_chain: "sig_digest cr c t = sig_digest cr d t"
  by (simp add: sig_digest_def)

end
