(* ===== verification/Merkle_Props.thy ===== *)
theory Merkle_Props
  imports Chain_Types_Facts
begin

section \<open>The Merkle root: the tree it computes\<close>

text \<open>
  The passes over the array of hashes in \<open>caculate_merkle_root\<close>, compared with the Merkle tree
  defined from the top: the left subtree holds the largest power of two of leaves that is less
  than their number.
\<close>

fun left_size :: "nat \<Rightarrow> nat" where
  "left_size n = (if n \<le> 2 then 1 else 2 * left_size ((n + 1) div 2))"

declare left_size.simps [simp del]

lemma left_size_bounds: "2 \<le> n \<Longrightarrow> 1 \<le> left_size n \<and> left_size n < n"
proof (induction n rule: left_size.induct)
  case (1 n)
  show ?case
  proof (cases "n \<le> 2")
    case True
    with 1 show ?thesis by (simp add: left_size.simps)
  next
    case False
    then have "2 \<le> (n + 1) div 2" by simp
    with 1 False have "1 \<le> left_size ((n + 1) div 2)" "left_size ((n + 1) div 2) < (n + 1) div 2" by auto
    with False show ?thesis by (subst (1 2) left_size.simps) auto
  qed
qed

text \<open>It is the largest power of two below \<open>n\<close>.\<close>

lemma left_size_power: "(\<exists>k. left_size n = 2 ^ k) \<and> n \<le> 2 * left_size n"
proof (induction n rule: left_size.induct)
  case (1 n)
  show ?case
  proof (cases "n \<le> 2")
    case True
    then show ?thesis by (auto simp: left_size.simps intro: exI [of _ 0])
  next
    case False
    with 1 obtain k where "left_size ((n + 1) div 2) = 2 ^ k" "(n + 1) div 2 \<le> 2 * left_size ((n + 1) div 2)" by auto
    with False show ?thesis by (subst (1 2) left_size.simps) (auto intro: exI [of _ "Suc k"])
  qed
qed

function merkle_tree :: "crypto \<Rightarrow> bytes list \<Rightarrow> bytes" where
  "merkle_tree cr ids =
     (if length ids < 2 then hd ids
      else hash_pair cr (merkle_tree cr (take (left_size (length ids)) ids))
                        (merkle_tree cr (drop (left_size (length ids)) ids)))"
  by pat_completeness auto

termination
proof (relation "measure (\<lambda>(cr, ids). length ids)")
  show "wf (measure (\<lambda>(cr :: crypto, ids :: bytes list). length ids))" by simp
next
  fix cr :: crypto and ids :: "bytes list"
  assume "\<not> length ids < 2"
  then show "((cr, take (left_size (length ids)) ids), (cr, ids)) \<in> measure (\<lambda>(cr, ids). length ids)"
    using left_size_bounds [of "length ids"] by simp
next
  fix cr :: crypto and ids :: "bytes list"
  assume "\<not> length ids < 2"
  then have "0 < left_size (length ids)" "0 < length ids"
    using left_size_bounds [of "length ids"] by auto
  then show "((cr, drop (left_size (length ids)) ids), (cr, ids)) \<in> measure (\<lambda>(cr, ids). length ids)"
    by (simp add: diff_less)
qed

declare merkle_tree.simps [simp del]

lemma tree_leaf: "length ids < 2 \<Longrightarrow> merkle_tree cr ids = hd ids"
  by (simp add: merkle_tree.simps)

lemma tree_node:
  "2 \<le> length ids \<Longrightarrow> merkle_tree cr ids =
     hash_pair cr (merkle_tree cr (take (left_size (length ids)) ids))
                  (merkle_tree cr (drop (left_size (length ids)) ids))"
  by (subst merkle_tree.simps) simp

lemma merkle_pass_append: "even (length xs) \<Longrightarrow> merkle_pass cr (xs @ ys) = merkle_pass cr xs @ merkle_pass cr ys"
  by (induction cr xs rule: merkle_pass.induct) auto

lemma merkle_pass_parts:
  assumes "2 * k \<le> length xs"
  shows "merkle_pass cr (take (2 * k) xs) = take k (merkle_pass cr xs)"
    "merkle_pass cr (drop (2 * k) xs) = drop k (merkle_pass cr xs)"
proof -
  have "merkle_pass cr xs = merkle_pass cr (take (2 * k) xs) @ merkle_pass cr (drop (2 * k) xs)"
    using merkle_pass_append [of "take (2 * k) xs" cr "drop (2 * k) xs"] assms by simp
  moreover have "length (merkle_pass cr (take (2 * k) xs)) = k" using assms by (simp add: length_merkle_pass)
  ultimately show "merkle_pass cr (take (2 * k) xs) = take k (merkle_pass cr xs)"
    "merkle_pass cr (drop (2 * k) xs) = drop k (merkle_pass cr xs)" by simp_all
qed

text \<open>One pass does not change the root of the tree.\<close>

lemma tree_pass: "2 \<le> length xs \<Longrightarrow> merkle_tree cr (merkle_pass cr xs) = merkle_tree cr xs"
proof (induction xs rule: length_induct)
  case (1 xs)
  show ?case
  proof (cases "length xs = 2")
    case True
    then obtain x y where "xs = [x, y]" by (auto simp: numeral_2_eq_2 length_Suc_conv)
    moreover have "left_size (length [x, y]) = 1" by (subst left_size.simps) simp
    ultimately show ?thesis using tree_node [of "[x, y]" cr] by (simp add: tree_leaf)
  next
    case False
    let ?n = "length xs" and ?p = "merkle_pass cr xs"
    let ?m = "(?n + 1) div 2"
    have n: "2 < ?n" using 1 False by simp
    then have l: "left_size ?n = 2 * left_size ?m" by (subst left_size.simps) simp
    have b: "1 \<le> left_size ?m" "left_size ?m < ?m" "left_size ?n < ?n"
      using left_size_bounds [of ?m] left_size_bounds [of ?n] n by auto
    have le: "2 * left_size ?m \<le> ?n" using b(3) l by simp
    have parts: "take (left_size ?m) ?p = merkle_pass cr (take (left_size ?n) xs)"
      "drop (left_size ?m) ?p = merkle_pass cr (drop (left_size ?n) xs)"
      using merkle_pass_parts [OF le, of cr] unfolding l by simp_all
    have left: "merkle_tree cr (merkle_pass cr (take (left_size ?n) xs)) = merkle_tree cr (take (left_size ?n) xs)"
      using 1 b(1,3) l by simp
    have right: "merkle_tree cr (merkle_pass cr (drop (left_size ?n) xs)) = merkle_tree cr (drop (left_size ?n) xs)"
    proof (cases "length (drop (left_size ?n) xs) = 1")
      case True
      then obtain z where "drop (left_size ?n) xs = [z]"
        by (cases "drop (left_size ?n) xs") (simp_all del: length_drop)
      then show ?thesis by simp
    next
      case False
      with 1 b(1,3) l show ?thesis by simp
    qed
    have "length ?p = ?m" by (simp add: length_merkle_pass)
    with n have "merkle_tree cr ?p = hash_pair cr (merkle_tree cr (take (left_size ?m) ?p)) (merkle_tree cr (drop (left_size ?m) ?p))"
      using tree_node [of ?p cr] by simp
    then show ?thesis unfolding parts left right using tree_node [of xs cr] n by simp
  qed
qed

lemma loop_tree: "ids \<noteq> [] \<Longrightarrow> merkle_loop cr ids = [merkle_tree cr ids]"
proof (induction cr ids rule: merkle_loop.induct)
  case (1 cr ids)
  show ?case
  proof (cases "length ids > 1")
    case True
    then have "length (merkle_pass cr ids) \<noteq> 0" by (simp add: length_merkle_pass)
    then have "merkle_pass cr ids \<noteq> []" by auto
    with 1 True tree_pass [of ids cr] show ?thesis by (simp add: merkle_loop_step)
  next
    case False
    with 1 show ?thesis by (cases ids) (auto simp: merkle_loop_stop tree_leaf)
  qed
qed

text \<open>
  C38: The loop that pairs the hashes in place, carrying an odd last one to the next pass, computes
  the Merkle tree: its result is the hash of the root of the tree whose left subtree holds the
  largest power of two of leaves, and the zero digest for a block without transactions.
\<close>

theorem merkle_root_tree:
  "caculate_merkle_root cr b =
     (if transactions b = [] then replicate 32 0
      else sha256 cr (merkle_tree cr (map (merkle_digest cr) (transactions b))))"
  by (simp add: caculate_merkle_root_def loop_tree)

end
