(* ===== verification/Fork_DB.thy ===== *)
theory Fork_DB
  imports Chain_Types
begin

section \<open>The fork database\<close>

text \<open>
  \<open>libraries/chain/src/chain/fork_database.cpp\<close>. An \<open>item_ptr\<close> is the address of a
  \<open>fork_item\<close> in a store that only grows; the two \<open>multi_index\<close> containers are lists of
  addresses in insertion order, unique by block id, which is also the order in which elements of
  one number are found. \<open>prev\<close> is a weak pointer: it can be locked as long as some container,
  the head or a local variable of the caller (\<open>locals\<close>) holds the item. A walk along \<open>prev\<close>
  is given as many steps as there are items, which the invariant shows to be enough.
\<close>

record fork_item =
  prev :: "nat option"
  num :: u32
  invalid :: bool
  item_id :: bytes
  item_data :: signed_block

record fork_database =
  store :: "fork_item list"
  links :: "nat list"
  unlinked_index :: "nat list"
  fork_head :: "nat option"
  max_size :: u32

definition empty_fork_db :: fork_database where
  "empty_fork_db = \<lparr>store = [], links = [], unlinked_index = [], fork_head = None, max_size = 1024\<rparr>"

abbreviation item_at :: "fork_database \<Rightarrow> nat \<Rightarrow> fork_item" where
  "item_at f a \<equiv> store f ! a"

definition previous_id :: "fork_item \<Rightarrow> bytes" where
  "previous_id i = previous (item_data i)"

subsection \<open>Pointers and containers\<close>

definition make_item :: "crypto \<Rightarrow> signed_block \<Rightarrow> fork_item" where
  "make_item cr b =
     \<lparr>prev = None, num = block_num b, invalid = False, item_id = block_id cr b, item_data = b\<rparr>"

definition alive :: "nat list \<Rightarrow> fork_database \<Rightarrow> nat \<Rightarrow> bool" where
  "alive locals f a \<longleftrightarrow>
     a \<in> set (links f) \<or> a \<in> set (unlinked_index f) \<or> fork_head f = Some a \<or> a \<in> set locals"

definition lock_prev :: "nat list \<Rightarrow> fork_database \<Rightarrow> nat \<Rightarrow> nat option" where
  "lock_prev locals f a =
     (case prev (item_at f a) of
        None \<Rightarrow> None
      | Some p \<Rightarrow> if alive locals f p then Some p else None)"

definition find_id :: "bytes \<Rightarrow> fork_database \<Rightarrow> nat list \<Rightarrow> nat option" where
  "find_id i f as = find (\<lambda>a. item_id (item_at f a) = i) as"

definition insert_item :: "nat \<Rightarrow> fork_database \<Rightarrow> fork_database" where
  "insert_item a f =
     (if find_id (item_id (item_at f a)) f (links f) = None then f\<lparr>links := links f @ [a]\<rparr> else f)"

definition new_item :: "crypto \<Rightarrow> signed_block \<Rightarrow> fork_database \<Rightarrow> nat \<times> fork_database" where
  "new_item cr b f = (length (store f), f\<lparr>store := store f @ [make_item cr b]\<rparr>)"

subsection \<open>Operations\<close>

definition fork_reset :: "fork_database \<Rightarrow> fork_database" where
  "fork_reset f = f\<lparr>fork_head := None, links := []\<rparr>"

definition fork_pop_block :: "nat list \<Rightarrow> (fork_database, unit) sx" where
  "fork_pop_block locals f =
     (case fork_head f of
        None \<Rightarrow> (Inl Fc_Assert, f)
      | Some h \<Rightarrow>
          (case lock_prev locals f h of
             None \<Rightarrow> (Inl Fc_Assert, f)
           | Some p \<Rightarrow> (Inr (), f\<lparr>fork_head := Some p\<rparr>)))"

definition start_block :: "crypto \<Rightarrow> signed_block \<Rightarrow> fork_database \<Rightarrow> fork_database" where
  "start_block cr b f =
     (case new_item cr b f of (a, f) \<Rightarrow> (insert_item a f)\<lparr>fork_head := Some a\<rparr>)"

definition zero_id :: bytes where
  "zero_id = replicate 20 0"

text \<open>The oldest number still accepted: \<open>max(0, head->num - max_size)\<close> in 64 bits.\<close>

definition oldest :: "fork_database \<Rightarrow> nat \<Rightarrow> int" where
  "oldest f h = max 0 (int (unat (num (item_at f h))) - int (unat (max_size f)))"

definition set_prev :: "nat \<Rightarrow> nat \<Rightarrow> fork_database \<Rightarrow> fork_database" where
  "set_prev a p f = f\<lparr>store := (store f)[a := (item_at f a)\<lparr>prev := Some p\<rparr>]\<rparr>"

definition higher :: "fork_database \<Rightarrow> nat \<Rightarrow> bool" where
  "higher f a \<longleftrightarrow>
     (case fork_head f of None \<Rightarrow> True | Some h \<Rightarrow> num (item_at f a) > num (item_at f h))"

definition link_item :: "nat \<Rightarrow> (fork_database, unit) sx" where
  "link_item a f =
     (if fork_head f \<noteq> None \<and> previous_id (item_at f a) \<noteq> zero_id
      then (case find_id (previous_id (item_at f a)) f (links f) of
              None \<Rightarrow> (Inl Unlinkable_Block, f)
            | Some p \<Rightarrow>
                if invalid (item_at f p) then (Inl Fc_Assert, f)
                else (Inr (), set_prev a p f))
      else (Inr (), f))"

definition push_item :: "nat \<Rightarrow> (fork_database, unit) sx" where
  "push_item a f =
     (case fork_head f of
        Some h \<Rightarrow>
          if int (unat (num (item_at f a))) > oldest f h then
            seq (link_item a)
              (update (\<lambda>f. let g = insert_item a f
                            in if higher g a then g\<lparr>fork_head := Some a\<rparr> else g)) f
          else (Inl Fc_Assert, f)
      | None \<Rightarrow>
          seq (link_item a)
            (update (\<lambda>f. let g = insert_item a f
                          in if higher g a then g\<lparr>fork_head := Some a\<rparr> else g)) f)"

text \<open>
  The handler of an unlinkable block logs and rethrows; the insertion into the unlinked cache
  after its \<^theory_text>\<open>throw\<close> is never reached.
\<close>

definition fork_push_block :: "crypto \<Rightarrow> signed_block \<Rightarrow> (fork_database, nat option) sx" where
  "fork_push_block cr b f =
     (case new_item cr b f of (a, f) \<Rightarrow> seq (push_item a) (gets fork_head) f)"

definition set_max_size :: "u32 \<Rightarrow> fork_database \<Rightarrow> fork_database" where
  "set_max_size s f =
     (let f = f\<lparr>max_size := s\<rparr>
      in case fork_head f of
           None \<Rightarrow> f
         | Some h \<Rightarrow>
             (let keep = (\<lambda>a. \<not> int (unat (num (item_at f a))) < oldest f h)
              in f\<lparr>links := filter keep (links f), unlinked_index := filter keep (unlinked_index f)\<rparr>))"

definition is_known_fork_block :: "bytes \<Rightarrow> fork_database \<Rightarrow> bool" where
  "is_known_fork_block i f \<longleftrightarrow>
     find_id i f (links f) \<noteq> None \<or> find_id i f (unlinked_index f) \<noteq> None"

definition fetch_block :: "bytes \<Rightarrow> fork_database \<Rightarrow> nat option" where
  "fetch_block i f =
     (case find_id i f (links f) of Some a \<Rightarrow> Some a | None \<Rightarrow> find_id i f (unlinked_index f))"

definition fetch_block_by_number :: "u32 \<Rightarrow> fork_database \<Rightarrow> nat list" where
  "fetch_block_by_number n f = filter (\<lambda>a. num (item_at f a) = n) (links f)"

text \<open>The three loops of \<open>fetch_branch_from\<close>; a branch is the list of items walked over.\<close>

fun walk_down :: "nat \<Rightarrow> nat list \<Rightarrow> fork_database \<Rightarrow> u32 \<Rightarrow> nat \<Rightarrow> nat list \<Rightarrow> (nat \<times> nat list) result" where
  "walk_down fuel locals f n a branch =
     (if block_num (item_data (item_at f a)) > n
      then (case fuel of
              0 \<Rightarrow> Inl Diverged
            | Suc k \<Rightarrow>
                (case lock_prev locals f a of
                   None \<Rightarrow> Inl Fc_Assert
                 | Some p \<Rightarrow> walk_down k locals f n p (branch @ [a])))
      else Inr (a, branch))"

declare walk_down.simps [simp del]

fun walk_both ::
    "nat \<Rightarrow> nat list \<Rightarrow> fork_database \<Rightarrow> nat \<Rightarrow> nat \<Rightarrow> nat list \<Rightarrow> nat list \<Rightarrow> (nat list \<times> nat list) result" where
  "walk_both fuel locals f a b as bs =
     (if previous (item_data (item_at f a)) \<noteq> previous (item_data (item_at f b))
      then (case fuel of
              0 \<Rightarrow> Inl Diverged
            | Suc k \<Rightarrow>
                (case lock_prev locals f a of
                   None \<Rightarrow> Inl Fc_Assert
                 | Some p \<Rightarrow>
                     (case lock_prev locals f b of
                        None \<Rightarrow> Inl Fc_Assert
                      | Some q \<Rightarrow> walk_both k locals f p q (as @ [a]) (bs @ [b]))))
      else Inr (as @ [a], bs @ [b]))"

declare walk_both.simps [simp del]

definition fetch_branch_from ::
    "nat list \<Rightarrow> bytes \<Rightarrow> bytes \<Rightarrow> fork_database \<Rightarrow> (nat list \<times> nat list) result" where
  "fetch_branch_from locals first second f =
     (let n = length (store f)
      in case find_id first f (links f) of
           None \<Rightarrow> Inl Fc_Assert
         | Some a \<Rightarrow>
             (case find_id second f (links f) of
                None \<Rightarrow> Inl Fc_Assert
              | Some b \<Rightarrow>
                  rbind (walk_down n locals f (block_num (item_data (item_at f b))) a []) (\<lambda>(a, as).
                  rbind (walk_down n locals f (block_num (item_data (item_at f a))) b []) (\<lambda>(b, bs).
                  walk_both n locals f a b as bs))))"

fun walk_to_num :: "nat \<Rightarrow> nat list \<Rightarrow> fork_database \<Rightarrow> u32 \<Rightarrow> nat option \<Rightarrow> nat option result" where
  "walk_to_num fuel locals f n None = Inr None"
| "walk_to_num fuel locals f n (Some a) =
     (if num (item_at f a) > n
      then (case fuel of 0 \<Rightarrow> Inl Diverged | Suc k \<Rightarrow> walk_to_num k locals f n (lock_prev locals f a))
      else Inr (Some a))"

declare walk_to_num.simps(2) [simp del]

definition walk_main_branch_to_num :: "nat list \<Rightarrow> u32 \<Rightarrow> fork_database \<Rightarrow> nat option result" where
  "walk_main_branch_to_num locals n f =
     (case fork_head f of
        None \<Rightarrow> Inl Undefined
      | Some h \<Rightarrow>
          if n > num (item_at f h) then Inr None
          else walk_to_num (length (store f)) locals f n (Some h))"

definition fetch_block_on_main_branch_by_number ::
    "nat list \<Rightarrow> u32 \<Rightarrow> fork_database \<Rightarrow> nat option result" where
  "fetch_block_on_main_branch_by_number locals n f =
     (case fetch_block_by_number n f of
        [a] \<Rightarrow> Inr (Some a)
      | [] \<Rightarrow> Inr None
      | _ \<Rightarrow> walk_main_branch_to_num locals n f)"

definition set_head :: "nat option \<Rightarrow> fork_database \<Rightarrow> fork_database" where
  "set_head h f = f\<lparr>fork_head := h\<rparr>"

definition remove_block :: "bytes \<Rightarrow> fork_database \<Rightarrow> fork_database" where
  "remove_block i f = f\<lparr>links := filter (\<lambda>a. item_id (item_at f a) \<noteq> i) (links f)\<rparr>"

end
