(* ===== verification/Fork_DB_Facts.thy ===== *)
theory Fork_DB_Facts
  imports Fork_DB Chain_Types_Facts
begin

section \<open>The fork database: invariant and walks\<close>

text \<open>
  What every operation of the fork database keeps (ids and numbers belong to the blocks, a
  predecessor has the id its successor names), and what walking back along it finds.
\<close>

subsection \<open>The invariant\<close>

definition item_inv :: "crypto \<Rightarrow> fork_database \<Rightarrow> nat \<Rightarrow> bool" where
  "item_inv cr f a \<longleftrightarrow>
     item_id (item_at f a) = block_id cr (item_data (item_at f a)) \<and>
     num (item_at f a) = block_num (item_data (item_at f a)) \<and>
     (\<forall>p. prev (item_at f a) = Some p \<longrightarrow> p < a \<and> item_id (item_at f p) = previous_id (item_at f a))"

definition fork_inv :: "crypto \<Rightarrow> fork_database \<Rightarrow> bool" where
  "fork_inv cr f \<longleftrightarrow>
     (\<forall>a < length (store f). item_inv cr f a) \<and>
     set (links f) \<subseteq> {..<length (store f)} \<and> unlinked_index f = [] \<and>
     distinct (map (\<lambda>a. item_id (item_at f a)) (links f)) \<and>
     (\<forall>h. fork_head f = Some h \<longrightarrow> h < length (store f))"

lemma fork_invD:
  assumes "fork_inv cr f"
  shows "a < length (store f) \<Longrightarrow> item_inv cr f a"
    and "a \<in> set (links f) \<Longrightarrow> a < length (store f)" and "unlinked_index f = []"
    and "distinct (map (\<lambda>a. item_id (item_at f a)) (links f))"
    and "fork_head f = Some h \<Longrightarrow> h < length (store f)"
  using assms unfolding fork_inv_def by auto

lemma find_id_Some:
  "find_id i f as = Some a \<Longrightarrow> a \<in> set as \<and> item_id (item_at f a) = i"
  by (auto simp: find_id_def find_Some_iff)

lemma find_id_None: "find_id i f as = None \<longleftrightarrow> (\<forall>a \<in> set as. item_id (item_at f a) \<noteq> i)"
  by (auto simp: find_id_def find_None_iff)

lemma lock_prev_Some: "lock_prev ls f a = Some p \<Longrightarrow> prev (item_at f a) = Some p \<and> alive ls f p"
  by (auto simp: lock_prev_def split: option.splits if_splits)

text \<open>A linked item is one above its predecessor.\<close>

lemma prev_num:
  assumes "fork_inv cr f" and "a < length (store f)" and "prev (item_at f a) = Some p"
  shows "p < a" and "item_id (item_at f p) = previous_id (item_at f a)"
    and "num (item_at f a) = num (item_at f p) + 1"
proof -
  have a: "item_inv cr f a" using fork_invD(1) [OF assms(1,2)] .
  then show p: "p < a" and i: "item_id (item_at f p) = previous_id (item_at f a)"
    using assms(3) by (simp_all add: item_inv_def)
  have "item_inv cr f p" using fork_invD(1) [OF assms(1), of p] p assms(2) by simp
  then have "num_from_id (previous_id (item_at f a)) = num (item_at f p)"
    using i num_of_block_id [of cr "item_data (item_at f p)"] by (simp add: item_inv_def)
  then show "num (item_at f a) = num (item_at f p) + 1"
    using a block_num_previous [of "item_data (item_at f a)"]
    by (simp add: item_inv_def previous_id_def)
qed

lemma num_is_block_num:
  "fork_inv cr f \<Longrightarrow> a < length (store f) \<Longrightarrow> num (item_at f a) = block_num (item_data (item_at f a))"
  using fork_invD(1) by (simp add: item_inv_def)

subsection \<open>Operations keep the invariant\<close>

text \<open>Only containers, head and size change.\<close>

lemma fork_inv_shrink:
  assumes "fork_inv cr f" and "store g = store f" and "unlinked_index g = []"
    and "set (links g) \<subseteq> set (links f)" and "distinct (links f) \<Longrightarrow> distinct (links g)"
    and "\<And>h. fork_head g = Some h \<Longrightarrow> h < length (store f)"
  shows "fork_inv cr g"
proof -
  have d: "distinct (links f)" "inj_on (\<lambda>a. item_id (item_at f a)) (set (links f))"
    using fork_invD(4) [OF assms(1)] by (simp_all add: distinct_map)
  then have "distinct (map (\<lambda>a. item_id (item_at f a)) (links g))"
    using assms(4,5) by (simp add: distinct_map inj_on_subset)
  with assms show ?thesis by (auto simp: fork_inv_def item_inv_def)
qed

lemma reset_inv: "fork_inv cr f \<Longrightarrow> fork_inv cr (fork_reset f)"
  by (rule fork_inv_shrink) (auto simp: fork_reset_def fork_inv_def)

lemma set_head_inv:
  "fork_inv cr f \<Longrightarrow> (\<And>a. h = Some a \<Longrightarrow> a < length (store f)) \<Longrightarrow> fork_inv cr (set_head h f)"
  by (rule fork_inv_shrink) (auto simp: set_head_def fork_inv_def)

lemma remove_inv: "fork_inv cr f \<Longrightarrow> fork_inv cr (remove_block i f)"
  by (rule fork_inv_shrink) (auto simp: remove_block_def fork_inv_def)

lemma set_max_size_inv: "fork_inv cr f \<Longrightarrow> fork_inv cr (set_max_size s f)"
  by (rule fork_inv_shrink) (auto simp: set_max_size_def fork_inv_def Let_def split: option.splits)

lemma pop_inv:
  assumes inv: "fork_inv cr f" and p: "fork_pop_block ls f = (r, g)"
  shows "fork_inv cr g"
proof -
  have "prev (item_at f h) = Some p \<Longrightarrow> h < length (store f) \<Longrightarrow> p < length (store f)" for h p
    using prev_num(1) [OF inv] by fastforce
  with inv p show ?thesis
    by (intro fork_inv_shrink [OF inv])
       (auto simp: fork_pop_block_def fork_inv_def split: option.splits dest!: lock_prev_Some)
qed

lemma new_item_inv:
  assumes inv: "fork_inv cr f"
  shows "fork_inv cr (f\<lparr>store := store f @ [make_item cr b]\<rparr>)"
    (is "fork_inv cr ?g")
proof -
  have same: "item_at ?g a = item_at f a" if "a < length (store f)" for a
    using that by (simp add: nth_append)
  have "item_inv cr ?g a" if a: "a < Suc (length (store f))" for a
  proof (cases "a = length (store f)")
    case True
    then show ?thesis by (simp add: item_inv_def make_item_def)
  next
    case False
    then have "a < length (store f)" using a by simp
    then show ?thesis
      using fork_invD(1) [OF inv, of a] by (auto simp: item_inv_def previous_id_def nth_append)
  qed
  moreover have "map (\<lambda>a. item_id (item_at ?g a)) (links f) = map (\<lambda>a. item_id (item_at f a)) (links f)"
    using fork_invD(2) [OF inv] by (intro map_cong refl) (simp add: nth_append)
  then have "distinct (map (\<lambda>a. item_id (item_at ?g a)) (links f))"
    using fork_invD(4) [OF inv] by (rule forw_subst)
  then have "distinct (map (\<lambda>a. item_id (item_at ?g a)) (links ?g))" by simp
  moreover have "set (links ?g) \<subseteq> {..<length (store ?g)}" using fork_invD(2) [OF inv] by fastforce
  ultimately show ?thesis
    using fork_invD(3,5) [OF inv] unfolding fork_inv_def by (auto simp: less_SucI)
qed

lemma insert_item_fields [simp]:
  "store (insert_item a f) = store f" "unlinked_index (insert_item a f) = unlinked_index f"
  "fork_head (insert_item a f) = fork_head f" "max_size (insert_item a f) = max_size f"
  by (simp_all add: insert_item_def)

lemma insert_item_inv:
  assumes inv: "fork_inv cr f" and a: "a < length (store f)"
  shows "fork_inv cr (insert_item a f)"
proof (cases "find_id (item_id (item_at f a)) f (links f) = None")
  case True
  then have n: "item_id (item_at f a) \<notin> (\<lambda>a. item_id (item_at f a)) ` set (links f)"
    unfolding find_id_None by auto
  then have "a \<notin> set (links f)" by auto
  with n True inv a show ?thesis
    by (auto simp: insert_item_def fork_inv_def item_inv_def distinct_map)
next
  case False
  then have "insert_item a f = f" by (simp only: insert_item_def if_False)
  then show ?thesis using inv by simp
qed

lemma head_inv: "fork_inv cr f \<Longrightarrow> a < length (store f) \<Longrightarrow> fork_inv cr (f\<lparr>fork_head := Some a\<rparr>)"
  by (simp add: fork_inv_def item_inv_def)

lemma start_block_inv: "fork_inv cr f \<Longrightarrow> fork_inv cr (start_block cr b f)"
  unfolding start_block_def new_item_def prod.case
  by (rule head_inv [OF insert_item_inv [OF new_item_inv]]) simp_all

lemma set_prev_inv:
  assumes inv: "fork_inv cr f" and a: "a < length (store f)" and new: "a \<notin> set (links f)"
    and p: "p < a" "item_id (item_at f p) = previous_id (item_at f a)"
  shows "fork_inv cr (set_prev a p f)"
proof -
  let ?g = "set_prev a p f"
  have at: "item_at ?g b = (if b = a then (item_at f a)\<lparr>prev := Some p\<rparr> else item_at f b)" for b
    using a by (auto simp: set_prev_def nth_list_update)
  have same: "item_id (item_at ?g b) = item_id (item_at f b)"
    "item_data (item_at ?g b) = item_data (item_at f b)" "num (item_at ?g b) = num (item_at f b)"
    "previous_id (item_at ?g b) = previous_id (item_at f b)" for b
    by (simp_all add: at previous_id_def)
  have "item_inv cr ?g b" if "b < length (store f)" for b
    using fork_invD(1) [OF inv that] p by (auto simp: item_inv_def same at previous_id_def)
  then show ?thesis
    using inv by (simp add: fork_inv_def same) (simp add: set_prev_def)
qed

text \<open>\<open>push_block\<close> adds its item at the end of the store; the rest of the store is as it was.\<close>

lemma push_item_cases:
  assumes inv: "fork_inv cr f" and a: "a < length (store f)" "a \<notin> set (links f)"
    and top: "set (links f) \<subseteq> {..<a}" and l: "link_item a f = (r, g)"
  shows "fork_inv cr g \<and> links g = links f \<and> fork_head g = fork_head f \<and> max_size g = max_size f \<and>
    length (store g) = length (store f) \<and>
    (\<forall>b. item_id (item_at g b) = item_id (item_at f b) \<and> num (item_at g b) = num (item_at f b))"
proof (cases "g = f")
  case True
  then show ?thesis using inv by simp
next
  case False
  then obtain p where p: "find_id (previous_id (item_at f a)) f (links f) = Some p"
    and g: "g = set_prev a p f"
    using l by (auto simp: link_item_def split: if_splits option.splits)
  have "p < a" "item_id (item_at f p) = previous_id (item_at f a)"
    using find_id_Some [OF p] top by auto
  with set_prev_inv [OF inv a this] show ?thesis
    unfolding g using a(1) by (auto simp: set_prev_def nth_list_update)
qed

lemma push_inv:
  assumes inv: "fork_inv cr f" and p: "fork_push_block cr b f = (r, g)"
  shows "fork_inv cr g"
proof -
  let ?f = "f\<lparr>store := store f @ [make_item cr b]\<rparr>" and ?a = "length (store f)"
  have top: "set (links ?f) \<subseteq> {..<?a}" using fork_invD(2) [OF inv] by auto
  obtain r' k where l: "link_item ?a ?f = (r', k)" by fastforce
  have k: "fork_inv cr k" "length (store k) = Suc ?a"
    using push_item_cases [OF new_item_inv [OF inv] _ _ top l] top by auto
  let ?h = "insert_item ?a k"
  have h: "fork_inv cr ?h" using insert_item_inv [OF k(1), of ?a] k(2) by simp
  have hh: "fork_inv cr (?h\<lparr>fork_head := Some ?a\<rparr>)" using head_inv [OF h] k(2) by simp
  have "g = ?f \<or> g = k \<or> g = ?h \<or> g = ?h\<lparr>fork_head := Some ?a\<rparr>"
    using p l
    by (auto simp: fork_push_block_def new_item_def push_item_def seq_def bnd_def gets_def
        update_def Let_def split: option.splits if_splits sum.splits)
  then show ?thesis using new_item_inv [OF inv] k(1) h hh by auto
qed

subsection \<open>Walks\<close>

definition chain :: "fork_database \<Rightarrow> nat list \<Rightarrow> bool" where
  "chain f as \<longleftrightarrow> successively (\<lambda>x y. prev (item_at f x) = Some y) as"

lemma chain_simps [simp]:
  "chain f []" "chain f [a]"
  "chain f (a # b # as) \<longleftrightarrow> prev (item_at f a) = Some b \<and> chain f (b # as)"
  by (simp_all add: chain_def)

lemma walk_down_ok:
  assumes inv: "fork_inv cr f" and "a < length (store f)" and "a < fuel"
  shows "case walk_down fuel ls f n a br of
           Inl e \<Rightarrow> e = Fc_Assert
         | Inr (b, br') \<Rightarrow> \<exists>w. br' = br @ w \<and> chain f (w @ [b]) \<and> hd (w @ [b]) = a \<and> b \<le> a \<and>
             \<not> num (item_at f b) > n \<and> (w \<noteq> [] \<longrightarrow> num (item_at f b) = n)"
  using assms(2,3)
proof (induction fuel arbitrary: a br)
  case 0
  then show ?case by simp
next
  case (Suc k)
  have na: "block_num (item_data (item_at f a)) = num (item_at f a)"
    using num_is_block_num [OF inv Suc.prems(1)] by simp
  show ?case
  proof (cases "num (item_at f a) > n")
    case False
    then show ?thesis by (subst walk_down.simps) (simp add: na)
  next
    case True
    show ?thesis
    proof (cases "lock_prev ls f a")
      case None
      with True show ?thesis by (subst walk_down.simps) (simp add: na)
    next
      case (Some p)
      then have pa: "prev (item_at f a) = Some p" by (simp add: lock_prev_Some)
      note p = prev_num [OF inv Suc.prems(1) pa]
      have "p < length (store f)" "p < k" using p(1) Suc.prems by simp_all
      note IH = Suc.IH [OF this, where br = "br @ [a]"]
      have le: "num (item_at f p) \<ge> n"
        using True inc_le [of "num (item_at f p)" n] unfolding p(3) by (metis linorder_not_less)
      have e: "walk_down (Suc k) ls f n a br = walk_down k ls f n p (br @ [a])"
        by (subst walk_down.simps) (simp add: na True Some)
      show ?thesis
      proof (cases "walk_down k ls f n p (br @ [a])")
        case (Inl e')
        with IH show ?thesis by (simp add: e)
      next
        case (Inr x)
        obtain b br' where x: "x = (b, br')" by (cases x)
        from IH obtain w where w: "br' = (br @ [a]) @ w" "chain f (w @ [b])" "hd (w @ [b]) = p"
          "b \<le> p" "\<not> num (item_at f b) > n" "w \<noteq> [] \<longrightarrow> num (item_at f b) = n"
          by (auto simp: Inr x)
        have "chain f ((a # w) @ [b])" using w(2,3) pa by (cases w) auto
        moreover have "num (item_at f b) = n" using w le by (cases w) auto
        ultimately show ?thesis using w p(1) by (auto simp: e Inr x intro!: exI [of _ "a # w"])
      qed
    qed
  qed
qed

lemma walk_both_ok:
  assumes inv: "fork_inv cr f" and "a < length (store f)" and "b < length (store f)" and "a < fuel"
  shows "case walk_both fuel ls f a b as bs of
           Inl e \<Rightarrow> e = Fc_Assert
         | Inr (as', bs') \<Rightarrow> \<exists>u v. as' = as @ u \<and> bs' = bs @ v \<and> length u = length v \<and> u \<noteq> [] \<and>
             hd u = a \<and> hd v = b \<and> chain f u \<and> chain f v \<and>
             previous_id (item_at f (last u)) = previous_id (item_at f (last v)) \<and>
             (\<forall>i < length u - 1. previous_id (item_at f (u ! i)) \<noteq> previous_id (item_at f (v ! i)))"
  using assms(2-)
proof (induction fuel arbitrary: a b as bs)
  case 0
  then show ?case by simp
next
  case (Suc k)
  show ?case
  proof (cases "previous_id (item_at f a) = previous_id (item_at f b)")
    case True
    then have "walk_both (Suc k) ls f a b as bs = Inr (as @ [a], bs @ [b])"
      by (subst walk_both.simps) (simp add: previous_id_def)
    with True show ?thesis by (auto intro!: exI [of _ "[a]"] exI [of _ "[b]"])
  next
    case False
    show ?thesis
    proof (cases "lock_prev ls f a = None \<or> lock_prev ls f b = None")
      case True
      with False show ?thesis
        by (subst walk_both.simps) (auto simp: previous_id_def split: option.splits)
    next
      case some: False
      then obtain p q where pq: "lock_prev ls f a = Some p" "lock_prev ls f b = Some q" by auto
      then have ppq: "prev (item_at f a) = Some p" "prev (item_at f b) = Some q"
        by (simp_all add: lock_prev_Some)
      have "p < length (store f)" "q < length (store f)" "p < k"
        using prev_num(1) [OF inv Suc.prems(1) ppq(1)] prev_num(1) [OF inv Suc.prems(2) ppq(2)]
          Suc.prems by simp_all
      note IH = Suc.IH [OF this, of "as @ [a]" "bs @ [b]"]
      have e: "walk_both (Suc k) ls f a b as bs = walk_both k ls f p q (as @ [a]) (bs @ [b])"
        using False by (subst walk_both.simps) (simp add: previous_id_def pq)
      show ?thesis
      proof (cases "walk_both k ls f p q (as @ [a]) (bs @ [b])")
        case (Inl e')
        with IH show ?thesis by (simp add: e)
      next
        case (Inr x)
        obtain as' bs' where x: "x = (as', bs')" by (cases x)
        from IH obtain u v where w: "as' = (as @ [a]) @ u" "bs' = (bs @ [b]) @ v" "length u = length v"
          "u \<noteq> []" "hd u = p" "hd v = q" "chain f u" "chain f v"
          "previous_id (item_at f (last u)) = previous_id (item_at f (last v))"
          "\<forall>i < length u - 1. previous_id (item_at f (u ! i)) \<noteq> previous_id (item_at f (v ! i))"
          by (auto simp: Inr x)
        have "v \<noteq> []" using w(3,4) by auto
        then have c: "chain f (a # u)" "chain f (b # v)"
          using w ppq by (cases u; cases v; simp)+
        have d: "previous_id (item_at f ((a # u) ! i)) \<noteq> previous_id (item_at f ((b # v) ! i))"
          if "i < length (a # u) - 1" for i
          using that w(10) False by (cases i) auto
        show ?thesis
          using w c d \<open>v \<noteq> []\<close>
          by (auto simp: e Inr x intro!: exI [of _ "a # u"] exI [of _ "b # v"])
      qed
    qed
  qed
qed

lemma chain_append:
  "chain f (w @ [a]) \<Longrightarrow> chain f u \<Longrightarrow> u \<noteq> [] \<Longrightarrow> hd u = a \<Longrightarrow> chain f (w @ u)"
  by (cases u) (simp_all add: chain_def successively_append_iff)

lemma fetch_branch_ok:
  assumes inv: "fork_inv cr f"
  shows "case fetch_branch_from ls i j f of
           Inl e \<Rightarrow> e = Fc_Assert
         | Inr (as, bs) \<Rightarrow> as \<noteq> [] \<and> bs \<noteq> [] \<and> item_id (item_at f (hd as)) = i \<and>
             item_id (item_at f (hd bs)) = j \<and> chain f as \<and> chain f bs \<and>
             previous_id (item_at f (last as)) = previous_id (item_at f (last bs)) \<and>
             (\<forall>k. 0 < k \<and> k < length as \<and> k < length bs \<longrightarrow>
                previous_id (item_at f (rev as ! k)) \<noteq> previous_id (item_at f (rev bs ! k)))"
proof (cases "find_id i f (links f) = None \<or> find_id j f (links f) = None")
  case True
  then show ?thesis by (auto simp: fetch_branch_from_def Let_def split: option.splits)
next
  case False
  then obtain a b where ab: "find_id i f (links f) = Some a" "find_id j f (links f) = Some b" by auto
  let ?n = "length (store f)"
  have a: "a < ?n" "item_id (item_at f a) = i" and b: "b < ?n" "item_id (item_at f b) = j"
    using find_id_Some [OF ab(1)] find_id_Some [OF ab(2)] fork_invD(2) [OF inv] by auto
  note bn = num_is_block_num [OF inv, symmetric]
  show ?thesis
  proof (cases "walk_down ?n ls f (num (item_at f b)) a []")
    case (Inl e)
    with walk_down_ok [OF inv a(1) a(1), where ls = ls and n = "num (item_at f b)" and br = "[]"] show ?thesis
      by (simp add: fetch_branch_from_def ab bn b(1))
  next
    case (Inr x)
    obtain c as where x: "x = (c, as)" by (cases x)
    from walk_down_ok [OF inv a(1) a(1), where ls = ls and n = "num (item_at f b)" and br = "[]"] have
      w1: "chain f (as @ [c])" "hd (as @ [c]) = a" "c \<le> a" "as \<noteq> [] \<longrightarrow> num (item_at f c) = num (item_at f b)"
      by (auto simp: Inr x)
    have c: "c < ?n" using w1(3) a(1) by simp
    show ?thesis
    proof (cases "walk_down ?n ls f (num (item_at f c)) b []")
      case (Inl e)
      with walk_down_ok [OF inv b(1) b(1), where ls = ls and n = "num (item_at f c)" and br = "[]"] show ?thesis
        by (simp add: fetch_branch_from_def ab bn b(1) c Inr x)
    next
      case inr2: (Inr y)
      obtain d bs where y: "y = (d, bs)" by (cases y)
      from walk_down_ok [OF inv b(1) b(1), where ls = ls and n = "num (item_at f c)" and br = "[]"] have
        w2: "chain f (bs @ [d])" "hd (bs @ [d]) = b" "d \<le> b"
        by (auto simp: inr2 y)
      have d: "d < ?n" using w2(3) b(1) by simp
      have one: "as = [] \<or> bs = []"
      proof (rule disjCI)
        assume "bs \<noteq> []"
        show "as = []"
        proof (rule ccontr)
          assume "as \<noteq> []"
          then have e: "num (item_at f c) = num (item_at f b)" using w1(4) by simp
          then have "walk_down ?n ls f (num (item_at f c)) b [] = Inr (b, [])"
            by (subst walk_down.simps) (simp add: bn b(1))
          with inr2 y \<open>bs \<noteq> []\<close> show False by simp
        qed
      qed
      note both = walk_both_ok [OF inv c d c, where ls = ls and as = as and bs = bs]
      show ?thesis
      proof (cases "walk_both ?n ls f c d as bs")
        case (Inl e)
        with both show ?thesis
          by (simp add: fetch_branch_from_def ab bn b(1) c d Inr x inr2 y)
      next
        case inr3: (Inr z)
        obtain as' bs' where z: "z = (as', bs')" by (cases z)
        from both obtain u v where uv: "as' = as @ u" "bs' = bs @ v" "length u = length v" "u \<noteq> []"
          "hd u = c" "hd v = d" "chain f u" "chain f v"
          "previous_id (item_at f (last u)) = previous_id (item_at f (last v))"
          "\<forall>i < length u - 1. previous_id (item_at f (u ! i)) \<noteq> previous_id (item_at f (v ! i))"
          by (auto simp: inr3 z)
        have v: "v \<noteq> []" using uv(3,4) by auto
        have chains: "chain f as'" "chain f bs'"
          using chain_append [OF w1(1) uv(7,4,5)] chain_append [OF w2(1) uv(8) v uv(6)] uv by simp_all
        have hds: "hd as' = a" "hd bs' = b"
          using w1(2) w2(2) uv(1,2,4,5,6) v by (metis append_Nil hd_append2 list.sel(1))+
        have diff: "previous_id (item_at f (rev as' ! k)) \<noteq> previous_id (item_at f (rev bs' ! k))"
          if k: "0 < k" "k < length as'" "k < length bs'" for k
        proof -
          have "k < length u" using k one uv(1-3) by auto
          then show ?thesis
            using k(1) uv(10) uv(3) by (simp add: uv(1,2) rev_append nth_append rev_nth)
        qed
        have "fetch_branch_from ls i j f = Inr (as', bs')"
          by (simp add: fetch_branch_from_def ab bn b(1) c Inr x inr2 y inr3 z)
        moreover have "as' \<noteq> []" "bs' \<noteq> []" using uv(1,2,4) v by auto
        moreover have "last as' = last u" "last bs' = last v" using uv(1,2,4) v by auto
        ultimately show ?thesis
          using uv(9) chains hds diff a(2) b(2) by simp
      qed
    qed
  qed
qed

end
