(* ===== verification/Fork_DB_Props.thy ===== *)
theory Fork_DB_Props
  imports Fork_DB_Facts Chain_Types_Props
begin

section \<open>The fork database: properties\<close>

text \<open>
  Claims over every state the public operations reach, and the fork of two blocks over a
  common one they are applied to.
\<close>

subsection \<open>Reachable states\<close>

inductive fork_reach :: "crypto \<Rightarrow> fork_database \<Rightarrow> bool" for cr :: crypto where
  fork_init: "fork_reach cr empty_fork_db"
| fork_start: "fork_reach cr f \<Longrightarrow> fork_reach cr (start_block cr b f)"
| fork_push: "fork_reach cr f \<Longrightarrow> fork_reach cr (snd (fork_push_block cr b f))"
| fork_pop: "fork_reach cr f \<Longrightarrow> fork_reach cr (snd (fork_pop_block ls f))"
| fork_size: "fork_reach cr f \<Longrightarrow> fork_reach cr (set_max_size s f)"
| fork_remove: "fork_reach cr f \<Longrightarrow> fork_reach cr (remove_block i f)"
| fork_clear: "fork_reach cr f \<Longrightarrow> fork_reach cr (fork_reset f)"
| fork_set_head: "fork_reach cr f \<Longrightarrow> h < length (store f) \<Longrightarrow> fork_reach cr (set_head (Some h) f)"

lemma fork_reach_inv: "fork_reach cr f \<Longrightarrow> fork_inv cr f"
proof (induction rule: fork_reach.induct)
  case fork_init
  then show ?case by (simp add: fork_inv_def empty_fork_db_def)
next
  case (fork_start f b)
  then show ?case using start_block_inv by simp
next
  case (fork_push f b)
  then show ?case using push_inv by (metis prod.collapse)
next
  case (fork_pop f ls)
  then show ?case using pop_inv by (metis prod.collapse)
next
  case (fork_size f s)
  then show ?case using set_max_size_inv by simp
next
  case (fork_remove f i)
  then show ?case using remove_inv by simp
next
  case (fork_clear f)
  then show ?case using reset_inv by simp
next
  case (fork_set_head f h)
  then show ?case by (intro set_head_inv) auto
qed

text \<open>
  C22: The fork database stays a forest. In every reachable state each item carries the id and
  number of its block, a linked item points to an earlier item whose id is the block's previous
  id and whose number is one less, the ids in the index are distinct, and the cache of unlinked
  blocks is empty: a block that does not link is dropped, whatever the comment says.
\<close>

theorem fork_database_forest:
  assumes "fork_reach cr f"
  shows "fork_inv cr f \<and>
    (\<forall>a p. a < length (store f) \<and> prev (item_at f a) = Some p \<longrightarrow>
       p < a \<and> item_id (item_at f p) = previous_id (item_at f a) \<and>
       num (item_at f a) = num (item_at f p) + 1)"
  using prev_num [OF fork_reach_inv [OF assms]] fork_reach_inv [OF assms] by blast

text \<open>Two blocks, of producers 1 and 2, on top of one of producer 7.\<close>

definition child :: "bytes \<Rightarrow> u64 \<Rightarrow> signed_block" where
  "child i p = demo_block\<lparr>producer := p, previous := i, transactions := []\<rparr>"

definition root_block :: signed_block where "root_block = child zero_id 7"
definition root_id :: bytes where "root_id = block_id demo_crypto root_block"
definition block_1 :: signed_block where "block_1 = child root_id 1"
definition block_2 :: signed_block where "block_2 = child root_id 2"

definition demo_fork :: fork_database where
  "demo_fork =
     snd (fork_push_block demo_crypto block_2
       (snd (fork_push_block demo_crypto block_1 (start_block demo_crypto root_block empty_fork_db))))"

lemma demo_fork_reach: "fork_reach demo_crypto demo_fork"
  unfolding demo_fork_def by (intro fork_push fork_start fork_init)

lemma le_bytes_nth_0: "le_bytes (Suc k) x ! 0 = word_of_nat x"
  by simp

lemma header_bytes:
  "\<exists>rest. packed c_signed_block_header (h :: signed_block_header) =
     le_bytes 4 (unat (timestamp h)) @ le_bytes 8 (unat (producer h)) @ rest"
  by (simp add: packed_def c_signed_block_header_def c_class_def c_pair_def c_block_header_def
      c_word_def block_header.defs)

lemma demo_id_byte:
  fixes h :: signed_block
  shows "block_id demo_crypto h ! 4 = ucast (producer h)"
proof -
  let ?h = "signed_block_header.truncate h"
  obtain rest where r: "packed c_signed_block_header ?h =
      le_bytes 4 (unat (timestamp ?h)) @ le_bytes 8 (unat (producer ?h)) @ rest"
    using header_bytes by blast
  have "le_bytes 8 (unat (producer h)) ! 0 = ucast (producer h)"
    using le_bytes_nth_0 [of 7 "unat (producer h)"] by simp
  then have "packed c_signed_block_header ?h ! 4 = ucast (producer h)"
    unfolding r by (simp add: nth_append) (simp add: signed_block_header.defs)
  moreover have "length (packed c_signed_block_header ?h) > 4" unfolding r by simp
  ultimately show ?thesis
    by (simp add: block_id_def demo_crypto_def Let_def nth_append del: signed_block_header.truncate_def)
qed

lemma demo_nums: "block_num root_block = 1" "block_num block_1 = 2" "block_num block_2 = 2"
proof -
  have "hash_word 0 zero_id = 0" by (simp add: hash_word_def zero_id_def eval_nat_numeral)
  then show r: "block_num root_block = 1"
    by (simp add: block_num_def root_block_def child_def endian_reverse_u32_def)
  show "block_num block_1 = 2" "block_num block_2 = 2"
    using num_of_block_id [of demo_crypto root_block] r
    by (simp_all add: block_num_previous block_1_def block_2_def child_def root_id_def)
qed

definition id_1 :: bytes where "id_1 = block_id demo_crypto block_1"
definition id_2 :: bytes where "id_2 = block_id demo_crypto block_2"

lemma demo_ids: "id_1 \<noteq> id_2" "root_id \<noteq> id_1" "root_id \<noteq> id_2" "root_id \<noteq> zero_id"
proof -
  have "id_1 ! 4 = 1" "id_2 ! 4 = 2" "root_id ! 4 = 7" "zero_id ! 4 = 0"
    by (simp_all add: id_1_def id_2_def root_id_def demo_id_byte block_1_def block_2_def
        root_block_def child_def zero_id_def)
  then show "id_1 \<noteq> id_2" "root_id \<noteq> id_1" "root_id \<noteq> id_2" "root_id \<noteq> zero_id" by auto
qed

lemma demo_previous: "previous root_block = zero_id" "previous block_1 = root_id" "previous block_2 = root_id"
  by (simp_all add: root_block_def block_1_def block_2_def child_def)

lemma demo_fork_value:
  "demo_fork =
     \<lparr>store = [\<lparr>prev = None, num = 1, invalid = False, item_id = root_id, item_data = root_block\<rparr>,
               \<lparr>prev = Some 0, num = 2, invalid = False, item_id = id_1, item_data = block_1\<rparr>,
               \<lparr>prev = Some 0, num = 2, invalid = False, item_id = id_2, item_data = block_2\<rparr>],
      links = [0, 1, 2], unlinked_index = [], fork_head = Some 1, max_size = 1024\<rparr>"
  using demo_ids
  by (simp add: demo_fork_def start_block_def new_item_def make_item_def empty_fork_db_def
      insert_item_def find_id_def fork_push_block_def push_item_def link_item_def set_prev_def
      oldest_def higher_def seq_def bnd_def gets_def update_def previous_id_def demo_nums
      demo_previous root_id_def [symmetric] id_1_def [symmetric] id_2_def [symmetric] Let_def)

lemma demo_fork_inv: "fork_inv demo_crypto demo_fork"
  using fork_reach_inv [OF demo_fork_reach] .

theorem fork_database_forest_witness: "unlinked_index demo_fork = []"
  using fork_database_forest [OF demo_fork_reach] by (simp add: fork_inv_def)

subsection \<open>Pushing a block\<close>

lemma make_item_sel [simp]:
  "item_id (make_item cr b) = block_id cr b" "num (make_item cr b) = block_num b"
  "item_data (make_item cr b) = b" "prev (make_item cr b) = None"
  by (simp_all add: make_item_def)

lemma find_id_cong:
  "(\<And>a. a \<in> set as \<Longrightarrow> item_id (item_at f a) = item_id (item_at g a)) \<Longrightarrow> find_id i f as = find_id i g as"
  unfolding find_id_def by (intro find_cong) auto

text \<open>What \<open>push_block\<close> does once the block is accepted.\<close>

definition attach :: "nat \<Rightarrow> fork_database \<Rightarrow> fork_database" where
  "attach a f = (let g = insert_item a f in if higher g a then g\<lparr>fork_head := Some a\<rparr> else g)"

lemma attach_ok:
  assumes "a < length (store f)"
  shows "store (attach a f) = store f \<and>
    (\<lambda>a. item_id (item_at f a)) ` set (links (attach a f)) =
      insert (item_id (item_at f a)) ((\<lambda>a. item_id (item_at f a)) ` set (links f)) \<and>
    fork_head (attach a f) =
      (case fork_head f of
         None \<Rightarrow> Some a
       | Some h \<Rightarrow> if num (item_at f a) > num (item_at f h) then Some a else Some h)"
proof -
  have "find_id (item_id (item_at f a)) f (links f) \<noteq> None \<Longrightarrow>
      item_id (item_at f a) \<in> (\<lambda>a. item_id (item_at f a)) ` set (links f)"
    by (metis (no_types, lifting) find_id_None image_eqI)
  then show ?thesis
    by (auto simp: attach_def higher_def Let_def insert_item_def split: option.splits)
qed

lemma push_unfold:
  fixes b :: signed_block
  assumes inv: "fork_inv cr f"
  defines "a \<equiv> length (store f)" and "F \<equiv> f\<lparr>store := store f @ [make_item cr b]\<rparr>"
  shows "fork_push_block cr b f =
    (if \<exists>h. fork_head f = Some h \<and>
          int (unat (block_num b)) \<le> max 0 (int (unat (num (item_at f h))) - int (unat (max_size f)))
     then (Inl Fc_Assert, F)
     else case link_item a F of
            (Inl e, k) \<Rightarrow> (Inl e, k)
          | (Inr _, k) \<Rightarrow> (Inr (fork_head (attach a k)), attach a k))"
proof -
  have F: "item_at F a = make_item cr b" "fork_head F = fork_head f" "max_size F = max_size f"
    by (simp_all add: F_def a_def)
  have u: "update (\<lambda>f. let g = insert_item a f in if higher g a then g\<lparr>fork_head := Some a\<rparr> else g) =
      update (attach a)"
    by (simp add: attach_def [abs_def])
  obtain r k where l: "link_item a F = (r, k)" by fastforce
  have e: "fork_push_block cr b f = seq (push_item a) (gets fork_head) F"
    by (simp add: fork_push_block_def new_item_def a_def F_def)
  show ?thesis
  proof (cases "fork_head f")
    case None
    then show ?thesis
      unfolding e by (cases r) (simp_all add: push_item_def F u l seq_def bnd_def gets_def update_def)
  next
    case (Some h)
    then have "item_at F h = item_at f h"
      using fork_invD(5) [OF inv] by (simp add: F_def nth_append)
    then have "oldest F h = max 0 (int (unat (num (item_at f h))) - int (unat (max_size f)))"
      by (simp add: oldest_def F)
    with Some show ?thesis
      unfolding e by (cases r) (auto simp: push_item_def F u l seq_def bnd_def gets_def update_def)
  qed
qed

abbreviation with_item :: "crypto \<Rightarrow> signed_block \<Rightarrow> fork_database \<Rightarrow> fork_database" where
  "with_item cr b f \<equiv> f\<lparr>store := store f @ [make_item cr b]\<rparr>"

lemma link_new:
  assumes inv: "fork_inv cr f"
  shows "link_item (length (store f)) (with_item cr b f) =
     (if fork_head f \<noteq> None \<and> previous b \<noteq> zero_id
      then (case find_id (previous b) f (links f) of
              None \<Rightarrow> (Inl Unlinkable_Block, with_item cr b f)
            | Some p \<Rightarrow>
                if invalid (item_at f p) then (Inl Fc_Assert, with_item cr b f)
                else (Inr (), set_prev (length (store f)) p (with_item cr b f)))
      else (Inr (), with_item cr b f))"
proof -
  have less: "x \<in> set (links f) \<Longrightarrow> x < length (store f)" for x by (rule fork_invD(2) [OF inv])
  have "find_id i (with_item cr b f) (links f) = find_id i f (links f)" for i
    by (rule find_id_cong) (simp add: less nth_append)
  then show ?thesis
    using find_id_Some [of "previous b" f "links f"] less
    by (auto simp: link_item_def previous_id_def nth_append split: option.splits)
qed

lemma attach_new:
  fixes cr b
  assumes inv: "fork_inv cr f"
    and k: "k = with_item cr b f \<or> k = set_prev (length (store f)) q (with_item cr b f)"
  defines "a \<equiv> length (store f)"
  shows "(\<forall>x < a. item_at (attach a k) x = item_at f x) \<and>
      (\<lambda>x. item_id (item_at (attach a k) x)) ` set (links (attach a k)) =
        insert (block_id cr b) ((\<lambda>a. item_id (item_at f a)) ` set (links f)) \<and>
      fork_head (attach a k) =
        (case fork_head f of
           None \<Rightarrow> Some a
         | Some h \<Rightarrow> if block_num b > num (item_at f h) then Some a else Some h)"
proof -
  have at: "item_at (set_prev a q (with_item cr b f)) x =
      (if x = a then (make_item cr b)\<lparr>prev := Some q\<rparr> else item_at (with_item cr b f) x)" for x
    by (simp add: set_prev_def nth_list_update nth_append a_def)
  have s: "a < length (store k)" "links k = links f" "fork_head k = fork_head f"
    using k by (auto simp: set_prev_def a_def)
  have i: "item_id (item_at k a) = block_id cr b" "num (item_at k a) = block_num b"
    using k at [of a] by (auto simp: a_def)
  have o': "x < a \<Longrightarrow> item_at k x = item_at f x" for x
    using k at [of x] by (auto simp: nth_append a_def)
  have im: "(\<lambda>a. item_id (item_at k a)) ` set (links f) = (\<lambda>a. item_id (item_at f a)) ` set (links f)"
    by (intro image_cong refl) (simp add: o' a_def fork_invD(2) [OF inv])
  have "h < a" if "fork_head f = Some h" for h using fork_invD(5) [OF inv that] by (simp add: a_def)
  with attach_ok [OF s(1)] show ?thesis
    by (auto simp: s i o' im split: option.splits)
qed

text \<open>
  C16: \<open>push_block\<close> on every branch. A block more than \<open>max_size\<close> below the head is refused,
  one whose previous block is not in the index is unlinkable, one on top of an invalid block is
  refused, and then neither index nor head changes. Otherwise the index holds exactly one more
  id, the block's own, and the head is the new block exactly when it is strictly higher than
  the old head; earlier items never change.
\<close>

theorem push_block_branches:
  assumes inv: "fork_inv cr f" and p: "fork_push_block cr b f = (r, g)"
  shows "(\<forall>a < length (store f). item_at g a = item_at f a) \<and>
    (let too_old = (\<exists>h. fork_head f = Some h \<and>
           int (unat (block_num b)) \<le> max 0 (int (unat (num (item_at f h))) - int (unat (max_size f))));
         links_to = find_id (previous b) f (links f);
         must_link = (fork_head f \<noteq> None \<and> previous b \<noteq> zero_id)
     in if too_old then r = Inl Fc_Assert \<and> links g = links f \<and> fork_head g = fork_head f
        else if must_link \<and> links_to = None
        then r = Inl Unlinkable_Block \<and> links g = links f \<and> fork_head g = fork_head f
        else if must_link \<and> invalid (item_at f (the links_to))
        then r = Inl Fc_Assert \<and> links g = links f \<and> fork_head g = fork_head f
        else r = Inr (fork_head g) \<and>
          (\<lambda>a. item_id (item_at g a)) ` set (links g) =
            insert (block_id cr b) ((\<lambda>a. item_id (item_at f a)) ` set (links f)) \<and>
          fork_head g =
            (case fork_head f of
               None \<Rightarrow> Some (length (store f))
             | Some h \<Rightarrow> if block_num b > num (item_at f h) then Some (length (store f)) else Some h))"
proof -
  let ?a = "length (store f)" and ?F = "with_item cr b f"
  have bad: "(\<forall>x < ?a. item_at ?F x = item_at f x) \<and> links ?F = links f \<and> fork_head ?F = fork_head f"
    by (simp add: nth_append)
  note p' = p [unfolded push_unfold [OF inv] link_new [OF inv]]
  note good = attach_new [OF inv, where b = b]
  show ?thesis
  proof (cases "\<exists>h. fork_head f = Some h \<and>
      int (unat (block_num b)) \<le> max 0 (int (unat (num (item_at f h))) - int (unat (max_size f)))")
    case True
    then have "r = Inl Fc_Assert" "g = ?F" using p' unfolding if_P [OF True] by auto
    with bad True show ?thesis by (simp only: Let_def if_True) simp
  next
    case young: False
    show ?thesis
    proof (cases "fork_head f \<noteq> None \<and> previous b \<noteq> zero_id")
      case False
      then have "r = Inr (fork_head g)" "g = attach ?a ?F"
        using p' unfolding if_not_P [OF young] if_not_P [OF False] by auto
      with good [of ?F] False young show ?thesis by (simp only: Let_def if_False) simp
    next
      case must: True
      show ?thesis
      proof (cases "find_id (previous b) f (links f)")
        case None
        then have "r = Inl Unlinkable_Block" "g = ?F" 
          using p' unfolding if_not_P [OF young] if_P [OF must] None by auto
        with bad None must young show ?thesis by (simp only: Let_def if_False if_True) simp
      next
        case (Some q)
        show ?thesis
        proof (cases "invalid (item_at f q)")
          case True
          then have "r = Inl Fc_Assert" "g = ?F"
            using p' True unfolding if_not_P [OF young] if_P [OF must] Some by auto
          with bad True must Some young show ?thesis
            by (simp only: Let_def if_False if_True option.sel) simp
        next
          case False
          then have "r = Inr (fork_head g)" "g = attach ?a (set_prev ?a q ?F)"
            using p' False unfolding if_not_P [OF young] if_P [OF must] Some by auto
          with good [of "set_prev ?a q ?F" q] False Some must young show ?thesis
            by (simp only: Let_def if_False option.sel) simp
        qed
      qed
    qed
  qed
qed

theorem push_block_branches_witness:
  "fst (fork_push_block demo_crypto block_2 demo_fork) =
     Inr (fork_head (snd (fork_push_block demo_crypto block_2 demo_fork)))"
proof -
  obtain r g where p: "fork_push_block demo_crypto block_2 demo_fork = (r, g)" by fastforce
  have inv: "fork_inv demo_crypto demo_fork" using demo_fork_inv .
  have *: "fork_head demo_fork = Some (Suc 0)" "max_size demo_fork = 1024" "num (item_at demo_fork (Suc 0)) = 2"
    "find_id root_id demo_fork (links demo_fork) = Some 0" "\<not> invalid (item_at demo_fork 0)"
    by (simp_all add: demo_fork_value find_id_def)
  show ?thesis
    using push_block_branches [OF inv p] unfolding Let_def p
    by (simp add: * demo_nums demo_previous)
qed

subsection \<open>Branches\<close>

text \<open>
  C17: \<open>fetch_branch_from\<close> finds the fork point. It stops after at most as many steps as there are
  items. Either it fails an assertion, because an id is unknown or a branch was cut off, or it
  returns two branches that start at the two blocks, follow the previous links without a gap,
  and end in blocks with the same previous block, the first such pair: one step earlier on both
  branches the previous blocks still differ.
\<close>

theorem fetch_branch_fork_point:
  assumes "fork_inv cr f"
  shows "case fetch_branch_from ls i j f of
           Inl e \<Rightarrow> e = Fc_Assert
         | Inr (as, bs) \<Rightarrow> as \<noteq> [] \<and> bs \<noteq> [] \<and> item_id (item_at f (hd as)) = i \<and>
             item_id (item_at f (hd bs)) = j \<and> chain f as \<and> chain f bs \<and>
             previous_id (item_at f (last as)) = previous_id (item_at f (last bs)) \<and>
             (\<forall>k. 0 < k \<and> k < length as \<and> k < length bs \<longrightarrow>
                previous_id (item_at f (rev as ! k)) \<noteq> previous_id (item_at f (rev bs ! k)))"
  by (rule fetch_branch_ok [OF assms])

theorem fetch_branch_fork_point_witness:
  "\<exists>as bs. fetch_branch_from [] id_1 id_2 demo_fork = Inr (as, bs) \<and>
     previous_id (item_at demo_fork (last as)) = previous_id (item_at demo_fork (last bs))"
proof -
  note inv = demo_fork_inv
  have "fetch_branch_from [] id_1 id_2 demo_fork = Inr ([1], [2])"
    using demo_ids
    by (simp add: fetch_branch_from_def demo_fork_value find_id_def walk_down.simps walk_both.simps
        demo_nums demo_previous)
  with fetch_branch_fork_point [OF inv, where ls = "[]" and i = id_1 and j = id_2] show ?thesis by simp
qed

subsection \<open>The main branch\<close>

lemma walk_to_num_ok:
  assumes inv: "fork_inv cr f" and "a < length (store f)" and "a < fuel" and "n \<le> num (item_at f a)"
  shows "\<exists>r. walk_to_num fuel ls f n (Some a) = Inr r \<and>
    (\<forall>b. r = Some b \<longrightarrow> (\<exists>w. chain f (w @ [b]) \<and> hd (w @ [b]) = a) \<and> num (item_at f b) = n)"
  using assms(2-)
proof (induction fuel arbitrary: a)
  case (Suc k)
  show ?case
  proof (cases "num (item_at f a) > n")
    case False
    then show ?thesis
      using Suc.prems(3) by (subst walk_to_num.simps) (auto intro!: exI [of _ "[]"])
  next
    case True
    show ?thesis
    proof (cases "lock_prev ls f a")
      case None
      with True show ?thesis by (subst walk_to_num.simps) simp
    next
      case (Some p)
      then have pa: "prev (item_at f a) = Some p" by (simp add: lock_prev_Some)
      note p = prev_num [OF inv Suc.prems(1) pa]
      have le: "n \<le> num (item_at f p)"
        using True inc_le [of "num (item_at f p)" n] unfolding p(3) by (metis linorder_not_less)
      have "p < length (store f)" "p < k" using p(1) Suc.prems by simp_all
      then obtain r where r: "walk_to_num k ls f n (Some p) = Inr r"
        "\<And>b. r = Some b \<Longrightarrow> (\<exists>w. chain f (w @ [b]) \<and> hd (w @ [b]) = p) \<and> num (item_at f b) = n"
        using Suc.IH le by blast
      have e: "walk_to_num (Suc k) ls f n (Some a) = Inr r"
        using True Some r(1) by (subst walk_to_num.simps) simp
      have "\<exists>w. chain f (w @ [b]) \<and> hd (w @ [b]) = a" if b: "r = Some b" for b
      proof -
        obtain w where w: "chain f (w @ [b])" "hd (w @ [b]) = p"
          using r(2) [OF b] by blast
        have "chain f ((a # w) @ [b])" using w pa by (cases w) auto
        then show ?thesis by (intro exI [of _ "a # w"]) simp
      qed
      with r(2) show ?thesis unfolding e by blast
    qed
  qed
qed simp

text \<open>
  \<open>walk_main_branch_to_num\<close> stops for every number. A number above the head's has no block;
  otherwise what it returns, if the branch is not cut off, is a block of that number which the
  head reaches along the previous links.
\<close>

theorem walk_main_branch_stops:
  assumes "fork_inv cr f" and "fork_head f = Some h"
  shows "\<exists>r. walk_main_branch_to_num ls n f = Inr r \<and>
    (n > num (item_at f h) \<longrightarrow> r = None) \<and>
    (\<forall>b. r = Some b \<longrightarrow> (\<exists>w. chain f (w @ [b]) \<and> hd (w @ [b]) = h) \<and> num (item_at f b) = n)"
proof (cases "n > num (item_at f h)")
  case True
  then show ?thesis using assms(2) by (simp add: walk_main_branch_to_num_def)
next
  case False
  have "h < length (store f)" using fork_invD(5) [OF assms] .
  then obtain r where "walk_to_num (length (store f)) ls f n (Some h) = Inr r"
    "\<forall>b. r = Some b \<longrightarrow> (\<exists>w. chain f (w @ [b]) \<and> hd (w @ [b]) = h) \<and> num (item_at f b) = n"
    using walk_to_num_ok [OF assms(1)] False by (metis linorder_not_less)
  with False assms(2) show ?thesis by (auto simp: walk_main_branch_to_num_def)
qed

theorem walk_main_branch_stops_witness:
  "walk_main_branch_to_num [] 1 demo_fork = Inr (Some 0) \<and> num (item_at demo_fork 0) = 1"
proof -
  have e: "walk_main_branch_to_num [] 1 demo_fork = Inr (Some 0)"
    by (simp add: walk_main_branch_to_num_def demo_fork_value walk_to_num.simps lock_prev_def alive_def)
  have "fork_head demo_fork = Some 1" by (simp add: demo_fork_value)
  with walk_main_branch_stops [OF demo_fork_inv, where h = 1 and ls = "[]" and n = 1] e
  show ?thesis by auto
qed

end
