(* ===== verification/Block_Log.thy ===== *)
theory Block_Log
  imports Chain_Types
begin

section \<open>The block log\<close>

text \<open>
  \<open>libraries/chain/src/chain/block_log.cpp\<close>. The state is the implementation object together
  with the two files it keeps, the log and its index. A stream has a read position, knows
  whether it is open and whether an operation on it has failed; a failure raises when the
  exception mask of the stream is set, which only the constructor of \<open>block_log\<close> does. Where it
  does not raise and the code goes on with a variable that was not read, the model stops with
  \<open>Undefined\<close>. A file opened for appending is positioned at its end; buffering is not
  visible, because a stream is reopened between writing and reading. The mutex is not modelled:
  every call below is one critical section.
\<close>

datatype log_file = Block_File | Index_File

record log_stream =
  opened :: bool
  spos :: nat
  bad :: bool

record block_log =
  log_head :: "signed_block option"
  log_head_id :: bytes
  streams :: "log_file \<Rightarrow> log_stream"
  named :: bool
  writing :: "log_file \<Rightarrow> bool"
  use_locking :: bool
  throws :: bool
  files :: "log_file \<Rightarrow> bytes"

definition closed_stream :: log_stream where
  "closed_stream = \<lparr>opened = False, spos = 0, bad = False\<rparr>"

text \<open>A fresh \<open>block_log_impl\<close>, and the one the constructor of \<open>block_log\<close> prepares.\<close>

definition log_impl :: "bool \<Rightarrow> (log_file \<Rightarrow> bytes) \<Rightarrow> block_log" where
  "log_impl exc fs =
     \<lparr>log_head = None, log_head_id = replicate 20 0, streams = (\<lambda>_. closed_stream), named = False,
      writing = (\<lambda>_. False), use_locking = True, throws = exc, files = fs\<rparr>"

definition new_block_log :: "(log_file \<Rightarrow> bytes) \<Rightarrow> block_log" where
  "new_block_log fs = log_impl True fs"

definition log_close :: "block_log \<Rightarrow> block_log" where
  "log_close l = log_impl False (files l)"

subsection \<open>Streams\<close>

definition set_stream :: "log_file \<Rightarrow> log_stream \<Rightarrow> block_log \<Rightarrow> block_log" where
  "set_stream w s l = l\<lparr>streams := (streams l)(w := s)\<rparr>"

definition set_writing :: "log_file \<Rightarrow> bool \<Rightarrow> block_log \<Rightarrow> block_log" where
  "set_writing w b l = l\<lparr>writing := (writing l)(w := b)\<rparr>"

definition set_file :: "log_file \<Rightarrow> bytes \<Rightarrow> block_log \<Rightarrow> block_log" where
  "set_file w d l = l\<lparr>files := (files l)(w := d)\<rparr>"

definition mark_bad :: "log_file \<Rightarrow> block_log \<Rightarrow> block_log" where
  "mark_bad w l = set_stream w ((streams l w)\<lparr>bad := True\<rparr>) l"

definition stream_fails :: "log_file \<Rightarrow> (block_log, unit) sx" where
  "stream_fails w l = (if throws l then Inl Runtime_Error else Inr (), mark_bad w l)"

definition read_fails :: "log_file \<Rightarrow> (block_log, 'a) sx" where
  "read_fails w l = (Inl (if throws l then Runtime_Error else Undefined), mark_bad w l)"

definition usable :: "log_file \<Rightarrow> block_log \<Rightarrow> bool" where
  "usable w l \<longleftrightarrow> opened (streams l w) \<and> \<not> bad (streams l w)"

definition stream_close :: "log_file \<Rightarrow> (block_log, unit) sx" where
  "stream_close w l =
     (if opened (streams l w) then (Inr (), set_stream w ((streams l w)\<lparr>opened := False\<rparr>) l)
      else stream_fails w l)"

definition stream_open :: "bool \<Rightarrow> log_file \<Rightarrow> (block_log, unit) sx" where
  "stream_open app w l =
     (if named l \<and> \<not> opened (streams l w)
      then (Inr (), set_stream w \<lparr>opened = True, spos = (if app then length (files l w) else 0), bad = False\<rparr> l)
      else stream_fails w l)"

definition stream_tell :: "log_file \<Rightarrow> block_log \<Rightarrow> u64" where
  "stream_tell w l = (if usable w l then word_of_nat (spos (streams l w)) else - 1)"

definition stream_seek :: "log_file \<Rightarrow> u64 \<Rightarrow> (block_log, unit) sx" where
  "stream_seek w p l =
     (if usable w l \<and> unat p < 2 ^ 63
      then (Inr (), set_stream w ((streams l w)\<lparr>spos := unat p\<rparr>) l)
      else stream_fails w l)"

definition stream_seek_last8 :: "log_file \<Rightarrow> (block_log, unit) sx" where
  "stream_seek_last8 w l =
     (if usable w l \<and> 8 \<le> length (files l w)
      then (Inr (), set_stream w ((streams l w)\<lparr>spos := length (files l w) - 8\<rparr>) l)
      else stream_fails w l)"

text \<open>\<open>fc::raw::unpack\<close> from a stream, and \<open>read\<close> of an eight-byte integer, which it includes.\<close>

definition stream_get :: "'a codec \<Rightarrow> log_file \<Rightarrow> (block_log, 'a) sx" where
  "stream_get c w l =
     (if usable w l
      then (case c_get c (drop (spos (streams l w)) (files l w)) of
              (Inr v, rest) \<Rightarrow>
                (Inr v, set_stream w ((streams l w)\<lparr>spos := length (files l w) - length rest\<rparr>) l)
            | (Inl e, rest) \<Rightarrow>
                if e = Stream_Range then read_fails w l
                else (Inl e, set_stream w ((streams l w)\<lparr>spos := length (files l w) - length rest\<rparr>) l))
      else read_fails w l)"

definition stream_write :: "log_file \<Rightarrow> bytes \<Rightarrow> (block_log, unit) sx" where
  "stream_write w d l =
     (if usable w l
      then (let l = set_file w (files l w @ d) l
            in (Inr (), set_stream w ((streams l w)\<lparr>spos := length (files l w)\<rparr>) l))
      else stream_fails w l)"

text \<open>\<open>check_block_read\<close>, \<open>check_index_read\<close>, \<open>check_block_write\<close>, \<open>check_index_write\<close>.\<close>

definition check_read :: "log_file \<Rightarrow> (block_log, unit) sx" where
  "check_read w l =
     (if writing l w
      then seq (stream_close w) (seq (stream_open False w) (update (set_writing w False))) l
      else ret () l)"

definition check_write :: "log_file \<Rightarrow> (block_log, unit) sx" where
  "check_write w l =
     (if \<not> writing l w
      then seq (stream_close w) (seq (stream_open True w) (update (set_writing w True))) l
      else ret () l)"

subsection \<open>Reading\<close>

definition npos :: u64 where "npos = - 1"

definition read_block_helper :: "u64 \<Rightarrow> (block_log, signed_block \<times> u64) sx" where
  "read_block_helper p =
     seq (check_read Block_File)
     (seq (stream_seek Block_File p)
     (bnd (stream_get c_signed_block Block_File) (\<lambda>b.
      gets (\<lambda>l. (b, stream_tell Block_File l + 8)))))"

definition get_block_pos_helper :: "u32 \<Rightarrow> (block_log, u64) sx" where
  "get_block_pos_helper n =
     seq (check_read Index_File)
     (bnd (gets (\<lambda>l. log_head l \<noteq> None \<and> n \<le> num_from_id (log_head_id l) \<and> n > 0)) (\<lambda>known.
      if known then seq (stream_seek Index_File (8 * ucast (n - 1))) (stream_get (c_word 8) Index_File)
      else ret npos))"

definition read_block_by_num :: "u32 \<Rightarrow> (block_log, signed_block option) sx" where
  "read_block_by_num n =
     bnd (get_block_pos_helper n) (\<lambda>p.
     if p \<noteq> npos
     then bnd (read_block_helper p) (\<lambda>(b, _).
          seq (check (block_num b = n) Fc_Assert) (ret (Some b)))
     else ret None)"

definition read_head :: "(block_log, signed_block) sx" where
  "read_head =
     seq (check_read Block_File)
     (seq (stream_seek_last8 Block_File)
     (bnd (stream_get (c_word 8) Block_File) (\<lambda>p.
      bnd (read_block_helper p) (\<lambda>(b, _). ret b))))"

subsection \<open>Appending\<close>

definition log_append :: "crypto \<Rightarrow> signed_block \<Rightarrow> (block_log, u64) sx" where
  "log_append cr b =
     seq (check_write Block_File)
     (seq (check_write Index_File)
     (bnd (gets (stream_tell Block_File)) (\<lambda>p.
      bnd (gets (stream_tell Index_File)) (\<lambda>q.
      seq (check (q = 8 * ucast (block_num b - 1)) Fc_Assert)
     (bnd (lift_r (pack_to_vector c_signed_block b)) (\<lambda>data.
      seq (stream_write Block_File data)
     (seq (stream_write Block_File (le_bytes 8 (unat p)))
     (seq (stream_write Index_File (le_bytes 8 (unat p)))
     (seq (update (\<lambda>l. l\<lparr>log_head := Some b, log_head_id := block_id cr b\<rparr>))
     (ret p))))))))))"

definition set_locking :: "bool \<Rightarrow> block_log \<Rightarrow> block_log" where
  "set_locking b l = l\<lparr>use_locking := True\<rparr>"

subsection \<open>Opening\<close>

text \<open>The loop of \<open>construct_index\<close>; a round reads at least eight bytes of the log.\<close>

fun index_loop :: "nat \<Rightarrow> u64 \<Rightarrow> u64 \<Rightarrow> (block_log, unit) sx" where
  "index_loop fuel p end_pos =
     (if p < end_pos
      then (case fuel of
              0 \<Rightarrow> raise Diverged
            | Suc k \<Rightarrow>
                bnd (stream_get c_signed_block Block_File) (\<lambda>_.
                bnd (stream_get (c_word 8) Block_File) (\<lambda>p.
                seq (stream_write Index_File (le_bytes 8 (unat p)))
                (index_loop k p end_pos))))
      else ret ())"

declare index_loop.simps [simp del]

definition construct_index :: "(block_log, unit) sx" where
  "construct_index =
     seq (stream_close Index_File)
     (seq (update (set_file Index_File []))
     (seq (stream_open True Index_File)
     (seq (update (set_writing Index_File True))
     (seq (check_read Block_File)
     (seq (stream_seek_last8 Block_File)
     (bnd (stream_get (c_word 8) Block_File) (\<lambda>end_pos.
      seq (stream_seek Block_File 0)
     (bnd (gets (\<lambda>l. length (files l Block_File))) (\<lambda>n.
      index_loop n 0 end_pos)))))))))"

definition check_index :: "(block_log, unit) sx" where
  "check_index =
     seq (check_read Block_File)
     (seq (check_read Index_File)
     (seq (stream_seek_last8 Block_File)
     (bnd (stream_get (c_word 8) Block_File) (\<lambda>block_pos :: u64.
      seq (stream_seek_last8 Index_File)
     (bnd (stream_get (c_word 8) Index_File) (\<lambda>index_pos.
      if block_pos < index_pos then construct_index
      else if block_pos > index_pos then construct_index
      else ret ()))))))"

definition close_if_open :: "log_file \<Rightarrow> (block_log, unit) sx" where
  "close_if_open w l = (if opened (streams l w) then stream_close w l else ret () l)"

definition log_open :: "crypto \<Rightarrow> (block_log, unit) sx" where
  "log_open cr =
     seq (close_if_open Block_File)
     (seq (close_if_open Index_File)
     (seq (update (\<lambda>l. l\<lparr>named := True\<rparr>))
     (seq (stream_open True Block_File)
     (seq (stream_open True Index_File)
     (seq (update (\<lambda>l. l\<lparr>writing := (\<lambda>_. True)\<rparr>))
     (bnd (gets (\<lambda>l. length (files l Block_File))) (\<lambda>log_size.
      bnd (gets (\<lambda>l. length (files l Index_File))) (\<lambda>index_size.
      if log_size \<noteq> 0
      then bnd read_head (\<lambda>b.
           seq (update (\<lambda>l. l\<lparr>log_head := Some b, log_head_id := block_id cr b\<rparr>))
           (if index_size \<noteq> 0 then check_index else construct_index))
      else if index_size \<noteq> 0
      then seq (stream_close Index_File)
          (seq (update (set_file Index_File []))
          (seq (stream_open True Index_File)
          (update (set_writing Index_File True))))
      else ret ()))))))))"

end
