(* ===== verification/Block_Log_Facts.thy ===== *)
theory Block_Log_Facts
  imports Block_Log Chain_Types_Facts
begin

section \<open>The block log: layout of the files and the operations\<close>

text \<open>
  Lemmas on the two files of the block log: what reading finds of what was appended, and what an
  append does to the records that are there.
\<close>

subsection \<open>The two files of a list of blocks\<close>

fun layout :: "nat \<Rightarrow> signed_block list \<Rightarrow> bytes" where
  "layout p [] = []"
| "layout p (b # bs) =
     packed c_signed_block b @ le_bytes 8 p @ layout (p + length (packed c_signed_block b) + 8) bs"

fun starts :: "nat \<Rightarrow> signed_block list \<Rightarrow> nat list" where
  "starts p [] = []"
| "starts p (b # bs) = p # starts (p + length (packed c_signed_block b) + 8) bs"

definition index_bytes :: "nat list \<Rightarrow> bytes" where
  "index_bytes ps = concat (map (le_bytes 8) ps)"

lemma layout_append: "layout p (xs @ ys) = layout p xs @ layout (p + length (layout p xs)) ys"
  by (induction p xs rule: layout.induct) (simp_all add: algebra_simps)

lemma starts_append: "starts p (xs @ ys) = starts p xs @ starts (p + length (layout p xs)) ys"
  by (induction p xs rule: layout.induct) (simp_all add: algebra_simps)

lemma length_starts [simp]: "length (starts p bs) = length bs"
  by (induction p bs rule: starts.induct) simp_all

lemma starts_nth:
  "i < length bs \<Longrightarrow> starts p bs ! i = p + length (layout p (take i bs))"
proof (induction p bs arbitrary: i rule: starts.induct)
  case (2 p b bs)
  then show ?case by (cases i) simp_all
qed simp

lemma layout_split:
  assumes "i < length bs"
  shows "layout p bs = layout p (take i bs) @ packed c_signed_block (bs ! i) @ le_bytes 8 (starts p bs ! i) @
     layout (starts p bs ! i + length (packed c_signed_block (bs ! i)) + 8) (drop (Suc i) bs)"
proof -
  have "bs = take i bs @ bs ! i # drop (Suc i) bs" using assms by (simp add: id_take_nth_drop)
  then have "layout p bs = layout p (take i bs @ bs ! i # drop (Suc i) bs)" by simp
  then show ?thesis by (simp add: layout_append starts_nth [OF assms])
qed

lemma length_index_bytes [simp]: "length (index_bytes ps) = 8 * length ps"
  by (induction ps) (simp_all add: index_bytes_def)

lemma index_bytes_append: "index_bytes (ps @ qs) = index_bytes ps @ index_bytes qs"
  by (simp add: index_bytes_def)

lemma index_bytes_simps [simp]: "index_bytes [] = []" "index_bytes (p # ps) = le_bytes 8 p @ index_bytes ps"
  by (simp_all add: index_bytes_def)

lemma drop_index:
  "i < length ps \<Longrightarrow> drop (8 * i) (index_bytes ps) = le_bytes 8 (ps ! i) @ index_bytes (drop (Suc i) ps)"
proof (induction ps arbitrary: i)
  case (Cons p ps)
  then show ?case by (cases i) simp_all
qed simp

lemma layout_Nil_iff [simp]: "layout p bs = [] \<longleftrightarrow> bs = []"
  by (cases bs) (auto dest: arg_cong [of _ _ length])

lemma starts_bound:
  "i < length bs \<Longrightarrow> starts 0 bs ! i + 8 \<le> length (layout 0 bs)"
  using layout_split [of i bs 0] starts_nth [of i bs 0] by simp

lemma starts_last:
  assumes "bs \<noteq> []"
  shows "drop (length (layout 0 bs) - 8) (layout 0 bs) = le_bytes 8 (last (starts 0 bs))"
proof -
  let ?i = "length bs - 1"
  have i: "?i < length bs" using assms by simp
  have d: "drop (Suc ?i) bs = []" using assms by simp
  have "last (starts 0 bs) = starts 0 bs ! ?i"
    using assms by (metis last_conv_nth length_0_conv length_starts)
  with layout_split [OF i, of 0, unfolded d] show ?thesis by simp
qed

lemma get_word8 [simp]: "c_get (c_word 8 :: u64 codec) (le_bytes 8 p @ rest) = (Inr (word_of_nat p), rest)"
proof -
  have "le_bytes 8 p = le_bytes 8 (unat (word_of_nat p :: u64))"
    by (subst le_bytes_of_le [symmetric, of "le_bytes 8 p" 8], simp)
       (simp add: of_le_bytes unat_of_nat)
  then have e: "packed (c_word 8 :: u64 codec) (word_of_nat p) = le_bytes 8 p"
    by (simp add: packed_def c_word_def)
  have "round_trip (\<lambda>_. True) (c_word 8 :: u64 codec)" by (rule rt_word) simp
  then show ?thesis unfolding round_trip_def using e by metis
qed

lemma get_word8_end [simp]: "c_get (c_word 8 :: u64 codec) (le_bytes 8 p) = (Inr (word_of_nat p), [])"
  using get_word8 [of p "[]"] by simp

subsection \<open>Streams\<close>

text \<open>
  A log whose streams are open and have not failed; \<open>kept l l'\<close>: only read positions and modes
  differ.
\<close>

definition settled :: "block_log \<Rightarrow> bool" where
  "settled l \<longleftrightarrow> named l \<and> throws l \<and>
     (\<forall>w. usable w l \<and> (writing l w \<longrightarrow> spos (streams l w) = length (files l w)))"

definition kept :: "block_log \<Rightarrow> block_log \<Rightarrow> bool" where
  "kept l k \<longleftrightarrow> settled k \<and> files k = files l \<and> log_head k = log_head l \<and> log_head_id k = log_head_id l"

lemma kept_trans: "kept l k \<Longrightarrow> kept k m \<Longrightarrow> kept l m"
  by (simp add: kept_def)

lemma kept_refl: "settled l \<Longrightarrow> kept l l"
  by (simp add: kept_def)

lemmas stream_defs = set_stream_def set_writing_def set_file_def usable_def seq_def bnd_def update_def
  stream_close_def stream_open_def stream_seek_def stream_seek_last8_def stream_get_def stream_write_def
  ret_def gets_def

lemma check_read_ok:
  assumes "settled l"
  obtains k where "check_read w l = (Inr (), k)" "kept l k" "\<not> writing k w"
    "\<And>v. v \<noteq> w \<Longrightarrow> writing k v = writing l v" "spos (streams k w) = (if writing l w then 0 else spos (streams l w))"
  using assms that by (cases "writing l w") (auto simp: check_read_def kept_def settled_def stream_defs)

lemma check_write_ok:
  assumes "settled l"
  obtains k where "check_write w l = (Inr (), k)" "kept l k" "writing k w"
    "\<And>v. v \<noteq> w \<Longrightarrow> writing k v = writing l v"
  using assms that by (cases "writing l w") (auto simp: check_write_def kept_def settled_def stream_defs)

lemma stream_seek_ok:
  assumes "settled l" and "\<not> writing l w" and "unat p < 2 ^ 63"
  obtains k where "stream_seek w p l = (Inr (), k)" "kept l k" "writing k = writing l"
    "spos (streams k w) = unat p"
  using assms that by (auto simp: kept_def settled_def stream_defs)

lemma stream_seek_last8_ok:
  assumes "settled l" and "\<not> writing l w" and "8 \<le> length (files l w)"
  obtains k where "stream_seek_last8 w l = (Inr (), k)" "kept l k" "writing k = writing l"
    "spos (streams k w) = length (files l w) - 8"
  using assms that by (auto simp: kept_def settled_def stream_defs)

lemma stream_get_ok:
  assumes "settled l" and "\<not> writing l w" and "c_get c (drop (spos (streams l w)) (files l w)) = (Inr v, rest)"
  obtains k where "stream_get c w l = (Inr v, k)" "kept l k" "writing k = writing l"
    "spos (streams k w) = length (files l w) - length rest"
  using assms that by (auto simp: kept_def settled_def stream_defs)

lemma stream_write_ok:
  assumes "settled l" and "writing l w"
  obtains k where "stream_write w d l = (Inr (), k)" "settled k" "writing k = writing l"
    "files k = (files l)(w := files l w @ d)" "log_head k = log_head l" "log_head_id k = log_head_id l"
    "\<And>v. v \<noteq> w \<Longrightarrow> streams k v = streams l v"
  using assms that by (auto simp: settled_def stream_defs)

lemma stream_tell_end:
  "settled l \<Longrightarrow> writing l w \<Longrightarrow> stream_tell w l = word_of_nat (length (files l w))"
  by (simp add: settled_def stream_tell_def)

subsection \<open>A log that stores a list of blocks\<close>

definition block_fits :: "signed_block \<Rightarrow> bool" where
  "block_fits b \<longleftrightarrow> block_ok b \<and> pack_size c_signed_block b < 2 ^ 31"

definition numbered :: "signed_block list \<Rightarrow> bool" where
  "numbered bs \<longleftrightarrow> (\<forall>i < length bs. block_num (bs ! i) = word_of_nat (Suc i) \<and> block_fits (bs ! i)) \<and>
     length bs < 2 ^ 32 \<and> length (layout 0 bs) < 2 ^ 63"

definition head_is :: "crypto \<Rightarrow> signed_block list \<Rightarrow> block_log \<Rightarrow> bool" where
  "head_is cr bs l \<longleftrightarrow>
     (if bs = [] then log_head l = None
      else log_head l = Some (last bs) \<and> log_head_id l = block_id cr (last bs))"

definition log_ok :: "crypto \<Rightarrow> signed_block list \<Rightarrow> block_log \<Rightarrow> bool" where
  "log_ok cr bs l \<longleftrightarrow> settled l \<and> numbered bs \<and> head_is cr bs l \<and>
     files l Block_File = layout 0 bs \<and> files l Index_File = index_bytes (starts 0 bs)"

lemma log_ok_kept: "log_ok cr bs l \<Longrightarrow> kept l k \<Longrightarrow> log_ok cr bs k"
  by (simp add: log_ok_def kept_def head_is_def)

lemma unat_pos: "n < 2 ^ 63 \<Longrightarrow> unat (word_of_nat n :: u64) = n"
  by (simp add: unat_of_nat)

lemma numbered_starts:
  assumes "numbered bs" and "i < length bs"
  shows "starts 0 bs ! i < 2 ^ 63" and "unat (word_of_nat (starts 0 bs ! i) :: u64) = starts 0 bs ! i"
proof -
  show b: "starts 0 bs ! i < 2 ^ 63" using starts_bound [OF assms(2)] assms(1) by (simp add: numbered_def)
  show "unat (word_of_nat (starts 0 bs ! i) :: u64) = starts 0 bs ! i" by (rule unat_pos [OF b])
qed

lemma get_block: "block_ok b \<Longrightarrow> c_get c_signed_block (packed c_signed_block b @ rest) = (Inr b, rest)"
  using rt_signed_block by (simp add: round_trip_def)

lemma read_block_helper_ok:
  assumes l: "settled l" and f: "files l Block_File = pre @ packed c_signed_block b @ post"
    and b: "block_ok b" and p: "length pre < 2 ^ 63"
  obtains k q where "read_block_helper (word_of_nat (length pre)) l = (Inr (b, q), k)" "kept l k"
    "writing k Index_File = writing l Index_File"
proof -
  obtain k where k: "check_read Block_File l = (Inr (), k)" "kept l k" "\<not> writing k Block_File"
    "writing k Index_File = writing l Index_File"
    using check_read_ok [OF l, of Block_File] by (metis log_file.distinct(1))
  have ks: "settled k" using k(2) by (simp add: kept_def)
  obtain m where m: "stream_seek Block_File (word_of_nat (length pre)) k = (Inr (), m)" "kept k m"
    "writing m = writing k" "spos (streams m Block_File) = length pre"
    using stream_seek_ok [OF ks k(3), of "word_of_nat (length pre)"] p unat_pos [OF p] by metis
  have ms: "settled m" "\<not> writing m Block_File" "files m Block_File = pre @ packed c_signed_block b @ post"
    using m k f by (simp_all add: kept_def)
  then have "c_get c_signed_block (drop (spos (streams m Block_File)) (files m Block_File)) = (Inr b, post)"
    by (simp add: m(4) get_block [OF b])
  then obtain n where n: "stream_get c_signed_block Block_File m = (Inr b, n)" "kept m n" "writing n = writing m"
    using stream_get_ok [OF ms(1,2)] by metis
  show thesis
  proof (rule that)
    show "read_block_helper (word_of_nat (length pre)) l = (Inr (b, stream_tell Block_File n + 8), n)"
      by (simp add: read_block_helper_def seq_def bnd_def gets_def k(1) m(1) n(1))
  qed (use kept_trans [OF k(2) kept_trans [OF m(2) n(2)]] k(4) m(3) n(3) in simp_all)
qed

lemma read_at:
  assumes l: "log_ok cr bs l" and i: "i < length bs"
  obtains k q where "read_block_helper (word_of_nat (starts 0 bs ! i)) l = (Inr (bs ! i, q), k)" "kept l k"
proof -
  have s: "starts 0 bs ! i = length (layout 0 (take i bs))" using starts_nth [OF i, of 0] by simp
  have f: "files l Block_File = layout 0 (take i bs) @ packed c_signed_block (bs ! i) @
      le_bytes 8 (starts 0 bs ! i) @
      layout (starts 0 bs ! i + length (packed c_signed_block (bs ! i)) + 8) (drop (Suc i) bs)"
    using l layout_split [OF i, of 0] by (simp add: log_ok_def)
  have "settled l" "block_ok (bs ! i)" "length (layout 0 (take i bs)) < 2 ^ 63"
    using l i numbered_starts(1) [of bs i] by (auto simp: log_ok_def numbered_def block_fits_def s)
  from read_block_helper_ok [OF this(1) f this(2,3)] that show thesis unfolding s by metis
qed

lemma index_offset: "unat (8 * ucast (x :: u32) :: u64) = 8 * unat x"
proof -
  have x: "unat x < 2 ^ 32" using unat_bound [of x] by simp
  have "unat (ucast x :: u64) = unat x" using x by (simp add: unsigned_ucast_eq take_bit_nat_eq_self_iff)
  then show ?thesis using x by (simp add: unat_word_ariths)
qed

lemma unat_pred: "0 < unat (n :: u32) \<Longrightarrow> unat (n - 1) = unat n - 1"
  by (simp add: unat_sub_if_size)

lemma block_pos_ok:
  assumes l: "log_ok cr bs l" and n: "0 < unat n" "unat n \<le> length bs"
  obtains k where "get_block_pos_helper n l = (Inr (word_of_nat (starts 0 bs ! (unat n - 1))), k)" "kept l k"
proof -
  let ?i = "unat n - 1"
  have i: "?i < length bs" and ne: "bs \<noteq> []" using n by auto
  have num: "settled l" "numbered bs" using l by (simp_all add: log_ok_def)
  obtain k where k: "check_read Index_File l = (Inr (), k)" "kept l k" "\<not> writing k Index_File"
    using check_read_ok [OF num(1), of Index_File] by metis
  have ks: "settled k" "files k Index_File = index_bytes (starts 0 bs)"
    "log_head k \<noteq> None" "log_head_id k = block_id cr (last bs)"
    using k(2) l ne by (simp_all add: kept_def log_ok_def head_is_def)
  have "block_num (last bs) = word_of_nat (length bs)"
    using num(2) n i unfolding numbered_def
    by (metis Suc_pred' add_diff_cancel_left' last_conv_nth length_greater_0_conv less_le_trans plus_1_eq_Suc diff_less zero_less_one)
  moreover have "n \<le> (word_of_nat (length bs) :: u32)"
    using n num(2) by (simp add: word_le_nat_alt unat_of_nat numbered_def)
  ultimately have known: "n \<le> num_from_id (log_head_id k)" "n > 0"
    using n by (simp_all add: ks(4) num_of_block_id word_less_nat_alt)
  have n32: "unat n < 2 ^ 32" using unat_bound [of n] by simp
  have p: "unat (8 * ucast (n - 1) :: u64) = 8 * ?i"
    using n(1) by (simp add: index_offset unat_pred)
  have "unat (8 * ucast (n - 1) :: u64) < 2 ^ 63" using n32 by (simp add: p)
  then obtain m where m: "stream_seek Index_File (8 * ucast (n - 1)) k = (Inr (), m)" "kept k m"
    "writing m = writing k" "spos (streams m Index_File) = 8 * ?i"
    using stream_seek_ok [OF ks(1) k(3)] p by metis
  have ms: "settled m" "\<not> writing m Index_File" using m k by (simp_all add: kept_def)
  have "files m Index_File = index_bytes (starts 0 bs)" using m(2) ks(2) by (simp add: kept_def)
  then have "c_get (c_word 8 :: u64 codec) (drop (spos (streams m Index_File)) (files m Index_File)) =
      (Inr (word_of_nat (starts 0 bs ! ?i)), index_bytes (drop (Suc ?i) (starts 0 bs)))"
    using drop_index [of ?i "starts 0 bs"] i by (simp add: m(4))
  then obtain q where q: "stream_get (c_word 8) Index_File m = (Inr (word_of_nat (starts 0 bs ! ?i) :: u64), q)"
    "kept m q"
    using stream_get_ok [OF ms] by metis
  show thesis
  proof (rule that)
    show "get_block_pos_helper n l = (Inr (word_of_nat (starts 0 bs ! ?i)), q)"
      using ks(3) known by (simp add: get_block_pos_helper_def seq_def bnd_def gets_def k(1) m(1) q(1))
  qed (use kept_trans [OF k(2) kept_trans [OF m(2) q(2)]] in simp)
qed

subsection \<open>Appending\<close>

lemma append_pos:
  assumes "log_ok cr bs l"
  obtains k where "check_write Block_File l = (Inr (), k)" "kept l k" "settled k" "writing k Block_File"
    "log_ok cr bs k"
proof -
  have "settled l" using assms by (simp add: log_ok_def)
  then obtain k where k: "check_write Block_File l = (Inr (), k)" "kept l k" "writing k Block_File"
    using check_write_ok by metis
  show thesis
    by (rule that [OF k(1,2) _ k(3) log_ok_kept [OF assms k(2)]]) (use k(2) in \<open>simp add: kept_def\<close>)
qed

lemma append_start:
  assumes "log_ok cr bs l"
  obtains m where "log_append cr b l =
     (seq (check (word_of_nat (8 * length bs) = (8 * ucast (block_num b - 1) :: u64)) Fc_Assert)
     (bnd (lift_r (pack_to_vector c_signed_block b)) (\<lambda>data.
      seq (stream_write Block_File data)
     (seq (stream_write Block_File (le_bytes 8 (unat (word_of_nat (length (layout 0 bs)) :: u64))))
     (seq (stream_write Index_File (le_bytes 8 (unat (word_of_nat (length (layout 0 bs)) :: u64))))
     (seq (update (\<lambda>l. l\<lparr>log_head := Some b, log_head_id := block_id cr b\<rparr>))
     (ret (word_of_nat (length (layout 0 bs)))))))))) m"
    "log_ok cr bs m" "writing m Block_File" "writing m Index_File"
proof -
  obtain k where k: "check_write Block_File l = (Inr (), k)" "settled k" "writing k Block_File" "log_ok cr bs k"
    using append_pos [OF assms] by metis
  obtain m where m: "check_write Index_File k = (Inr (), m)" "kept k m" "writing m Index_File"
    "writing m Block_File = writing k Block_File"
    using check_write_ok [OF k(2), of Index_File] by (metis log_file.distinct(1))
  have ok: "log_ok cr bs m" by (rule log_ok_kept [OF k(4) m(2)])
  have s: "settled m" "writing m Block_File" using ok m(4) k(3) by (simp_all add: log_ok_def)
  have t: "stream_tell Block_File m = word_of_nat (length (layout 0 bs))"
    "stream_tell Index_File m = word_of_nat (8 * length bs)"
    using stream_tell_end [OF s] stream_tell_end [OF s(1) m(3)] ok by (simp_all add: log_ok_def)
  show thesis
    by (rule that [OF _ ok s(2) m(3)])
       (unfold t [symmetric], simp add: log_append_def seq_def bnd_def gets_def k(1) m(1))
qed

lemma word_pos_eq:
  assumes "n < 2 ^ 32"
  shows "(word_of_nat (8 * n) = (8 * ucast (x :: u32) :: u64)) \<longleftrightarrow> unat x = n"
proof -
  have "unat (word_of_nat (8 * n) :: u64) = 8 * n" using assms by (subst unat_of_nat) simp
  then show ?thesis using index_offset [of x] by (metis mult_cancel_left numeral_eq_iff word_unat_eq_iff zero_neq_numeral)
qed

lemma unat_num_pred:
  assumes "n < 2 ^ 32" shows "unat (x - 1 :: u32) = n \<longleftrightarrow> x = word_of_nat (Suc n)"
proof -
  have "unat (word_of_nat n :: u32) = n" using assms by (simp add: unat_of_nat)
  then have "unat (x - 1) = n \<longleftrightarrow> x - 1 = word_of_nat n" by (metis word_unat_eq_iff)
  then show ?thesis by (auto simp: algebra_simps)
qed

lemma append_wrong_number:
  assumes l: "log_ok cr bs l" and n: "block_num b \<noteq> word_of_nat (Suc (length bs))"
  shows "\<exists>k. log_append cr b l = (Inl Fc_Assert, k) \<and> log_ok cr bs k"
proof -
  have len: "length bs < 2 ^ 32" using l by (simp add: log_ok_def numbered_def)
  have c: "(word_of_nat (8 * length bs) = (8 * ucast (block_num b - 1) :: u64)) = False"
    unfolding word_pos_eq [OF len] unat_num_pred [OF len] using n by simp
  show ?thesis
    by (rule append_start [OF l, of b], unfold c) (auto simp: seq_def bnd_def check_def raise_def)
qed

lemma numbered_snoc:
  "numbered (bs @ [b]) \<longleftrightarrow> numbered bs \<and> block_num b = word_of_nat (Suc (length bs)) \<and> block_fits b \<and>
     Suc (length bs) < 2 ^ 32 \<and> length (layout 0 (bs @ [b])) < 2 ^ 63"
proof -
  have le: "length (layout 0 bs) \<le> length (layout 0 (bs @ [b]))"
    by (simp add: layout_append)
  show ?thesis
    by (auto simp: numbered_def nth_append less_Suc_eq dest: le_less_trans [OF le])
qed

lemma append_right_number:
  assumes l: "log_ok cr bs l" and n: "numbered (bs @ [b])"
  shows "\<exists>k. log_append cr b l = (Inr (word_of_nat (length (layout 0 bs))), k) \<and> log_ok cr (bs @ [b]) k"
proof -
  let ?p = "word_of_nat (length (layout 0 bs)) :: u64"
  have b: "length bs < 2 ^ 32" "block_num b = word_of_nat (Suc (length bs))" "block_fits b"
    "length (layout 0 bs) < 2 ^ 63"
    using n unfolding numbered_snoc by (auto simp: numbered_def)
  have c: "word_of_nat (8 * length bs) = (8 * ucast (block_num b - 1) :: u64)"
    unfolding word_pos_eq [OF b(1)] unat_num_pred [OF b(1)] by (rule b(2))
  have d: "pack_to_vector c_signed_block b = Inr (packed c_signed_block b)"
    using b(3) by (intro signed_block.pack_ok) (simp add: block_fits_def)
  have p: "unat ?p = length (layout 0 bs)" by (rule unat_pos [OF b(4)])
  obtain m where m: "log_append cr b l = (seq (check True Fc_Assert)
     (bnd (lift_r (Inr (packed c_signed_block b))) (\<lambda>data.
      seq (stream_write Block_File data)
     (seq (stream_write Block_File (le_bytes 8 (length (layout 0 bs))))
     (seq (stream_write Index_File (le_bytes 8 (length (layout 0 bs))))
     (seq (update (\<lambda>l. l\<lparr>log_head := Some b, log_head_id := block_id cr b\<rparr>)) (ret ?p)))))) m)"
    "log_ok cr bs m" "writing m Block_File" "writing m Index_File"
    using append_start [OF l, of b] unfolding d p c [unfolded eq_True [symmetric]] by metis
  have ms: "settled m" using m(2) by (simp add: log_ok_def)
  obtain q where q: "stream_write Block_File (packed c_signed_block b) m = (Inr (), q)" "settled q"
    "writing q = writing m" "files q = (files m)(Block_File := files m Block_File @ packed c_signed_block b)"
    using stream_write_ok [OF ms m(3)] by metis
  obtain r where r: "stream_write Block_File (le_bytes 8 (length (layout 0 bs))) q = (Inr (), r)" "settled r"
    "writing r = writing m"
    "files r = (files q)(Block_File := files q Block_File @ le_bytes 8 (length (layout 0 bs)))"
    using stream_write_ok [OF q(2), of Block_File] q(3) m(3) by metis
  obtain t where t: "stream_write Index_File (le_bytes 8 (length (layout 0 bs))) r = (Inr (), t)" "settled t"
    "files t = (files r)(Index_File := files r Index_File @ le_bytes 8 (length (layout 0 bs)))"
    using stream_write_ok [OF r(2), of Index_File] r(3) m(4) by metis
  let ?t = "t\<lparr>log_head := Some b, log_head_id := block_id cr b\<rparr>"
  have "log_append cr b l = (Inr ?p, ?t)"
    unfolding m(1) by (simp add: seq_def bnd_def check_def lift_r_def q(1) r(1) t(1) update_def ret_def)
  moreover have "log_ok cr (bs @ [b]) ?t"
    using t(2,3) r(4) q(4) m(2) n
    by (simp add: log_ok_def head_is_def settled_def usable_def layout_append starts_append index_bytes_append)
  ultimately show ?thesis by blast
qed

end
