(* ===== verification/Block_Log_Open.thy ===== *)
theory Block_Log_Open
  imports Block_Log_Facts
begin

section \<open>The block log: opening and rebuilding the index\<close>

text \<open>
  The loop of \<open>construct_index\<close> on the log file of a list of blocks, and \<open>open\<close> for the states
  the two files can be in.
\<close>

lemma starts_take: "i \<le> j \<Longrightarrow> j < length bs \<Longrightarrow> i < j \<Longrightarrow> starts 0 bs ! i + 8 \<le> starts 0 bs ! j"
  using starts_bound [of i "take j bs"] starts_nth [of j bs 0] starts_nth [of i bs 0]
    starts_nth [of i "take j bs" 0] by simp

lemma count_le_layout: "length bs \<le> length (layout p bs)"
  by (induction p bs rule: layout.induct) simp_all

lemma index_bytes_snoc:
  "i < length ps \<Longrightarrow> index_bytes (take i ps) @ le_bytes 8 (ps ! i) = index_bytes (take (Suc i) ps)"
  by (simp add: take_Suc_conv_app_nth index_bytes_append)

text \<open>The loop counter: the position read last, and whether another block follows.\<close>

lemma loop_test:
  assumes n: "numbered bs" and i: "i \<le> length bs" "i = 0 \<Longrightarrow> 2 \<le> length bs"
  shows "(word_of_nat (if i = 0 then 0 else starts 0 bs ! (i - 1)) :: u64) <
      word_of_nat (starts 0 bs ! (length bs - 1)) \<longleftrightarrow> i < length bs"
proof -
  let ?p = "if i = 0 then 0 else starts 0 bs ! (i - 1)"
  have ne: "length bs - 1 < length bs" using i by (cases "i = 0") auto
  have p: "?p < 2 ^ 63" using numbered_starts(1) [OF n, of "i - 1"] i by auto
  have e: "?p < starts 0 bs ! (length bs - 1) \<longleftrightarrow> i < length bs"
  proof (cases "i < length bs")
    case True
    then have "?p + 8 \<le> starts 0 bs ! (length bs - 1)"
      using starts_take [of "i - 1" "length bs - 1" bs] starts_take [of 0 "length bs - 1" bs] i(2) ne
      by (cases "i = 0") auto
    with True show ?thesis by simp
  next
    case False
    then have "i = length bs" "i \<noteq> 0" using i ne by auto
    then show ?thesis by simp
  qed
  show ?thesis
    unfolding word_less_nat_alt unat_pos [OF p] numbered_starts(2) [OF n ne] by (rule e)
qed

lemma index_loop_ok:
  assumes "settled l" and "\<not> writing l Block_File" and "writing l Index_File"
    and "files l Block_File = layout 0 bs" and n: "numbered bs"
    and "i \<le> length bs" and two: "i = 0 \<Longrightarrow> 2 \<le> length bs"
    and "spos (streams l Block_File) = length (layout 0 (take i bs))"
    and "files l Index_File = index_bytes (take i (starts 0 bs))"
    and "length bs - i \<le> fuel"
  shows "\<exists>k. index_loop fuel (word_of_nat (if i = 0 then 0 else starts 0 bs ! (i - 1)))
       (word_of_nat (starts 0 bs ! (length bs - 1))) l = (Inr (), k) \<and>
     settled k \<and> files k = (files l)(Index_File := index_bytes (starts 0 bs)) \<and>
     log_head k = log_head l \<and> log_head_id k = log_head_id l"
  using assms(1-4,6-)
proof (induction fuel arbitrary: i l)
  case 0
  then have "i = length bs" by simp
  with 0 loop_test [OF n 0(5,6)] show ?case
    by (subst index_loop.simps) (auto simp: ret_def fun_upd_idem)
next
  case (Suc fuel)
  show ?case
  proof (cases "i < length bs")
    case False
    then have "i = length bs" using Suc.prems(5) by simp
    with Suc.prems loop_test [OF n Suc.prems(5,6)] show ?thesis
      by (subst index_loop.simps) (auto simp: ret_def fun_upd_idem)
  next
    case True
    let ?rest = "layout (starts 0 bs ! i + length (packed c_signed_block (bs ! i)) + 8) (drop (Suc i) bs)"
    let ?mid = "le_bytes 8 (starts 0 bs ! i) @ ?rest"
    have ok: "block_ok (bs ! i)" using n True by (simp add: numbered_def block_fits_def)
    have sp: "layout 0 bs = layout 0 (take i bs) @ packed c_signed_block (bs ! i) @ ?mid"
      using layout_split [OF True, of 0] by simp
    have g1: "c_get c_signed_block (drop (spos (streams l Block_File)) (files l Block_File)) = (Inr (bs ! i), ?mid)"
      unfolding Suc.prems(4,7) by (subst sp) (simp add: get_block [OF ok])
    obtain k where k: "stream_get c_signed_block Block_File l = (Inr (bs ! i), k)" "kept l k" "writing k = writing l"
      "spos (streams k Block_File) = length (files l Block_File) - length ?mid"
      by (rule stream_get_ok [OF Suc.prems(1,2) g1])
    have ks: "settled k" "\<not> writing k Block_File" "files k = files l"
      using k Suc.prems by (simp_all add: kept_def)
    have dk: "drop (spos (streams k Block_File)) (layout 0 bs) = ?mid"
    proof -
      have "spos (streams k Block_File) = length (layout 0 (take i bs) @ packed c_signed_block (bs ! i))"
        unfolding k(4) Suc.prems(4) by (subst sp) simp
      then show ?thesis by (subst sp) simp
    qed
    have g2: "c_get (c_word 8 :: u64 codec) (drop (spos (streams k Block_File)) (files k Block_File)) =
        (Inr (word_of_nat (starts 0 bs ! i)), ?rest)"
      unfolding ks(3) Suc.prems(4) dk by simp
    obtain m where m: "stream_get (c_word 8) Block_File k = (Inr (word_of_nat (starts 0 bs ! i) :: u64), m)"
      "kept k m" "writing m = writing k" "spos (streams m Block_File) = length (files k Block_File) - length ?rest"
      by (rule stream_get_ok [OF ks(1,2) g2])
    have ms: "settled m" "writing m Index_File" "files m = files l"
      using m k ks Suc.prems by (simp_all add: kept_def)
    obtain q where q: "stream_write Index_File (le_bytes 8 (starts 0 bs ! i)) m = (Inr (), q)" "settled q"
      "writing q = writing m" "files q = (files m)(Index_File := files m Index_File @ le_bytes 8 (starts 0 bs ! i))"
      "log_head q = log_head m" "log_head_id q = log_head_id m" "streams q Block_File = streams m Block_File"
      using stream_write_ok [OF ms(1,2)] by (metis log_file.distinct(1))
    have len: "length (layout 0 bs) = length (layout 0 (take (Suc i) bs)) + length ?rest"
      by (subst sp) (simp add: take_Suc_conv_app_nth [OF True] layout_append)
    have p: "unat (word_of_nat (starts 0 bs ! i) :: u64) = starts 0 bs ! i"
      by (rule numbered_starts(2) [OF n True])
    have test: "(word_of_nat (if i = 0 then 0 else starts 0 bs ! (i - 1)) :: u64) <
        word_of_nat (starts 0 bs ! (length bs - 1))"
      using loop_test [OF n Suc.prems(5,6)] True by simp
    have step: "index_loop (Suc fuel) (word_of_nat (if i = 0 then 0 else starts 0 bs ! (i - 1)))
        (word_of_nat (starts 0 bs ! (length bs - 1))) l =
      index_loop fuel (word_of_nat (if Suc i = 0 then 0 else starts 0 bs ! (Suc i - 1)))
        (word_of_nat (starts 0 bs ! (length bs - 1))) q"
      unfolding index_loop.simps [of "Suc fuel"] if_P [OF test]
      by (simp add: bnd_def seq_def k(1) m(1) p q(1))
    have "\<exists>r. index_loop fuel (word_of_nat (if Suc i = 0 then 0 else starts 0 bs ! (Suc i - 1)))
        (word_of_nat (starts 0 bs ! (length bs - 1))) q = (Inr (), r) \<and>
      settled r \<and> files r = (files q)(Index_File := index_bytes (starts 0 bs)) \<and>
      log_head r = log_head q \<and> log_head_id r = log_head_id q"
    proof (rule Suc.IH [OF q(2)])
      show "\<not> writing q Block_File" "writing q Index_File" using q(3) m(3) k(3) Suc.prems by simp_all
      show "files q Block_File = layout 0 bs" using q(4) ms(3) Suc.prems(4) by simp
      show "Suc i \<le> length bs" "length bs - Suc i \<le> fuel" using True Suc.prems(9) by simp_all
      show "spos (streams q Block_File) = length (layout 0 (take (Suc i) bs))"
        using q(7) m(4) ks(3) Suc.prems(4) len by simp
      show "files q Index_File = index_bytes (take (Suc i) (starts 0 bs))"
        using q(4) ms(3) Suc.prems(8) index_bytes_snoc [of i "starts 0 bs"] True by simp
    qed simp
    then show ?thesis
      unfolding step using q(4-6) ms(3) m(2) k(2) by (auto simp: kept_def)
  qed
qed

subsection \<open>Rebuilding\<close>

lemma last_pos:
  assumes "numbered bs" and "bs \<noteq> []"
  shows "c_get (c_word 8 :: u64 codec) (drop (length (layout 0 bs) - 8) (layout 0 bs)) =
      (Inr (word_of_nat (starts 0 bs ! (length bs - 1))), [])"
    and "8 \<le> length (layout 0 bs)"
proof -
  have "last (starts 0 bs) = starts 0 bs ! (length bs - 1)"
    using assms(2) by (metis last_conv_nth length_0_conv length_starts)
  then show "c_get (c_word 8 :: u64 codec) (drop (length (layout 0 bs) - 8) (layout 0 bs)) =
      (Inr (word_of_nat (starts 0 bs ! (length bs - 1))), [])"
    using starts_last [OF assms(2)] by simp
  show "8 \<le> length (layout 0 bs)" using assms(2) by (cases bs) simp_all
qed

lemma read_last_pos:
  assumes "settled l" and "\<not> writing l Block_File" and "files l Block_File = layout 0 bs"
    and "numbered bs" and "bs \<noteq> []"
  obtains k m where "stream_seek_last8 Block_File l = (Inr (), k)"
    "stream_get (c_word 8) Block_File k = (Inr (word_of_nat (starts 0 bs ! (length bs - 1)) :: u64), m)"
    "kept l m" "writing m = writing l"
proof -
  obtain k where k: "stream_seek_last8 Block_File l = (Inr (), k)" "kept l k" "writing k = writing l"
    "spos (streams k Block_File) = length (layout 0 bs) - 8"
    using stream_seek_last8_ok [OF assms(1,2)] last_pos(2) [OF assms(4,5)] assms(3) by metis
  have "c_get (c_word 8 :: u64 codec) (drop (spos (streams k Block_File)) (files k Block_File)) =
      (Inr (word_of_nat (starts 0 bs ! (length bs - 1))), [])"
    using k(2,4) assms(3) last_pos(1) [OF assms(4,5)] by (simp add: kept_def)
  moreover have "settled k" "\<not> writing k Block_File" using k assms(2) by (simp_all add: kept_def)
  ultimately obtain m where m:
    "stream_get (c_word 8) Block_File k = (Inr (word_of_nat (starts 0 bs ! (length bs - 1)) :: u64), m)"
    "kept k m" "writing m = writing k"
    using stream_get_ok by metis
  show thesis
    by (rule that [OF k(1) m(1) kept_trans [OF k(2) m(2)]]) (simp add: m(3) k(3))
qed

lemma recreate_index:
  assumes "settled l"
  obtains k where
    "\<And>M :: (block_log, unit) sx. seq (stream_close Index_File) (seq (update (set_file Index_File []))
        (seq (stream_open True Index_File) (seq (update (set_writing Index_File True)) M))) l = M k"
    "settled k" "writing k Index_File" "files k = (files l)(Index_File := [])"
    "log_head k = log_head l" "log_head_id k = log_head_id l"
  using assms that by (auto simp: settled_def stream_defs)

lemma construct_index_start:
  assumes l: "settled l" and f: "files l Block_File = layout 0 bs" and n: "numbered bs" "bs \<noteq> []"
  obtains k where "construct_index l =
      index_loop (length (layout 0 bs)) 0 (word_of_nat (starts 0 bs ! (length bs - 1))) k"
    "settled k" "\<not> writing k Block_File" "writing k Index_File" "files k = (files l)(Index_File := [])"
    "log_head k = log_head l" "log_head_id k = log_head_id l" "spos (streams k Block_File) = 0"
proof -
  obtain a where a:
    "\<And>M :: (block_log, unit) sx. seq (stream_close Index_File) (seq (update (set_file Index_File []))
        (seq (stream_open True Index_File) (seq (update (set_writing Index_File True)) M))) l = M a"
    "settled a" "writing a Index_File" "files a = (files l)(Index_File := [])"
    "log_head a = log_head l" "log_head_id a = log_head_id l"
    using recreate_index [OF l] by blast
  obtain b where b: "check_read Block_File a = (Inr (), b)" "kept a b" "\<not> writing b Block_File"
    "writing b Index_File = writing a Index_File"
    using check_read_ok [OF a(2), of Block_File] by (metis log_file.distinct(1))
  have bs: "settled b" "files b Block_File = layout 0 bs" using b(2) a(4) f by (simp_all add: kept_def)
  obtain c d where c: "stream_seek_last8 Block_File b = (Inr (), c)"
    "stream_get (c_word 8) Block_File c = (Inr (word_of_nat (starts 0 bs ! (length bs - 1)) :: u64), d)"
    "kept b d" "writing d = writing b"
    using read_last_pos [OF bs(1) b(3) bs(2) n] by metis
  have d: "settled d" "\<not> writing d Block_File" using c b(3) by (simp_all add: kept_def)
  obtain e where e: "stream_seek Block_File 0 d = (Inr (), e)" "kept d e" "writing e = writing d"
    "spos (streams e Block_File) = 0"
    using stream_seek_ok [OF d, of 0] by (metis unsigned_0 zero_less_numeral zero_less_power)
  have k: "kept a e" using kept_trans b(2) c(3) e(2) by blast
  show thesis
  proof (rule that)
    show "construct_index l = index_loop (length (layout 0 bs)) 0 (word_of_nat (starts 0 bs ! (length bs - 1))) e"
      unfolding construct_index_def a(1) using k a(4) f
      by (simp add: seq_def bnd_def gets_def b(1) c(1,2) e(1) kept_def)
  qed (use k a b(3,4) c(4) e(3,4) in \<open>simp_all add: kept_def\<close>)
qed

lemma construct_index_ok:
  assumes "settled l" and f: "files l Block_File = layout 0 bs" and n: "numbered bs" and two: "2 \<le> length bs"
  obtains k where "construct_index l = (Inr (), k)" "settled k"
    "files k = (files l)(Index_File := index_bytes (starts 0 bs))"
    "log_head k = log_head l" "log_head_id k = log_head_id l"
proof -
  have ne: "bs \<noteq> []" using two by auto
  obtain k where k: "construct_index l =
      index_loop (length (layout 0 bs)) 0 (word_of_nat (starts 0 bs ! (length bs - 1))) k"
    "settled k" "\<not> writing k Block_File" "writing k Index_File" "files k = (files l)(Index_File := [])"
    "log_head k = log_head l" "log_head_id k = log_head_id l" "spos (streams k Block_File) = 0"
    using construct_index_start [OF assms(1) f n ne] by blast
  have "files k Block_File = layout 0 bs" "spos (streams k Block_File) = length (layout 0 (take 0 bs))"
    "files k Index_File = index_bytes (take 0 (starts 0 bs))"
    using k f by simp_all
  from index_loop_ok [OF k(2-4) this(1) n _ two this(2,3)] count_le_layout [of bs 0] k that
  show thesis by (auto simp: fun_upd_idem)
qed

text \<open>With a single block the loop is not entered and the index stays empty.\<close>

lemma construct_index_one:
  assumes "settled l" and "files l Block_File = layout 0 [b]" and "numbered [b]"
  obtains k where "construct_index l = (Inr (), k)" "settled k" "files k = (files l)(Index_File := [])"
    "log_head k = log_head l" "log_head_id k = log_head_id l"
proof -
  obtain k where k: "construct_index l =
      index_loop (length (layout 0 [b])) 0 (word_of_nat (starts 0 [b] ! (length [b] - 1))) k"
    "settled k" "files k = (files l)(Index_File := [])"
    "log_head k = log_head l" "log_head_id k = log_head_id l"
    using construct_index_start [OF assms] by blast
  have "index_loop fuel 0 0 k = (Inr (), k)" for fuel by (simp add: index_loop.simps ret_def)
  with k that show thesis by simp
qed

subsection \<open>Opening\<close>

lemma read_head_ok:
  assumes l: "settled l" "files l Block_File = layout 0 bs" and n: "numbered bs" "bs \<noteq> []"
  obtains k where "read_head l = (Inr (last bs), k)" "kept l k"
proof -
  let ?i = "length bs - 1"
  have i: "?i < length bs" and last: "bs ! ?i = last bs" using n(2) by (simp_all add: last_conv_nth)
  obtain a where a: "check_read Block_File l = (Inr (), a)" "kept l a" "\<not> writing a Block_File"
    using check_read_ok [OF l(1)] by metis
  have as: "settled a" "files a Block_File = layout 0 bs" using a(2) l(2) by (simp_all add: kept_def)
  obtain b c where b: "stream_seek_last8 Block_File a = (Inr (), b)"
    "stream_get (c_word 8) Block_File b = (Inr (word_of_nat (starts 0 bs ! ?i) :: u64), c)" "kept a c"
    using read_last_pos [OF as(1) a(3) as(2) n] by metis
  have s: "starts 0 bs ! ?i = length (layout 0 (take ?i bs))" using starts_nth [OF i, of 0] by simp
  have f: "files c Block_File = layout 0 (take ?i bs) @ packed c_signed_block (bs ! ?i) @
      le_bytes 8 (starts 0 bs ! ?i) @
      layout (starts 0 bs ! ?i + length (packed c_signed_block (bs ! ?i)) + 8) (drop (Suc ?i) bs)"
    using b(3) as(2) layout_split [OF i, of 0] by (simp add: kept_def)
  have c: "settled c" "block_ok (bs ! ?i)" "length (layout 0 (take ?i bs)) < 2 ^ 63"
    using b(3) n(1) i numbered_starts(1) [OF n(1) i] unfolding s
    by (auto simp: kept_def numbered_def block_fits_def)
  from read_block_helper_ok [OF c(1) f c(2,3)] obtain k q where
    k: "read_block_helper (word_of_nat (starts 0 bs ! ?i)) c = (Inr (last bs, q), k)" "kept c k"
    unfolding s last by metis
  show thesis
  proof (rule that)
    show "read_head l = (Inr (last bs), k)"
      by (simp add: read_head_def seq_def bnd_def ret_def a(1) b(1,2) k(1) [unfolded One_nat_def])
  qed (use kept_trans a(2) b(3) k(2) in blast)
qed

text \<open>What \<open>open\<close> finds when the log holds \<open>bs\<close> and the index is \<open>idx\<close>.\<close>

definition index_current :: "signed_block list \<Rightarrow> bytes \<Rightarrow> bool" where
  "index_current bs idx \<longleftrightarrow> idx = index_bytes (starts 0 bs)"

definition index_stale :: "signed_block list \<Rightarrow> bytes \<Rightarrow> bool" where
  "index_stale bs idx \<longleftrightarrow>
     idx = [] \<or> 8 \<le> length idx \<and> drop (length idx - 8) idx \<noteq> le_bytes 8 (last (starts 0 bs))"

lemma index_last:
  assumes "bs \<noteq> []"
  shows "drop (length (index_bytes (starts 0 bs)) - 8) (index_bytes (starts 0 bs)) =
      le_bytes 8 (last (starts 0 bs))"
proof -
  have "starts 0 bs = butlast (starts 0 bs) @ [last (starts 0 bs)]"
    using assms by (metis append_butlast_last_id length_0_conv length_starts)
  then have "index_bytes (starts 0 bs) = index_bytes (butlast (starts 0 bs)) @ le_bytes 8 (last (starts 0 bs))"
    by (metis index_bytes_append index_bytes_simps append_Nil2)
  then show ?thesis by simp
qed

lemma word8_of_bytes:
  assumes "length d = 8"
  shows "c_get (c_word 8 :: u64 codec) d = (Inr (word_of_nat (of_le d)), [])"
  using get_word8_end [of "of_le d"] le_bytes_of_le [OF assms] by simp

lemma last8_eq_iff:
  assumes "length d = 8" and "p < 2 ^ 63"
  shows "(word_of_nat (of_le d) :: u64) = word_of_nat p \<longleftrightarrow> d = le_bytes 8 p"
proof -
  have "of_le d < 2 ^ 64" using of_le_bound [of d] assms(1) by simp
  then have "unat (word_of_nat (of_le d) :: u64) = of_le d" by (simp add: unat_of_nat)
  then have "(word_of_nat (of_le d) :: u64) = word_of_nat p \<longleftrightarrow> of_le d = p"
    using unat_pos [OF assms(2)] by metis
  also have "\<dots> \<longleftrightarrow> d = le_bytes 8 p"
    using le_bytes_of_le [OF assms(1)] of_le_bytes [of 8 p] assms(2) by auto
  finally show ?thesis .
qed

lemma check_index_step:
  assumes l: "settled l" and f: "files l Block_File = layout 0 bs" and n: "numbered bs" "bs \<noteq> []"
    and idx: "8 \<le> length (files l Index_File)"
  obtains k where "kept l k" "check_index l =
     (if drop (length (files l Index_File) - 8) (files l Index_File) = le_bytes 8 (last (starts 0 bs))
      then (Inr (), k) else construct_index k)"
proof -
  let ?e = "drop (length (files l Index_File) - 8) (files l Index_File)"
  let ?p = "word_of_nat (starts 0 bs ! (length bs - 1)) :: u64"
  obtain a where a: "check_read Block_File l = (Inr (), a)" "kept l a" "\<not> writing a Block_File"
    using check_read_ok [OF l] by metis
  have as: "settled a" using a(2) by (simp add: kept_def)
  obtain b where b: "check_read Index_File a = (Inr (), b)" "kept a b" "\<not> writing b Index_File"
    "writing b Block_File = writing a Block_File"
    using check_read_ok [OF as, of Index_File] by (metis log_file.distinct(1))
  have bs: "settled b" "\<not> writing b Block_File" "files b Block_File = layout 0 bs" "files b = files l"
    using a b f by (simp_all add: kept_def)
  obtain c d where c: "stream_seek_last8 Block_File b = (Inr (), c)"
    "stream_get (c_word 8) Block_File c = (Inr ?p, d)" "kept b d" "writing d = writing b"
    using read_last_pos [OF bs(1,2,3) n] by metis
  have ds: "settled d" "\<not> writing d Index_File" "files d = files l" using c b(3) bs(4) by (simp_all add: kept_def)
  obtain g where g: "stream_seek_last8 Index_File d = (Inr (), g)" "kept d g" "writing g = writing d"
    "spos (streams g Index_File) = length (files l Index_File) - 8"
    using stream_seek_last8_ok [OF ds(1,2)] idx ds(3) by metis
  have gs: "settled g" "\<not> writing g Index_File" "files g = files l" using g ds by (simp_all add: kept_def)
  have e: "length ?e = 8" using idx by simp
  have "c_get (c_word 8 :: u64 codec) (drop (spos (streams g Index_File)) (files g Index_File)) =
      (Inr (word_of_nat (of_le ?e)), [])"
    unfolding g(4) gs(3) by (rule word8_of_bytes [OF e])
  then obtain h where h: "stream_get (c_word 8) Index_File g = (Inr (word_of_nat (of_le ?e) :: u64), h)" "kept g h"
    using stream_get_ok [OF gs(1,2)] by metis
  have "length bs - 1 < length bs" using n(2) by simp
  note p = last8_eq_iff [OF e numbered_starts(1) [OF n(1) this]]
  have last: "starts 0 bs ! (length bs - 1) = last (starts 0 bs)"
    using n(2) by (metis last_conv_nth length_0_conv length_starts)
  show thesis
  proof (rule that)
    show "kept l h" using kept_trans a(2) b(2) c(3) g(2) h(2) by blast
    have "check_index l = (if ?p < word_of_nat (of_le ?e) then construct_index
        else if ?p > word_of_nat (of_le ?e) then construct_index else ret ()) h"
      by (simp add: check_index_def seq_def bnd_def a(1) b(1) c(1,2) g(1) h(1))
    also have "\<dots> = (if ?e = le_bytes 8 (last (starts 0 bs)) then (Inr (), h) else construct_index h)"
      unfolding p [symmetric, unfolded last] last by (auto simp: ret_def)
    finally show "check_index l = \<dots>" .
  qed
qed

definition just_opened :: "(log_file \<Rightarrow> bytes) \<Rightarrow> block_log" where
  "just_opened fs = \<lparr>log_head = None, log_head_id = replicate 20 0,
     streams = (\<lambda>w. \<lparr>opened = True, spos = length (fs w), bad = False\<rparr>), named = True,
     writing = (\<lambda>_. True), use_locking = True, throws = True, files = fs\<rparr>"

lemma just_opened_settled: "settled (just_opened fs)"
  by (simp add: settled_def just_opened_def usable_def)

lemma just_opened_fields [simp]: "files (just_opened fs) = fs" "log_head (just_opened fs) = None"
  by (simp_all add: just_opened_def)

lemma log_open_start:
  "log_open cr (new_block_log fs) =
     (if fs Block_File \<noteq> []
      then bnd read_head (\<lambda>b.
           seq (update (\<lambda>l. l\<lparr>log_head := Some b, log_head_id := block_id cr b\<rparr>))
           (if fs Index_File \<noteq> [] then check_index else construct_index)) (just_opened fs)
      else if fs Index_File \<noteq> []
      then seq (stream_close Index_File)
          (seq (update (set_file Index_File []))
          (seq (stream_open True Index_File)
          (update (set_writing Index_File True)))) (just_opened fs)
      else ret () (just_opened fs))"
proof -
  have o: "(\<lambda>_. closed_stream)(Block_File := x, Index_File := y) = (\<lambda>w. case w of Block_File \<Rightarrow> x | Index_File \<Rightarrow> y)"
    for x y by (auto split: log_file.splits)
  have s: "(\<lambda>w. case w of Block_File \<Rightarrow> \<lparr>opened = True, spos = length (fs Block_File), bad = False\<rparr>
      | Index_File \<Rightarrow> \<lparr>opened = True, spos = length (fs Index_File), bad = False\<rparr>) =
      (\<lambda>w. \<lparr>opened = True, spos = length (fs w), bad = False\<rparr>)"
    by (auto split: log_file.splits)
  show ?thesis
    by (simp add: log_open_def new_block_log_def log_impl_def seq_def bnd_def close_if_open_def closed_stream_def
        ret_def update_def gets_def stream_open_def set_stream_def o [unfolded closed_stream_def] s just_opened_def [symmetric])
qed

text \<open>Opening a log with blocks reads the head and then checks or rebuilds the index.\<close>

lemma open_nonempty:
  assumes n: "numbered bs" "bs \<noteq> []" and f: "fs Block_File = layout 0 bs"
  obtains l where "settled l" "files l = fs" "head_is cr bs l"
    "log_open cr (new_block_log fs) = (if fs Index_File \<noteq> [] then check_index l else construct_index l)"
proof -
  obtain k where k: "read_head (just_opened fs) = (Inr (last bs), k)" "kept (just_opened fs) k"
    using read_head_ok [OF just_opened_settled _ n, of fs] f by auto
  let ?l = "k\<lparr>log_head := Some (last bs), log_head_id := block_id cr (last bs)\<rparr>"
  show thesis
  proof (rule that)
    show "settled ?l" using k(2) by (simp add: kept_def settled_def usable_def)
    show "files ?l = fs" using k(2) by (simp add: kept_def)
    show "head_is cr bs ?l" using n by (simp add: head_is_def)
    show "log_open cr (new_block_log fs) = (if fs Index_File \<noteq> [] then check_index ?l else construct_index ?l)"
      using n(2) by (simp add: log_open_start f bnd_def seq_def update_def k(1))
  qed
qed

lemma head_is_kept: "head_is cr bs l \<Longrightarrow> log_head k = log_head l \<Longrightarrow> log_head_id k = log_head_id l \<Longrightarrow> head_is cr bs k"
  by (simp add: head_is_def)

text \<open>A stale index is rebuilt, whatever it held.\<close>

lemma open_stale:
  assumes n: "numbered bs" "bs \<noteq> []" and f: "fs Block_File = layout 0 bs" and i: "index_stale bs (fs Index_File)"
  obtains l where "settled l" "files l = fs" "head_is cr bs l"
    "log_open cr (new_block_log fs) = construct_index l"
proof -
  obtain l where l: "settled l" "files l = fs" "head_is cr bs l"
    "log_open cr (new_block_log fs) = (if fs Index_File \<noteq> [] then check_index l else construct_index l)"
    using open_nonempty [OF n, where fs = fs] f by metis
  show thesis
  proof (cases "fs Index_File = []")
    case True
    with l that show thesis by simp
  next
    case False
    with i have i': "8 \<le> length (files l Index_File)"
      "drop (length (files l Index_File) - 8) (files l Index_File) \<noteq> le_bytes 8 (last (starts 0 bs))"
      by (simp_all add: index_stale_def l(2))
    from l(2) f have "files l Block_File = layout 0 bs" by simp
    from check_index_step [OF l(1) this n i'(1)] obtain k where
      k: "kept l k" "check_index l = construct_index k" using i'(2) by (metis (no_types, lifting))
    show thesis
      by (rule that [of k]) (use k l False in \<open>simp_all add: kept_def head_is_def\<close>)
  qed
qed

lemma open_recovers_ok:
  assumes n: "numbered bs" and f: "fs Block_File = layout 0 bs"
    and i: "bs = [] \<or> index_current bs (fs Index_File) \<or> index_stale bs (fs Index_File) \<and> 2 \<le> length bs"
  shows "\<exists>k. log_open cr (new_block_log fs) = (Inr (), k) \<and> log_ok cr bs k"
proof (cases "bs = []")
  case True
  have "settled (just_opened fs)" by (rule just_opened_settled)
  then show ?thesis
    using f n True
    by (auto simp: log_open_start log_ok_def head_is_def stream_defs settled_def)
next
  case ne: False
  show ?thesis
  proof (cases "index_current bs (fs Index_File)")
    case True
    obtain l where l: "settled l" "files l = fs" "head_is cr bs l"
      "log_open cr (new_block_log fs) = (if fs Index_File \<noteq> [] then check_index l else construct_index l)"
      using open_nonempty [OF n ne, where fs = fs] f by metis
    have x: "files l Index_File = index_bytes (starts 0 bs)" using True l(2) by (simp add: index_current_def)
    have b: "files l Block_File = layout 0 bs" using l(2) f by simp
    have len: "8 \<le> length (files l Index_File)" using ne unfolding x by (cases bs) simp_all
    obtain k where k: "kept l k" "check_index l = (Inr (), k)"
      using check_index_step [OF l(1) b n ne len] index_last [OF ne] unfolding x by metis
    have "fs Index_File \<noteq> []" using len l(2) by auto
    then show ?thesis
      using l k x b n by (auto simp: log_ok_def kept_def head_is_def)
  next
    case False
    then have st: "index_stale bs (fs Index_File)" and two: "2 \<le> length bs" using i ne by auto
    obtain l where l: "settled l" "files l = fs" "head_is cr bs l" "log_open cr (new_block_log fs) = construct_index l"
      using open_stale [OF n ne, where fs = fs] f st by metis
    have b: "files l Block_File = layout 0 bs" using l(2) f by simp
    from construct_index_ok [OF l(1) b n two] obtain k where k: "construct_index l = (Inr (), k)" "settled k"
      "files k = (files l)(Index_File := index_bytes (starts 0 bs))"
      "log_head k = log_head l" "log_head_id k = log_head_id l" by metis
    then show ?thesis
      using l b n head_is_kept [OF l(3) k(4,5)] by (simp add: log_ok_def)
  qed
qed

text \<open>One block with a lost index: the log opens, but the next block cannot be appended.\<close>

lemma open_one_stuck:
  assumes n: "numbered [b]" and f: "fs Block_File = layout 0 [b]" and i: "index_stale [b] (fs Index_File)"
    and c: "block_num c = 2"
  shows "\<exists>k m. log_open cr (new_block_log fs) = (Inr (), k) \<and> log_append cr c k = (Inl Fc_Assert, m)"
proof -
  obtain l where l: "settled l" "files l = fs" "head_is cr [b] l" "log_open cr (new_block_log fs) = construct_index l"
    using open_stale [OF n, where fs = fs] f i by (metis list.distinct(1))
  have "files l Block_File = layout 0 [b]" using l(2) f by simp
  from construct_index_one [OF l(1) this n] obtain k where k: "construct_index l = (Inr (), k)" "settled k"
    "files k = (files l)(Index_File := [])" by metis
  obtain p where p: "check_write Block_File k = (Inr (), p)" "kept k p" using check_write_ok [OF k(2)] by metis
  then have "settled p" by (simp add: kept_def)
  then obtain q where q: "check_write Index_File p = (Inr (), q)" "kept p q" "writing q Index_File"
    using check_write_ok by metis
  have "settled q" "files q Index_File = []" using q(2) p(2) k(3) by (simp_all add: kept_def)
  then have t: "stream_tell Index_File q = 0" using stream_tell_end [OF _ q(3)] by simp
  have "log_append cr c k = (Inl Fc_Assert, q)"
    by (simp add: log_append_def seq_def bnd_def gets_def p(1) q(1) t check_def raise_def c)
  with l(4) k(1) show ?thesis by auto
qed

end
