(* ===== verification/Block_Log_Props.thy ===== *)
theory Block_Log_Props
  imports Block_Log_Open Chain_Types_Props
begin

section \<open>The block log: properties\<close>

text \<open>
  The interface the chain database uses (append the next block, fetch by number), its
  interpretation by the block log, and the claims about appending, reading and reopening.
\<close>

subsection \<open>The interface\<close>

locale numbered_log =
  fixes holds :: "'b list \<Rightarrow> 'l \<Rightarrow> bool"
    and fits :: "'b list \<Rightarrow> bool"
    and append_block :: "'b \<Rightarrow> ('l, 'r) sx"
    and fetch :: "'n \<Rightarrow> ('l, 'b option) sx"
    and number :: "'n \<Rightarrow> nat"
  assumes fits_prefix: "fits (bs @ cs) \<Longrightarrow> fits bs"
    and append_law: "holds bs l \<Longrightarrow> fits (bs @ [b]) \<Longrightarrow> \<exists>r k. append_block b l = (Inr r, k) \<and> holds (bs @ [b]) k"
    and fetch_law: "holds bs l \<Longrightarrow>
      \<exists>k. fetch n l = (Inr (if 0 < number n \<and> number n \<le> length bs then Some (bs ! (number n - 1)) else None), k) \<and>
        holds bs k"
begin

lemma append_all:
  assumes "holds bs l" and "fits (bs @ cs)"
  shows "\<exists>k. each (\<lambda>b. seq (append_block b) (ret ())) cs l = (Inr (), k) \<and> holds (bs @ cs) k"
  using assms
proof (induction cs arbitrary: bs l)
  case Nil
  then show ?case by (simp add: ret_def)
next
  case (Cons c cs)
  have "fits (bs @ [c])" using fits_prefix [of "bs @ [c]" cs] Cons.prems(2) by simp
  then obtain r k where k: "append_block c l = (Inr r, k)" "holds (bs @ [c]) k"
    using append_law [OF Cons.prems(1)] by blast
  with Cons.IH [OF k(2)] Cons.prems(2) show ?case by (simp add: seq_def bnd_def ret_def)
qed

lemma fetch_appended:
  assumes "holds bs l" and "fits (bs @ cs)" and "number n = Suc (length bs + i)" and "i < length cs"
  shows "\<exists>k m. each (\<lambda>b. seq (append_block b) (ret ())) cs l = (Inr (), k) \<and>
     fetch n k = (Inr (Some (cs ! i)), m)"
proof -
  obtain k where k: "each (\<lambda>b. seq (append_block b) (ret ())) cs l = (Inr (), k)" "holds (bs @ cs) k"
    using append_all [OF assms(1,2)] by blast
  from fetch_law [OF k(2), of n] k(1) assms(3,4) show ?thesis by (auto simp: nth_append)
qed

end

subsection \<open>The block log provides it\<close>

lemma block_pos_none:
  assumes l: "log_ok cr bs l" and n: "\<not> (0 < unat n \<and> unat n \<le> length bs)"
  obtains k where "get_block_pos_helper n l = (Inr npos, k)" "kept l k"
proof -
  have num: "settled l" "numbered bs" using l by (simp_all add: log_ok_def)
  obtain k where k: "check_read Index_File l = (Inr (), k)" "kept l k"
    using check_read_ok [OF num(1), of Index_File] by metis
  have "\<not> (log_head k \<noteq> None \<and> n \<le> num_from_id (log_head_id k) \<and> n > 0)"
  proof (cases "bs = []")
    case True
    with k(2) l show ?thesis by (simp add: kept_def log_ok_def head_is_def)
  next
    case False
    then have h: "log_head_id k = block_id cr (last bs)" using k(2) l by (simp add: kept_def log_ok_def head_is_def)
    have "block_num (last bs) = word_of_nat (length bs)"
      using num(2) False unfolding numbered_def
      by (metis Suc_pred' diff_less last_conv_nth length_greater_0_conv zero_less_one)
    then have "unat (num_from_id (log_head_id k)) = length bs"
      using num(2) by (simp add: h num_of_block_id unat_of_nat numbered_def)
    with n show ?thesis by (auto simp: word_le_nat_alt word_less_nat_alt)
  qed
  then have "get_block_pos_helper n l = (Inr npos, k)"
    by (auto simp: get_block_pos_helper_def seq_def bnd_def gets_def ret_def k(1))
  then show thesis by (rule that [OF _ k(2)])
qed

lemma npos_value: "2 ^ 63 \<le> unat npos"
  by (simp add: npos_def unsigned_minus_1_eq_mask mask_eq_exp_minus_1)

lemma fetch_ok:
  assumes l: "log_ok cr bs l"
  shows "\<exists>k. read_block_by_num n l =
      (Inr (if 0 < unat n \<and> unat n \<le> length bs then Some (bs ! (unat n - 1)) else None), k) \<and> log_ok cr bs k"
proof (cases "0 < unat n \<and> unat n \<le> length bs")
  case True
  let ?p = "word_of_nat (starts 0 bs ! (unat n - 1)) :: u64"
  have i: "unat n - 1 < length bs" and num: "numbered bs" using True l by (auto simp: log_ok_def)
  obtain k where k: "get_block_pos_helper n l = (Inr ?p, k)" "kept l k"
    using block_pos_ok [OF l] True by metis
  have ok: "log_ok cr bs k" by (rule log_ok_kept [OF l k(2)])
  obtain m q where m: "read_block_helper ?p k = (Inr (bs ! (unat n - 1), q), m)" "kept k m"
    using read_at [OF ok i] by metis
  have "unat ?p < 2 ^ 63" using numbered_starts [OF num i] by simp
  then have np: "?p \<noteq> npos" using npos_value by (metis linorder_not_less)
  have "block_num (bs ! (unat n - 1)) = word_of_nat (Suc (unat n - 1))" using num i by (simp add: numbered_def)
  then have bn: "block_num (bs ! (unat n - 1)) = n" using True by simp
  have "read_block_by_num n l = (Inr (Some (bs ! (unat n - 1))), m)"
    using np bn by (simp add: read_block_by_num_def bnd_def seq_def k(1) m(1) [unfolded One_nat_def] check_def ret_def)
  with True log_ok_kept [OF ok m(2)] show ?thesis by simp
next
  case False
  from block_pos_none [OF l this] obtain k where "get_block_pos_helper n l = (Inr npos, k)" "kept l k" by metis
  with False log_ok_kept [OF l] show ?thesis by (auto simp: read_block_by_num_def bnd_def ret_def)
qed

lemma numbered_prefix:
  assumes n: "numbered (bs @ cs)"
  shows "numbered bs"
proof -
  have "block_num (bs ! i) = word_of_nat (Suc i) \<and> block_fits (bs ! i)" if "i < length bs" for i
    using n that by (auto simp: numbered_def nth_append dest: spec [of _ i])
  then show ?thesis using n by (auto simp: numbered_def layout_append)
qed

interpretation block_store: numbered_log "log_ok cr" numbered "log_append cr" read_block_by_num unat
proof
  show "numbered (bs @ cs) \<Longrightarrow> numbered bs" for bs cs by (rule numbered_prefix)
  show "log_ok cr bs l \<Longrightarrow> numbered (bs @ [b]) \<Longrightarrow>
      \<exists>r k. log_append cr b l = (Inr r, k) \<and> log_ok cr (bs @ [b]) k" for bs l b
    using append_right_number by blast
qed (rule fetch_ok)

subsection \<open>Claims\<close>

text \<open>
  Appending to the log, on both branches. A log that holds the blocks 1 to n accepts a block
  numbered n + 1 that fits and then holds it as its last; a block with any other number is
  refused, and the files still hold the blocks 1 to n.
\<close>

theorem log_append_exact:
  assumes "log_ok cr bs l"
  shows "\<exists>r k. log_append cr b l = (r, k) \<and>
    (block_num b \<noteq> word_of_nat (Suc (length bs)) \<longrightarrow> r = Inl Fc_Assert \<and> log_ok cr bs k) \<and>
    (numbered (bs @ [b]) \<longrightarrow> r = Inr (word_of_nat (length (layout 0 bs))) \<and> log_ok cr (bs @ [b]) k)"
proof (cases "block_num b = word_of_nat (Suc (length bs))")
  case True
  then show ?thesis using append_right_number [OF assms, of b] by (cases "log_append cr b l") auto
next
  case False
  then have "\<not> numbered (bs @ [b])" by (simp add: numbered_snoc)
  with False show ?thesis using append_wrong_number [OF assms False] by auto
qed

text \<open>
  C39: The log is durable. After the blocks 1 to n have been appended to an empty log, a new
  process that opens the two files reads block i back for every i from 1 to n and none beyond,
  and it does so, when there are at least two blocks, even when the index file was lost or does
  not agree with the log about the position of the head.
\<close>

theorem log_durable:
  assumes "log_ok cr [] l" and "numbered bs" and "2 \<le> length bs" and "index_stale bs idx"
  shows "\<exists>k. each (\<lambda>b. seq (log_append cr b) (ret ())) bs l = (Inr (), k) \<and>
    (\<forall>fs \<in> {files k, (files k)(Index_File := idx)}. \<exists>m. log_open cr (new_block_log fs) = (Inr (), m) \<and>
       fst (read_block_by_num n m) =
         Inr (if 0 < unat n \<and> unat n \<le> length bs then Some (bs ! (unat n - 1)) else None))"
proof -
  obtain k where k: "each (\<lambda>b. seq (log_append cr b) (ret ())) bs l = (Inr (), k)" "log_ok cr bs k"
    using block_store.append_all [OF assms(1), of bs] assms(2) by auto
  have "\<exists>m. log_open cr (new_block_log fs) = (Inr (), m) \<and> log_ok cr bs m"
    if "fs \<in> {files k, (files k)(Index_File := idx)}" for fs
    by (rule open_recovers_ok [OF assms(2)])
       (use that k(2) assms(3,4) in \<open>auto simp: log_ok_def index_current_def\<close>)
  then show ?thesis using k(1) fetch_ok [of cr bs _ n] by fastforce
qed

text \<open>The log of two blocks built on the demonstration block, on empty files.\<close>

definition empty_files :: "log_file \<Rightarrow> bytes" where
  "empty_files = (\<lambda>_. [])"

definition demo_log :: block_log where
  "demo_log = snd (log_open demo_crypto (new_block_log empty_files))"

lemma demo_log_ok: "log_ok demo_crypto [] demo_log"
proof -
  have n: "numbered []" by (simp add: numbered_def)
  obtain k where "log_open demo_crypto (new_block_log empty_files) = (Inr (), k)" "log_ok demo_crypto [] k"
    using open_recovers_ok [OF n, of empty_files demo_crypto] by (auto simp: empty_files_def)
  then show ?thesis by (simp add: demo_log_def)
qed

definition plain_block :: "u32 \<Rightarrow> signed_block" where
  "plain_block n = demo_block\<lparr>transactions := [], previous := le_bytes 4 (unat (endian_reverse_u32 (n - 1))) @ replicate 16 0\<rparr>"

lemma plain_block_num: "block_num (plain_block n) = n"
  by (simp add: block_num_def plain_block_def hash_word_le_bytes reverse_reverse_u32)

lemma plain_block_ok: "block_ok (plain_block n)"
  by (simp add: block_ok_def signed_header_ok_def header_ok_def sized_def plain_block_def demo_block_def max_alloc_def)

lemma put_size_0: "concat (put_size []) = [0]"
  by (simp add: put_size_def c_unsigned_int_def put_varint.simps)

lemma plain_block_length: "length (packed c_signed_block (plain_block n)) = 134"
  by (simp add: packed_def c_signed_block_def c_signed_block_header_def c_block_header_def c_class_def
      c_pair_def c_word_def c_array_def c_vector_def plain_block_def demo_block_def put_size_0
      signed_block_header.defs block_header.defs signed_block.defs)

lemma plain_numbered: "numbered [plain_block 1, plain_block 2]"
proof -
  have "block_num ([plain_block 1, plain_block 2] ! i) = word_of_nat (Suc i) \<and>
      block_fits ([plain_block 1, plain_block 2] ! i)" if "i < 2" for i
    using that by (cases i) (auto simp: plain_block_num block_fits_def plain_block_ok pack_size_packed plain_block_length)
  then show ?thesis by (simp add: numbered_def plain_block_length)
qed

theorem log_append_exact_witness:
  "\<exists>k. log_append demo_crypto (plain_block 5) demo_log = (Inl Fc_Assert, k) \<and> log_ok demo_crypto [] k"
  using log_append_exact [OF demo_log_ok, of "plain_block 5"] by (auto simp: plain_block_num)

theorem log_durable_witness:
  "\<exists>k m. each (\<lambda>b. seq (log_append demo_crypto b) (ret ())) [plain_block 1, plain_block 2] demo_log = (Inr (), k) \<and>
     log_open demo_crypto (new_block_log ((files k)(Index_File := []))) = (Inr (), m) \<and>
     fst (read_block_by_num 2 m) = Inr (Some (plain_block 2))"
  using log_durable [OF demo_log_ok plain_numbered, of "[]" 2] by (auto simp: index_stale_def)

text \<open>
  A log of a single block whose index was lost: the loop that rebuilds the index is not entered,
  so the index stays empty and block 2 is refused.
\<close>

lemma single_block_index_lost:
  assumes "numbered [b]" and "fs Block_File = layout 0 [b]" and "fs Index_File = []" and "block_num c = 2"
  shows "\<exists>k m. log_open cr (new_block_log fs) = (Inr (), k) \<and> log_append cr c k = (Inl Fc_Assert, m)"
  using open_one_stuck [of b fs c cr] assms by (simp add: index_stale_def)

end
