(* ===== verification/Chain_Objects.thy ===== *)
theory Chain_Objects
  imports Chainbase Chain_Types Fork_DB Block_Log
begin

section \<open>The chain database: objects and state\<close>

text \<open>
  The object classes of \<open>libraries/chain/include/news\<close> with their unique keys, the state of
  \<open>news::chain::database\<close> (\<open>database.hpp\<close>) and the access to its parts. Each class is a
  constructor of one type of objects; its type number is the position in \<open>object_type\<close>.
\<close>

subsection \<open>Object classes\<close>

record global_property =
  head_block_num_of :: u32
  head_block_id_of :: bytes
  gp_time :: u32
  current_producer :: u64
  last_irreversible_block_num :: u32
  current_aslot :: u32

record transaction_object =
  to_expiration :: u32
  to_trx_id :: bytes
  packed_trx :: bytes

record account_object =
  ac_name :: u64
  ac_creator :: u64
  balance :: asset
  create_time :: u64

record account_authority_object =
  aa_name :: u64
  aa_posting :: shared_authority
  aa_owner :: shared_authority

record operation_object =
  oo_trx_id :: bytes
  oo_block :: u32
  oo_trx_in_block :: u32
  op_in_trx :: u32
  oo_timestamp :: u32
  op_packed :: bytes

record account_history_object =
  ah_name :: u64
  ah_sequence :: u32
  ah_op_id :: nat

record hardfork_property_object =
  processed_hardfork :: "u32 list"
  last_hardfork :: u32
  current_hardfork_version :: u32
  next_hardfork_version :: u32
  next_hardfork_time :: u32

datatype chain_object =
    Global_Property global_property
  | Block_Summary bytes
  | Transaction_Obj transaction_object
  | Account account_object
  | Account_Authority account_authority_object
  | Operation_Obj operation_object
  | Account_History account_history_object
  | Hardfork_Property hardfork_property_object

text \<open>\<open>enum object_type\<close>.\<close>

definition global_property_type :: nat where [simp]: "global_property_type = 0"
definition block_summary_type :: nat where [simp]: "block_summary_type = 1"
definition transaction_type :: nat where [simp]: "transaction_type = 2"
definition account_type :: nat where [simp]: "account_type = 3"
definition account_authority_type :: nat where [simp]: "account_authority_type = 4"
definition operation_type :: nat where [simp]: "operation_type = 5"
definition account_history_type :: nat where [simp]: "account_history_type = 6"
definition hardfork_property_type :: nat where [simp]: "hardfork_property_type = 7"

text \<open>The unique keys beside the id: transaction id, account name, (account, sequence).\<close>

fun same_unique_key :: "chain_object \<Rightarrow> chain_object \<Rightarrow> bool" where
  "same_unique_key (Transaction_Obj x) (Transaction_Obj y) \<longleftrightarrow> to_trx_id x = to_trx_id y"
| "same_unique_key (Account x) (Account y) \<longleftrightarrow> ac_name x = ac_name y"
| "same_unique_key (Account_Authority x) (Account_Authority y) \<longleftrightarrow> aa_name x = aa_name y"
| "same_unique_key (Account_History x) (Account_History y) \<longleftrightarrow>
     ah_name x = ah_name y \<and> ah_sequence x = ah_sequence y"
| "same_unique_key _ _ \<longleftrightarrow> False"

definition chain_clash :: "nat \<Rightarrow> chain_object \<Rightarrow> chain_object \<Rightarrow> bool" where
  "chain_clash t = same_unique_key"

subsection \<open>State\<close>

text \<open>
  The members of \<open>database\<close>. \<open>pinned\<close> lists the fork items to which local variables of a running
  call hold shared pointers: they keep the items alive.
\<close>

record chain_db =
  objects :: "chain_object cdb"
  fork_db :: fork_database
  blog :: block_log
  pending_trx :: "signed_transaction list"
  skip_flags :: u64
  is_producing :: bool
  pending_session :: "db_session option"
  popped_tx :: "signed_transaction list"
  full_threshold :: u16
  scale_rate :: u16
  current_trx_id :: bytes
  current_block_num :: u32
  current_op_in_trx :: u16
  flush_blocks :: u32
  next_flush_block :: u32
  hardfork_times :: "u32 list"
  hardfork_versions :: "u32 list"
  pinned :: "nat list"

record operation_notification =
  note_trx_id :: bytes
  note_block :: u32
  note_trx_in_block :: u32
  note_op :: operation

text \<open>
  What the database is given: the cryptographic functions, the handlers connected to the
  post-apply signal in their order, the clock, the free and the total memory of the mapped
  file, and whether the build checks assertions. An assertion that fails ends the process, which
  is \<open>Undefined\<close>: no handler catches it.
\<close>

record chain_env =
  crypto_of :: crypto
  post_handlers :: "(operation_notification \<Rightarrow> (chain_db, unit) sx) list"
  now_us :: u64
  free_memory :: nat
  max_memory :: nat
  asserts_on :: bool

definition new_chain_db :: "(log_file \<Rightarrow> bytes) \<Rightarrow> chain_db" where
  "new_chain_db fs =
     \<lparr>objects = empty_cdb, fork_db = empty_fork_db, blog = new_block_log fs, pending_trx = [], skip_flags = 0,
      is_producing = False, pending_session = None, popped_tx = [], full_threshold = 0, scale_rate = 0,
      current_trx_id = replicate 20 0, current_block_num = 0, current_op_in_trx = 0, flush_blocks = 0,
      next_flush_block = 0, hardfork_times = [0, 0, 0], hardfork_versions = [1, 1, 1], pinned = []\<rparr>"

subsection \<open>Statements of the database\<close>

definition on_objects :: "(chain_object cdb, 'a) sx \<Rightarrow> (chain_db, 'a) sx" where
  "on_objects m d = (case m (objects d) of (r, c) \<Rightarrow> (r, d\<lparr>objects := c\<rparr>))"

definition on_fork_db :: "(fork_database, 'a) sx \<Rightarrow> (chain_db, 'a) sx" where
  "on_fork_db m d = (case m (fork_db d) of (r, f) \<Rightarrow> (r, d\<lparr>fork_db := f\<rparr>))"

definition on_log :: "(block_log, 'a) sx \<Rightarrow> (chain_db, 'a) sx" where
  "on_log m d = (case m (blog d) of (r, l) \<Rightarrow> (r, d\<lparr>blog := l\<rparr>))"

definition reads :: "('s \<Rightarrow> 'a result) \<Rightarrow> ('s, 'a) sx" where
  "reads f s = (f s, s)"

text \<open>
  Exceptions: \<open>FC_CAPTURE_AND_RETHROW\<close> turns standard exceptions into an \<open>fc::exception\<close>;
  \<open>Undefined\<close> and \<open>Diverged\<close> are no exceptions and pass every handler.
\<close>

definition std_exception :: "error \<Rightarrow> bool" where
  "std_exception e \<longleftrightarrow> e \<in> {Logic_Error, Out_Of_Range, Runtime_Error, Lock_Exception}"

definition no_exception :: "error \<Rightarrow> bool" where
  "no_exception e \<longleftrightarrow> e \<in> {Undefined, Diverged}"

definition capture :: "('s, 'a) sx \<Rightarrow> ('s, 'a) sx" where
  "capture m s = (case m s of (Inl e, t) \<Rightarrow> (Inl (if std_exception e then Unhandled else e), t) | (Inr x, t) \<Rightarrow> (Inr x, t))"

definition catch_all :: "('s, 'a) sx \<Rightarrow> (error \<Rightarrow> ('s, 'a) sx) \<Rightarrow> ('s, 'a) sx" where
  "catch_all m h = catch_sx m (\<lambda>e. if no_exception e then raise e else h e)"

definition catch_fc :: "('s, 'a) sx \<Rightarrow> (error \<Rightarrow> ('s, 'a) sx) \<Rightarrow> ('s, 'a) sx" where
  "catch_fc m h = catch_sx m (\<lambda>e. if no_exception e \<or> std_exception e then raise e else h e)"

text \<open>A \<open>scoped_exit\<close> whose action may raise: the destructor swallows its exceptions.\<close>

definition finally_sx :: "('s, 'a) sx \<Rightarrow> ('s, unit) sx \<Rightarrow> ('s, 'a) sx" where
  "finally_sx m c s =
     (case m s of (r, t) \<Rightarrow>
        (case c t of (Inl e, u) \<Rightarrow> (if no_exception e then Inl e else r, u) | (Inr _, u) \<Rightarrow> (r, u)))"

definition only_if :: "('s \<Rightarrow> bool) \<Rightarrow> ('s, unit) sx \<Rightarrow> ('s, unit) sx" where
  "only_if b m s = (if b s then m s else (Inr (), s))"

subsection \<open>Objects of a class\<close>

definition as_global :: "chain_object \<Rightarrow> global_property result" where
  "as_global x = (case x of Global_Property g \<Rightarrow> Inr g | _ \<Rightarrow> Inl Undefined)"

definition as_summary :: "chain_object \<Rightarrow> bytes result" where
  "as_summary x = (case x of Block_Summary i \<Rightarrow> Inr i | _ \<Rightarrow> Inl Undefined)"

definition as_hardfork :: "chain_object \<Rightarrow> hardfork_property_object result" where
  "as_hardfork x = (case x of Hardfork_Property h \<Rightarrow> Inr h | _ \<Rightarrow> Inl Undefined)"

definition get_object :: "(chain_object \<Rightarrow> 'a result) \<Rightarrow> nat \<Rightarrow> nat \<Rightarrow> (chain_db, 'a) sx" where
  "get_object project t i = reads (\<lambda>d. rbind (db_get t i (objects d)) project)"

definition find_account_by :: "u64 \<Rightarrow> chain_db \<Rightarrow> (nat \<times> account_object) option result" where
  "find_account_by n d =
     rbind (db_find_by account_type (\<lambda>x. case x of Account a \<Rightarrow> ac_name a = n | _ \<Rightarrow> False) (objects d))
       (\<lambda>r. Inr (case r of Some (i, Account a) \<Rightarrow> Some (i, a) | _ \<Rightarrow> None))"

definition find_authority_by :: "u64 \<Rightarrow> chain_db \<Rightarrow> account_authority_object option result" where
  "find_authority_by n d =
     rbind (db_find_by account_authority_type
              (\<lambda>x. case x of Account_Authority a \<Rightarrow> aa_name a = n | _ \<Rightarrow> False) (objects d))
       (\<lambda>r. Inr (case r of Some (i, Account_Authority a) \<Rightarrow> Some a | _ \<Rightarrow> None))"

definition find_transaction_by :: "bytes \<Rightarrow> chain_db \<Rightarrow> transaction_object option result" where
  "find_transaction_by k d =
     rbind (db_find_by transaction_type
              (\<lambda>x. case x of Transaction_Obj t \<Rightarrow> to_trx_id t = k | _ \<Rightarrow> False) (objects d))
       (\<lambda>r. Inr (case r of Some (i, Transaction_Obj t) \<Rightarrow> Some t | _ \<Rightarrow> None))"

definition create_object :: "nat \<Rightarrow> chain_object \<Rightarrow> (chain_db, nat) sx" where
  "create_object t x = on_objects (db_create chain_clash t x)"

definition modify_global :: "(global_property \<Rightarrow> global_property) \<Rightarrow> (chain_db, unit) sx" where
  "modify_global f =
     on_objects (db_modify chain_clash global_property_type 0
       (\<lambda>x. rbind (as_global x) (\<lambda>g. Inr (Global_Property (f g)))))"

definition modify_account :: "nat \<Rightarrow> (account_object \<Rightarrow> account_object result) \<Rightarrow> (chain_db, unit) sx" where
  "modify_account i f =
     on_objects (db_modify chain_clash account_type i
       (\<lambda>x. case x of Account a \<Rightarrow> rbind (f a) (\<lambda>b. Inr (Account b)) | _ \<Rightarrow> Inl Undefined))"

definition modify_hardfork ::
    "(hardfork_property_object \<Rightarrow> hardfork_property_object result) \<Rightarrow> (chain_db, unit) sx" where
  "modify_hardfork f =
     on_objects (db_modify chain_clash hardfork_property_type 0
       (\<lambda>x. rbind (as_hardfork x) (\<lambda>h. rbind (f h) (\<lambda>k. Inr (Hardfork_Property k)))))"

end
