(* ===== verification/Evaluators.thy ===== *)
theory Evaluators
  imports Chain_Objects
begin

section \<open>The chain database: queries, evaluators, transactions\<close>

text \<open>
  The accessors and the slot arithmetic of \<open>chain/database.cpp\<close>, the evaluators of
  \<open>chain/news_eveluator.cpp\<close> and the application of a transaction.
\<close>

subsection \<open>Global properties and slots\<close>

definition get_global_property_object :: "(chain_db, global_property) sx" where
  "get_global_property_object = capture (get_object as_global global_property_type 0)"

definition head_block_num :: "(chain_db, u32) sx" where
  "head_block_num = bnd get_global_property_object (\<lambda>g. ret (head_block_num_of g))"

definition head_block_time :: "(chain_db, u32) sx" where
  "head_block_time = bnd get_global_property_object (\<lambda>g. ret (gp_time g))"

definition head_block_id :: "(chain_db, bytes) sx" where
  "head_block_id = bnd get_global_property_object (\<lambda>g. ret (head_block_id_of g))"

definition last_non_undoable_block_num :: "(chain_db, u32) sx" where
  "last_non_undoable_block_num = bnd get_global_property_object (\<lambda>g. ret (last_irreversible_block_num g))"

text \<open>Times are seconds in 32 bits; the difference of two times is taken in 64 bits.\<close>

definition slot_time :: "global_property \<Rightarrow> u32 \<Rightarrow> u32" where
  "slot_time g n =
     (if n = 0 then 0
      else if head_block_num_of g = 0 then gp_time g + n * word_of_nat news_block_interval
      else word_of_nat (unat (gp_time g) div news_block_interval * news_block_interval) +
           n * word_of_nat news_block_interval)"

definition get_slot_time :: "u32 \<Rightarrow> (chain_db, u32) sx" where
  "get_slot_time n =
     (if n = 0 then ret 0 else bnd get_global_property_object (\<lambda>g. ret (slot_time g n)))"

definition slot_of :: "u32 \<Rightarrow> u32 \<Rightarrow> u32" where
  "slot_of first t =
     (if t < first then 0 else word_of_nat ((unat t - unat first) div news_block_interval + 1))"

definition get_slot_at_time :: "u32 \<Rightarrow> (chain_db, u32) sx" where
  "get_slot_at_time t = bnd (get_slot_time 1) (\<lambda>first. ret (slot_of first t))"

definition get_scheduled_producer :: "u32 \<Rightarrow> (chain_db, u64) sx" where
  "get_scheduled_producer n =
     bnd get_global_property_object (\<lambda>g.
     let producers = [news_system_account_name, news_system_account_name + 1];
         current_slot = current_aslot g + n
     in ret (producers ! (unat current_slot mod length producers)))"

definition get_hardfork_property_object :: "(chain_db, hardfork_property_object) sx" where
  "get_hardfork_property_object = capture (get_object as_hardfork hardfork_property_type 0)"

definition has_harfork :: "u32 \<Rightarrow> (chain_db, bool) sx" where
  "has_harfork n = bnd get_hardfork_property_object (\<lambda>h. ret (unat n < length (processed_hardfork h)))"

subsection \<open>Accounts and transactions by key\<close>

definition get_account :: "u64 \<Rightarrow> (chain_db, nat \<times> account_object) sx" where
  "get_account n =
     capture (reads (\<lambda>d. rbind (find_account_by n d) (\<lambda>r.
       case r of None \<Rightarrow> Inl Out_Of_Range | Some x \<Rightarrow> Inr x)))"

definition find_account :: "u64 \<Rightarrow> (chain_db, (nat \<times> account_object) option) sx" where
  "find_account n = reads (find_account_by n)"

definition is_know_transaction :: "bytes \<Rightarrow> (chain_db, bool) sx" where
  "is_know_transaction k = capture (reads (\<lambda>d. rbind (find_transaction_by k d) (\<lambda>r. Inr (r \<noteq> None))))"

definition no_transaction :: signed_transaction where
  "no_transaction = \<lparr>ref_block_num = 0, ref_block_prefix = 0, expiration = 0, operations = [], signatures = []\<rparr>"

definition get_recent_transaction :: "bytes \<Rightarrow> (chain_db, signed_transaction) sx" where
  "get_recent_transaction k =
     capture (reads (\<lambda>d.
       rbind (find_transaction_by k d) (\<lambda>r.
         case r of
           None \<Rightarrow> Inl Fc_Assert
         | Some t \<Rightarrow> fst (c_get c_signed_transaction (packed_trx t)))))"

subsection \<open>Evaluators\<close>

definition create_account_apply :: "create_account_operation \<Rightarrow> (chain_db, unit) sx" where
  "create_account_apply op =
     bnd (reads (find_account_by (creator op))) (\<lambda>c.
     seq (check (c \<noteq> None) Fc_Assert)
    (bnd (reads (find_account_by (new_name op))) (\<lambda>n.
     seq (check (n = None) Fc_Assert)
    (bnd head_block_time (\<lambda>t.
     seq (create_object account_type
            (Account \<lparr>ac_name = new_name op, ac_creator = creator op,
                      balance = \<lparr>amount = 0, symbol = news_symbol\<rparr>, create_time = 1000000 * ucast t\<rparr>))
    (seq (create_object account_authority_type
            (Account_Authority \<lparr>aa_name = new_name op, aa_posting = posting op, aa_owner = owner op\<rparr>))
     (ret ())))))))"

definition add_amount :: "i64 \<Rightarrow> account_object \<Rightarrow> account_object" where
  "add_amount v a = a\<lparr>balance := (balance a)\<lparr>amount := amount (balance a) + v\<rparr>\<rparr>"

definition transfer_apply :: "transfer_operation \<Rightarrow> (chain_db, unit) sx" where
  "transfer_apply op =
     bnd (get_account (t_from op)) (\<lambda>(i, from).
     bnd (get_account (t_to op)) (\<lambda>(j, to).
     seq (check (sint (amount (t_amount op)) \<le> sint (amount (balance from))) Fc_Assert)
    (seq (modify_account i (\<lambda>a. Inr (add_amount (- amount (t_amount op)) a)))
         (modify_account j (\<lambda>a. Inr (add_amount (amount (t_amount op)) a))))))"

text \<open>The batch: the sum of the amounts is an \<open>asset\<close>, added in 64 bits.\<close>

fun sum_targets :: "(u64 \<times> asset) list \<Rightarrow> asset \<Rightarrow> (chain_db, asset) sx" where
  "sum_targets [] s = ret s"
| "sum_targets ((n, a) # ts) s =
     seq (get_account n) (bnd (lift_r (asset_add s a)) (sum_targets ts))"

definition credit_target :: "u64 \<times> asset \<Rightarrow> (chain_db, unit) sx" where
  "credit_target p =
     bnd (get_account (fst p)) (\<lambda>(j, _).
     modify_account j (\<lambda>a. rbind (asset_add (balance a) (snd p)) (\<lambda>b. Inr (a\<lparr>balance := b\<rparr>))))"

definition transfers_apply :: "transfers_operation \<Rightarrow> (chain_db, unit) sx" where
  "transfers_apply op =
     bnd (get_account (ts_from op)) (\<lambda>(i, from).
     bnd (sum_targets (to_names op) \<lparr>amount = 0, symbol = news_symbol\<rparr>) (\<lambda>total.
     bnd (lift_r (asset_ge (balance from) total)) (\<lambda>enough.
     seq (check enough Fc_Assert)
    (seq (modify_account i (\<lambda>a. rbind (asset_sub (balance a) total) (\<lambda>b. Inr (a\<lparr>balance := b\<rparr>))))
         (each credit_target (to_names op))))))"

text \<open>The registry: one evaluator for each operation, chosen by its tag.\<close>

fun evaluate :: "operation \<Rightarrow> (chain_db, unit) sx" where
  "evaluate (Create_Account op) = create_account_apply op"
| "evaluate (Transfer op) = transfer_apply op"
| "evaluate (Transfers op) = transfers_apply op"

subsection \<open>Operations and transactions\<close>

text \<open>\<open>NEWS_TRY_NOTIFY\<close>: the handlers in order; an exception ends the notification only.\<close>

definition notify_post_apply_operation :: "chain_env \<Rightarrow> operation_notification \<Rightarrow> (chain_db, unit) sx" where
  "notify_post_apply_operation env note = catch_all (each (\<lambda>h. h note) (post_handlers env)) (\<lambda>_. ret ())"

definition apply_operation :: "chain_env \<Rightarrow> operation \<Rightarrow> (chain_db, unit) sx" where
  "apply_operation env op =
     seq (evaluate op)
    (bnd (gets (\<lambda>d. \<lparr>note_trx_id = current_trx_id d, note_block = current_block_num d,
                     note_trx_in_block = ucast (current_op_in_trx d), note_op = op\<rparr>))
         (notify_post_apply_operation env))"

text \<open>\<open>enum validation_steps\<close>, the steps the code asks for.\<close>

definition skip_producer_signature :: u64 where "skip_producer_signature = 0x0001"
definition skip_transaction_signatures :: u64 where "skip_transaction_signatures = 0x0002"
definition skip_transaction_dupe_check :: u64 where "skip_transaction_dupe_check = 0x0004"
definition skip_fork_db :: u64 where "skip_fork_db = 0x0008"
definition skip_block_size_check :: u64 where "skip_block_size_check = 0x0010"
definition skip_tapos_check :: u64 where "skip_tapos_check = 0x0020"
definition skip_authority_check :: u64 where "skip_authority_check = 0x0040"
definition skip_merkle_check :: u64 where "skip_merkle_check = 0x0080"
definition skip_producer_schedule_check :: u64 where "skip_producer_schedule_check = 0x0200"
definition skip_validate :: u64 where "skip_validate = 0x0400"
definition skip_validate_invariants :: u64 where "skip_validate_invariants = 0x0800"
definition skip_block_log :: u64 where "skip_block_log = 0x2000"

definition skipped :: "u64 \<Rightarrow> chain_db \<Rightarrow> bool" where
  "skipped step d \<longleftrightarrow> skip_flags d AND step \<noteq> 0"

definition chain_id :: "crypto \<Rightarrow> bytes" where
  "chain_id cr = sha256 cr (map of_char (CHR 0x27 # ''test''))"

definition posting_key :: "chain_db \<Rightarrow> u64 \<Rightarrow> bytes result" where
  "posting_key d n =
     rbind (find_authority_by n d) (\<lambda>r. case r of None \<Rightarrow> Inl Fc_Assert | Some a \<Rightarrow> Inr (auth_key (aa_posting a)))"

definition owner_key :: "chain_db \<Rightarrow> u64 \<Rightarrow> bytes result" where
  "owner_key d n =
     rbind (find_authority_by n d) (\<lambda>r. case r of None \<Rightarrow> Inl Fc_Assert | Some a \<Rightarrow> Inr (auth_key (aa_owner a)))"

text \<open>The reference block and the expiration, checked once there is a head block.\<close>

definition check_reference :: "signed_transaction \<Rightarrow> (chain_db, unit) sx" where
  "check_reference trx =
     bnd (get_object as_summary block_summary_type (unat (ref_block_num trx))) (\<lambda>i.
     check (ref_block_prefix trx = hash_word 1 i) Fc_Assert)"

definition check_tapos :: "signed_transaction \<Rightarrow> (chain_db, unit) sx" where
  "check_tapos trx =
     bnd head_block_num (\<lambda>n.
     if n > 0
     then seq (only_if (\<lambda>d. \<not> skipped skip_tapos_check d) (check_reference trx))
         (bnd head_block_time (\<lambda>now. check (now \<le> expiration trx) Fc_Assert))
     else ret ())"

text \<open>\<open>(_skip_flags | skip_transaction_dupe_check) || ...\<close>, as it is written.\<close>

definition dupe_check :: "bytes \<Rightarrow> (chain_db, unit) sx" where
  "dupe_check k =
     bnd (gets skip_flags) (\<lambda>fl.
     if fl OR skip_transaction_dupe_check \<noteq> 0 then ret ()
     else bnd (reads (find_transaction_by k)) (\<lambda>r. check (r = None) Fc_Assert))"

definition store_transaction :: "crypto \<Rightarrow> signed_transaction \<Rightarrow> (chain_db, unit) sx" where
  "store_transaction cr trx =
     capture (bnd (lift_r (pack_to_vector c_signed_transaction trx)) (\<lambda>data.
       seq (create_object transaction_type
              (Transaction_Obj \<lparr>to_expiration = expiration trx, to_trx_id = transaction_id cr trx, packed_trx = data\<rparr>))
           (ret ())))"

definition next_op :: "chain_db \<Rightarrow> chain_db" where
  "next_op d = d\<lparr>current_op_in_trx := current_op_in_trx d + 1\<rparr>"

definition apply_trx :: "chain_env \<Rightarrow> signed_transaction \<Rightarrow> (chain_db, unit) sx" where
  "apply_trx env trx =
     (let cr = crypto_of env in
      seq (only_if (\<lambda>d. \<not> skipped skip_validate d) (lift_r (validate_transaction trx)))
     (seq (update (\<lambda>d. d\<lparr>current_trx_id := transaction_id cr trx\<rparr>))
     (seq (dupe_check (transaction_id cr trx))
     (seq (check_tapos trx)
     (seq (only_if (\<lambda>d. \<not> skipped (skip_transaction_signatures OR skip_authority_check) d)
             (reads (\<lambda>d. verify_authority cr (posting_key d) (owner_key d) (chain_id cr) trx)))
     (seq (only_if (\<lambda>d. \<not> skipped skip_transaction_dupe_check d) (store_transaction cr trx))
     (seq (update (\<lambda>d. d\<lparr>current_op_in_trx := 0\<rparr>))
          (each (\<lambda>op. capture (seq (apply_operation env op) (update next_op))) (operations trx)))))))))"

text \<open>\<open>with_skip_flags\<close>: the flags during a call, and back on both exits.\<close>

definition with_skip_flags :: "u64 \<Rightarrow> (chain_db, 'a) sx \<Rightarrow> (chain_db, 'a) sx" where
  "with_skip_flags fl m d = on_exit m (\<lambda>e. e\<lparr>skip_flags := skip_flags d\<rparr>) (d\<lparr>skip_flags := fl\<rparr>)"

definition apply_transaction :: "chain_env \<Rightarrow> signed_transaction \<Rightarrow> u64 \<Rightarrow> (chain_db, unit) sx" where
  "apply_transaction env trx skip = with_skip_flags skip (apply_trx env trx)"

end
