(* ===== verification/Database.thy ===== *)
theory Database
  imports Evaluators
begin

section \<open>The chain database: blocks\<close>

text \<open>
  \<open>libraries/chain/src/chain/database.cpp\<close>: sessions, the pending transactions, the steps of
  applying a block, pushing blocks and switching forks, producing a block, opening and reindexing.
\<close>

subsection \<open>Sessions\<close>

text \<open>
  A session destroyed by an exception undoes what was written; an exception of the destructor
  ends the program.
\<close>

definition destroy :: "db_session \<Rightarrow> (chain_db, unit) sx" where
  "destroy ses d =
     (case on_objects (session_destroy chain_clash ses) d of
        (Inl _, e) \<Rightarrow> (Inl Undefined, e)
      | (Inr _, e) \<Rightarrow> (Inr (), e))"

definition start_session :: "(chain_db, db_session) sx" where
  "start_session d = (case start_undo_session (objects d) of (ses, c) \<Rightarrow> (Inr ses, d\<lparr>objects := c\<rparr>))"

text \<open>\<open>auto session = start_undo_session(); body; session.push()\<close>, and the same with \<open>squash()\<close>.\<close>

definition in_session ::
    "(db_session \<Rightarrow> chain_object cdb \<Rightarrow> db_session \<times> chain_object cdb) \<Rightarrow> (chain_db, 'a) sx \<Rightarrow> (chain_db, 'a) sx" where
  "in_session fin body =
     bnd start_session (\<lambda>ses d.
     case body d of
       (Inl e, d1) \<Rightarrow> seq (destroy ses) (raise e) d1
     | (Inr x, d1) \<Rightarrow>
         (case fin ses (objects d1) of (ses1, c) \<Rightarrow> seq (destroy ses1) (ret x) (d1\<lparr>objects := c\<rparr>)))"

definition pushing_session :: "(chain_db, 'a) sx \<Rightarrow> (chain_db, 'a) sx" where
  "pushing_session = in_session (\<lambda>ses c. (session_push ses, c))"

definition squashing_session :: "(chain_db, 'a) sx \<Rightarrow> (chain_db, 'a) sx" where
  "squashing_session = in_session session_squash"

subsection \<open>Pending transactions\<close>

definition reset_pending :: "(chain_db, unit) sx" where
  "reset_pending d =
     (case pending_session d of
        None \<Rightarrow> (Inr (), d)
      | Some ses \<Rightarrow> destroy ses (d\<lparr>pending_session := None\<rparr>))"

definition open_pending :: "(chain_db, unit) sx" where
  "open_pending = bnd start_session (\<lambda>ses. update (\<lambda>d. d\<lparr>pending_session := Some ses\<rparr>))"

definition push_trx :: "chain_env \<Rightarrow> signed_transaction \<Rightarrow> (chain_db, unit) sx" where
  "push_trx env trx =
     seq (only_if (\<lambda>d. pending_session d = None) open_pending)
    (squashing_session
       (seq (apply_trx env trx) (update (\<lambda>d. d\<lparr>pending_trx := pending_trx d @ [trx]\<rparr>))))"

definition push_transaction :: "chain_env \<Rightarrow> signed_transaction \<Rightarrow> u64 \<Rightarrow> (chain_db, unit) sx" where
  "push_transaction env trx skip =
     capture (on_exit
       (seq (update (\<lambda>d. d\<lparr>is_producing := True\<rparr>)) (with_skip_flags skip (push_trx env trx)))
       (\<lambda>d. d\<lparr>is_producing := False\<rparr>))"

definition push_if_unknown :: "chain_env \<Rightarrow> signed_transaction \<Rightarrow> (chain_db, unit) sx" where
  "push_if_unknown env trx =
     bnd (is_know_transaction (transaction_id (crypto_of env) trx)) (\<lambda>known.
     if known then ret () else push_trx env trx)"

text \<open>The exit action of \<open>without_pengding_transactions\<close>.\<close>

definition restore_pending :: "chain_env \<Rightarrow> signed_transaction list \<Rightarrow> (chain_db, unit) sx" where
  "restore_pending env old =
     bnd (gets popped_tx) (\<lambda>popped.
     seq (each (\<lambda>t. catch_fc (push_if_unknown env t) (\<lambda>_. ret ())) popped)
         (each (\<lambda>t. catch_all (push_if_unknown env t) (\<lambda>_. ret ())) old))"

definition without_pending :: "chain_env \<Rightarrow> (chain_db, 'a) sx \<Rightarrow> (chain_db, 'a) sx" where
  "without_pending env f =
     bnd (gets pending_trx) (\<lambda>old.
     seq (update (\<lambda>d. d\<lparr>pending_trx := []\<rparr>))
    (seq reset_pending
         (finally_sx f (restore_pending env old))))"

subsection \<open>The steps of a block\<close>

definition update_global_property_object :: "chain_env \<Rightarrow> signed_block \<Rightarrow> (chain_db, unit) sx" where
  "update_global_property_object env b =
     seq get_global_property_object
    (bnd (get_slot_at_time (timestamp b)) (\<lambda>missed.
     seq (check (asserts_on env \<longrightarrow> missed \<noteq> 0) Undefined)
    (modify_global (\<lambda>g. g\<lparr>gp_time := timestamp b, head_block_num_of := block_num b,
                          head_block_id_of := block_id (crypto_of env) b, current_aslot := current_aslot g + missed\<rparr>))))"

fun log_blocks :: "crypto \<Rightarrow> nat \<Rightarrow> u32 \<Rightarrow> (chain_db, unit) sx" where
  "log_blocks cr 0 n = ret ()"
| "log_blocks cr (Suc k) n =
     bnd (reads (\<lambda>d. fetch_block_on_main_branch_by_number (pinned d) (n + 1) (fork_db d))) (\<lambda>r.
     case r of
       None \<Rightarrow> raise Fc_Assert
     | Some a \<Rightarrow>
         bnd (gets (\<lambda>d. item_data (item_at (fork_db d) a))) (\<lambda>b.
         seq (seq (on_log (log_append cr b)) (ret ()))
             (log_blocks cr k (n + 1))))"

definition log_head_num :: "chain_db \<Rightarrow> u32" where
  "log_head_num d = (case log_head (blog d) of None \<Rightarrow> 0 | Some b \<Rightarrow> block_num b)"

definition irreversible_num :: "u32 \<Rightarrow> u32" where
  "irreversible_num head = head - word_of_nat irreversible_block_num"

definition update_last_irreversible_block :: "crypto \<Rightarrow> (chain_db, unit) sx" where
  "update_last_irreversible_block cr =
     bnd get_global_property_object (\<lambda>g.
     seq (if word_of_nat irreversible_block_num \<le> head_block_num_of g
          then modify_global (\<lambda>h. h\<lparr>last_irreversible_block_num := irreversible_num (head_block_num_of g)\<rparr>)
          else ret ())
    (bnd get_global_property_object (\<lambda>g.
     seq (on_objects (update (db_commit (int (unat (last_irreversible_block_num g))))))
    (seq (only_if (\<lambda>d. \<not> skipped skip_block_log d)
            (bnd (gets log_head_num) (\<lambda>n.
             log_blocks cr (unat (last_irreversible_block_num g) - unat n) n)))
         (on_fork_db (update (set_max_size (head_block_num_of g - last_irreversible_block_num g + 1))))))))"

definition create_block_summary :: "crypto \<Rightarrow> signed_block \<Rightarrow> (chain_db, unit) sx" where
  "create_block_summary cr b =
     capture (let i = unat (block_num b AND 0xFFFF) in
       seq (get_object as_summary block_summary_type i)
           (on_objects (db_modify chain_clash block_summary_type i
              (\<lambda>x. rbind (as_summary x) (\<lambda>_. Inr (Block_Summary (block_id cr b)))))))"

text \<open>The first transaction by expiration, and the loop that removes the expired ones.\<close>

definition earlier_trx :: "nat \<times> chain_object \<Rightarrow> (nat \<times> u32) option \<Rightarrow> (nat \<times> u32) option" where
  "earlier_trx p best =
     (case snd p of
        Transaction_Obj t \<Rightarrow>
          (case best of
             None \<Rightarrow> Some (fst p, to_expiration t)
           | Some (i, x) \<Rightarrow> if to_expiration t < x then Some (fst p, to_expiration t) else best)
      | _ \<Rightarrow> best)"

definition first_by_expiration :: "chain_db \<Rightarrow> (nat \<times> u32) option result" where
  "first_by_expiration d =
     rbind (get_index transaction_type (objects d)) (\<lambda>g. Inr (fold earlier_trx (indices g) None))"

fun remove_expired :: "nat \<Rightarrow> (chain_db, unit) sx" where
  "remove_expired fuel =
     bnd (reads first_by_expiration) (\<lambda>first.
     case first of
       None \<Rightarrow> ret ()
     | Some (i, x) \<Rightarrow>
         bnd head_block_time (\<lambda>now.
         if now > x
         then (case fuel of
                 0 \<Rightarrow> raise Diverged
               | Suc k \<Rightarrow> seq (on_objects (db_remove transaction_type i)) (remove_expired k))
         else ret ()))"

declare remove_expired.simps [simp del]

definition clear_expired_transactions :: "(chain_db, unit) sx" where
  "clear_expired_transactions =
     bnd (gets (\<lambda>d. length (indices (idx transaction_type (objects d))))) remove_expired"

subsection \<open>Hardforks\<close>

definition news_hardfork_num :: u32 where "news_hardfork_num = 2"
definition news_hardfork_01_time :: u32 where "news_hardfork_01_time = 1533706200"
definition news_hardfork_02_time :: u32 where "news_hardfork_02_time = 1533706800"

definition init_hardforks :: "chain_db \<Rightarrow> chain_db" where
  "init_hardforks d =
     d\<lparr>hardfork_times := [news_genesis_time, news_hardfork_01_time, news_hardfork_02_time],
       hardfork_versions := [make_version 0 0 0, make_version 0 0 1, make_version 0 0 2]\<rparr>"

definition array_at :: "'a list \<Rightarrow> u32 \<Rightarrow> 'a result" where
  "array_at xs i = (if unat i < length xs then Inr (xs ! unat i) else Inl Undefined)"

definition mark_hardfork :: "u32 list \<Rightarrow> u32 list \<Rightarrow> u32 \<Rightarrow> hardfork_property_object \<Rightarrow> hardfork_property_object result" where
  "mark_hardfork at_times vers n h =
     rbind (assert_r (n = last_hardfork h + 1) Fc_Assert) (\<lambda>_.
     rbind (assert_r (length (processed_hardfork h) = unat n) Fc_Assert) (\<lambda>_.
     rbind (array_at at_times n) (\<lambda>t.
     rbind (array_at vers n) (\<lambda>v.
     (let k = h\<lparr>processed_hardfork := processed_hardfork h @ [t], last_hardfork := n, current_hardfork_version := v\<rparr>
      in rbind (array_at (processed_hardfork k) (last_hardfork k)) (\<lambda>p.
         rbind (assert_r (p = t) Fc_Assert) (\<lambda>_. Inr k)))))))"

definition apply_hardfork :: "u32 \<Rightarrow> (chain_db, unit) sx" where
  "apply_hardfork n =
     seq head_block_num
    (seq get_hardfork_property_object
    (bnd (gets (\<lambda>d. (hardfork_times d, hardfork_versions d))) (\<lambda>(ts, vs).
     modify_hardfork (mark_hardfork ts vs n))))"

definition plan_hardfork :: "u32 \<Rightarrow> (chain_db, unit) sx" where
  "plan_hardfork i =
     bnd (reads (\<lambda>d. array_at (hardfork_versions d) i)) (\<lambda>v.
     bnd head_block_time (\<lambda>t.
     modify_hardfork (\<lambda>h. Inr (h\<lparr>next_hardfork_version := v, next_hardfork_time := t\<rparr>))))"

definition set_hardfork :: "u32 \<Rightarrow> bool \<Rightarrow> (chain_db, unit) sx" where
  "set_hardfork n now =
     bnd get_hardfork_property_object (\<lambda>h.
     each (\<lambda>i. seq (plan_hardfork (word_of_nat i)) (if now then apply_hardfork (word_of_nat i) else ret ()))
       [unat (last_hardfork h + 1) ..< Suc (min (unat n) (unat news_hardfork_num))])"

fun process_loop :: "nat \<Rightarrow> (chain_db, unit) sx" where
  "process_loop fuel =
     bnd get_hardfork_property_object (\<lambda>h.
     if last_hardfork h < news_hardfork_num
     then bnd (reads (\<lambda>d. array_at (hardfork_times d) (last_hardfork h + 1))) (\<lambda>t.
          bnd head_block_time (\<lambda>now.
          if t \<le> now
          then (case fuel of
                  0 \<Rightarrow> raise Diverged
                | Suc k \<Rightarrow> seq (apply_hardfork (last_hardfork h + 1)) (process_loop k))
          else ret ()))
     else ret ())"

declare process_loop.simps [simp del]

definition process_hardforks :: "(chain_db, unit) sx" where
  "process_hardforks = capture (process_loop (unat news_hardfork_num))"

text \<open>At block 1: the hardforks whose time is not after the block's.\<close>

definition genesis_hardforks :: "u32 \<Rightarrow> u32 list \<Rightarrow> nat" where
  "genesis_hardforks t at_times = length (takeWhile (\<lambda>n. \<not> at_times ! (n + 1) > t) [0 ..< unat news_hardfork_num])"

definition genesis_step :: "signed_block \<Rightarrow> (chain_db, unit) sx" where
  "genesis_step b =
     (if block_num b = 1
      then bnd (gets (\<lambda>d. genesis_hardforks (timestamp b) (hardfork_times d))) (\<lambda>n.
           if n > 0 then set_hardfork (word_of_nat n) True else ret ())
      else ret ())"

subsection \<open>Applying a block\<close>

definition check_merkle :: "crypto \<Rightarrow> signed_block \<Rightarrow> (chain_db, unit) sx" where
  "check_merkle cr b = check (caculate_merkle_root cr b = transaction_merkle_root b) Fc_Assert"

definition apply_block_body :: "chain_env \<Rightarrow> signed_block \<Rightarrow> u64 \<Rightarrow> (chain_db, unit) sx" where
  "apply_block_body env b skip =
     capture (let cr = crypto_of env in
      seq (update (\<lambda>d. d\<lparr>current_block_num := block_num b\<rparr>))
     (seq (genesis_step b)
     (seq (if skip AND skip_merkle_check = 0 then check_merkle cr b else ret ())
     (seq (each (\<lambda>t. apply_transaction env t skip) (transactions b))
     (seq (update_global_property_object env b)
     (seq (update_last_irreversible_block cr)
     (seq (create_block_summary cr b)
     (seq clear_expired_transactions
          process_hardforks))))))))"

text \<open>The schedule of flushes of the mapped file.\<close>

definition flush_step :: "u64 \<Rightarrow> u32 \<Rightarrow> chain_db \<Rightarrow> chain_db" where
  "flush_step now n d =
     (if flush_blocks d = 0 then d
      else
        let lep = n + 1 + flush_blocks d * 9 div 10;
            rep = n + 1 + flush_blocks d;
            span = rep - lep;
            nn = (if span > 0 then lep + ucast (now mod ucast span) else lep);
            next_block = (if next_flush_block d = 0 then nn else next_flush_block d)
        in d\<lparr>next_flush_block := (if next_block = n then 0 else next_block)\<rparr>)"

definition apply_block :: "chain_env \<Rightarrow> signed_block \<Rightarrow> u64 \<Rightarrow> (chain_db, unit) sx" where
  "apply_block env b skip =
     capture (seq (with_skip_flags skip (apply_block_body env b skip))
                  (update (flush_step (now_us env) (block_num b))))"

end
