(* ===== verification/Push_Block.thy ===== *)
theory Push_Block
  imports Database
begin

section \<open>The chain database: pushing, producing, opening\<close>

text \<open>
  The second half of \<open>chain/database.cpp\<close>: looking blocks up, popping and pushing them, switching
  forks, producing a block, the genesis state, opening and reindexing. Loops whose number
  of rounds the data do not bound are given as many rounds as there are fork items or bytes of
  the log.
\<close>

subsection \<open>Looking blocks up\<close>

definition fetch_block_by_id :: "crypto \<Rightarrow> bytes \<Rightarrow> (chain_db, signed_block option) sx" where
  "fetch_block_by_id cr i =
     capture (bnd (gets (\<lambda>d. map_option (\<lambda>a. item_data (item_at (fork_db d) a)) (fetch_block i (fork_db d)))) (\<lambda>r.
       case r of
         Some b \<Rightarrow> ret (Some b)
       | None \<Rightarrow>
           bnd (on_log (read_block_by_num (num_from_id i))) (\<lambda>t.
           ret (case t of Some b \<Rightarrow> if block_id cr b = i then Some b else None | None \<Rightarrow> None))))"

definition is_know_block :: "crypto \<Rightarrow> bytes \<Rightarrow> (chain_db, bool) sx" where
  "is_know_block cr i = capture (bnd (fetch_block_by_id cr i) (\<lambda>r. ret (r \<noteq> None)))"

definition fetch_block_by_num :: "u32 \<Rightarrow> (chain_db, signed_block option) sx" where
  "fetch_block_by_num n =
     capture (bnd (gets (\<lambda>d. map (\<lambda>a. item_data (item_at (fork_db d) a)) (fetch_block_by_number n (fork_db d)))) (\<lambda>bs.
       if length bs = 1 then ret (Some (hd bs)) else on_log (read_block_by_num n)))"

text \<open>First the summaries of recent blocks, then the log, then the fork database.\<close>

definition block_id_from_log_or_forks :: "crypto \<Rightarrow> u32 \<Rightarrow> (chain_db, bytes) sx" where
  "block_id_from_log_or_forks cr n =
     bnd (on_log (read_block_by_num n)) (\<lambda>r.
     case r of
       Some b \<Rightarrow> ret (block_id cr b)
     | None \<Rightarrow>
         bnd (reads (\<lambda>d. fetch_block_on_main_branch_by_number (pinned d) n (fork_db d))) (\<lambda>f.
         gets (\<lambda>d. case f of Some a \<Rightarrow> item_id (item_at (fork_db d) a) | None \<Rightarrow> zero_id)))"

definition find_block_id_for_num :: "crypto \<Rightarrow> u32 \<Rightarrow> (chain_db, bytes) sx" where
  "find_block_id_for_num cr n =
     capture (if n = 0 then ret zero_id
       else
         bnd (reads (\<lambda>d. db_find block_summary_type (unat (n AND 0xFFFF)) (objects d))) (\<lambda>s.
         case s of
           Some (Block_Summary i) \<Rightarrow> if num_from_id i = n then ret i else block_id_from_log_or_forks cr n
         | _ \<Rightarrow> block_id_from_log_or_forks cr n))"

definition get_block_id_for_num :: "crypto \<Rightarrow> u32 \<Rightarrow> (chain_db, bytes) sx" where
  "get_block_id_for_num cr n =
     bnd (find_block_id_for_num cr n) (\<lambda>i. seq (check (i \<noteq> zero_id) Fc_Assert) (ret i))"

definition get_block_ids_on_fork :: "bytes \<Rightarrow> (chain_db, bytes list) sx" where
  "get_block_ids_on_fork i =
     capture (bnd head_block_id (\<lambda>h.
       bnd (reads (\<lambda>d. fetch_branch_from (pinned d) h i (fork_db d))) (\<lambda>(as, bs).
       gets (\<lambda>d. map (\<lambda>a. item_id (item_at (fork_db d) a)) bs @ [previous_id (item_at (fork_db d) (last as))]))))"

subsection \<open>Popping blocks\<close>

definition pop_block :: "crypto \<Rightarrow> (chain_db, unit) sx" where
  "pop_block cr =
     capture (seq reset_pending
      (bnd head_block_id (\<lambda>h.
       bnd (fetch_block_by_id cr h) (\<lambda>r.
       case r of
         None \<Rightarrow> raise Fc_Assert
       | Some b \<Rightarrow>
           seq (\<lambda>d. on_fork_db (fork_pop_block (pinned d)) d)
          (seq (on_objects (db_undo chain_clash))
               (update (\<lambda>d. d\<lparr>popped_tx := transactions b @ popped_tx d\<rparr>)))))))"

fun pop_until :: "crypto \<Rightarrow> nat \<Rightarrow> bytes \<Rightarrow> (chain_db, unit) sx" where
  "pop_until cr fuel target =
     bnd head_block_id (\<lambda>h.
     if h \<noteq> target
     then (case fuel of 0 \<Rightarrow> raise Diverged | Suc k \<Rightarrow> seq (pop_block cr) (pop_until cr k target))
     else ret ())"

declare pop_until.simps [simp del]

definition pop_to :: "crypto \<Rightarrow> bytes \<Rightarrow> (chain_db, unit) sx" where
  "pop_to cr target = bnd (gets (\<lambda>d. length (store (fork_db d)))) (\<lambda>n. pop_until cr n target)"

subsection \<open>Switching forks\<close>

definition with_pins :: "nat list \<Rightarrow> (chain_db, 'a) sx \<Rightarrow> (chain_db, 'a) sx" where
  "with_pins ps m d = on_exit m (\<lambda>e. e\<lparr>pinned := pinned d\<rparr>) (d\<lparr>pinned := ps @ pinned d\<rparr>)"

definition push_item_block :: "chain_env \<Rightarrow> u64 \<Rightarrow> nat \<Rightarrow> (chain_db, unit) sx" where
  "push_item_block env skip a =
     bnd (gets (\<lambda>d. item_data (item_at (fork_db d) a))) (\<lambda>b. pushing_session (apply_block env b skip))"

definition remove_fork_item :: "crypto \<Rightarrow> nat \<Rightarrow> (chain_db, unit) sx" where
  "remove_fork_item cr a = on_fork_db (update (\<lambda>f. remove_block (block_id cr (item_data (item_at f a))) f))"

text \<open>A block of the new branch failed: drop the rest of it and go back to the old branch.\<close>

definition abandon_branch :: "chain_env \<Rightarrow> u64 \<Rightarrow> nat list \<Rightarrow> nat list \<Rightarrow> bytes \<Rightarrow> (chain_db, unit) sx" where
  "abandon_branch env skip invalid_items old target =
     seq (each (remove_fork_item (crypto_of env)) invalid_items)
    (seq (on_fork_db (update (set_head (Some (hd old)))))
    (seq (pop_to (crypto_of env) target)
         (each (push_item_block env skip) (rev old))))"

fun push_branch :: "chain_env \<Rightarrow> u64 \<Rightarrow> nat list \<Rightarrow> bytes \<Rightarrow> nat list \<Rightarrow> (chain_db, unit) sx" where
  "push_branch env skip old target [] = ret ()"
| "push_branch env skip old target (a # as) =
     seq (catch_fc (push_item_block env skip a)
            (\<lambda>e. seq (abandon_branch env skip (a # as) old target) (raise e)))
         (push_branch env skip old target as)"

definition switch_forks :: "chain_env \<Rightarrow> u64 \<Rightarrow> nat \<Rightarrow> (chain_db, unit) sx" where
  "switch_forks env skip a =
     bnd head_block_id (\<lambda>h.
     bnd (reads (\<lambda>d. fetch_branch_from (pinned d) (block_id (crypto_of env) (item_data (item_at (fork_db d) a))) h
                       (fork_db d))) (\<lambda>(new_branch, old).
     with_pins (new_branch @ old)
       (bnd (gets (\<lambda>d. previous (item_data (item_at (fork_db d) (last old))))) (\<lambda>target.
        seq (pop_to (crypto_of env) target)
            (push_branch env skip old target (rev new_branch))))))"

text \<open>The fork database part of \<open>_push_block\<close>: the result, or none to go on and apply the block.\<close>

definition push_to_forks :: "chain_env \<Rightarrow> signed_block \<Rightarrow> u64 \<Rightarrow> (chain_db, bool option) sx" where
  "push_to_forks env b skip =
     bnd (on_fork_db (fork_push_block (crypto_of env) b)) (\<lambda>r.
     case r of
       None \<Rightarrow> raise Undefined
     | Some a \<Rightarrow>
         bnd (gets (\<lambda>d. item_data (item_at (fork_db d) a))) (\<lambda>new_block.
         bnd head_block_id (\<lambda>h.
         if previous new_block \<noteq> h
         then bnd head_block_num (\<lambda>n.
              if block_num new_block > n
              then seq (with_pins [a] (switch_forks env skip a)) (ret (Some True))
              else ret (Some False))
         else ret None)))"

definition push_block_body :: "chain_env \<Rightarrow> signed_block \<Rightarrow> u64 \<Rightarrow> (chain_db, bool) sx" where
  "push_block_body env b skip =
     capture (bnd (if skip AND skip_fork_db = 0 then push_to_forks env b skip else ret None) (\<lambda>r.
       case r of
         Some x \<Rightarrow> ret x
       | None \<Rightarrow>
           catch_fc (seq (pushing_session (apply_block env b skip)) (ret True))
             (\<lambda>e. seq (on_fork_db (update (remove_block (block_id (crypto_of env) b)))) (raise e))))"

text \<open>The 128-bit threshold below which the mapped file is grown.\<close>

definition memory_low :: "chain_env \<Rightarrow> chain_db \<Rightarrow> bool" where
  "memory_low env d \<longleftrightarrow>
     full_threshold d \<noteq> 0 \<and> scale_rate d \<noteq> 0 \<and>
     word_of_nat (free_memory env) <
       (ucast ((word_of_int (10000 - int (unat (full_threshold d))) :: 128 word) * word_of_nat (max_memory env)
               div 10000) :: u64)"

definition check_free_memory :: "chain_env \<Rightarrow> (chain_db, unit) sx" where
  "check_free_memory env = only_if (memory_low env) (on_objects cdb_resize)"

definition push_block :: "chain_env \<Rightarrow> signed_block \<Rightarrow> u64 \<Rightarrow> (chain_db, bool) sx" where
  "push_block env b skip =
     with_skip_flags skip (without_pending env
       (bnd (capture (push_block_body env b skip)) (\<lambda>r.
        seq (check_free_memory env) (ret r))))"

subsection \<open>Producing a block\<close>

definition empty_block :: signed_block where
  "empty_block =
     \<lparr>timestamp = 0, producer = 0, transaction_merkle_root = replicate 32 0, previous = replicate 20 0,
      version_num = 1, producer_signature = replicate 65 0, transactions = []\<rparr>"

text \<open>The loop over the pending transactions: the size so far, how many more, those taken.\<close>

fun take_pending ::
    "chain_env \<Rightarrow> u32 \<Rightarrow> signed_transaction list \<Rightarrow> nat \<Rightarrow> nat \<Rightarrow> signed_transaction list \<Rightarrow>
     (chain_db, signed_transaction list) sx" where
  "take_pending env when_time [] used count acc = ret acc"
| "take_pending env when_time (t # ts) used count acc =
     (if expiration t < when_time then take_pending env when_time ts used count acc
      else if count = 0 then ret acc
      else
        let size = pack_size c_signed_transaction t
        in if used + size \<ge> news_max_block_size then ret acc
           else bnd (catch_all (seq (squashing_session (apply_trx env t)) (ret True)) (\<lambda>_. ret False)) (\<lambda>ok.
                if ok then take_pending env when_time ts (used + size) (count - 1) (acc @ [t])
                else take_pending env when_time ts used count acc))"

definition generate_block_body :: "chain_env \<Rightarrow> u32 \<Rightarrow> u64 \<Rightarrow> bytes \<Rightarrow> (chain_db, signed_block) sx" where
  "generate_block_body env when_time by_producer pk =
     (let cr = crypto_of env in
      seq reset_pending
     (seq open_pending
     (bnd (gets pending_trx) (\<lambda>txs.
      bnd (take_pending env when_time txs
             (pack_size c_signed_block_header (signed_block_header.truncate empty_block) + 4) 3000 []) (\<lambda>taken.
      seq reset_pending
     (bnd head_block_id (\<lambda>h.
      let b = empty_block\<lparr>transactions := taken, timestamp := when_time, previous := h\<rparr>;
          b = b\<lparr>transaction_merkle_root := caculate_merkle_root cr b\<rparr>;
          b = b\<lparr>producer := by_producer\<rparr>
      in bnd (gets (\<lambda>d. if \<not> skipped skip_producer_signature d then sign_header cr pk b else b)) (\<lambda>b.
         seq (\<lambda>d. (if \<not> skipped skip_block_size_check d
                   then check (pack_size c_signed_block b \<le> news_max_block_size) Fc_Assert else ret ()) d)
        (bnd (gets skip_flags) (\<lambda>fl.
         seq (push_block env b fl) (ret b)))))))))))"

definition generate_block :: "chain_env \<Rightarrow> u32 \<Rightarrow> u64 \<Rightarrow> bytes \<Rightarrow> u64 \<Rightarrow> (chain_db, signed_block) sx" where
  "generate_block env when_time by_producer pk skip =
     with_skip_flags skip (capture (generate_block_body env when_time by_producer pk))"

subsection \<open>Genesis, opening, reindexing\<close>

text \<open>
  The three keys of the genesis state come from hashed names. Members without an initialiser
  are zero in the model.
\<close>

definition named_key :: "crypto \<Rightarrow> string \<Rightarrow> shared_authority" where
  "named_key cr s = \<lparr>auth_key = public_of cr (sha256 cr (map of_char s)), auth_weight = 1\<rparr>"

definition create_named_account :: "u64 \<Rightarrow> i64 \<Rightarrow> (chain_db, unit) sx" where
  "create_named_account n v =
     seq (create_object account_type
            (Account \<lparr>ac_name = n, ac_creator = 0, balance = \<lparr>amount = v, symbol = news_symbol\<rparr>, create_time = 0\<rparr>))
         (ret ())"

definition create_named_authority :: "u64 \<Rightarrow> shared_authority \<Rightarrow> (chain_db, unit) sx" where
  "create_named_authority n a =
     seq (create_object account_authority_type (Account_Authority \<lparr>aa_name = n, aa_posting = a, aa_owner = a\<rparr>))
         (ret ())"

definition create_genesis :: "crypto \<Rightarrow> (chain_db, unit) sx" where
  "create_genesis cr =
     seq (create_object global_property_type
            (Global_Property \<lparr>head_block_num_of = 0, head_block_id_of = zero_id, gp_time = news_genesis_time,
               current_producer = 0, last_irreversible_block_num = 0, current_aslot = 0\<rparr>))
    (seq (each (\<lambda>i. create_named_account (news_system_account_name + word_of_nat i) max64) [0 ..< 3])
    (seq (each (\<lambda>i. create_named_authority (news_system_account_name + word_of_nat i) (named_key cr ''init_key''))
            [0 ..< 3])
    (seq (each (\<lambda>_. seq (create_object block_summary_type (Block_Summary zero_id)) (ret ())) [0 ..< 0x10000])
    (seq (create_named_account news_system_accept_name 0)
    (seq (create_named_authority news_system_accept_name (named_key cr ''init_key1''))
    (seq (create_object hardfork_property_type
            (Hardfork_Property \<lparr>processed_hardfork = [news_genesis_time], last_hardfork = 0,
               current_hardfork_version = 1, next_hardfork_version = 1, next_hardfork_time = 0\<rparr>))
         (ret ())))))))"

definition init_genesis :: "crypto \<Rightarrow> (chain_db, unit) sx" where
  "init_genesis cr =
     bnd (reads (\<lambda>d. db_find global_property_type 0 (objects d))) (\<lambda>g.
     if g = None then create_genesis cr else ret ())"

definition initialize_indexes :: "(chain_db, unit) sx" where
  "initialize_indexes =
     each (\<lambda>t. on_objects (add_index t))
       [global_property_type, block_summary_type, transaction_type, account_type, operation_type,
        account_history_type, account_authority_type, hardfork_property_type]"

record open_db_args =
  arg_full_threshold :: u16
  arg_scale_rate :: u16
  stop_replay_at :: u32

definition check_head_in_log :: "crypto \<Rightarrow> (chain_db, unit) sx" where
  "check_head_in_log cr =
     bnd head_block_num (\<lambda>n.
     if n \<noteq> 0
     then bnd (on_log (read_block_by_num n)) (\<lambda>r.
          bnd head_block_id (\<lambda>h.
          case r of
            None \<Rightarrow> raise Fc_Assert
          | Some b \<Rightarrow>
              seq (check (h = block_id cr b) Fc_Assert)
                  (on_fork_db (update (start_block cr b)))))
     else ret ())"

definition db_open :: "chain_env \<Rightarrow> open_db_args \<Rightarrow> (chain_db, unit) sx" where
  "db_open env args =
     (let cr = crypto_of env in
      seq (on_log (log_open cr))
     (seq initialize_indexes
     (seq (init_genesis cr)
     (seq (on_objects (db_undo_all chain_clash))
     (bnd head_block_num (\<lambda>n.
      seq (\<lambda>d. check (db_revision (objects d) = int (unat n)) Fc_Assert d)
     (seq (check_head_in_log cr)
     (seq (update (\<lambda>d. d\<lparr>full_threshold := arg_full_threshold args, scale_rate := arg_scale_rate args\<rparr>))
          (update init_hardforks)))))))))"

definition db_wipe :: "bool \<Rightarrow> chain_db \<Rightarrow> chain_db" where
  "db_wipe with_log d =
     (let d = d\<lparr>objects := cdb_wipe (objects d)\<rparr>
      in if with_log then d\<lparr>blog := (blog d)\<lparr>files := (\<lambda>_. [])\<rparr>\<rparr> else d)"

definition reindex_skip_flags :: u64 where
  "reindex_skip_flags =
     skip_producer_signature OR skip_transaction_signatures OR skip_tapos_check OR skip_merkle_check
     OR skip_producer_schedule_check OR skip_authority_check OR skip_validate OR skip_validate_invariants
     OR skip_block_log"

fun replay :: "chain_env \<Rightarrow> nat \<Rightarrow> u32 \<Rightarrow> signed_block \<times> u64 \<Rightarrow> (chain_db, unit) sx" where
  "replay env fuel last_num itr =
     (if block_num (fst itr) \<noteq> last_num
      then (case fuel of
              0 \<Rightarrow> raise Diverged
            | Suc k \<Rightarrow>
                seq (apply_block env (fst itr) reindex_skip_flags)
               (seq (check_free_memory env)
               (bnd (on_log (read_block_helper (snd itr))) (replay env k last_num))))
      else apply_block env (fst itr) reindex_skip_flags)"

declare replay.simps [simp del]

definition reindex :: "chain_env \<Rightarrow> open_db_args \<Rightarrow> (chain_db, u32) sx" where
  "reindex env args =
     capture (seq (update (db_wipe False))
      (seq (db_open env args)
      (seq (on_fork_db (update fork_reset))
      (seq (on_log (update (set_locking False)))
      (bnd (on_log (read_block_helper 0)) (\<lambda>itr.
       bnd (on_log read_head) (\<lambda>h.
       bnd (gets (\<lambda>d. length (files (blog d) Block_File))) (\<lambda>n.
       let last_num = (if 0 < stop_replay_at args \<and> stop_replay_at args < block_num h then stop_replay_at args
                       else block_num h)
       in seq (replay env n last_num itr)
         (bnd head_block_num (\<lambda>m.
          seq (on_objects (db_set_revision (int (unat m))))
         (seq (on_log (update (set_locking True)))
         (bnd (gets (\<lambda>d. log_head (blog d))) (\<lambda>r.
          case r of
            None \<Rightarrow> raise Undefined
          | Some b \<Rightarrow>
              seq (if block_num b \<noteq> 0 then on_fork_db (update (start_block (crypto_of env) b)) else ret ())
                  (bnd (on_log read_head) (\<lambda>b. ret (block_num b))))))))))))))))"

definition set_flush_interval :: "u32 \<Rightarrow> chain_db \<Rightarrow> chain_db" where
  "set_flush_interval n d = d\<lparr>flush_blocks := n, next_flush_block := 0\<rparr>"

end
