(* ===== verification/Chain_Effects.thy ===== *)
theory Chain_Effects
  imports Push_Block Chainbase_Theorems
begin

section \<open>The chain database: what its statements may do to the objects\<close>

text \<open>
  A reflexive and transitive relation between the states before and after a statement is kept by
  every way the code composes statements; the locale \<open>effect\<close> proves this once. It is used with
  the relation \<open>chain_step\<close>: the objects went through a run of chainbase writes and closed
  sessions that keeps them well typed, and nothing outside the objects changed but the three
  fields that describe the operation being applied.
\<close>

subsection \<open>Relations kept by statements\<close>

definition within :: "('s \<Rightarrow> 's \<Rightarrow> bool) \<Rightarrow> ('s, 'a) sx \<Rightarrow> bool" where
  "within R m \<longleftrightarrow> (\<forall>s. R s (snd (m s)))"

lemma withinD: "within R m \<Longrightarrow> m s = (r, t) \<Longrightarrow> R s t"
  unfolding within_def by (metis snd_conv)

lemma withinI: "(\<And>s r t. m s = (r, t) \<Longrightarrow> R s t) \<Longrightarrow> within R m"
  unfolding within_def by (metis prod.collapse)

lemma snd_capture [simp]: "snd (capture m s) = snd (m s)"
  by (auto simp: capture_def split: prod.splits sum.splits)

text \<open>The values a statement can return.\<close>

definition returns :: "('s, 'a) sx \<Rightarrow> 'a \<Rightarrow> bool" where
  "returns m x \<longleftrightarrow> (\<exists>s t. m s = (Inr x, t))"

named_theorems effects \<open>the statements that stay within a relation\<close>

locale effect =
  fixes R :: "'s \<Rightarrow> 's \<Rightarrow> bool"
  assumes refl: "R s s"
    and trans: "R s t \<Longrightarrow> R t u \<Longrightarrow> R s u"
begin

lemma pure: "(\<And>s. snd (m s) = s) \<Longrightarrow> within R m"
  by (simp add: within_def refl)

lemma basic:
  "within R (ret x)" "within R (raise e)" "within R (gets f)" "within R (lift_r r)" "within R (reads g)"
  "within R (check b e)"
  by (rule pure, simp add: ret_def raise_def gets_def lift_r_def reads_def check_def)+

lemma upd: "(\<And>s. R s (f s)) \<Longrightarrow> within R (update f)"
  by (simp add: within_def update_def)

lemma bnd_post:
  assumes m: "within R m" and f: "\<And>x. returns m x \<Longrightarrow> within R (f x)"
  shows "within R (bnd m f)"
proof (rule withinI)
  fix s r t
  assume run: "bnd m f s = (r, t)"
  obtain q u where q: "m s = (q, u)" by (cases "m s")
  from withinD [OF m q] have su: "R s u" .
  show "R s t"
  proof (cases q)
    case (Inl e)
    with q run su show ?thesis by (simp add: bnd_def)
  next
    case (Inr x)
    with q have "returns m x" by (auto simp: returns_def)
    from withinD [OF f [OF this]] run q Inr have "R u t" by (simp add: bnd_def)
    with su show ?thesis by (rule trans)
  qed
qed

lemma bnd: "within R m \<Longrightarrow> (\<And>x. within R (f x)) \<Longrightarrow> within R (bnd m f)"
  by (rule bnd_post)

lemma seq: "within R m \<Longrightarrow> within R n \<Longrightarrow> within R (seq m n)"
  unfolding seq_def by (rule bnd)

lemma seq_post: "within R m \<Longrightarrow> (returns m () \<Longrightarrow> within R n) \<Longrightarrow> within R (seq m n)"
  unfolding seq_def by (rule bnd_post) simp_all

lemma each: "(\<And>x. x \<in> set xs \<Longrightarrow> within R (f x)) \<Longrightarrow> within R (each f xs)"
  by (induction xs) (auto intro!: seq basic)

lemma catch_sx:
  assumes m: "within R m" and h: "\<And>e. within R (h e)"
  shows "within R (catch_sx m h)"
proof (rule withinI)
  fix s r t
  assume run: "catch_sx m h s = (r, t)"
  obtain q u where q: "m s = (q, u)" by (cases "m s")
  from withinD [OF m q] have su: "R s u" .
  show "R s t"
  proof (cases q)
    case (Inl e)
    with run q have "h e u = (r, t)" by (simp add: catch_sx_def)
    from withinD [OF h this] su show ?thesis by (auto intro: trans)
  next
    case (Inr x)
    with q run su show ?thesis by (simp add: catch_sx_def)
  qed
qed

lemma catch_all: "within R m \<Longrightarrow> (\<And>e. within R (h e)) \<Longrightarrow> within R (catch_all m h)"
  unfolding catch_all_def by (rule catch_sx) (simp_all add: basic)

lemma catch_fc: "within R m \<Longrightarrow> (\<And>e. within R (h e)) \<Longrightarrow> within R (catch_fc m h)"
  unfolding catch_fc_def by (rule catch_sx) (simp_all add: basic)

lemma capture: "within R m \<Longrightarrow> within R (capture m)"
  by (simp add: within_def)

lemma only_if: "within R m \<Longrightarrow> within R (only_if b m)"
  by (auto simp: within_def only_if_def refl)

lemma cond: "(b \<Longrightarrow> within R m) \<Longrightarrow> (\<not> b \<Longrightarrow> within R n) \<Longrightarrow> within R (if b then m else n)"
  by simp

lemma pair: "(\<And>x y. within R (f x y)) \<Longrightarrow> within R (case p of (x, y) \<Rightarrow> f x y)"
  by (cases p) simp

lemma opt: "within R m \<Longrightarrow> (\<And>x. within R (f x)) \<Longrightarrow> within R (case o' of None \<Rightarrow> m | Some x \<Rightarrow> f x)"
  by (cases o') simp_all

lemmas compose = basic bnd seq each catch_all catch_fc capture only_if cond pair opt

end

lemma capture_run: "capture m s = (r, t) \<Longrightarrow> \<exists>q. m s = (q, t) \<and> (r = Inr x \<longleftrightarrow> q = Inr x)"
  by (auto simp: capture_def split: prod.splits sum.splits)

lemma capture_Inr [simp]: "capture m s = (Inr x, t) \<longleftrightarrow> m s = (Inr x, t)"
  by (auto simp: capture_def split: prod.splits sum.splits)

subsection \<open>Well-typed objects\<close>

text \<open>
  Each index holds objects of its class; every balance is in the one symbol of the chain; the list
  of processed hardforks is as long as the number of the last one.
\<close>

fun obj_ok :: "nat \<Rightarrow> chain_object \<Rightarrow> bool" where
  "obj_ok t (Global_Property g) \<longleftrightarrow> t = global_property_type"
| "obj_ok t (Block_Summary i) \<longleftrightarrow> t = block_summary_type"
| "obj_ok t (Transaction_Obj x) \<longleftrightarrow> t = transaction_type"
| "obj_ok t (Account a) \<longleftrightarrow> t = account_type \<and> symbol (balance a) = news_symbol"
| "obj_ok t (Account_Authority a) \<longleftrightarrow> t = account_authority_type"
| "obj_ok t (Operation_Obj x) \<longleftrightarrow> t = operation_type"
| "obj_ok t (Account_History x) \<longleftrightarrow> t = account_history_type"
| "obj_ok t (Hardfork_Property h) \<longleftrightarrow> t = hardfork_property_type \<and>
     length (processed_hardfork h) = Suc (unat (last_hardfork h)) \<and> last_hardfork h \<le> news_hardfork_num"

definition snap_ok :: "nat \<Rightarrow> chain_object snap \<Rightarrow> bool" where
  "snap_ok t s \<longleftrightarrow> (\<forall>v \<in> ran (fst s). obj_ok t v)"

definition typed :: "chain_object cdb \<Rightarrow> bool" where
  "typed db \<longleftrightarrow> (\<forall>t \<in> set (index_list db). list_all (snap_ok t) (snapshots (idx t db)))"

text \<open>All indices are at the same revision.\<close>

definition aligned :: "'v cdb \<Rightarrow> bool" where
  "aligned db \<longleftrightarrow> (\<forall>t \<in> set (index_list db). gi_revision (idx t db) = db_revision db)"

definition store_ok :: "chain_object cdb \<Rightarrow> bool" where
  "store_ok db \<longleftrightarrow> db_ok chain_clash db \<and> aligned db \<and> typed db"

lemma store_okD:
  assumes "store_ok db"
  shows "db_ok chain_clash db" "db_inv chain_clash db" "level db" "aligned db" "typed db"
    "distinct (index_list db)"
    "\<And>t. t \<in> set (index_list db) \<Longrightarrow> gi_inv same_unique_key (idx t db)"
  using assms by (auto simp: store_ok_def db_ok_def db_inv_def chain_clash_def)

lemma typed_object:
  assumes "typed db" and "has_index t db" and "map_of (indices (idx t db)) i = Some v"
  shows "obj_ok t v"
proof -
  have "snap_ok t (present (idx t db))"
    using assms(1,2) by (simp add: typed_def has_index_def snapshots_def)
  with assms(3) show ?thesis by (auto simp: snap_ok_def present_def intro: ranI)
qed

lemma hd_revision: "index_list db \<noteq> [] \<Longrightarrow> db_revision db = gi_revision (idx (hd (index_list db)) db)"
  by (simp add: db_revision_def split: list.splits)

lemma all_snapshots: "list_all P (snapshots g) \<longleftrightarrow> P (present g) \<and> list_all P (tl (snapshots g))"
  by (simp add: snapshots_def)

text \<open>One write in which the present objects of the written index stay well typed.\<close>

lemma write_keeps:
  assumes ok: "store_ok db" and w: "db_write chain_clash db e"
    and snap: "\<And>t. t \<in> set (index_list db) \<Longrightarrow> snap_ok t (present (idx t e))"
  shows "store_ok e \<and> db_run chain_clash db e"
proof -
  note d = store_okD [OF ok]
  from write_layer [OF d(1) w] have e: "db_ok chain_clash e" by simp
  from db_write_index [OF w d(2)] obtain s where
    s: "db = e \<or> write_step (chain_clash s) (idx s db) (idx s e) \<and> s \<in> set (index_list db)"
    "\<forall>t. t \<noteq> s \<longrightarrow> idx t e = idx t db" and il: "index_list e = index_list db" by blast
  have r: "gi_revision (idx t e) = gi_revision (idx t db)" for t
    using s write_step_frame [of "chain_clash s" "idx s db" "idx s e"] by (cases "t = s") auto
  have "list_all (snap_ok t) (snapshots (idx t e))" if t: "t \<in> set (index_list db)" for t
  proof -
    have "tl (snapshots (idx t e)) = tl (snapshots (idx t db))"
    proof (cases "t = s \<and> db \<noteq> e")
      case True
      with s(1) have "write_step (chain_clash t) (idx t db) (idx t e)" by blast
      with d(7) [OF t] show ?thesis using write_step_ok unfolding chain_clash_def by blast
    next
      case False
      with s(2) show ?thesis by auto
    qed
    moreover have "list_all (snap_ok t) (snapshots (idx t db))" using d(5) t unfolding typed_def by blast
    ultimately show ?thesis using snap [OF t] unfolding all_snapshots by simp
  qed
  then have "typed e" by (simp add: typed_def il)
  moreover have "db_revision e = db_revision db" by (simp add: db_revision_def il r split: list.splits)
  then have "aligned e" using d(4) by (simp only: aligned_def il r)
  ultimately show ?thesis
    using e w by (auto simp: store_ok_def intro: nested.nested_write nested.nested_nil)
qed

lemma present_ok: "store_ok db \<Longrightarrow> t \<in> set (index_list db) \<Longrightarrow> snap_ok t (present (idx t db))"
  using store_okD(5) [of db] by (auto simp: typed_def snapshots_def)

lemma same_put:
  assumes "db_inv clash db" and "has_index t db"
  shows "put_idx t (idx t db) db = db"
proof (rule cdb_ext)
  have t: "t \<in> dom (map_of (segment db))" using assms by (auto simp: db_inv_def has_index_def)
  then show "dom (map_of (segment (put_idx t (idx t db) db))) = dom (map_of (segment db))"
    by (auto simp: put_idx_def om_simps)
  show "om_wf (segment (put_idx t (idx t db) db))" "om_wf (segment db)"
    using assms by (auto simp: put_idx_def om_simps db_inv_def)
qed simp_all

lemma run_refl: "store_ok db \<Longrightarrow> store_ok db \<and> db_run chain_clash db db"
  by (auto intro: nested.nested_nil)

lemma create_keeps:
  assumes ok: "store_ok db" and run: "db_create chain_clash t v db = (r, e)" and v: "obj_ok t v"
  shows "store_ok e \<and> db_run chain_clash db e"
proof (cases "has_index t db")
  case False
  with run have "e = db" by (simp add: db_create_def on_index_def)
  with ok show ?thesis using run_refl by simp
next
  case True
  obtain q g where g: "gi_emplace (chain_clash t) v (idx t db) = (q, g)"
    by (cases "gi_emplace (chain_clash t) v (idx t db)")
  from run True g have e: "e = put_idx t g db" by (simp add: db_create_def on_index_has)
  have inv: "gi_inv (chain_clash t) (idx t db)"
    using store_okD(2) [OF ok] True by (simp add: db_inv_def has_index_def)
  have old: "snap_ok t (present (idx t db))"
    using present_ok [OF ok] True by (simp add: has_index_def)
  have "snap_ok t (present g)"
  proof (cases q)
    case (Inl x)
    with gi_emplace_ok [OF inv g] old show ?thesis by simp
  next
    case (Inr i)
    with gi_emplace_ok [OF inv g] have "present g = ((fst (present (idx t db)))(i \<mapsto> v), Suc i)" by simp
    with old v show ?thesis by (auto simp: snap_ok_def ran_def split: if_splits)
  qed
  then have "snap_ok s (present (idx s e))" if "s \<in> set (index_list db)" for s
    using that present_ok [OF ok] by (simp add: e)
  then show ?thesis by (rule write_keeps [OF ok db_create_write [OF run]])
qed

text \<open>What a modification does: the object is replaced, everything else stays.\<close>

lemma modify_effect:
  assumes ok: "store_ok db" and run: "db_modify chain_clash t i f db = (r, e)"
    and has: "has_index t db" and v: "map_of (indices (idx t db)) i = Some v"
    and w: "f v = Inr w" "obj_ok t w"
    and key: "\<And>v w. f v = Inr w \<Longrightarrow> same_key same_unique_key v w"
  shows "store_ok e" "db_run chain_clash db e" "r = Inr ()"
    "\<And>s. idx s e = (if s = t then idx t e else idx s db)"
    "present (idx t e) = ((fst (present (idx t db)))(i \<mapsto> w), snd (present (idx t db)))"
    "index_list e = index_list db"
proof -
  have inv: "gi_inv (chain_clash t) (idx t db)"
    using store_okD(2) [OF ok] has by (simp add: db_inv_def has_index_def)
  note wf = gi_invD(2) [OF inv] and nc = gi_invD(3) [OF inv, unfolded chain_clash_def]
  have nocl: "\<not> clashes (chain_clash t) i w (indices (idx t db))"
    using no_clashD [OF nc, of i _ v] v key [OF w(1)]
    unfolding clashes_iff [OF wf] chain_clash_def same_key_def by metis
  obtain q g where g: "gi_modify (chain_clash t) i f (idx t db) = (q, g)"
    by (cases "gi_modify (chain_clash t) i f (idx t db)")
  have "indices (on_modify i v (idx t db)) = indices (idx t db)"
    by (simp add: on_modify_def with_head_def split: list.splits)
  with g v w nocl have q: "q = Inr ()" by (simp add: gi_modify_def Let_def)
  from run has g have e: "e = put_idx t g db" "r = q" by (simp_all add: db_modify_def on_index_has)
  with q show "r = Inr ()" by simp
  show "idx s e = (if s = t then idx t e else idx s db)" "index_list e = index_list db" for s by (simp_all add: e)
  have p: "present g = ((fst (present (idx t db)))(i \<mapsto> w), snd (present (idx t db)))"
    using gi_modify_ok [OF inv g [unfolded q]] key v w by (auto simp: chain_clash_def present_def)
  then show "present (idx t e) = ((fst (present (idx t db)))(i \<mapsto> w), snd (present (idx t db)))" by (simp add: e)
  have "snap_ok t (present g)"
    using p present_ok [OF ok] has w(2) by (auto simp: snap_ok_def ran_def has_index_def split: if_splits)
  then have "snap_ok s (present (idx s e))" if "s \<in> set (index_list db)" for s
    using that present_ok [OF ok] by (simp add: e)
  moreover have "db_write chain_clash db e"
    by (rule db_modify_write [OF run [unfolded e(2) q]]) (simp add: key chain_clash_def)
  ultimately show "store_ok e" "db_run chain_clash db e" using write_keeps [OF ok] by blast+
qed

lemma modify_keeps:
  assumes ok: "store_ok db" and run: "db_modify chain_clash t i f db = (r, e)"
    and f: "\<And>v. obj_ok t v \<Longrightarrow> \<exists>w. f v = Inr w \<and> obj_ok t w"
    and key: "\<And>v w. f v = Inr w \<Longrightarrow> same_key same_unique_key v w"
  shows "store_ok e \<and> db_run chain_clash db e"
proof (cases "has_index t db \<and> map_of (indices (idx t db)) i \<noteq> None")
  case False
  then have "e = db"
    using run same_put [OF store_okD(2) [OF ok]]
    by (cases "has_index t db") (auto simp: db_modify_def on_index_has on_index_def gi_modify_def)
  with ok show ?thesis using run_refl by simp
next
  case True
  then obtain v where has: "has_index t db" and v: "map_of (indices (idx t db)) i = Some v" by auto
  from f [OF typed_object [OF store_okD(5) [OF ok] has v]] obtain w where "f v = Inr w" "obj_ok t w" by blast
  from modify_effect(1,2) [OF ok run has v this key] show ?thesis by blast
qed

lemma remove_keeps:
  assumes ok: "store_ok db" and run: "db_remove t i db = (r, e)"
  shows "store_ok e \<and> db_run chain_clash db e"
proof (cases "has_index t db \<and> map_of (indices (idx t db)) i \<noteq> None")
  case False
  then have "e = db"
    using run same_put [OF store_okD(2) [OF ok]]
    by (cases "has_index t db") (auto simp: db_remove_def on_index_has on_index_def gi_remove_def)
  with ok show ?thesis using run_refl by simp
next
  case True
  then have has: "has_index t db" by simp
  have inv: "gi_inv (chain_clash t) (idx t db)"
    using store_okD(2) [OF ok] has by (simp add: db_inv_def has_index_def)
  obtain q g where g: "gi_remove i (idx t db) = (q, g)" by (cases "gi_remove i (idx t db)")
  with True have q: "q = Inr ()" by (auto simp: gi_remove_def Let_def)
  from run has g have e: "e = put_idx t g db" "r = q" by (simp_all add: db_remove_def on_index_has)
  have "present g = ((fst (present (idx t db)))(i := None), snd (present (idx t db)))"
    using gi_remove_ok [OF inv g [unfolded q]] by simp
  then have "snap_ok t (present g)"
    using present_ok [OF ok] has by (auto simp: snap_ok_def ran_def has_index_def split: if_splits)
  then have "snap_ok s (present (idx s e))" if "s \<in> set (index_list db)" for s
    using that present_ok [OF ok] by (simp add: e)
  then show ?thesis by (rule write_keeps [OF ok db_remove_write [OF run [unfolded e(2) q]]])
qed

subsection \<open>Sessions\<close>

text \<open>The count of open sessions takes no part in what happens to the objects.\<close>

definition with_count :: "int \<Rightarrow> 'v cdb \<Rightarrow> 'v cdb" where
  "with_count n db = db\<lparr>undo_session_count := n\<rparr>"

lemma with_count_fields [simp]:
  "index_list (with_count n db) = index_list db" "index_types (with_count n db) = index_types db"
  "segment (with_count n db) = segment db" "idx t (with_count n db) = idx t db"
  "has_index t (with_count n db) = has_index t db" "undo_session_count (with_count n db) = n"
  "with_count n (with_count m db) = with_count n db" "with_count (undo_session_count db) db = db"
  "put_idx t g (with_count n db) = with_count n (put_idx t g db)"
  by (simp_all add: with_count_def idx_def has_index_def put_idx_def)

lemma on_index_count:
  "on_index t m (with_count n db) = (case on_index t m db of (r, e) \<Rightarrow> (r, with_count n e))"
  by (simp add: on_index_def split: prod.splits)

lemma each_count:
  assumes "\<And>t db. f t (with_count n db) = (case f t db of (r, e) \<Rightarrow> (r, with_count n e))"
  shows "each f ts (with_count n db) = (case each f ts db of (r, e) \<Rightarrow> (r, with_count n e))"
  by (induction ts arbitrary: db)
     (simp_all add: ret_def seq_def bnd_def assms split: prod.splits sum.splits)

lemma undo_count:
  "db_undo clash db = (r, e) \<Longrightarrow> db_undo clash (with_count n db) = (r, with_count n e)"
  unfolding db_undo_def by (simp add: each_count [of "\<lambda>t. on_index t (gi_undo (clash t))"] on_index_count)

lemma fold_count:
  "fold (\<lambda>t d. put_idx t (f (idx t d)) d) ts (with_count n db) =
   with_count n (fold (\<lambda>t d. put_idx t (f (idx t d)) d) ts db)"
  by (induction ts arbitrary: db) simp_all

lemma all_indices_count: "all_indices f (with_count n db) = with_count n (all_indices f db)"
  by (simp add: all_indices_def fold_count)

lemma start_count: "db_start (with_count n db) = with_count n (db_start db)"
  by (simp add: db_start_def all_indices_count)

lemma squash_count: "db_squash (with_count n db) = with_count n (db_squash db)"
  by (simp add: db_squash_def all_indices_count)

lemma write_count:
  assumes "db_write clash d e"
  shows "db_write clash (with_count n d) (with_count n e)"
  using assms
proof (cases rule: db_write.cases)
  case (db_create_write t v r)
  then have "db_create clash t v (with_count n d) = (r, with_count n e)"
    by (simp add: db_create_def on_index_count)
  then show ?thesis by (rule db_write.db_create_write)
next
  case (db_modify_write t i f)
  then have "db_modify clash t i f (with_count n d) = (Inr (), with_count n e)"
    by (simp add: db_modify_def on_index_count)
  then show ?thesis by (rule db_write.db_modify_write) (rule db_modify_write(2))
next
  case (db_remove_write t i)
  then have "db_remove t i (with_count n d) = (Inr (), with_count n e)"
    by (simp add: db_remove_def on_index_count)
  then show ?thesis by (rule db_write.db_remove_write)
qed

lemma run_count:
  assumes "db_run clash d e"
  shows "db_run clash (with_count n d) (with_count n e)"
  using assms
proof (induction rule: nested.induct)
  case (nested_nil s)
  then show ?case by (rule nested.nested_nil)
next
  case (nested_write s t u)
  then show ?case by (auto intro: nested.nested_write write_count)
next
  case (nested_squash s t u)
  then show ?case
    using nested.nested_squash [OF nested_squash.IH(1), of "with_count n u"]
    by (simp add: start_count squash_count)
next
  case (nested_undo s t u v)
  then show ?case
    using nested.nested_undo [OF nested_undo.IH(1), of "with_count n u" "with_count n v"]
      undo_count [OF nested_undo.hyps(3)] nested_undo.IH(2)
    by (simp add: start_count)
qed

lemma run_trans:
  assumes "db_run clash s t" and "db_run clash t u"
  shows "db_run clash s u"
proof -
  have "nested st sq un wr t u \<Longrightarrow> nested st sq un wr s t \<Longrightarrow> nested st sq un wr s u" for st sq un wr
    by (induction rule: nested.induct) (auto intro: nested.intros)
  with assms show ?thesis by blast
qed

lemma inv_count: "db_inv clash (with_count n db) = db_inv clash db"
  by (simp add: db_inv_def)

lemma ok_count: "db_ok clash (with_count n db) = db_ok clash db"
  by (simp add: db_ok_def inv_count level_def depth_def)

lemma store_count: "store_ok (with_count n db) = store_ok db"
  by (simp add: store_ok_def ok_count aligned_def typed_def db_revision_def split: list.splits)

lemma contents_count: "contents (with_count n db) = contents db" "earlier (with_count n db) = earlier db"
  by (auto simp: contents_def layer_def earlier_def depth_def fun_eq_iff simp del: upt_Suc)

lemma revision_count: "db_revision (with_count n db) = db_revision db"
  by (simp add: db_revision_def split: list.splits)

lemma start_count_eq:
  "start_undo_session db =
     (\<lparr>held = index_list db, ses_revision = db_revision (db_start db)\<rparr>,
      with_count (undo_session_count db + 1) (db_start db))"
  by (simp add: start_undo_session_def with_count_def Let_def)

lemma start_store:
  assumes "store_ok db"
  shows "store_ok (db_start db)" "db_revision (db_start db) = db_revision db + 1"
    "index_list (db_start db) = index_list db" "undo_session_count (db_start db) = undo_session_count db"
proof -
  note d = store_okD [OF assms]
  note st = all_indices_idx [OF d(6), where f = gi_start_undo_session, folded db_start_def]
  show l: "index_list (db_start db) = index_list db"
    and "undo_session_count (db_start db) = undo_session_count db" by (simp_all add: st)
  have ne: "index_list db \<noteq> []" using d(3) by (simp add: level_def)
  have r: "gi_revision (idx t (db_start db)) = gi_revision (idx t db) + 1" if "t \<in> set (index_list db)" for t
    using that by (simp add: st)
  show rev: "db_revision (db_start db) = db_revision db + 1" using ne l r by (simp add: hd_revision)
  have "aligned (db_start db)" using d(4) r rev by (simp add: aligned_def l)
  moreover have "typed (db_start db)"
    using d(5) gi_start_ok [OF d(7)] by (simp add: typed_def st all_snapshots)
  ultimately show "store_ok (db_start db)"
    using start_layer [OF d(1)] by (simp add: store_ok_def)
qed

lemma squash_store:
  assumes ok: "store_ok db" and h: "earlier db = a # h"
  shows "store_ok (db_squash db)" "contents (db_squash db) = contents db" "earlier (db_squash db) = h"
proof -
  note d = store_okD [OF ok]
  note st = all_indices_idx [OF d(6), where f = gi_squash, folded db_squash_def]
  from squash_layer [OF d(1) h] show "contents (db_squash db) = contents db" "earlier (db_squash db) = h"
    by simp_all
  have n: "length (stack (idx t db)) = Suc (length h)" if "t \<in> set (index_list db)" for t
    using d(3) that h length_earlier [of db] by (simp add: level_def)
  define k where "k = (if h = [] then 0 else 1 :: int)"
  have r: "gi_revision (gi_squash (idx t db)) = gi_revision (idx t db) - k" if "t \<in> set (index_list db)" for t
    using n [OF that] by (auto simp: gi_squash_def k_def split: list.splits)
  have ne: "index_list db \<noteq> []" using d(3) by (simp add: level_def)
  then have rev: "db_revision (db_squash db) = db_revision db - k"
    using r by (simp add: hd_revision st)
  have "aligned (db_squash db)" using d(4) r rev by (simp add: aligned_def st)
  moreover have "typed (db_squash db)"
  proof -
    have "list_all (snap_ok t) (snapshots (gi_squash (idx t db)))" if t: "t \<in> set (index_list db)" for t
    proof -
      have "stack (idx t db) \<noteq> []" using n [OF t] by auto
      then have "snapshots (gi_squash (idx t db)) = present (idx t db) # tl (tl (snapshots (idx t db)))"
        using gi_squash_ok [OF d(7) [OF t]] by simp
      moreover have "list_all (snap_ok t) (snapshots (idx t db))" using d(5) t unfolding typed_def by blast
      ultimately show ?thesis
        by (auto simp: list_all_iff all_snapshots snapshots_def dest: list.set_sel(2) [rotated])
           (metis length_older list.set_sel(2) list.size(3) not_Cons_self2 set_ConsD tl_Nil)
    qed
    then show ?thesis by (simp add: typed_def st)
  qed
  ultimately show "store_ok (db_squash db)"
    using squash_layer [OF d(1) h] by (simp add: store_ok_def)
qed

text \<open>The three ends of a session, over the objects.\<close>

lemma run_list: "db_inv clash d \<Longrightarrow> db_run clash d e \<Longrightarrow> index_list e = index_list d"
  using db_run_index [of clash d e] by (simp add: index_runs_def)

lemma run_session_count: "db_inv clash d \<Longrightarrow> db_run clash d e \<Longrightarrow> undo_session_count e = undo_session_count d"
  using db_run_index [of clash d e] by (simp add: index_runs_def)

lemma undo_session:
  assumes ok: "store_ok db" and ses: "start_undo_session db = (ses, d)" and run: "db_run chain_clash d e"
  shows "session_destroy chain_clash ses e = (Inr (), db)"
proof -
  note inv = store_okD(2) [OF ok]
  let ?d = "with_count (undo_session_count db + 1) db"
  have s: "held ses = index_list db" "d = db_start ?d"
    using ses by (auto simp: start_count_eq start_count)
  from inv have invd: "db_inv chain_clash ?d" by (simp add: inv_count)
  have "index_list e = index_list db"
    using run_list [OF db_start_inv [OF invd] run [unfolded s(2)]] start_store(3) [OF ok]
    by (simp add: start_count)
  then have "each (\<lambda>t. on_index t (gi_undo (chain_clash t))) (held ses) e = (Inr (), ?d)"
    using db_session_undo [OF invd run [unfolded s(2)]] by (simp add: db_undo_def s)
  then show ?thesis
    by (simp add: session_destroy_def session_undo_sx_def sx_simps with_count_def)
qed

lemma close_session: "held ses = [] \<Longrightarrow>
  session_destroy clash ses e = (Inr (), with_count (undo_session_count e - 1) e)"
  by (simp add: session_destroy_def session_undo_sx_def sx_simps with_count_def)

lemma session_past:
  assumes ok: "store_ok db" and ses: "start_undo_session db = (ses, d)" and run: "db_run chain_clash d e"
  shows "earlier e = contents db # earlier db" "undo_session_count e = undo_session_count db + 1"
    "index_list e = index_list db" "store_ok d"
proof -
  have d: "d = with_count (undo_session_count db + 1) (db_start db)"
    using ses by (simp add: start_count_eq)
  show sd: "store_ok d" using start_store(1) [OF ok] by (simp add: d store_count)
  from cb.nested_ok [OF run store_okD(1) [OF sd]] start_layer [OF store_okD(1) [OF ok]]
  show "earlier e = contents db # earlier db" by (simp add: d contents_count)
  show "undo_session_count e = undo_session_count db + 1"
    using run_session_count [OF store_okD(2) [OF sd] run] by (simp add: d)
  show "index_list e = index_list db"
    using run_list [OF store_okD(2) [OF sd] run] start_store(3) [OF ok] by (simp add: d)
qed

lemma merge_session:
  assumes ok: "store_ok db" and ses: "start_undo_session db = (ses, d)" and run: "db_run chain_clash d e"
    and e: "store_ok e" and sq: "session_squash ses e = (ses', e')"
  shows "\<exists>f. session_destroy chain_clash ses' e' = (Inr (), f) \<and> store_ok f \<and> db_run chain_clash db f \<and>
    contents f = contents e \<and> earlier f = earlier db"
proof -
  note past = session_past [OF ok ses run]
  let ?c = "undo_session_count db"
  let ?f = "with_count ?c (db_squash e)"
  have "held ses = index_list e" using ses past(3) by (auto simp: start_count_eq)
  with sq have s': "held ses' = []" "e' = db_squash e"
    by (auto simp: session_squash_def db_squash_def all_indices_def)
  have de: "distinct (index_list e)" by (rule store_okD(6) [OF e])
  then have "undo_session_count (db_squash e) = ?c + 1"
    using past(2) all_indices_idx(4) [OF de, of gi_squash] by (simp add: db_squash_def)
  then have "session_destroy chain_clash ses' e' = (Inr (), ?f)"
    using close_session [OF s'(1), of chain_clash e'] by (simp add: s')
  moreover have "db_run chain_clash db ?f"
  proof -
    have "d = with_count (?c + 1) (db_start db)" using ses by (simp add: start_count_eq)
    with run_count [OF run, of ?c] start_store(4) [OF ok]
    have "db_run chain_clash (db_start db) (with_count ?c e)"
      by (metis with_count_fields(7,8))
    from nested.nested_squash [OF nested.nested_nil this] show ?thesis by (simp add: squash_count)
  qed
  ultimately show ?thesis
    using squash_store [OF e past(1)] by (intro exI [of _ ?f]) (simp add: store_count contents_count)
qed

subsection \<open>Statements over the chain database\<close>

text \<open>What surrounds the objects, without the description of the operation being applied.\<close>

definition frame :: "chain_db \<Rightarrow> chain_db" where
  "frame d = d\<lparr>objects := empty_cdb, current_trx_id := [], current_block_num := 0, current_op_in_trx := 0\<rparr>"

lemma frame_eq:
  "frame d = frame e \<longleftrightarrow>
     fork_db d = fork_db e \<and> blog d = blog e \<and> pending_trx d = pending_trx e \<and> skip_flags d = skip_flags e \<and>
     is_producing d = is_producing e \<and> pending_session d = pending_session e \<and> popped_tx d = popped_tx e \<and>
     full_threshold d = full_threshold e \<and> scale_rate d = scale_rate e \<and>
     flush_blocks d = flush_blocks e \<and> next_flush_block d = next_flush_block e \<and>
     hardfork_times d = hardfork_times e \<and> hardfork_versions d = hardfork_versions e \<and> pinned d = pinned e"
  by (cases d; cases e) (auto simp: frame_def)

lemma frame_simps [simp]:
  "frame (d\<lparr>objects := x\<rparr>) = frame d" "frame (d\<lparr>current_trx_id := i\<rparr>) = frame d"
  "frame (d\<lparr>current_block_num := n\<rparr>) = frame d" "frame (d\<lparr>current_op_in_trx := k\<rparr>) = frame d"
  by (simp_all add: frame_def)

definition chain_ok :: "chain_db \<Rightarrow> bool" where
  "chain_ok d \<longleftrightarrow> store_ok (objects d) \<and> length (hardfork_times d) = 3 \<and> length (hardfork_versions d) = 3"

definition store_step :: "chain_db \<Rightarrow> chain_db \<Rightarrow> bool" where
  "store_step d e \<longleftrightarrow> (chain_ok d \<longrightarrow> db_run chain_clash (objects d) (objects e) \<and> chain_ok e)"

definition globals :: "chain_db \<Rightarrow> chain_object snap option" where
  "globals d = contents (objects d) global_property_type"

definition chain_step :: "chain_db \<Rightarrow> chain_db \<Rightarrow> bool" where
  "chain_step d e \<longleftrightarrow> frame e = frame d \<and> store_step d e \<and> (chain_ok d \<longrightarrow> globals e = globals d)"

interpretation sto: effect store_step
proof
  show "store_step s s" for s by (auto simp: store_step_def intro: nested.nested_nil)
  show "store_step s u" if "store_step s t" "store_step t u" for s t u
    using that by (auto simp: store_step_def intro: run_trans)
qed

interpretation step: effect chain_step
proof
  show "chain_step s s" for s by (simp add: chain_step_def sto.refl)
  show "chain_step s u" if "chain_step s t" "chain_step t u" for s t u
    using that sto.trans by (auto simp: chain_step_def store_step_def)
qed

lemma chain_within_store: "within chain_step m \<Longrightarrow> within store_step m"
  by (simp add: within_def chain_step_def)

lemma chain_stepI:
  assumes "frame e = frame d" and "chain_ok d \<Longrightarrow> store_ok (objects e) \<and> db_run chain_clash (objects d) (objects e)"
    and "chain_ok d \<Longrightarrow> globals e = globals d"
  shows "chain_step d e"
  using assms by (auto simp: chain_step_def store_step_def chain_ok_def frame_eq)

lemma chain_stepD:
  assumes "chain_step d e" and "chain_ok d"
  shows "frame e = frame d" "db_run chain_clash (objects d) (objects e)" "chain_ok e" "store_ok (objects e)"
    "globals e = globals d"
  using assms by (auto simp: chain_step_def store_step_def chain_ok_def)

lemma store_stepD:
  assumes "store_step d e" and "chain_ok d"
  shows "db_run chain_clash (objects d) (objects e)" "chain_ok e" "store_ok (objects e)"
  using assms by (auto simp: store_step_def chain_ok_def)

lemma on_objects_store:
  assumes "\<And>db r e. store_ok db \<Longrightarrow> m db = (r, e) \<Longrightarrow> store_ok e \<and> db_run chain_clash db e"
  shows "within store_step (on_objects m)"
  using assms by (intro withinI) (auto simp: store_step_def on_objects_def chain_ok_def split: prod.splits)

lemma on_objects_step:
  assumes "\<And>db r e. store_ok db \<Longrightarrow> m db = (r, e) \<Longrightarrow> store_ok e \<and> db_run chain_clash db e"
    and "\<And>db r e. m db = (r, e) \<Longrightarrow> contents e global_property_type = contents db global_property_type"
  shows "within chain_step (on_objects m)"
  using assms by (intro withinI chain_stepI) (auto simp: on_objects_def chain_ok_def globals_def split: prod.splits)

lemma on_index_other: "on_index t m db = (r, e) \<Longrightarrow> s \<noteq> t \<Longrightarrow> contents e s = contents db s"
  by (auto simp: on_index_def contents_def layer_def split: if_splits prod.splits)

lemma create_object_step:
  assumes "obj_ok t x" and "t \<noteq> global_property_type"
  shows "within chain_step (create_object t x)"
  unfolding create_object_def
proof (rule on_objects_step)
  show "store_ok e \<and> db_run chain_clash db e" if "store_ok db" "db_create chain_clash t x db = (r, e)" for db r e
    using create_keeps that assms(1) by blast
  show "contents e global_property_type = contents db global_property_type" if "db_create chain_clash t x db = (r, e)" for db r e
    using that assms(2) unfolding db_create_def by (metis on_index_other)
qed

lemma modify_store:
  assumes "\<And>v. obj_ok t v \<Longrightarrow> \<exists>w. f v = Inr w \<and> obj_ok t w"
    and "\<And>v w. f v = Inr w \<Longrightarrow> same_key same_unique_key v w"
  shows "within store_step (on_objects (db_modify chain_clash t i f))"
  using modify_keeps assms by (intro on_objects_store) metis

lemma modify_step:
  assumes "t \<noteq> global_property_type"
    and "\<And>v. obj_ok t v \<Longrightarrow> \<exists>w. f v = Inr w \<and> obj_ok t w"
    and "\<And>v w. f v = Inr w \<Longrightarrow> same_key same_unique_key v w"
  shows "within chain_step (on_objects (db_modify chain_clash t i f))"
proof (rule on_objects_step)
  show "store_ok e \<and> db_run chain_clash db e" if "store_ok db" "db_modify chain_clash t i f db = (r, e)" for db r e
    using modify_keeps [OF that] assms(2,3) by blast
  show "contents e global_property_type = contents db global_property_type" if "db_modify chain_clash t i f db = (r, e)" for db r e
    using that assms(1) unfolding db_modify_def by (metis on_index_other)
qed

lemma remove_step:
  assumes "t \<noteq> global_property_type"
  shows "within chain_step (on_objects (db_remove t i))"
proof (rule on_objects_step)
  show "store_ok e \<and> db_run chain_clash db e" if "store_ok db" "db_remove t i db = (r, e)" for db r e
    using remove_keeps that by blast
  show "contents e global_property_type = contents db global_property_type" if "db_remove t i db = (r, e)" for db r e
    using that assms(1) unfolding db_remove_def by (metis on_index_other)
qed

text \<open>The state in which the body of a session runs.\<close>

definition started :: "chain_db \<Rightarrow> chain_db" where
  "started d = d\<lparr>objects := snd (start_undo_session (objects d))\<rparr>"

lemma started_facts:
  assumes "chain_ok d"
  shows "chain_ok (started d)" "frame (started d) = frame d"
    "start_session d = (Inr (fst (start_undo_session (objects d))), started d)"
    "globals (started d) = globals d"
proof -
  have "store_ok (snd (start_undo_session (objects d)))"
    using session_past(4) [OF _ prod.collapse [symmetric] nested.nested_nil] assms by (simp add: chain_ok_def)
  with assms show "chain_ok (started d)" by (simp add: chain_ok_def started_def)
  show "globals (started d) = globals d"
    using start_layer [of chain_clash "objects d"] assms
    by (simp add: globals_def started_def start_count_eq contents_count chain_ok_def store_ok_def)
qed (simp_all add: started_def start_session_def split: prod.splits)

lemma in_session_run:
  assumes b: "within store_step body" and ok: "chain_ok d" and run: "in_session fin body d = (r, e)"
  shows "\<exists>q d1. body (started d) = (q, d1) \<and> chain_ok d1 \<and>
    db_run chain_clash (objects (started d)) (objects d1) \<and>
    (case q of
       Inl x \<Rightarrow> r = Inl x \<and> e = d1\<lparr>objects := objects d\<rparr>
     | Inr y \<Rightarrow>
         (case fin (fst (start_undo_session (objects d))) (objects d1) of
            (ses1, c) \<Rightarrow> seq (destroy ses1) (ret y) (d1\<lparr>objects := c\<rparr>) = (r, e)))"
proof -
  note st = started_facts [OF ok]
  obtain q d1 where q: "body (started d) = (q, d1)" by (cases "body (started d)")
  note s1 = store_stepD [OF withinD [OF b q] st(1)]
  let ?ses = "fst (start_undo_session (objects d))"
  have ses: "start_undo_session (objects d) = (?ses, objects (started d))" by (simp add: started_def)
  have u: "session_destroy chain_clash ?ses (objects d1) = (Inr (), objects d)"
    using undo_session [OF _ ses s1(1)] ok by (simp add: chain_ok_def)
  have "case q of
       Inl x \<Rightarrow> r = Inl x \<and> e = d1\<lparr>objects := objects d\<rparr>
     | Inr y \<Rightarrow> (case fin ?ses (objects d1) of
            (ses1, c) \<Rightarrow> seq (destroy ses1) (ret y) (d1\<lparr>objects := c\<rparr>) = (r, e))"
    using run st(3) q u
    by (cases q) (auto simp: in_session_def bnd_def seq_def raise_def destroy_def on_objects_def)
  with q s1 show ?thesis by (intro exI [of _ q] exI [of _ d1]) simp
qed

lemma closing: "held ses = [] \<Longrightarrow>
  seq (destroy ses) (ret y) d = (Inr y, d\<lparr>objects := with_count (undo_session_count (objects d) - 1) (objects d)\<rparr>)"
  by (simp add: seq_def bnd_def destroy_def on_objects_def close_session ret_def)

lemma squashing_session_run:
  assumes b: "within store_step body" and ok: "chain_ok d" and run: "squashing_session body d = (r, e)"
  shows "\<exists>d1. body (started d) = (r, d1) \<and> chain_ok d1 \<and> store_step d e \<and> e = d1\<lparr>objects := objects e\<rparr> \<and>
    (case r of
       Inl x \<Rightarrow> objects e = objects d
     | Inr y \<Rightarrow> contents (objects e) = contents (objects d1) \<and> earlier (objects e) = earlier (objects d))"
proof -
  let ?ses = "fst (start_undo_session (objects d))"
  from in_session_run [OF b ok run [unfolded squashing_session_def]] obtain q d1 where
    q: "body (started d) = (q, d1)" "chain_ok d1" "db_run chain_clash (objects (started d)) (objects d1)"
    and c: "case q of
       Inl x \<Rightarrow> r = Inl x \<and> e = d1\<lparr>objects := objects d\<rparr>
     | Inr y \<Rightarrow> (case session_squash ?ses (objects d1) of
            (ses1, c) \<Rightarrow> seq (destroy ses1) (ret y) (d1\<lparr>objects := c\<rparr>) = (r, e))" by blast
  have od: "store_ok (objects d)" using ok by (simp add: chain_ok_def)
  show ?thesis
  proof (cases q)
    case (Inl x)
    with c q od show ?thesis
      by (auto simp: store_step_def chain_ok_def intro: nested.nested_nil)
  next
    case (Inr y)
    obtain ses1 c1 where sq: "session_squash ?ses (objects d1) = (ses1, c1)"
      by (cases "session_squash ?ses (objects d1)")
    have ses: "start_undo_session (objects d) = (?ses, objects (started d))" by (simp add: started_def)
    from merge_session [OF od ses q(3) _ sq] q(2) obtain f where
      f: "session_destroy chain_clash ses1 c1 = (Inr (), f)" "store_ok f" "db_run chain_clash (objects d) f"
         "contents f = contents (objects d1)" "earlier f = earlier (objects d)"
      by (auto simp: chain_ok_def)
    with c Inr sq have "r = Inr y" "e = d1\<lparr>objects := f\<rparr>"
      by (auto simp: seq_def bnd_def destroy_def on_objects_def ret_def)
    with f q Inr show ?thesis by (auto simp: store_step_def chain_ok_def)
  qed
qed

lemma squashing_session_step:
  assumes "within chain_step body" and "chain_ok d" and "squashing_session body d = (r, e)"
  shows "chain_step d e"
proof -
  from squashing_session_run [OF chain_within_store [OF assms(1)] assms(2,3)] obtain d1 where
    d1: "body (started d) = (r, d1)" "chain_ok d1" "store_step d e" "e = d1\<lparr>objects := objects e\<rparr>"
    and c: "case r of Inl x \<Rightarrow> objects e = objects d
      | Inr y \<Rightarrow> contents (objects e) = contents (objects d1) \<and> earlier (objects e) = earlier (objects d)" by blast
  note st = started_facts [OF assms(2)]
  note s1 = chain_stepD [OF withinD [OF assms(1) d1(1)] st(1)]
  have "frame e = frame d" using d1(4) s1(1) st(2) by (metis frame_simps(1))
  moreover have "globals e = globals d"
  proof (cases r)
    case (Inl x)
    with c show ?thesis by (simp add: globals_def)
  next
    case (Inr y)
    with c have "globals e = globals d1" by (simp add: globals_def)
    then show ?thesis using s1(5) st(4) by simp
  qed
  ultimately show ?thesis using d1(3) by (simp add: chain_step_def)
qed

lemma pushing_session_run:
  assumes b: "within store_step body" and ok: "chain_ok d" and run: "pushing_session body d = (r, e)"
  shows "\<exists>d1. body (started d) = (r, d1) \<and> chain_ok d1 \<and> chain_ok e \<and> e = d1\<lparr>objects := objects e\<rparr> \<and>
    (case r of
       Inl x \<Rightarrow> objects e = objects d
     | Inr y \<Rightarrow> contents (objects e) = contents (objects d1) \<and>
               earlier (objects e) = contents (objects d) # earlier (objects d))"
proof -
  let ?ses = "fst (start_undo_session (objects d))"
  from in_session_run [OF b ok run [unfolded pushing_session_def]] obtain q d1 where
    q: "body (started d) = (q, d1)" "chain_ok d1" "db_run chain_clash (objects (started d)) (objects d1)"
    and c: "case q of
       Inl x \<Rightarrow> r = Inl x \<and> e = d1\<lparr>objects := objects d\<rparr>
     | Inr y \<Rightarrow> (case (session_push ?ses, objects d1) of
            (ses1, c) \<Rightarrow> seq (destroy ses1) (ret y) (d1\<lparr>objects := c\<rparr>) = (r, e))" by blast
  have od: "store_ok (objects d)" using ok by (simp add: chain_ok_def)
  have ses: "start_undo_session (objects d) = (?ses, objects (started d))" by (simp add: started_def)
  show ?thesis
  proof (cases q)
    case (Inl x)
    with c q ok show ?thesis by (auto simp: chain_ok_def)
  next
    case (Inr y)
    have "held (session_push ?ses) = []" by (simp add: session_push_def)
    from closing [OF this, of y d1] c Inr have
      e: "r = Inr y" "e = d1\<lparr>objects := with_count (undo_session_count (objects d1) - 1) (objects d1)\<rparr>" by auto
    from session_past(1) [OF od ses q(3)] e q Inr show ?thesis
      by (auto simp: contents_count chain_ok_def store_count)
  qed
qed

lemma modify_global_store: "within store_step (modify_global f)"
  unfolding modify_global_def
proof (rule modify_store)
  fix v assume "obj_ok global_property_type v"
  then show "\<exists>w. rbind (as_global v) (\<lambda>g. Inr (Global_Property (f g))) = Inr w \<and> obj_ok global_property_type w"
    by (cases v) (simp_all add: as_global_def)
next
  fix v w assume "rbind (as_global v) (\<lambda>g. Inr (Global_Property (f g))) = Inr w"
  then show "same_key same_unique_key v w"
    by (cases v) (auto simp: as_global_def same_key_def split: chain_object.splits)
qed

lemma modify_account_step:
  assumes "\<And>a. symbol (balance a) = news_symbol \<Longrightarrow> \<exists>b. f a = Inr b \<and> symbol (balance b) = news_symbol"
    and "\<And>a b. f a = Inr b \<Longrightarrow> ac_name b = ac_name a"
  shows "within chain_step (modify_account i f)"
  unfolding modify_account_def
proof (rule modify_step)
  show "account_type \<noteq> global_property_type" by simp
next
  fix v assume "obj_ok account_type v"
  then show "\<exists>w. (case v of Account a \<Rightarrow> rbind (f a) (\<lambda>b. Inr (Account b)) | _ \<Rightarrow> Inl Undefined) = Inr w \<and>
      obj_ok account_type w"
    using assms(1) by (cases v) force+
next
  fix v w assume "(case v of Account a \<Rightarrow> rbind (f a) (\<lambda>b. Inr (Account b)) | _ \<Rightarrow> Inl Undefined) = Inr w"
  then obtain a b where vw: "v = Account a" "w = Account b" "f a = Inr b"
    by (cases v) (auto simp: rbind_Inr_iff)
  have "same_unique_key (Account a) x = same_unique_key (Account b) x \<and>
      same_unique_key x (Account a) = same_unique_key x (Account b)" for x
    using assms(2) [OF vw(3)] by (cases x) auto
  with vw show "same_key same_unique_key v w" by (simp add: same_key_def)
qed

end
