(* ===== verification/Transaction_Facts.thy ===== *)
theory Transaction_Facts
  imports Chain_Effects
begin

section \<open>Transactions: effects of the evaluators\<close>

text \<open>
  Every statement of applying a transaction stays within \<open>chain_step\<close>: its writes can be undone
  and keep the objects well typed, as long as the handlers of the signal do the same.
\<close>

definition handlers_ok :: "chain_env \<Rightarrow> bool" where
  "handlers_ok env \<longleftrightarrow> (\<forall>h \<in> set (post_handlers env). \<forall>note. within chain_step (h note))"

lemmas step_intros = step.compose create_object_step remove_step

lemma get_object_step: "within chain_step (get_object p t i)"
  unfolding get_object_def by (rule step.basic)

lemma queries_step:
  "within chain_step get_global_property_object" "within chain_step head_block_num"
  "within chain_step head_block_time" "within chain_step head_block_id" "within chain_step (get_account n)"
  "within chain_step get_hardfork_property_object" "within chain_step (is_know_transaction k)"
  unfolding get_global_property_object_def head_block_num_def head_block_time_def head_block_id_def
    get_account_def get_hardfork_property_object_def is_know_transaction_def
  by (intro step_intros get_object_step)+

lemma create_account_step: "within chain_step (create_account_apply op)"
  unfolding create_account_apply_def
  by (intro step_intros queries_step) simp_all

lemma transfer_step: "within chain_step (transfer_apply op)"
  unfolding transfer_apply_def
  by (intro step_intros queries_step modify_account_step) (auto simp: add_amount_def)

lemma same_symbol_Inr: "same_symbol a b x = Inr y \<longleftrightarrow> symbol a = symbol b \<and> y = x"
  by (auto simp: same_symbol_def rbind_Inr_iff assert_r_def)

lemma sum_targets_symbols:
  "sum_targets ts s d = (Inr t, e) \<Longrightarrow>
   e = d \<and> symbol t = symbol s \<and> list_all (\<lambda>p. symbol (snd p) = symbol s) ts"
proof (induction ts s arbitrary: d rule: sum_targets.induct)
  case (1 s)
  then show ?case by (simp add: ret_def)
next
  case (2 n a ts s)
  from 2(2) obtain x d1 u where d1: "get_account n d = (Inr x, d1)" and u: "asset_add s a = Inr u"
    and r: "sum_targets ts u d1 = (Inr t, e)"
    by (auto simp: seq_Inr_iff bnd_Inr_iff lift_r_def)
  have "d1 = d" using d1 by (simp add: get_account_def reads_def capture_def split: prod.splits sum.splits)
  moreover have "symbol u = symbol s \<and> symbol a = symbol s"
    using u by (auto simp: asset_add_def same_symbol_Inr)
  ultimately show ?case using 2(1) [OF r] by simp
qed

lemma sum_targets_step: "within chain_step (sum_targets ts s)"
  by (induction ts s rule: sum_targets.induct) (auto intro!: step_intros queries_step)

lemma transfers_step: "within chain_step (transfers_apply op)"
proof -
  have credit: "within chain_step (credit_target p)" if p: "symbol (snd p) = news_symbol" for p
    unfolding credit_target_def
    by (intro step_intros queries_step modify_account_step)
       (auto simp: asset_add_def same_symbol_def p rbind_Inr_iff)
  have sub: "within chain_step (modify_account i (\<lambda>a. rbind (asset_sub (balance a) t) (\<lambda>b. Inr (a\<lparr>balance := b\<rparr>))))"
    if t: "symbol t = news_symbol" for i t
    by (rule modify_account_step) (auto simp: asset_sub_def same_symbol_def t rbind_Inr_iff)
  have main: "within chain_step
      (bnd (sum_targets (to_names op) \<lparr>amount = 0, symbol = news_symbol\<rparr>) (\<lambda>total.
       bnd (lift_r (asset_ge (balance payer) total)) (\<lambda>enough.
       seq (check enough Fc_Assert)
      (seq (modify_account i (\<lambda>a. rbind (asset_sub (balance a) total) (\<lambda>b. Inr (a\<lparr>balance := b\<rparr>))))
           (each credit_target (to_names op))))))" for i payer
  proof (rule step.bnd_post [OF sum_targets_step])
    fix total
    assume "returns (sum_targets (to_names op) \<lparr>amount = 0, symbol = news_symbol\<rparr>) total"
    then have "symbol total = news_symbol" "\<forall>p \<in> set (to_names op). symbol (snd p) = news_symbol"
      using sum_targets_symbols by (fastforce simp: returns_def list_all_iff)+
    then show "within chain_step
      (bnd (lift_r (asset_ge (balance payer) total)) (\<lambda>enough.
       seq (check enough Fc_Assert)
      (seq (modify_account i (\<lambda>a. rbind (asset_sub (balance a) total) (\<lambda>b. Inr (a\<lparr>balance := b\<rparr>))))
           (each credit_target (to_names op)))))"
      using credit sub by (intro step.compose) auto
  qed
  show ?thesis unfolding transfers_apply_def
    by (rule step.bnd, rule queries_step, rule step.pair, rule main)
qed

lemma evaluate_step: "within chain_step (evaluate op)"
  by (cases op) (simp_all add: create_account_step transfer_step transfers_step)

lemma fields_step:
  "within chain_step (update (\<lambda>d. d\<lparr>current_trx_id := i\<rparr>))"
  "within chain_step (update (\<lambda>d. d\<lparr>current_op_in_trx := k\<rparr>))"
  "within chain_step (update (\<lambda>d. d\<lparr>current_block_num := n\<rparr>))" "within chain_step (update next_op)"
  by (auto simp: within_def update_def next_op_def chain_ok_def globals_def intro!: chain_stepI intro: nested.nested_nil)

lemma apply_operation_step:
  assumes "handlers_ok env"
  shows "within chain_step (apply_operation env op)"
  unfolding apply_operation_def notify_post_apply_operation_def
  by (intro step_intros evaluate_step) (use assms in \<open>auto simp: handlers_ok_def\<close>)

lemma apply_trx_step:
  assumes "handlers_ok env"
  shows "within chain_step (apply_trx env trx)"
  unfolding apply_trx_def Let_def dupe_check_def check_tapos_def check_reference_def store_transaction_def
  by (intro step_intros fields_step queries_step get_object_step apply_operation_step assms) simp_all

end
