(* ===== verification/Ledger.thy ===== *)
theory Ledger
  imports Transaction_Facts
begin

section \<open>The ledger: what the evaluators do to the balances\<close>

text \<open>
  The account objects seen as a finite map from names to balances, and the three evaluators as
  operations on this map. Names are a unique key, so looking an account up does not depend on the
  order of the index.
\<close>

definition accounts :: "chain_db \<Rightarrow> nat \<Rightarrow> chain_object option" where
  "accounts d = map_of (indices (idx account_type (objects d)))"

definition ledger :: "chain_db \<Rightarrow> u64 \<Rightarrow> i64 option" where
  "ledger d n =
     (case find_account_by n d of
        Inr (Some (_, a)) \<Rightarrow> Some (amount (balance a))
      | _ \<Rightarrow> None)"

definition registered :: "chain_db \<Rightarrow> bool" where
  "registered d \<longleftrightarrow> has_index account_type (objects d)"

lemma account_facts:
  assumes "chain_ok d" and "registered d"
  shows "om_wf (indices (idx account_type (objects d)))"
    "\<And>i v. accounts d i = Some v \<Longrightarrow> \<exists>a. v = Account a \<and> symbol (balance a) = news_symbol"
    "\<And>i j a b. accounts d i = Some (Account a) \<Longrightarrow> accounts d j = Some (Account b) \<Longrightarrow> ac_name a = ac_name b \<Longrightarrow> i = j"
proof -
  have ok: "store_ok (objects d)" using assms(1) by (simp add: chain_ok_def)
  have t: "account_type \<in> set (index_list (objects d))" using assms(2) by (simp add: registered_def has_index_def)
  note inv = store_okD(7) [OF ok t]
  show "om_wf (indices (idx account_type (objects d)))" by (rule gi_invD(2) [OF inv])
  show "\<exists>a. v = Account a \<and> symbol (balance a) = news_symbol" if "accounts d i = Some v" for i v
    using typed_object [OF store_okD(5) [OF ok], of account_type i v] that assms(2)
    by (cases v) (auto simp: accounts_def registered_def)
  show "i = j" if "accounts d i = Some (Account a)" "accounts d j = Some (Account b)" "ac_name a = ac_name b"
    for i j a b
    using no_clashD [OF gi_invD(3) [OF inv], of i j "Account a" "Account b"] that by (auto simp: accounts_def)
qed

lemma find_om:
  assumes "om_wf m"
  shows "find (\<lambda>q. p (snd q)) m = Some (i, v) \<Longrightarrow> map_of m i = Some v \<and> p v"
    "find (\<lambda>q. p (snd q)) m = None \<longleftrightarrow> (\<forall>i v. map_of m i = Some v \<longrightarrow> \<not> p v)"
proof -
  show "map_of m i = Some v \<and> p v" if "find (\<lambda>q. p (snd q)) m = Some (i, v)"
  proof -
    from that obtain k where "k < length m" "p (snd (m ! k))" "m ! k = (i, v)"
      by (metis find_Some_iff snd_conv)
    then have "(i, v) \<in> set m" "p v" using nth_mem [of k m] by simp_all
    with om_lookup_iff [OF assms] show ?thesis by blast
  qed
  show "find (\<lambda>q. p (snd q)) m = None \<longleftrightarrow> (\<forall>i v. map_of m i = Some v \<longrightarrow> \<not> p v)"
    unfolding find_None_iff using om_lookup_iff [OF assms] by force
qed

text \<open>Looking an account up by its name.\<close>

lemma find_account_cases:
  assumes "chain_ok d" and "registered d"
  shows "(\<exists>i a. find_account_by n d = Inr (Some (i, a)) \<and> accounts d i = Some (Account a) \<and> ac_name a = n) \<or>
    find_account_by n d = Inr None \<and> (\<forall>i a. accounts d i = Some (Account a) \<longrightarrow> ac_name a \<noteq> n)"
proof -
  note f = account_facts [OF assms]
  let ?p = "\<lambda>x. case x of Account a \<Rightarrow> ac_name a = n | _ \<Rightarrow> False"
  let ?m = "indices (idx account_type (objects d))"
  have r: "db_find_by account_type ?p (objects d) = Inr (find (\<lambda>q. ?p (snd q)) ?m)"
    using assms(2) by (simp add: db_find_by_def get_index_def registered_def)
  show ?thesis
  proof (cases "find (\<lambda>q. ?p (snd q)) ?m")
    case None
    then have none: "\<not> ?p v" if "accounts d i = Some v" for i v
      using find_om(2) [OF f(1), of ?p] that unfolding accounts_def by blast
    have "ac_name a \<noteq> n" if "accounts d i = Some (Account a)" for i a
      using none [OF that] by simp
    with r None show ?thesis by (simp add: find_account_by_def)
  next
    case (Some q)
    obtain i v where q: "q = (i, v)" by (cases q)
    from find_om(1) [OF f(1) Some [unfolded q]] have m: "accounts d i = Some v" "?p v"
      by (simp_all add: accounts_def)
    from f(2) [OF m(1)] obtain a where "v = Account a" by blast
    with m r Some q show ?thesis by (simp add: find_account_by_def)
  qed
qed

lemma find_account_iff:
  assumes "chain_ok d" and "registered d"
  shows "find_account_by n d = Inr (Some (i, a)) \<longleftrightarrow> accounts d i = Some (Account a) \<and> ac_name a = n"
proof
  assume "find_account_by n d = Inr (Some (i, a))"
  then show "accounts d i = Some (Account a) \<and> ac_name a = n"
    using find_account_cases [OF assms, of n] by auto
next
  assume a: "accounts d i = Some (Account a) \<and> ac_name a = n"
  then obtain j b where b: "find_account_by n d = Inr (Some (j, b))" "accounts d j = Some (Account b)" "ac_name b = n"
    using find_account_cases [OF assms, of n] by blast
  with a account_facts(3) [OF assms, of i a j b] show "find_account_by n d = Inr (Some (i, a))" by simp
qed

lemma ledger_iff:
  assumes "chain_ok d" and "registered d"
  shows "ledger d n = Some x \<longleftrightarrow> (\<exists>i a. accounts d i = Some (Account a) \<and> ac_name a = n \<and> x = amount (balance a))"
proof -
  have "ledger d n = Some x \<longleftrightarrow> (\<exists>i a. find_account_by n d = Inr (Some (i, a)) \<and> x = amount (balance a))"
    by (auto simp: ledger_def split: sum.splits option.splits)
  then show ?thesis using find_account_iff [OF assms] by simp
qed

lemma get_account_eq:
  assumes "chain_ok d" and "registered d"
  shows "get_account n d =
    (case find_account_by n d of Inr (Some p) \<Rightarrow> Inr p | _ \<Rightarrow> Inl Unhandled, d)"
  using find_account_cases [OF assms, of n]
  by (auto simp: get_account_def capture_def reads_def std_exception_def)

lemma ledger_get:
  assumes "chain_ok d" and "registered d"
  shows "ledger d n = None \<Longrightarrow> get_account n d = (Inl Unhandled, d)"
    "ledger d n = Some x \<Longrightarrow> \<exists>i a. get_account n d = (Inr (i, a), d) \<and> accounts d i = Some (Account a) \<and>
       ac_name a = n \<and> amount (balance a) = x \<and> symbol (balance a) = news_symbol"
proof -
  show "get_account n d = (Inl Unhandled, d)" if "ledger d n = None"
    using find_account_cases [OF assms, of n] that by (auto simp: ledger_def get_account_eq [OF assms])
  show "\<exists>i a. get_account n d = (Inr (i, a), d) \<and> accounts d i = Some (Account a) \<and>
       ac_name a = n \<and> amount (balance a) = x \<and> symbol (balance a) = news_symbol" if l: "ledger d n = Some x"
  proof -
    from l ledger_iff [OF assms] obtain i a where
      a: "accounts d i = Some (Account a)" "ac_name a = n" "x = amount (balance a)" by blast
    with find_account_iff [OF assms, of n i a] have "find_account_by n d = Inr (Some (i, a))" by simp
    with a account_facts(2) [OF assms a(1)] show ?thesis by (simp add: get_account_eq [OF assms])
  qed
qed

subsection \<open>Writing an account\<close>

lemma accounts_present: "accounts d = fst (present (idx account_type (objects d)))"
  by (simp add: accounts_def present_def)

lemma modify_account_run:
  assumes ok: "chain_ok d" and reg: "registered d" and a: "accounts d i = Some (Account a)"
    and b: "f a = Inr b" "symbol (balance b) = news_symbol"
    and key: "\<And>a b. f a = Inr b \<Longrightarrow> ac_name b = ac_name a"
  shows "\<exists>e. modify_account i f d = (Inr (), e) \<and> frame e = frame d \<and> chain_ok e \<and> registered e \<and>
    accounts e = (accounts d)(i \<mapsto> Account b)"
proof -
  let ?f = "\<lambda>x. case x of Account a \<Rightarrow> rbind (f a) (\<lambda>b. Inr (Account b)) | _ \<Rightarrow> Inl Undefined"
  have st: "store_ok (objects d)" using ok by (simp add: chain_ok_def)
  obtain r c where run: "db_modify chain_clash account_type i ?f (objects d) = (r, c)"
    by (cases "db_modify chain_clash account_type i ?f (objects d)")
  have k: "same_key same_unique_key v w" if "?f v = Inr w" for v w
  proof -
    from that obtain x y where vw: "v = Account x" "w = Account y" "f x = Inr y"
      by (cases v) (auto simp: rbind_Inr_iff)
    have "same_unique_key (Account x) z = same_unique_key (Account y) z \<and>
        same_unique_key z (Account x) = same_unique_key z (Account y)" for z
      using key [OF vw(3)] by (cases z) auto
    with vw show ?thesis by (simp add: same_key_def)
  qed
  have "map_of (indices (idx account_type (objects d))) i = Some (Account a)" using a by (simp add: accounts_def)
  note m = modify_effect [OF st run reg [unfolded registered_def] this _ _ k, of "Account b"]
  have w: "?f (Account a) = Inr (Account b)" "obj_ok account_type (Account b)" using b by simp_all
  let ?e = "d\<lparr>objects := c\<rparr>"
  have "modify_account i f d = (Inr (), ?e)"
    using run m(3) [OF w] by (simp add: modify_account_def on_objects_def)
  moreover have "chain_ok ?e" using ok m(1) [OF w] by (simp add: chain_ok_def)
  moreover have "registered ?e" using reg m(6) [OF w] by (simp add: registered_def has_index_def)
  moreover have "accounts ?e = (accounts d)(i \<mapsto> Account b)"
    using m(5) [OF w] by (simp add: accounts_present)
  ultimately show ?thesis by auto
qed

lemma ledger_upd:
  assumes d: "chain_ok d" "registered d" and e: "chain_ok e" "registered e"
    and a: "accounts d i = Some (Account a)" and u: "accounts e = (accounts d)(i \<mapsto> Account b)"
    and n: "ac_name b = ac_name a"
  shows "ledger e = (ledger d)(ac_name a \<mapsto> amount (balance b))"
proof
  fix k
  show "ledger e k = ((ledger d)(ac_name a \<mapsto> amount (balance b))) k"
  proof (cases "k = ac_name a")
    case True
    with u n have "ledger e k = Some (amount (balance b))" unfolding ledger_iff [OF e] by auto
    with True show ?thesis by simp
  next
    case False
    have "ledger e k = Some x \<longleftrightarrow> ledger d k = Some x" for x
      unfolding ledger_iff [OF e] ledger_iff [OF d] using u n a False
      by (auto split: if_splits) (metis chain_object.inject(4) option.inject)
    then have "ledger e k = ledger d k" by (cases "ledger d k"; cases "ledger e k") auto
    with False show ?thesis by simp
  qed
qed

subsection \<open>Transfers\<close>

lemma add_amount_facts [simp]:
  "ac_name (add_amount v a) = ac_name a" "symbol (balance (add_amount v a)) = symbol (balance a)"
  "amount (balance (add_amount v a)) = amount (balance a) + v"
  by (simp_all add: add_amount_def)

text \<open>One movement on the account of a name.\<close>

lemma modify_ledger:
  assumes ok: "chain_ok d" "registered d" and a: "accounts d i = Some (Account a)"
    and b: "f a = Inr b" "symbol (balance b) = news_symbol"
    and key: "\<And>a b. f a = Inr b \<Longrightarrow> ac_name b = ac_name a"
  shows "\<exists>e. modify_account i f d = (Inr (), e) \<and> frame e = frame d \<and> chain_ok e \<and> registered e \<and>
    accounts e = (accounts d)(i \<mapsto> Account b) \<and> ledger e = (ledger d)(ac_name a \<mapsto> amount (balance b))"
proof -
  from modify_account_run [where f = f and b = b, OF ok a b key] obtain e where
    e: "modify_account i f d = (Inr (), e)" "frame e = frame d" "chain_ok e" "registered e"
       "accounts e = (accounts d)(i \<mapsto> Account b)" by blast
  from ledger_upd [OF ok e(3,4) a e(5) key [OF b(1)]] e show ?thesis by blast
qed

lemma transfer_run:
  assumes ok: "chain_ok d" "registered d" and ne: "t_from op \<noteq> t_to op"
    and x: "ledger d (t_from op) = Some x" and y: "ledger d (t_to op) = Some y"
  shows "\<exists>e. transfer_apply op d =
      (if sint (amount (t_amount op)) \<le> sint x then Inr () else Inl Fc_Assert, e) \<and>
    chain_ok e \<and> registered e \<and> frame e = frame d \<and>
    (if sint (amount (t_amount op)) \<le> sint x
     then ledger e = (ledger d)(t_from op \<mapsto> x - amount (t_amount op), t_to op \<mapsto> y + amount (t_amount op))
     else e = d)"
proof -
  let ?v = "amount (t_amount op)"
  from ledger_get(2) [OF ok x] obtain i a where a: "get_account (t_from op) d = (Inr (i, a), d)"
    "accounts d i = Some (Account a)" "ac_name a = t_from op" "amount (balance a) = x"
    "symbol (balance a) = news_symbol" by blast
  from ledger_get(2) [OF ok y] obtain j b where b: "get_account (t_to op) d = (Inr (j, b), d)"
    "accounts d j = Some (Account b)" "ac_name b = t_to op" "amount (balance b) = y"
    "symbol (balance b) = news_symbol" by blast
  show ?thesis
  proof (cases "sint ?v \<le> sint x")
    case False
    with a b ok show ?thesis by (simp add: transfer_apply_def bnd_def seq_def check_def raise_def)
  next
    case True
    have ij: "j \<noteq> i" using a(2,3) b(2,3) ne by auto
    have "\<exists>e. modify_account i (\<lambda>a. Inr (add_amount (- ?v) a)) d = (Inr (), e) \<and> frame e = frame d \<and>
        chain_ok e \<and> registered e \<and> accounts e = (accounts d)(i \<mapsto> Account (add_amount (- ?v) a)) \<and>
        ledger e = (ledger d)(ac_name a \<mapsto> amount (balance (add_amount (- ?v) a)))"
      by (rule modify_ledger [OF ok a(2)]) (use a(5) in simp_all)
    then obtain e1 where
      e1: "modify_account i (\<lambda>a. Inr (add_amount (- ?v) a)) d = (Inr (), e1)" "frame e1 = frame d"
        "chain_ok e1" "registered e1" "accounts e1 = (accounts d)(i \<mapsto> Account (add_amount (- ?v) a))"
        "ledger e1 = (ledger d)(t_from op \<mapsto> x - ?v)" by (auto simp: a(3,4))
    have b1: "accounts e1 j = Some (Account b)" using e1(5) b(2) ij by simp
    have "\<exists>e. modify_account j (\<lambda>a. Inr (add_amount ?v a)) e1 = (Inr (), e) \<and> frame e = frame e1 \<and>
        chain_ok e \<and> registered e \<and> accounts e = (accounts e1)(j \<mapsto> Account (add_amount ?v b)) \<and>
        ledger e = (ledger e1)(ac_name b \<mapsto> amount (balance (add_amount ?v b)))"
      by (rule modify_ledger [OF e1(3,4) b1]) (use b(5) in simp_all)
    then obtain e2 where
      e2: "modify_account j (\<lambda>a. Inr (add_amount ?v a)) e1 = (Inr (), e2)" "frame e2 = frame e1"
        "chain_ok e2" "registered e2" "ledger e2 = (ledger e1)(t_to op \<mapsto> y + ?v)" by (auto simp: b(3,4))
    have "transfer_apply op d = (Inr (), e2)"
      using a b e1 e2 True by (simp add: transfer_apply_def bnd_def seq_def check_def ret_def)
    with e1 e2 True show ?thesis by auto
  qed
qed

lemma transfer_unknown:
  assumes ok: "chain_ok d" "registered d" and "ledger d (t_from op) = None \<or> ledger d (t_to op) = None"
  shows "transfer_apply op d = (Inl Unhandled, d)"
proof (cases "ledger d (t_from op)")
  case None
  from ledger_get(1) [OF ok this] show ?thesis by (simp add: transfer_apply_def bnd_def)
next
  case (Some x)
  with assms(3) have y: "ledger d (t_to op) = None" by simp
  from ledger_get(2) [OF ok Some] ledger_get(1) [OF ok y] show ?thesis
    by (auto simp: transfer_apply_def bnd_def)
qed

subsection \<open>Batches\<close>

text \<open>The movements of a batch on the ledger, and the sum the code computes, in 64 bits.\<close>

definition credit :: "u64 \<times> asset \<Rightarrow> (u64 \<Rightarrow> i64 option) \<Rightarrow> u64 \<Rightarrow> i64 option" where
  "credit p l = l(fst p \<mapsto> the (l (fst p)) + amount (snd p))"

definition batch_sum :: "(u64 \<times> asset) list \<Rightarrow> i64" where
  "batch_sum ts = sum_list (map (\<lambda>p. amount (snd p)) ts)"

definition payable :: "chain_db \<Rightarrow> (u64 \<times> asset) list \<Rightarrow> bool" where
  "payable d ts \<longleftrightarrow> list_all (\<lambda>p. ledger d (fst p) \<noteq> None \<and> symbol (snd p) = news_symbol) ts"

lemma sum_targets_run:
  assumes ok: "chain_ok d" "registered d" and s: "symbol s = news_symbol"
  shows "if payable d ts
    then sum_targets ts s d = (Inr \<lparr>amount = amount s + batch_sum ts, symbol = news_symbol\<rparr>, d)
    else \<exists>x. sum_targets ts s d = (Inl x, d)"
  using s
proof (induction ts s rule: sum_targets.induct)
  case (1 s)
  then show ?case by (cases s) (simp add: payable_def batch_sum_def ret_def)
next
  case (2 n a ts s)
  show ?case
  proof (cases "ledger d n")
    case None
    with ledger_get(1) [OF ok None] show ?thesis by (simp add: payable_def seq_def bnd_def)
  next
    case (Some x)
    from ledger_get(2) [OF ok Some] obtain p where p: "get_account n d = (Inr p, d)" by blast
    show ?thesis
    proof (cases "symbol a = news_symbol")
      case False
      with 2(2) have "asset_add s a = Inl Fc_Assert" by (simp add: asset_add_def same_symbol_def)
      with p False show ?thesis by (simp add: payable_def seq_def bnd_def lift_r_def)
    next
      case True
      let ?u = "\<lparr>amount = amount s + amount a, symbol = news_symbol\<rparr>"
      from True 2(2) have u: "asset_add s a = Inr ?u" by (simp add: asset_add_def same_symbol_def)
      have "sum_targets ((n, a) # ts) s d = sum_targets ts ?u d"
        using p u by (simp add: seq_def bnd_def lift_r_def)
      with 2(1) [of ?u] True Some show ?thesis
        by (simp add: payable_def batch_sum_def add.assoc)
    qed
  qed
qed

lemma credit_run:
  assumes ok: "chain_ok d" "registered d" and p: "ledger d (fst p) \<noteq> None" "symbol (snd p) = news_symbol"
  shows "\<exists>e. credit_target p d = (Inr (), e) \<and> frame e = frame d \<and> chain_ok e \<and> registered e \<and>
    ledger e = credit p (ledger d)"
proof -
  from p(1) obtain y where y: "ledger d (fst p) = Some y" by blast
  from ledger_get(2) [OF ok y] obtain i a where a: "get_account (fst p) d = (Inr (i, a), d)"
    "accounts d i = Some (Account a)" "ac_name a = fst p" "amount (balance a) = y"
    "symbol (balance a) = news_symbol" by blast
  let ?f = "\<lambda>a. rbind (asset_add (balance a) (snd p)) (\<lambda>b. Inr (a\<lparr>balance := b\<rparr>))"
  let ?b = "a\<lparr>balance := \<lparr>amount = y + amount (snd p), symbol = news_symbol\<rparr>\<rparr>"
  have "\<exists>e. modify_account i ?f d = (Inr (), e) \<and> frame e = frame d \<and> chain_ok e \<and> registered e \<and>
      accounts e = (accounts d)(i \<mapsto> Account ?b) \<and> ledger e = (ledger d)(ac_name a \<mapsto> amount (balance ?b))"
    by (rule modify_ledger [OF ok a(2)])
       (use a p(2) in \<open>auto simp: asset_add_def same_symbol_def rbind_Inr_iff\<close>)
  with a y show ?thesis by (auto simp: credit_target_def bnd_def credit_def)
qed

lemma payable_frame: "payable d (p # ts) \<longleftrightarrow> ledger d (fst p) \<noteq> None \<and> symbol (snd p) = news_symbol \<and> payable d ts"
  by (simp add: payable_def)

lemma credits_run:
  assumes "chain_ok d" "registered d" and "payable d ts"
  shows "\<exists>e. each credit_target ts d = (Inr (), e) \<and> frame e = frame d \<and> chain_ok e \<and> registered e \<and>
    ledger e = fold credit ts (ledger d)"
  using assms
proof (induction ts arbitrary: d)
  case Nil
  then show ?case by (simp add: ret_def)
next
  case (Cons p ts)
  from Cons.prems(3) have p: "ledger d (fst p) \<noteq> None" "symbol (snd p) = news_symbol" "payable d ts"
    by (simp_all add: payable_frame)
  from credit_run [OF Cons.prems(1,2) p(1,2)] obtain e where
    e: "credit_target p d = (Inr (), e)" "frame e = frame d" "chain_ok e" "registered e"
       "ledger e = credit p (ledger d)" by blast
  have "payable e ts" using p(3) by (auto simp: payable_def list_all_iff e(5) credit_def)
  from Cons.IH [OF e(3,4) this] e show ?case by (auto simp: seq_def bnd_def)
qed

lemma transfers_run:
  assumes ok: "chain_ok d" "registered d" and x: "ledger d (ts_from op) = Some x"
  shows "if payable d (to_names op) \<and> sint (batch_sum (to_names op)) \<le> sint x
    then \<exists>e. transfers_apply op d = (Inr (), e) \<and> frame e = frame d \<and> chain_ok e \<and> registered e \<and>
      ledger e = fold credit (to_names op) ((ledger d)(ts_from op \<mapsto> x - batch_sum (to_names op)))
    else \<exists>x. transfers_apply op d = (Inl x, d)"
proof -
  let ?ts = "to_names op" and ?z = "\<lparr>amount = 0, symbol = news_symbol\<rparr>"
  from ledger_get(2) [OF ok x] obtain i a where a: "get_account (ts_from op) d = (Inr (i, a), d)"
    "accounts d i = Some (Account a)" "ac_name a = ts_from op" "amount (balance a) = x"
    "symbol (balance a) = news_symbol" by blast
  have st: "if payable d ?ts then sum_targets ?ts ?z d = (Inr \<lparr>amount = batch_sum ?ts, symbol = news_symbol\<rparr>, d)
    else \<exists>x. sum_targets ?ts ?z d = (Inl x, d)"
    using sum_targets_run [OF ok, of ?z ?ts] by simp
  show ?thesis
  proof (cases "payable d ?ts")
    case False
    with st obtain y where "sum_targets ?ts ?z d = (Inl y, d)" by auto
    with a(1) False show ?thesis by (simp add: transfers_apply_def bnd_def)
  next
    case True
    let ?t = "\<lparr>amount = batch_sum ?ts, symbol = news_symbol\<rparr>"
    have s: "sum_targets ?ts ?z d = (Inr ?t, d)" using st True by simp
    have ge: "asset_ge (balance a) ?t = Inr (sint x \<ge> sint (batch_sum ?ts))"
      using a(4,5) by (simp add: asset_ge_def same_symbol_def)
    let ?f = "\<lambda>a. rbind (asset_sub (balance a) ?t) (\<lambda>b. Inr (a\<lparr>balance := b\<rparr>))"
    let ?b = "a\<lparr>balance := \<lparr>amount = x - batch_sum ?ts, symbol = news_symbol\<rparr>\<rparr>"
    show ?thesis
    proof (cases "sint (batch_sum ?ts) \<le> sint x")
      case False
      with a(1) s ge True show ?thesis
        by (simp add: transfers_apply_def bnd_def seq_def lift_r_def check_def raise_def)
    next
      case le: True
      have "\<exists>e. modify_account i ?f d = (Inr (), e) \<and> frame e = frame d \<and> chain_ok e \<and> registered e \<and>
          accounts e = (accounts d)(i \<mapsto> Account ?b) \<and> ledger e = (ledger d)(ac_name a \<mapsto> amount (balance ?b))"
        by (rule modify_ledger [OF ok a(2)])
           (use a in \<open>auto simp: asset_sub_def same_symbol_def rbind_Inr_iff\<close>)
      then obtain e1 where e1: "modify_account i ?f d = (Inr (), e1)" "frame e1 = frame d" "chain_ok e1"
        "registered e1" "ledger e1 = (ledger d)(ts_from op \<mapsto> x - batch_sum ?ts)"
        using a(3) by auto
      have "payable e1 ?ts" using True by (auto simp: payable_def list_all_iff e1(5))
      from credits_run [OF e1(3,4) this] obtain e where
        e: "each credit_target ?ts e1 = (Inr (), e)" "frame e = frame e1" "chain_ok e" "registered e"
           "ledger e = fold credit ?ts (ledger e1)" by blast
      have "transfers_apply op d = (Inr (), e)"
        using a(1) s ge le e1(1) e(1) by (simp add: transfers_apply_def bnd_def seq_def lift_r_def check_def ret_def)
      with e e1 True le show ?thesis by auto
    qed
  qed
qed

subsection \<open>New accounts\<close>

lemma create_effect:
  assumes ok: "store_ok db" and run: "db_create chain_clash t v db = (Inr i, e)"
  shows "has_index t db" "present (idx t e) = ((fst (present (idx t db)))(i \<mapsto> v), Suc i)"
    "\<And>s. s \<noteq> t \<Longrightarrow> idx s e = idx s db" "map_of (indices (idx t db)) i = None" "index_list e = index_list db"
proof -
  show has: "has_index t db" using run by (auto simp: db_create_def on_index_def split: if_splits)
  obtain q g where g: "gi_emplace (chain_clash t) v (idx t db) = (q, g)"
    by (cases "gi_emplace (chain_clash t) v (idx t db)")
  from run has g have e: "e = put_idx t g db" "q = Inr i" by (simp_all add: db_create_def on_index_has)
  have inv: "gi_inv (chain_clash t) (idx t db)"
    using store_okD(2) [OF ok] has by (simp add: db_inv_def has_index_def)
  show "present (idx t e) = ((fst (present (idx t db)))(i \<mapsto> v), Suc i)"
    using gi_emplace_ok [OF inv g] e by simp
  show "map_of (indices (idx t db)) i = None"
    using gi_emplace_written [OF g [unfolded e(2)]] by blast
  show "idx s e = idx s db" if "s \<noteq> t" for s using that by (simp add: e)
  show "index_list e = index_list db" by (simp add: e)
qed

lemma create_object_run:
  assumes ok: "chain_ok d" and run: "create_object t x d = (Inr i, e)" and x: "obj_ok t x" "t \<noteq> global_property_type"
  shows "chain_ok e" "e = d\<lparr>objects := objects e\<rparr>" "db_create chain_clash t x (objects d) = (Inr i, objects e)"
proof -
  show "db_create chain_clash t x (objects d) = (Inr i, objects e)" "e = d\<lparr>objects := objects e\<rparr>"
    using run by (auto simp: create_object_def on_objects_def split: prod.splits)
  show "chain_ok e"
    using withinD [OF create_object_step [OF x] run] ok by (simp add: chain_step_def store_step_def)
qed

lemma create_account_run:
  assumes ok: "chain_ok d" "registered d" and run: "create_account_apply op d = (Inr (), e)"
  shows "ledger d (creator op) \<noteq> None \<and> ledger d (new_name op) = None \<and> chain_ok e \<and> registered e \<and>
    ledger e = (ledger d)(new_name op \<mapsto> 0)"
proof -
  let ?o = "\<lambda>t. Account \<lparr>ac_name = new_name op, ac_creator = creator op,
      balance = \<lparr>amount = 0, symbol = news_symbol\<rparr>, create_time = 1000000 * ucast t\<rparr>"
  let ?p = "Account_Authority \<lparr>aa_name = new_name op, aa_posting = posting op, aa_owner = owner op\<rparr>"
  have pure: "reads f d = (Inr x, d1) \<longleftrightarrow> f d = Inr x \<and> d1 = d" 
    for f :: "chain_db \<Rightarrow> 'a result" and x d1 and d :: chain_db
    by (auto simp: reads_def)
  have chk: "check b x d = (Inr u, d1) \<longleftrightarrow> b \<and> d1 = d" for b x u d1 and d :: chain_db
    by (auto simp: check_def ret_def raise_def)
  from run obtain c t d0 i d1 j where c: "find_account_by (creator op) d = Inr c" "c \<noteq> None"
    and n: "find_account_by (new_name op) d = Inr None" and t: "head_block_time d = (Inr t, d0)"
    and i: "create_object account_type (?o t) d0 = (Inr i, d1)"
    and j: "create_object account_authority_type ?p d1 = (Inr j, e)"
    unfolding create_account_apply_def bnd_Inr_iff seq_Inr_iff pure chk ret_def prod.inject by blast
  have d0: "d0 = d" using t
    by (auto simp: head_block_time_def get_global_property_object_def get_object_def reads_def capture_def
        bnd_def ret_def split: prod.splits sum.splits)
  have o': "obj_ok account_type (?o t)" "account_type \<noteq> global_property_type"
    and p: "obj_ok account_authority_type ?p" "account_authority_type \<noteq> global_property_type" by simp_all
  note i1 = create_object_run [OF ok(1) i [unfolded d0] o']
  note j1 = create_object_run [OF i1(1) j p]
  have s: "store_ok (objects d)" "store_ok (objects d1)" using ok i1(1) by (simp_all add: chain_ok_def)
  note ei = create_effect [OF s(1) i1(3)] and ej = create_effect [OF s(2) j1(3)]
  have re: "registered e" using ok(2) ei(5) ej(5) by (simp add: registered_def has_index_def)
  have acc: "accounts e = (accounts d)(i \<mapsto> ?o t)"
    using ei(2) ej(3) [of account_type] by (simp add: accounts_present)
  have fresh: "accounts d i = None" using ei(4) by (simp add: accounts_def)
  have new: "ledger d (new_name op) = None" using n by (simp add: ledger_def)
  have "ledger e k = ((ledger d)(new_name op \<mapsto> 0)) k" for k
  proof (cases "k = new_name op")
    case True
    then have "ledger e k = Some 0" unfolding ledger_iff [OF j1(1) re] by (auto simp: acc)
    with True show ?thesis by simp
  next
    case False
    have "ledger e k = Some x \<longleftrightarrow> ledger d k = Some x" for x
      unfolding ledger_iff [OF j1(1) re] ledger_iff [OF ok] using acc fresh False
      by (auto split: if_splits) (metis option.distinct(1))
    then have "ledger e k = ledger d k" by (cases "ledger d k"; cases "ledger e k") auto
    with False show ?thesis by simp
  qed
  moreover have "ledger d (creator op) \<noteq> None"
    using c find_account_cases [OF ok, of "creator op"] by (auto simp: ledger_def)
  ultimately show ?thesis using new j1(1) re by auto
qed

subsection \<open>The circulation\<close>

definition circulation :: "(u64 \<Rightarrow> i64 option) \<Rightarrow> i64" where
  "circulation l = (\<Sum>n \<in> dom l. the (l n))"

lemma finite_ledger:
  assumes "chain_ok d" and "registered d"
  shows "finite (dom (ledger d))"
proof (rule finite_subset)
  show "dom (ledger d) \<subseteq> (\<lambda>v. case v of Account a \<Rightarrow> ac_name a | _ \<Rightarrow> 0) ` ran (accounts d)"
  proof
    fix n assume "n \<in> dom (ledger d)"
    then obtain i a where "accounts d i = Some (Account a)" "ac_name a = n"
      using ledger_iff [OF assms, of n] by (auto simp: dom_def)
    then show "n \<in> (\<lambda>v. case v of Account a \<Rightarrow> ac_name a | _ \<Rightarrow> 0) ` ran (accounts d)"
      by (intro image_eqI [of _ _ "Account a"]) (auto intro: ranI)
  qed
  show "finite ((\<lambda>v. case v of Account a \<Rightarrow> ac_name a | _ \<Rightarrow> 0) ` ran (accounts d))"
    by (simp add: accounts_def finite_ran finite_dom_map_of)
qed

lemma circulation_upd:
  assumes "finite (dom l)" and "l n = Some x"
  shows "circulation (l(n \<mapsto> v)) = circulation l - x + v"
proof -
  have n: "n \<in> dom l" "dom (l(n \<mapsto> v)) = dom l" using assms(2) by auto
  have "(\<Sum>k \<in> dom l - {n}. the ((l(n \<mapsto> v)) k)) = (\<Sum>k \<in> dom l - {n}. the (l k))"
    by (rule sum.cong) auto
  then show ?thesis
    using sum.remove [OF assms(1) n(1), of "\<lambda>k. the ((l(n \<mapsto> v)) k)"] sum.remove [OF assms(1) n(1), of "\<lambda>k. the (l k)"]
    unfolding circulation_def n(2) by (simp add: assms(2))
qed

lemma circulation_new: "finite (dom l) \<Longrightarrow> l n = None \<Longrightarrow> circulation (l(n \<mapsto> 0)) = circulation l"
proof -
  assume fin: "finite (dom l)" and n: "l n = None"
  then have "dom (l(n \<mapsto> 0)) = insert n (dom l)" "n \<notin> dom l" by auto
  then have "circulation (l(n \<mapsto> 0)) = (\<Sum>k \<in> dom l. the ((l(n \<mapsto> 0)) k))"
    using fin by (simp add: circulation_def)
  also have "\<dots> = circulation l" unfolding circulation_def using \<open>n \<notin> dom l\<close> by (intro sum.cong) auto
  finally show ?thesis .
qed

lemma circulation_credits:
  "finite (dom l) \<Longrightarrow> list_all (\<lambda>p. l (fst p) \<noteq> None) ts \<Longrightarrow> circulation (fold credit ts l) = circulation l + batch_sum ts"
proof (induction ts arbitrary: l)
  case Nil
  then show ?case by (simp add: batch_sum_def)
next
  case (Cons p ts)
  then obtain y where y: "l (fst p) = Some y" by auto
  have "finite (dom (credit p l))" "list_all (\<lambda>q. credit p l (fst q) \<noteq> None) ts"
    using Cons.prems by (auto simp: credit_def list_all_iff)
  from Cons.IH [OF this] have "circulation (fold credit (p # ts) l) = circulation (credit p l) + batch_sum ts"
    by simp
  also have "circulation (credit p l) = circulation l + amount (snd p)"
    using circulation_upd [OF Cons.prems(1) y, of "y + amount (snd p)"] y by (simp add: credit_def)
  finally show ?case by (simp add: batch_sum_def)
qed

end
