(* ===== verification/Demo_Chain.thy ===== *)
theory Demo_Chain
  imports Ledger Chain_Types_Props
begin

section \<open>A small chain\<close>

text \<open>
  A chain at block 1 with three accounts, on which the claims are applied: account 1 holds 100,
  the others nothing; all sign with the key that the sample signatures recover to.
\<close>

definition sample_index :: "chain_object list \<Rightarrow> chain_object generic_index" where
  "sample_index xs = \<lparr>stack = [], gi_revision = 1, next_id = length xs, indices = zip [0..<length xs] xs\<rparr>"

lemma sample_lookup: "map_of (zip [0..<length xs] xs) i = (if i < length xs then Some (xs ! i) else None)"
proof (cases "i < length xs")
  case True
  have "distinct (map fst (zip [0..<length xs] xs))" by simp
  moreover have "(i, xs ! i) \<in> set (zip [0..<length xs] xs)" using True by (auto simp: set_zip intro!: exI [of _ i])
  ultimately have "map_of (zip [0..<length xs] xs) i = Some (xs ! i)" by (simp add: map_of_is_SomeI)
  with True show ?thesis by simp
next
  case False
  then have "i \<notin> fst ` set (zip [0..<length xs] xs)" by (auto simp: set_zip)
  with False show ?thesis by (simp add: map_of_eq_None_iff)
qed

lemma symp_unique: "symp same_unique_key"
proof (rule sympI)
  fix x y assume "same_unique_key x y"
  then show "same_unique_key y x" by (cases x; cases y) auto
qed

lemma sample_inv:
  assumes "\<And>i j. i < length xs \<Longrightarrow> j < length xs \<Longrightarrow> i \<noteq> j \<Longrightarrow> \<not> same_unique_key (xs ! i) (xs ! j)"
  shows "gi_inv same_unique_key (sample_index xs)"
proof -
  have "map fst (zip [0..<length xs] xs) = [0..<length xs]" by simp
  then have "om_wf (zip [0..<length xs] xs)" by (simp add: om_wf_def)
  moreover have "no_clash same_unique_key (map_of (zip [0..<length xs] xs))"
    unfolding no_clash_def sample_lookup using assms by (auto split: if_splits)
  ultimately show ?thesis
    by (auto simp: gi_inv_def sample_index_def symp_unique sample_lookup split: if_splits)
qed

definition sample_id :: bytes where "sample_id = [0, 0, 0, 1] @ replicate 16 0"

definition sample_holder :: "u64 \<Rightarrow> i64 \<Rightarrow> account_object" where
  "sample_holder n v = \<lparr>ac_name = n, ac_creator = 0, balance = \<lparr>amount = v, symbol = news_symbol\<rparr>, create_time = 0\<rparr>"

definition sample_account :: "u64 \<Rightarrow> i64 \<Rightarrow> chain_object" where
  "sample_account n v = Account (sample_holder n v)"

lemma sample_holder_fields [simp]:
  "ac_name (sample_holder n v) = n" "amount (balance (sample_holder n v)) = v"
  "symbol (balance (sample_holder n v)) = news_symbol"
  by (simp_all add: sample_holder_def)

definition sample_authority :: "u64 \<Rightarrow> chain_object" where
  "sample_authority n =
     (let a = \<lparr>auth_key = replicate 33 1, auth_weight = 1\<rparr>
      in Account_Authority \<lparr>aa_name = n, aa_posting = a, aa_owner = a\<rparr>)"

definition sample_gpo :: global_property where
  "sample_gpo = \<lparr>head_block_num_of = 1, head_block_id_of = sample_id, gp_time = 9, current_producer = 0,
                 last_irreversible_block_num = 0, current_aslot = 1\<rparr>"

definition sample_hardfork :: hardfork_property_object where
  "sample_hardfork = \<lparr>processed_hardfork = [0], last_hardfork = 0, current_hardfork_version = 1,
                      next_hardfork_version = 1, next_hardfork_time = 0\<rparr>"

definition sample_rows :: "chain_object list list" where
  "sample_rows =
     [[Global_Property sample_gpo], [Block_Summary zero_id, Block_Summary sample_id, Block_Summary zero_id], [],
      [sample_account 1 100, sample_account 2 0, sample_account 3 0],
      [sample_authority 1, sample_authority 2, sample_authority 3], [], [],
      [Hardfork_Property sample_hardfork]]"

definition sample_objects :: "chain_object cdb" where
  "sample_objects =
     \<lparr>segment = zip [0..<8] (map sample_index sample_rows), index_list = [0..<8], index_types = [0..<8],
      undo_session_count = 0\<rparr>"

definition sample_db :: chain_db where
  "sample_db = (init_hardforks (new_chain_db (\<lambda>_. [])))\<lparr>objects := sample_objects\<rparr>"

definition sample_env :: chain_env where
  "sample_env = \<lparr>crypto_of = demo_crypto, post_handlers = [], now_us = 0, free_memory = 0, max_memory = 0, asserts_on = True\<rparr>"

lemma sample_length: "length sample_rows = 8"
  by (simp add: sample_rows_def)

lemma sample_segment: "t < 8 \<Longrightarrow> map_of (segment sample_objects) t = Some (sample_index (sample_rows ! t))"
  using sample_lookup [of "map sample_index sample_rows" t]
  by (simp add: sample_objects_def sample_length)

lemma sample_idx: "t < 8 \<Longrightarrow> idx t sample_objects = sample_index (sample_rows ! t)"
  by (simp add: idx_def sample_segment)

lemma sample_objects_of: "objects sample_db = sample_objects"
  by (simp add: sample_db_def)

lemma below8: "t < (8::nat) \<longleftrightarrow> t = 0 \<or> t = 1 \<or> t = 2 \<or> t = 3 \<or> t = 4 \<or> t = 5 \<or> t = 6 \<or> t = 7"
  by arith

lemma sample_row_inv: "t < 8 \<Longrightarrow> gi_inv same_unique_key (sample_index (sample_rows ! t))"
  by (rule sample_inv)
     (auto simp: below8 sample_rows_def sample_account_def sample_authority_def less_Suc_eq Let_def)

lemma sample_row_ok: "t < 8 \<Longrightarrow> snap_ok t (present (sample_index (sample_rows ! t)))"
  unfolding snap_ok_def present_def sample_index_def ran_def
  by (auto simp: sample_lookup below8 sample_rows_def sample_account_def sample_authority_def less_Suc_eq Let_def
      sample_hardfork_def split: if_splits)

lemma sample_store_ok: "store_ok sample_objects"
proof -
  have l: "index_list sample_objects = [0..<8]" by (simp add: sample_objects_def)
  have "om_wf (segment sample_objects)"
    by (simp add: om_wf_def sample_objects_def sample_rows_def)
  moreover have "set [0..<8] \<subseteq> dom (map_of (segment sample_objects))"
    using sample_segment by auto
  ultimately have "db_inv chain_clash sample_objects"
    using sample_row_inv by (simp add: db_inv_def l sample_idx chain_clash_def)
  moreover have r: "stack (idx t sample_objects) = []" "gi_revision (idx t sample_objects) = 1" if "t < 8" for t
    using that by (simp_all add: sample_idx sample_index_def)
  then have "level sample_objects" "aligned sample_objects"
    by (simp_all add: level_def depth_def l aligned_def hd_revision upt_rec)
  moreover have "typed sample_objects"
    using sample_row_ok r by (simp add: typed_def l snapshots_def sample_idx)
  ultimately show ?thesis by (simp add: store_ok_def db_ok_def)
qed

lemma sample_ok: "chain_ok sample_db" "registered sample_db" "handlers_ok sample_env"
  using sample_store_ok
  by (simp_all add: chain_ok_def sample_db_def init_hardforks_def registered_def has_index_def sample_objects_def
      handlers_ok_def sample_env_def)

lemma sample_accounts:
  "accounts sample_db i = (if i = 0 then Some (sample_account 1 100) else if i = 1 then Some (sample_account 2 0)
     else if i = 2 then Some (sample_account 3 0) else None)"
proof -
  have "idx account_type (objects sample_db) = sample_index [sample_account 1 100, sample_account 2 0, sample_account 3 0]"
    unfolding sample_objects_of account_type_def using sample_idx [of 3] by (simp add: sample_rows_def)
  then show ?thesis
    using sample_lookup [of "[sample_account 1 100, sample_account 2 0, sample_account 3 0]" i]
    by (auto simp: accounts_def sample_index_def less_Suc_eq numeral_2_eq_2)
qed

lemma sample_ledger: "ledger sample_db n = (if n = 1 then Some 100 else if n = 2 \<or> n = 3 then Some 0 else None)"
proof -
  have "accounts sample_db i = Some (Account a) \<longleftrightarrow>
      i = 0 \<and> a = sample_holder 1 100 \<or> i = 1 \<and> a = sample_holder 2 0 \<or> i = 2 \<and> a = sample_holder 3 0" for i a
    unfolding sample_accounts sample_account_def by (cases "i = 0"; cases "i = 1"; cases "i = 2") auto
  then have l: "ledger sample_db n = Some x \<longleftrightarrow> n = 1 \<and> x = 100 \<or> n = 2 \<and> x = 0 \<or> n = 3 \<and> x = 0" for x
    unfolding ledger_iff [OF sample_ok(1,2)] by (auto simp: conj_disj_distribR ex_disj_distrib)
  show ?thesis
  proof (cases "n = 1 \<or> n = 2 \<or> n = 3")
    case True
    with l [of 100] l [of 0] show ?thesis by auto
  next
    case False
    then have "ledger sample_db n \<noteq> Some x" for x using l [of x] by blast
    with False show ?thesis by (cases "ledger sample_db n") auto
  qed
qed

end
