(* ===== verification/Ledger_Props.thy ===== *)
theory Ledger_Props
  imports Demo_Chain
begin

section \<open>The ledger: properties\<close>

text \<open>The claims about the three evaluators, over the ledger of balances.\<close>

text \<open>
  C4: A transfer between two accounts on every branch. An unknown sender or receiver raises and
  changes nothing; so does an amount above the sender's balance; otherwise exactly the two
  balances change, one by minus and one by plus the amount, in 64 bits, and the objects stay well
  typed and undoable.
\<close>

theorem transfer_exact:
  assumes "chain_ok d" and "registered d" and "t_from op \<noteq> t_to op" and "transfer_apply op d = (r, e)"
  shows "case (ledger d (t_from op), ledger d (t_to op)) of
      (Some x, Some y) \<Rightarrow>
        (if sint (amount (t_amount op)) \<le> sint x
         then r = Inr () \<and> frame e = frame d \<and> chain_ok e \<and>
           ledger e = (ledger d)(t_from op \<mapsto> x - amount (t_amount op), t_to op \<mapsto> y + amount (t_amount op))
         else r = Inl Fc_Assert \<and> e = d)
    | _ \<Rightarrow> r = Inl Unhandled \<and> e = d"
proof (cases "ledger d (t_from op) = None \<or> ledger d (t_to op) = None")
  case True
  with transfer_unknown [OF assms(1,2) True] assms(4) show ?thesis by (auto split: option.splits)
next
  case False
  then obtain x y where "ledger d (t_from op) = Some x" "ledger d (t_to op) = Some y" by auto
  with transfer_run [OF assms(1-3) this] assms(4) show ?thesis by (auto split: if_splits)
qed

definition sample_transfer :: transfer_operation where
  "sample_transfer = \<lparr>t_from = 1, t_to = 2, t_amount = \<lparr>amount = 5, symbol = news_symbol\<rparr>, t_memo = []\<rparr>"

theorem transfer_exact_witness:
  "ledger (snd (transfer_apply sample_transfer sample_db)) 2 = Some 5"
proof -
  obtain r e where run: "transfer_apply sample_transfer sample_db = (r, e)"
    by (cases "transfer_apply sample_transfer sample_db")
  with transfer_exact [OF sample_ok(1,2) _ run] show ?thesis
    by (simp add: sample_transfer_def sample_ledger)
qed

text \<open>
  C5: A batch of transfers on every branch. It goes through exactly when the sender and every
  target are known, every amount is in the symbol of the chain and the sum of the amounts, taken
  in 64 bits, is at most the sender's balance. Then the sender pays that sum and each target is
  credited its amount in order; otherwise it raises and nothing at all has changed.
\<close>

theorem transfers_exact:
  assumes "chain_ok d" and "registered d" and "transfers_apply op d = (r, e)"
  shows "case ledger d (ts_from op) of
      None \<Rightarrow> r = Inl Unhandled \<and> e = d
    | Some x \<Rightarrow>
        (if payable d (to_names op) \<and> sint (batch_sum (to_names op)) \<le> sint x
         then r = Inr () \<and> frame e = frame d \<and> chain_ok e \<and>
           ledger e = fold credit (to_names op) ((ledger d)(ts_from op \<mapsto> x - batch_sum (to_names op)))
         else (\<exists>y. r = Inl y) \<and> e = d)"
proof (cases "ledger d (ts_from op)")
  case None
  with ledger_get(1) [OF assms(1,2) None] assms(3) show ?thesis by (simp add: transfers_apply_def bnd_def)
next
  case (Some x)
  with transfers_run [OF assms(1,2) Some] assms(3) show ?thesis by (auto split: if_splits)
qed

definition sample_batch :: "i64 \<Rightarrow> u64 \<Rightarrow> transfers_operation" where
  "sample_batch v n =
     \<lparr>ts_from = n, to_names = [(1, \<lparr>amount = v, symbol = news_symbol\<rparr>), (3, \<lparr>amount = v, symbol = news_symbol\<rparr>)],
      ts_memo = []\<rparr>"

theorem transfers_exact_witness: "snd (transfers_apply (sample_batch 1 2) sample_db) = sample_db"
proof -
  obtain r e where run: "transfers_apply (sample_batch 1 2) sample_db = (r, e)"
    by (cases "transfers_apply (sample_batch 1 2) sample_db")
  with transfers_exact [OF sample_ok(1,2) run] show ?thesis
    by (simp add: sample_batch_def sample_ledger payable_def batch_sum_def)
qed

text \<open>
  The sum of a batch wraps: account 2, which has nothing, sends \<open>2 ^ 62\<close> to two accounts at once,
  because the sum is \<open>- 2 ^ 63\<close> and that is at most its balance.
\<close>

lemma batch_sum_wraps:
  "fst (transfers_apply (sample_batch (2 ^ 62) 2) sample_db) = Inr () \<and>
   ledger (snd (transfers_apply (sample_batch (2 ^ 62) 2) sample_db)) 3 = Some (2 ^ 62) \<and>
   validate_transfers (sample_batch (2 ^ 62) 2) = Inr ()"
proof -
  have p: "payable sample_db (to_names (sample_batch (2 ^ 62) 2))"
    by (simp add: sample_batch_def payable_def sample_ledger)
  have s: "sint (batch_sum (to_names (sample_batch (2 ^ 62) 2))) \<le> sint (0 :: i64)"
    by (simp add: sample_batch_def batch_sum_def)
  have l: "ledger sample_db (ts_from (sample_batch (2 ^ 62) 2)) = Some 0"
    by (simp add: sample_batch_def sample_ledger)
  have "validate_transfers (sample_batch (2 ^ 62) 2) = Inr ()"
    by (simp add: validate_transfers_def sample_batch_def)
  with transfers_run [OF sample_ok(1,2) l] p s show ?thesis
    by (auto simp: sample_batch_def credit_def sample_ledger)
qed

text \<open>
  C6: No operation makes or destroys money, in 64-bit arithmetic. Whatever valid operation is
  applied with success, the sum of all balances modulo \<open>2 ^ 64\<close> is what it was; a new account
  starts with nothing.
\<close>

theorem circulation_kept:
  assumes "chain_ok d" and "registered d" and "validate_operation op = Inr ()" and "evaluate op d = (Inr (), e)"
  shows "chain_ok e \<and> circulation (ledger e) = circulation (ledger d)"
proof -
  note ok = assms(1,2)
  note fin = finite_ledger [OF ok]
  show ?thesis
  proof (cases op)
    case (Create_Account c)
    with create_account_run [OF ok] assms(4) circulation_new [OF fin] show ?thesis by simp
  next
    case (Transfer t)
    with assms(3) have ne: "t_from t \<noteq> t_to t" by (simp add: validate_operation_iff)
    from assms(4) Transfer transfer_unknown [OF ok, of t] obtain x y where
      xy: "ledger d (t_from t) = Some x" "ledger d (t_to t) = Some y"
      by (cases "ledger d (t_from t)"; cases "ledger d (t_to t)") auto
    let ?v = "amount (t_amount t)"
    from transfer_run [OF ok ne xy] assms(4) Transfer have
      e: "chain_ok e" "ledger e = (ledger d)(t_from t \<mapsto> x - ?v, t_to t \<mapsto> y + ?v)" by (auto split: if_splits)
    have "circulation (ledger e) = circulation ((ledger d)(t_from t \<mapsto> x - ?v)) - y + (y + ?v)"
      unfolding e(2) using fin ne xy by (intro circulation_upd) auto
    with circulation_upd [OF fin xy(1), of "x - ?v"] e(1) show ?thesis by simp
  next
    case (Transfers t)
    let ?ts = "to_names t"
    from assms(4) Transfers ledger_get(1) [OF ok, of "ts_from t"] obtain x where
      x: "ledger d (ts_from t) = Some x" by (cases "ledger d (ts_from t)") (auto simp: transfers_apply_def bnd_def)
    from transfers_run [OF ok x] assms(4) Transfers have
      e: "chain_ok e" "payable d ?ts" "ledger e = fold credit ?ts ((ledger d)(ts_from t \<mapsto> x - batch_sum ?ts))"
      by (auto split: if_splits)
    have "circulation (ledger e) = circulation ((ledger d)(ts_from t \<mapsto> x - batch_sum ?ts)) + batch_sum ?ts"
      unfolding e(3) using fin e(2) by (intro circulation_credits) (auto simp: payable_def list_all_iff)
    with circulation_upd [OF fin x, of "x - batch_sum ?ts"] e(1) show ?thesis by simp
  qed
qed

theorem circulation_kept_witness:
  "circulation (ledger (snd (evaluate (Transfer sample_transfer) sample_db))) = circulation (ledger sample_db)"
proof -
  have "\<exists>e. transfer_apply sample_transfer sample_db = (Inr (), e)"
    using transfer_run [OF sample_ok(1,2), of sample_transfer 100 0]
    by (auto simp: sample_transfer_def sample_ledger)
  then obtain e where e: "evaluate (Transfer sample_transfer) sample_db = (Inr (), e)" by auto
  have "validate_operation (Transfer sample_transfer) = Inr ()"
    by (simp add: validate_operation_iff sample_transfer_def)
  from circulation_kept [OF sample_ok(1,2) this e] e show ?thesis by simp
qed

end
