(* ===== verification/Transaction_Props.thy ===== *)
theory Transaction_Props
  imports Ledger_Props
begin

section \<open>Transactions: properties\<close>

text \<open>
  The claims about checking a transaction and about pushing it to the pending state.
\<close>

subsection \<open>What an applied transaction has passed\<close>

lemma only_if_Inr: "only_if b m d = (Inr u, e) \<longleftrightarrow> (if b d then m d = (Inr u, e) else e = d)"
  by (auto simp: only_if_def)

lemma check_Inr: "check b x d = (Inr u, e) \<longleftrightarrow> b \<and> e = d"
  by (auto simp: check_def ret_def raise_def)

lemma reads_Inr: "reads f d = (Inr x, e) \<longleftrightarrow> f d = Inr x \<and> e = d"
  by (auto simp: reads_def)

lemma head_pure: "head_block_num d = (fst (head_block_num d), d)" "head_block_time d = (fst (head_block_time d), d)"
  by (simp_all add: head_block_num_def head_block_time_def get_global_property_object_def get_object_def
      reads_def capture_def bnd_def ret_def split: prod.splits sum.splits)

text \<open>The duplicate check of \<open>_apply_transaction\<close> lets everything pass.\<close>

lemma dupe_check_never: "dupe_check k d = (Inr (), d)"
proof -
  have "f OR skip_transaction_dupe_check \<noteq> 0" for f
    by (simp add: skip_transaction_dupe_check_def or_eq_0_iff)
  then show ?thesis by (simp add: dupe_check_def bnd_def gets_def ret_def)
qed

definition trx_state :: "chain_env \<Rightarrow> signed_transaction \<Rightarrow> chain_db \<Rightarrow> chain_db" where
  "trx_state env trx d = d\<lparr>current_trx_id := transaction_id (crypto_of env) trx\<rparr>"

lemma check_tapos_Inr:
  assumes "check_tapos trx d = (Inr (), e)" and "fst (head_block_num d) = Inr n" and "0 < n"
  shows "e = d \<and> (\<exists>t. fst (head_block_time d) = Inr t \<and> t \<le> expiration trx) \<and>
    (skipped skip_tapos_check d \<or>
     (\<exists>i. db_get block_summary_type (unat (ref_block_num trx)) (objects d) = Inr (Block_Summary i) \<and>
          ref_block_prefix trx = hash_word 1 i))"
proof -
  from assms head_pure(1) [of d] have
    r: "seq (only_if (\<lambda>d. \<not> skipped skip_tapos_check d) (check_reference trx))
         (bnd head_block_time (\<lambda>now. check (now \<le> expiration trx) Fc_Assert)) d = (Inr (), e)"
    by (simp add: check_tapos_def bnd_def split: prod.splits)
  then obtain d1 t d2 where o': "only_if (\<lambda>d. \<not> skipped skip_tapos_check d) (check_reference trx) d = (Inr (), d1)"
    and t: "head_block_time d1 = (Inr t, d2)" "t \<le> expiration trx" "e = d2"
    by (auto simp: seq_Inr_iff bnd_Inr_iff check_Inr)
  have "d1 = d \<and> (skipped skip_tapos_check d \<or>
     (\<exists>i. db_get block_summary_type (unat (ref_block_num trx)) (objects d) = Inr (Block_Summary i) \<and>
          ref_block_prefix trx = hash_word 1 i))"
  proof (cases "skipped skip_tapos_check d")
    case True
    with o' show ?thesis by (simp add: only_if_Inr)
  next
    case False
    with o' obtain i x where "db_get block_summary_type (unat (ref_block_num trx)) (objects d) = Inr x"
      and "as_summary x = Inr i" "d1 = d" "ref_block_prefix trx = hash_word 1 i"
      by (auto simp: only_if_Inr check_reference_def bnd_Inr_iff check_Inr get_object_def reads_Inr rbind_Inr_iff)
    then show ?thesis by (cases x) (auto simp: as_summary_def)
  qed
  with t head_pure(2) [of d] show ?thesis by auto
qed

lemma trx_state_same:
  "fst (head_block_num (trx_state env trx d)) = fst (head_block_num d)"
  "fst (head_block_time (trx_state env trx d)) = fst (head_block_time d)"
  "objects (trx_state env trx d) = objects d" "skipped s (trx_state env trx d) = skipped s d"
  "posting_key (trx_state env trx d) = posting_key d" "owner_key (trx_state env trx d) = owner_key d"
  by (simp_all add: trx_state_def head_block_num_def head_block_time_def get_global_property_object_def
      get_object_def reads_def capture_def bnd_def ret_def skipped_def posting_key_def owner_key_def
      find_authority_by_def fun_eq_iff split: sum.splits)

text \<open>The stages of \<open>_apply_transaction\<close> that succeed before the operations.\<close>

lemma apply_trx_stages:
  assumes "apply_trx env trx d = (Inr (), e)"
  shows "(skipped skip_validate d \<or> validate_transaction trx = Inr ()) \<and>
    (\<exists>d1. check_tapos trx (trx_state env trx d) = (Inr (), d1) \<and>
      (skipped (skip_transaction_signatures OR skip_authority_check) d1 \<or>
       verify_authority (crypto_of env) (posting_key d1) (owner_key d1) (chain_id (crypto_of env)) trx = Inr ()) \<and>
      (\<exists>d2. (if skipped skip_transaction_dupe_check d1 then d2 = d1
             else store_transaction (crypto_of env) trx d1 = (Inr (), d2)) \<and>
        each (\<lambda>op. capture (seq (apply_operation env op) (update next_op))) (operations trx)
          (d2\<lparr>current_op_in_trx := 0\<rparr>) = (Inr (), e)))"
proof -
  have lift: "lift_r q s = (Inr u, t) \<longleftrightarrow> q = Inr u \<and> t = s" for q u t and s :: chain_db
    by (auto simp: lift_r_def)
  have upd: "update f s = (Inr u, t) \<longleftrightarrow> t = f s" for f u t and s :: chain_db
    by (auto simp: update_def)
  from assms show ?thesis
    unfolding apply_trx_def Let_def seq_Inr_iff only_if_Inr lift upd reads_Inr dupe_check_never trx_state_def [symmetric]
    by (auto split: if_splits)
qed

lemma create_unique:
  assumes "db_create clash t v db = (Inr i, e)" and "q \<in> set (indices (idx t db))"
  shows "\<not> clash t v (snd q)"
proof -
  from assms(1) obtain g where "gi_emplace (clash t) v (idx t db) = (Inr i, g)"
    by (auto simp: db_create_def on_index_def split: if_splits prod.splits)
  from gi_emplace_written [OF this] have n: "map_of (indices (idx t db)) i = None"
    "\<not> clashes (clash t) i v (indices (idx t db))" by blast+
  have "fst q \<noteq> i" using n(1) assms(2) by (auto simp: map_of_eq_None_iff)
  with n(2) assms(2) show ?thesis by (auto simp: clashes_def)
qed

lemma stored_unknown:
  assumes "store_transaction cr trx d = (Inr (), e)"
  shows "find_transaction_by (transaction_id cr trx) d = Inr None"
proof -
  let ?p = "\<lambda>x. case x of Transaction_Obj t \<Rightarrow> to_trx_id t = transaction_id cr trx | _ \<Rightarrow> False"
  from assms obtain v i d1 where v: "create_object transaction_type (Transaction_Obj v) d = (Inr i, d1)"
    and id: "to_trx_id v = transaction_id cr trx"
    unfolding store_transaction_def capture_Inr bnd_Inr_iff seq_Inr_iff by (auto simp: lift_r_def)
  then have c: "db_create chain_clash transaction_type (Transaction_Obj v) (objects d) = (Inr i, objects d1)"
    by (auto simp: create_object_def on_objects_def split: prod.splits)
  then have has: "has_index transaction_type (objects d)"
    by (auto simp: db_create_def on_index_def split: if_splits)
  have "\<not> ?p (snd q)" if "q \<in> set (indices (idx transaction_type (objects d)))" for q
    using create_unique [OF c that] id by (cases "snd q") (auto simp: chain_clash_def)
  then have "find (\<lambda>q. ?p (snd q)) (indices (idx transaction_type (objects d))) = None"
    unfolding find_None_iff by blast
  with has show ?thesis
    by (simp add: find_transaction_by_def db_find_by_def get_index_def)
qed

text \<open>
  C3: What a successfully applied transaction has passed, each part unless its flag says to skip it.
  It is valid; once there is a head block it has not expired at the head's time and its reference
  block prefix is that of the block summary it names; the required authority signed it; and no
  transaction with its id was stored before (the unique index sees to that, the duplicate check
  of the code does not). The expiration is checked whatever the flags are, although the comment on
  \<open>skip_tapos_check\<close> in database.hpp says that this flag skips it as well.
\<close>

theorem transaction_checked:
  assumes "apply_trx env trx d = (Inr (), e)"
  shows "(skipped skip_validate d \<or> operations trx \<noteq> [] \<and> list_all valid_operation (operations trx)) \<and>
    (fst (head_block_num d) = Inr 0 \<or>
     (\<exists>t. fst (head_block_time d) = Inr t \<and> t \<le> expiration trx) \<and>
     (skipped skip_tapos_check d \<or>
      (\<exists>i. db_get block_summary_type (unat (ref_block_num trx)) (objects d) = Inr (Block_Summary i) \<and>
           ref_block_prefix trx = hash_word 1 i))) \<and>
    (skipped (skip_transaction_signatures OR skip_authority_check) d \<or>
     verify_authority (crypto_of env) (posting_key d) (owner_key d) (chain_id (crypto_of env)) trx = Inr ()) \<and>
    (skipped skip_transaction_dupe_check d \<or>
     find_transaction_by (transaction_id (crypto_of env) trx) d = Inr None)"
proof -
  let ?t = "trx_state env trx d"
  from apply_trx_stages [OF assms] obtain d1 d2 where
    v: "skipped skip_validate d \<or> validate_transaction trx = Inr ()" and
    t: "check_tapos trx ?t = (Inr (), d1)" and
    a: "skipped (skip_transaction_signatures OR skip_authority_check) d1 \<or>
       verify_authority (crypto_of env) (posting_key d1) (owner_key d1) (chain_id (crypto_of env)) trx = Inr ()" and
    s: "if skipped skip_transaction_dupe_check d1 then d2 = d1
        else store_transaction (crypto_of env) trx d1 = (Inr (), d2)" by blast
  obtain n where n: "fst (head_block_num ?t) = Inr n"
    using t head_pure(1) [of ?t] by (auto simp: check_tapos_def bnd_Inr_iff)
  have d1: "d1 = ?t"
  proof (cases "n = 0")
    case True
    with t n head_pure(1) [of ?t] show ?thesis
      by (auto simp: check_tapos_def bnd_Inr_iff ret_def)
  next
    case False
    then have "0 < n" by (simp add: word_neq_0_conv)
    with check_tapos_Inr [OF t n] show ?thesis by simp
  qed
  have "n = 0 \<or> (\<exists>x. fst (head_block_time ?t) = Inr x \<and> x \<le> expiration trx) \<and>
     (skipped skip_tapos_check ?t \<or>
      (\<exists>i. db_get block_summary_type (unat (ref_block_num trx)) (objects ?t) = Inr (Block_Summary i) \<and>
           ref_block_prefix trx = hash_word 1 i))"
    using check_tapos_Inr [OF t n] by (metis word_neq_0_conv)
  moreover have "find_transaction_by k ?t = find_transaction_by k d" for k
    by (simp add: find_transaction_by_def trx_state_def)
  then have "skipped skip_transaction_dupe_check d \<or> find_transaction_by (transaction_id (crypto_of env) trx) d = Inr None"
    using s stored_unknown [of "crypto_of env" trx ?t d2] unfolding d1
    by (cases "skipped skip_transaction_dupe_check d") (simp_all add: trx_state_same)
  ultimately show ?thesis using v a n unfolding d1 trx_state_same validate_exact by blast
qed

text \<open>The sample transaction on the sample chain, without storing it.\<close>

definition sample_skip :: "bytes \<Rightarrow> chain_db" where
  "sample_skip i = sample_db\<lparr>skip_flags := skip_transaction_dupe_check, current_trx_id := i\<rparr>"

lemma sample_tapos: "check_tapos demo_trx (sample_skip i) = (Inr (), sample_skip i)"
proof -
  have "fst (check_tapos demo_trx (sample_skip i)) = Inr ()" by code_simp
  then obtain e where e: "check_tapos demo_trx (sample_skip i) = (Inr (), e)"
    by (cases "check_tapos demo_trx (sample_skip i)") auto
  moreover have "fst (head_block_num (sample_skip i)) = Inr 1" by code_simp
  ultimately show ?thesis using check_tapos_Inr [OF e] by simp
qed

lemma sample_posting: "posting_key (sample_skip i) 1 = Inr (replicate 33 1)"
  by code_simp

lemma sample_verify:
  "verify_authority demo_crypto (posting_key (sample_skip i)) (owner_key (sample_skip i)) c demo_trx = Inr ()"
  unfolding verify_authority_exact using sample_posting [of i]
  by (auto simp: get_signature_keys_def demo_trx_def demo_crypto_def sign_name_def demo_transfer_def)

lemma sample_ops:
  "fst (each (\<lambda>op. capture (seq (apply_operation sample_env op) (update next_op))) (operations demo_trx) (sample_skip i))
   = Inr ()"
  by code_simp

lemma sample_skips: "skipped s (sample_skip i) \<longleftrightarrow> skip_transaction_dupe_check AND s \<noteq> 0"
  by (simp add: skipped_def sample_skip_def)

lemma sample_applies: "fst (apply_trx sample_env demo_trx (sample_skip i)) = Inr ()"
proof -
  have id: "trx_state sample_env demo_trx (sample_skip i) = sample_skip (transaction_id demo_crypto demo_trx)"
    by (simp add: trx_state_def sample_skip_def sample_env_def)
  have v: "validate_transaction demo_trx = Inr ()"
    by (simp add: validate_exact demo_trx_def demo_transfer_def)
  have o': "sample_skip j\<lparr>current_op_in_trx := 0\<rparr> = sample_skip j" for j
    by (simp add: sample_skip_def sample_db_def init_hardforks_def new_chain_db_def)
  note ops = sample_ops [of "transaction_id demo_crypto demo_trx"]
  have n: "\<not> skipped skip_validate (sample_skip j)"
    "\<not> skipped (skip_transaction_signatures OR skip_authority_check) (sample_skip j)"
    "skipped skip_transaction_dupe_check (sample_skip j)" for j
    by (simp_all add: sample_skips skip_transaction_dupe_check_def skip_validate_def
        skip_transaction_signatures_def skip_authority_check_def)
  have cr: "crypto_of sample_env = demo_crypto" by (simp add: sample_env_def)
  show ?thesis
    unfolding apply_trx_def Let_def cr
    by (simp add: seq_def bnd_def only_if_def lift_r_def v update_def dupe_check_never n
        id [unfolded trx_state_def cr] sample_tapos reads_def sample_verify o' ops [unfolded seq_def])
qed

theorem transaction_checked_witness:
  "verify_authority demo_crypto (posting_key (sample_skip [])) (owner_key (sample_skip [])) (chain_id demo_crypto) demo_trx
     = Inr ()"
proof -
  obtain e where "apply_trx sample_env demo_trx (sample_skip []) = (Inr (), e)"
    using sample_applies [of "[]"] by (cases "apply_trx sample_env demo_trx (sample_skip [])") auto
  from transaction_checked [OF this] show ?thesis
    by (simp add: sample_skips sample_env_def skip_transaction_dupe_check_def skip_transaction_signatures_def
        skip_authority_check_def)
qed

subsection \<open>Pushing a transaction\<close>

text \<open>The state after the session of the pending transactions is open.\<close>

definition pending_open :: "chain_db \<Rightarrow> chain_db" where
  "pending_open d =
     (case pending_session d of
        None \<Rightarrow> (started d)\<lparr>pending_session := Some (fst (start_undo_session (objects d)))\<rparr>
      | Some _ \<Rightarrow> d)"

lemma chain_ok_fields [simp]:
  "chain_ok (d\<lparr>pending_session := p\<rparr>) = chain_ok d" "chain_ok (d\<lparr>pending_trx := ts\<rparr>) = chain_ok d"
  "chain_ok (d\<lparr>skip_flags := f\<rparr>) = chain_ok d" "chain_ok (d\<lparr>is_producing := b\<rparr>) = chain_ok d"
  by (simp_all add: chain_ok_def)

lemma pending_open_ok: "chain_ok d \<Longrightarrow> chain_ok (pending_open d)"
  by (simp add: pending_open_def started_facts split: option.splits)

lemma pending_open_run:
  assumes "chain_ok d"
  shows "only_if (\<lambda>d. pending_session d = None) open_pending d = (Inr (), pending_open d)"
  using started_facts(3) [OF assms]
  by (simp add: only_if_def open_pending_def bnd_def update_def pending_open_def split: option.splits)

lemma push_trx_run:
  assumes h: "handlers_ok env" and ok: "chain_ok d" and run: "push_trx env trx d = (r, e)"
  shows "chain_ok e \<and> store_step (pending_open d) e \<and>
    (case r of
       Inl x \<Rightarrow> objects e = objects (pending_open d) \<and> frame e = frame (pending_open d)
     | Inr _ \<Rightarrow> frame e = frame ((pending_open d)\<lparr>pending_trx := pending_trx d @ [trx]\<rparr>) \<and>
         (\<exists>d1. apply_trx env trx (started (pending_open d)) = (Inr (), d1) \<and>
            contents (objects e) = contents (objects d1) \<and>
            earlier (objects e) = earlier (objects (pending_open d))))"
proof -
  let ?d = "pending_open d"
  let ?add = "update (\<lambda>d. d\<lparr>pending_trx := pending_trx d @ [trx]\<rparr>) :: (chain_db, unit) sx"
  have ok0: "chain_ok ?d" by (rule pending_open_ok [OF ok])
  have app: "within chain_step (apply_trx env trx)" by (rule apply_trx_step [OF h])
  have "within store_step ?add"
    by (rule sto.upd) (auto simp: store_step_def intro: nested.nested_nil)
  then have b: "within store_step (seq (apply_trx env trx) ?add)"
    by (intro sto.seq chain_within_store [OF app])
  from run have sq: "squashing_session (seq (apply_trx env trx) ?add) ?d = (r, e)"
    using pending_open_run [OF ok] by (simp add: push_trx_def seq_def bnd_def)
  from squashing_session_run [OF b ok0 sq] obtain d1 where
    d1: "seq (apply_trx env trx) ?add (started ?d) = (r, d1)" "store_step ?d e" "e = d1\<lparr>objects := objects e\<rparr>"
    and c: "case r of Inl x \<Rightarrow> objects e = objects ?d
      | Inr y \<Rightarrow> contents (objects e) = contents (objects d1) \<and> earlier (objects e) = earlier (objects ?d)"
    by blast
  obtain q u where q: "apply_trx env trx (started ?d) = (q, u)" by (cases "apply_trx env trx (started ?d)")
  have fu: "frame u = frame ?d"
    using withinD [OF app q] started_facts(2) [OF ok0] by (simp add: chain_step_def)
  have fe: "frame e = frame d1" using d1(3) by (metis frame_simps(1))
  have pt: "pending_trx ?d = pending_trx d" by (simp add: pending_open_def started_def split: option.splits)
  have ce: "chain_ok e" using d1(2) ok0 by (simp add: store_step_def)
  show ?thesis
  proof (cases q)
    case (Inl x)
    with d1(1) q have "r = Inl x" "d1 = u" by (simp_all add: seq_def bnd_def)
    with c fe fu ce d1(2) show ?thesis by simp
  next
    case (Inr y)
    with d1(1) q have r: "r = Inr ()" "d1 = u\<lparr>pending_trx := pending_trx u @ [trx]\<rparr>"
      by (simp_all add: seq_def bnd_def update_def)
    then have "frame d1 = frame (?d\<lparr>pending_trx := pending_trx d @ [trx]\<rparr>)"
      using fu pt by (simp add: frame_eq)
    with r c fe ce d1(2) q Inr show ?thesis by simp
  qed
qed

text \<open>
  C2: Pushing a transaction is atomic. If it is refused, for whatever reason and at whatever
  point, the objects are exactly those before (with the pending session open), so is the list of
  pending transactions; if it is accepted, it is appended to that list and the contents are those
  of applying it directly, while nothing a later undo restores has changed. Either way the skip
  flags are back, the database no longer counts as producing, and fork database and block log are
  untouched.
\<close>

theorem push_transaction_atomic:
  assumes h: "handlers_ok env" and ok: "chain_ok d" and run: "push_transaction env trx skip d = (r, e)"
  shows "skip_flags e = skip_flags d \<and> \<not> is_producing e \<and> fork_db e = fork_db d \<and> blog e = blog d \<and> chain_ok e \<and>
    pending_session e = pending_session (pending_open d) \<and>
    (case r of
       Inl x \<Rightarrow> objects e = objects (pending_open d) \<and> pending_trx e = pending_trx d
     | Inr _ \<Rightarrow> pending_trx e = pending_trx d @ [trx] \<and>
         earlier (objects e) = earlier (objects (pending_open d)) \<and>
         (\<exists>d1. apply_trx env trx (started ((pending_open d)\<lparr>skip_flags := skip, is_producing := True\<rparr>)) = (Inr (), d1) \<and>
            contents (objects e) = contents (objects d1)))"
proof -
  let ?d = "d\<lparr>is_producing := True, skip_flags := skip\<rparr>"
  obtain q u where q: "push_trx env trx ?d = (q, u)" by (cases "push_trx env trx ?d")
  from run q have e: "e = u\<lparr>skip_flags := skip_flags d, is_producing := False\<rparr>"
    and r: "capture (\<lambda>s. (q, s)) () = (r, ())"
    by (auto simp: push_transaction_def capture_def on_exit_def seq_def bnd_def update_def with_skip_flags_def
        split: sum.splits prod.splits)
  have ok': "chain_ok ?d" using ok by (simp add: chain_ok_def)
  note p = push_trx_run [OF h ok' q]
  have po: "pending_open ?d = (pending_open d)\<lparr>skip_flags := skip, is_producing := True\<rparr>"
    by (simp add: pending_open_def started_def split: option.splits)
  have fo: "fork_db (pending_open d) = fork_db d" "blog (pending_open d) = blog d" "pending_trx (pending_open d) = pending_trx d"
    by (simp_all add: pending_open_def started_def split: option.splits)
  show ?thesis
  proof (cases q)
    case (Inl x)
    with r obtain y where "r = Inl y" by (auto simp: capture_def)
    with p Inl show ?thesis using pending_open_ok [OF ok] unfolding po
      by (simp add: e frame_eq fo chain_ok_def)
  next
    case (Inr y)
    with r have "r = Inr ()" by (simp add: capture_def)
    with p Inr show ?thesis unfolding po by (auto simp: e frame_eq fo chain_ok_def)
  qed
qed

theorem push_transaction_atomic_witness:
  "skip_flags (snd (push_transaction sample_env demo_trx skip_transaction_dupe_check sample_db)) = 0"
proof -
  obtain r e where "push_transaction sample_env demo_trx skip_transaction_dupe_check sample_db = (r, e)"
    by (cases "push_transaction sample_env demo_trx skip_transaction_dupe_check sample_db")
  with push_transaction_atomic [OF sample_ok(3,1) this] show ?thesis
    by (simp add: sample_db_def init_hardforks_def new_chain_db_def)
qed

end
