(* ===== verification/Block_Facts.thy ===== *)
theory Block_Facts
  imports Transaction_Props
begin

section \<open>Blocks: sessions in which a commit happens\<close>

text \<open>
  Applying a block commits the revisions up to the last irreversible block while the session of
  the block is open. The relation \<open>past_kept\<close> allows that: the contents the open sessions restore
  may be cut off at their old end, never at the newest.
\<close>

subsection \<open>Committing and undoing well-formed stores\<close>

lemma commit_store:
  assumes ok: "store_ok db"
  shows "store_ok (db_commit r db)" "contents (db_commit r db) = contents db"
    "earlier (db_commit r db) = take (nat (db_revision db - r)) (earlier db)"
    "db_revision (db_commit r db) = db_revision db" "index_list (db_commit r db) = index_list db"
    "undo_session_count (db_commit r db) = undo_session_count db"
proof -
  note d = store_okD [OF ok]
  note st = all_indices_idx [OF d(6), where f = "gi_commit r", folded db_commit_def]
  let ?k = "nat (db_revision db - r)" and ?e = "db_commit r db"
  show l: "index_list ?e = index_list db" and "undo_session_count ?e = undo_session_count db"
    by (simp_all add: st)
  have ne: "index_list db \<noteq> []" using d(3) by (simp add: level_def)
  have rev: "gi_revision (idx t db) = db_revision db" if "t \<in> set (index_list db)" for t
    using d(4) that by (simp add: aligned_def)
  have c: "gi_inv same_unique_key (idx t ?e)" "gi_revision (idx t ?e) = db_revision db"
    "stack (idx t ?e) = take ?k (stack (idx t db))" "snapshots (idx t ?e) = take (Suc ?k) (snapshots (idx t db))"
    if t: "t \<in> set (index_list db)" for t
    using gi_commit_ok [OF d(7) [OF t], of r] gi_commit_stack [OF d(7) [OF t], of r] t rev [OF t]
    by (simp_all add: st gi_commit_def)
  show revision: "db_revision ?e = db_revision db" using ne l c(2) by (simp add: hd_revision)
  have inv: "db_inv chain_clash ?e"
    unfolding db_commit_def
    by (rule all_indices_inv [OF d(2)]) (use c(1) in \<open>simp add: st chain_clash_def\<close>)
  have len: "length (stack (idx t ?e)) = min (depth db) ?k" if "t \<in> set (index_list ?e)" for t
    using d(3) that c(3) by (simp add: level_def l)
  from levelI [of ?e, OF _ len] ne l have lv: "level ?e" "depth ?e = min (depth db) ?k" by simp_all
  have "aligned ?e" using c(2) revision by (simp add: aligned_def l)
  moreover have "typed ?e"
    using d(5) c(4) by (auto simp: typed_def l list_all_iff dest: in_set_takeD)
  ultimately show "store_ok ?e" using inv lv by (simp add: store_ok_def db_ok_def)
  have lay: "layer ?e j = layer db j" if "j \<le> ?k" for j
    using c(4) that by (auto simp: layer_def has_index_def l fun_eq_iff)
  show "contents ?e = contents db" by (simp add: contents_def lay)
  show "earlier ?e = take ?k (earlier db)"
    using lv(2) by (intro earlier_eqI) (simp_all add: lay earlier_nth)
qed

lemma undo_store:
  assumes ok: "store_ok db" and h: "earlier db = a # h"
  shows "\<exists>e. db_undo chain_clash db = (Inr (), e) \<and> store_ok e \<and> contents e = a \<and> earlier e = h \<and>
    db_revision e = db_revision db - 1 \<and> index_list e = index_list db \<and>
    undo_session_count e = undo_session_count db"
proof -
  note d = store_okD [OF ok]
  define f where "f t = snd (gi_undo same_unique_key (idx t db))" for t
  have ne: "index_list db \<noteq> []" using d(3) by (simp add: level_def)
  have u: "gi_undo same_unique_key (idx t db) = (Inr (), f t)" "snapshots (f t) = tl (snapshots (idx t db))"
    "gi_revision (f t) = db_revision db - 1"
    if t: "t \<in> set (index_list db)" for t
  proof -
    have s: "stack (idx t db) \<noteq> []"
      using d(3) t h length_earlier [of db] by (auto simp: level_def)
    obtain r g where g: "gi_undo same_unique_key (idx t db) = (r, g)"
      by (cases "gi_undo same_unique_key (idx t db)")
    from gi_undo_inv [OF d(7) [OF t] g] s g have r: "r = Inr ()" and
      fg: "f t = g" "snapshots g = tl (snapshots (idx t db))" by (simp_all add: f_def)
    have "gi_revision g = gi_revision (idx t db) - 1"
      by (rule gi_undo_revision [OF d(7) [OF t] g [unfolded r] s])
    with d(4) t fg show "gi_revision (f t) = db_revision db - 1" by (simp add: aligned_def)
    show "gi_undo same_unique_key (idx t db) = (Inr (), f t)" "snapshots (f t) = tl (snapshots (idx t db))"
      using g r fg by simp_all
  qed
  from db_undo_all_ok [OF d(2), of f] u(1) obtain e where
    e: "db_undo chain_clash db = (Inr (), e)" "db_inv chain_clash e" "index_list e = index_list db"
       "undo_session_count e = undo_session_count db"
       "\<forall>t. idx t e = (if t \<in> set (index_list db) then f t else idx t db)"
    by (auto simp: chain_clash_def)
  from undo_layer [OF d(1) h] e(1) have c: "db_ok chain_clash e" "contents e = a" "earlier e = h" by auto
  have rev: "db_revision e = db_revision db - 1" using ne e u(3) by (simp add: hd_revision)
  have "aligned e" using e u(3) rev by (simp add: aligned_def)
  moreover have "typed e"
    using d(5) e u(2) by (simp add: typed_def all_snapshots [of _ "idx _ db"])
  ultimately show ?thesis using e c rev by (auto simp: store_ok_def)
qed

subsection \<open>Statements that commit\<close>

lemma run_revision:
  assumes ok: "store_ok db" and ne: "earlier db \<noteq> []" and run: "db_run chain_clash db e"
  shows "db_revision e = db_revision db"
proof -
  note d = store_okD [OF ok]
  from db_run_index [OF run d(2)] have i: "index_list e = index_list db"
    "\<forall>t \<in> set (index_list db). nested gi_start_undo_session gi_squash (gi_undo (chain_clash t))
       (write_step (chain_clash t)) (idx t db) (idx t e)"
    by (simp_all add: index_runs_def)
  have l: "index_list db \<noteq> []" using d(3) by (simp add: level_def)
  let ?t = "hd (index_list db)"
  have t: "?t \<in> set (index_list db)" using l by simp
  have "depth db \<noteq> 0" using ne length_earlier [of db] by (metis length_0_conv)
  then have "stack (idx ?t db) \<noteq> []" by (simp add: depth_def)
  from run_ok [OF bspec [OF i(2) t] _ this] d(7) [OF t] have "gi_revision (idx ?t e) = gi_revision (idx ?t db)"
    by (simp add: chain_clash_def)
  with l i(1) show ?thesis by (simp add: hd_revision)
qed

definition past_kept :: "chain_db \<Rightarrow> chain_db \<Rightarrow> bool" where
  "past_kept d e \<longleftrightarrow> (chain_ok d \<and> earlier (objects d) \<noteq> [] \<longrightarrow>
     chain_ok e \<and> index_list (objects e) = index_list (objects d) \<and>
     undo_session_count (objects e) = undo_session_count (objects d) \<and>
     db_revision (objects e) = db_revision (objects d) \<and>
     (\<exists>k > 0. earlier (objects e) = take k (earlier (objects d))))"

interpretation past: effect past_kept
proof
  fix s t u
  show "past_kept s s"
    unfolding past_kept_def by (auto intro: exI [of _ "Suc (length (earlier (objects s)))"])
  assume st: "past_kept s t" and tu: "past_kept t u"
  show "past_kept s u"
    unfolding past_kept_def
  proof
    assume s: "chain_ok s \<and> earlier (objects s) \<noteq> []"
    with st obtain k where k: "k > 0" "earlier (objects t) = take k (earlier (objects s))"
      and t: "chain_ok t" "index_list (objects t) = index_list (objects s)"
        "undo_session_count (objects t) = undo_session_count (objects s)"
        "db_revision (objects t) = db_revision (objects s)"
      by (auto simp: past_kept_def)
    have "earlier (objects t) \<noteq> []" using k s by simp
    with tu t(1) obtain j where j: "j > 0" "earlier (objects u) = take j (earlier (objects t))"
      and u: "chain_ok u" "index_list (objects u) = index_list (objects t)"
        "undo_session_count (objects u) = undo_session_count (objects t)"
        "db_revision (objects u) = db_revision (objects t)"
      by (auto simp: past_kept_def)
    have "earlier (objects u) = take (min j k) (earlier (objects s))" using j(2) k(2) by simp
    with j(1) k(1) t u show "chain_ok u \<and> index_list (objects u) = index_list (objects s) \<and>
        undo_session_count (objects u) = undo_session_count (objects s) \<and>
        db_revision (objects u) = db_revision (objects s) \<and>
        (\<exists>k > 0. earlier (objects u) = take k (earlier (objects s)))"
      by (metis min_less_iff_conj)
  qed
qed

lemma store_within_past: "store_step d e \<Longrightarrow> past_kept d e"
  unfolding past_kept_def
proof
  assume st: "store_step d e" and d: "chain_ok d \<and> earlier (objects d) \<noteq> []"
  then have run: "db_run chain_clash (objects d) (objects e)" and e: "chain_ok e"
    by (simp_all add: store_step_def)
  have ok: "store_ok (objects d)" using d by (simp add: chain_ok_def)
  note inv = store_okD(1,2) [OF ok]
  have "earlier (objects e) = earlier (objects d)" using cb.nested_ok [OF run inv(1)] by simp
  then have "\<exists>k > 0. earlier (objects e) = take k (earlier (objects d))"
    by (intro exI [of _ "Suc (length (earlier (objects d)))"]) simp
  with e run_list [OF inv(2) run] run_session_count [OF inv(2) run] run_revision [OF ok _ run] d
  show "chain_ok e \<and> index_list (objects e) = index_list (objects d) \<and>
     undo_session_count (objects e) = undo_session_count (objects d) \<and>
     db_revision (objects e) = db_revision (objects d) \<and>
     (\<exists>k > 0. earlier (objects e) = take k (earlier (objects d)))" by blast
qed

lemma within_past: "within store_step m \<Longrightarrow> within past_kept m"
  by (simp add: within_def store_within_past)

text \<open>A session in which a commit happened: its undo restores the contents.\<close>

lemma started_past:
  assumes "chain_ok d"
  shows "chain_ok (started d)" "earlier (objects (started d)) = contents (objects d) # earlier (objects d)"
    "db_revision (objects (started d)) = db_revision (objects d) + 1"
    "undo_session_count (objects (started d)) = undo_session_count (objects d) + 1"
    "held (fst (start_undo_session (objects d))) = index_list (objects (started d))"
proof -
  have ok: "store_ok (objects d)" using assms by (simp add: chain_ok_def)
  show "chain_ok (started d)" by (rule started_facts(1) [OF assms])
  show "earlier (objects (started d)) = contents (objects d) # earlier (objects d)"
    using start_layer [OF store_okD(1) [OF ok]] by (simp add: started_def start_count_eq contents_count)
  show "db_revision (objects (started d)) = db_revision (objects d) + 1"
    "undo_session_count (objects (started d)) = undo_session_count (objects d) + 1"
    "held (fst (start_undo_session (objects d))) = index_list (objects (started d))"
    using start_store [OF ok] by (simp_all add: started_def start_count_eq revision_count)
qed

definition went_back :: "chain_db \<Rightarrow> chain_db \<Rightarrow> bool" where
  "went_back d e \<longleftrightarrow> chain_ok e \<and> contents (objects e) = contents (objects d) \<and>
     (\<exists>k. earlier (objects e) = take k (earlier (objects d))) \<and>
     db_revision (objects e) = db_revision (objects d) \<and>
     undo_session_count (objects e) = undo_session_count (objects d)"

lemma pushing_block_run:
  assumes ok: "chain_ok d" and b: "body (started d) = (q, d1)" and past: "past_kept (started d) d1"
    and run: "pushing_session body d = (r, e)"
  shows "e = d1\<lparr>objects := objects e\<rparr> \<and> r = q \<and>
    (case q of
       Inl x \<Rightarrow> went_back d e
     | Inr y \<Rightarrow> chain_ok e \<and> contents (objects e) = contents (objects d1) \<and>
         db_revision (objects e) = db_revision (objects d) + 1 \<and>
         undo_session_count (objects e) = undo_session_count (objects d) \<and>
         (\<exists>k. earlier (objects e) = contents (objects d) # take k (earlier (objects d))))"
proof -
  let ?ses = "fst (start_undo_session (objects d))"
  note st = started_past [OF ok]
  from past st obtain k where k: "k > 0" "earlier (objects d1) = take k (contents (objects d) # earlier (objects d))"
    and d1: "chain_ok d1" "index_list (objects d1) = index_list (objects (started d))"
      "undo_session_count (objects d1) = undo_session_count (objects d) + 1"
      "db_revision (objects d1) = db_revision (objects d) + 1"
    by (auto simp: past_kept_def)
  obtain j where j: "earlier (objects d1) = contents (objects d) # take j (earlier (objects d))"
    using k by (cases k) auto
  show ?thesis
  proof (cases q)
    case (Inl x)
    from undo_store [OF _ j] d1(1) obtain u where u: "db_undo chain_clash (objects d1) = (Inr (), u)" "store_ok u"
      "contents u = contents (objects d)" "earlier u = take j (earlier (objects d))"
      "db_revision u = db_revision (objects d1) - 1" "undo_session_count u = undo_session_count (objects d1)"
      by (auto simp: chain_ok_def)
    let ?u = "with_count (undo_session_count (objects d)) u"
    have "session_destroy chain_clash ?ses (objects d1) = (Inr (), ?u)"
      using u(1,6) d1(3) unfolding session_destroy_def session_undo_sx_def st(5) d1(2) [symmetric]
      by (simp add: db_undo_def sx_simps with_count_def)
    then have "r = Inl x" "e = d1\<lparr>objects := ?u\<rparr>"
      using run started_facts(3) [OF ok] b Inl
      by (auto simp: pushing_session_def in_session_def bnd_def seq_def raise_def destroy_def on_objects_def)
    with u d1 Inl show ?thesis
      by (auto simp: went_back_def chain_ok_def store_count contents_count revision_count)
  next
    case (Inr y)
    have "held (session_push ?ses) = []" by (simp add: session_push_def)
    from closing [OF this, of y d1] have "r = Inr y"
      "e = d1\<lparr>objects := with_count (undo_session_count (objects d1) - 1) (objects d1)\<rparr>"
      using run started_facts(3) [OF ok] b Inr
      by (auto simp: pushing_session_def in_session_def bnd_def)
    with d1 j Inr show ?thesis
      by (auto simp: chain_ok_def store_count contents_count revision_count)
  qed
qed

subsection \<open>Single objects\<close>

definition stored :: "chain_db \<Rightarrow> nat \<Rightarrow> nat \<Rightarrow> chain_object \<Rightarrow> bool" where
  "stored d t i v \<longleftrightarrow> has_index t (objects d) \<and> map_of (indices (idx t (objects d))) i = Some v"

abbreviation gpo_of :: "chain_db \<Rightarrow> global_property \<Rightarrow> bool" where
  "gpo_of d g \<equiv> stored d global_property_type 0 (Global_Property g)"

lemma stored_unique: "stored d t i v \<Longrightarrow> stored d t i w \<Longrightarrow> v = w"
  by (simp add: stored_def)

lemma stored_contents: "stored d t i v \<longleftrightarrow> (\<exists>s. contents (objects d) t = Some s \<and> fst s i = Some v)"
  by (auto simp: stored_def contents_def layer_def snapshots_def present_def)

lemma stored_same: "contents (objects e) t = contents (objects d) t \<Longrightarrow> stored e t i v = stored d t i v"
  by (simp add: stored_contents)

lemma stored_step: "chain_step d e \<Longrightarrow> chain_ok d \<Longrightarrow> stored e global_property_type i v = stored d global_property_type i v"
  by (rule stored_same) (simp add: chain_step_def globals_def)

text \<open>Every class but that of type \<open>t\<close> is as it was.\<close>

definition only_type :: "nat \<Rightarrow> chain_db \<Rightarrow> chain_db \<Rightarrow> bool" where
  "only_type t d e \<longleftrightarrow> (\<forall>s. s \<noteq> t \<longrightarrow> contents (objects e) s = contents (objects d) s)"

lemma only_type_refl [simp]: "only_type t d d"
  by (simp add: only_type_def)

lemma only_type_trans: "only_type t d e \<Longrightarrow> only_type t e f \<Longrightarrow> only_type t d f"
  by (simp add: only_type_def)

lemma stored_other: "only_type t d e \<Longrightarrow> s \<noteq> t \<Longrightarrow> stored e s i v = stored d s i v"
  by (rule stored_same) (simp add: only_type_def)

lemma has_index_contents: "has_index t db \<longleftrightarrow> contents db t \<noteq> None"
  by (simp add: contents_def layer_def)

lemma contents_put: "s \<noteq> t \<Longrightarrow> contents (put_idx t g db) s = contents db s"
  by (simp add: contents_def layer_def)

lemma get_object_run: "stored d t i v \<Longrightarrow> p v = Inr x \<Longrightarrow> get_object p t i d = (Inr x, d)"
  by (simp add: stored_def get_object_def reads_def db_get_def get_index_def gi_get_def gi_find_def)

lemma get_object_found: "get_object p t i d = (Inr x, e) \<Longrightarrow> e = d \<and> (\<exists>v. stored d t i v \<and> p v = Inr x)"
  by (auto simp: stored_def get_object_def reads_def db_get_def get_index_def gi_get_def gi_find_def rbind_Inr_iff
      split: if_splits option.splits)

lemma get_gpo_run: "gpo_of d g \<Longrightarrow> get_global_property_object d = (Inr g, d)"
  using get_object_run [of d global_property_type 0 "Global_Property g" as_global g]
  by (simp add: get_global_property_object_def as_global_def)

lemma gpo_queries:
  assumes "gpo_of d g"
  shows "head_block_num d = (Inr (head_block_num_of g), d)" "head_block_time d = (Inr (gp_time g), d)"
    "head_block_id d = (Inr (head_block_id_of g), d)"
  using get_gpo_run [OF assms]
  by (simp_all add: head_block_num_def head_block_time_def head_block_id_def bnd_def ret_def)

lemma modify_run:
  assumes ok: "chain_ok d" and v: "stored d t i v" and w: "f v = Inr w" "obj_ok t w"
    and key: "\<And>v w. f v = Inr w \<Longrightarrow> same_key same_unique_key v w"
  shows "\<exists>e. on_objects (db_modify chain_clash t i f) d = (Inr (), e) \<and> e = d\<lparr>objects := objects e\<rparr> \<and>
    chain_ok e \<and> store_step d e \<and> stored e t i w \<and>
    only_type t d e"
proof -
  obtain r c where run: "db_modify chain_clash t i f (objects d) = (r, c)"
    by (cases "db_modify chain_clash t i f (objects d)")
  have st: "store_ok (objects d)" using ok by (simp add: chain_ok_def)
  note m = modify_effect [where f = f, OF st run v [unfolded stored_def, THEN conjunct1]
      v [unfolded stored_def, THEN conjunct2] w key]
  let ?e = "d\<lparr>objects := c\<rparr>"
  have "on_objects (db_modify chain_clash t i f) d = (Inr (), ?e)" using run m(3) by (simp add: on_objects_def)
  moreover have "stored ?e t i w"
    using m(5,6) v by (simp add: stored_def has_index_def present_def)
  moreover have "contents c s = contents (objects d) s" if "s \<noteq> t" for s
    using m(4) [of s] m(6) that by (simp add: contents_def layer_def has_index_def)
  ultimately show ?thesis using m(1,2) ok by (intro exI [of _ ?e]) (auto simp: chain_ok_def store_step_def only_type_def)
qed

lemma modify_global_run:
  assumes ok: "chain_ok d" and g: "gpo_of d g"
  shows "\<exists>e. modify_global f d = (Inr (), e) \<and> e = d\<lparr>objects := objects e\<rparr> \<and> chain_ok e \<and> store_step d e \<and>
    gpo_of e (f g) \<and> only_type global_property_type d e"
  unfolding modify_global_def
proof (rule modify_run [OF ok g])
  fix v w assume "rbind (as_global v) (\<lambda>g. Inr (Global_Property (f g))) = Inr w"
  then show "same_key same_unique_key v w"
    by (cases v) (auto simp: as_global_def same_key_def split: chain_object.splits)
qed (simp_all add: as_global_def)

subsection \<open>The steps of a block\<close>

lemma with_skip_flags_step:
  assumes "within chain_step m"
  shows "within chain_step (with_skip_flags fl m)"
proof (rule withinI)
  fix d r e
  assume run: "with_skip_flags fl m d = (r, e)"
  obtain q u where q: "m (d\<lparr>skip_flags := fl\<rparr>) = (q, u)" by (cases "m (d\<lparr>skip_flags := fl\<rparr>)")
  from run q have e: "e = u\<lparr>skip_flags := skip_flags d\<rparr>" by (simp add: with_skip_flags_def on_exit_def)
  from withinD [OF assms q] show "chain_step d e"
    by (auto simp: e chain_step_def store_step_def chain_ok_def frame_eq globals_def)
qed

lemma apply_transaction_step: "handlers_ok env \<Longrightarrow> within chain_step (apply_transaction env t skip)"
  unfolding apply_transaction_def by (intro with_skip_flags_step apply_trx_step)

lemma remove_expired_step: "within chain_step (remove_expired fuel)"
proof (induction fuel)
  case 0
  show ?case
    by (subst remove_expired.simps) (auto intro!: step_intros queries_step)
next
  case (Suc k)
  show ?case
    by (subst remove_expired.simps) (auto intro!: step_intros queries_step Suc)
qed

lemma clear_expired_step: "within chain_step clear_expired_transactions"
  unfolding clear_expired_transactions_def by (intro step_intros remove_expired_step)

lemma create_block_summary_step: "within chain_step (create_block_summary cr b)"
proof -
  have "within chain_step (on_objects (db_modify chain_clash block_summary_type i
      (\<lambda>x. rbind (as_summary x) (\<lambda>_. Inr (Block_Summary h)))))" for i h
  proof (rule modify_step)
    show "\<exists>w. rbind (as_summary v) (\<lambda>_. Inr (Block_Summary h)) = Inr w \<and> obj_ok block_summary_type w"
      if "obj_ok block_summary_type v" for v
      using that by (cases v) (simp_all add: as_summary_def)
    show "same_key same_unique_key v w" if "rbind (as_summary v) (\<lambda>_. Inr (Block_Summary h)) = Inr w" for v w
      using that by (cases v) (auto simp: as_summary_def same_key_def split: chain_object.splits)
  qed simp
  then show ?thesis unfolding create_block_summary_def Let_def by (intro step_intros get_object_step)
qed

subsection \<open>Hardforks\<close>

abbreviation hardfork_of :: "chain_db \<Rightarrow> hardfork_property_object \<Rightarrow> bool" where
  "hardfork_of d h \<equiv> stored d hardfork_property_type 0 (Hardfork_Property h)"

lemma get_hardfork_run:
  assumes "hardfork_of d h"
  shows "get_hardfork_property_object d = (Inr h, d)"
  using get_object_run [OF assms, of as_hardfork h]
  by (simp add: get_hardfork_property_object_def as_hardfork_def)

lemma get_hardfork_found:
  assumes "get_hardfork_property_object d = (Inr h, e)"
  shows "e = d \<and> hardfork_of d h"
proof -
  from assms obtain v where v: "e = d" "stored d hardfork_property_type 0 v" "as_hardfork v = Inr h"
    unfolding get_hardfork_property_object_def capture_Inr by (auto dest: get_object_found)
  then have "v = Hardfork_Property h" by (cases v) (auto simp: as_hardfork_def)
  with v show ?thesis by simp
qed

lemma get_hardfork_state: "get_hardfork_property_object d = (r, e) \<Longrightarrow> e = d"
  by (auto simp: get_hardfork_property_object_def capture_def get_object_def reads_def split: sum.splits)

lemma hardfork_typed:
  assumes "chain_ok d" and "hardfork_of d h"
  shows "length (processed_hardfork h) = Suc (unat (last_hardfork h))" "last_hardfork h \<le> 2"
  using typed_object [OF store_okD(5), of "objects d" hardfork_property_type 0 "Hardfork_Property h"] assms
  by (auto simp: chain_ok_def stored_def news_hardfork_num_def)

lemma modify_hardfork_run:
  assumes ok: "chain_ok d" and h: "hardfork_of d h" and f: "f h = Inr k"
    and k: "length (processed_hardfork k) = Suc (unat (last_hardfork k))" "last_hardfork k \<le> 2"
  shows "\<exists>e. modify_hardfork f d = (Inr (), e) \<and> chain_step d e \<and> chain_ok e \<and> hardfork_of e k \<and> e = d\<lparr>objects := objects e\<rparr> \<and>
    only_type hardfork_property_type d e"
proof -
  have "\<exists>e. modify_hardfork f d = (Inr (), e) \<and> e = d\<lparr>objects := objects e\<rparr> \<and> chain_ok e \<and> store_step d e \<and>
    hardfork_of e k \<and> only_type hardfork_property_type d e"
    unfolding modify_hardfork_def
  proof (rule modify_run [OF ok h])
    fix v w assume "rbind (as_hardfork v) (\<lambda>h. rbind (f h) (\<lambda>k. Inr (Hardfork_Property k))) = Inr w"
    then show "same_key same_unique_key v w"
      by (cases v) (auto simp: as_hardfork_def same_key_def rbind_Inr_iff split: chain_object.splits)
  qed (use f k in \<open>simp_all add: as_hardfork_def news_hardfork_num_def\<close>)
  then obtain e where e: "modify_hardfork f d = (Inr (), e)" "e = d\<lparr>objects := objects e\<rparr>" "chain_ok e"
    "store_step d e" "hardfork_of e k" "only_type hardfork_property_type d e"
    by blast
  have "frame e = frame d" using e(2) by (metis frame_simps(1))
  with e show ?thesis by (auto simp: chain_step_def globals_def only_type_def)
qed

text \<open>The hardfork object after the next hardfork.\<close>

definition advance :: "u32 list \<Rightarrow> u32 list \<Rightarrow> hardfork_property_object \<Rightarrow> hardfork_property_object" where
  "advance at_times vers h =
     (let n = last_hardfork h + 1
      in h\<lparr>processed_hardfork := processed_hardfork h @ [at_times ! unat n], last_hardfork := n,
           current_hardfork_version := vers ! unat n\<rparr>)"

lemma next_number:
  assumes "last_hardfork h < 2"
  shows "unat (last_hardfork h + 1) = Suc (unat (last_hardfork h))" "last_hardfork h + 1 \<le> 2"
    "unat (last_hardfork h) < 2"
proof -
  show a: "unat (last_hardfork h) < 2" using assms by (simp add: word_less_nat_alt)
  then show b: "unat (last_hardfork h + 1) = Suc (unat (last_hardfork h))"
    by (simp add: unat_word_ariths)
  with a show "last_hardfork h + 1 \<le> 2" by (simp add: word_le_nat_alt)
qed

lemma apply_hardfork_run:
  assumes ok: "chain_ok d" and h: "hardfork_of d h" and l: "last_hardfork h < 2" and g: "gpo_of d g"
  shows "\<exists>e. apply_hardfork (last_hardfork h + 1) d = (Inr (), e) \<and> chain_step d e \<and> chain_ok e \<and>
    e = d\<lparr>objects := objects e\<rparr> \<and> hardfork_of e (advance (hardfork_times d) (hardfork_versions d) h) \<and>
    only_type hardfork_property_type d e"
proof -
  let ?ts = "hardfork_times d" and ?vs = "hardfork_versions d" and ?n = "last_hardfork h + 1"
  note ty = hardfork_typed [OF ok h]
  note nn = next_number [OF l]
  have len: "length ?ts = 3" "length ?vs = 3" using ok by (simp_all add: chain_ok_def)
  have "mark_hardfork ?ts ?vs ?n h = Inr (advance ?ts ?vs h)"
    using ty nn len by (simp add: mark_hardfork_def array_at_def advance_def Let_def nth_append)
  from modify_hardfork_run [where f = "mark_hardfork ?ts ?vs ?n", OF ok h this] ty nn obtain e where
    e: "modify_hardfork (mark_hardfork ?ts ?vs ?n) d = (Inr (), e)" "chain_step d e" "chain_ok e"
       "hardfork_of e (advance ?ts ?vs h)" "e = d\<lparr>objects := objects e\<rparr>" "only_type hardfork_property_type d e"
    by (auto simp: advance_def Let_def)
  then show ?thesis
    using gpo_queries(1) [OF g] get_hardfork_run [OF h]
    by (auto simp: apply_hardfork_def seq_def bnd_def gets_def)
qed

lemma advance_last: "last_hardfork (advance ts vs h) = last_hardfork h + 1"
  by (simp add: advance_def Let_def)

text \<open>The loop of \<open>process_hardforks\<close>: it stops, having applied every hardfork that is due.\<close>

lemma process_loop_run:
  assumes "chain_ok d" and "hardfork_of d h" and "gpo_of d g" and "2 - unat (last_hardfork h) \<le> fuel"
  shows "\<exists>e j. process_loop fuel d = (Inr (), e) \<and> chain_step d e \<and> chain_ok e \<and> only_type hardfork_property_type d e \<and>
    hardfork_of e ((advance (hardfork_times d) (hardfork_versions d) ^^ j) h) \<and>
    unat (last_hardfork ((advance (hardfork_times d) (hardfork_versions d) ^^ j) h)) = unat (last_hardfork h) + j \<and>
    (\<forall>i < j. hardfork_times d ! (Suc (unat (last_hardfork h)) + i) \<le> gp_time g) \<and>
    (unat (last_hardfork h) + j = 2 \<or> gp_time g < hardfork_times d ! (Suc (unat (last_hardfork h)) + j))"
  using assms
proof (induction fuel arbitrary: d h)
  case (0 d h)
  have l: "last_hardfork h = 2"
    using hardfork_typed(2) [OF "0.prems"(1,2)] "0.prems"(4) by (simp add: word_le_nat_alt word_unat_eq_iff)
  have "process_loop 0 d = (Inr (), d)"
    by (subst process_loop.simps) (simp add: bnd_def get_hardfork_run [OF "0.prems"(2)] l news_hardfork_num_def ret_def)
  with "0.prems" l show ?case by (intro exI [of _ d] exI [of _ 0]) (simp add: step.refl)
next
  case (Suc n d h)
  note ok = Suc.prems(1) and h = Suc.prems(2) and g = Suc.prems(3)
  have len: "length (hardfork_times d) = 3" using ok by (simp add: chain_ok_def)
  show ?case
  proof (cases "last_hardfork h < 2")
    case False
    then have l: "last_hardfork h = 2" using hardfork_typed(2) [OF ok h] by simp
    have "process_loop (Suc n) d = (Inr (), d)"
      by (subst process_loop.simps) (simp add: bnd_def get_hardfork_run [OF h] l news_hardfork_num_def ret_def)
    with Suc.prems l show ?thesis by (intro exI [of _ d] exI [of _ 0]) (simp add: step.refl)
  next
    case True
    note nn = next_number [OF True]
    have at: "array_at (hardfork_times d) (last_hardfork h + 1) = Inr (hardfork_times d ! Suc (unat (last_hardfork h)))"
      using nn len by (simp add: array_at_def)
    show ?thesis
    proof (cases "hardfork_times d ! Suc (unat (last_hardfork h)) \<le> gp_time g")
      case False
      have "process_loop (Suc n) d = (Inr (), d)"
        by (subst process_loop.simps)
           (simp add: bnd_def get_hardfork_run [OF h] True news_hardfork_num_def reads_def at gpo_queries(2) [OF g] False ret_def)
      with Suc.prems False show ?thesis by (intro exI [of _ d] exI [of _ 0]) (simp add: step.refl not_le)
    next
      case due: True
      from apply_hardfork_run [OF ok h True g] obtain d1 where
        d1: "apply_hardfork (last_hardfork h + 1) d = (Inr (), d1)" "chain_step d d1" "chain_ok d1"
          "d1 = d\<lparr>objects := objects d1\<rparr>" "hardfork_of d1 (advance (hardfork_times d) (hardfork_versions d) h)"
          "only_type hardfork_property_type d d1" by blast
      have loop: "process_loop (Suc n) d = process_loop n d1"
        by (subst process_loop.simps)
           (simp add: bnd_def seq_def get_hardfork_run [OF h] True news_hardfork_num_def reads_def at
              gpo_queries(2) [OF g] due d1(1))
      have tv: "hardfork_times d1 = hardfork_times d" "hardfork_versions d1 = hardfork_versions d"
        using d1(4) by (metis chain_db.select_convs(16,17) chain_db.surjective chain_db.update_convs(1))+
      have g1: "gpo_of d1 g" using g stored_step [OF d1(2) ok] by simp
      let ?h = "advance (hardfork_times d) (hardfork_versions d) h"
      have l1: "unat (last_hardfork ?h) = Suc (unat (last_hardfork h))" using nn by (simp add: advance_last)
      have p: "2 - unat (last_hardfork ?h) \<le> n" using l1 Suc.prems(4) by simp
      from Suc.IH [OF d1(3) d1(5) g1 p, unfolded tv] obtain e j where
        e: "process_loop n d1 = (Inr (), e)" "chain_step d1 e" "chain_ok e" "only_type hardfork_property_type d1 e"
          "hardfork_of e ((advance (hardfork_times d) (hardfork_versions d) ^^ j) ?h)"
          "unat (last_hardfork ((advance (hardfork_times d) (hardfork_versions d) ^^ j) ?h)) = unat (last_hardfork ?h) + j"
          "\<forall>i < j. hardfork_times d ! (Suc (unat (last_hardfork ?h)) + i) \<le> gp_time g"
          "unat (last_hardfork ?h) + j = 2 \<or> gp_time g < hardfork_times d ! (Suc (unat (last_hardfork ?h)) + j)"
        by blast
      have "\<forall>i < Suc j. hardfork_times d ! (Suc (unat (last_hardfork h)) + i) \<le> gp_time g"
        using due e(7) l1 by (auto simp: less_Suc_eq_0_disj)
      with e l1 loop d1(2) only_type_trans [OF d1(6) e(4)] show ?thesis
        by (intro exI [of _ e] exI [of _ "Suc j"])
           (auto simp: funpow_Suc_right simp del: funpow.simps intro: step.trans)
    qed
  qed
qed

lemma process_hardforks_step:
  assumes ok: "chain_ok d" and g: "gpo_of d g" and run: "process_hardforks d = (r, e)"
  shows "chain_step d e"
proof -
  from run obtain q where q: "process_loop 2 d = (q, e)"
    by (auto simp: process_hardforks_def news_hardfork_num_def capture_def split: prod.splits sum.splits)
  obtain x u where x: "get_hardfork_property_object d = (x, u)" by (cases "get_hardfork_property_object d")
  show ?thesis
  proof (cases x)
    case (Inl a)
    with q x get_hardfork_state [OF x] have "e = d"
      by (subst (asm) process_loop.simps) (simp add: bnd_def)
    then show ?thesis by (simp add: step.refl)
  next
    case (Inr h)
    with get_hardfork_found x have h: "hardfork_of d h" by blast
    from process_loop_run [OF ok h g, of 2] q show ?thesis by auto
  qed
qed

text \<open>The hardforks of the first block.\<close>

definition set_step :: "nat \<Rightarrow> (chain_db, unit) sx" where
  "set_step i = seq (plan_hardfork (word_of_nat i)) (apply_hardfork (word_of_nat i))"

lemma set_step_run:
  assumes ok: "chain_ok d" and h: "hardfork_of d h" and g: "gpo_of d g" and i: "i = Suc (unat (last_hardfork h))" "i \<le> 2"
  shows "\<exists>e k. set_step i d = (Inr (), e) \<and> chain_step d e \<and> chain_ok e \<and> hardfork_of e k \<and> gpo_of e g \<and>
    unat (last_hardfork k) = i"
proof -
  have l: "last_hardfork h < 2" using i by (simp add: word_less_nat_alt)
  note nn = next_number [OF l]
  have w: "(word_of_nat i :: u32) = last_hardfork h + 1"
  proof -
    have "(word_of_nat (unat (last_hardfork h + 1)) :: u32) = last_hardfork h + 1" by simp
    then show ?thesis unfolding nn(1) i(1) .
  qed
  have len: "length (hardfork_versions d) = 3" using ok by (simp add: chain_ok_def)
  let ?v = "hardfork_versions d ! i"
  let ?f = "\<lambda>h. Inr (h\<lparr>next_hardfork_version := ?v, next_hardfork_time := gp_time g\<rparr>) :: hardfork_property_object result"
  have at: "array_at (hardfork_versions d) (word_of_nat i) = Inr ?v"
    unfolding w array_at_def nn(1) using i len by simp
  have "\<exists>e. modify_hardfork ?f d = (Inr (), e) \<and> chain_step d e \<and> chain_ok e \<and>
      hardfork_of e (h\<lparr>next_hardfork_version := ?v, next_hardfork_time := gp_time g\<rparr>) \<and> e = d\<lparr>objects := objects e\<rparr> \<and>
      only_type hardfork_property_type d e"
    by (rule modify_hardfork_run [OF ok h refl]) (use hardfork_typed [OF ok h] in simp_all)
  then obtain d1 where d1: "modify_hardfork ?f d = (Inr (), d1)" "chain_step d d1" "chain_ok d1"
      "hardfork_of d1 (h\<lparr>next_hardfork_version := ?v, next_hardfork_time := gp_time g\<rparr>)" by blast
  have plan: "plan_hardfork (word_of_nat i) d = (Inr (), d1)"
    using d1(1) by (simp add: plan_hardfork_def bnd_def reads_def at gpo_queries(2) [OF g])
  have g1: "gpo_of d1 g" using g stored_step [OF d1(2) ok] by simp
  from apply_hardfork_run [OF d1(3,4) _ g1] l obtain e where
    e: "apply_hardfork (last_hardfork h + 1) d1 = (Inr (), e)" "chain_step d1 e" "chain_ok e"
      "hardfork_of e (advance (hardfork_times d1) (hardfork_versions d1)
         (h\<lparr>next_hardfork_version := ?v, next_hardfork_time := gp_time g\<rparr>))" by auto
  have "gpo_of e g" using g1 stored_step [OF e(2) d1(3)] by simp
  moreover have "set_step i d = (Inr (), e)"
    using plan e(1) unfolding set_step_def w seq_def bnd_def by simp
  moreover have "unat (last_hardfork (advance (hardfork_times d1) (hardfork_versions d1)
      (h\<lparr>next_hardfork_version := ?v, next_hardfork_time := gp_time g\<rparr>))) = i"
    unfolding advance_last i(1) nn(1) [symmetric] by simp
  ultimately show ?thesis using e(2-4) d1(2) step.trans by blast
qed

lemma set_steps_run:
  assumes "chain_ok d" and "hardfork_of d h" and "gpo_of d g" and "i = Suc (unat (last_hardfork h))" and "i + k \<le> 3"
  shows "\<exists>e. each set_step [i..<i + k] d = (Inr (), e) \<and> chain_step d e"
  using assms
proof (induction k arbitrary: d h i)
  case 0
  then show ?case by (auto simp: ret_def intro: step.refl)
next
  case (Suc k d h i)
  from set_step_run [OF Suc.prems(1-4)] Suc.prems(5) obtain d1 h1 where
    d1: "set_step i d = (Inr (), d1)" "chain_step d d1" "chain_ok d1" "hardfork_of d1 h1" "gpo_of d1 g"
      "unat (last_hardfork h1) = i" by auto
  from Suc.IH [OF d1(3-5), of "Suc i"] d1(6) Suc.prems(5) obtain e where
    e: "each set_step [Suc i..<Suc i + k] d1 = (Inr (), e)" "chain_step d1 e" by auto
  have "[i..<i + Suc k] = i # [Suc i..<Suc i + k]" by (simp add: upt_rec)
  with e d1 show ?case by (auto simp: seq_def bnd_def intro: step.trans)
qed

lemma set_hardfork_step:
  assumes ok: "chain_ok d" and g: "gpo_of d g" and run: "set_hardfork n True d = (r, e)"
  shows "chain_step d e"
proof -
  obtain x u where x: "get_hardfork_property_object d = (x, u)" by (cases "get_hardfork_property_object d")
  show ?thesis
  proof (cases x)
    case (Inl a)
    with run x get_hardfork_state [OF x] show ?thesis by (simp add: set_hardfork_def bnd_def step.refl)
  next
    case (Inr h)
    with get_hardfork_found x have h: "hardfork_of d h" "u = d" by blast+
    let ?i = "unat (last_hardfork h + 1)" and ?m = "Suc (min (unat n) 2)"
    have i: "?i = Suc (unat (last_hardfork h))"
      using hardfork_typed(2) [OF ok h(1)] by (simp add: word_le_nat_alt unat_word_ariths)
    have e: "each set_step [?i..<?m] d = (r, e)"
      using run x Inr h(2) by (simp add: set_hardfork_def bnd_def set_step_def [abs_def] news_hardfork_num_def)
    show ?thesis
    proof (cases "?i < ?m")
      case True
      then have "?m = ?i + (?m - ?i)" "?i + (?m - ?i) \<le> 3" by auto
      with set_steps_run [OF ok h(1) g i, of "?m - ?i"] e show ?thesis by auto
    next
      case False
      then have "[?i..<?m] = []" by (simp only: upt_conv_Nil not_less)
      with e have "e = d" by (simp only: each.simps ret_def prod.inject)
      then show ?thesis by (simp add: step.refl)
    qed
  qed
qed

lemma genesis_step_step:
  assumes "chain_ok d" and "gpo_of d g" and "genesis_step b d = (r, e)"
  shows "chain_step d e"
proof (cases "block_num b = 1 \<and> genesis_hardforks (timestamp b) (hardfork_times d) > 0")
  case True
  with assms set_hardfork_step show ?thesis by (auto simp: genesis_step_def bnd_def gets_def)
next
  case False
  with assms(3) have "e = d" by (auto simp: genesis_step_def bnd_def gets_def ret_def split: if_splits)
  then show ?thesis by (simp add: step.refl)
qed

subsection \<open>Applying a block\<close>

definition same_objects :: "chain_db \<Rightarrow> chain_db \<Rightarrow> bool" where
  "same_objects d e \<longleftrightarrow> objects e = objects d \<and> hardfork_times e = hardfork_times d \<and> hardfork_versions e = hardfork_versions d"

interpretation ob: effect same_objects
  by unfold_locales (simp_all add: same_objects_def)

lemma on_log_objects: "within same_objects (on_log m)" "within same_objects (on_fork_db n)"
  by (auto simp: within_def on_log_def on_fork_db_def same_objects_def split: prod.splits)

lemma same_objects_facts:
  assumes "same_objects d e"
  shows "chain_ok e = chain_ok d" "stored e t i v = stored d t i v" "past_kept d e"
    "db_revision (objects e) = db_revision (objects d)"
  using assms past.refl [of d] by (auto simp: same_objects_def chain_ok_def stored_def past_kept_def)

definition new_irreversible :: "global_property \<Rightarrow> global_property" where
  "new_irreversible g =
     (if word_of_nat irreversible_block_num \<le> head_block_num_of g
      then g\<lparr>last_irreversible_block_num := irreversible_num (head_block_num_of g)\<rparr> else g)"

lemma commit_run:
  assumes ok: "chain_ok d" and n: "n < db_revision (objects d)"
  shows "\<exists>e. on_objects (update (db_commit n)) d = (Inr (), e) \<and> past_kept d e \<and> chain_ok e \<and>
    e = d\<lparr>objects := objects e\<rparr> \<and> contents (objects e) = contents (objects d)"
proof -
  have st: "store_ok (objects d)" using ok by (simp add: chain_ok_def)
  note c = commit_store [OF st, of n]
  let ?e = "d\<lparr>objects := db_commit n (objects d)\<rparr>"
  have "on_objects (update (db_commit n)) d = (Inr (), ?e)" by (simp add: on_objects_def update_def)
  moreover have "past_kept d ?e"
    using c n ok by (auto simp: past_kept_def chain_ok_def intro!: exI [of _ "nat (db_revision (objects d) - n)"])
  ultimately show ?thesis using c ok by (intro exI [of _ ?e]) (auto simp: chain_ok_def)
qed

text \<open>The blocks that are appended to the log once the irreversible ones are committed.\<close>

definition irreversible_rest :: "crypto \<Rightarrow> global_property \<Rightarrow> (chain_db, unit) sx" where
  "irreversible_rest cr g =
     seq (only_if (\<lambda>d. \<not> skipped skip_block_log d)
           (bnd (gets log_head_num) (\<lambda>n. log_blocks cr (unat (last_irreversible_block_num g) - unat n) n)))
         (on_fork_db (update (set_max_size (head_block_num_of g - last_irreversible_block_num g + 1))))"

lemma irreversible_commit:
  assumes ok: "chain_ok d" and g: "gpo_of d g" and ne: "earlier (objects d) \<noteq> []"
    and rev: "int (unat (last_irreversible_block_num (new_irreversible g))) < db_revision (objects d)"
  shows "\<exists>e. update_last_irreversible_block cr d = irreversible_rest cr (new_irreversible g) e \<and>
    past_kept d e \<and> chain_ok e \<and> gpo_of e (new_irreversible g) \<and>
    only_type global_property_type d e \<and> e = d\<lparr>objects := objects e\<rparr>"
proof -
  let ?g = "new_irreversible g" and ?n = "int (unat (last_irreversible_block_num (new_irreversible g)))"
  have "\<exists>d1. (if word_of_nat irreversible_block_num \<le> head_block_num_of g
        then modify_global (\<lambda>h. h\<lparr>last_irreversible_block_num := irreversible_num (head_block_num_of g)\<rparr>)
        else ret ()) d = (Inr (), d1) \<and> chain_ok d1 \<and> store_step d d1 \<and> gpo_of d1 ?g \<and>
        only_type global_property_type d d1 \<and> d1 = d\<lparr>objects := objects d1\<rparr>"
    using modify_global_run [OF ok g] ok g
    by (auto simp: new_irreversible_def ret_def intro: sto.refl)
  then obtain d1 where d1: "(if word_of_nat irreversible_block_num \<le> head_block_num_of g
        then modify_global (\<lambda>h. h\<lparr>last_irreversible_block_num := irreversible_num (head_block_num_of g)\<rparr>)
        else ret ()) d = (Inr (), d1)" "chain_ok d1" "store_step d d1" "gpo_of d1 ?g"
      "only_type global_property_type d d1" "d1 = d\<lparr>objects := objects d1\<rparr>" by blast
  have rev1: "db_revision (objects d1) = db_revision (objects d)"
    using store_within_past [OF d1(3)] ok ne by (simp add: past_kept_def)
  from commit_run [OF d1(2), of ?n] rev rev1 obtain d2 where
    d2: "on_objects (update (db_commit ?n)) d1 = (Inr (), d2)" "past_kept d1 d2" "chain_ok d2"
      "contents (objects d2) = contents (objects d1)" "d2 = d1\<lparr>objects := objects d2\<rparr>" by auto
  have "gpo_of d2 ?g" using d1(4) d2(4) stored_same [of d2 _ d1] by metis
  moreover have "update_last_irreversible_block cr d = irreversible_rest cr ?g d2"
    using d1(1) d2(1) get_gpo_run [OF g] get_gpo_run [OF d1(4)]
    by (simp add: update_last_irreversible_block_def irreversible_rest_def bnd_def seq_def)
  moreover have "past_kept d d2" using store_within_past [OF d1(3)] d2(2) by (rule past.trans)
  moreover have "only_type global_property_type d d2" using d1(5) d2(4) by (simp add: only_type_def)
  moreover have "d2 = d\<lparr>objects := objects d2\<rparr>"
    using d1(6) d2(5) by (metis chain_db.surjective chain_db.update_convs(1))
  ultimately show ?thesis using d2(3) by blast
qed

lemma irreversible_run:
  assumes ok: "chain_ok d" and g: "gpo_of d g" and ne: "earlier (objects d) \<noteq> []"
    and rev: "int (unat (last_irreversible_block_num (new_irreversible g))) < db_revision (objects d)"
    and run: "update_last_irreversible_block cr d = (r, e)"
  shows "past_kept d e \<and> chain_ok e \<and> gpo_of e (new_irreversible g)"
proof -
  from irreversible_commit [OF ok g ne rev] obtain d2 where
    d2: "update_last_irreversible_block cr d = irreversible_rest cr (new_irreversible g) d2"
      "past_kept d d2" "chain_ok d2" "gpo_of d2 (new_irreversible g)" by blast
  have lb: "within same_objects (log_blocks cr k n)" for k n
  proof (induction k arbitrary: n)
    case 0
    then show ?case by (simp add: ob.basic)
  next
    case (Suc k)
    then show ?case by (auto intro!: ob.compose on_log_objects)
  qed
  have "within same_objects (irreversible_rest cr (new_irreversible g))"
    unfolding irreversible_rest_def by (intro ob.compose lb on_log_objects)
  moreover have "irreversible_rest cr (new_irreversible g) d2 = (r, e)" using run d2(1) by simp
  ultimately have "same_objects d2 e" by (rule withinD)
  from same_objects_facts [OF this] d2(2-4) show ?thesis
    by (auto intro: past.trans)
qed

text \<open>When there is nothing to append, the whole step succeeds.\<close>

lemma irreversible_accepts:
  assumes ok: "chain_ok d" and g: "gpo_of d g" and ne: "earlier (objects d) \<noteq> []"
    and rev: "int (unat (last_irreversible_block_num (new_irreversible g))) < db_revision (objects d)"
    and log: "skipped skip_block_log d \<or> last_irreversible_block_num (new_irreversible g) \<le> log_head_num d"
  shows "\<exists>e. update_last_irreversible_block cr d = (Inr (), e) \<and> chain_ok e \<and> gpo_of e (new_irreversible g) \<and>
    only_type global_property_type d e"
proof -
  from irreversible_commit [OF ok g ne rev] obtain d2 where
    d2: "update_last_irreversible_block cr d = irreversible_rest cr (new_irreversible g) d2"
      "chain_ok d2" "gpo_of d2 (new_irreversible g)" "only_type global_property_type d d2"
      "d2 = d\<lparr>objects := objects d2\<rparr>" by blast
  have "skipped skip_block_log d2 = skipped skip_block_log d" "log_head_num d2 = log_head_num d"
    by (subst d2(5), simp add: skipped_def) (subst d2(5), simp add: log_head_num_def)
  then have "\<exists>f. irreversible_rest cr (new_irreversible g) d2 = (Inr (), d2\<lparr>fork_db := f\<rparr>)"
    using log
    by (auto simp: irreversible_rest_def seq_def bnd_def only_if_def gets_def ret_def on_fork_db_def update_def
        word_le_nat_alt)
  then obtain f where "update_last_irreversible_block cr d = (Inr (), d2\<lparr>fork_db := f\<rparr>)" using d2(1) by auto
  with d2(2-4) show ?thesis
    by (intro exI [of _ "d2\<lparr>fork_db := f\<rparr>"]) (simp add: chain_ok_def stored_def only_type_def)
qed

text \<open>The global properties after a block.\<close>

definition block_applied :: "crypto \<Rightarrow> signed_block \<Rightarrow> global_property \<Rightarrow> global_property" where
  "block_applied cr b g =
     g\<lparr>gp_time := timestamp b, head_block_num_of := block_num b, head_block_id_of := block_id cr b,
       current_aslot := current_aslot g + slot_of (slot_time g 1) (timestamp b)\<rparr>"

text \<open>A block whose time is before the slot after the head fails the assertion, if that is checked.\<close>

lemma slot_of_zero: "slot_of first t = 0 \<longleftrightarrow> t < first"
proof -
  have "(unat t - unat first) div news_block_interval + 1 < 2 ^ 32" if "first \<le> t"
    using that unat_bound [of t] by (simp add: news_block_interval_def)
  then have "(word_of_nat ((unat t - unat first) div news_block_interval + 1) :: u32) \<noteq> 0" if "first \<le> t"
    using that by (metis Suc_eq_plus1 nat.distinct(1) unat_0 unat_small)
  then show ?thesis by (auto simp: slot_of_def not_less)
qed

definition slot_refused :: "chain_env \<Rightarrow> signed_block \<Rightarrow> global_property \<Rightarrow> bool" where
  "slot_refused env b g \<longleftrightarrow> asserts_on env \<and> timestamp b < slot_time g 1"

lemma update_gpo_refused:
  assumes g: "gpo_of d g" and "slot_refused env b g"
  shows "update_global_property_object env b d = (Inl Undefined, d)"
  using assms(2)
  by (simp add: update_global_property_object_def seq_def bnd_def get_gpo_run [OF g] get_slot_at_time_def
      get_slot_time_def ret_def check_def raise_def slot_refused_def slot_of_zero)

lemma update_gpo_run:
  assumes ok: "chain_ok d" and g: "gpo_of d g" and slot: "\<not> slot_refused env b g"
  shows "\<exists>e. update_global_property_object env b d = (Inr (), e) \<and> chain_ok e \<and> store_step d e \<and>
    gpo_of e (block_applied (crypto_of env) b g) \<and> only_type global_property_type d e \<and> e = d\<lparr>objects := objects e\<rparr>"
proof -
  let ?cr = "crypto_of env"
  have s: "get_slot_at_time (timestamp b) d = (Inr (slot_of (slot_time g 1) (timestamp b)), d)"
    by (simp add: get_slot_at_time_def get_slot_time_def bnd_def get_gpo_run [OF g] ret_def)
  let ?f = "\<lambda>h. h\<lparr>gp_time := timestamp b, head_block_num_of := block_num b, head_block_id_of := block_id ?cr b,
       current_aslot := current_aslot h + slot_of (slot_time g 1) (timestamp b)\<rparr>"
  have "asserts_on env \<longrightarrow> slot_of (slot_time g 1) (timestamp b) \<noteq> 0"
    using slot by (simp add: slot_refused_def slot_of_zero)
  with modify_global_run [OF ok g, of ?f] get_gpo_run [OF g] s show ?thesis
    by (auto simp: update_global_property_object_def seq_def bnd_def block_applied_def check_def ret_def)
qed

lemma chain_step_facts: "chain_step d e \<Longrightarrow> chain_ok d \<Longrightarrow> chain_ok e \<and> past_kept d e \<and> (gpo_of d g \<longrightarrow> gpo_of e g)"
  using stored_step store_within_past by (auto simp: chain_step_def store_step_def)

lemma steps_here: "within chain_step m \<Longrightarrow> \<forall>q u. m d = (q, u) \<longrightarrow> chain_step d u"
  by (blast dest: withinD)

text \<open>The head of a sequence of statements, each of them a step, with the state carried along.\<close>

lemma seq_head:
  assumes ok: "chain_ok d" "gpo_of d g" and run: "seq m n d = (r, e)"
    and m: "\<forall>q u. m d = (q, u) \<longrightarrow> chain_step d u"
  obtains (stopped) x where "r = Inl x" "chain_step d e"
  | (more) u where "n u = (r, e)" "chain_step d u" "chain_ok u" "gpo_of u g"
proof -
  obtain q u where q: "m d = (q, u)" by (cases "m d")
  with m have mu: "chain_step d u" by blast
  note s = mu chain_step_facts [OF mu ok(1)]
  show thesis
  proof (cases q)
    case (Inl x)
    with q run have "r = Inl x" "e = u" by (simp_all add: seq_def bnd_def)
    with s stopped show thesis by simp
  next
    case (Inr y)
    with q run have "n u = (r, e)" by (simp add: seq_def bnd_def)
    with s ok(2) more show thesis by blast
  qed
qed

lemma block_tail_step:
  assumes ok: "chain_ok d" and g: "gpo_of d g"
    and run: "seq (create_block_summary cr b) (seq clear_expired_transactions process_hardforks) d = (r, e)"
  shows "chain_step d e"
proof (cases rule: seq_head [OF ok g run steps_here [OF create_block_summary_step], case_names stopped more])
  case stopped
  show ?thesis by (rule stopped(2))
next
  case (more u)
  from more(1) have "chain_step u e"
  proof (cases rule: seq_head [OF more(3,4) more(1) steps_here [OF clear_expired_step], case_names stopped more])
    case stopped
    show ?thesis by (rule stopped(2))
  next
    case m: (more v)
    from process_hardforks_step [OF m(3,4) m(1)] m(2) show ?thesis by (rule step.trans [rotated])
  qed
  with more(2) show ?thesis by (rule step.trans)
qed

lemma block_middle_run:
  assumes ok: "chain_ok d" and g: "gpo_of d g" and ne: "earlier (objects d) \<noteq> []"
    and rev: "int (unat (last_irreversible_block_num (new_irreversible (block_applied (crypto_of env) b g)))) <
      db_revision (objects d)"
    and run: "seq (update_global_property_object env b) (seq (update_last_irreversible_block cr)
       (seq (create_block_summary cr b) (seq clear_expired_transactions process_hardforks))) d = (r, e)"
  shows "past_kept d e \<and> (r = Inr () \<longrightarrow> gpo_of e (new_irreversible (block_applied (crypto_of env) b g)))"
proof (cases "slot_refused env b g")
  case True
  with run update_gpo_refused [OF g] have "r = Inl Undefined" "e = d" by (simp_all add: seq_def bnd_def)
  then show ?thesis by (simp add: past.refl)
next
  case False
  let ?g = "block_applied (crypto_of env) b g"
  from update_gpo_run [OF ok g False] obtain d1 where
    d1: "update_global_property_object env b d = (Inr (), d1)" "chain_ok d1" "store_step d d1" "gpo_of d1 ?g" by blast
  have p1: "past_kept d d1" by (rule store_within_past [OF d1(3)])
  then have ne1: "earlier (objects d1) \<noteq> []" and rev1: "db_revision (objects d1) = db_revision (objects d)"
    using ok ne by (auto simp: past_kept_def)
  obtain q d2 where d2: "update_last_irreversible_block cr d1 = (q, d2)"
    by (cases "update_last_irreversible_block cr d1")
  from irreversible_run [OF d1(2,4) ne1 _ d2] rev rev1 have
    p2: "past_kept d1 d2" "chain_ok d2" "gpo_of d2 (new_irreversible ?g)" by auto
  have p: "past_kept d d2" using p1 p2(1) by (rule past.trans)
  show ?thesis
  proof (cases q)
    case (Inl x)
    with run d1(1) d2 have "r = Inl x" "e = d2" by (simp_all add: seq_def bnd_def)
    with p show ?thesis by simp
  next
    case (Inr y)
    with run d1(1) d2 have "seq (create_block_summary cr b) (seq clear_expired_transactions process_hardforks) d2 = (r, e)"
      by (simp add: seq_def bnd_def)
    from chain_step_facts [OF block_tail_step [OF p2(2,3) this] p2(2)] p2(3) p show ?thesis
      by (blast intro: past.trans)
  qed
qed

lemma genesis_here: "chain_ok d \<Longrightarrow> gpo_of d g \<Longrightarrow> \<forall>q u. genesis_step b d = (q, u) \<longrightarrow> chain_step d u"
  using genesis_step_step by blast

lemma merkle_step: "within chain_step (if s then check_merkle cr b else ret ())"
  unfolding check_merkle_def by (intro step.compose)

lemma block_body_run:
  assumes h: "handlers_ok env" and ok: "chain_ok d" and g: "gpo_of d g" and ne: "earlier (objects d) \<noteq> []"
    and rev: "int (unat (last_irreversible_block_num (new_irreversible (block_applied (crypto_of env) b g)))) <
      db_revision (objects d)"
    and run: "apply_block_body env b skip d = (r, e)"
  shows "past_kept d e \<and> (r = Inr () \<longrightarrow> gpo_of e (new_irreversible (block_applied (crypto_of env) b g)))"
proof -
  let ?cr = "crypto_of env"
  let ?mid = "seq (update_global_property_object env b) (seq (update_last_irreversible_block ?cr)
       (seq (create_block_summary ?cr b) (seq clear_expired_transactions process_hardforks)))"
  let ?goal = "\<lambda>q. past_kept d e \<and> (q = Inr () \<longrightarrow> gpo_of e (new_irreversible (block_applied ?cr b g)))"
  from run obtain q where q: "seq (update (\<lambda>d. d\<lparr>current_block_num := block_num b\<rparr>)) (seq (genesis_step b)
      (seq (if skip AND skip_merkle_check = 0 then check_merkle ?cr b else ret ())
      (seq (each (\<lambda>t. apply_transaction env t skip) (transactions b)) ?mid))) d = (q, e)"
    and rq: "r = Inr () \<longrightarrow> q = Inr ()"
    by (auto simp: apply_block_body_def Let_def capture_def split: prod.splits sum.splits)
  have stop: "?goal (Inl x)" if "chain_step d e" for x
    using chain_step_facts [OF that ok] by simp
  have txs: "within chain_step (each (\<lambda>t. apply_transaction env t skip) (transactions b))"
    by (intro step.each apply_transaction_step h)
  have fin: "?goal q" if u: "chain_step d u" "?mid u = (q, e)" for u
  proof -
    have cu: "chain_ok u" "past_kept d u" "gpo_of u g" using chain_step_facts [OF u(1) ok, of g] g by blast+
    then have "earlier (objects u) \<noteq> []" "db_revision (objects u) = db_revision (objects d)"
      using ok ne by (auto simp: past_kept_def)
    from block_middle_run [OF cu(1,3) this(1) _ u(2)] rev this(2) cu(2) show ?thesis
      by (auto intro: past.trans)
  qed
  have "?goal q"
  proof (cases rule: seq_head [OF ok g q steps_here [OF fields_step(3)], case_names stopped more])
    case stopped
    with stop [OF stopped(2)] show ?thesis by simp
  next
    case u1: (more u)
    show ?thesis
    proof (cases rule: seq_head [OF u1(3,4) u1(1) genesis_here [OF u1(3,4)], case_names stopped more])
      case stopped
      with stop [OF step.trans [OF u1(2) stopped(2)]] show ?thesis by simp
    next
      case u2: (more v)
      show ?thesis
      proof (cases rule: seq_head [OF u2(3,4) u2(1) steps_here [OF merkle_step], case_names stopped more])
        case stopped
        with stop [OF step.trans [OF u1(2) step.trans [OF u2(2) stopped(2)]]] show ?thesis by simp
      next
        case u3: (more w)
        show ?thesis
        proof (cases rule: seq_head [OF u3(3,4) u3(1) steps_here [OF txs], case_names stopped more])
          case stopped
          with stop [OF step.trans [OF u1(2) step.trans [OF u2(2) step.trans [OF u3(2) stopped(2)]]]]
          show ?thesis by simp
        next
          case u4: (more x)
          have "chain_step d x" using u1(2) u2(2) u3(2) u4(2) by (metis step.trans)
          from fin [OF this u4(1)] show ?thesis .
        qed
      qed
    qed
  qed
  with rq show ?thesis by blast
qed

lemma apply_block_run:
  assumes h: "handlers_ok env" and ok: "chain_ok d" and g: "gpo_of d g" and ne: "earlier (objects d) \<noteq> []"
    and rev: "int (unat (last_irreversible_block_num (new_irreversible (block_applied (crypto_of env) b g)))) <
      db_revision (objects d)"
    and run: "apply_block env b skip d = (r, e)"
  shows "past_kept d e \<and> skip_flags e = skip_flags d \<and>
    (r = Inr () \<longrightarrow> gpo_of e (new_irreversible (block_applied (crypto_of env) b g)))"
proof -
  let ?d = "d\<lparr>skip_flags := skip\<rparr>"
  obtain q u where q: "apply_block_body env b skip ?d = (q, u)" by (cases "apply_block_body env b skip ?d")
  let ?u = "u\<lparr>skip_flags := skip_flags d\<rparr>"
  have "chain_ok ?d" "gpo_of ?d g" "earlier (objects ?d) \<noteq> []" using ok g ne by (simp_all add: stored_def)
  from block_body_run [OF h this _ q] rev have
    p: "past_kept ?d u" "q = Inr () \<longrightarrow> gpo_of u (new_irreversible (block_applied (crypto_of env) b g))" by auto
  have w: "with_skip_flags skip (apply_block_body env b skip) d = (q, ?u)"
    using q by (simp add: with_skip_flags_def on_exit_def)
  have "objects (flush_step (now_us env) (block_num b) ?u) = objects u \<and>
      chain_ok (flush_step (now_us env) (block_num b) ?u) = chain_ok u \<and>
      skip_flags (flush_step (now_us env) (block_num b) ?u) = skip_flags d"
    by (simp add: flush_step_def Let_def chain_ok_def)
  moreover have "(r = Inr () \<longrightarrow> q = Inr ()) \<and> (e = ?u \<or> e = flush_step (now_us env) (block_num b) ?u)"
    using run w by (cases q) (auto simp: apply_block_def capture_def seq_def bnd_def update_def split: prod.splits sum.splits)
  ultimately have e: "objects e = objects u" "chain_ok e = chain_ok u" "skip_flags e = skip_flags d"
    "r = Inr () \<longrightarrow> q = Inr ()" by auto
  have "past_kept d e" using p(1) e by (simp add: past_kept_def)
  with e p(2) show ?thesis by (simp add: stored_def)
qed

end
