(* ===== verification/Block_Props.thy ===== *)
theory Block_Props
  imports Block_Facts
begin

section \<open>Blocks: properties\<close>

text \<open>The claims about applying and popping blocks, hardforks, expiry and slots.\<close>

subsection \<open>A block is a transaction\<close>

text \<open>
  The state between blocks: the revision of the objects is the number of the head block, and the
  last irreversible block is not above the head.
\<close>

definition chain_inv :: "chain_db \<Rightarrow> global_property \<Rightarrow> bool" where
  "chain_inv d g \<longleftrightarrow> chain_ok d \<and> gpo_of d g \<and> db_revision (objects d) = int (unat (head_block_num_of g)) \<and>
     last_irreversible_block_num g \<le> head_block_num_of g"

lemma irreversible_below:
  assumes "last_irreversible_block_num g < head_block_num_of g"
  shows "last_irreversible_block_num (new_irreversible g) < head_block_num_of g"
proof -
  have "irreversible_num h < h" if "word_of_nat irreversible_block_num \<le> h" for h :: u32
    using that
    by (simp add: irreversible_num_def irreversible_block_num_def word_less_nat_alt word_le_nat_alt unat_sub)
  with assms show ?thesis
    by (simp add: new_irreversible_def)
qed

text \<open>The state in which the steps of the next block run.\<close>

lemma started_ready:
  assumes inv: "chain_inv d g" and num: "block_num b = head_block_num_of g + 1"
    and small: "unat (head_block_num_of g) + 1 < 2 ^ 32"
  shows "chain_ok (started d)" "gpo_of (started d) g" "earlier (objects (started d)) \<noteq> []"
    "int (unat (last_irreversible_block_num (new_irreversible (block_applied cr b g)))) <
       db_revision (objects (started d))"
    "last_irreversible_block_num (new_irreversible (block_applied cr b g)) < block_num b"
    "unat (block_num b) = unat (head_block_num_of g) + 1"
proof -
  let ?g = "block_applied cr b g"
  have ok: "chain_ok d" and g: "gpo_of d g" and rev: "db_revision (objects d) = int (unat (head_block_num_of g))"
    and lib: "last_irreversible_block_num g \<le> head_block_num_of g"
    using inv by (simp_all add: chain_inv_def)
  show n: "unat (block_num b) = unat (head_block_num_of g) + 1"
    using num small by (simp add: unat_word_ariths)
  have "last_irreversible_block_num ?g < head_block_num_of ?g"
    using lib n by (simp add: block_applied_def word_less_nat_alt word_le_nat_alt)
  from irreversible_below [OF this] show ir: "last_irreversible_block_num (new_irreversible ?g) < block_num b"
    by (simp add: block_applied_def)
  note st = started_past [OF ok]
  show "chain_ok (started d)" "earlier (objects (started d)) \<noteq> []" using st(1,2) by simp_all
  show "gpo_of (started d) g" using g stored_same [of "started d" global_property_type d] started_facts(4) [OF ok]
    by (simp add: globals_def)
  have "int (unat (last_irreversible_block_num (new_irreversible ?g))) < int (unat (head_block_num_of g) + 1)"
    using ir unfolding word_less_nat_alt n by (simp only: of_nat_less_iff)
  then show "int (unat (last_irreversible_block_num (new_irreversible ?g))) < db_revision (objects (started d))"
    using st(3) rev by simp
qed

lemma block_session:
  assumes h: "handlers_ok env" and inv: "chain_inv d g" and num: "block_num b = head_block_num_of g + 1"
    and small: "unat (head_block_num_of g) + 1 < 2 ^ 32"
    and run: "pushing_session (apply_block env b skip) d = (r, e)"
  shows "r = fst (apply_block env b skip (started d)) \<and>
    e = (snd (apply_block env b skip (started d)))\<lparr>objects := objects e\<rparr> \<and> skip_flags e = skip_flags d \<and>
    (case r of
       Inl x \<Rightarrow> went_back d e
     | Inr _ \<Rightarrow>
         chain_inv e (new_irreversible (block_applied (crypto_of env) b g)) \<and>
         (\<exists>k. earlier (objects e) = contents (objects d) # take k (earlier (objects d))))"
proof -
  let ?g = "block_applied (crypto_of env) b g"
  have ok: "chain_ok d" using inv by (simp add: chain_inv_def)
  have rev: "db_revision (objects d) = int (unat (head_block_num_of g))" using inv by (simp add: chain_inv_def)
  note st = started_ready(1-3) [OF inv num small] and n = started_ready(6) [OF inv num small]
  note lt = started_ready(4,5) [OF inv num small, of "crypto_of env"]
  obtain q d1 where q: "apply_block env b skip (started d) = (q, d1)" by (cases "apply_block env b skip (started d)")
  from apply_block_run [OF h st lt(1) q] have
    p: "past_kept (started d) d1" "skip_flags d1 = skip_flags (started d)" "q = Inr () \<longrightarrow> gpo_of d1 (new_irreversible ?g)"
    by simp_all
  note f = pushing_block_run [OF ok q p(1) run]
  have d1: "r = fst (apply_block env b skip (started d))"
    "e = (snd (apply_block env b skip (started d)))\<lparr>objects := objects e\<rparr>" using f q by simp_all
  have fl: "skip_flags e = skip_flags d" using f p(2) by (metis chain_db.select_convs(5) chain_db.surjective
      chain_db.update_convs(1) started_def)
  have "skip_flags e = skip_flags d \<and>
    (case r of
       Inl x \<Rightarrow> went_back d e
     | Inr _ \<Rightarrow>
         chain_inv e (new_irreversible ?g) \<and>
         (\<exists>k. earlier (objects e) = contents (objects d) # take k (earlier (objects d))))"
  proof (cases q)
    case (Inl x)
    with f fl show ?thesis by simp
  next
    case (Inr u)
    with f have e: "r = Inr ()" "chain_ok e" "contents (objects e) = contents (objects d1)"
      "db_revision (objects e) = db_revision (objects d) + 1"
      "\<exists>k. earlier (objects e) = contents (objects d) # take k (earlier (objects d))" by simp_all
    have "gpo_of e (new_irreversible ?g)"
      using p(3) Inr stored_same [of e global_property_type d1] e(3) by simp
    moreover have "head_block_num_of (new_irreversible ?g) = block_num b"
      by (simp add: new_irreversible_def block_applied_def)
    ultimately show ?thesis using e fl lt(2) rev n q Inr by (simp add: chain_inv_def)
  qed
  with d1 show ?thesis by blast
qed

text \<open>
  C1: Applying the next block in its session is atomic and keeps the chain invariant. If any step
  of it fails, after whatever writes and after the commit it contains, the contents, next ids and
  revision are those before; the snapshots below may only have lost their oldest, which the commit
  made permanent. If it succeeds, the revision is the number of the new head, the head's number, id and
  time are the block's, the last irreversible block stays below the head, and undoing the session
  would give back the contents before the block.
\<close>

theorem block_atomic:
  assumes h: "handlers_ok env" and inv: "chain_inv d g" and num: "block_num b = head_block_num_of g + 1"
    and small: "unat (head_block_num_of g) + 1 < 2 ^ 32"
    and run: "pushing_session (apply_block env b skip) d = (r, e)"
  shows "skip_flags e = skip_flags d \<and>
    (case r of
       Inl x \<Rightarrow> went_back d e
     | Inr _ \<Rightarrow>
         chain_inv e (new_irreversible (block_applied (crypto_of env) b g)) \<and>
         (\<exists>k. earlier (objects e) = contents (objects d) # take k (earlier (objects d))))"
  using block_session [OF assms] by blast

definition sample_block :: signed_block where
  "sample_block =
     \<lparr>timestamp = 12, producer = 1, transaction_merkle_root = replicate 32 0, previous = sample_id, version_num = 1,
      producer_signature = replicate 65 3, transactions = []\<rparr>"

lemma sample_has: "has_index t (objects sample_db) \<longleftrightarrow> t < 8"
  unfolding sample_objects_of has_index_def by (simp add: sample_objects_def)

lemma sample_stored: "t < 8 \<Longrightarrow> i < length (sample_rows ! t) \<Longrightarrow> stored sample_db t i (sample_rows ! t ! i)"
  using sample_has [of t] by (simp add: stored_def sample_objects_of sample_idx) (simp add: sample_index_def sample_lookup)

lemma sample_gpo_of: "gpo_of sample_db sample_gpo"
  using sample_stored [of 0 0] by (simp add: sample_rows_def)

lemma sample_chain_inv: "chain_inv sample_db sample_gpo"
proof -
  have "index_list sample_objects \<noteq> []" "hd (index_list sample_objects) = 0"
    by (simp_all add: sample_objects_def upt_rec)
  then have "db_revision sample_objects = 1"
    using sample_idx [of 0] by (simp add: hd_revision sample_index_def)
  then show ?thesis
    using sample_ok(1) sample_gpo_of by (simp add: chain_inv_def sample_objects_of sample_gpo_def)
qed

lemma sample_num: "block_num sample_block = head_block_num_of sample_gpo + 1"
proof -
  have "take 4 sample_id = [0, 0, 0, 1]" by (simp add: sample_id_def)
  then have "hash_word 0 sample_id = 16777216" by (simp add: hash_word_def)
  then show ?thesis
    by (simp add: block_num_def sample_block_def sample_gpo_def endian_reverse_u32_def)
qed

theorem block_atomic_witness:
  "skip_flags (snd (pushing_session (apply_block sample_env sample_block 0) sample_db)) = 0"
proof -
  obtain r e where run: "pushing_session (apply_block sample_env sample_block 0) sample_db = (r, e)"
    by (cases "pushing_session (apply_block sample_env sample_block 0) sample_db")
  from block_atomic [OF sample_ok(3) sample_chain_inv sample_num _ run] run show ?thesis
    by (simp add: sample_gpo_def sample_db_def init_hardforks_def new_chain_db_def)
qed

subsection \<open>Types\<close>

lemma stored_index:
  assumes "chain_ok d" and "stored d t i v"
  shows "t \<in> set (index_list (objects d))"
proof -
  have "db_inv chain_clash (objects d)" using assms(1) by (auto simp: chain_ok_def dest: store_okD(2))
  with assms(2) show ?thesis by (auto simp: stored_def has_index_def db_inv_def)
qed

lemma well_typed:
  assumes ok: "chain_ok d" and v: "stored d t i v" and w: "stored d t j w"
  shows "obj_ok t v \<and> (same_unique_key v w \<longrightarrow> i = j)"
proof -
  have st: "store_ok (objects d)" using ok by (simp add: chain_ok_def)
  have "obj_ok t v" using typed_object [OF store_okD(5) [OF st], of t i v] v by (simp add: stored_def)
  moreover have "no_clash same_unique_key (map_of (indices (idx t (objects d))))"
    by (rule gi_invD(3) [OF store_okD(7) [OF st stored_index [OF ok v]]])
  ultimately show ?thesis using v w by (auto simp: stored_def no_clash_def)
qed

text \<open>
  C25: Whatever a block does and however it ends, the database stays well typed: every stored object
  is of the class of the index it is in, balances are in the symbol of the chain, the hardfork
  object lists as many hardforks as its number says, and no two objects of an index share a unique
  key (transaction id, account name, account and sequence number).
\<close>

theorem block_keeps_types:
  assumes h: "handlers_ok env" and inv: "chain_inv d g" and num: "block_num b = head_block_num_of g + 1"
    and small: "unat (head_block_num_of g) + 1 < 2 ^ 32"
    and run: "pushing_session (apply_block env b skip) d = (r, e)"
    and v: "stored e t i v" and w: "stored e t j w"
  shows "obj_ok t v \<and> (same_unique_key v w \<longrightarrow> i = j)"
proof -
  have "chain_ok e" using block_session [OF h inv num small run]
    by (auto simp: went_back_def chain_inv_def split: sum.splits)
  then show ?thesis using v w by (rule well_typed)
qed

theorem block_keeps_types_witness:
  "\<exists>g. gpo_of (snd (pushing_session (apply_block sample_env sample_block 0) sample_db)) g \<and>
     obj_ok global_property_type (Global_Property g)"
proof -
  obtain r e where run: "pushing_session (apply_block sample_env sample_block 0) sample_db = (r, e)"
    by (cases "pushing_session (apply_block sample_env sample_block 0) sample_db")
  have small: "unat (head_block_num_of sample_gpo) + 1 < 2 ^ 32" by (simp add: sample_gpo_def)
  note args = sample_ok(3) sample_chain_inv sample_num small run
  from block_session [OF args] obtain g where g: "gpo_of e g"
  proof (cases r)
    case (Inl x)
    with block_session [OF args] have "gpo_of e sample_gpo"
      using sample_gpo_of stored_same [of e global_property_type sample_db] by (simp add: went_back_def)
    then show thesis by (rule that)
  next
    case (Inr x)
    with block_session [OF args] that show thesis by (auto simp: chain_inv_def)
  qed
  from block_keeps_types [OF args g g] g run show ?thesis by auto
qed

subsection \<open>Hardforks\<close>

text \<open>
  C32: Processing the hardforks stops, and then every hardfork that is due has been applied, once and in
  order: the hardfork object has advanced past exactly the scheduled times that are not after the
  head's time, up to the first later one or the last known hardfork. Objects of other classes are
  as before.
\<close>

theorem hardforks_all_due:
  assumes "chain_ok d" and "gpo_of d g" and "hardfork_of d h"
  shows "\<exists>e j. process_hardforks d = (Inr (), e) \<and> chain_step d e \<and> only_type hardfork_property_type d e \<and>
    hardfork_of e ((advance (hardfork_times d) (hardfork_versions d) ^^ j) h) \<and>
    unat (last_hardfork ((advance (hardfork_times d) (hardfork_versions d) ^^ j) h)) = unat (last_hardfork h) + j \<and>
    (\<forall>i < j. hardfork_times d ! (Suc (unat (last_hardfork h)) + i) \<le> gp_time g) \<and>
    (unat (last_hardfork h) + j = 2 \<or> gp_time g < hardfork_times d ! (Suc (unat (last_hardfork h)) + j))"
proof -
  have "2 - unat (last_hardfork h) \<le> 2" by simp
  from process_loop_run [OF assms(1,3,2) this] show ?thesis
    by (auto simp: process_hardforks_def news_hardfork_num_def)
qed

lemma sample_hardfork_of: "hardfork_of sample_db sample_hardfork"
  using sample_stored [of 7 0] by (simp add: sample_rows_def)

theorem hardforks_all_due_witness: "fst (process_hardforks sample_db) = Inr ()"
  using hardforks_all_due [OF sample_ok(1) sample_gpo_of sample_hardfork_of] by auto

subsection \<open>Expired transactions\<close>

definition trx_table :: "chain_db \<Rightarrow> nat \<Rightarrow> chain_object option" where
  "trx_table d = map_of (indices (idx transaction_type (objects d)))"

fun expired :: "u32 \<Rightarrow> chain_object \<Rightarrow> bool" where
  "expired now (Transaction_Obj t) \<longleftrightarrow> now > to_expiration t"
| "expired now _ \<longleftrightarrow> False"

lemma earliest:
  assumes "\<And>i v. (i, v) \<in> set xs \<Longrightarrow> \<exists>t. v = Transaction_Obj t"
  shows "case fold earlier_trx xs best of
      None \<Rightarrow> xs = [] \<and> best = None
    | Some (i, x) \<Rightarrow>
        (best = Some (i, x) \<or> (\<exists>t. (i, Transaction_Obj t) \<in> set xs \<and> to_expiration t = x)) \<and>
        (\<forall>j t. (j, Transaction_Obj t) \<in> set xs \<longrightarrow> x \<le> to_expiration t) \<and>
        (\<forall>j y. best = Some (j, y) \<longrightarrow> x \<le> y)"
  using assms
proof (induction xs arbitrary: best)
  case Nil
  then show ?case by (simp split: option.splits)
next
  case (Cons p xs)
  obtain i v where p: "p = (i, v)" by (cases p)
  with Cons.prems obtain t where v: "v = Transaction_Obj t" by auto
  let ?b = "earlier_trx p best"
  have "\<exists>j y. ?b = Some (j, y) \<and> y \<le> to_expiration t \<and> (\<forall>k z. best = Some (k, z) \<longrightarrow> y \<le> z) \<and>
      ((j, y) = (i, to_expiration t) \<or> best = Some (j, y))"
  proof (cases best)
    case None
    then show ?thesis by (simp add: earlier_trx_def p v)
  next
    case (Some q)
    obtain k z where q: "q = (k, z)" by (cases q)
    show ?thesis
    proof (cases "to_expiration t < z")
      case True
      with Some q show ?thesis by (simp add: earlier_trx_def p v)
    next
      case False
      with Some q show ?thesis by (simp add: earlier_trx_def p v)
    qed
  qed
  then obtain j y where b: "?b = Some (j, y)" "y \<le> to_expiration t" "\<forall>k z. best = Some (k, z) \<longrightarrow> y \<le> z"
    "(j, y) = (i, to_expiration t) \<or> best = Some (j, y)" by blast
  have "\<And>i v. (i, v) \<in> set xs \<Longrightarrow> \<exists>t. v = Transaction_Obj t" using Cons.prems by auto
  note ih = Cons.IH [where best = ?b, OF this]
  show ?case
  proof (cases "fold earlier_trx xs ?b")
    case None
    with ih b(1) show ?thesis by simp
  next
    case (Some q)
    obtain k z where q: "q = (k, z)" by (cases q)
    from ih Some b(1) have
      s: "?b = Some (k, z) \<or> (\<exists>t. (k, Transaction_Obj t) \<in> set xs \<and> to_expiration t = z)"
         "\<forall>j t. (j, Transaction_Obj t) \<in> set xs \<longrightarrow> z \<le> to_expiration t" "z \<le> y" by (auto simp: q)
    have "z \<le> to_expiration t" using s(3) b(2) by simp
    moreover have "\<forall>k' z'. best = Some (k', z') \<longrightarrow> z \<le> z'" using s(3) b(3) by force
    ultimately show ?thesis using s b(1,4) Some by (auto simp: q p v)
  qed
qed

lemma trx_typed:
  assumes "chain_ok d" and "has_index transaction_type (objects d)"
  shows "om_wf (indices (idx transaction_type (objects d)))"
    "(i, v) \<in> set (indices (idx transaction_type (objects d))) \<Longrightarrow> \<exists>t. v = Transaction_Obj t"
proof -
  have st: "store_ok (objects d)" using assms(1) by (simp add: chain_ok_def)
  have t: "transaction_type \<in> set (index_list (objects d))" using assms(2) by (simp add: has_index_def)
  show wf: "om_wf (indices (idx transaction_type (objects d)))" by (rule gi_invD(2) [OF store_okD(7) [OF st t]])
  assume "(i, v) \<in> set (indices (idx transaction_type (objects d)))"
  with om_lookup_iff [OF wf] have "map_of (indices (idx transaction_type (objects d))) i = Some v" by blast
  from typed_object [OF store_okD(5) [OF st] assms(2) this] show "\<exists>t. v = Transaction_Obj t" by (cases v) auto
qed

lemma remove_trx_run:
  assumes ok: "chain_ok d" and i: "stored d transaction_type i v"
  shows "\<exists>e. on_objects (db_remove transaction_type i) d = (Inr (), e) \<and> chain_step d e \<and> chain_ok e \<and>
    only_type transaction_type d e \<and> has_index transaction_type (objects e) \<and>
    indices (idx transaction_type (objects e)) = om_del i (indices (idx transaction_type (objects d)))"
proof -
  let ?g = "idx transaction_type (objects d)"
  from i have has: "has_index transaction_type (objects d)" and v: "map_of (indices ?g) i = Some v"
    by (simp_all add: stored_def)
  obtain q g where g: "gi_remove i ?g = (q, g)" by (cases "gi_remove i ?g")
  have q: "q = Inr ()" using g v by (auto simp: gi_remove_def Let_def)
  have ind: "indices g = om_del i (indices ?g)"
    using gi_remove_written [OF g [unfolded q]] by (cases "stack ?g") (auto simp: written_def with_head_def)
  let ?e = "d\<lparr>objects := put_idx transaction_type g (objects d)\<rparr>"
  have run: "on_objects (db_remove transaction_type i) d = (Inr (), ?e)"
    using has g q by (simp add: on_objects_def db_remove_def on_index_has)
  have "chain_step d ?e" by (rule withinD [OF remove_step run]) simp
  moreover have "only_type transaction_type d ?e" by (simp add: only_type_def contents_put)
  ultimately show ?thesis using chain_step_facts [of d ?e, OF _ ok] run has ind
    by (intro exI [of _ ?e]) simp
qed

lemma remove_expired_run:
  assumes "chain_ok d" and "gpo_of d g" and "has_index transaction_type (objects d)"
    and "length (indices (idx transaction_type (objects d))) \<le> fuel"
  shows "\<exists>e. remove_expired fuel d = (Inr (), e) \<and> chain_step d e \<and> only_type transaction_type d e \<and>
    trx_table e = (\<lambda>i. case trx_table d i of None \<Rightarrow> None | Some v \<Rightarrow> if expired (gp_time g) v then None else Some v)"
  using assms
proof (induction fuel arbitrary: d)
  case (0 d)
  have e: "indices (idx transaction_type (objects d)) = []" using "0.prems"(4) by simp
  then have "remove_expired 0 d = (Inr (), d)"
    using "0.prems"(3) by (subst remove_expired.simps)
      (simp add: bnd_def reads_def first_by_expiration_def get_index_def ret_def)
  with e show ?case by (intro exI [of _ d]) (auto simp: step.refl trx_table_def)
next
  case (Suc n d)
  note ok = Suc.prems(1) and g = Suc.prems(2) and has = Suc.prems(3)
  note ty = trx_typed [OF ok has]
  let ?m = "indices (idx transaction_type (objects d))"
  have er: "case fold earlier_trx ?m None of
      None \<Rightarrow> ?m = [] \<and> (None :: (nat \<times> u32) option) = None
    | Some (i, x) \<Rightarrow>
        ((None :: (nat \<times> u32) option) = Some (i, x) \<or> (\<exists>t. (i, Transaction_Obj t) \<in> set ?m \<and> to_expiration t = x)) \<and>
        (\<forall>j t. (j, Transaction_Obj t) \<in> set ?m \<longrightarrow> x \<le> to_expiration t) \<and>
        (\<forall>j y. (None :: (nat \<times> u32) option) = Some (j, y) \<longrightarrow> x \<le> y)"
    using ty(2) by (rule earliest)
  have first: "first_by_expiration d = Inr (fold earlier_trx ?m None)"
    using has by (simp add: first_by_expiration_def get_index_def)
  show ?case
  proof (cases "fold earlier_trx ?m None")
    case None
    then have "remove_expired (Suc n) d = (Inr (), d)"
      by (subst remove_expired.simps) (simp add: bnd_def reads_def first ret_def)
    moreover have "?m = []" using er None by simp
    ultimately show ?thesis by (intro exI [of _ d]) (auto simp: step.refl trx_table_def)
  next
    case (Some p)
    obtain i x where p: "p = (i, x)" by (cases p)
    have head: "first_by_expiration d = Inr (Some (i, x))" unfolding first Some p ..
    from er Some p obtain t where t: "(i, Transaction_Obj t) \<in> set ?m" "to_expiration t = x"
      and least: "\<forall>j t. (j, Transaction_Obj t) \<in> set ?m \<longrightarrow> x \<le> to_expiration t" by auto
    show ?thesis
    proof (cases "gp_time g > x")
      case False
      then have "remove_expired (Suc n) d = (Inr (), d)"
        by (subst remove_expired.simps)
           (simp add: bnd_def reads_def head gpo_queries(2) [OF g] ret_def)
      moreover have "\<not> expired (gp_time g) v" if "trx_table d j = Some v" for j v
      proof -
        from that om_lookup_iff [OF ty(1)] have jv: "(j, v) \<in> set ?m" unfolding trx_table_def by blast
        with ty(2) obtain s where "v = Transaction_Obj s" by blast
        moreover from this jv least have "x \<le> to_expiration s" by blast
        ultimately show ?thesis using False by (simp add: not_less)
      qed
      ultimately show ?thesis by (intro exI [of _ d]) (auto simp: step.refl fun_eq_iff split: option.splits)
    next
      case True
      have st: "stored d transaction_type i (Transaction_Obj t)"
        using has t(1) om_lookup_iff [OF ty(1)] by (simp add: stored_def)
      from remove_trx_run [OF ok st] obtain d1 where
        d1: "on_objects (db_remove transaction_type i) d = (Inr (), d1)" "chain_step d d1" "chain_ok d1" "only_type transaction_type d d1"
          "has_index transaction_type (objects d1)" "indices (idx transaction_type (objects d1)) = om_del i ?m" by blast
      have loop: "remove_expired (Suc n) d = remove_expired n d1"
        using d1(1) True by (subst remove_expired.simps)
          (simp add: bnd_def seq_def reads_def head gpo_queries(2) [OF g])
      have "length (om_del i ?m) < length ?m"
        unfolding om_del_def using t(1) by (intro length_filter_less [of "(i, Transaction_Obj t)"]) auto
      then have len: "length (indices (idx transaction_type (objects d1))) \<le> n"
        using d1(6) Suc.prems(4) by simp
      have g1: "gpo_of d1 g" using g stored_step [OF d1(2) ok] by simp
      from Suc.IH [OF d1(3) g1 d1(5) len] obtain e where
        e: "remove_expired n d1 = (Inr (), e)" "chain_step d1 e" "only_type transaction_type d1 e"
          "trx_table e = (\<lambda>i. case trx_table d1 i of None \<Rightarrow> None | Some v \<Rightarrow> if expired (gp_time g) v then None else Some v)"
        by blast
      have "trx_table d1 = (trx_table d)(i := None)"
        by (simp add: trx_table_def d1(6) [unfolded transaction_type_def] om_simps)
      moreover have "trx_table d i = Some (Transaction_Obj t)" using st by (simp add: stored_def trx_table_def)
      ultimately have "trx_table e =
          (\<lambda>i. case trx_table d i of None \<Rightarrow> None | Some v \<Rightarrow> if expired (gp_time g) v then None else Some v)"
        using True t(2) unfolding e(4) by (auto simp: fun_eq_iff)
      moreover have "chain_step d e" using d1(2) e(2) by (rule step.trans)
      moreover have "only_type transaction_type d e" using d1(4) e(3) by (rule only_type_trans)
      ultimately show ?thesis using e(1) loop by auto
    qed
  qed
qed

text \<open>
  C33: Clearing the expired transactions stops and removes exactly those whose expiration lies
  before the head's time: every other stored transaction stays, under its id, and so do the
  objects of all other classes.
\<close>

theorem clear_expired_exact:
  assumes "chain_ok d" and "gpo_of d g" and "has_index transaction_type (objects d)"
  shows "\<exists>e. clear_expired_transactions d = (Inr (), e) \<and> chain_step d e \<and> only_type transaction_type d e \<and>
    trx_table e = (\<lambda>i. case trx_table d i of None \<Rightarrow> None | Some v \<Rightarrow> if expired (gp_time g) v then None else Some v)"
  using remove_expired_run [OF assms order_refl]
  by (simp add: clear_expired_transactions_def bnd_def gets_def)

theorem clear_expired_exact_witness: "fst (clear_expired_transactions sample_db) = Inr ()"
proof -
  have "has_index transaction_type (objects sample_db)" by (simp add: sample_has)
  from clear_expired_exact [OF sample_ok(1) sample_gpo_of this] show ?thesis by auto
qed

end
