(* ===== verification/Slot_Props.thy ===== *)
theory Slot_Props
  imports Block_Props
begin

section \<open>Slots: properties\<close>

text \<open>
  The claims about \<open>get_slot_time\<close> and \<open>get_slot_at_time\<close>: the slots are the intervals of
  \<open>NEWS_BLOCK_INTERVAL\<close> seconds after the one of the head block.
\<close>

text \<open>The start of the slot of the head block; before the first block, the genesis time.\<close>

definition slot_base :: "global_property \<Rightarrow> nat" where
  "slot_base g = (if head_block_num_of g = 0 then unat (gp_time g) else unat (gp_time g) div 3 * 3)"

lemma slot_time_nat:
  assumes "0 < n" and "slot_base g + 3 * unat n < 2 ^ 32"
  shows "unat (slot_time g n) = slot_base g + 3 * unat n"
proof -
  have w: "unat (word_of_nat a + n * word_of_nat 3 :: u32) = a + 3 * unat n" if "a + 3 * unat n < 2 ^ 32" for a
  proof -
    have "word_of_nat a + n * word_of_nat 3 = (word_of_nat (a + 3 * unat n) :: u32)" by simp
    then show ?thesis using that by (simp only: unat_small)
  qed
  from assms(1) have "n \<noteq> 0" by auto
  with w [of "unat (gp_time g)"] w [of "unat (gp_time g) div 3 * 3"] assms(2) show ?thesis
    unfolding slot_time_def slot_base_def news_block_interval_def by (auto split: if_splits)
qed

lemma slot_of_nat:
  assumes "0 < unat first"
  shows "unat (slot_of first t) = (if unat t < unat first then 0 else (unat t - unat first) div 3 + 1)"
proof -
  have "unat t < 2 ^ 32" using unat_bound [of t] by simp
  then have "(unat t - unat first) div 3 + 1 < 2 ^ 32" using assms by simp
  then have "unat (word_of_nat ((unat t - unat first) div 3 + 1) :: u32) = (unat t - unat first) div 3 + 1"
    by (rule unat_small)
  then show ?thesis
    unfolding slot_of_def news_block_interval_def word_less_nat_alt by (simp del: of_nat_add of_nat_Suc)
qed

lemma slot_time_run: "gpo_of d g \<Longrightarrow> get_slot_time n d = (Inr (if n = 0 then 0 else slot_time g n), d)"
  by (simp add: get_slot_time_def bnd_def get_gpo_run ret_def)

lemma slot_at_run: "gpo_of d g \<Longrightarrow> get_slot_at_time t d = (Inr (slot_of (slot_time g 1) t), d)"
  by (simp add: get_slot_at_time_def bnd_def slot_time_run ret_def)

text \<open>
  The slot of a time. As long as the first slot does not pass the end of 32-bit time, a time
  before the first slot is in slot 0, and any other time is in the one slot whose interval of three
  seconds holds it; nothing is written.
\<close>

theorem slot_bracket:
  assumes "gpo_of d g" and "slot_base g + 3 < 2 ^ 32"
  shows "\<exists>n. get_slot_at_time t d = (Inr n, d) \<and>
    (if unat t < slot_base g + 3 then n = 0
     else slot_base g + 3 * unat n \<le> unat t \<and> unat t < slot_base g + 3 * (unat n + 1))"
proof -
  let ?n = "slot_of (slot_time g 1) t"
  have f: "unat (slot_time g 1) = slot_base g + 3" using slot_time_nat [of 1 g] assms(2) by simp
  then have n: "unat ?n = (if unat t < slot_base g + 3 then 0 else (unat t - (slot_base g + 3)) div 3 + 1)"
    using slot_of_nat [of "slot_time g 1" t] by simp
  show ?thesis
  proof (cases "unat t < slot_base g + 3")
    case True
    with n have "?n = 0" by (simp add: unat_eq_zero)
    with True slot_at_run [OF assms(1)] show ?thesis by simp
  next
    case False
    with n have "slot_base g + 3 * unat ?n \<le> unat t" "unat t < slot_base g + 3 * (unat ?n + 1)" by auto
    with False slot_at_run [OF assms(1)] show ?thesis by simp
  qed
qed

theorem slot_bracket_witness: "\<exists>n. get_slot_at_time 20 sample_db = (Inr n, sample_db)"
  using slot_bracket [OF sample_gpo_of, of 20] by (auto simp: slot_base_def sample_gpo_def)

text \<open>
  The slot of the time of a slot is that slot, for every slot whose time is representable in
  32 bits; slot 0 has the time 0, which lies in slot 0.
\<close>

theorem slot_round_trip:
  assumes "gpo_of d g" and "slot_base g + 3 * unat (max 1 n) < 2 ^ 32"
  shows "bnd (get_slot_time n) get_slot_at_time d = (Inr n, d)"
proof (cases "n = 0")
  case True
  have "slot_base g + 3 < 2 ^ 32" using assms(2) True by simp
  then have "0 < unat (slot_time g 1)" using slot_time_nat [of 1 g] by simp
  then have "slot_of (slot_time g 1) 0 = 0" by (simp add: slot_of_def word_less_nat_alt)
  with True show ?thesis by (simp add: bnd_def slot_time_run [OF assms(1)] slot_at_run [OF assms(1)])
next
  case False
  then have "unat n \<noteq> 0" by (simp add: unat_eq_zero)
  then have "1 \<le> unat n" by simp
  then have p: "0 < n" "1 \<le> n" "max 1 n = n"
    by (simp_all add: word_less_nat_alt word_le_nat_alt max_def)
  then have n: "unat (slot_time g n) = slot_base g + 3 * unat n" using slot_time_nat assms(2) by simp
  have "1 \<le> unat n" using p(2) by (simp add: word_le_nat_alt)
  then have f: "unat (slot_time g 1) = slot_base g + 3" using slot_time_nat [of 1 g] assms(2) p(3) by simp
  have "unat (slot_of (slot_time g 1) (slot_time g n)) = unat n"
    using slot_of_nat [of "slot_time g 1" "slot_time g n"] f n \<open>1 \<le> unat n\<close> by auto
  then have "slot_of (slot_time g 1) (slot_time g n) = n" by (simp only: word_unat_eq_iff)
  with False show ?thesis by (simp add: bnd_def slot_time_run [OF assms(1)] slot_at_run [OF assms(1)])
qed

theorem slot_round_trip_witness: "bnd (get_slot_time 7) get_slot_at_time sample_db = (Inr 7, sample_db)"
  by (rule slot_round_trip [OF sample_gpo_of]) (simp add: slot_base_def sample_gpo_def max_def)

end
