(* ===== verification/Accept_Props.thy ===== *)
theory Accept_Props
  imports Block_Props
begin

section \<open>Accepting a block\<close>

text \<open>
  When a block without transactions is accepted: the chain can go on from every state in which its
  tables exist.
\<close>

text \<open>The step at the first block does nothing later.\<close>

lemma genesis_later: "block_num b \<noteq> 1 \<Longrightarrow> genesis_step b d = (Inr (), d)"
  by (simp add: genesis_step_def ret_def)

lemma summary_run:
  assumes ok: "chain_ok d" and s: "stored d block_summary_type (unat (block_num b AND 0xFFFF)) (Block_Summary i)"
  shows "\<exists>e. create_block_summary cr b d = (Inr (), e) \<and> chain_ok e \<and> only_type block_summary_type d e"
proof -
  let ?f = "\<lambda>x. rbind (as_summary x) (\<lambda>_. Inr (Block_Summary (block_id cr b)))"
  have "\<exists>e. on_objects (db_modify chain_clash block_summary_type (unat (block_num b AND 0xFFFF)) ?f) d = (Inr (), e) \<and>
      e = d\<lparr>objects := objects e\<rparr> \<and> chain_ok e \<and> store_step d e \<and>
      stored e block_summary_type (unat (block_num b AND 0xFFFF)) (Block_Summary (block_id cr b)) \<and>
      only_type block_summary_type d e"
  proof (rule modify_run [OF ok s])
    fix v w assume "?f v = Inr w"
    then show "same_key same_unique_key v w"
      by (cases v) (auto simp: as_summary_def same_key_def split: chain_object.splits)
  qed (simp_all add: as_summary_def)
  moreover have "get_object as_summary block_summary_type (unat (block_num b AND 0xFFFF)) d = (Inr i, d)"
    by (rule get_object_run [OF s]) (simp add: as_summary_def)
  ultimately show ?thesis by (auto simp: create_block_summary_def capture_def seq_def bnd_def Let_def)
qed

text \<open>The tables and objects the steps of a block reach for.\<close>

definition tables :: "signed_block \<Rightarrow> chain_db \<Rightarrow> bool" where
  "tables b d \<longleftrightarrow> has_index transaction_type (objects d) \<and> (\<exists>h. hardfork_of d h) \<and>
     (\<exists>i. stored d block_summary_type (unat (block_num b AND 0xFFFF)) (Block_Summary i))"

lemma tables_other:
  assumes "only_type t d e" and "t = global_property_type"
  shows "tables b e = tables b d"
  using assms stored_other [OF assms(1)]
  by (simp add: tables_def has_index_contents only_type_def)

lemma tail_accepts:
  assumes ok: "chain_ok d" and g: "gpo_of d g" and tab: "tables b d"
  shows "\<exists>e. seq (create_block_summary cr b) (seq clear_expired_transactions process_hardforks) d = (Inr (), e)"
proof -
  from tab obtain i h where i: "stored d block_summary_type (unat (block_num b AND 0xFFFF)) (Block_Summary i)"
    and h: "hardfork_of d h" and has: "has_index transaction_type (objects d)" by (auto simp: tables_def)
  from summary_run [OF ok i] obtain d1 where
    d1: "create_block_summary cr b d = (Inr (), d1)" "chain_ok d1" "only_type block_summary_type d d1" by blast
  have p: "gpo_of d1 g" "hardfork_of d1 h" "has_index transaction_type (objects d1)"
    using g h has stored_other [OF d1(3)] d1(3) by (simp_all add: has_index_contents only_type_def)
  from remove_expired_run [OF d1(2) p(1,3) order_refl] obtain d2 where
    d2: "clear_expired_transactions d1 = (Inr (), d2)" "chain_step d1 d2" "only_type transaction_type d1 d2"
    by (auto simp: clear_expired_transactions_def bnd_def gets_def)
  have q: "chain_ok d2" "gpo_of d2 g" "hardfork_of d2 h"
    using chain_step_facts [OF d2(2) d1(2)] p stored_other [OF d2(3)] by auto
  have "2 - unat (last_hardfork h) \<le> unat news_hardfork_num" by (simp add: news_hardfork_num_def)
  from process_loop_run [OF q(1,3,2) this] obtain e where "process_hardforks d2 = (Inr (), e)"
    by (auto simp: process_hardforks_def capture_def)
  with d1(1) d2(1) show ?thesis by (simp add: seq_def bnd_def)
qed

lemma middle_accepts:
  assumes ok: "chain_ok d" and g: "gpo_of d g" and ne: "earlier (objects d) \<noteq> []"
    and rev: "int (unat (last_irreversible_block_num (new_irreversible (block_applied (crypto_of env) b g)))) < db_revision (objects d)"
    and tab: "tables b d" and slot: "\<not> slot_refused env b g"
    and log: "skipped skip_block_log d \<or>
      last_irreversible_block_num (new_irreversible (block_applied (crypto_of env) b g)) \<le> log_head_num d"
  shows "\<exists>e. seq (update_global_property_object env b) (seq (update_last_irreversible_block cr)
       (seq (create_block_summary cr b) (seq clear_expired_transactions process_hardforks))) d = (Inr (), e)"
proof -
  let ?g = "block_applied (crypto_of env) b g"
  from update_gpo_run [OF ok g slot] obtain d1 where
    d1: "update_global_property_object env b d = (Inr (), d1)" "chain_ok d1" "store_step d d1" "gpo_of d1 ?g"
      "only_type global_property_type d d1" "d1 = d\<lparr>objects := objects d1\<rparr>" by blast
  have p1: "past_kept d d1" by (rule store_within_past [OF d1(3)])
  then have e1: "earlier (objects d1) \<noteq> []"
    "int (unat (last_irreversible_block_num (new_irreversible ?g))) < db_revision (objects d1)"
    using ok ne rev by (auto simp: past_kept_def)
  have "skipped skip_block_log d1 = skipped skip_block_log d" "log_head_num d1 = log_head_num d"
    by (subst d1(6), simp add: skipped_def) (subst d1(6), simp add: log_head_num_def)
  with irreversible_accepts [OF d1(2,4) e1] log obtain d2 where
    d2: "update_last_irreversible_block cr d1 = (Inr (), d2)" "chain_ok d2" "gpo_of d2 (new_irreversible ?g)"
      "only_type global_property_type d1 d2" by auto
  have "tables b d2" using tab tables_other [OF d1(5)] tables_other [OF d2(4)] by simp
  from tail_accepts [OF d2(2,3) this] d1(1) d2(1) show ?thesis by (simp add: seq_def bnd_def)
qed

lemma apply_empty_block:
  assumes ok: "chain_ok d" and g: "gpo_of d g" and ne: "earlier (objects d) \<noteq> []"
    and rev: "int (unat (last_irreversible_block_num (new_irreversible (block_applied (crypto_of env) b g)))) <
      db_revision (objects d)"
    and tab: "tables b d" and first: "block_num b \<noteq> 1" and none: "transactions b = []"
    and log: "skip AND skip_block_log \<noteq> 0 \<or>
      last_irreversible_block_num (new_irreversible (block_applied (crypto_of env) b g)) \<le> log_head_num d"
  shows "fst (apply_block env b skip d) =
    (if skip AND skip_merkle_check = 0 \<and> transaction_merkle_root b \<noteq> replicate 32 0 then Inl Fc_Assert
     else if slot_refused env b g then Inl Undefined else Inr ())"
proof -
  let ?cr = "crypto_of env" and ?d = "d\<lparr>skip_flags := skip, current_block_num := block_num b\<rparr>"
  let ?mid = "seq (update_global_property_object env b) (seq (update_last_irreversible_block ?cr)
       (seq (create_block_summary ?cr b) (seq clear_expired_transactions process_hardforks)))"
  have "chain_ok ?d" "gpo_of ?d g" "tables b ?d" "skipped skip_block_log ?d \<longleftrightarrow> skip AND skip_block_log \<noteq> 0"
    "log_head_num ?d = log_head_num d"
    using ok g tab by (simp_all add: chain_ok_def stored_def tables_def skipped_def log_head_num_def)
  note ready = this
  have e: "\<exists>e. ?mid ?d = ((if slot_refused env b g then Inl Undefined else Inr ()), e)"
  proof (cases "slot_refused env b g")
    case True
    from update_gpo_refused [OF ready(2) this] True show ?thesis by (simp add: seq_def bnd_def)
  next
    case False
    with middle_accepts [of ?d g env b] ready ne rev log show ?thesis by auto
  qed
  have m: "check_merkle ?cr b s =
      ((if transaction_merkle_root b = replicate 32 0 then Inr () else Inl Fc_Assert), s)" for s
    by (simp add: check_merkle_def caculate_merkle_root_def none check_def ret_def raise_def eq_commute)
  have "fst (apply_block_body env b skip (d\<lparr>skip_flags := skip\<rparr>)) =
    (if skip AND skip_merkle_check = 0 \<and> transaction_merkle_root b \<noteq> replicate 32 0 then Inl Fc_Assert
     else if slot_refused env b g then Inl Undefined else Inr ())"
    using e
    by (auto simp: apply_block_body_def Let_def capture_def seq_def bnd_def update_def genesis_later [OF first]
        m none ret_def std_exception_def)
  then show ?thesis
    by (auto simp: apply_block_def capture_def seq_def bnd_def with_skip_flags_def on_exit_def update_def
        std_exception_def split: prod.splits sum.splits if_splits)
qed

lemma started_contents: "chain_ok d \<Longrightarrow> contents (objects (started d)) = contents (objects d)"
  using start_layer [of chain_clash "objects d"]
  by (simp add: started_def start_count_eq contents_count chain_ok_def store_ok_def)

lemma empty_block_run:
  assumes h: "handlers_ok env" and inv: "chain_inv d g" and num: "block_num b = head_block_num_of g + 1"
    and small: "unat (head_block_num_of g) + 1 < 2 ^ 32" and later: "head_block_num_of g \<noteq> 0"
    and tab: "tables b d" and none: "transactions b = []"
    and log: "skip AND skip_block_log \<noteq> 0 \<or>
      last_irreversible_block_num (new_irreversible (block_applied (crypto_of env) b g)) \<le> log_head_num d"
  shows "fst (pushing_session (apply_block env b skip) d) =
    (if skip AND skip_merkle_check = 0 \<and> transaction_merkle_root b \<noteq> replicate 32 0 then Inl Fc_Assert
     else if slot_refused env b g then Inl Undefined else Inr ())"
proof -
  have ok: "chain_ok d" using inv by (simp add: chain_inv_def)
  have "tables b (started d)"
    using tab by (simp add: tables_def has_index_contents stored_contents started_contents [OF ok])
  moreover have "block_num b \<noteq> 1" using num later by simp
  moreover have "log_head_num (started d) = log_head_num d" by (simp add: log_head_num_def started_def)
  ultimately have "fst (apply_block env b skip (started d)) =
    (if skip AND skip_merkle_check = 0 \<and> transaction_merkle_root b \<noteq> replicate 32 0 then Inl Fc_Assert
     else if slot_refused env b g then Inl Undefined else Inr ())"
    using log none by (intro apply_empty_block [where g = g] started_ready [OF inv num small]) simp_all
  moreover obtain r e where run: "pushing_session (apply_block env b skip) d = (r, e)"
    by (cases "pushing_session (apply_block env b skip) d")
  ultimately show ?thesis using block_session [OF h inv num small run] by simp
qed

lemma sample_tables:
  "tables sample_block sample_db"
  "last_irreversible_block_num (new_irreversible (block_applied c sample_block sample_gpo)) = 0"
proof -
  have n: "block_num sample_block = 2" using sample_num by (simp add: sample_gpo_def)
  have "(2 :: u32) AND 0xFFFF = 2" by simp
  then show "tables sample_block sample_db"
    using sample_stored [of 1 2] sample_hardfork_of
    by (auto simp: tables_def sample_has n sample_rows_def)
  show "last_irreversible_block_num (new_irreversible (block_applied c sample_block sample_gpo)) = 0"
    by (simp add: new_irreversible_def block_applied_def n irreversible_block_num_def sample_gpo_def)
qed

lemma sample_slot: "\<not> slot_refused env sample_block sample_gpo"
  by (simp add: slot_refused_def sample_block_def sample_gpo_def slot_time_def news_block_interval_def)

lemma sample_accepted: "fst (pushing_session (apply_block sample_env sample_block 0) sample_db) = Inr ()"
  using empty_block_run [OF sample_ok(3) sample_chain_inv sample_num, of 0] sample_tables sample_slot
  by (simp add: sample_gpo_def sample_block_def)

text \<open>
  C12: What an empty block can be refused for. On a chain past its first block whose tables exist, and
  provided that no irreversible block is waiting for the log (or the log is skipped), the next
  block without transactions is refused if its Merkle root is not zero and is looked at. In a build that checks
  assertions the process ends when the time of the block is before the slot after the head. In
  every other case the block is accepted; in a build without assertions that includes a block whose time is not
  after the head's, for nothing else looks at the time.
\<close>

theorem empty_block_accepted:
  assumes h: "handlers_ok env" and inv: "chain_inv d g" and num: "block_num b = head_block_num_of g + 1"
    and small: "unat (head_block_num_of g) + 1 < 2 ^ 32" and later: "head_block_num_of g \<noteq> 0"
    and tab: "tables b d" and none: "transactions b = []"
    and log: "skip AND skip_block_log \<noteq> 0 \<or>
      last_irreversible_block_num (new_irreversible (block_applied (crypto_of env) b g)) \<le> log_head_num d"
  shows "fst (pushing_session (apply_block env b skip) d) =
    (if skip AND skip_merkle_check = 0 \<and> transaction_merkle_root b \<noteq> replicate 32 0 then Inl Fc_Assert
     else if slot_refused env b g then Inl Undefined else Inr ())"
  by (rule empty_block_run [OF assms])

theorem empty_block_accepted_witness:
  "fst (pushing_session (apply_block sample_env (sample_block\<lparr>timestamp := 2\<rparr>) 0) sample_db) = Inl Undefined \<and>
   fst (pushing_session (apply_block (sample_env\<lparr>asserts_on := False\<rparr>) (sample_block\<lparr>timestamp := 2\<rparr>) 0) sample_db) = Inr ()"
proof -
  let ?b = "sample_block\<lparr>timestamp := 2\<rparr>"
  have "block_num ?b = block_num sample_block" by (simp add: block_num_def)
  moreover have "slot_refused env ?b sample_gpo \<longleftrightarrow> asserts_on env" for env
    by (simp add: slot_refused_def sample_gpo_def slot_time_def news_block_interval_def)
  moreover have "handlers_ok (sample_env\<lparr>asserts_on := False\<rparr>)" using sample_ok(3) by (simp add: handlers_ok_def)
  ultimately show ?thesis
    using empty_block_accepted [OF _ sample_chain_inv, of _ ?b 0] sample_ok(3) sample_tables sample_num
    by (simp add: sample_gpo_def sample_block_def tables_def new_irreversible_def block_applied_def irreversible_block_num_def
        sample_env_def)
qed

end
