(* ===== verification/Push_Props.thy ===== *)
theory Push_Props
  imports Accept_Props Push_Block
begin

section \<open>Popping and producing blocks: properties\<close>

text \<open>
  The claims about \<open>pop_block\<close>, about a block pushed and popped again, and about the block a
  producer builds.
\<close>

subsection \<open>Popping\<close>

text \<open>Looking a block up by its id touches at most the streams of the log.\<close>

lemma fetch_by_id_frame:
  assumes "fetch_block_by_id cr i d = (r, e)"
  shows "\<exists>l. e = d\<lparr>blog := l\<rparr>"
proof -
  have "\<exists>l. e = d\<lparr>blog := l\<rparr>" if "on_log m d = (q, e)" for m q e
    using that by (auto simp: on_log_def split: prod.splits)
  moreover have "\<exists>l. d = d\<lparr>blog := l\<rparr>" by (intro exI [of _ "blog d"]) simp
  ultimately show ?thesis using assms
    by (auto simp: fetch_block_by_id_def capture_def bnd_def gets_def ret_def split: prod.splits sum.splits option.splits)
qed

text \<open>What a popped block leaves, given the contents \<open>a\<close> below it.\<close>

type_synonym layers = "nat \<Rightarrow> chain_object snap option"

definition popped ::
    "crypto \<Rightarrow> global_property \<Rightarrow> layers \<Rightarrow> layers list \<Rightarrow> chain_db \<Rightarrow> chain_db \<Rightarrow> bool" where
  "popped cr g a hs d e \<longleftrightarrow>
     contents (objects e) = a \<and> earlier (objects e) = hs \<and> db_revision (objects e) = db_revision (objects d) - 1 \<and>
     (\<exists>h p b. fork_head (fork_db d) = Some h \<and> lock_prev (pinned d) (fork_db d) h = Some p \<and>
        fork_db e = (fork_db d)\<lparr>fork_head := Some p\<rparr> \<and>
        fst (fetch_block_by_id cr (head_block_id_of g) d) = Inr (Some b) \<and>
        popped_tx e = transactions b @ popped_tx d)"

lemma pop_found:
  assumes ok: "chain_ok d" and h: "earlier (objects d) = a # hs" and r: "fst (fetch_block_by_id cr (head_block_id_of g) d) = Inr (Some b)"
    and d1: "d1 = d\<lparr>blog := l\<rparr>"
    and run: "seq (\<lambda>d. on_fork_db (fork_pop_block (pinned d)) d)
          (seq (on_objects (db_undo chain_clash))
               (update (\<lambda>d. d\<lparr>popped_tx := transactions b @ popped_tx d\<rparr>))) d1 = (q, e)"
  shows "chain_ok e \<and> skip_flags e = skip_flags d \<and> pending_trx e = pending_trx d \<and>
    (case q of
       Inl x \<Rightarrow> objects e = objects d \<and> fork_db e = fork_db d \<and> popped_tx e = popped_tx d
     | Inr _ \<Rightarrow> popped cr g a hs d e)"
proof (cases "\<exists>k p. fork_head (fork_db d) = Some k \<and> lock_prev (pinned d) (fork_db d) k = Some p")
  case False
  then have "fork_pop_block (pinned d) (fork_db d) = (Inl Fc_Assert, fork_db d)"
    by (auto simp: fork_pop_block_def split: option.splits)
  with run have "q = Inl Fc_Assert \<and> e = d\<lparr>blog := l\<rparr>"
    by (simp add: seq_def bnd_def on_fork_db_def d1)
  with ok show ?thesis by (simp add: chain_ok_def)
next
  case True
  then obtain k p where kp: "fork_head (fork_db d) = Some k" "lock_prev (pinned d) (fork_db d) k = Some p" by blast
  have st: "store_ok (objects d)" using ok by (simp add: chain_ok_def)
  from undo_store [OF st h] obtain c where
    c: "db_undo chain_clash (objects d) = (Inr (), c)" "store_ok c" "contents c = a" "earlier c = hs"
      "db_revision c = db_revision (objects d) - 1" by blast
  from run have "q = Inr ()"
    "e = d1\<lparr>fork_db := (fork_db d)\<lparr>fork_head := Some p\<rparr>, objects := c, popped_tx := transactions b @ popped_tx d\<rparr>"
    using kp c(1) by (simp_all add: seq_def bnd_def on_fork_db_def fork_pop_block_def d1 on_objects_def update_def)
  with c kp r ok show ?thesis by (simp add: popped_def chain_ok_def d1)
qed

lemma pop_run:
  assumes ok: "chain_ok d" and g: "gpo_of d g" and p: "pending_session d = None"
    and h: "earlier (objects d) = a # hs" and run: "pop_block cr d = (r, e)"
  shows "chain_ok e \<and> skip_flags e = skip_flags d \<and> pending_trx e = pending_trx d \<and>
    (case r of
       Inl x \<Rightarrow> objects e = objects d \<and> fork_db e = fork_db d \<and> popped_tx e = popped_tx d
     | Inr _ \<Rightarrow> popped cr g a hs d e)"
proof -
  have pend: "reset_pending d = (Inr (), d)" using p by (simp add: reset_pending_def)
  obtain f d1 where f: "fetch_block_by_id cr (head_block_id_of g) d = (f, d1)"
    by (cases "fetch_block_by_id cr (head_block_id_of g) d")
  from fetch_by_id_frame [OF this] obtain l where d1: "d1 = d\<lparr>blog := l\<rparr>" by blast
  show ?thesis
  proof (cases "\<exists>b. f = Inr (Some b)")
    case False
    with run have "\<exists>x. r = Inl x \<and> e = d1"
      by (auto simp: pop_block_def capture_def seq_def bnd_def pend gpo_queries(3) [OF g] f raise_def
          split: sum.splits option.splits)
    with ok d1 show ?thesis by (auto simp: chain_ok_def)
  next
    case True
    then obtain b where b: "f = Inr (Some b)" by blast
    let ?m = "seq (\<lambda>d. on_fork_db (fork_pop_block (pinned d)) d)
          (seq (on_objects (db_undo chain_clash))
               (update (\<lambda>d. d\<lparr>popped_tx := transactions b @ popped_tx d\<rparr>)))"
    obtain q u where q: "?m d1 = (q, u)" by (cases "?m d1")
    have "capture ?m d1 = (r, e)"
      using run by (simp add: pop_block_def capture_def seq_def bnd_def pend gpo_queries(3) [OF g] f b)
    then have "e = u" "(\<exists>x. q = Inl x) = (\<exists>x. r = Inl x)"
      using q by (auto simp: capture_def split: sum.splits)
    moreover have "fst (fetch_block_by_id cr (head_block_id_of g) d) = Inr (Some b)" using f b by simp
    note pop_found [OF ok h this d1 q]
    ultimately show ?thesis by (cases q; cases r) auto
  qed
qed

text \<open>
  C23: Popping the head block, on every branch. When the pop succeeds, the objects are exactly those
  of the state below the head block (contents, next ids and the older states under it), the
  revision is one less, the fork head has moved to its parent and the transactions of the head
  block stand in front of those to be pushed again. When it fails (the block is not found, or the
  fork database has no parent of its head), objects, fork database and popped transactions
  are as before.
\<close>

theorem pop_restores:
  assumes ok: "chain_ok d" and g: "gpo_of d g" and p: "pending_session d = None"
    and h: "earlier (objects d) = a # hs" and run: "pop_block cr d = (r, e)"
  shows "chain_ok e \<and> skip_flags e = skip_flags d \<and> pending_trx e = pending_trx d \<and>
    (case r of
       Inl x \<Rightarrow> objects e = objects d \<and> fork_db e = fork_db d \<and> popped_tx e = popped_tx d
     | Inr _ \<Rightarrow> popped cr g a hs d e)"
  by (rule pop_run [OF assms])

text \<open>A block on the sample chain under a fork database of two items, the second its head.\<close>

definition sample_forks :: fork_database where
  "sample_forks =
     (let item = (\<lambda>p n i. \<lparr>prev = p, num = n, invalid = False, item_id = i, item_data = sample_block\<rparr>)
      in \<lparr>store = [item None 0 zero_id, item (Some 0) 1 sample_id], links = [0, 1], unlinked_index = [],
          fork_head = Some 1, max_size = 1024\<rparr>)"

definition sample_pushed :: chain_db where
  "sample_pushed = (started sample_db)\<lparr>fork_db := sample_forks\<rparr>"

lemma sample_pushed_facts:
  "chain_ok sample_pushed" "gpo_of sample_pushed sample_gpo" "pending_session sample_pushed = None"
  "earlier (objects sample_pushed) = contents (objects sample_db) # earlier (objects sample_db)"
  "pinned sample_pushed = []" "fork_db sample_pushed = sample_forks"
  using started_past(1,2) [OF sample_ok(1)] started_contents [OF sample_ok(1)] sample_gpo_of
  by (simp_all add: sample_pushed_def chain_ok_def stored_contents)
     (simp_all add: started_def sample_db_def init_hardforks_def new_chain_db_def)

lemma sample_fetch: "fetch_block_by_id demo_crypto sample_id sample_pushed = (Inr (Some sample_block), sample_pushed)"
proof -
  have "zero_id \<noteq> sample_id" by (simp add: zero_id_def sample_id_def numeral_nat)
  then have "fetch_block sample_id sample_forks = Some 1"
    by (simp add: fetch_block_def find_id_def sample_forks_def)
  then show ?thesis
    by (simp add: fetch_block_by_id_def capture_def bnd_def gets_def ret_def sample_pushed_facts)
       (simp add: sample_forks_def)
qed

theorem pop_restores_witness:
  "contents (objects (snd (pop_block demo_crypto sample_pushed))) = contents (objects sample_db)"
proof -
  note s = sample_pushed_facts
  have st: "store_ok (objects sample_pushed)" using s(1) by (simp add: chain_ok_def)
  obtain r e where run: "pop_block demo_crypto sample_pushed = (r, e)" by (cases "pop_block demo_crypto sample_pushed")
  have "lock_prev [] sample_forks 1 = Some 0" "fork_head sample_forks = Some 1"
    by (simp_all add: lock_prev_def alive_def sample_forks_def)
  moreover obtain c where "db_undo chain_clash (objects sample_pushed) = (Inr (), c)"
    using undo_store [OF st s(4)] by blast
  ultimately have "r = Inr ()"
    using run gpo_queries(3) [OF s(2)] sample_fetch
    by (simp add: pop_block_def capture_def seq_def bnd_def reset_pending_def s on_fork_db_def fork_pop_block_def
        on_objects_def update_def sample_gpo_def)
  with pop_restores [OF s(1-4) run] run show ?thesis by (simp add: popped_def)
qed

subsection \<open>A block pushed and popped\<close>

text \<open>The steps of a block leave the session of the pending transactions and the items of the fork database alone.\<close>

definition same_pending :: "chain_db \<Rightarrow> chain_db \<Rightarrow> bool" where
  "same_pending d e \<longleftrightarrow> pending_session e = pending_session d \<and> store (fork_db e) = store (fork_db d)"

lemma set_max_size_store [simp]: "store (set_max_size n f) = store f"
  by (simp add: set_max_size_def Let_def split: option.split)

interpretation pd: effect same_pending
  by unfold_locales (simp_all add: same_pending_def)

lemma pending_parts:
  "within same_pending (on_objects m)" "within same_pending (on_log l)"
  "(\<And>g. store (snd (f g)) = store g) \<Longrightarrow> within same_pending (on_fork_db f)"
  by (auto simp: within_def on_objects_def on_log_def on_fork_db_def same_pending_def split: prod.splits) (metis snd_conv)

lemma pending_step: "within chain_step m \<Longrightarrow> within same_pending m"
  by (auto simp: within_def chain_step_def same_pending_def frame_eq)

lemma pending_fields: "(\<And>d. pending_session (f d) = pending_session d \<and> fork_db (f d) = fork_db d) \<Longrightarrow> within same_pending (update f)"
  by (rule pd.upd) (simp add: same_pending_def)

lemmas pending_intros = pd.compose pending_parts pending_fields

lemma pending_queries: "within same_pending get_global_property_object" "within same_pending head_block_num"
  "within same_pending head_block_time" "within same_pending get_hardfork_property_object"
  "within same_pending (get_slot_at_time t)" "within same_pending (get_object p k i)"
  unfolding get_global_property_object_def head_block_num_def head_block_time_def get_hardfork_property_object_def
    get_slot_at_time_def get_slot_time_def get_object_def
  by (intro pd.compose)+

lemma pending_hardforks: "within same_pending (apply_hardfork n)" "within same_pending (plan_hardfork n)"
  "within same_pending (process_loop k)" "within same_pending (genesis_step b)"
proof -
  show a: "within same_pending (apply_hardfork n)" for n
    unfolding apply_hardfork_def modify_hardfork_def by (intro pending_intros pending_queries)
  show p: "within same_pending (plan_hardfork n)" for n
    unfolding plan_hardfork_def modify_hardfork_def by (intro pending_intros pending_queries)
  show "within same_pending (process_loop k)" for k
  proof (induction k)
    case 0
    then show ?case by (subst process_loop.simps) (auto intro!: pending_intros pending_queries a)
  next
    case (Suc k)
    then show ?case by (subst process_loop.simps) (auto intro!: pending_intros pending_queries a)
  qed
  show "within same_pending (genesis_step b)"
    unfolding genesis_step_def set_hardfork_def by (intro pending_intros pending_queries a p)
qed

lemma pending_block:
  assumes "handlers_ok env"
  shows "within same_pending (apply_block env b skip)"
proof -
  have lb: "within same_pending (log_blocks cr k n)" for cr k n
    by (induction k arbitrary: n) (auto intro!: pending_intros)
  have "within same_pending (apply_block_body env b skip)"
    unfolding apply_block_body_def Let_def check_merkle_def update_global_property_object_def
      update_last_irreversible_block_def create_block_summary_def process_hardforks_def modify_global_def
    by (intro pending_intros pending_queries pending_hardforks lb pending_step [OF clear_expired_step]
        pending_step [OF apply_transaction_step] assms) (simp_all add: update_def)
  then have "within same_pending (with_skip_flags skip (apply_block_body env b skip))"
    by (simp add: within_def with_skip_flags_def on_exit_def same_pending_def split: prod.split)
       (metis chain_db.select_convs(2,7) chain_db.surjective chain_db.update_convs(5) snd_conv)
  then show ?thesis
    unfolding apply_block_def
    by (intro pending_intros) (simp_all add: flush_step_def Let_def)
qed

lemma pushed_pending:
  assumes h: "handlers_ok env" and inv: "chain_inv d g" and num: "block_num b = head_block_num_of g + 1"
    and small: "unat (head_block_num_of g) + 1 < 2 ^ 32"
    and run: "pushing_session (apply_block env b skip) d = (r, e)"
  shows "pending_session e = pending_session d" "store (fork_db e) = store (fork_db d)"
proof -
  let ?u = "snd (apply_block env b skip (started d))"
  have "same_pending (started d) ?u" using pending_block [OF h] by (simp add: within_def)
  then have u: "pending_session ?u = pending_session d" "store (fork_db ?u) = store (fork_db d)"
    by (simp_all add: same_pending_def started_def)
  have "e = ?u\<lparr>objects := objects e\<rparr>"
    using block_session [OF h inv num small run] by blast
  then have "pending_session e = pending_session ?u" "fork_db e = fork_db ?u"
    by (metis chain_db.select_convs(2,7) chain_db.surjective chain_db.update_convs(1))+
  with u show "pending_session e = pending_session d" "store (fork_db e) = store (fork_db d)" by simp_all
qed

text \<open>
  C9: A block that was pushed and is popped again leaves the objects as they were: the contents are
  those before the block, and the chain invariant holds again for the global properties
  before it. A pop that fails leaves the pushed state.
\<close>

theorem push_pop_round_trip:
  assumes h: "handlers_ok env" and inv: "chain_inv d g" and num: "block_num b = head_block_num_of g + 1"
    and small: "unat (head_block_num_of g) + 1 < 2 ^ 32"
    and push: "pushing_session (apply_block env b skip) d = (Inr (), e)" and none: "pending_session d = None"
    and pop: "pop_block cr e = (r, f)"
  shows "case r of
      Inl x \<Rightarrow> objects f = objects e
    | Inr _ \<Rightarrow> contents (objects f) = contents (objects d) \<and> chain_inv f g \<and>
        (\<exists>k. earlier (objects f) = take k (earlier (objects d)))"
proof -
  let ?g = "new_irreversible (block_applied (crypto_of env) b g)"
  from block_session [OF h inv num small push] obtain k where
    e: "chain_inv e ?g" "earlier (objects e) = contents (objects d) # take k (earlier (objects d))" by auto
  then have ok: "chain_ok e" "gpo_of e ?g" by (simp_all add: chain_inv_def)
  have p: "pending_session e = None" using pushed_pending(1) [OF h inv num small push] none by simp
  note res = pop_run [OF ok p e(2) pop]
  show ?thesis
  proof (cases r)
    case (Inl x)
    with res show ?thesis by simp
  next
    case (Inr u)
    with res have f: "chain_ok f" "contents (objects f) = contents (objects d)"
      "earlier (objects f) = take k (earlier (objects d))" "db_revision (objects f) = db_revision (objects e) - 1"
      by (simp_all add: popped_def)
    have "gpo_of f g" using inv f(2) stored_same [of f _ d] by (simp add: chain_inv_def)
    moreover have "head_block_num_of ?g = block_num b"
      by (simp add: new_irreversible_def block_applied_def)
    then have "db_revision (objects e) = db_revision (objects d) + 1"
      using e(1) inv started_ready(6) [OF inv num small]
      by (simp add: chain_inv_def)
    ultimately show ?thesis using Inr f inv by (auto simp: chain_inv_def)
  qed
qed

theorem push_pop_round_trip_witness:
  "case pop_block demo_crypto (snd (pushing_session (apply_block sample_env sample_block 0) sample_db)) of
     (r, f) \<Rightarrow>
       (case r of
          Inl x \<Rightarrow> objects f = objects (snd (pushing_session (apply_block sample_env sample_block 0) sample_db))
        | Inr _ \<Rightarrow> contents (objects f) = contents (objects sample_db))"
proof -
  obtain q e where e: "pushing_session (apply_block sample_env sample_block 0) sample_db = (q, e)"
    by (cases "pushing_session (apply_block sample_env sample_block 0) sample_db")
  with sample_accepted have q: "q = Inr ()" by simp
  obtain r f where f: "pop_block demo_crypto e = (r, f)" by (cases "pop_block demo_crypto e")
  have "unat (head_block_num_of sample_gpo) + 1 < 2 ^ 32" "pending_session sample_db = None"
    by (simp_all add: sample_gpo_def sample_db_def init_hardforks_def new_chain_db_def)
  from push_pop_round_trip [OF sample_ok(3) sample_chain_inv sample_num this(1) e [unfolded q] this(2) f] f e
  show ?thesis by (auto split: sum.splits)
qed

end
