(* ===== verification/Produce_Props.thy ===== *)
theory Produce_Props
  imports Push_Props "HOL-Library.Sublist"
begin

section \<open>Producing a block: properties\<close>

text \<open>
  The claim about the block that \<open>generate_block\<close> builds from the pending transactions, and the
  size of packed vectors it rests on.
\<close>

subsection \<open>Sizes\<close>

lemma varint_length:
  "unat v < 128 ^ Suc k \<Longrightarrow> sum_list (map length (put_varint (v :: u64))) \<le> Suc k"
proof (induction k arbitrary: v)
  case (0 v)
  have "unat (drop_bit 7 v) = unat v div 128"
    by (simp add: unat_drop_bit_eq del: drop_bit_eq_div) (simp add: drop_bit_eq_div)
  with 0 have "unat (drop_bit 7 v) = 0" by simp
  then have "drop_bit 7 v = 0" by (simp only: unat_eq_zero)
  then show ?case by (subst put_varint.simps) (simp add: Let_def)
next
  case (Suc k v)
  have "unat (drop_bit 7 v) = unat v div 128"
    by (simp add: unat_drop_bit_eq del: drop_bit_eq_div) (simp add: drop_bit_eq_div)
  with Suc.prems have "unat (drop_bit 7 v) < 128 ^ Suc k" by (simp add: less_mult_imp_div_less)
  from Suc.IH [OF this] show ?case by (subst put_varint.simps) (simp add: Let_def)
qed

lemma vector_size:
  assumes "length xs \<le> 3000"
  shows "pack_size (c_vector c) xs \<le> 2 + sum_list (map (pack_size c) xs)"
proof -
  have "unat (ucast (word_of_nat (length xs) :: u32) :: u64) = length xs"
    using assms by (simp add: unsigned_ucast_eq unsigned_of_nat take_bit_nat_eq_self take_bit_of_nat)
  then have "sum_list (map length (put_size xs)) \<le> Suc (Suc 0)"
    using varint_length [of "ucast (word_of_nat (length xs) :: u32)" 1] assms
    by (simp add: put_size_def c_unsigned_int_def)
  moreover have "sum_list (map length (concat (map (c_put c) xs))) = sum_list (map (pack_size c) xs)"
    by (induction xs) (simp_all add: pack_size_def)
  ultimately show ?thesis by (simp add: pack_size_def c_vector_def)
qed

subsection \<open>The transactions taken\<close>

lemma take_pending_run:
  assumes "take_pending env w ts used count acc d = (Inr out, e)"
  shows "\<exists>new. out = acc @ new \<and> subseq new ts \<and> length new \<le> count \<and> (\<forall>t \<in> set new. w \<le> expiration t) \<and>
    (new = [] \<or> used + sum_list (map (pack_size c_signed_transaction) new) < news_max_block_size)"
  using assms
proof (induction ts arbitrary: used count acc d)
  case Nil
  then show ?case by (simp add: ret_def)
next
  case (Cons t ts)
  let ?size = "pack_size c_signed_transaction t"
  show ?case
  proof (cases "expiration t < w")
    case True
    with Cons.prems Cons.IH [of used count acc d] show ?thesis by auto
  next
    case fresh: False
    show ?thesis
    proof (cases "count = 0 \<or> used + ?size \<ge> news_max_block_size")
      case True
      with fresh Cons.prems have "out = acc"
        by (cases "count = 0") (auto simp: ret_def Let_def)
      then show ?thesis by simp
    next
      case fits: False
      with fresh Cons.prems obtain ok d1 where
        next_step: "(if ok then take_pending env w ts (used + ?size) (count - 1) (acc @ [t])
                else take_pending env w ts used count acc) d1 = (Inr out, e)"
        by (auto simp: Let_def bnd_Inr_iff)
      show ?thesis
      proof (cases ok)
        case False
        with next_step Cons.IH [of used count acc d1] show ?thesis by auto
      next
        case True
        with next_step Cons.IH [of "used + ?size" "count - 1" "acc @ [t]" d1] obtain new where
          new: "out = acc @ [t] @ new" "subseq new ts" "length new \<le> count - 1" "\<forall>t \<in> set new. w \<le> expiration t"
            "new = [] \<or> used + ?size + sum_list (map (pack_size c_signed_transaction) new) < news_max_block_size"
          by auto
        then show ?thesis
          using fresh fits by (intro exI [of _ "t # new"]) auto
      qed
    qed
  qed
qed

lemma pending_kept:
  "reset_pending d = (q, e) \<Longrightarrow> pending_trx e = pending_trx d"
  "open_pending d = (q, e) \<Longrightarrow> pending_trx e = pending_trx d"
  by (auto simp: reset_pending_def open_pending_def destroy_def on_objects_def bnd_def start_session_def update_def
      split: option.splits prod.splits sum.splits)

lemma root_of_transactions:
  "transactions b = transactions c \<Longrightarrow> caculate_merkle_root cr b = caculate_merkle_root cr c"
  by (simp add: caculate_merkle_root_def)

lemma generate_parts:
  assumes "generate_block_body env w p pk d = (Inr b, e)"
  shows "\<exists>d1 d2 d3. reset_pending d = (Inr (), d1) \<and> open_pending d1 = (Inr (), d2) \<and>
    take_pending env w (pending_trx d2)
      (pack_size c_signed_block_header (signed_block_header.truncate empty_block) + 4) 3000 [] d2
      = (Inr (transactions b), d3) \<and>
    timestamp b = w \<and> producer b = p \<and> transaction_merkle_root b = caculate_merkle_root (crypto_of env) b"
proof -
  have g: "gets f s = (Inr x, t) \<longleftrightarrow> x = f s \<and> t = s" for f x t and s :: chain_db
    by (auto simp: gets_def)
  from assms show ?thesis
    unfolding generate_block_body_def Let_def seq_Inr_iff bnd_Inr_iff g
    by (auto simp: ret_def sign_header_def intro!: root_of_transactions)
qed

text \<open>
  C10: The block that a producer builds from the pending transactions. It stands at the time asked
  for, under the producer asked for, and carries the Merkle root of its transactions; these are at
  most 3000 of the pending ones, in their order, none expired at the time of the block, and their
  packed form together with the header stays below the size limit, so the size check of the code
  never refuses it. On success and on failure the skip flags are back.
\<close>

theorem produced_block:
  assumes "generate_block env w p pk skip d = (r, e)"
  shows "skip_flags e = skip_flags d \<and>
    (case r of
       Inl x \<Rightarrow> True
     | Inr b \<Rightarrow>
         timestamp b = w \<and> producer b = p \<and> transaction_merkle_root b = caculate_merkle_root (crypto_of env) b \<and>
         subseq (transactions b) (pending_trx d) \<and> length (transactions b) \<le> 3000 \<and>
         (\<forall>t \<in> set (transactions b). w \<le> expiration t) \<and>
         pack_size c_signed_block_header (signed_block_header.truncate empty_block) +
           pack_size (c_vector c_signed_transaction) (transactions b) < news_max_block_size)"
proof -
  let ?d = "d\<lparr>skip_flags := skip\<rparr>" and ?cr = "crypto_of env"
  obtain q u where q: "generate_block_body env w p pk ?d = (q, u)" by (cases "generate_block_body env w p pk ?d")
  with assms have e: "skip_flags e = skip_flags d" "(r, ()) = capture (\<lambda>s. (q, s)) ()"
    by (auto simp: generate_block_def with_skip_flags_def on_exit_def capture_def split: sum.splits)
  show ?thesis
  proof (cases q)
    case (Inl x)
    with e show ?thesis by (simp add: capture_def)
  next
    case (Inr b)
    from generate_parts [OF q [unfolded Inr]] obtain d1 d2 d3 where
      d: "reset_pending ?d = (Inr (), d1)" "open_pending d1 = (Inr (), d2)" and
      t: "take_pending env w (pending_trx d2)
             (pack_size c_signed_block_header (signed_block_header.truncate empty_block) + 4) 3000 [] d2
             = (Inr (transactions b), d3)" and
      b: "timestamp b = w" "producer b = p" "transaction_merkle_root b = caculate_merkle_root ?cr b" by blast
    have "pending_trx d2 = pending_trx d" using pending_kept(1) [OF d(1)] pending_kept(2) [OF d(2)] by simp
    with take_pending_run [OF t] have
      n: "subseq (transactions b) (pending_trx d)" "length (transactions b) \<le> 3000"
        "\<forall>t \<in> set (transactions b). w \<le> expiration t"
        "transactions b = [] \<or> pack_size c_signed_block_header (signed_block_header.truncate empty_block) + 4 +
           sum_list (map (pack_size c_signed_transaction) (transactions b)) < news_max_block_size" by auto
    have "pack_size c_signed_block_header (signed_block_header.truncate empty_block) = 133"
      by (simp add: pack_size_def c_signed_block_header_def c_block_header_def c_class_def c_pair_def c_word_def
          c_array_def empty_block_def signed_block_header.defs block_header.defs)
    then have "pack_size c_signed_block_header (signed_block_header.truncate empty_block) +
           pack_size (c_vector c_signed_transaction) (transactions b) < news_max_block_size"
      using vector_size [OF n(2), of c_signed_transaction] n(4) by (auto simp: news_max_block_size_def)
    with e b n(1-3) Inr show ?thesis by (simp add: capture_def)
  qed
qed

theorem produced_block_witness:
  "skip_flags (snd (generate_block sample_env 12 1 [] 0 sample_db)) = 0"
proof -
  obtain r e where "generate_block sample_env 12 1 [] 0 sample_db = (r, e)"
    by (cases "generate_block sample_env 12 1 [] 0 sample_db")
  from produced_block [OF this] this show ?thesis by (simp add: sample_db_def init_hardforks_def new_chain_db_def)
qed

end
