(* ===== verification/Switch_Facts.thy ===== *)
theory Switch_Facts
  imports Push_Props Fork_DB_Props
begin

section \<open>Switching forks\<close>

text \<open>
  The states between whole blocks: the chain invariant holds now, and below every block stands the
  state of the block before it. Pushing a block of a branch and popping one go from such a state to
  another, so a switch ends in one however it ends.
\<close>

subsection \<open>States between blocks\<close>

definition head_ok :: "global_property \<Rightarrow> bool" where
  "head_ok g \<longleftrightarrow> num_from_id (head_block_id_of g) = head_block_num_of g \<and>
     last_irreversible_block_num g \<le> head_block_num_of g"

definition at_layer :: "layers \<Rightarrow> global_property \<Rightarrow> bool" where
  "at_layer a g \<longleftrightarrow> (\<exists>s. a global_property_type = Some s \<and> fst s 0 = Some (Global_Property g))"

definition history_ok :: "chain_db \<Rightarrow> global_property \<Rightarrow> bool" where
  "history_ok d g \<longleftrightarrow> chain_inv d g \<and> head_ok g \<and>
     (\<forall>k < length (earlier (objects d)). \<exists>h. at_layer (earlier (objects d) ! k) h \<and> head_ok h \<and>
        int (unat (head_block_num_of h)) = db_revision (objects d) - 1 - int k)"

lemma gpo_of_layer: "gpo_of d g \<longleftrightarrow> at_layer (contents (objects d)) g"
  by (simp add: stored_contents at_layer_def)

lemma history_same:
  assumes "history_ok d g" and "objects e = objects d" and "chain_ok e"
  shows "history_ok e g"
  using assms unfolding history_ok_def chain_inv_def stored_def by auto

lemma history_went_back:
  assumes hist: "history_ok d g" and bk: "went_back d e"
  shows "history_ok e g"
proof -
  from bk obtain k where e: "chain_ok e" "contents (objects e) = contents (objects d)"
    "earlier (objects e) = take k (earlier (objects d))" "db_revision (objects e) = db_revision (objects d)"
    by (auto simp: went_back_def)
  then have "chain_inv e g" using hist stored_same [of e _ d] by (simp add: history_ok_def chain_inv_def)
  moreover have "\<exists>h. at_layer (earlier (objects e) ! j) h \<and> head_ok h \<and>
      int (unat (head_block_num_of h)) = db_revision (objects e) - 1 - int j"
    if "j < length (earlier (objects e))" for j
  proof -
    have "j < length (earlier (objects d))" "earlier (objects e) ! j = earlier (objects d) ! j"
      using that unfolding e(3) by (simp_all only: length_take min_less_iff_conj nth_take)
    with hist e(4) show ?thesis by (simp only: history_ok_def)
  qed
  ultimately show ?thesis using hist by (simp only: history_ok_def) blast
qed

lemma head_applied:
  "head_block_id_of (new_irreversible (block_applied cr b g)) = block_id cr b"
  "head_block_num_of (new_irreversible (block_applied cr b g)) = block_num b"
  by (simp_all add: new_irreversible_def block_applied_def)

text \<open>A block builds on the head if it names its id; its number then follows.\<close>

lemma number_follows:
  assumes "head_ok g" and "previous b = head_block_id_of g" and "block_num b \<noteq> 0"
  shows "block_num b = head_block_num_of g + 1" "unat (head_block_num_of g) + 1 < 2 ^ 32"
proof -
  show n: "block_num b = head_block_num_of g + 1"
    using assms(1,2) block_num_previous [of b] by (simp add: head_ok_def)
  have "unat (head_block_num_of g + 1) \<noteq> 0" using n assms(3) by (simp add: unat_eq_0)
  then have "(unat (head_block_num_of g) + 1) mod 2 ^ 32 \<noteq> 0" by (simp add: unat_word_ariths)
  with unat_bound [of "head_block_num_of g"] show "unat (head_block_num_of g) + 1 < 2 ^ 32"
    by (cases "unat (head_block_num_of g) + 1 = 2 ^ 32") simp_all
qed

lemma history_push:
  assumes h: "handlers_ok env" and hist: "history_ok d g" and on: "previous b = head_block_id_of g" "block_num b \<noteq> 0"
    and run: "pushing_session (apply_block env b skip) d = (r, e)"
  shows "case r of
      Inl x \<Rightarrow> history_ok e g
    | Inr _ \<Rightarrow> history_ok e (new_irreversible (block_applied (crypto_of env) b g))"
proof -
  have inv: "chain_inv d g" and head: "head_ok g" using hist by (simp_all add: history_ok_def)
  note n = number_follows [OF head on]
  note s = block_session [OF h inv n run]
  let ?g = "new_irreversible (block_applied (crypto_of env) b g)"
  show ?thesis
  proof (cases r)
    case (Inl x)
    with s have "went_back d e" by simp
    with Inl history_went_back [OF hist] show ?thesis by simp
  next
    case (Inr u)
    with s obtain k where e: "chain_inv e ?g" "earlier (objects e) = contents (objects d) # take k (earlier (objects d))"
      by auto
    have rev: "db_revision (objects e) = db_revision (objects d) + 1"
      using e(1) inv started_ready(6) [OF inv n] by (simp add: chain_inv_def head_applied)
    have "\<exists>h. at_layer (earlier (objects e) ! j) h \<and> head_ok h \<and>
        int (unat (head_block_num_of h)) = db_revision (objects e) - 1 - int j"
      if j: "j < length (earlier (objects e))" for j
    proof (cases j)
      case 0
      have "at_layer (contents (objects d)) g" "int (unat (head_block_num_of g)) = db_revision (objects d)"
        using inv unfolding chain_inv_def gpo_of_layer by simp_all
      with 0 e(2) head rev show ?thesis by auto
    next
      case (Suc i)
      with j e(2) have i: "i < length (earlier (objects d))" "earlier (objects e) ! j = earlier (objects d) ! i" by simp_all
      with hist obtain h where "at_layer (earlier (objects d) ! i) h" "head_ok h"
          "int (unat (head_block_num_of h)) = db_revision (objects d) - 1 - int i"
        unfolding history_ok_def by blast
      with i(2) rev Suc show ?thesis by auto
    qed
    moreover have "head_ok ?g"
      using e(1) num_of_block_id [of "crypto_of env" b] by (simp add: head_ok_def chain_inv_def head_applied)
    ultimately show ?thesis using e(1) Inr by (simp add: history_ok_def)
  qed
qed

text \<open>With nothing below the head, an undo changes nothing.\<close>

lemma undo_nothing:
  assumes ok: "store_ok db" and none: "earlier db = []"
  shows "db_undo chain_clash db = (Inr (), db)"
proof -
  note d = store_okD [OF ok]
  have "depth db = 0" using none length_earlier [of db] by simp
  then have "stack (idx t db) = []" if "t \<in> set (index_list db)" for t
    using d(3) that by (simp add: level_def)
  then have one: "on_index t (gi_undo (chain_clash t)) db = (Inr (), db)" if "t \<in> set (index_list db)" for t
    using that same_put [OF d(2)] by (simp add: on_index_def has_index_def gi_undo_def)
  have "each (\<lambda>t. on_index t (gi_undo (chain_clash t))) ts db = (Inr (), db)" if "set ts \<subseteq> set (index_list db)" for ts
    using that by (induction ts) (simp_all add: ret_def seq_def bnd_def one)
  then show ?thesis by (simp add: db_undo_def)
qed

text \<open>What a pop leaves alone, and a pop with nothing to undo.\<close>

lemma pop_frame:
  assumes g: "gpo_of d g" and p: "pending_session d = None" and run: "pop_block cr d = (r, e)"
  shows "pending_session e = None \<and> store (fork_db e) = store (fork_db d)"
proof -
  have f: "within same_pending (\<lambda>d. on_fork_db (fork_pop_block (pinned d)) d)"
    by (auto simp: within_def same_pending_def on_fork_db_def fork_pop_block_def split: prod.splits option.splits)
  have l: "within same_pending (fetch_block_by_id cr i)" for i
  proof -
    have "same_pending s (snd (fetch_block_by_id cr i s))" for s
    proof (cases "fetch_block_by_id cr i s")
      case (Pair q u)
      from fetch_by_id_frame [OF this] obtain l where "u = s\<lparr>blog := l\<rparr>" by blast
      with Pair show ?thesis by (simp add: same_pending_def)
    qed
    then show ?thesis by (simp add: within_def)
  qed
  let ?m = "bnd head_block_id (\<lambda>h. bnd (fetch_block_by_id cr h) (\<lambda>r.
       case r of
         None \<Rightarrow> raise Fc_Assert
       | Some b \<Rightarrow>
           seq (\<lambda>d. on_fork_db (fork_pop_block (pinned d)) d)
          (seq (on_objects (db_undo chain_clash))
               (update (\<lambda>d. d\<lparr>popped_tx := transactions b @ popped_tx d\<rparr>)))))"
  have "within same_pending ?m"
    unfolding head_block_id_def by (intro pending_intros pending_queries f l) simp_all
  then have "same_pending d (snd (?m d))" by (simp add: within_def)
  moreover have "reset_pending d = (Inr (), d)" using p by (simp add: reset_pending_def)
  then have "seq reset_pending ?m d = ?m d" by (rule seq_simps(2))
  then have "pop_block cr d = capture ?m d" by (simp only: pop_block_def capture_def)
  then have "e = snd (?m d)" using run by (auto simp: capture_def split: prod.splits sum.splits)
  ultimately have "same_pending d e" by (simp only:)
  with p show ?thesis by (simp add: same_pending_def)
qed

lemma pop_bottom:
  assumes ok: "chain_ok d" and g: "gpo_of d g" and p: "pending_session d = None" and none: "earlier (objects d) = []"
    and run: "pop_block cr d = (r, e)"
  shows "objects e = objects d \<and> chain_ok e"
proof -
  have u: "db_undo chain_clash (objects d) = (Inr (), objects d)"
    by (rule undo_nothing) (use ok none in \<open>simp_all add: chain_ok_def\<close>)
  have pend: "reset_pending d = (Inr (), d)" using p by (simp add: reset_pending_def)
  obtain q d1 where q: "fetch_block_by_id cr (head_block_id_of g) d = (q, d1)"
    by (cases "fetch_block_by_id cr (head_block_id_of g) d")
  from fetch_by_id_frame [OF this] obtain l where d1: "d1 = d\<lparr>blog := l\<rparr>" by blast
  from run ok show ?thesis
    by (auto simp: pop_block_def capture_def seq_def bnd_def pend gpo_queries(3) [OF g] q d1 raise_def on_fork_db_def
        fork_pop_block_def on_objects_def update_def u chain_ok_def split: sum.splits option.splits)
qed

text \<open>
  A state between blocks outside any session of pending transactions, with the items of the
  fork database \<open>f\<close>. The head and the links of the fork database may change on the way.
\<close>

definition between :: "fork_database \<Rightarrow> chain_db \<Rightarrow> global_property \<Rightarrow> bool" where
  "between f d g \<longleftrightarrow> history_ok d g \<and> pending_session d = None \<and> store (fork_db d) = store f"

lemma between_pop:
  assumes b: "between f d g" and run: "pop_block cr d = (r, e)"
  shows "\<exists>g'. between f e g'"
proof -
  have hist: "history_ok d g" and p: "pending_session d = None" and st: "store (fork_db d) = store f"
    using b by (simp_all add: between_def)
  then have ok: "chain_ok d" and g: "gpo_of d g" by (simp_all add: history_ok_def chain_inv_def)
  have rest: "pending_session e = None \<and> store (fork_db e) = store f"
    using pop_frame [OF g p run] st by simp
  show ?thesis
  proof (cases "earlier (objects d)")
    case Nil
    have "objects e = objects d \<and> chain_ok e" by (rule pop_bottom [OF ok g p Nil run])
    with history_same [OF hist] rest show ?thesis by (auto simp: between_def)
  next
    case (Cons a hs)
    note res = pop_run [OF ok g p Cons run]
    show ?thesis
    proof (cases r)
      case (Inl x)
      with res history_same [OF hist] rest show ?thesis by (auto simp: between_def)
    next
      case (Inr u)
      with res have e: "chain_ok e" "contents (objects e) = a" "earlier (objects e) = hs"
        "db_revision (objects e) = db_revision (objects d) - 1" by (simp_all add: popped_def)
      have lay: "\<exists>h. at_layer ((a # hs) ! k) h \<and> head_ok h \<and>
          int (unat (head_block_num_of h)) = db_revision (objects d) - 1 - int k" if "k < Suc (length hs)" for k
        using hist that unfolding history_ok_def Cons by simp
      from lay [of 0] obtain h where h: "at_layer a h" "head_ok h"
        "int (unat (head_block_num_of h)) = db_revision (objects d) - 1" by auto
      have "chain_inv e h" unfolding chain_inv_def gpo_of_layer using e h by (simp add: head_ok_def)
      moreover have "\<exists>h. at_layer (hs ! k) h \<and> head_ok h \<and>
          int (unat (head_block_num_of h)) = db_revision (objects e) - 1 - int k" if k: "k < length hs" for k
      proof -
        from lay [of "Suc k"] k obtain h where "at_layer (hs ! k) h" "head_ok h"
          "int (unat (head_block_num_of h)) = db_revision (objects d) - 1 - int (Suc k)" by auto
        with e(4) show ?thesis by (intro exI [of _ h]) simp
      qed
      ultimately have "history_ok e h" unfolding history_ok_def e(3) using h(2) by blast
      with rest show ?thesis by (auto simp: between_def)
    qed
  qed
qed

lemma between_same:
  assumes "between f d g" and "objects e = objects d" and "chain_ok e"
    and "pending_session e = pending_session d" and "store (fork_db e) = store (fork_db d)"
  shows "between f e g"
  using assms history_same [of d g e] by (simp add: between_def)

lemma between_ok: "between f d g \<Longrightarrow> chain_ok d \<and> gpo_of d g \<and> head_ok g"
  by (simp add: between_def history_ok_def chain_inv_def)

lemma between_pop_until:
  "between f d g \<Longrightarrow> pop_until cr k target d = (r, e) \<Longrightarrow>
   \<exists>g'. between f e g' \<and> (r = Inr () \<longrightarrow> head_block_id_of g' = target)"
proof (induction k arbitrary: d g)
  case 0
  note q = gpo_queries(3) [OF conjunct1 [OF conjunct2 [OF between_ok [OF 0(1)]]]]
  from 0 show ?case
    by (subst (asm) pop_until.simps) (auto simp: bnd_def q raise_def ret_def split: if_splits)
next
  case (Suc k)
  note q = gpo_queries(3) [OF conjunct1 [OF conjunct2 [OF between_ok [OF Suc.prems(1)]]]]
  show ?case
  proof (cases "head_block_id_of g = target")
    case True
    with Suc.prems show ?thesis by (subst (asm) pop_until.simps) (auto simp: bnd_def q ret_def)
  next
    case False
    obtain x u where x: "pop_block cr d = (x, u)" by (cases "pop_block cr d")
    from between_pop [OF Suc.prems(1) x] obtain h where h: "between f u h" by blast
    have run: "(case x of Inl y \<Rightarrow> (Inl y, u) | Inr _ \<Rightarrow> pop_until cr k target u) = (r, e)"
      using Suc.prems(2) False by (subst (asm) pop_until.simps) (auto simp: bnd_def seq_def q x split: sum.splits)
    show ?thesis
    proof (cases x)
      case (Inl y)
      with run h show ?thesis by auto
    next
      case (Inr y)
      with run Suc.IH [OF h] show ?thesis by simp
    qed
  qed
qed

lemma between_pop_to:
  assumes "between f d g" and "pop_to cr target d = (r, e)"
  shows "\<exists>g'. between f e g' \<and> (r = Inr () \<longrightarrow> head_block_id_of g' = target)"
  using between_pop_until [OF assms(1)] assms(2) by (simp add: pop_to_def bnd_def gets_def)

subsection \<open>Branches\<close>

text \<open>Blocks of items that can be applied one after the other on top of the block \<open>i\<close>.\<close>

fun builds_on :: "crypto \<Rightarrow> fork_database \<Rightarrow> bytes \<Rightarrow> nat list \<Rightarrow> bool" where
  "builds_on cr f i [] \<longleftrightarrow> True"
| "builds_on cr f i (a # as) \<longleftrightarrow>
     (let b = item_data (item_at f a)
      in previous b = i \<and> block_num b \<noteq> 0 \<and> builds_on cr f (block_id cr b) as)"

definition top_of :: "crypto \<Rightarrow> fork_database \<Rightarrow> bytes \<Rightarrow> nat list \<Rightarrow> bytes" where
  "top_of cr f i as = (if as = [] then i else block_id cr (item_data (item_at f (last as))))"

lemma builds_on_snoc:
  "builds_on cr f i (as @ [a]) \<longleftrightarrow> builds_on cr f i as \<and>
     previous (item_data (item_at f a)) = top_of cr f i as \<and> block_num (item_data (item_at f a)) \<noteq> 0"
  by (induction as arbitrary: i) (auto simp: Let_def top_of_def)

text \<open>A branch of the fork database, read upwards.\<close>

lemma chain_builds:
  assumes inv: "fork_inv cr f"
  shows "chain f as \<Longrightarrow> as \<noteq> [] \<Longrightarrow> set as \<subseteq> {..<length (store f)} \<Longrightarrow> \<forall>x \<in> set (store f). num x \<noteq> 0 \<Longrightarrow>
    builds_on cr f (previous_id (item_at f (last as))) (rev as)"
proof (induction as)
  case (Cons a as)
  then have a: "a < length (store f)" by simp
  then have n: "block_num (item_data (item_at f a)) \<noteq> 0"
    using Cons.prems(4) num_is_block_num [OF inv a] by (metis nth_mem)
  show ?case
  proof (cases as)
    case Nil
    with n show ?thesis by (simp add: Let_def previous_id_def)
  next
    case (Cons c cs)
    with Cons.prems have p: "prev (item_at f a) = Some c" "chain f as" by simp_all
    have "c < length (store f)" using Cons.prems(3) Cons by simp
    then have "item_id (item_at f c) = block_id cr (item_data (item_at f c))"
      using fork_invD(1) [OF inv] by (simp add: item_inv_def)
    then have "previous (item_data (item_at f a)) = block_id cr (item_data (item_at f c))"
      using prev_num(2) [OF inv a p(1)] by (simp add: previous_id_def)
    moreover have "top_of cr f i (rev as) = block_id cr (item_data (item_at f c))" for i
      using Cons by (simp add: top_of_def last_rev)
    moreover have "builds_on cr f (previous_id (item_at f (last as))) (rev as)"
      using Cons.IH p(2) Cons.prems(3,4) Cons by simp
    moreover have "last (a # as) = last as" using Cons by simp
    ultimately show ?thesis using n by (simp only: rev.simps builds_on_snoc simp_thms)
  qed
qed simp

lemma push_item_between:
  assumes h: "handlers_ok env" and b: "between f d g" and on: "builds_on (crypto_of env) f (head_block_id_of g) [a]"
    and run: "push_item_block env skip a d = (r, e)"
  shows "\<exists>g'. between f e g' \<and> (case r of
      Inl _ \<Rightarrow> g' = g
    | Inr _ \<Rightarrow> head_block_id_of g' = block_id (crypto_of env) (item_data (item_at f a)) \<and>
        head_block_num_of g' = block_num (item_data (item_at f a)))"
proof -
  let ?b = "item_data (item_at f a)"
  have hist: "history_ok d g" and st: "store (fork_db d) = store f" and p: "pending_session d = None"
    using b by (simp_all add: between_def)
  have on: "previous ?b = head_block_id_of g" "block_num ?b \<noteq> 0" using on by (simp_all add: Let_def)
  have run: "pushing_session (apply_block env ?b skip) d = (r, e)"
    using run st by (simp add: push_item_block_def bnd_def gets_def)
  have inv: "chain_inv d g" "head_ok g" using hist by (simp_all add: history_ok_def)
  note same = pushed_pending [OF h inv(1) number_follows [OF inv(2) on] run]
  show ?thesis
    using history_push [OF h hist on run] same st p
    by (cases r) (auto simp: between_def head_applied)
qed

lemma push_items_between:
  assumes h: "handlers_ok env"
  shows "between f d g \<Longrightarrow> builds_on (crypto_of env) f (head_block_id_of g) as \<Longrightarrow>
    each (push_item_block env skip) as d = (r, e) \<Longrightarrow> \<exists>g'. between f e g'"
proof (induction as arbitrary: d g)
  case Nil
  then show ?case by (auto simp: ret_def)
next
  case (Cons a as)
  obtain q u where q: "push_item_block env skip a d = (q, u)" by (cases "push_item_block env skip a d")
  have "builds_on (crypto_of env) f (head_block_id_of g) [a]" using Cons.prems(2) by (simp add: Let_def)
  from push_item_between [OF h Cons.prems(1) this q] obtain g' where
    g': "between f u g'" "\<And>x. q = Inr x \<Longrightarrow> head_block_id_of g' = block_id (crypto_of env) (item_data (item_at f a))"
    by (cases q) auto
  show ?case
  proof (cases q)
    case (Inl x)
    with q g' Cons.prems(3) show ?thesis by (auto simp: seq_def bnd_def)
  next
    case (Inr x)
    with q Cons.prems(3) have "each (push_item_block env skip) as u = (r, e)" by (simp add: seq_def bnd_def)
    with Cons.IH [OF g'(1)] g'(2) [OF Inr] Cons.prems(2) show ?thesis by (simp add: Let_def)
  qed
qed

subsection \<open>The switch\<close>

text \<open>Changes of the fork database that leave its items.\<close>

lemma between_forks:
  assumes "between f d g" and "\<And>x. store (snd (m x)) = store x" and "on_fork_db m d = (r, e)"
  shows "between f e g"
proof -
  obtain q x where q: "m (fork_db d) = (q, x)" by (cases "m (fork_db d)")
  with assms(2) [of "fork_db d"] have "store x = store (fork_db d)" by simp
  moreover have "e = d\<lparr>fork_db := x\<rparr>" using assms(3) q by (simp add: on_fork_db_def)
  ultimately show ?thesis
    using between_ok [OF assms(1)] by (intro between_same [OF assms(1)]) (simp_all add: chain_ok_def)
qed

lemma between_remove:
  "between f d g \<Longrightarrow> each (remove_fork_item cr) as d = (r, e) \<Longrightarrow> between f e g"
proof (induction as arbitrary: d)
  case Nil
  then show ?case by (simp add: ret_def)
next
  case (Cons a as)
  obtain q u where q: "remove_fork_item cr a d = (q, u)" by (cases "remove_fork_item cr a d")
  then have "q = Inr ()" by (simp add: remove_fork_item_def on_fork_db_def update_def)
  moreover have "between f u g"
    using q unfolding remove_fork_item_def
    by (rule between_forks [OF Cons.prems(1), rotated]) (simp add: update_def remove_block_def)
  ultimately show ?case using Cons.IH Cons.prems(2) q by (simp add: seq_def bnd_def)
qed

lemma abandon_between:
  assumes h: "handlers_ok env" and b: "between f d g" and on: "builds_on (crypto_of env) f target (rev old)"
    and run: "abandon_branch env skip invalid_items old target d = (r, e)"
  shows "\<exists>g'. between f e g'"
proof -
  obtain q1 d1 where d1: "each (remove_fork_item (crypto_of env)) invalid_items d = (q1, d1)" by fastforce
  have b1: "between f d1 g" by (rule between_remove [OF b d1])
  obtain q2 d2 where d2: "on_fork_db (update (set_head (Some (hd old)))) d1 = (q2, d2)" by fastforce
  have b2: "between f d2 g" by (rule between_forks [OF b1 _ d2]) (simp add: update_def set_head_def)
  obtain q3 d3 where d3: "pop_to (crypto_of env) target d2 = (q3, d3)" by fastforce
  from between_pop_to [OF b2 d3] obtain g3 where
    b3: "between f d3 g3" "q3 = Inr () \<Longrightarrow> head_block_id_of g3 = target" by blast
  note runs = run [unfolded abandon_branch_def]
  consider "e = d1" | "e = d2" | "e = d3"
    | "q3 = Inr ()" "each (push_item_block env skip) (rev old) d3 = (r, e)"
    using runs d1 d2 d3 by (auto simp: seq_def bnd_def split: sum.splits)
  then show ?thesis
  proof cases
    case 4
    with push_items_between [OF h b3(1) _ 4(2)] b3(2) on show ?thesis by simp
  qed (use b1 b2 b3 in auto)
qed

lemma push_branch_between:
  assumes h: "handlers_ok env" and old: "builds_on (crypto_of env) f target (rev old)"
  shows "between f d g \<Longrightarrow> builds_on (crypto_of env) f (head_block_id_of g) as \<Longrightarrow>
    push_branch env skip old target as d = (r, e) \<Longrightarrow>
    \<exists>g'. between f e g' \<and> (r = Inr () \<longrightarrow> head_block_id_of g' = top_of (crypto_of env) f (head_block_id_of g) as)"
proof (induction as arbitrary: d g)
  case Nil
  then show ?case by (auto simp: ret_def top_of_def)
next
  case (Cons a as)
  let ?cr = "crypto_of env"
  obtain q u where q: "push_item_block env skip a d = (q, u)" by (cases "push_item_block env skip a d")
  have "builds_on ?cr f (head_block_id_of g) [a]" using Cons.prems(2) by (simp add: Let_def)
  from push_item_between [OF h Cons.prems(1) this q] obtain g' where
    g': "between f u g'" "\<And>x. q = Inr x \<Longrightarrow> head_block_id_of g' = block_id ?cr (item_data (item_at f a))"
    by (cases q) auto
  show ?case
  proof (cases q)
    case (Inr x)
    with q Cons.prems(3) have "push_branch env skip old target as u = (r, e)"
      by (simp add: seq_def bnd_def catch_fc_def catch_sx_def)
    from Cons.IH [OF g'(1) _ this] g'(2) [OF Inr] Cons.prems(2) show ?thesis
      by (auto simp: Let_def top_of_def)
  next
    case (Inl x)
    show ?thesis
    proof (cases "no_exception x \<or> std_exception x")
      case True
      with q Inl Cons.prems(3) have "r = Inl x" "e = u"
        by (simp_all add: seq_def bnd_def catch_fc_def catch_sx_def raise_def)
      with g' show ?thesis by auto
    next
      case False
      obtain p v where v: "abandon_branch env skip (a # as) old target u = (p, v)" by fastforce
      with q Inl False Cons.prems(3) have "e = v" "\<exists>y. r = Inl y"
        by (auto simp: seq_def bnd_def catch_fc_def catch_sx_def raise_def split: sum.splits)
      with abandon_between [OF h g'(1) old v] show ?thesis by auto
    qed
  qed
qed

text \<open>The items of a fetched branch are items of the fork database.\<close>

lemma prev_bound: "fork_inv cr f \<Longrightarrow> a < length (store f) \<Longrightarrow> lock_prev ls f a = Some p \<Longrightarrow> p < length (store f)"
  using lock_prev_Some [of ls f a p] prev_num(1) [of cr f a p] by simp

lemma walk_down_bound:
  "fork_inv cr f \<Longrightarrow> a < length (store f) \<Longrightarrow> set br \<subseteq> {..<length (store f)} \<Longrightarrow>
   walk_down fuel ls f n a br = Inr (b, br') \<Longrightarrow> b < length (store f) \<and> set br' \<subseteq> {..<length (store f)}"
proof (induction fuel arbitrary: a br)
  case 0
  then show ?case by (subst (asm) walk_down.simps) (auto split: if_splits)
next
  case (Suc k)
  consider "b = a" "br' = br" | p where "lock_prev ls f a = Some p" "walk_down k ls f n p (br @ [a]) = Inr (b, br')"
    using Suc.prems(4) by (subst (asm) walk_down.simps) (auto split: if_splits option.splits)
  then show ?case
  proof cases
    case 2
    with Suc.IH [of p "br @ [a]"] Suc.prems(1-3) prev_bound [OF Suc.prems(1,2)] show ?thesis by simp
  qed (use Suc.prems in simp)
qed

lemma walk_both_bound:
  "fork_inv cr f \<Longrightarrow> a < length (store f) \<Longrightarrow> b < length (store f) \<Longrightarrow> set as \<union> set bs \<subseteq> {..<length (store f)} \<Longrightarrow>
   walk_both fuel ls f a b as bs = Inr (as', bs') \<Longrightarrow> set as' \<union> set bs' \<subseteq> {..<length (store f)}"
proof (induction fuel arbitrary: a b as bs)
  case 0
  then show ?case by (subst (asm) walk_both.simps) (auto split: if_splits)
next
  case (Suc k)
  consider "as' = as @ [a]" "bs' = bs @ [b]"
    | p q where "lock_prev ls f a = Some p" "lock_prev ls f b = Some q"
        "walk_both k ls f p q (as @ [a]) (bs @ [b]) = Inr (as', bs')"
    using Suc.prems(5) by (subst (asm) walk_both.simps) (auto split: if_splits option.splits)
  then show ?case
  proof cases
    case 2
    with Suc.IH [of p q "as @ [a]" "bs @ [b]"] Suc.prems(1-4) prev_bound [OF Suc.prems(1,2)] prev_bound [OF Suc.prems(1,3)]
    show ?thesis by simp
  qed (use Suc.prems in auto)
qed

lemma fetch_branch_bound:
  assumes inv: "fork_inv cr f" and run: "fetch_branch_from ls i j f = Inr (as, bs)"
  shows "set as \<union> set bs \<subseteq> {..<length (store f)}"
proof -
  let ?n = "length (store f)"
  from run obtain a b where ab: "find_id i f (links f) = Some a" "find_id j f (links f) = Some b"
    by (auto simp: fetch_branch_from_def Let_def split: option.splits)
  have "a < ?n" "b < ?n" using find_id_Some [OF ab(1)] find_id_Some [OF ab(2)] fork_invD(2) [OF inv] by auto
  note start = this
  from run ab obtain c xs d ys where
    c: "walk_down ?n ls f (block_num (item_data (item_at f b))) a [] = Inr (c, xs)" and
    d: "walk_down ?n ls f (block_num (item_data (item_at f c))) b [] = Inr (d, ys)" and
    w: "walk_both ?n ls f c d xs ys = Inr (as, bs)"
    by (auto simp: fetch_branch_from_def Let_def rbind_def split: sum.splits prod.splits)
  from walk_down_bound [OF inv start(1) _ c] walk_down_bound [OF inv start(2) _ d]
  have "c < ?n" "set xs \<subseteq> {..<?n}" "d < ?n" "set ys \<subseteq> {..<?n}" by simp_all
  with walk_both_bound [OF inv _ _ _ w] show ?thesis by simp
qed

text \<open>
  However a switch ends, it ends in a state between blocks, and when it succeeds the head is the
  block switched to.
\<close>

lemma switch_between:
  assumes h: "handlers_ok env" and b: "between (fork_db d) d g" and inv: "fork_inv (crypto_of env) (fork_db d)"
    and nums: "\<forall>x \<in> set (store (fork_db d)). num x \<noteq> 0" and a: "a < length (store (fork_db d))"
    and run: "switch_forks env skip a d = (r, e)"
  shows "\<exists>g'. between (fork_db d) e g' \<and> (r = Inr () \<longrightarrow>
    head_block_id_of g' = block_id (crypto_of env) (item_data (item_at (fork_db d) a)))"
proof -
  let ?cr = "crypto_of env" and ?f = "fork_db d"
  let ?b = "item_data (item_at ?f a)"
  note q = gpo_queries(3) [OF conjunct1 [OF conjunct2 [OF between_ok [OF b]]]]
  show ?thesis
  proof (cases "fetch_branch_from (pinned d) (block_id ?cr ?b) (head_block_id_of g) ?f")
    case (Inl x)
    with run have "r = Inl x" "e = d" by (simp_all add: switch_forks_def bnd_def q reads_def)
    with b show ?thesis by auto
  next
    case (Inr p)
    obtain as bs where p: "p = (as, bs)" by (cases p)
    note fetched = Inr [unfolded p]
    from fetch_branch_ok [OF inv, where ls = "pinned d" and i = "block_id ?cr ?b" and j = "head_block_id_of g"] fetched have
      ne: "as \<noteq> []" "bs \<noteq> []" and hd: "item_id (item_at ?f (hd as)) = block_id ?cr ?b"
      and ch: "chain ?f as" "chain ?f bs" and fork: "previous_id (item_at ?f (last as)) = previous_id (item_at ?f (last bs))"
      by auto
    from fetch_branch_bound [OF inv fetched] have bd: "set as \<subseteq> {..<length (store ?f)}" "set bs \<subseteq> {..<length (store ?f)}"
      by simp_all
    let ?t = "previous_id (item_at ?f (last bs))"
    have new: "builds_on ?cr ?f ?t (rev as)" and old: "builds_on ?cr ?f ?t (rev bs)"
      using chain_builds [OF inv ch(1) ne(1) bd(1) nums] chain_builds [OF inv ch(2) ne(2) bd(2) nums] fork by simp_all
    have "hd as < length (store ?f)" using ne(1) bd(1) by (cases as) auto
    then have top: "top_of ?cr ?f ?t (rev as) = block_id ?cr ?b"
      using hd ne(1) fork_invD(1) [OF inv] by (simp add: top_of_def last_rev item_inv_def)
    let ?m = "seq (pop_to ?cr ?t) (push_branch env skip bs ?t (rev as))"
    let ?d = "d\<lparr>pinned := (as @ bs) @ pinned d\<rparr>"
    have bd': "between ?f ?d g" using b by (rule between_same) (use between_ok [OF b] in \<open>simp_all add: chain_ok_def\<close>)
    have "switch_forks env skip a d = with_pins (as @ bs) (bnd (gets (\<lambda>d. previous (item_data (item_at (fork_db d) (last bs)))))
        (\<lambda>t. seq (pop_to ?cr t) (push_branch env skip bs t (rev as)))) d"
      by (simp add: switch_forks_def bnd_simps q reads_def fetched p)
    also have "\<dots> = on_exit ?m (\<lambda>e. e\<lparr>pinned := pinned d\<rparr>) ?d"
      by (simp add: with_pins_def on_exit_def bnd_def gets_def previous_id_def)
    finally obtain u where u: "?m ?d = (r, u)" "e = u\<lparr>pinned := pinned d\<rparr>"
      using run by (cases "?m ?d") (simp add: on_exit_def)
    obtain q1 v where v: "pop_to ?cr ?t ?d = (q1, v)" by fastforce
    from between_pop_to [OF bd' v] obtain g1 where
      g1: "between ?f v g1" "q1 = Inr () \<Longrightarrow> head_block_id_of g1 = ?t" by blast
    have "\<exists>g'. between ?f u g' \<and> (r = Inr () \<longrightarrow> head_block_id_of g' = block_id ?cr ?b)"
    proof (cases q1)
      case (Inl x)
      with u(1) v have "r = Inl x" "u = v" by (simp_all add: seq_simps)
      with g1(1) show ?thesis by auto
    next
      case (Inr x)
      then have at: "head_block_id_of g1 = ?t" using g1(2) by simp
      from u(1) v Inr have "push_branch env skip bs ?t (rev as) v = (r, u)" by (simp add: seq_simps)
      from push_branch_between [OF h old g1(1) _ this] at new top show ?thesis by simp
    qed
    then obtain g' where g': "between ?f u g'" "r = Inr () \<longrightarrow> head_block_id_of g' = block_id ?cr ?b" by blast
    have "between ?f e g'"
      using g'(1) unfolding u(2) by (rule between_same) (use between_ok [OF g'(1)] in \<open>simp_all add: chain_ok_def\<close>)
    with g'(2) show ?thesis by blast
  qed
qed

end
