(* ===== verification/Push_Cases.thy ===== *)
theory Push_Cases
  imports Switch_Facts
begin

section \<open>Pushing a block: properties\<close>

text \<open>
  The claim about \<open>_push_block\<close>: what becomes of a block that builds on the head, on a side branch no
  higher than the head, or on one that is higher.
\<close>

text \<open>The block applied on top of the head, and dropped from the fork database when it fails.\<close>

definition apply_pushed :: "chain_env \<Rightarrow> signed_block \<Rightarrow> u64 \<Rightarrow> (chain_db, bool) sx" where
  "apply_pushed env b skip =
     catch_fc (seq (pushing_session (apply_block env b skip)) (ret True))
       (\<lambda>e. seq (on_fork_db (update (remove_block (block_id (crypto_of env) b)))) (raise e))"

lemma apply_pushed_run:
  assumes h: "handlers_ok env" and hist: "history_ok d g" and on: "previous b = head_block_id_of g" "block_num b \<noteq> 0"
    and run: "capture (apply_pushed env b skip) d = (r, e)"
  shows "((\<exists>x. r = Inr x) \<longleftrightarrow> (\<exists>u. fst (pushing_session (apply_block env b skip) d) = Inr u)) \<and> (case r of
      Inr x \<Rightarrow> x \<and> history_ok e (new_irreversible (block_applied (crypto_of env) b g))
    | Inl x \<Rightarrow> went_back d e \<and> (no_exception x \<or> find_id (block_id (crypto_of env) b) (fork_db e) (links (fork_db e)) = None))"
proof -
  have inv: "chain_inv d g" "head_ok g" using hist by (simp_all add: history_ok_def)
  obtain q u where q: "pushing_session (apply_block env b skip) d = (q, u)"
    by (cases "pushing_session (apply_block env b skip) d")
  note s = block_session [OF h inv(1) number_follows [OF inv(2) on] q] and hp = history_push [OF h hist on q]
  show ?thesis
  proof (cases q)
    case (Inr x)
    with q run have "r = Inr True" "e = u"
      by (simp_all add: apply_pushed_def catch_fc_def catch_sx_def seq_def bnd_def ret_def capture_def)
    with hp Inr q show ?thesis by (auto intro: exI [of _ True])
  next
    case (Inl x)
    have "fst (apply_block env b skip (started d)) = Inl x" using s Inl by simp
    then have cap: "\<not> std_exception x"
      by (auto simp: apply_block_def capture_def std_exception_def split: prod.splits sum.splits if_splits)
    let ?f = "remove_block (block_id (crypto_of env) b) (fork_db u)"
    have "find_id (block_id (crypto_of env) b) ?f (links ?f) = None"
      by (simp add: find_id_def remove_block_def find_None_iff)
    moreover have "r = Inl x \<and> (if no_exception x then e = u else e = u\<lparr>fork_db := ?f\<rparr>)"
      using q run cap
      by (auto simp: apply_pushed_def catch_fc_def catch_sx_def seq_def bnd_def raise_def capture_def Inl
          on_fork_db_def update_def)
    moreover have "went_back d u" using s Inl by simp
    ultimately show ?thesis using q Inl by (auto simp: went_back_def chain_ok_def split: if_splits)
  qed
qed

lemma history_forks: "history_ok (d\<lparr>fork_db := f\<rparr>) g = history_ok d g"
  by (simp add: history_ok_def chain_inv_def chain_ok_def stored_def)

lemma went_back_forks: "went_back (d\<lparr>fork_db := f\<rparr>) e = went_back d e"
  by (simp add: went_back_def)

subsection \<open>The head of the fork database after a push\<close>

lemma link_item_store:
  assumes "link_item (length (store f)) (f\<lparr>store := store f @ [i]\<rparr>) = (r, g)"
  shows "\<exists>p. store g = store f @ [i\<lparr>prev := p\<rparr>]"
proof (cases "store g = store f @ [i]")
  case True
  then show ?thesis by (intro exI [of _ "prev i"]) simp
next
  case False
  with assms show ?thesis
    by (auto simp: link_item_def set_prev_def split: if_splits option.splits)
qed

text \<open>The new block is the head if it is higher than the old one, which is the head otherwise.\<close>

lemma fork_push_head:
  assumes inv: "fork_inv cr f" and push: "fork_push_block cr b f = (Inr x, g)"
  shows "\<exists>a. x = Some a \<and> a < length (store g) \<and> find_id (block_id cr b) g (links g) \<noteq> None \<and>
    (\<exists>p. store g = store f @ [(make_item cr b)\<lparr>prev := p\<rparr>]) \<and>
    (if \<exists>h. fork_head f = Some h \<and> block_num b \<le> num (item_at f h) then fork_head f = Some a
     else item_data (item_at g a) = b)"
proof -
  let ?f = "f\<lparr>store := store f @ [make_item cr b]\<rparr>" and ?a = "length (store f)"
  obtain q k where l: "link_item ?a ?f = (q, k)" by fastforce
  from link_item_store [OF l] obtain p where st: "store k = store f @ [(make_item cr b)\<lparr>prev := p\<rparr>]" by blast
  have top: "set (links ?f) \<subseteq> {..<?a}" using fork_invD(2) [OF inv] by auto
  then have "fork_head k = fork_head ?f \<and> links k = links ?f"
    using push_item_cases [OF new_item_inv [OF inv] _ _ top l] by auto
  then have k: "fork_head k = fork_head f" "links k = links f" by simp_all
  let ?g = "insert_item ?a k"
  have g: "g = (if higher ?g ?a then ?g\<lparr>fork_head := Some ?a\<rparr> else ?g)" "x = fork_head g"
    using push l
    by (auto simp: fork_push_block_def new_item_def push_item_def seq_def bnd_def gets_def update_def Let_def
        split: option.splits if_splits sum.splits)
  have data: "item_at ?g ?a = (make_item cr b)\<lparr>prev := p\<rparr>" "length (store ?g) = Suc ?a" using st by simp_all
  have same: "item_at ?g h = item_at f h" if "fork_head f = Some h" for h
    using fork_invD(5) [OF inv that] st by (simp add: nth_append)
  have hi: "higher ?g ?a \<longleftrightarrow> \<not> (\<exists>h. fork_head f = Some h \<and> block_num b \<le> num (item_at f h))"
    using k data(1) same by (auto simp: higher_def make_item_def split: option.split)
  have "find_id (item_id (item_at ?g ?a)) ?g (links ?g) \<noteq> None"
    by (auto simp: insert_item_def find_id_None find_id_def find_None_iff)
  then have kept: "find_id (block_id cr b) g (links g) \<noteq> None"
    using data g(1) by (simp add: make_item_def find_id_def split: if_splits)
  have "store g = store f @ [(make_item cr b)\<lparr>prev := p\<rparr>]" using g(1) st by simp
  then show ?thesis
    using g hi kept k fork_invD(5) [OF inv] by (auto simp: make_item_def split: if_splits)
qed

text \<open>The block the database goes on with is the new one, or the head and not higher.\<close>

lemma pushed_item:
  assumes inv: "fork_inv cr f" and push: "fork_push_block cr b f = (Inr x, f')" and hd: "head_ok g"
    and head: "case fork_head f of None \<Rightarrow> True | Some h \<Rightarrow> item_id (item_at f h) = head_block_id_of g"
    and nums: "block_num b \<noteq> 0" "\<forall>x \<in> set (store f). num x \<noteq> 0"
  shows "\<exists>a. x = Some a \<and> a < length (store f') \<and> find_id (block_id cr b) f' (links f') \<noteq> None \<and>
    (item_data (item_at f' a) = b \<or> (previous (item_data (item_at f' a)) \<noteq> head_block_id_of g \<and>
      block_num (item_data (item_at f' a)) \<le> head_block_num_of g \<and> block_num b \<le> head_block_num_of g)) \<and>
    (\<forall>x \<in> set (store f'). num x \<noteq> 0)"
proof -
  from fork_push_head [OF inv push] obtain a p where a: "x = Some a" "a < length (store f')"
    "find_id (block_id cr b) f' (links f') \<noteq> None" and st: "store f' = store f @ [(make_item cr b)\<lparr>prev := p\<rparr>]"
    and new: "if \<exists>h. fork_head f = Some h \<and> block_num b \<le> num (item_at f h) then fork_head f = Some a
      else item_data (item_at f' a) = b" by auto
  have "\<forall>x \<in> set (store f'). num x \<noteq> 0" using nums by (simp add: st make_item_def)
  moreover have "item_data (item_at f' a) = b \<or> (previous (item_data (item_at f' a)) \<noteq> head_block_id_of g \<and>
      block_num (item_data (item_at f' a)) \<le> head_block_num_of g \<and> block_num b \<le> head_block_num_of g)"
  proof (cases "\<exists>h. fork_head f = Some h \<and> block_num b \<le> num (item_at f h)")
    case True
    then have f: "fork_head f = Some a" and le: "block_num b \<le> num (item_at f a)" using new by auto
    have n: "a < length (store f)" by (rule fork_invD(5) [OF inv f])
    have same: "item_at f' a = item_at f a" using n st by (simp add: nth_append)
    have i: "item_id (item_at f a) = head_block_id_of g" using head f by simp
    have "item_inv cr f a" using fork_invD(1) [OF inv n] .
    then have id: "block_id cr (item_data (item_at f a)) = head_block_id_of g"
      and num: "num (item_at f a) = block_num (item_data (item_at f a))" using i by (simp_all add: item_inv_def)
    have hn: "block_num (item_data (item_at f a)) = head_block_num_of g"
      using num_of_block_id [of cr "item_data (item_at f a)"] hd by (simp add: id head_ok_def)
    have "previous (item_data (item_at f a)) \<noteq> head_block_id_of g"
    proof
      assume "previous (item_data (item_at f a)) = head_block_id_of g"
      then have "block_num (item_data (item_at f a)) = head_block_num_of g + 1"
        using block_num_previous [of "item_data (item_at f a)"] hd by (simp add: head_ok_def)
      with hn show False by simp
    qed
    with hn le num same show ?thesis by simp
  next
    case False
    with new show ?thesis by simp
  qed
  ultimately show ?thesis using a by blast
qed

lemma switched:
  assumes h: "handlers_ok env" and b: "between f (d\<lparr>fork_db := f\<rparr>) g" and inv: "fork_inv (crypto_of env) f"
    and nums: "\<forall>x \<in> set (store f). num x \<noteq> 0" and a: "a < length (store f)"
    and run: "capture (seq (with_pins [a] (switch_forks env skip a)) (ret True)) (d\<lparr>fork_db := f\<rparr>) = (r, e)"
  shows "\<exists>g'. history_ok e g' \<and> (\<forall>x. r = Inr x \<longrightarrow>
    x \<and> head_block_id_of g' = block_id (crypto_of env) (item_data (item_at f a)))"
proof -
  let ?d = "d\<lparr>fork_db := f\<rparr>"
  let ?p = "?d\<lparr>pinned := [a] @ pinned ?d\<rparr>"
  have f: "fork_db ?p = f" by simp
  have bp: "between (fork_db ?p) ?p g"
    unfolding f using b by (rule between_same) (use between_ok [OF b] in \<open>simp_all add: chain_ok_def\<close>)
  obtain q u where q: "switch_forks env skip a ?p = (q, u)" by (cases "switch_forks env skip a ?p")
  from switch_between [OF h bp _ _ _ q, unfolded f, OF inv nums a] obtain g' where
    g': "between f u g'" "q = Inr () \<longrightarrow> head_block_id_of g' = block_id (crypto_of env) (item_data (item_at f a))" by blast
  have w: "with_pins [a] (switch_forks env skip a) ?d = (q, u\<lparr>pinned := pinned ?d\<rparr>)"
    using q by (simp add: with_pins_def on_exit_def bnd_def gets_def)
  have e: "e = u\<lparr>pinned := pinned ?d\<rparr>" "r = Inr x \<Longrightarrow> x \<and> q = Inr ()" for x
    using run w by (cases q; auto simp: capture_def seq_def bnd_def ret_def split: if_splits)+
  have "between f e g'"
    using g'(1) unfolding e(1) by (rule between_same) (use between_ok [OF g'(1)] in \<open>simp_all add: chain_ok_def\<close>)
  then show ?thesis using g'(2) e(2) by (auto simp: between_def)
qed

text \<open>What the fork database took in is applied, kept aside or switched to.\<close>

lemma push_accepted:
  assumes h: "handlers_ok env" and hist: "history_ok d g" and none: "pending_session d = None"
    and forks: "skip AND skip_fork_db = 0" and inv: "fork_inv (crypto_of env) (fork_db d)"
    and head: "case fork_head (fork_db d) of None \<Rightarrow> True | Some h \<Rightarrow> item_id (item_at (fork_db d) h) = head_block_id_of g"
    and nums: "block_num b \<noteq> 0" "\<forall>x \<in> set (store (fork_db d)). num x \<noteq> 0"
    and push: "fork_push_block (crypto_of env) b (fork_db d) = (Inr x, f)"
    and run: "push_block_body env b skip d = (r, e)"
  shows "(if previous b = head_block_id_of g
         then ((\<exists>x. r = Inr x) \<longleftrightarrow>
                 (\<exists>u. fst (pushing_session (apply_block env b skip) (d\<lparr>fork_db := f\<rparr>)) = Inr u)) \<and>
               (case r of
                 Inr x \<Rightarrow> x \<and> history_ok e (new_irreversible (block_applied (crypto_of env) b g))
               | Inl x \<Rightarrow> went_back d e \<and>
                   (no_exception x \<or> find_id (block_id (crypto_of env) b) (fork_db e) (links (fork_db e)) = None))
         else if block_num b \<le> head_block_num_of g
         then r = Inr False \<and> objects e = objects d \<and> fork_db e = f \<and>
           find_id (block_id (crypto_of env) b) (fork_db e) (links (fork_db e)) \<noteq> None
         else (case r of
                 Inr x \<Rightarrow> x \<and> (\<exists>g'. history_ok e g' \<and> head_block_id_of g' = block_id (crypto_of env) b \<and>
                   head_block_num_of g' = block_num b)
               | Inl x \<Rightarrow> \<exists>g'. history_ok e g'))"
proof -
  let ?d = "d\<lparr>fork_db := f\<rparr>" and ?cr = "crypto_of env"
  have hd: "head_ok g" and g: "gpo_of ?d g" using hist by (simp_all add: history_ok_def chain_inv_def stored_def)
  note queries = gpo_queries(1,3) [OF g]
  have body: "capture (bnd (push_to_forks env b skip) (\<lambda>r.
       case r of Some x \<Rightarrow> ret x | None \<Rightarrow> apply_pushed env b skip)) d = (r, e)"
    unfolding apply_pushed_def using run forks by (simp add: push_block_body_def)
  have on: "on_fork_db (fork_push_block ?cr b) d = (Inr x, ?d)" using push by (simp add: on_fork_db_def)
  from pushed_item [OF inv push hd head nums] obtain a where a: "x = Some a" "a < length (store f)"
    and kept: "find_id (block_id ?cr b) f (links f) \<noteq> None"
    and new: "item_data (item_at f a) = b \<or> (previous (item_data (item_at f a)) \<noteq> head_block_id_of g \<and>
      block_num (item_data (item_at f a)) \<le> head_block_num_of g \<and> block_num b \<le> head_block_num_of g)"
    and nums_f: "\<forall>x \<in> set (store f). num x \<noteq> 0"
    by blast
  let ?new = "item_data (item_at f a)"
  have to: "push_to_forks env b skip d =
      (if previous ?new \<noteq> head_block_id_of g
       then if block_num ?new > head_block_num_of g
            then seq (with_pins [a] (switch_forks env skip a)) (ret (Some True)) ?d
            else (Inr (Some False), ?d)
       else (Inr None, ?d))"
    using on a queries by (simp add: push_to_forks_def bnd_def gets_def ret_def)
  have follow: "head_block_num_of g < block_num b" if "previous b = head_block_id_of g"
  proof -
    note n = number_follows [OF hd that nums(1)]
    then show ?thesis by (simp add: word_less_nat_alt unat_word_ariths)
  qed
  consider "previous b = head_block_id_of g"
    | "previous b \<noteq> head_block_id_of g" "block_num b \<le> head_block_num_of g"
    | "previous b \<noteq> head_block_id_of g" "block_num b > head_block_num_of g" by force
  then show ?thesis
  proof cases
    case 1
    with new follow have "previous ?new = head_block_id_of g" by auto
    then have "capture (apply_pushed env b skip) ?d = (r, e)" using body to by (simp add: bnd_def capture_def)
    from apply_pushed_run [OF h _ 1 nums(1) this, unfolded went_back_forks history_forks, OF hist]
    show ?thesis using 1 by simp
  next
    case 2
    with new have "previous ?new \<noteq> head_block_id_of g" "block_num ?new \<le> head_block_num_of g" by auto
    then have "push_to_forks env b skip d = (Inr (Some False), ?d)" using to by (simp add: leD)
    with body have "r = Inr False" "e = ?d" by (simp_all add: bnd_def capture_def ret_def)
    with 2 kept show ?thesis by simp
  next
    case 3
    with new have b: "?new = b" by auto
    have c: "capture (seq (with_pins [a] (switch_forks env skip a)) (ret True)) ?d = (r, e)"
      using body to 3 b
      by (auto simp: bnd_def seq_def capture_def ret_def split: prod.splits sum.splits)
    have bt: "between f ?d g" using hist none by (simp add: between_def history_forks)
    have "\<exists>g'. history_ok e g' \<and> (\<forall>x. r = Inr x \<longrightarrow> x \<and> head_block_id_of g' = block_id ?cr b)"
      by (rule switched [OF h bt push_inv [OF inv push] nums_f a(2) c, unfolded b])
    then obtain g' where g': "history_ok e g'" "\<And>x. r = Inr x \<Longrightarrow> x \<and> head_block_id_of g' = block_id ?cr b" by blast
    show ?thesis
    proof (cases r)
      case (Inl x)
      with 3 g'(1) Inl show ?thesis by auto
    next
      case (Inr x)
      with g' num_of_block_id [of ?cr b] have "head_block_num_of g' = block_num b" "head_block_id_of g' = block_id ?cr b" x
        by (simp_all add: history_ok_def head_ok_def)
      with 3 Inr g'(1) show ?thesis by auto
    qed
  qed
qed

text \<open>
  C11: Pushing a block, in a state between blocks with no session of pending transactions, in which the head of the fork database, if it has
  one, is the head block. If the fork database refuses the block, so does \<open>_push_block\<close>, and the objects
  are not touched. A block that names the head block as its predecessor is applied, and accepted just when that succeeds: it
  is the new head, with the state of every block below it still there; or else the objects
  are back as they were and the block is gone from the fork database (unless the run is undefined).
  Any other block that is not higher than the head stays on its side branch: it is kept in the fork
  database and nothing is applied. A higher block on another branch makes the chain switch: if that
  succeeds, the block is the head; if it fails, the chain still stands at a block, with the state
  of every block below it. The head of the fork database is the head block as long as blocks succeed;
  after a refused block it stays the removed one, which is a defect the manifest reports.
\<close>

theorem push_block_outcomes:
  assumes h: "handlers_ok env" and hist: "history_ok d g" and none: "pending_session d = None"
    and forks: "skip AND skip_fork_db = 0" and inv: "fork_inv (crypto_of env) (fork_db d)"
    and head: "case fork_head (fork_db d) of None \<Rightarrow> True | Some h \<Rightarrow> item_id (item_at (fork_db d) h) = head_block_id_of g"
    and nums: "block_num b \<noteq> 0" "\<forall>x \<in> set (store (fork_db d)). num x \<noteq> 0"
    and push: "fork_push_block (crypto_of env) b (fork_db d) = (q, f)"
    and run: "push_block_body env b skip d = (r, e)"
  shows "case q of
      Inl x \<Rightarrow> (\<exists>y. r = Inl y) \<and> objects e = objects d \<and> fork_db e = f
    | Inr _ \<Rightarrow>
        (if previous b = head_block_id_of g
         then ((\<exists>x. r = Inr x) \<longleftrightarrow>
                 (\<exists>u. fst (pushing_session (apply_block env b skip) (d\<lparr>fork_db := f\<rparr>)) = Inr u)) \<and>
               (case r of
                 Inr x \<Rightarrow> x \<and> history_ok e (new_irreversible (block_applied (crypto_of env) b g))
               | Inl x \<Rightarrow> went_back d e \<and>
                   (no_exception x \<or> find_id (block_id (crypto_of env) b) (fork_db e) (links (fork_db e)) = None))
         else if block_num b \<le> head_block_num_of g
         then r = Inr False \<and> objects e = objects d \<and> fork_db e = f \<and>
           find_id (block_id (crypto_of env) b) (fork_db e) (links (fork_db e)) \<noteq> None
         else (case r of
                 Inr x \<Rightarrow> x \<and> (\<exists>g'. history_ok e g' \<and> head_block_id_of g' = block_id (crypto_of env) b \<and>
                   head_block_num_of g' = block_num b)
               | Inl x \<Rightarrow> \<exists>g'. history_ok e g'))"
proof (cases q)
  case (Inl x)
  have on: "on_fork_db (fork_push_block (crypto_of env) b) d = (Inl x, d\<lparr>fork_db := f\<rparr>)"
    using push Inl by (simp add: on_fork_db_def)
  have "push_block_body env b skip d = capture (bnd (push_to_forks env b skip) (\<lambda>r.
      case r of Some x \<Rightarrow> ret x | None \<Rightarrow> apply_pushed env b skip)) d"
    unfolding apply_pushed_def using forks by (simp add: push_block_body_def)
  moreover have "push_to_forks env b skip d = (Inl x, d\<lparr>fork_db := f\<rparr>)" using on by (simp add: push_to_forks_def bnd_def)
  ultimately show ?thesis using run Inl by (auto simp: bnd_def capture_def)
next
  case (Inr x)
  show ?thesis
    using push_accepted [OF h hist none forks inv head nums push [unfolded Inr] run] by (simp only: Inr sum.case)
qed

definition side_block :: signed_block where
  "side_block = sample_block\<lparr>previous := zero_id\<rparr>"

lemma push_sample_facts:
  "history_ok sample_db sample_gpo" "pending_session sample_db = None" "fork_db sample_db = empty_fork_db"
  "fork_inv cr empty_fork_db" "block_num sample_block \<noteq> 0" "block_num side_block = 1"
proof -
  have "take 4 sample_id = [0, 0, 0, 1]" by (simp add: sample_id_def)
  then have n: "hash_word 0 sample_id = 16777216" by (simp add: hash_word_def)
  have "idx (hd (index_list sample_objects)) sample_objects = sample_index (sample_rows ! 0)"
    using sample_idx [of 0] by (simp add: sample_objects_def upt_rec)
  then have "depth sample_objects = 0" by (simp add: depth_def sample_index_def)
  then show "history_ok sample_db sample_gpo"
    using sample_chain_inv n
    by (simp add: history_ok_def head_ok_def sample_objects_of num_from_id_def sample_gpo_def endian_reverse_u32_def)
  show "pending_session sample_db = None" "fork_db sample_db = empty_fork_db"
    by (simp_all add: sample_db_def init_hardforks_def new_chain_db_def)
  show "fork_inv cr empty_fork_db" by (simp add: fork_inv_def empty_fork_db_def)
  show "block_num sample_block \<noteq> 0"
    using n by (simp add: block_num_def sample_block_def endian_reverse_u32_def)
  have "take 4 zero_id = [0, 0, 0, 0]" by (simp add: zero_id_def numeral_nat)
  then have "hash_word 0 zero_id = 0" by (simp add: hash_word_def)
  then show "block_num side_block = 1"
    by (simp add: block_num_def side_block_def endian_reverse_u32_def)
qed

text \<open>The next block of the sample chain, and a first block of another chain, which is kept aside.\<close>

theorem push_block_outcomes_witness:
  "(case push_block_body sample_env sample_block 0 sample_db of
      (Inr x, e) \<Rightarrow> x
    | (Inl x, e) \<Rightarrow> went_back sample_db e) \<and>
   fst (push_block_body sample_env side_block 0 sample_db) = Inr False"
proof -
  let ?f = "\<lambda>b. empty_fork_db\<lparr>store := [make_item demo_crypto b], links := [0], fork_head := Some 0\<rparr>"
  note fork = push_sample_facts(3)
  have push: "fork_push_block (crypto_of sample_env) b (fork_db sample_db) = (Inr (Some 0), ?f b)" for b
    by (simp add: fork fork_push_block_def new_item_def empty_fork_db_def push_item_def link_item_def seq_def bnd_def
        update_def gets_def Let_def insert_item_def find_id_def higher_def sample_env_def)
  have "previous sample_block = head_block_id_of sample_gpo" "previous side_block \<noteq> head_block_id_of sample_gpo"
    by (simp_all add: sample_block_def side_block_def sample_gpo_def zero_id_def sample_id_def numeral_nat)
  note prev = this
  have inv: "fork_inv (crypto_of sample_env) (fork_db sample_db)" by (simp add: fork push_sample_facts(4))
  have head: "case fork_head (fork_db sample_db) of None \<Rightarrow> True | Some h \<Rightarrow> item_id (item_at (fork_db sample_db) h) = head_block_id_of sample_gpo"
    and nums: "\<forall>x \<in> set (store (fork_db sample_db)). num x \<noteq> 0" by (simp_all add: fork empty_fork_db_def)
  have skip: "(0 :: u64) AND skip_fork_db = 0" by simp
  obtain r e where run: "push_block_body sample_env sample_block 0 sample_db = (r, e)"
    by (cases "push_block_body sample_env sample_block 0 sample_db")
  obtain q u where side: "push_block_body sample_env side_block 0 sample_db = (q, u)"
    by (cases "push_block_body sample_env side_block 0 sample_db")
  have "block_num side_block \<noteq> 0" "block_num side_block \<le> head_block_num_of sample_gpo"
    by (simp_all add: push_sample_facts(6) sample_gpo_def)
  note side_num = this
  note ok = sample_ok(3) push_sample_facts(1,2) skip inv head
  from push_block_outcomes [OF ok push_sample_facts(5) nums push run] prev(1) run
  have "case (r, e) of (Inr x, e) \<Rightarrow> x | (Inl x, e) \<Rightarrow> went_back sample_db e" by (cases r) simp_all
  moreover from push_block_outcomes [OF ok side_num(1) nums push side] prev(2) side_num(2)
  have "q = Inr False" by simp
  ultimately show ?thesis using run side by simp
qed

end
