(* ===== verification/History.thy ===== *)
theory History
  imports Push_Block
begin

section \<open>The account history\<close>

text \<open>
  \<open>plugins/account_history\<close>, the handler that records every applied operation and gives each
  account it names a numbered list of them, and \<open>plugins/apis/account_history_api\<close>, which reads
  those lists and finds the transaction of an operation.
\<close>

subsection \<open>The plugin\<close>

definition visit_names :: "operation \<Rightarrow> u64 list \<Rightarrow> u64 list" where
  "visit_names op ns =
     (case op of
        Create_Account c \<Rightarrow> insert_name (creator c) (insert_name (new_name c) ns)
      | Transfer t \<Rightarrow> insert_name (t_to t) (insert_name (t_from t) ns)
      | Transfers ts \<Rightarrow> fold (\<lambda>p. insert_name (fst p)) (to_names ts) (insert_name (ts_from ts) ns))"

text \<open>
  The index \<open>by_account\<close> orders by name and then by falling sequence, so what a search from
  \<open>lower_bound(name, s)\<close> meets before another name is the list of the entries of the account up to
  \<open>s\<close>, the latest first.
\<close>

definition history_rows :: "u64 \<Rightarrow> u32 \<Rightarrow> (nat \<times> chain_object) list \<Rightarrow> account_history_object list" where
  "history_rows n s rows =
     concat (map (\<lambda>p. case snd p of
         Account_History h \<Rightarrow> if ah_name h = n \<and> ah_sequence h \<le> s then [h] else []
       | _ \<Rightarrow> []) rows)"

definition history_from :: "u64 \<Rightarrow> u32 \<Rightarrow> chain_db \<Rightarrow> account_history_object list result" where
  "history_from n s d =
     rbind (get_index account_history_type (objects d)) (\<lambda>g.
     Inr (rev (sort_key (\<lambda>h. unat (ah_sequence h)) (history_rows n s (indices g)))))"

definition next_sequence :: "account_history_object list \<Rightarrow> u32" where
  "next_sequence hs = (case hs of [] \<Rightarrow> 1 | h # _ \<Rightarrow> ah_sequence h + 1)"

definition record_name :: "nat \<Rightarrow> u64 \<Rightarrow> (chain_db, unit) sx" where
  "record_name op_id n =
     bnd (reads (history_from n 0xFFFFFFFF)) (\<lambda>hs.
     seq (create_object account_history_type
            (Account_History \<lparr>ah_name = n, ah_sequence = next_sequence hs, ah_op_id = op_id\<rparr>))
         (ret ()))"

definition create_operation :: "operation_notification \<Rightarrow> (chain_db, nat) sx" where
  "create_operation note =
     bnd head_block_time (\<lambda>t.
     bnd (lift_r (pack_to_vector c_operation (note_op note))) (\<lambda>data.
     create_object operation_type
       (Operation_Obj \<lparr>oo_trx_id = note_trx_id note, oo_block = note_block note,
          oo_trx_in_block = note_trx_in_block note, op_in_trx = 0, oo_timestamp = t, op_packed = data\<rparr>)))"

definition on_pre_apply_operation :: "operation_notification \<Rightarrow> (chain_db, unit) sx" where
  "on_pre_apply_operation note =
     bnd (create_operation note) (\<lambda>i.
     seq (reads (\<lambda>d. rbind (get_index account_history_type (objects d)) (\<lambda>_. Inr ())))
         (each (record_name i) (visit_names (note_op note) [])))"

subsection \<open>The API\<close>

definition api_limit :: u32 where "api_limit = 1000"

record operation_obj_api =
  oa_trx_id :: bytes
  oa_block :: u32
  oa_trx_in_block :: u32
  oa_op_in_trx :: u32
  oa_timestamp :: u32
  oa_op :: operation

text \<open>The constructor fills \<open>op_in_trx\<close> from \<open>trx_in_block\<close>.\<close>

definition operation_view :: "operation_object \<Rightarrow> operation_obj_api result" where
  "operation_view o' =
     rbind (fst (c_get c_operation (op_packed o'))) (\<lambda>op.
     Inr \<lparr>oa_trx_id = oo_trx_id o', oa_block = oo_block o', oa_trx_in_block = oo_trx_in_block o',
          oa_op_in_trx = oo_trx_in_block o', oa_timestamp = oo_timestamp o', oa_op = op\<rparr>)"

definition as_operation :: "chain_object \<Rightarrow> operation_object result" where
  "as_operation x = (case x of Operation_Obj o' \<Rightarrow> Inr o' | _ \<Rightarrow> Inl Undefined)"

fun history_entries :: "account_history_object list \<Rightarrow> (u32, operation_obj_api) omap \<Rightarrow> (chain_db, (u32, operation_obj_api) omap) sx" where
  "history_entries [] m = ret m"
| "history_entries (h # hs) m =
     bnd (get_object as_operation operation_type (ah_op_id h)) (\<lambda>o'.
     bnd (lift_r (operation_view o')) (\<lambda>v. history_entries hs (om_put (ah_sequence h) v m)))"

definition get_account_history :: "u64 \<Rightarrow> u32 \<Rightarrow> u32 \<Rightarrow> (chain_db, (u32, operation_obj_api) omap) sx" where
  "get_account_history n first limit =
     seq (check (limit \<le> api_limit) Fc_Assert)
    (seq (check (limit \<le> first) Fc_Assert)
    (bnd (reads (history_from n first)) (\<lambda>hs. history_entries (take (unat limit) hs) [])))"

record detailed_transaction =
  dt_trx :: signed_transaction
  dt_trx_id :: bytes
  dt_block_num :: u32
  dt_transaction_num :: u32

definition find_operation_by :: "bytes \<Rightarrow> chain_db \<Rightarrow> operation_object option result" where
  "find_operation_by k d =
     rbind (db_find_by operation_type (\<lambda>x. case x of Operation_Obj o' \<Rightarrow> oo_trx_id o' = k | _ \<Rightarrow> False) (objects d))
       (\<lambda>r. Inr (case r of Some (i, Operation_Obj o') \<Rightarrow> Some o' | _ \<Rightarrow> None))"

definition history_get_transaction :: "crypto \<Rightarrow> bytes \<Rightarrow> (chain_db, detailed_transaction) sx" where
  "history_get_transaction cr k =
     bnd (reads (find_operation_by k)) (\<lambda>r.
     case r of
       None \<Rightarrow> raise Fc_Assert
     | Some o' \<Rightarrow>
         bnd (fetch_block_by_num (oo_block o')) (\<lambda>blk.
         case blk of
           None \<Rightarrow> raise Fc_Assert
         | Some b \<Rightarrow>
             seq (check (unat (oo_trx_in_block o') < length (transactions b)) Fc_Assert)
                 (let t = transactions b ! unat (oo_trx_in_block o')
                  in ret \<lparr>dt_trx = t, dt_trx_id = transaction_id cr t, dt_block_num = oo_block o',
                          dt_transaction_num = oo_trx_in_block o'\<rparr>)))"

end
