(* ===== verification/History_Props.thy ===== *)
theory History_Props
  imports Push_Props History
begin

section \<open>The account history: properties\<close>

text \<open>
  The handler of the history plugin keeps to \<open>chain_step\<close>, so the claims about transactions and
  blocks hold with it connected, and it numbers the operations of each account without gaps.
\<close>

subsection \<open>The handler is harmless\<close>

lemma history_step: "within chain_step (on_pre_apply_operation note)"
  unfolding on_pre_apply_operation_def create_operation_def record_name_def
  by (intro step_intros queries_step) simp_all

lemma history_handler_ok: "post_handlers env = [on_pre_apply_operation] \<Longrightarrow> handlers_ok env"
  by (simp add: handlers_ok_def history_step)

interpretation operation: codec_law c_operation operation_ok
  by unfold_locales (rule rt_operation)

subsection \<open>Creating an object\<close>

lemma create_accepts:
  assumes ok: "chain_ok d" and has: "has_index t (objects d)" and v: "obj_ok t v" "t \<noteq> global_property_type"
    and fresh: "\<And>j w. stored d t j w \<Longrightarrow> \<not> same_unique_key v w"
  shows "\<exists>i e. create_object t v d = (Inr i, e) \<and> chain_ok e \<and> chain_step d e \<and> only_type t d e \<and>
    has_index t (objects e) \<and> (\<forall>j w. stored e t j w \<longleftrightarrow> (if j = i then w = v else stored d t j w)) \<and>
    (\<forall>w. \<not> stored d t i w)"
proof -
  let ?g = "idx t (objects d)"
  have st: "store_ok (objects d)" using ok by (simp add: chain_ok_def)
  have inv: "gi_inv same_unique_key ?g"
    using store_okD(2) [OF st] has by (simp add: db_inv_def has_index_def chain_clash_def)
  have free: "map_of (indices ?g) (next_id ?g) = None" using gi_invD(4) [OF inv] by fastforce
  moreover have "\<not> clashes same_unique_key (next_id ?g) v (indices ?g)"
  proof
    assume "clashes same_unique_key (next_id ?g) v (indices ?g)"
    then obtain j w where "(j, w) \<in> set (indices ?g)" "same_unique_key v w" by (auto simp: clashes_def)
    with fresh has om_lookup_iff [OF gi_invD(2) [OF inv]] show False by (auto simp: stored_def)
  qed
  ultimately obtain g where "gi_emplace same_unique_key v ?g = (Inr (next_id ?g), g)"
    by (simp add: gi_emplace_def Let_def)
  then have run: "db_create chain_clash t v (objects d) = (Inr (next_id ?g), put_idx t g (objects d))"
    using has by (simp add: db_create_def on_index_has chain_clash_def)
  let ?e = "d\<lparr>objects := put_idx t g (objects d)\<rparr>"
  have c: "create_object t v d = (Inr (next_id ?g), ?e)" using run by (simp add: create_object_def on_objects_def)
  have "chain_step d ?e" by (rule withinD [OF create_object_step [OF v] c])
  moreover have "only_type t d ?e" by (simp add: only_type_def contents_put)
  moreover have "stored ?e t j w \<longleftrightarrow> (if j = next_id ?g then w = v else stored d t j w)" for j w
    using create_effect(2) [OF st run] has by (auto simp: stored_def present_def)
  moreover have "\<not> stored d t (next_id ?g) w" for w using free by (simp add: stored_def)
  ultimately show ?thesis using c chain_step_facts [of d ?e] ok has
    by (intro exI [of _ "next_id ?g"] exI [of _ ?e]) simp
qed

subsection \<open>The numbered lists\<close>

definition history :: "chain_db \<Rightarrow> u64 \<Rightarrow> (u32 \<times> nat) set" where
  "history d n = {(s, j). \<exists>i h. stored d account_history_type i (Account_History h) \<and>
     ah_name h = n \<and> ah_sequence h = s \<and> ah_op_id h = j}"

definition numbered :: "chain_db \<Rightarrow> u64 \<Rightarrow> nat \<Rightarrow> bool" where
  "numbered d n k \<longleftrightarrow> (\<lambda>p. unat (fst p)) ` history d n = {1..k}"

text \<open>The number that follows \<open>k\<close> entries.\<close>

definition number_after :: "nat \<Rightarrow> u32" where
  "number_after k = word_of_nat (Suc k)"

lemma unat_number_after: "Suc k < 2 ^ 32 \<Longrightarrow> unat (number_after k) = Suc k"
  unfolding number_after_def by (rule unat_small)

lemma history_rows_in:
  assumes ok: "chain_ok d" and has: "has_index account_history_type (objects d)"
  shows "set (history_rows n s (indices (idx account_history_type (objects d)))) =
    {h. ah_name h = n \<and> ah_sequence h \<le> s \<and> (\<exists>i. stored d account_history_type i (Account_History h))}"
proof -
  let ?g = "idx account_history_type (objects d)"
  have st: "store_ok (objects d)" using ok by (simp add: chain_ok_def)
  have "gi_inv (chain_clash account_history_type) ?g"
    using store_okD(2) [OF st] has by (simp add: db_inv_def has_index_def)
  note wf = gi_invD(2) [OF this]
  have "h \<in> set (history_rows n s (indices ?g)) \<longleftrightarrow>
      ah_name h = n \<and> ah_sequence h \<le> s \<and> (\<exists>i. (i, Account_History h) \<in> set (indices ?g))" for h
    unfolding history_rows_def by (force split: chain_object.splits)
  with has om_lookup_iff [OF wf] show ?thesis by (auto simp: stored_def)
qed

lemma next_sequence_top:
  assumes all: "(\<lambda>h. unat (ah_sequence h)) ` set hs = {1..k}"
    and sorted: "sorted (rev (map (\<lambda>h. unat (ah_sequence h)) hs))"
  shows "next_sequence hs = number_after k"
proof (cases hs)
  case Nil
  with all have "k = 0" by simp
  with Nil show ?thesis by (simp add: next_sequence_def number_after_def)
next
  case (Cons h rest)
  then have h: "unat (ah_sequence h) \<in> {1..k}" using all by force
  then have "k \<in> (\<lambda>h. unat (ah_sequence h)) ` set hs" using all by simp
  then obtain x where x: "x \<in> set hs" "unat (ah_sequence x) = k" by auto
  have "unat (ah_sequence x) \<le> unat (ah_sequence h)"
    using sorted x(1) Cons by (auto simp: sorted_append)
  with h x(2) have "unat (ah_sequence h) = k" by simp
  moreover have "word_of_nat (unat (ah_sequence h)) = ah_sequence h" by simp
  ultimately have "ah_sequence h = word_of_nat k" by simp
  with Cons show ?thesis by (simp add: next_sequence_def number_after_def)
qed

lemma next_sequence_run:
  assumes ok: "chain_ok d" and has: "has_index account_history_type (objects d)" and k: "numbered d n k"
  shows "\<exists>hs. history_from n 0xFFFFFFFF d = Inr hs \<and> next_sequence hs = number_after k"
proof -
  let ?f = "\<lambda>h. unat (ah_sequence h)"
  let ?hs = "rev (sort_key ?f (history_rows n 0xFFFFFFFF (indices (idx account_history_type (objects d)))))"
  have "s \<le> 0xFFFFFFFF" for s :: u32 using unat_bound [of s] by (simp add: word_le_nat_alt)
  then have "?f ` set ?hs = {1..k}"
    using k history_rows_in [OF ok has, of n "0xFFFFFFFF"]
    by (auto simp: numbered_def history_def image_iff set_eq_iff) (metis fst_conv)+
  moreover have "sorted (rev (map ?f ?hs))" by (simp add: rev_map)
  ultimately have "next_sequence ?hs = number_after k" by (rule next_sequence_top)
  with has show ?thesis by (simp add: history_from_def get_index_def)
qed

lemma record_name_run:
  assumes ok: "chain_ok d" and has: "has_index account_history_type (objects d)"
    and k: "numbered d n k" "Suc k < 2 ^ 32"
  shows "\<exists>e. record_name op n d = (Inr (), e) \<and> chain_ok e \<and> chain_step d e \<and>
    only_type account_history_type d e \<and> has_index account_history_type (objects e) \<and>
    history e = (history d)(n := insert (number_after k, op) (history d n))"
proof -
  from next_sequence_run [OF ok has k(1)] obtain hs where
    hs: "history_from n 0xFFFFFFFF d = Inr hs" "next_sequence hs = number_after k" by blast
  let ?h = "\<lparr>ah_name = n, ah_sequence = number_after k, ah_op_id = op\<rparr>"
  note w = unat_number_after [OF k(2)]
  have "\<not> same_unique_key (Account_History ?h) w" if "stored d account_history_type j w" for j w
  proof
    assume "same_unique_key (Account_History ?h) w"
    then obtain h where h: "w = Account_History h" "ah_name h = n" "ah_sequence h = number_after k"
      by (cases w) auto
    with that have "(number_after k, ah_op_id h) \<in> history d n" by (auto simp: history_def)
    then have "unat (number_after k) \<in> {1..k}" using k(1) unfolding numbered_def by force
    with w show False by simp
  qed
  note fresh = this
  have "obj_ok account_history_type (Account_History ?h)" "account_history_type \<noteq> global_property_type" by simp_all
  from create_accepts [OF ok has this] fresh obtain i e where
    e: "create_object account_history_type (Account_History ?h) d = (Inr i, e)" "chain_ok e" "chain_step d e"
      "only_type account_history_type d e" "has_index account_history_type (objects e)"
      "\<forall>j w. stored e account_history_type j w \<longleftrightarrow>
         (if j = i then w = Account_History ?h else stored d account_history_type j w)"
      "\<forall>w. \<not> stored d account_history_type i w" by blast
  define new where "new = ?h"
  have new: "ah_name new = n" "ah_sequence new = number_after k" "ah_op_id new = op" by (simp_all add: new_def)
  have st: "stored e account_history_type j (Account_History h) \<longleftrightarrow>
      j = i \<and> h = new \<or> stored d account_history_type j (Account_History h)" for j h
    unfolding new_def using e(6,7) by (cases "j = i") auto
  have "(s, j) \<in> history e m \<longleftrightarrow> m = n \<and> s = number_after k \<and> j = op \<or> (s, j) \<in> history d m" for m s j
  proof -
    have "(\<exists>i' h. (i' = i \<and> h = new \<or> stored d account_history_type i' (Account_History h)) \<and> P h) \<longleftrightarrow>
        P new \<or> (\<exists>i' h. stored d account_history_type i' (Account_History h) \<and> P h)" for P by blast
    from this [of "\<lambda>h. ah_name h = m \<and> ah_sequence h = s \<and> ah_op_id h = j"] show ?thesis
      unfolding history_def st new by auto
  qed
  then have "history e m = (if m = n then insert (number_after k, op) (history d n) else history d m)" for m
    by (auto simp: set_eq_iff)
  moreover have "record_name op n d = (Inr (), e)"
    using hs e(1) by (simp add: record_name_def bnd_def seq_def reads_def ret_def)
  ultimately show ?thesis using e by auto
qed

lemma numbered_insert: "numbered d n k \<Longrightarrow> Suc k < 2 ^ 32 \<Longrightarrow>
    history e n = insert (number_after k, op) (history d n) \<Longrightarrow> numbered e n (Suc k)"
  using unat_number_after [of k] by (auto simp: numbered_def)

lemma record_names_run:
  assumes "chain_ok d" and "has_index account_history_type (objects d)" and "distinct ns"
    and "\<And>n. n \<in> set ns \<Longrightarrow> numbered d n (k n) \<and> Suc (k n) < 2 ^ 32"
  shows "\<exists>e. each (record_name op) ns d = (Inr (), e) \<and> chain_step d e \<and> only_type account_history_type d e \<and>
    history e = (\<lambda>n. if n \<in> set ns then insert (number_after (k n), op) (history d n) else history d n)"
  using assms
proof (induction ns arbitrary: d)
  case (Nil d)
  then show ?case by (simp add: ret_def step.refl)
next
  case (Cons n ns d)
  from record_name_run [OF Cons.prems(1,2)] Cons.prems(4) [of n] obtain d1 where
    d1: "record_name op n d = (Inr (), d1)" "chain_ok d1" "chain_step d d1" "only_type account_history_type d d1"
      "has_index account_history_type (objects d1)"
      "history d1 = (history d)(n := insert (number_after (k n), op) (history d n))" by fastforce
  have "distinct ns" "n \<notin> set ns" using Cons.prems(3) by simp_all
  moreover have "numbered d1 m (k m) \<and> Suc (k m) < 2 ^ 32" if "m \<in> set ns" for m
    using Cons.prems(4) [of m] that \<open>n \<notin> set ns\<close> d1(6) by (auto simp: numbered_def)
  ultimately obtain e where e: "each (record_name op) ns d1 = (Inr (), e)" "chain_step d1 e"
      "only_type account_history_type d1 e"
      "history e = (\<lambda>n. if n \<in> set ns then insert (number_after (k n), op) (history d1 n) else history d1 n)"
    using Cons.IH [OF d1(2,5)] by blast
  have "history e = (\<lambda>m. if m \<in> set (n # ns) then insert (number_after (k m), op) (history d m) else history d m)"
    using \<open>n \<notin> set ns\<close> unfolding e(4) d1(6) by (auto simp: fun_eq_iff)
  moreover have "each (record_name op) (n # ns) d = (Inr (), e)" using d1(1) e(1) by (simp add: seq_def bnd_def)
  ultimately show ?case using step.trans [OF d1(3) e(2)] only_type_trans [OF d1(4) e(3)] by blast
qed

lemma distinct_insert_name: "distinct ns \<Longrightarrow> distinct (insert_name n ns)"
  by (simp add: insert_name_def distinct_insort)

lemma distinct_names: "distinct ns \<Longrightarrow> distinct (visit_names op ns)"
proof -
  have "distinct ns \<Longrightarrow> distinct (fold (\<lambda>p. insert_name (fst p)) ps ns)" for ps :: "(u64 \<times> asset) list" and ns
    by (induction ps arbitrary: ns) (simp_all add: distinct_insert_name)
  then show "distinct ns \<Longrightarrow> distinct (visit_names op ns)"
    by (cases op) (simp_all add: visit_names_def distinct_insert_name)
qed

lemma names_distinct: "distinct (visit_names op [])"
  by (rule distinct_names) simp

text \<open>
  Recording an operation. Given histories numbered from 1 without gaps, with room for one more
  number, the handler succeeds; it stores the operation with its block, transaction and time,
  and appends to the history of each account that the operation names, and of no other, one entry
  with the next number that refers to it. So the histories stay numbered without gaps; all other
  objects are as before.
\<close>

theorem history_recorded:
  assumes ok: "chain_ok d" and g: "gpo_of d g"
    and has: "has_index operation_type (objects d)" "has_index account_history_type (objects d)"
    and size: "pack_size c_operation (note_op note) < 2 ^ 31"
    and k: "\<And>n. n \<in> set (visit_names (note_op note) []) \<Longrightarrow> numbered d n (k n) \<and> Suc (k n) < 2 ^ 32"
  shows "\<exists>e i x. on_pre_apply_operation note d = (Inr (), e) \<and> chain_step d e \<and>
    stored e operation_type i (Operation_Obj x) \<and> (\<forall>w. \<not> stored d operation_type i w) \<and>
    oo_trx_id x = note_trx_id note \<and> oo_block x = note_block note \<and> oo_timestamp x = gp_time g \<and>
    op_packed x = packed c_operation (note_op note) \<and>
    (\<forall>n. history e n = (if n \<in> set (visit_names (note_op note) [])
       then insert (number_after (k n), i) (history d n) else history d n)) \<and>
    (\<forall>t. t \<noteq> operation_type \<and> t \<noteq> account_history_type \<longrightarrow> contents (objects e) t = contents (objects d) t)"
proof -
  let ?x = "\<lparr>oo_trx_id = note_trx_id note, oo_block = note_block note, oo_trx_in_block = note_trx_in_block note,
      op_in_trx = 0, oo_timestamp = gp_time g, op_packed = packed c_operation (note_op note)\<rparr>"
  have "obj_ok operation_type (Operation_Obj ?x)" "operation_type \<noteq> global_property_type" by simp_all
  from create_accepts [OF ok has(1) this] obtain i d1 where
    d1: "create_object operation_type (Operation_Obj ?x) d = (Inr i, d1)" "chain_ok d1" "chain_step d d1"
      "only_type operation_type d d1"
      "\<forall>j w. stored d1 operation_type j w \<longleftrightarrow> (if j = i then w = Operation_Obj ?x else stored d operation_type j w)"
      "\<forall>w. \<not> stored d operation_type i w" by auto
  have h1: "has_index account_history_type (objects d1)" "history d1 = history d"
    using has(2) d1(4) stored_other [OF d1(4), of account_history_type]
    by (simp_all add: has_index_contents only_type_def history_def fun_eq_iff)
  have "numbered d1 n (k n) \<and> Suc (k n) < 2 ^ 32" if "n \<in> set (visit_names (note_op note) [])" for n
    using k [OF that] by (simp add: numbered_def h1(2))
  from record_names_run [where op = i, OF d1(2) h1(1) names_distinct this] obtain e where
    e: "each (record_name i) (visit_names (note_op note) []) d1 = (Inr (), e)" "chain_step d1 e"
      "only_type account_history_type d1 e"
      "history e = (\<lambda>n. if n \<in> set (visit_names (note_op note) [])
         then insert (number_after (k n), i) (history d n) else history d n)"
    unfolding h1(2) by blast
  have "create_operation note d = (Inr i, d1)"
    using d1(1) gpo_queries(2) [OF g] operation.pack_ok [OF size]
    by (simp add: create_operation_def bnd_def lift_r_def)
  then have "on_pre_apply_operation note d = (Inr (), e)"
    using e(1) h1(1) by (simp add: on_pre_apply_operation_def bnd_def seq_def reads_def get_index_def)
  moreover have "stored e operation_type i (Operation_Obj ?x)"
    using stored_other [OF e(3), of operation_type] d1(5) by simp
  moreover have "\<forall>t. t \<noteq> operation_type \<and> t \<noteq> account_history_type \<longrightarrow> contents (objects e) t = contents (objects d) t"
    using d1(4) e(3) by (simp add: only_type_def)
  ultimately show ?thesis using d1(6) step.trans [OF d1(3) e(2)] e(4)
    by (intro exI [of _ e] exI [of _ i] exI [of _ ?x]) simp
qed

definition sample_note :: operation_notification where
  "sample_note = \<lparr>note_trx_id = [], note_block = 2, note_trx_in_block = 0, note_op = demo_transfer\<rparr>"

theorem history_recorded_witness:
  "\<exists>e i. on_pre_apply_operation sample_note sample_db = (Inr (), e) \<and> history e 1 = {(1, i)} \<and> history e 2 = {(1, i)}"
proof -
  have "\<not> stored sample_db account_history_type i v" for i v
    unfolding stored_def sample_objects_of account_history_type_def
    by (simp add: sample_idx sample_index_def sample_rows_def)
  then have h: "history sample_db n = {}" for n by (simp add: history_def)
  have k: "numbered sample_db n 0 \<and> Suc 0 < 2 ^ 32" for n by (simp add: numbered_def h)
  have size: "pack_size c_operation (note_op sample_note) < 2 ^ 31"
    by (simp add: sample_note_def demo_transfer_def pack_size_def c_operation_def c_variant_def
        c_transfer_def c_class_def c_pair_def c_word_def c_asset_def c_string_def c_bytes_def put_size_def
        c_unsigned_int_def put_varint.simps Let_def)
  have "set (visit_names (note_op sample_note) []) = {1, 2}"
    by (auto simp: sample_note_def demo_transfer_def visit_names_def insert_name_def)
  with history_recorded [OF sample_ok(1) sample_gpo_of _ _ size, of "\<lambda>_. 0"] k show ?thesis
    by (auto simp: sample_has h number_after_def)
qed

end
