(* ===== verification/Chain_Plugin.thy ===== *)
theory Chain_Plugin
  imports Push_Block
begin

section \<open>The chain plugin: the write queues\<close>

text \<open>
  \<open>plugins/chain_plugin/src/chain_plugin.cpp\<close>. Threads that want the database changed put the
  address of a \<open>write_context\<close> into one of two queues and wait for its promise; one thread takes
  the contexts out, blocks before transactions, and performs them under the write lock. A
  context is an index into a list that only grows. The thread is a state machine: each step is
  one access to a queue or one request performed, so that submissions come between any two of
  them. The clock, the memory and the handlers are given at each step.
\<close>

subsection \<open>Requests\<close>

datatype write_request =
    Block_Request signed_block
  | Transaction_Request signed_transaction
  | Generate_Request u32 u64 bytes u32

text \<open>A \<open>write_context\<close>, with the block a \<open>generate_block_request\<close> is filled with and its promise.\<close>

record write_context =
  request :: write_request
  cxt_skip :: u32
  success :: bool
  except :: "error option"
  made_block :: signed_block
  promise_set :: bool

definition new_context :: "write_request \<Rightarrow> u32 \<Rightarrow> write_context" where
  "new_context r skip =
     \<lparr>request = r, cxt_skip = skip, success = True, except = None, made_block = empty_block, promise_set = False\<rparr>"

text \<open>
  The handlers of \<open>write_request_visitor\<close>: every exception is stored, one that is no
  \<open>fc::exception\<close> as an unhandled one.
\<close>

definition attempt :: "('s, 'a) sx \<Rightarrow> ('s, 'a result) sx" where
  "attempt m s =
     (case m s of
        (Inl e, t) \<Rightarrow> if no_exception e then (Inl e, t) else (Inr (Inl (if std_exception e then Unhandled else e)), t)
      | (Inr x, t) \<Rightarrow> (Inr (Inr x), t))"

definition store_result :: "('a \<Rightarrow> write_context) \<Rightarrow> write_context \<Rightarrow> 'a result \<Rightarrow> write_context" where
  "store_result f c r = (case r of Inl e \<Rightarrow> c\<lparr>success := False, except := Some e\<rparr> | Inr x \<Rightarrow> f x)"

definition visit_request :: "chain_env \<Rightarrow> write_context \<Rightarrow> (chain_db, write_context) sx" where
  "visit_request env c =
     (case request c of
        Block_Request b \<Rightarrow>
          bnd (attempt (push_block env b (ucast (cxt_skip c)))) (\<lambda>r.
          ret (store_result (\<lambda>x. c\<lparr>success := x\<rparr>) c r))
      | Transaction_Request t \<Rightarrow>
          bnd (attempt (push_transaction env t 0)) (\<lambda>r.
          ret (store_result (\<lambda>_. c\<lparr>success := True\<rparr>) c r))
      | Generate_Request w n pk skip \<Rightarrow>
          bnd (attempt (generate_block env w n pk (ucast skip))) (\<lambda>r.
          ret (store_result (\<lambda>b. c\<lparr>success := True, made_block := b\<rparr>) c r)))"

subsection \<open>The plugin and its thread\<close>

text \<open>
  \<open>Polling\<close> is the head of the outer loop, \<open>Polling_Trx\<close> its second \<open>pop\<close>; \<open>Serving\<close> holds a
  context in hand and the write lock, \<open>Next_Block\<close> and \<open>Next_Trx\<close> are the two \<open>pop\<close>s of the inner
  loop. \<open>Crashed\<close>: a request ran into undefined behaviour, or an exception left the thread.
\<close>

datatype thread_state = Polling | Polling_Trx | Serving nat | Next_Block | Next_Trx | Ended | Crashed

record chain_plugin =
  pdb :: chain_db
  contexts :: "write_context list"
  write_queue :: "nat list"
  write_block_queue :: "nat list"
  running :: bool
  is_syncing :: bool
  start :: u32
  thread :: thread_state

text \<open>\<open>start_write_processing\<close>: the clock is in microseconds, \<open>start\<close> in seconds.\<close>

definition seconds_of :: "nat \<Rightarrow> u32" where
  "seconds_of now = word_of_nat (now div 1000000)"

definition start_write_processing :: "nat \<Rightarrow> chain_db \<Rightarrow> chain_plugin" where
  "start_write_processing now d =
     \<lparr>pdb = d, contexts = [], write_queue = [], write_block_queue = [], running = True, is_syncing = True,
      start = seconds_of now, thread = Polling\<rparr>"

definition stop_write_processing :: "chain_plugin \<Rightarrow> chain_plugin" where
  "stop_write_processing p = p\<lparr>running := False\<rparr>"

definition sync_done :: "u32 \<Rightarrow> u32 \<Rightarrow> bool" where
  "sync_done st head_time \<longleftrightarrow> int (unat st) - int (unat head_time) < 60"

definition write_lock_hold_time :: nat where "write_lock_hold_time = 200"

definition held_long :: "u32 \<Rightarrow> nat \<Rightarrow> bool" where
  "held_long st now \<longleftrightarrow> int now - int (unat st) * 1000000 > int write_lock_hold_time * 1000"

text \<open>After a request: leave the sync mode, give up the lock, or look for another request.\<close>

definition after_request :: "nat \<Rightarrow> chain_plugin \<Rightarrow> chain_plugin" where
  "after_request now p =
     (if is_syncing p then
        (case fst (head_block_time (pdb p)) of
           Inl e \<Rightarrow> p\<lparr>thread := Crashed\<rparr>
         | Inr t \<Rightarrow> if sync_done (start p) t then p\<lparr>start := seconds_of now, is_syncing := False, thread := Polling\<rparr>
                    else p\<lparr>thread := Next_Block\<rparr>)
      else if held_long (start p) now then p\<lparr>thread := Polling\<rparr>
      else p\<lparr>thread := Next_Block\<rparr>)"

definition serve :: "chain_env \<Rightarrow> nat \<Rightarrow> nat \<Rightarrow> chain_plugin \<Rightarrow> chain_plugin" where
  "serve env now a p =
     (case visit_request env (contexts p ! a) (pdb p) of
        (Inl e, d) \<Rightarrow> p\<lparr>pdb := d, thread := Crashed\<rparr>
      | (Inr c, d) \<Rightarrow> after_request now (p\<lparr>pdb := d, contexts := (contexts p)[a := c\<lparr>promise_set := True\<rparr>]\<rparr>))"

definition pop_block_queue :: "thread_state \<Rightarrow> chain_plugin \<Rightarrow> chain_plugin" where
  "pop_block_queue other p =
     (case write_block_queue p of
        [] \<Rightarrow> p\<lparr>thread := other\<rparr>
      | a # q \<Rightarrow> p\<lparr>write_block_queue := q, thread := Serving a\<rparr>)"

definition pop_trx_queue :: "chain_plugin \<Rightarrow> chain_plugin" where
  "pop_trx_queue p =
     (case write_queue p of
        [] \<Rightarrow> p\<lparr>thread := Polling\<rparr>
      | a # q \<Rightarrow> p\<lparr>write_queue := q, thread := Serving a\<rparr>)"

definition thread_step :: "chain_env \<Rightarrow> nat \<Rightarrow> chain_plugin \<Rightarrow> chain_plugin" where
  "thread_step env now p =
     (case thread p of
        Polling \<Rightarrow>
          if \<not> running p then p\<lparr>thread := Ended\<rparr>
          else pop_block_queue Polling_Trx (if is_syncing p then p else p\<lparr>start := seconds_of now\<rparr>)
      | Polling_Trx \<Rightarrow> pop_trx_queue p
      | Serving a \<Rightarrow> serve env now a p
      | Next_Block \<Rightarrow> pop_block_queue Next_Trx p
      | Next_Trx \<Rightarrow> pop_trx_queue p
      | Ended \<Rightarrow> p
      | Crashed \<Rightarrow> p)"

subsection \<open>The callers\<close>

definition goes_to_blocks :: "write_request \<Rightarrow> bool" where
  "goes_to_blocks r = (case r of Transaction_Request t \<Rightarrow> False | _ \<Rightarrow> True)"

definition submit :: "write_request \<Rightarrow> u32 \<Rightarrow> chain_plugin \<Rightarrow> chain_plugin" where
  "submit r skip p =
     (let a = length (contexts p);
          p = p\<lparr>contexts := contexts p @ [new_context r skip]\<rparr>
      in if goes_to_blocks r then p\<lparr>write_block_queue := write_block_queue p @ [a]\<rparr>
         else p\<lparr>write_queue := write_queue p @ [a]\<rparr>)"

definition submit_block :: "signed_block \<Rightarrow> u32 \<Rightarrow> chain_plugin \<Rightarrow> chain_plugin" where
  "submit_block b skip = submit (Block_Request b) skip"

definition submit_transaction :: "signed_transaction \<Rightarrow> chain_plugin \<Rightarrow> chain_plugin" where
  "submit_transaction t = submit (Transaction_Request t) 0"

definition submit_generate :: "u32 \<Rightarrow> u64 \<Rightarrow> bytes \<Rightarrow> u32 \<Rightarrow> chain_plugin \<Rightarrow> chain_plugin" where
  "submit_generate w n pk skip = submit (Generate_Request w n pk skip) 0"

text \<open>What a caller makes of its context once the promise is set.\<close>

definition block_answer :: "write_context \<Rightarrow> bool result" where
  "block_answer c = (case except c of Some e \<Rightarrow> Inl e | None \<Rightarrow> Inr (success c))"

definition transaction_answer :: "write_context \<Rightarrow> unit result" where
  "transaction_answer c = (case except c of Some e \<Rightarrow> Inl e | None \<Rightarrow> Inr ())"

definition generate_answer :: "write_context \<Rightarrow> signed_block result" where
  "generate_answer c =
     (case except c of Some e \<Rightarrow> Inl e | None \<Rightarrow> rbind (assert_r (success c) Fc_Assert) (\<lambda>_. Inr (made_block c)))"

text \<open>A call with no other caller between the submission and the answer.\<close>

definition accept_block :: "chain_env \<Rightarrow> signed_block \<Rightarrow> u32 \<Rightarrow> (chain_db, bool) sx" where
  "accept_block env b skip =
     bnd (visit_request env (new_context (Block_Request b) skip)) (\<lambda>c. lift_r (block_answer c))"

definition accept_transaction :: "chain_env \<Rightarrow> signed_transaction \<Rightarrow> (chain_db, unit) sx" where
  "accept_transaction env t =
     bnd (visit_request env (new_context (Transaction_Request t) 0)) (\<lambda>c. lift_r (transaction_answer c))"

definition plugin_generate_block :: "chain_env \<Rightarrow> u32 \<Rightarrow> u64 \<Rightarrow> bytes \<Rightarrow> u32 \<Rightarrow> (chain_db, signed_block) sx" where
  "plugin_generate_block env w n pk skip =
     bnd (visit_request env (new_context (Generate_Request w n pk skip) 0)) (\<lambda>c. lift_r (generate_answer c))"

subsection \<open>Starting\<close>

record plugin_options =
  opt_resync :: bool
  opt_replay :: bool
  opt_flush_interval :: u32
  opt_args :: open_db_args

text \<open>
  The wipe of a resync is given the data directory, not the directory \<open>blockchain\<close> in it that
  holds the log: it removes the shared memory only.
\<close>

definition open_or_reindex :: "chain_env \<Rightarrow> open_db_args \<Rightarrow> (chain_db, unit) sx" where
  "open_or_reindex env args = catch_fc (db_open env args) (\<lambda>_. seq (reindex env args) (ret ()))"

definition plugin_startup :: "chain_env \<Rightarrow> plugin_options \<Rightarrow> (chain_db, unit) sx" where
  "plugin_startup env opts =
     catch_fc
       (seq (update (set_flush_interval (opt_flush_interval opts)))
       (seq (only_if (\<lambda>_. opt_resync opts) (update (db_wipe False)))
            (if opt_replay opts then seq (reindex env (opt_args opts)) (ret ())
             else open_or_reindex env (opt_args opts))))
       (\<lambda>_. ret ())"

end
