(* ===== verification/Chain_Plugin_Props.thy ===== *)
theory Chain_Plugin_Props
  imports Chain_Plugin Accept_Props
begin

section \<open>The chain plugin: properties\<close>

text \<open>
  The write queues as a concurrent object: whatever the callers submit between the steps of the
  thread, the database and the answers are those of the requests performed one after the other,
  each once, blocks and transactions each in the order of their submission; a block is
  answered after a bounded number of steps, a request left in a queue at the end never.
\<close>

subsection \<open>The sequential reference\<close>

definition unanswered :: "write_context \<Rightarrow> write_context" where
  "unanswered c = new_context (request c) (cxt_skip c)"

definition execute :: "chain_env \<Rightarrow> write_context \<Rightarrow> chain_db \<Rightarrow> write_context \<times> chain_db" where
  "execute env c d =
     (case visit_request env c d of (Inl e, d') \<Rightarrow> (c, d') | (Inr c', d') \<Rightarrow> (c'\<lparr>promise_set := True\<rparr>, d'))"

fun serial :: "write_context list \<Rightarrow> chain_db \<Rightarrow> (nat \<times> chain_env) list \<Rightarrow> write_context list \<times> chain_db" where
  "serial cs d [] = (cs, d)"
| "serial cs d ((a, env) # l) = (case execute env (cs ! a) d of (c, e) \<Rightarrow> serial (cs[a := c]) e l)"

lemma serial_append: "serial cs d (l @ m) = (case serial cs d l of (cs', d') \<Rightarrow> serial cs' d' m)"
  by (induction cs d l rule: serial.induct) (auto split: prod.splits)

lemma serial_extend:
  "\<forall>x \<in> set l. fst x < length cs \<Longrightarrow> serial (cs @ [c]) d l = (fst (serial cs d l) @ [c], snd (serial cs d l))"
  by (induction cs d l rule: serial.induct) (auto simp: nth_append list_update_append split: prod.splits)

lemma serial_other: "a \<notin> fst ` set l \<Longrightarrow> fst (serial cs d l) ! a = cs ! a"
  by (induction cs d l rule: serial.induct) (auto split: prod.splits)

lemma serial_length [simp]: "length (fst (serial cs d l)) = length cs"
  by (induction cs d l rule: serial.induct) (auto split: prod.splits)

lemma unanswered_simps [simp]:
  "request (unanswered c) = request c" "cxt_skip (unanswered c) = cxt_skip c" "promise_set (unanswered c) = False"
  "unanswered (unanswered c) = unanswered c" "unanswered (new_context r s) = new_context r s"
  "unanswered (c\<lparr>promise_set := x\<rparr>) = unanswered c" "unanswered (c\<lparr>success := x\<rparr>) = unanswered c"
  "unanswered (c\<lparr>except := e\<rparr>) = unanswered c" "unanswered (c\<lparr>made_block := b\<rparr>) = unanswered c"
  by (simp_all add: unanswered_def new_context_def)

lemma store_result_request:
  assumes "\<And>x. unanswered (f x) = unanswered c"
  shows "unanswered (store_result f c r) = unanswered c"
  using assms by (cases r) (simp_all add: store_result_def)

lemma visit_request_same:
  assumes "visit_request env c d = (Inr c', d')"
  shows "unanswered c' = unanswered c"
proof (cases "request c")
  case (Block_Request b)
  with assms obtain r where "c' = store_result (\<lambda>x. c\<lparr>success := x\<rparr>) c r"
    by (auto simp: visit_request_def bnd_def ret_def split: prod.splits sum.splits)
  then show ?thesis by (simp add: store_result_request)
next
  case (Transaction_Request t)
  with assms obtain r :: "unit result" where "c' = store_result (\<lambda>_. c\<lparr>success := True\<rparr>) c r"
    by (auto simp: visit_request_def bnd_def ret_def split: prod.splits sum.splits)
  then show ?thesis by (simp add: store_result_request)
next
  case (Generate_Request w n pk s)
  with assms obtain r where "c' = store_result (\<lambda>b. c\<lparr>success := True, made_block := b\<rparr>) c r"
    by (auto simp: visit_request_def bnd_def ret_def split: prod.splits sum.splits)
  then show ?thesis by (simp add: store_result_request)
qed

subsection \<open>Runs of the plugin\<close>

definition in_hand :: "chain_plugin \<Rightarrow> nat list" where
  "in_hand p = (case thread p of Serving a \<Rightarrow> [a] | _ \<Rightarrow> [])"

text \<open>A run keeps the list of the requests performed, each with what its step was given.\<close>

inductive plugin_run :: "chain_plugin \<Rightarrow> (nat \<times> chain_env) list \<Rightarrow> chain_plugin \<Rightarrow> bool" for p0 where
  started: "plugin_run p0 [] p0"
| submitted: "plugin_run p0 l p \<Longrightarrow> plugin_run p0 l (submit r skip p)"
| stopped: "plugin_run p0 l p \<Longrightarrow> plugin_run p0 l (stop_write_processing p)"
| worked: "plugin_run p0 l p \<Longrightarrow> plugin_run p0 (l @ map (\<lambda>a. (a, env)) (in_hand p)) (thread_step env now p)"

definition of_kind :: "bool \<Rightarrow> chain_plugin \<Rightarrow> nat \<Rightarrow> bool" where
  "of_kind b p a \<longleftrightarrow> goes_to_blocks (request (contexts p ! a)) = b"

definition queue_of :: "bool \<Rightarrow> chain_plugin \<Rightarrow> nat list" where
  "queue_of b p = (if b then write_block_queue p else write_queue p)"

definition all_of :: "bool \<Rightarrow> chain_plugin \<Rightarrow> nat list" where
  "all_of b p = filter (of_kind b p) [0 ..< length (contexts p)]"

definition in_order :: "nat list \<Rightarrow> chain_plugin \<Rightarrow> bool" where
  "in_order done p \<longleftrightarrow>
     (\<forall>b. all_of b p = filter (of_kind b p) done @ queue_of b p) \<and>
     (\<forall>a \<in> set done. a < length (contexts p))"

lemma distinct_of_kinds:
  "distinct (filter (of_kind True p) xs) \<Longrightarrow> distinct (filter (of_kind False p) xs) \<Longrightarrow> distinct xs"
  by (induction xs) (auto simp: of_kind_def split: if_splits)

lemma in_order_distinct:
  assumes "in_order done p"
  shows "distinct done" "distinct (queue_of b p)" "set (queue_of b p) \<inter> set done = {}"
    "\<forall>a \<in> set (queue_of b p). a < length (contexts p) \<and> of_kind b p a"
proof -
  have d: "distinct (filter (of_kind x p) done @ queue_of x p)" for x
    using assms unfolding in_order_def by (metis all_of_def distinct_filter distinct_upt)
  show "distinct done" using d distinct_of_kinds
    by (metis distinct_append)
  show "distinct (queue_of b p)" using d [of b] by simp
  have "set (filter (of_kind b p) done @ queue_of b p) = set (all_of b p)" using assms by (simp add: in_order_def)
  then show k: "\<forall>a \<in> set (queue_of b p). a < length (contexts p) \<and> of_kind b p a" by (auto simp: all_of_def)
  with d [of b] show "set (queue_of b p) \<inter> set done = {}" by auto
qed

lemma in_order_same:
  assumes "map request (contexts q) = map request (contexts p)"
    and "write_queue q = write_queue p" and "write_block_queue q = write_block_queue p"
  shows "in_order done q = in_order done p"
proof -
  have l: "length (contexts q) = length (contexts p)" using assms(1) by (rule map_eq_imp_length_eq)
  have r: "request (contexts q ! a) = request (contexts p ! a)" if "a < length (contexts p)" for a
    using assms(1) l that by (metis nth_map)
  have "all_of b q = all_of b p" for b unfolding all_of_def l by (rule filter_cong) (auto simp: of_kind_def r)
  moreover have "filter (of_kind b q) done = filter (of_kind b p) done" if "\<forall>a \<in> set done. a < length (contexts p)" for b
    using that by (intro filter_cong) (auto simp: of_kind_def r)
  moreover have "queue_of b q = queue_of b p" for b by (simp add: queue_of_def assms)
  ultimately show ?thesis unfolding in_order_def l by auto
qed

lemma in_order_thread [simp]:
  "in_order done (p\<lparr>thread := t\<rparr>) = in_order done p" "in_order done (p\<lparr>pdb := d\<rparr>) = in_order done p"
  "in_order done (p\<lparr>start := s\<rparr>) = in_order done p" "in_order done (p\<lparr>is_syncing := x\<rparr>) = in_order done p"
  "in_order done (p\<lparr>running := x\<rparr>) = in_order done p"
  by (rule in_order_same; simp)+

lemma pop_in_order:
  assumes "in_order done p" and "queue_of b p = a # q" and "contexts p' = contexts p"
    and "\<And>x. queue_of x p' = (if x = b then q else queue_of x p)"
  shows "in_order (done @ [a]) p'"
proof -
  have a: "a < length (contexts p)" "of_kind b p a" using in_order_distinct(4) [OF assms(1), of b] assms(2) by auto
  have "of_kind x p a \<longleftrightarrow> x = b" for x using a(2) by (auto simp: of_kind_def)
  moreover have k: "of_kind x p' = of_kind x p" for x by (simp add: of_kind_def assms(3) fun_eq_iff)
  moreover have "all_of x p' = all_of x p" for x unfolding all_of_def k assms(3) ..
  ultimately show ?thesis using assms a by (auto simp: in_order_def)
qed

lemma submit_in_order:
  assumes "in_order done p"
  shows "in_order done (submit r skip p)"
proof -
  have k: "of_kind b (submit r skip p) a = of_kind b p a" if "a < length (contexts p)" for a b
    using that by (simp add: of_kind_def submit_def Let_def nth_append)
  have n: "of_kind b (submit r skip p) (length (contexts p)) \<longleftrightarrow> goes_to_blocks r = b" for b
    by (simp add: of_kind_def submit_def Let_def new_context_def)
  have c: "length (contexts (submit r skip p)) = Suc (length (contexts p))" by (simp add: submit_def Let_def)
  have "all_of b (submit r skip p) = all_of b p @ (if goes_to_blocks r = b then [length (contexts p)] else [])" for b
  proof -
    have "filter (of_kind b (submit r skip p)) [0 ..< length (contexts p)] = filter (of_kind b p) [0 ..< length (contexts p)]"
      by (rule filter_cong) (simp_all add: k)
    then show ?thesis unfolding all_of_def c by (simp add: n)
  qed
  moreover have "filter (of_kind b (submit r skip p)) done = filter (of_kind b p) done" for b
    using assms by (intro filter_cong) (auto simp: in_order_def k)
  moreover have "queue_of b (submit r skip p) = queue_of b p @ (if goes_to_blocks r = b then [length (contexts p)] else [])" for b
    by (auto simp: queue_of_def submit_def Let_def)
  ultimately show ?thesis using assms c by (auto simp: in_order_def less_Suc_eq)
qed

lemma pop_block_step:
  assumes "in_order done p" and "in_hand p = []" and "in_hand (p\<lparr>thread := other\<rparr>) = []"
  shows "in_order (done @ in_hand (pop_block_queue other p)) (pop_block_queue other p)"
proof (cases "write_block_queue p")
  case Nil
  with assms show ?thesis by (simp add: pop_block_queue_def in_hand_def)
next
  case (Cons a q)
  have "in_order (done @ [a]) (p\<lparr>write_block_queue := q, thread := Serving a\<rparr>)"
    by (rule pop_in_order [OF assms(1), of True a q]) (auto simp: queue_of_def Cons)
  with Cons show ?thesis by (simp add: pop_block_queue_def in_hand_def)
qed

lemma pop_trx_step:
  assumes "in_order done p"
  shows "in_order (done @ in_hand (pop_trx_queue p)) (pop_trx_queue p)"
proof (cases "write_queue p")
  case Nil
  with assms show ?thesis by (simp add: pop_trx_queue_def in_hand_def)
next
  case (Cons a q)
  have "in_order (done @ [a]) (p\<lparr>write_queue := q, thread := Serving a\<rparr>)"
    by (rule pop_in_order [OF assms, of False a q]) (auto simp: queue_of_def Cons)
  with Cons show ?thesis by (simp add: pop_trx_queue_def in_hand_def)
qed

lemma in_hand_thread [simp]: "in_hand (p\<lparr>thread := t\<rparr>) = (case t of Serving a \<Rightarrow> [a] | _ \<Rightarrow> [])"
  by (simp add: in_hand_def)

lemma after_request_fields [simp]:
  "contexts (after_request now p) = contexts p" "pdb (after_request now p) = pdb p"
  "write_queue (after_request now p) = write_queue p" "running (after_request now p) = running p"
  "write_block_queue (after_request now p) = write_block_queue p" "in_hand (after_request now p) = []"
  by (auto simp: after_request_def in_hand_def split: sum.splits)

lemma serve_step:
  assumes "a < length (contexts p)"
  shows "in_order done (serve env now a p) = in_order done p" "in_hand (serve env now a p) = []"
    "pdb (serve env now a p) = snd (execute env (contexts p ! a) (pdb p))"
    "contexts (serve env now a p) = (contexts p)[a := fst (execute env (contexts p ! a) (pdb p))]"
proof -
  have same: "unanswered c = unanswered (contexts p ! a)"
    if "visit_request env (contexts p ! a) (pdb p) = (Inr c, d)" for c d
    using that by (rule visit_request_same)
  have r: "map request ((contexts p)[a := c]) = map request (contexts p)" if "unanswered c = unanswered (contexts p ! a)" for c
    using arg_cong [OF that, of request] assms by (simp add: map_update list_update_same_conv)
  show "in_order done (serve env now a p) = in_order done p"
    by (rule in_order_same) (auto simp: serve_def r dest!: same split: prod.splits sum.splits)
  show "in_hand (serve env now a p) = []" by (auto simp: serve_def split: prod.splits sum.splits)
  show "pdb (serve env now a p) = snd (execute env (contexts p ! a) (pdb p))"
    "contexts (serve env now a p) = (contexts p)[a := fst (execute env (contexts p ! a) (pdb p))]"
    using assms by (auto simp: serve_def execute_def split: prod.splits sum.splits)
qed

lemma thread_in_order:
  assumes "in_order (done @ in_hand p) p"
  shows "in_order (done @ in_hand p @ in_hand (thread_step env now p)) (thread_step env now p)"
proof (cases "thread p")
  case (Serving a)
  then have "a < length (contexts p)" using assms by (simp add: in_order_def in_hand_def)
  from serve_step(1,2) [OF this] Serving assms show ?thesis by (simp add: thread_step_def)
next
  case Polling
  then have h: "in_hand p = []" by (simp add: in_hand_def)
  define p' where "p' = (if is_syncing p then p else p\<lparr>start := seconds_of now\<rparr>)"
  have "in_order done p'" "in_hand p' = []" "running p' = running p" using assms h by (auto simp: p'_def in_hand_def)
  from pop_block_step [OF this(1,2), of Polling_Trx] Polling h assms show ?thesis
    by (auto simp: thread_step_def p'_def [symmetric] in_hand_def)
qed (use assms pop_trx_step [of "done" p] pop_block_step [of "done" p Next_Trx]
     in \<open>auto simp: thread_step_def in_hand_def\<close>)

lemma run_in_order: "plugin_run (start_write_processing now d) l p \<Longrightarrow> in_order (map fst l @ in_hand p) p"
proof (induction rule: plugin_run.induct)
  case started
  show ?case by (simp add: in_order_def start_write_processing_def all_of_def queue_of_def in_hand_def)
next
  case (submitted l p r skip)
  then show ?case using submit_in_order by (simp add: in_hand_def submit_def Let_def)
next
  case (stopped l p)
  then show ?case by (simp add: stop_write_processing_def in_hand_def)
next
  case (worked l p env now)
  from thread_in_order [OF worked.IH, of env now] show ?case by (simp add: comp_def)
qed

lemma pop_fields [simp]:
  "contexts (pop_block_queue t p) = contexts p" "pdb (pop_block_queue t p) = pdb p" "running (pop_block_queue t p) = running p"
  "contexts (pop_trx_queue p) = contexts p" "pdb (pop_trx_queue p) = pdb p" "running (pop_trx_queue p) = running p"
  by (auto simp: pop_block_queue_def pop_trx_queue_def split: list.splits)

lemma idle_step:
  assumes "in_hand p = []"
  shows "contexts (thread_step env now p) = contexts p" "pdb (thread_step env now p) = pdb p"
  using assms by (auto simp: thread_step_def in_hand_def split: thread_state.splits)

lemma run_serial:
  assumes "plugin_run (start_write_processing now d) l p"
  shows "serial (map unanswered (contexts p)) d l = (contexts p, pdb p)"
  using assms
proof (induction rule: plugin_run.induct)
  case started
  show ?case by (simp add: start_write_processing_def)
next
  case (submitted l p r skip)
  have "\<forall>x \<in> set l. fst x < length (contexts p)" using run_in_order [OF submitted.hyps] by (auto simp: in_order_def)
  then show ?case using submitted.IH serial_extend [of l "map unanswered (contexts p)"] by (simp add: submit_def Let_def)
next
  case (stopped l p)
  then show ?case by (simp add: stop_write_processing_def)
next
  case (worked l p env now)
  show ?case
  proof (cases "in_hand p")
    case Nil
    with idle_step [OF Nil] worked.IH show ?thesis by simp
  next
    case (Cons a as)
    then have t: "thread p = Serving a" "as = []" by (auto simp: in_hand_def split: thread_state.splits)
    have a: "a < length (contexts p)" using run_in_order [OF worked.hyps] Cons by (auto simp: in_order_def)
    define c e where "c = fst (execute env (contexts p ! a) (pdb p))" and "e = snd (execute env (contexts p ! a) (pdb p))"
    have s: "contexts (thread_step env now p) = (contexts p)[a := c]" "pdb (thread_step env now p) = e"
      using serve_step(3,4) [OF a] t by (simp_all add: thread_step_def c_def e_def)
    have "unanswered c = unanswered (contexts p ! a)"
      unfolding c_def execute_def using visit_request_same by (force split: prod.splits sum.splits)
    then have "map unanswered ((contexts p)[a := c]) = map unanswered (contexts p)"
      using a by (simp add: map_update list_update_same_conv)
    then show ?thesis using worked.IH Cons t by (simp add: s serial_append c_def e_def case_prod_beta)
  qed
qed

subsection \<open>What every run keeps\<close>

text \<open>
  C8: The answers are those of a sequential execution. In every run, whatever is submitted between
  the steps of the thread, each request is performed at most once, and the database and all contexts
  are those reached by performing the served requests one after the other, in the order served,
  on the contexts as they were submitted.
\<close>

theorem writes_linearised:
  assumes "plugin_run (start_write_processing now d) l p"
  shows "distinct (map fst l) \<and> serial (map unanswered (contexts p)) d l = (contexts p, pdb p)"
  using in_order_distinct(1) [OF run_in_order [OF assms]] run_serial [OF assms] by simp

text \<open>
  C29: Nothing is lost, doubled or overtaken. In every run, the requests of a kind submitted so far,
  in the order of their submission, are those served, then the one in hand, then those in the queue.
\<close>

theorem requests_in_order:
  assumes "plugin_run (start_write_processing now d) l p"
  shows "all_of b p = filter (of_kind b p) (map fst l @ in_hand p) @ queue_of b p"
  using run_in_order [OF assms] by (simp add: in_order_def)

lemma serve_promise:
  assumes "thread p = Serving a" and "a < length (contexts p)" and "thread (thread_step env now p) \<noteq> Crashed"
  shows "promise_set (contexts (thread_step env now p) ! a)"
  using assms by (auto simp: thread_step_def serve_def split: prod.splits sum.splits)

lemma stays_crashed: "thread p = Crashed \<Longrightarrow> thread_step env now p = p"
  by (simp add: thread_step_def)

lemma submit_thread [simp]: "thread (submit r skip p) = thread p" "running (submit r skip p) = running p"
  by (simp_all add: submit_def Let_def)

lemma run_promises:
  assumes "plugin_run (start_write_processing now d) l p" and "thread p \<noteq> Crashed"
  shows "\<forall>a \<in> fst ` set l. promise_set (contexts p ! a)"
  using assms
proof (induction rule: plugin_run.induct)
  case (submitted l p r skip)
  have "\<forall>a \<in> fst ` set l. a < length (contexts p)" using run_in_order [OF submitted.hyps] by (auto simp: in_order_def)
  moreover have "\<forall>a \<in> fst ` set l. promise_set (contexts p ! a)" using submitted.IH submitted.prems by simp
  ultimately show ?case by (auto simp: submit_def Let_def nth_append)
next
  case (worked l p env now)
  then have before: "\<forall>a \<in> fst ` set l. promise_set (contexts p ! a)" using stays_crashed by fastforce
  show ?case
  proof (cases "in_hand p")
    case Nil
    with before idle_step(1) [OF Nil] show ?thesis by simp
  next
    case (Cons a as)
    then have t: "thread p = Serving a" "as = []" by (auto simp: in_hand_def split: thread_state.splits)
    have a: "a < length (contexts p)" "a \<notin> fst ` set l"
      using run_in_order [OF worked.hyps] in_order_distinct(1) [OF run_in_order [OF worked.hyps]] Cons
      by (auto simp: in_order_def)
    have "contexts (thread_step env now p) ! x = contexts p ! x" if "x \<noteq> a" for x
      using serve_step(4) [OF a(1)] t that by (simp add: thread_step_def)
    with serve_promise [OF t(1) a(1) worked.prems] before
    have "promise_set (contexts (thread_step env now p) ! x)" if "x \<in> fst ` set l \<or> x = a" for x
      using that by (cases "x = a") auto
    with Cons t(2) show ?thesis by auto
  qed
qed (simp_all add: stop_write_processing_def)

lemma run_unserved:
  assumes "plugin_run (start_write_processing now d) l p" and "a < length (contexts p)" and "a \<notin> fst ` set l"
  shows "contexts p ! a = unanswered (contexts p ! a)"
  using serial_other [OF assms(3), of "map unanswered (contexts p)" d] run_serial [OF assms(1)] assms(2) by simp

subsection \<open>Answers come in time\<close>

datatype plugin_event = Submits write_request u32 | Works chain_env nat

fun happen :: "plugin_event \<Rightarrow> chain_plugin \<Rightarrow> chain_plugin" where
  "happen (Submits r skip) p = submit r skip p"
| "happen (Works env now) p = thread_step env now p"

definition works :: "plugin_event list \<Rightarrow> nat" where
  "works es = length (filter (\<lambda>e. case e of Works env now \<Rightarrow> True | _ \<Rightarrow> False) es)"

definition behind :: "chain_plugin \<Rightarrow> nat" where
  "behind p = (case thread p of Serving a \<Rightarrow> 1 | Polling_Trx \<Rightarrow> 2 | Next_Trx \<Rightarrow> 2 | _ \<Rightarrow> 0)"

definition awaits :: "nat \<Rightarrow> nat \<Rightarrow> chain_plugin \<Rightarrow> bool" where
  "awaits a n p \<longleftrightarrow>
     thread p = Serving a \<and> 1 \<le> n \<or>
     (\<exists>k < length (write_block_queue p). write_block_queue p ! k = a \<and> behind p + 2 * k + 2 \<le> n)"

lemma awaits_submit: "awaits a n p \<Longrightarrow> awaits a n (submit r skip p)"
  by (force simp: awaits_def submit_def Let_def behind_def nth_append)

lemma after_request_behind [simp]: "behind (after_request now p) = 0"
  by (auto simp: after_request_def behind_def split: sum.splits)

lemma pop_trx_behind: "write_block_queue (pop_trx_queue p) = write_block_queue p" "behind (pop_trx_queue p) < 2"
  by (auto simp: pop_trx_queue_def behind_def split: list.splits)

lemma pop_block_awaits:
  assumes "k < length (write_block_queue p)" and "write_block_queue p ! k = a" and "2 * k + 2 \<le> n"
  shows "awaits a (n - 1) (pop_block_queue t p)"
proof (cases "write_block_queue p")
  case Nil
  with assms show ?thesis by simp
next
  case (Cons b q)
  with assms show ?thesis
    by (cases k) (auto simp: pop_block_queue_def awaits_def behind_def intro!: exI [of _ "k - 1"])
qed

lemma awaits_work:
  assumes "awaits a n p" and "thread p \<noteq> Serving a" and "running p" and "thread p \<noteq> Ended"
    and "thread (thread_step env now p) \<noteq> Crashed"
  shows "awaits a (n - 1) (thread_step env now p)"
proof -
  obtain k where k: "k < length (write_block_queue p)" "write_block_queue p ! k = a" "behind p + 2 * k + 2 \<le> n"
    using assms(1,2) by (auto simp: awaits_def)
  have later: "awaits a (n - 1) q" if "write_block_queue q = write_block_queue p" "behind q < behind p" for q
    using k that by (auto simp: awaits_def intro!: exI [of _ k])
  show ?thesis
  proof (cases "thread p")
    case Polling
    with k pop_block_awaits [of k "if is_syncing p then p else p\<lparr>start := seconds_of now\<rparr>" a n Polling_Trx] assms(3)
    show ?thesis by (auto simp: thread_step_def behind_def)
  next
    case Next_Block
    with k pop_block_awaits [of k p a n Next_Trx] show ?thesis by (simp add: thread_step_def behind_def)
  next
    case (Serving b)
    then have "behind p = 1" by (simp add: behind_def)
    moreover have "thread_step env now p = serve env now b p" using Serving by (simp add: thread_step_def)
    ultimately show ?thesis using assms(5)
      by (intro later) (auto simp: serve_def split: prod.splits sum.splits)
  next
    case Polling_Trx
    with pop_trx_behind show ?thesis by (intro later) (auto simp: thread_step_def behind_def)
  next
    case Next_Trx
    with pop_trx_behind show ?thesis by (intro later) (auto simp: thread_step_def behind_def)
  qed (use assms in \<open>auto simp: thread_step_def\<close>)
qed

lemma crashed_for_good: "thread p = Crashed \<Longrightarrow> thread (fold happen es p) = Crashed"
proof (induction es arbitrary: p)
  case (Cons e es)
  then show ?case by (cases e) (simp_all add: stays_crashed)
qed simp

lemma runs_on: "plugin_run p0 l p \<Longrightarrow> running p \<Longrightarrow> thread p \<noteq> Ended \<Longrightarrow>
    running (thread_step env now p) \<and> thread (thread_step env now p) \<noteq> Ended"
  by (auto simp: thread_step_def serve_def after_request_def pop_block_queue_def pop_trx_queue_def
      split: thread_state.splits prod.splits sum.splits list.splits)

lemma answered_in_time:
  assumes "plugin_run p0 l p" and "running p" and "thread p \<noteq> Ended" and "a \<in> fst ` set l \<or> awaits a n p"
    and "thread (fold happen es p) \<noteq> Crashed" and "n \<le> works es"
  shows "\<exists>m. plugin_run p0 m (fold happen es p) \<and> a \<in> fst ` set m"
  using assms
proof (induction es arbitrary: p l n)
  case Nil
  then show ?case by (auto simp: works_def awaits_def)
next
  case (Cons e es)
  show ?case
  proof (cases e)
    case (Submits r skip)
    with Cons.prems Cons.IH [of l "submit r skip p" n] show ?thesis
      by (auto simp: works_def intro: plugin_run.submitted awaits_submit)
  next
    case (Works env now)
    let ?p = "thread_step env now p" and ?l = "l @ map (\<lambda>a. (a, env)) (in_hand p)"
    have live: "thread ?p \<noteq> Crashed" using Cons.prems(5) Works crashed_for_good [of ?p es] by auto
    have "a \<in> fst ` set ?l \<or> awaits a (n - 1) ?p"
    proof (cases "a \<in> fst ` set l \<or> thread p = Serving a")
      case False
      with Cons.prems live show ?thesis using awaits_work [of a n p env now] by blast
    qed (auto simp: in_hand_def)
    moreover have "plugin_run p0 ?l ?p" using Cons.prems(1) by (rule plugin_run.worked)
    moreover have "running ?p" "thread ?p \<noteq> Ended" using runs_on [OF Cons.prems(1-3), of env now] by simp_all
    moreover have "thread (fold happen es ?p) \<noteq> Crashed" "n - 1 \<le> works es"
      using Cons.prems(5,6) Works by (auto simp: works_def)
    ultimately have "\<exists>m. plugin_run p0 m (fold happen es ?p) \<and> a \<in> fst ` set m" by (intro Cons.IH)
    then show ?thesis by (simp add: Works)
  qed
qed

text \<open>
  C15: A block is answered in time. While the thread runs, the request at position \<open>k\<close> of the block
  queue has its promise set after at most \<open>2 k + 4\<close> steps of the thread, however many
  transactions and further blocks are submitted meanwhile, unless the thread has crashed.
\<close>

theorem block_answered_in_time:
  assumes run: "plugin_run (start_write_processing now d) l p" and live: "running p" "thread p \<noteq> Ended"
    and k: "k < length (write_block_queue p)" and works: "2 * k + 4 \<le> works es"
    and fine: "thread (fold happen es p) \<noteq> Crashed"
  shows "promise_set (contexts (fold happen es p) ! (write_block_queue p ! k))"
proof -
  let ?a = "write_block_queue p ! k"
  have "behind p \<le> 2" by (simp add: behind_def split: thread_state.splits)
  then have "awaits ?a (2 * k + 4) p" using k by (auto simp: awaits_def)
  with answered_in_time [OF run live _ fine works, of ?a] obtain m where
    "plugin_run (start_write_processing now d) m (fold happen es p)" "?a \<in> fst ` set m" by blast
  with run_promises fine show ?thesis by blast
qed

subsection \<open>Stopping\<close>

lemma ended_for_good:
  assumes "thread p = Ended" and "a < length (contexts p)"
  shows "contexts (fold happen es p) ! a = contexts p ! a"
  using assms
proof (induction es arbitrary: p)
  case (Cons e es)
  show ?case
  proof (cases e)
    case (Submits r skip)
    with Cons.prems Cons.IH [of "submit r skip p"] show ?thesis by (simp add: submit_def Let_def nth_append)
  next
    case (Works env now)
    with Cons show ?thesis by (simp add: thread_step_def)
  qed
qed simp

text \<open>
  Requests left behind. Once the thread has ended, a request still in a queue is never
  answered: its promise stays unset whatever happens later, so its caller waits for ever.
\<close>

theorem stop_forgets_requests:
  assumes run: "plugin_run (start_write_processing now d) l p" and ended: "thread p = Ended"
    and a: "a \<in> set (queue_of b p)"
  shows "\<not> promise_set (contexts (fold happen es p) ! a)"
proof -
  note o = run_in_order [OF run]
  have "a < length (contexts p)" "a \<notin> fst ` set l"
    using in_order_distinct(3,4) [OF o, of b] a by auto
  then show ?thesis
    using ended_for_good [OF ended, of a es] run_unserved [OF run, of a] unanswered_simps(3) by metis
qed

subsection \<open>A refused block\<close>

definition refused_db :: chain_db where
  "refused_db =
     sample_db\<lparr>fork_db := empty_fork_db\<lparr>store := [make_item demo_crypto sample_block], fork_head := Some 0\<rparr>\<rparr>"

lemma refused_push:
  "\<exists>e. push_block sample_env sample_block 0 refused_db = (Inl Unlinkable_Block, e) \<and> gpo_of e sample_gpo"
proof -
  let ?d = "refused_db\<lparr>skip_flags := 0, pending_trx := []\<rparr>"
  have fields: "pending_session sample_db = None" "popped_tx sample_db = []" "pending_trx sample_db = []"
    by (simp_all add: sample_db_def init_hardforks_def new_chain_db_def)
  have "sample_id ! 3 \<noteq> zero_id ! 3" by (simp add: sample_id_def zero_id_def)
  then have prev: "previous sample_block \<noteq> zero_id" by (auto simp: sample_block_def)
  have "int (unat (block_num sample_block)) = 2" using sample_num by (simp add: sample_gpo_def)
  then obtain f where f: "fork_push_block demo_crypto sample_block (fork_db ?d) = (Inl Unlinkable_Block, f)"
    using prev
    by (auto simp: fork_push_block_def new_item_def push_item_def oldest_def link_item_def make_item_def seq_def bnd_def
        previous_id_def find_id_def empty_fork_db_def refused_db_def)
  then have "push_block_body sample_env sample_block 0 ?d = (Inl Unlinkable_Block, ?d\<lparr>fork_db := f\<rparr>)"
    by (simp add: push_block_body_def push_to_forks_def on_fork_db_def capture_def bnd_def std_exception_def sample_env_def)
  then have "push_block sample_env sample_block 0 refused_db =
      (Inl Unlinkable_Block, (?d\<lparr>fork_db := f\<rparr>)\<lparr>skip_flags := skip_flags refused_db\<rparr>)"
    using fields
    by (simp add: push_block_def with_skip_flags_def without_pending_def on_exit_def bnd_def seq_def gets_def update_def
        reset_pending_def finally_sx_def restore_pending_def ret_def capture_def std_exception_def refused_db_def)
  moreover have "gpo_of ((?d\<lparr>fork_db := f\<rparr>)\<lparr>skip_flags := skip_flags refused_db\<rparr>) sample_gpo"
    using sample_gpo_of by (simp add: stored_def refused_db_def)
  ultimately show ?thesis by blast
qed

definition waiting_plugin :: chain_plugin where
  "waiting_plugin = submit_block sample_block 0 (start_write_processing 0 refused_db)"

lemma waiting_run: "plugin_run (start_write_processing 0 refused_db) [] waiting_plugin"
  unfolding waiting_plugin_def submit_block_def by (intro plugin_run.submitted plugin_run.started)

lemma waiting_fields:
  "running waiting_plugin" "thread waiting_plugin = Polling" "write_block_queue waiting_plugin = [0]"
  "write_queue waiting_plugin = []" "is_syncing waiting_plugin" "start waiting_plugin = 0" "pdb waiting_plugin = refused_db"
  "contexts waiting_plugin = [new_context (Block_Request sample_block) 0]"
  by (simp_all add: waiting_plugin_def submit_block_def submit_def Let_def start_write_processing_def goes_to_blocks_def
      seconds_of_def)

definition refused_context :: write_context where
  "refused_context =
     (new_context (Block_Request sample_block) 0)\<lparr>success := False, except := Some Unlinkable_Block, promise_set := True\<rparr>"

lemma refused_visit:
  "\<exists>e. execute sample_env (new_context (Block_Request sample_block) 0) refused_db = (refused_context, e) \<and>
     visit_request sample_env (new_context (Block_Request sample_block) 0) refused_db =
       (Inr (refused_context\<lparr>promise_set := False\<rparr>), e) \<and> gpo_of e sample_gpo"
proof -
  from refused_push obtain e where e: "push_block sample_env sample_block 0 refused_db = (Inl Unlinkable_Block, e)"
    "gpo_of e sample_gpo" by blast
  then have "visit_request sample_env (new_context (Block_Request sample_block) 0) refused_db =
      (Inr (refused_context\<lparr>promise_set := False\<rparr>), e)"
    by (simp add: visit_request_def new_context_def attempt_def bnd_def ret_def store_result_def no_exception_def
        std_exception_def refused_context_def)
  with e(2) show ?thesis by (simp add: execute_def refused_context_def)
qed

lemma waiting_served:
  "\<exists>e p. fold happen (replicate 2 (Works sample_env 0)) waiting_plugin = p \<and>
     execute sample_env (new_context (Block_Request sample_block) 0) refused_db = (refused_context, e) \<and>
     plugin_run (start_write_processing 0 refused_db) [(0, sample_env)] p \<and>
     contexts p = [refused_context] \<and> pdb p = e \<and> thread p = Polling \<and> write_block_queue p = [] \<and> write_queue p = [] \<and>
     running p"
proof -
  from refused_visit obtain e where e:
    "execute sample_env (new_context (Block_Request sample_block) 0) refused_db = (refused_context, e)"
    "visit_request sample_env (new_context (Block_Request sample_block) 0) refused_db =
       (Inr (refused_context\<lparr>promise_set := False\<rparr>), e)" "gpo_of e sample_gpo" by blast
  let ?q = "thread_step sample_env 0 waiting_plugin" and ?p = "thread_step sample_env 0 (thread_step sample_env 0 waiting_plugin)"
  have q: "?q = waiting_plugin\<lparr>write_block_queue := [], thread := Serving 0\<rparr>"
    by (simp add: thread_step_def waiting_fields pop_block_queue_def)
  have h: "fst (head_block_time e) = Inr 9" using gpo_queries(2) [OF e(3)] by (simp add: sample_gpo_def)
  have p: "?p = ?q\<lparr>pdb := e, contexts := [refused_context], start := 0, is_syncing := False, thread := Polling\<rparr>"
    unfolding q using e(2) h
    by (simp add: thread_step_def serve_def waiting_fields after_request_def sync_done_def seconds_of_def
        refused_context_def)
  have "plugin_run (start_write_processing 0 refused_db) ([] @ map (\<lambda>a. (a, sample_env)) (in_hand waiting_plugin)) ?q"
    by (rule plugin_run.worked [OF waiting_run])
  then have "plugin_run (start_write_processing 0 refused_db) [] ?q" by (simp add: in_hand_def waiting_fields)
  from plugin_run.worked [OF this, of sample_env 0]
  have "plugin_run (start_write_processing 0 refused_db) [(0, sample_env)] ?p" by (simp add: in_hand_def q)
  with e p show ?thesis by (simp add: numeral_2_eq_2 q waiting_fields)
qed

theorem writes_linearised_witness:
  "\<exists>e. serial [new_context (Block_Request sample_block) 0] refused_db [(0, sample_env)] = ([refused_context], e)"
proof -
  from waiting_served obtain p where
    p: "plugin_run (start_write_processing 0 refused_db) [(0, sample_env)] p" "contexts p = [refused_context]" by blast
  have "map unanswered (contexts p) = [new_context (Block_Request sample_block) 0]"
    by (simp add: p(2) refused_context_def)
  with writes_linearised [OF p(1)] p(2) show ?thesis by simp
qed

theorem requests_in_order_witness: "all_of True waiting_plugin = [0]"
  using requests_in_order [OF waiting_run, of True] by (simp add: in_hand_def waiting_fields queue_of_def)

theorem block_answered_in_time_witness:
  "promise_set (contexts (fold happen (replicate 4 (Works sample_env 0)) waiting_plugin) ! 0)"
proof -
  from waiting_served obtain p where p: "fold happen (replicate 2 (Works sample_env 0)) waiting_plugin = p"
    "thread p = Polling" "write_block_queue p = []" "write_queue p = []" "running p" by blast
  have "fold happen (replicate 4 (Works sample_env 0)) waiting_plugin =
      thread_step sample_env 0 (thread_step sample_env 0 p)"
    using p(1) by (simp add: numeral_eq_Suc)
  then have "thread (fold happen (replicate 4 (Works sample_env 0)) waiting_plugin) \<noteq> Crashed"
    using p by (simp add: thread_step_def pop_block_queue_def pop_trx_queue_def)
  moreover have "works (replicate 4 (Works sample_env 0)) = 4" by (simp add: works_def)
  ultimately show ?thesis
    using block_answered_in_time [OF waiting_run, of 0 "replicate 4 (Works sample_env 0)"] by (simp add: waiting_fields)
qed

theorem stop_forgets_requests_witness:
  "\<not> promise_set (contexts (fold happen [Works sample_env 5]
      (thread_step sample_env 0 (stop_write_processing waiting_plugin))) ! 0)"
proof -
  let ?p = "thread_step sample_env 0 (stop_write_processing waiting_plugin)"
  have r: "plugin_run (start_write_processing 0 refused_db) [] ?p"
    using plugin_run.worked [OF plugin_run.stopped [OF waiting_run], of sample_env 0]
    by (simp add: in_hand_def stop_write_processing_def waiting_fields)
  have "thread ?p = Ended" "queue_of True ?p = [0]"
    by (simp_all add: thread_step_def stop_write_processing_def waiting_fields queue_of_def)
  then show ?thesis using stop_forgets_requests [OF r, of 0 True "[Works sample_env 5]"] by simp
qed

end
