(* ===== verification/P2P_Plugin.thy ===== *)
theory P2P_Plugin
  imports Chain_Plugin
begin

section \<open>The p2p plugin: the node's view of the chain\<close>

text \<open>
  The \<open>node_delegate\<close> of \<open>plugins/p2p/src/p2p_plugin.cpp\<close>: what the network node asks of the
  chain (items, lists of block ids, synopses) and hands to it (blocks, transactions). The read
  lock has no effect on a single call. \<open>assert\<close>s are compiled away; what they check is not
  assumed either.
\<close>

subsection \<open>Handlers and shutdown\<close>

record handler_state =
  active :: bool
  future_valid :: bool
  notified :: bool

record p2p_state =
  p2p_running :: bool
  block_producer :: bool
  force_validate :: bool
  block_handler :: handler_state
  trx_handler :: handler_state

text \<open>The shared future of a handler is made with the plugin: it is valid from then on.\<close>

definition new_handler :: handler_state where
  "new_handler = \<lparr>active = False, future_valid = True, notified = False\<rparr>"

definition new_p2p :: "bool \<Rightarrow> p2p_state" where
  "new_p2p force =
     \<lparr>p2p_running = True, block_producer = False, force_validate = force, block_handler = new_handler,
      trx_handler = new_handler\<rparr>"

definition set_block_production :: "bool \<Rightarrow> p2p_state \<Rightarrow> p2p_state" where
  "set_block_production x p = p\<lparr>block_producer := x\<rparr>"

text \<open>\<open>shutdown_helper\<close>: its constructor and its destructor.\<close>

definition enter_handler :: "handler_state \<Rightarrow> handler_state" where
  "enter_handler h = h\<lparr>active := True\<rparr>"

definition leave_handler :: "bool \<Rightarrow> handler_state \<Rightarrow> handler_state" where
  "leave_handler is_running h =
     (let h = h\<lparr>active := False\<rparr> in if \<not> is_running \<and> \<not> future_valid h then h\<lparr>notified := True\<rparr> else h)"

text \<open>
  The waiting loop of \<open>plugin_shutdown\<close> over what it sees of the two handlers in each round: the
  number of rounds, none if it still waits at the end.
\<close>

definition handler_ready :: "handler_state \<Rightarrow> bool" where
  "handler_ready h \<longleftrightarrow> \<not> active h \<or> notified h"

fun shutdown_wait :: "(handler_state \<times> handler_state) list \<Rightarrow> nat option" where
  "shutdown_wait [] = None"
| "shutdown_wait ((b, t) # seen) =
     (if \<not> handler_ready b \<and> \<not> handler_ready t then map_option Suc (shutdown_wait seen) else Some 0)"

definition block_skip_flags :: "p2p_state \<Rightarrow> u32" where
  "block_skip_flags p =
     (if block_producer p \<or> force_validate p then 0 else ucast skip_transaction_signatures)"

definition handle_block :: "p2p_state \<Rightarrow> chain_env \<Rightarrow> signed_block \<Rightarrow> (chain_db, bool) sx" where
  "handle_block p env b =
     capture (if p2p_running p
              then seq head_block_num (accept_block env b (block_skip_flags p))
              else raise Fc_Assert)"

definition handle_transaction :: "p2p_state \<Rightarrow> chain_env \<Rightarrow> signed_transaction \<Rightarrow> (chain_db, unit) sx" where
  "handle_transaction p env t =
     (if p2p_running p then capture (accept_transaction env t) else raise Fc_Assert)"

definition handle_message :: "(chain_db, unit) sx" where
  "handle_message = raise Fc_Assert"

subsection \<open>Items\<close>

datatype item_id_of = Block_Item bytes | Trx_Item bytes

text \<open>A block message carries the id of its block.\<close>

datatype item_message = Block_Message signed_block bytes | Trx_Message signed_transaction

definition has_item :: "crypto \<Rightarrow> item_id_of \<Rightarrow> (chain_db, bool) sx" where
  "has_item cr i =
     capture (case i of Block_Item h \<Rightarrow> is_know_block cr h | Trx_Item h \<Rightarrow> is_know_transaction h)"

definition get_item :: "crypto \<Rightarrow> item_id_of \<Rightarrow> (chain_db, item_message) sx" where
  "get_item cr i =
     capture (case i of
         Block_Item h \<Rightarrow>
           bnd (fetch_block_by_id cr h) (\<lambda>r.
           case r of None \<Rightarrow> raise Fc_Assert | Some b \<Rightarrow> ret (Block_Message b (block_id cr b)))
       | Trx_Item h \<Rightarrow> bnd (get_recent_transaction h) (\<lambda>t. ret (Trx_Message t)))"

definition get_block_number :: "bytes \<Rightarrow> u32" where
  "get_block_number i = num_from_id i"

definition get_block_time :: "crypto \<Rightarrow> bytes \<Rightarrow> (chain_db, u32) sx" where
  "get_block_time cr i =
     capture (bnd (fetch_block_by_id cr i) (\<lambda>r. ret (case r of Some b \<Rightarrow> timestamp b | None \<Rightarrow> 0)))"

definition get_head_block_id :: "(chain_db, bytes) sx" where
  "get_head_block_id = capture head_block_id"

subsection \<open>The ids that follow a synopsis\<close>

definition is_included_block :: "crypto \<Rightarrow> bytes \<Rightarrow> (chain_db, bool) sx" where
  "is_included_block cr i =
     capture (bnd (get_block_id_for_num cr (num_from_id i)) (\<lambda>j. ret (i = j)))"

fun last_known :: "crypto \<Rightarrow> bytes list \<Rightarrow> (chain_db, bytes) sx" where
  "last_known cr [] = raise Unreachable_Fork"
| "last_known cr (i # is) =
     (if i = zero_id then ret i
      else bnd (is_know_block cr i) (\<lambda>known.
           bnd (if known then is_included_block cr i else ret False) (\<lambda>included.
           if included then ret i else last_known cr is)))"

text \<open>The loop over the numbers: each round but the one for number 0 adds an id.\<close>

function ids_loop :: "crypto \<Rightarrow> u32 \<Rightarrow> u32 \<Rightarrow> bytes list \<Rightarrow> (chain_db, bytes list) sx" where
  "ids_loop cr limit n acc =
     bnd head_block_num (\<lambda>h.
     if n \<le> h \<and> length acc < unat limit
     then (if n > 0
           then bnd (get_block_id_for_num cr n) (\<lambda>i. ids_loop cr limit (n + 1) (acc @ [i]))
           else ids_loop cr limit (n + 1) acc)
     else ret acc)"
  by pat_completeness auto

termination
  by (relation "measure (\<lambda>(cr, limit, n, acc). 2 * (unat limit - length acc) + (if n = 0 then 1 else 0))") (auto simp: word_greater_zero_iff)

declare ids_loop.simps [simp del]

definition remaining_items :: "u32 \<Rightarrow> bytes list \<Rightarrow> u32" where
  "remaining_items h ids =
     (if ids \<noteq> [] \<and> num_from_id (last ids) < h then h - num_from_id (last ids) else 0)"

definition get_block_ids :: "crypto \<Rightarrow> bytes list \<Rightarrow> u32 \<Rightarrow> (chain_db, bytes list \<times> u32) sx" where
  "get_block_ids cr synopsis limit =
     capture (bnd head_block_num (\<lambda>h.
       if h = 0 then ret ([], 0)
       else bnd (if synopsis = [] \<or> synopsis = [zero_id] then ret zero_id
                 else last_known cr (rev synopsis)) (\<lambda>i.
            bnd (ids_loop cr limit (num_from_id i) []) (\<lambda>ids. ret (ids, remaining_items h ids)))))"

subsection \<open>The synopsis of the chain\<close>

text \<open>The numbers a synopsis is made of, and the ids of the fork after \<open>non_fork_high\<close>.\<close>

record synopsis_range =
  high_num :: u32
  non_fork_high :: u32
  low_num :: u32
  fork_history :: "bytes list"

definition range_on_fork :: "u32 \<Rightarrow> bytes list \<Rightarrow> synopsis_range result" where
  "range_on_fork low history =
     (let common = last history;
          branch = rev (butlast history);
          nf = if common = zero_id then 0 else num_from_id common
      in if nf < low then Inl Older_Than_Undo_History
         else Inr \<lparr>high_num = nf + word_of_nat (length branch), non_fork_high = nf, low_num = low, fork_history = branch\<rparr>)"

definition range_of_reference :: "crypto \<Rightarrow> bytes \<Rightarrow> u32 \<Rightarrow> (chain_db, synopsis_range) sx" where
  "range_of_reference cr reference low =
     bnd (is_included_block cr reference) (\<lambda>included.
     if included
     then let n = num_from_id reference
          in ret \<lparr>high_num = n, non_fork_high = n, low_num = if n < low then n else low, fork_history = []\<rparr>
     else bnd (get_block_ids_on_fork reference) (\<lambda>history. lift_r (range_on_fork low history)))"

definition block_id_in_range :: "crypto \<Rightarrow> synopsis_range \<Rightarrow> u32 \<Rightarrow> (chain_db, bytes) sx" where
  "block_id_in_range cr r n =
     (if n \<le> non_fork_high r then get_block_id_for_num cr n
      else let k = unat (n - non_fork_high r - 1)
           in if k < length (fork_history r) then ret (fork_history r ! k) else raise Undefined)"

fun synopsis_loop :: "crypto \<Rightarrow> nat \<Rightarrow> synopsis_range \<Rightarrow> u32 \<Rightarrow> u32 \<Rightarrow> (chain_db, bytes list) sx" where
  "synopsis_loop cr fuel r true_high low =
     bnd (block_id_in_range cr r low) (\<lambda>i.
     let low' = low + (true_high - low + 2) div 2
     in if low' \<le> high_num r
        then (case fuel of
                0 \<Rightarrow> raise Diverged
              | Suc k \<Rightarrow> bnd (synopsis_loop cr k r true_high low') (\<lambda>is. ret (i # is)))
        else ret [i])"

declare synopsis_loop.simps [simp del]

definition synopsis_of_range :: "crypto \<Rightarrow> u32 \<Rightarrow> synopsis_range \<Rightarrow> (chain_db, bytes list) sx" where
  "synopsis_of_range cr after r =
     synopsis_loop cr 32 r (high_num r + after) (if low_num r = 0 then 1 else low_num r)"

definition get_blockchain_synopsis :: "crypto \<Rightarrow> bytes \<Rightarrow> u32 \<Rightarrow> (chain_db, bytes list) sx" where
  "get_blockchain_synopsis cr reference after =
     capture (bnd last_non_undoable_block_num (\<lambda>low.
       if reference \<noteq> zero_id
       then bnd (range_of_reference cr reference low) (synopsis_of_range cr after)
       else bnd head_block_num (\<lambda>h.
            if h = 0 then ret []
            else synopsis_of_range cr after
                   \<lparr>high_num = h, non_fork_high = h, low_num = low, fork_history = []\<rparr>)))"

end
