(* ===== verification/P2P_Props.thy ===== *)
theory P2P_Props
  imports P2P_Plugin Slot_Props Push_Props
begin

section \<open>The p2p plugin: properties\<close>

text \<open>
  What a peer gets: ids of consecutive blocks from the last block it shares with this chain on,
  and a synopsis whose numbers halve the way to the head. Calls through the write queue with no
  other caller are the database's own operations.
\<close>

subsection \<open>Calls through the queue\<close>

lemma attempt_answer:
  assumes "\<And>x. answer (f x) = Inr (g x)" and "\<And>e. answer (c\<lparr>success := False, except := Some e\<rparr>) = Inl e"
  shows "bnd (bnd (attempt m) (\<lambda>r. ret (store_result f c r))) (\<lambda>c. lift_r (answer c)) =
    capture (bnd m (\<lambda>x. ret (g x)))"
  using assms
  by (auto simp: fun_eq_iff attempt_def bnd_def ret_def lift_r_def capture_def store_result_def no_exception_def
      std_exception_def split: prod.splits sum.splits)

lemma bnd_ret: "bnd m ret = m"
  by (auto simp: fun_eq_iff bnd_def ret_def split: prod.splits sum.splits)

lemma plugin_calls:
  "accept_block env b skip = capture (push_block env b (ucast skip))"
  "accept_transaction env t = capture (push_transaction env t 0)"
  "plugin_generate_block env w n pk skip = capture (generate_block env w n pk (ucast skip))"
proof -
  note answers = block_answer_def transaction_answer_def generate_answer_def
  have "accept_block env b skip = capture (bnd (push_block env b (ucast skip)) (\<lambda>x. ret x))"
    unfolding accept_block_def visit_request_def
    by (simp add: new_context_def) (rule attempt_answer; simp add: answers)
  then show "accept_block env b skip = capture (push_block env b (ucast skip))" by (simp add: bnd_ret)
  have "accept_transaction env t = capture (bnd (push_transaction env t 0) (\<lambda>x. ret ()))"
    unfolding accept_transaction_def visit_request_def
    by (simp add: new_context_def) (rule attempt_answer; simp add: answers)
  then show "accept_transaction env t = capture (push_transaction env t 0)" by (simp add: bnd_ret)
  have "plugin_generate_block env w n pk skip = capture (bnd (generate_block env w n pk (ucast skip)) (\<lambda>x. ret x))"
    unfolding plugin_generate_block_def visit_request_def
    by (simp add: new_context_def) (rule attempt_answer; simp add: answers)
  then show "plugin_generate_block env w n pk skip = capture (generate_block env w n pk (ucast skip))"
    by (simp add: bnd_ret)
qed

text \<open>
  A call through the write queue is the operation of the database: with no other caller between
  the submission and the answer, \<open>accept_block\<close>, \<open>accept_transaction\<close> and \<open>generate_block\<close> of the plugin
  return what \<open>push_block\<close>, \<open>push_transaction\<close> and \<open>generate_block\<close> of the database return, or throw
  their exception, and leave the same state.
\<close>

theorem plugin_calls_database:
  "accept_block env b skip = capture (push_block env b (ucast skip)) \<and>
   accept_transaction env t = capture (push_transaction env t 0) \<and>
   plugin_generate_block env w n pk skip = capture (generate_block env w n pk (ucast skip))"
  by (simp add: plugin_calls)

subsection \<open>Lists of ids\<close>

fun gather :: "('a \<Rightarrow> ('s, 'b) sx) \<Rightarrow> 'a list \<Rightarrow> ('s, 'b list) sx" where
  "gather f [] = ret []"
| "gather f (x # xs) = bnd (f x) (\<lambda>y. bnd (gather f xs) (\<lambda>ys. ret (y # ys)))"

lemma gather_length: "gather f xs s = (Inr ys, t) \<Longrightarrow> length ys = length xs"
  by (induction xs arbitrary: s ys) (auto simp: bnd_Inr_iff ret_def)

lemma ret_bnd [simp]: "bnd (ret x) f = f x"
  by (simp add: fun_eq_iff bnd_def ret_def)

lemma gather_cong: "(\<And>x. x \<in> set xs \<Longrightarrow> f x = g x) \<Longrightarrow> gather f xs = gather g xs"
  by (induction xs) simp_all

text \<open>Reading an id moves only the streams of the log.\<close>

lemma objects_queries: "within same_objects head_block_num" "within same_objects (fetch_block_by_id cr i)"
  "within same_objects (is_know_block cr i)"
  unfolding head_block_num_def get_global_property_object_def get_object_def fetch_block_by_id_def is_know_block_def
  by (intro ob.compose on_log_objects)+

lemma objects_id: "within same_objects (get_block_id_for_num cr n)"
proof -
  have f: "within same_objects (block_id_from_log_or_forks cr n)"
    unfolding block_id_from_log_or_forks_def by (intro ob.compose on_log_objects)
  have c: "within same_objects (case s of Some (Block_Summary i) \<Rightarrow> if num_from_id i = n then ret i else m | _ \<Rightarrow> m)"
    if "within same_objects m" for s and m :: "(chain_db, bytes) sx"
    using that by (auto simp: ob.basic split: option.splits chain_object.splits)
  show ?thesis
    unfolding get_block_id_for_num_def find_block_id_for_num_def by (intro ob.compose f c)
qed

lemma gpo_kept: "within same_objects m \<Longrightarrow> gpo_of d g \<Longrightarrow> m d = (r, e) \<Longrightarrow> gpo_of e g"
  by (auto simp: within_def same_objects_def stored_def dest!: spec [of _ d])

definition numbers :: "u32 \<Rightarrow> u32 \<Rightarrow> u32 list" where
  "numbers n h = map word_of_nat [max 1 (unat n) ..< Suc (unat h)]"

lemma numbers_step:
  assumes "unat h + 1 < 2 ^ 32"
  shows "numbers n h = (if n \<le> h then (if n > 0 then n # numbers (n + 1) h else numbers (n + 1) h) else [])"
proof (cases "n \<le> h")
  case True
  then have "unat n \<le> unat h" by (simp add: word_le_nat_alt)
  with assms have n: "unat (n + 1) = unat n + 1" using unat_add_lem [of n 1] by simp
  show ?thesis
  proof (cases "n > 0")
    case True
    then have "0 < unat n" by (simp add: word_less_nat_alt)
    with n \<open>unat n \<le> unat h\<close> have "[max 1 (unat n) ..< Suc (unat h)] = unat n # [max 1 (unat (n + 1)) ..< Suc (unat h)]"
      by (simp add: upt_conv_Cons max_def)
    with True \<open>n \<le> h\<close> show ?thesis by (simp add: numbers_def)
  next
    case False
    then have "n = 0" by (simp add: word_greater_zero_iff)
    with \<open>n \<le> h\<close> show ?thesis by (simp add: numbers_def)
  qed
next
  case False
  then have "unat h < unat n" by (simp add: word_le_nat_alt)
  with False show ?thesis by (simp add: numbers_def)
qed

lemma ids_loop_gather:
  assumes "gpo_of d g" and "unat (head_block_num_of g) + 1 < 2 ^ 32"
  shows "ids_loop cr limit n acc d =
    bnd (gather (get_block_id_for_num cr) (take (unat limit - length acc) (numbers n (head_block_num_of g))))
      (\<lambda>ids. ret (acc @ ids)) d"
  using assms
proof (induction cr limit n acc arbitrary: d rule: ids_loop.induct)
  case (1 cr limit n acc)
  let ?h = "head_block_num_of g"
  note h = gpo_queries(1) [OF "1.prems"(1)]
  note st = numbers_step [OF "1.prems"(2)]
  show ?case
  proof (cases "n \<le> ?h \<and> length acc < unat limit")
    case False
    then have t: "take (unat limit - length acc) (numbers n ?h) = []" by (auto simp: st [of n])
    have "bnd (gather (get_block_id_for_num cr) (take (unat limit - length acc) (numbers n ?h)))
        (\<lambda>ids. ret (acc @ ids)) d = ret acc d" unfolding t by simp
    moreover have "ids_loop cr limit n acc d = ret acc d"
      using False h by (subst ids_loop.simps) (auto simp: bnd_simps)
    ultimately show ?thesis by simp
  next
    case go: True
    show ?thesis
    proof (cases "n > 0")
      case False
      with go h have "ids_loop cr limit n acc d = ids_loop cr limit (n + 1) acc d"
        by (subst ids_loop.simps) (simp add: bnd_simps)
      also have "\<dots> = bnd (gather (get_block_id_for_num cr) (take (unat limit - length acc) (numbers (n + 1) ?h)))
          (\<lambda>ids. ret (acc @ ids)) d"
        by (rule "1.IH"(2) [OF go False "1.prems"])
      finally show ?thesis using go False st [of n] by simp
    next
      case True
      obtain r e where id: "get_block_id_for_num cr n d = (r, e)" by (cases "get_block_id_for_num cr n d")
      have ge: "gpo_of e g" by (rule gpo_kept [OF objects_id "1.prems"(1) id])
      have t: "take (unat limit - length acc) (numbers n ?h) =
          n # take (unat limit - length (acc @ [x])) (numbers (n + 1) ?h)" for x
      proof -
        have "unat limit - length acc = Suc (unat limit - length (acc @ [x]))"
          using go Suc_diff_Suc [of "length acc" "unat limit"] by simp
        with go True st [of n] show ?thesis by simp
      qed
      have l: "ids_loop cr limit n acc d = bnd (get_block_id_for_num cr n) (\<lambda>i. ids_loop cr limit (n + 1) (acc @ [i])) d"
        using go True h by (subst ids_loop.simps) (simp add: bnd_simps)
      show ?thesis
      proof (cases r)
        case (Inl x)
        with id l t show ?thesis by (simp add: bnd_simps)
      next
        case (Inr i)
        have "ids_loop cr limit (n + 1) (acc @ [i]) e =
            bnd (gather (get_block_id_for_num cr) (take (unat limit - length (acc @ [i])) (numbers (n + 1) ?h)))
              (\<lambda>ids. ret ((acc @ [i]) @ ids)) e"
          by (rule "1.IH"(1) [OF go True ge "1.prems"(2)])
        with id l t [of i] Inr show ?thesis by (simp add: bnd_simps bnd_assoc)
      qed
    qed
  qed
qed

lemma objects_included: "within same_objects (is_included_block cr i)"
  unfolding is_included_block_def by (intro ob.compose objects_id)

lemma objects_last_known: "within same_objects (last_known cr is)"
proof (induction "is")
  case (Cons i "is")
  then show ?case by (auto intro!: ob.compose objects_queries objects_included)
qed (simp add: ob.basic)

text \<open>
  An id of a synopsis is passed over when the zero id it is not and the chain does not know its block, or has another
  block of that number; it is taken when the block of its number is the one it names.
\<close>

definition known_as :: "crypto \<Rightarrow> bytes \<Rightarrow> bool \<Rightarrow> chain_db \<Rightarrow> chain_db \<Rightarrow> bool" where
  "known_as cr i known s t \<longleftrightarrow> (\<exists>b. fetch_block_by_id cr i s = (Inr b, t) \<and> (b \<noteq> None) = known)"

definition numbered_as :: "crypto \<Rightarrow> bytes \<Rightarrow> bytes \<Rightarrow> chain_db \<Rightarrow> chain_db \<Rightarrow> bool" where
  "numbered_as cr i j s t \<longleftrightarrow> get_block_id_for_num cr (num_from_id i) s = (Inr j, t)"

definition taken :: "crypto \<Rightarrow> bytes \<Rightarrow> chain_db \<Rightarrow> chain_db \<Rightarrow> bool" where
  "taken cr i s t \<longleftrightarrow> (if i = zero_id then t = s else \<exists>u. known_as cr i True s u \<and> numbered_as cr i i u t)"

fun passed_over :: "crypto \<Rightarrow> bytes list \<Rightarrow> chain_db \<Rightarrow> chain_db \<Rightarrow> bool" where
  "passed_over cr [] s t \<longleftrightarrow> t = s"
| "passed_over cr (i # is) s t \<longleftrightarrow> i \<noteq> zero_id \<and>
     (\<exists>u. (known_as cr i False s u \<or> (\<exists>j v. j \<noteq> i \<and> known_as cr i True s v \<and> numbered_as cr i j v u)) \<and>
          passed_over cr is u t)"

lemma known_run: "is_know_block cr i s = (Inr k, t) \<Longrightarrow> known_as cr i k s t"
  by (auto simp: is_know_block_def known_as_def capture_def bnd_def ret_def split: prod.splits sum.splits)

lemma included_run: "is_included_block cr i s = (Inr k, t) \<Longrightarrow> \<exists>j. numbered_as cr i j s t \<and> (i = j) = k"
  by (auto simp: is_included_block_def numbered_as_def capture_def bnd_def ret_def split: prod.splits sum.splits)

lemma last_known_run:
  "last_known cr is d = (Inr i, e) \<Longrightarrow> \<exists>xs ys s. is = xs @ i # ys \<and> passed_over cr xs d s \<and> taken cr i s e"
proof (induction "is" arbitrary: d)
  case (Cons j "is")
  show ?case
  proof (cases "j = zero_id")
    case True
    with Cons.prems have "i = j" "e = d" by (simp_all add: ret_def)
    with True show ?thesis by (intro exI [of _ "[]"] exI [of _ "is"] exI [of _ d]) (simp add: taken_def)
  next
    case False
    with Cons.prems obtain k s where k: "is_know_block cr j d = (Inr k, s)"
      and rest: "bnd (if k then is_included_block cr j else ret False) (\<lambda>inc. if inc then ret j else last_known cr is) s = (Inr i, e)"
      by (auto simp: bnd_Inr_iff)
    from known_run [OF k] have kn: "known_as cr j k d s" .
    have over: ?thesis if "last_known cr is t = (Inr i, e)"
      and "known_as cr j False d t \<or> (\<exists>l v. l \<noteq> j \<and> known_as cr j True d v \<and> numbered_as cr j l v t)" for t
    proof -
      from Cons.IH [OF that(1)] obtain xs ys u where
        "is = xs @ i # ys" "passed_over cr xs t u" "taken cr i u e" by blast
      with False that(2) show ?thesis
        by (intro exI [of _ "j # xs"] exI [of _ ys] exI [of _ u]) auto
    qed
    show ?thesis
    proof (cases k)
      case False
      with rest kn over show ?thesis by (simp add: bnd_ret)
    next
      case True
      with rest obtain inc t where inc: "is_included_block cr j s = (Inr inc, t)"
        and go: "(if inc then ret j else last_known cr is) t = (Inr i, e)" by (auto simp: bnd_Inr_iff)
      from included_run [OF inc] obtain l where l: "numbered_as cr j l s t" "(j = l) = inc" by blast
      show ?thesis
      proof (cases inc)
        case True
        with go have "i = j" "e = t" by (simp_all add: ret_def)
        moreover have "known_as cr j True d s" "numbered_as cr j j s t" using l kn \<open>k\<close> True by simp_all
        ultimately have "taken cr i d e" using \<open>j \<noteq> zero_id\<close> unfolding taken_def by auto
        with \<open>i = j\<close> show ?thesis by (intro exI [of _ "[]"] exI [of _ "is"] exI [of _ d]) simp
      next
        case False
        then have "last_known cr is t = (Inr i, e)" using go by simp
        moreover have "l \<noteq> j \<and> known_as cr j True d s \<and> numbered_as cr j l s t" using l kn \<open>k\<close> False by simp
        then have "\<exists>l v. l \<noteq> j \<and> known_as cr j True d v \<and> numbered_as cr j l v t" by blast
        ultimately show ?thesis by (intro over [of t] disjI2)
      qed
    qed
  qed
qed (simp add: raise_def)

lemma num_of_zero: "num_from_id zero_id = 0"
  by (simp add: zero_id_def num_from_id_def hash_word_def numeral_eq_Suc endian_reverse_u32_def)

text \<open>
  C37: A peer is sent the ids of consecutive blocks. What \<open>get_block_ids\<close> returns starts at the last block
  of the peer's synopsis that is on this chain: the block is known, its number is that of this very
  block here, and every later id of the synopsis is unknown or names another block than the one of
  its number. For an empty synopsis, or one of the zero id alone, and when the search comes down to a zero id, it starts
  at the first block. From there come the ids of all numbers up to the head, cut at the limit; the
  count of what remains is taken from the number of the last id. The block found is itself the first of
  the result, where node.hpp describes the ids after it; the nodes rely on the overlap.
\<close>

theorem block_ids_consecutive:
  assumes g: "gpo_of d g" and small: "unat (head_block_num_of g) + 1 < 2 ^ 32" and h: "head_block_num_of g \<noteq> 0"
    and run: "get_block_ids cr synopsis limit d = (Inr (ids, rest), e)"
  shows "\<exists>i s. (if synopsis = [] \<or> synopsis = [zero_id] then i = zero_id \<and> s = d
      else \<exists>xs ys t. synopsis = xs @ i # ys \<and> passed_over cr (rev ys) d t \<and> taken cr i t s) \<and>
    gather (get_block_id_for_num cr) (take (unat limit) (numbers (num_from_id i) (head_block_num_of g))) s = (Inr ids, e) \<and>
    length ids = min (unat limit) (unat (head_block_num_of g) + 1 - max 1 (unat (num_from_id i))) \<and>
    rest = remaining_items (head_block_num_of g) ids"
proof -
  let ?h = "head_block_num_of g"
  let ?find = "if synopsis = [] \<or> synopsis = [zero_id] then ret zero_id else last_known cr (rev synopsis)"
  have "bnd ?find (\<lambda>i. bnd (ids_loop cr limit (num_from_id i) []) (\<lambda>ids. ret (ids, remaining_items ?h ids))) d =
      (Inr (ids, rest), e)"
    using run h by (simp add: get_block_ids_def bnd_simps gpo_queries(1) [OF g])
  then obtain i s where i: "?find d = (Inr i, s)"
    and l: "bnd (ids_loop cr limit (num_from_id i) []) (\<lambda>ids. ret (ids, remaining_items ?h ids)) s = (Inr (ids, rest), e)"
    by (auto simp only: bnd_Inr_iff)
  have "within same_objects ?find" by (simp add: ob.basic objects_last_known)
  then have gs: "gpo_of s g" using g i by (rule gpo_kept)
  from l have l: "ids_loop cr limit (num_from_id i) [] s = (Inr ids, e)" "rest = remaining_items ?h ids"
    by (auto simp: bnd_Inr_iff ret_def)
  have a: "gather (get_block_id_for_num cr) (take (unat limit) (numbers (num_from_id i) ?h)) s = (Inr ids, e)"
    using l(1) ids_loop_gather [OF gs small, of cr limit "num_from_id i" "[]"] by (simp add: bnd_ret)
  have "length (numbers (num_from_id i) ?h) = unat ?h + 1 - max 1 (unat (num_from_id i))"
    by (simp only: numbers_def length_map length_upt Suc_eq_plus1)
  with gather_length [OF a] have n: "length ids = min (unat limit) (unat ?h + 1 - max 1 (unat (num_from_id i)))"
    by (simp only: length_take min.commute)
  have "if synopsis = [] \<or> synopsis = [zero_id] then i = zero_id \<and> s = d
      else \<exists>xs ys t. synopsis = xs @ i # ys \<and> passed_over cr (rev ys) d t \<and> taken cr i t s"
  proof (cases "synopsis = [] \<or> synopsis = [zero_id]")
    case True
    with i show ?thesis by (auto simp: ret_def)
  next
    case False
    with i have "last_known cr (rev synopsis) d = (Inr i, s)" by simp
    from last_known_run [OF this] obtain xs ys t where
      r: "rev synopsis = xs @ i # ys" "passed_over cr xs d t" "taken cr i t s" by blast
    have "synopsis = rev ys @ i # rev xs" using arg_cong [OF r(1), of rev] by simp
    moreover have "passed_over cr (rev (rev xs)) d t" using r(2) by simp
    ultimately show ?thesis using r(3) False by (simp only: if_False) blast
  qed
  with a n l(2) show ?thesis by blast
qed

lemma stored_find: "stored d t i v \<Longrightarrow> db_find t i (objects d) = Inr (Some v)"
  by (auto simp: stored_def has_index_def db_find_def get_index_def idx_def gi_find_def)

lemma sample_id_num: "num_from_id sample_id = 1"
  using sample_num by (simp add: sample_gpo_def block_num_def sample_block_def num_from_id_def)

lemma sample_first_id: "get_block_id_for_num cr 1 sample_pushed = (Inr sample_id, sample_pushed)"
proof -
  have "stored sample_pushed block_summary_type 1 (Block_Summary sample_id)"
    using sample_stored [of 1 1] started_contents [OF sample_ok(1)]
    by (simp add: sample_rows_def sample_pushed_def stored_contents)
  then have "db_find block_summary_type 1 (objects sample_pushed) = Inr (Some (Block_Summary sample_id))"
    by (rule stored_find)
  moreover have "num_from_id sample_id = 1" by (rule sample_id_num)
  moreover have "sample_id ! 3 \<noteq> zero_id ! 3" by (simp add: sample_id_def zero_id_def)
  ultimately show ?thesis
    by (auto simp: get_block_id_for_num_def find_block_id_for_num_def capture_def bnd_def reads_def ret_def seq_def check_def)
qed

text \<open>A peer with the first block, whose id is the last of its synopsis.\<close>

theorem block_ids_consecutive_witness:
  "\<exists>i s. (\<exists>xs ys t. [zero_id, sample_id] = xs @ i # ys \<and> passed_over demo_crypto (rev ys) sample_pushed t \<and>
        taken demo_crypto i t s) \<and>
     gather (get_block_id_for_num demo_crypto) (take 10 (numbers (num_from_id i) 1)) s = (Inr [sample_id], sample_pushed)"
proof -
  have z: "sample_id \<noteq> zero_id" by (simp add: zero_id_def sample_id_def numeral_nat)
  have "is_know_block demo_crypto sample_id sample_pushed = (Inr True, sample_pushed)"
    by (simp add: is_know_block_def sample_fetch capture_def bnd_def ret_def)
  moreover have "is_included_block demo_crypto sample_id sample_pushed = (Inr True, sample_pushed)"
    by (simp add: is_included_block_def sample_id_num sample_first_id capture_def bnd_def ret_def)
  ultimately have l: "last_known demo_crypto [sample_id, zero_id] sample_pushed = (Inr sample_id, sample_pushed)"
    using z by (simp add: bnd_simps ret_def)
  have "ids_loop demo_crypto 10 1 [] sample_pushed = (Inr [sample_id], sample_pushed)"
    using sample_first_id [of demo_crypto] ids_loop_gather [OF sample_pushed_facts(2), of demo_crypto 10 1 "[]"]
    by (simp add: sample_gpo_def numbers_def bnd_simps ret_def)
  with l have "get_block_ids demo_crypto [zero_id, sample_id] 10 sample_pushed = (Inr ([sample_id], 0), sample_pushed)"
    using gpo_queries(1) [OF sample_pushed_facts(2)]
    by (simp add: get_block_ids_def bnd_simps ret_def sample_gpo_def sample_id_num remaining_items_def)
  from block_ids_consecutive [OF sample_pushed_facts(2) _ _ this]
  show ?thesis by (simp add: sample_gpo_def) blast
qed

subsection \<open>The synopsis\<close>

text \<open>The numbers of a synopsis: each step goes half the way to \<open>goal_num\<close>, and one further.\<close>

function halving :: "nat \<Rightarrow> nat \<Rightarrow> nat \<Rightarrow> nat list" where
  "halving high goal_num low =
     low # (let l = low + (goal_num - low + 2) div 2 in if l \<le> high then halving high goal_num l else [])"
  by pat_completeness auto

termination by (relation "measure (\<lambda>(high, goal_num, low). Suc high - low)") auto

declare halving.simps [simp del]

lemma halving_more:
  "l = low + (goal_num - low + 2) div 2 \<Longrightarrow> l \<le> high \<Longrightarrow> halving high goal_num low = low # halving high goal_num l"
  by (subst halving.simps) (simp add: Let_def)

lemma halving_done:
  "l = low + (goal_num - low + 2) div 2 \<Longrightarrow> \<not> l \<le> high \<Longrightarrow> halving high goal_num low = [low]"
  by (subst halving.simps) (simp add: Let_def)

lemma halving_sorted: "sorted_wrt (<) (halving high goal_num low) \<and> hd (halving high goal_num low) = low \<and>
    halving high goal_num low \<noteq> [] \<and> (low \<le> high \<longrightarrow> (\<forall>n \<in> set (halving high goal_num low). low \<le> n \<and> n \<le> high))"
proof (induction high goal_num low rule: halving.induct)
  case (1 high goal_num low)
  define l where "l = low + (goal_num - low + 2) div 2"
  have "low < l" by (simp add: l_def)
  show ?case
  proof (cases "l \<le> high")
    case True
    with "1.IH" [OF l_def] \<open>low < l\<close> show ?thesis by (force simp: halving_more [OF l_def True])
  next
    case False
    then show ?thesis by (simp add: halving_done [OF l_def False])
  qed
qed

lemma halving_last: "low \<le> goal_num \<Longrightarrow> high = goal_num \<Longrightarrow> last (halving high goal_num low) = goal_num"
proof (induction high goal_num low rule: halving.induct)
  case (1 high goal_num low)
  define l where "l = low + (goal_num - low + 2) div 2"
  show ?case
  proof (cases "l \<le> high")
    case True
    with "1.IH" [OF l_def] "1.prems" halving_sorted [of high goal_num l] halving_more [OF l_def True] show ?thesis by simp
  next
    case False
    with "1.prems" have "low = goal_num" by (simp add: l_def)
    with halving_done [OF l_def False] show ?thesis by simp
  qed
qed

lemma halving_length:
  "low \<le> goal_num \<Longrightarrow> high \<le> goal_num \<Longrightarrow> 2 ^ (length (halving high goal_num low) - 1) \<le> goal_num - low + 1"
proof (induction high goal_num low rule: halving.induct)
  case (1 high goal_num low)
  define l where "l = low + (goal_num - low + 2) div 2"
  show ?case
  proof (cases "l \<le> high")
    case True
    obtain n where n: "length (halving high goal_num l) = Suc n"
      using halving_sorted [of high goal_num l] by (cases "halving high goal_num l") auto
    from "1.IH" [OF l_def True] True "1.prems" have "2 ^ n \<le> goal_num - l + 1" by (simp add: n)
    then have "2 * 2 ^ n \<le> 2 * (goal_num - l + 1)" by simp
    also have "\<dots> \<le> goal_num - low + 1" using True "1.prems" by (simp add: l_def)
    finally show ?thesis by (simp add: halving_more [OF l_def True] n)
  next
    case False
    then show ?thesis by (simp add: halving_done [OF l_def False])
  qed
qed

lemma synopsis_step:
  fixes low true_high :: u32
  assumes "unat low \<le> unat true_high" and "unat true_high + 2 < 2 ^ 32"
  shows "unat (low + (true_high - low + 2) div 2) = unat low + (unat true_high - unat low + 2) div 2"
proof -
  have "low \<le> true_high" using assms(1) by (simp add: word_le_nat_alt)
  then have m: "unat (true_high - low) = unat true_high - unat low" by (rule unat_sub)
  then have "unat (true_high - low) + unat (2 :: u32) < 2 ^ 32" using assms by simp
  then have "unat (true_high - low + 2) = unat true_high - unat low + 2" 
    using m unat_add_lem [of "true_high - low" 2] by simp
  then have d: "unat ((true_high - low + 2) div 2) = (unat true_high - unat low + 2) div 2" by (simp add: unat_div)
  have "unat low + (unat true_high - unat low + 2) div 2 \<le> unat true_high + 1" using assms(1) by simp
  with assms(2) d show ?thesis using unat_add_lem [of low "(true_high - low + 2) div 2"] by simp
qed

lemma synopsis_gather:
  assumes "unat low \<le> unat true_high" and "unat (high_num r) \<le> unat true_high" and "unat true_high + 2 < 2 ^ 32"
    and "length (halving (unat (high_num r)) (unat true_high) (unat low)) \<le> Suc k"
  shows "synopsis_loop cr k r true_high low =
    gather (block_id_in_range cr r) (map word_of_nat (halving (unat (high_num r)) (unat true_high) (unat low)))"
  using assms
proof (induction k arbitrary: low)
  case low: (0 low)
  let ?l = "low + (true_high - low + 2) div 2"
  note l = synopsis_step [OF low.prems(1,3)]
  have "\<not> unat ?l \<le> unat (high_num r)"
  proof
    assume "unat ?l \<le> unat (high_num r)"
    from halving_more [OF l this] low.prems(4) halving_sorted [of "unat (high_num r)" "unat true_high" "unat ?l"]
    show False by simp
  qed
  with halving_done [OF l this] show ?case by (subst synopsis_loop.simps) (simp add: Let_def word_le_nat_alt)
next
  case (Suc k low)
  let ?l = "low + (true_high - low + 2) div 2"
  note l = synopsis_step [OF Suc.prems(1,3)]
  show ?case
  proof (cases "unat ?l \<le> unat (high_num r)")
    case True
    note h = halving_more [OF l True]
    have "synopsis_loop cr k r true_high ?l =
        gather (block_id_in_range cr r) (map word_of_nat (halving (unat (high_num r)) (unat true_high) (unat ?l)))"
      using True Suc.prems h by (intro Suc.IH) simp_all
    with True show ?thesis by (subst synopsis_loop.simps) (simp add: Let_def word_le_nat_alt h)
  next
    case False
    with halving_done [OF l False] show ?thesis by (subst synopsis_loop.simps) (simp add: Let_def word_le_nat_alt)
  qed
qed

lemma halving_short:
  assumes "1 \<le> low" and "low \<le> goal_num" and "high \<le> goal_num" and "goal_num < 2 ^ 32"
  shows "length (halving high goal_num low) \<le> 33"
proof (rule ccontr)
  assume "\<not> length (halving high goal_num low) \<le> 33"
  then have "(2 :: nat) ^ 33 \<le> 2 ^ (length (halving high goal_num low) - 1)" by (intro power_increasing) simp_all
  also have "\<dots> \<le> goal_num - low + 1" by (rule halving_length [OF assms(2,3)])
  finally show False using assms by simp
qed

text \<open>
  C24: The synopsis of the chain always ends and covers the undoable part. Asked without a reference
  point, on a chain whose head and the given count do not pass the end of 32-bit numbers, the loop
  finishes within 33 rounds; it reads the ids of strictly increasing numbers that start at the
  last irreversible block (or block 1) and do not pass the head, and with nothing after the head
  the last of them is the head.
\<close>

theorem synopsis_covers_chain:
  assumes g: "gpo_of d g" and h: "head_block_num_of g \<noteq> 0"
    and low: "last_irreversible_block_num g \<le> head_block_num_of g"
    and small: "unat (head_block_num_of g) + unat after + 2 < 2 ^ 32"
  shows "\<exists>ns. get_blockchain_synopsis cr zero_id after d =
      capture (gather (get_block_id_for_num cr) (map word_of_nat ns)) d \<and>
    sorted_wrt (<) ns \<and> length ns \<le> 33 \<and> hd ns = max 1 (unat (last_irreversible_block_num g)) \<and>
    set ns \<subseteq> {1 .. unat (head_block_num_of g)} \<and> (after = 0 \<longrightarrow> last ns = unat (head_block_num_of g))"
proof -
  let ?h = "head_block_num_of g" and ?low = "last_irreversible_block_num g"
  define first where "first = (if ?low = 0 then 1 else ?low)"
  define r where "r = \<lparr>high_num = ?h, non_fork_high = ?h, low_num = ?low, fork_history = []\<rparr>"
  define ns where "ns = halving (unat ?h) (unat (?h + after)) (unat first)"
  have t: "unat (?h + after) = unat ?h + unat after" using small unat_add_lem [of ?h after] by simp
  have f: "unat first = max 1 (unat ?low)" "unat first \<le> unat ?h"
    using h low by (auto simp: first_def word_le_nat_alt max_def Suc_le_eq unat_gt_0)
  have top: "unat first \<le> unat (?h + after)" "unat ?h \<le> unat (?h + after)" "unat (?h + after) < 2 ^ 32"
    using f(2) t small by simp_all
  note sorted = halving_sorted [of "unat ?h" "unat (?h + after)" "unat first", folded ns_def]
  have first: "1 \<le> unat first" unfolding f(1) by (rule max.cobounded1)
  then have len: "length ns \<le> 33" unfolding ns_def by (rule halving_short [OF _ top])
  have range: "\<forall>n \<in> set ns. 1 \<le> n \<and> n \<le> unat ?h" using sorted f(2) first by (meson order_trans)
  have "block_id_in_range cr r n = get_block_id_for_num cr n" if "n \<in> set (map word_of_nat ns)" for n
  proof -
    from that obtain m where m: "n = word_of_nat m" "m \<le> unat ?h" using range by auto
    with unat_bound [of ?h] have "unat n = m" by (simp add: unat_small)
    with m(2) show ?thesis by (simp add: block_id_in_range_def r_def word_le_nat_alt)
  qed
  then have "gather (block_id_in_range cr r) (map word_of_nat ns) = gather (get_block_id_for_num cr) (map word_of_nat ns)"
    by (rule gather_cong)
  moreover have "synopsis_loop cr 32 r (?h + after) first = gather (block_id_in_range cr r) (map word_of_nat ns)"
    using synopsis_gather [of first "?h + after" r 32 cr] top t small len by (simp add: r_def ns_def)
  moreover have "synopsis_of_range cr after r = synopsis_loop cr 32 r (?h + after) first"
    by (simp add: synopsis_of_range_def r_def first_def)
  ultimately have loop: "synopsis_of_range cr after r = gather (get_block_id_for_num cr) (map word_of_nat ns)" by simp
  have "last_non_undoable_block_num d = (Inr ?low, d)"
    by (simp add: last_non_undoable_block_num_def bnd_def ret_def get_gpo_run [OF g])
  then have "get_blockchain_synopsis cr zero_id after d =
      capture (gather (get_block_id_for_num cr) (map word_of_nat ns)) d"
    using h loop by (simp add: get_blockchain_synopsis_def capture_def bnd_simps gpo_queries(1) [OF g] r_def)
  moreover have "after = 0 \<longrightarrow> last ns = unat ?h"
  proof
    assume "after = 0"
    then have "ns = halving (unat ?h) (unat ?h) (unat first)" by (simp add: ns_def)
    with halving_last [OF f(2) refl] show "last ns = unat ?h" by (simp only:)
  qed
  moreover have "set ns \<subseteq> {1 .. unat ?h}" using range by (simp add: subset_iff)
  moreover have "hd ns = max 1 (unat ?low)" "sorted_wrt (<) ns" unfolding f(1) [symmetric] using sorted by blast+
  ultimately show ?thesis using len by blast
qed

theorem synopsis_covers_chain_witness:
  "\<exists>ns. get_blockchain_synopsis demo_crypto zero_id 0 sample_db =
      capture (gather (get_block_id_for_num demo_crypto) (map word_of_nat ns)) sample_db \<and> hd ns = 1"
  using synopsis_covers_chain [OF sample_gpo_of, of 0 demo_crypto] by (auto simp: sample_gpo_def)

text \<open>When the count after the reference wraps the top number to just below a number, the loop never ends.\<close>

lemma synopsis_wrap_diverges:
  assumes "true_high = low - 1" and "low \<le> high_num r" and "block_id_in_range cr r low d = (Inr i, d)"
  shows "synopsis_loop cr k r true_high low d = (Inl Diverged, d)"
proof -
  have z: "(true_high - low + 2) div 2 = 0" unfolding assms(1) by simp
  show ?thesis
  proof (induction k)
    case 0
    show ?case using assms(2,3) z by (subst synopsis_loop.simps) (simp add: Let_def bnd_simps raise_def)
  next
    case (Suc k)
    then show ?case using assms(2,3) z by (subst synopsis_loop.simps) (simp add: Let_def bnd_simps)
  qed
qed

end
