(* ===== verification/Producer_Plugin.thy ===== *)
theory Producer_Plugin
  imports P2P_Plugin "HOL-Library.List_Lexorder"
begin

section \<open>The producer plugin\<close>

text \<open>
  \<open>plugins/producer_plugin/src/producer_plugin.cpp\<close>: a timer fires once a second, and the node
  produces a block when one of its producers is scheduled. A step is given the clock, in
  microseconds, at each place where the code reads it. \<open>std::map\<close> and \<open>std::set\<close> are an ordered map
  and an ordered list; public keys are ordered as byte strings.
\<close>

datatype block_production_condition =
    Produced
  | Not_Synced
  | Not_My_Turn
  | Not_Time_Yet
  | No_Private_Key
  | Lag
  | Exception_Producing_Block
  | Wait_For_Genesis

record producer_plugin =
  production_enabled :: bool
  private_keys :: "(bytes, bytes) omap"
  producers :: "u64 list"
  timer :: "nat option"

text \<open>What a producing node works on: its plugin, the database, the blocks it has broadcast.\<close>

record producer_node =
  producing :: producer_plugin
  node_db :: chain_db
  sent :: "signed_block list"

definition on_db :: "(chain_db, 'a) sx \<Rightarrow> (producer_node, 'a) sx" where
  "on_db m s = (case m (node_db s) of (r, d) \<Rightarrow> (r, s\<lparr>node_db := d\<rparr>))"

subsection \<open>Options\<close>

definition new_producer_plugin :: producer_plugin where
  "new_producer_plugin = \<lparr>production_enabled = True, private_keys = [], producers = [], timer = None\<rparr>"

text \<open>\<open>boost::split\<close> at each dash, empty parts kept.\<close>

fun split_dash :: "string \<Rightarrow> string list" where
  "split_dash [] = [[]]"
| "split_dash (c # cs) =
     (if c = CHR ''-'' then [] # split_dash cs
      else (case split_dash cs of [] \<Rightarrow> [[c]] | s # ss \<Rightarrow> (c # s) # ss))"

text \<open>
  The keys with the names at the same positions; too few names is an access past the end. How a
  name is read as a number (\<open>boost::lexical_cast\<close>) is given.
\<close>

fun read_keys ::
    "crypto \<Rightarrow> (string \<Rightarrow> u64 result) \<Rightarrow> string list \<Rightarrow> string list \<Rightarrow> producer_plugin \<Rightarrow> producer_plugin result" where
  "read_keys cr parse [] names p = Inr p"
| "read_keys cr parse (k # ks) names p =
     (case wif_to_key cr k of
        None \<Rightarrow> Inl Fc_Assert
      | Some pk \<Rightarrow>
          (case names of
             [] \<Rightarrow> Inl Undefined
           | n # ns \<Rightarrow>
               rbind (parse n) (\<lambda>v.
               read_keys cr parse ks ns
                 (p\<lparr>private_keys := om_put (public_of cr pk) pk (private_keys p),
                    producers := insert_name v (producers p)\<rparr>))))"

definition producer_initialize ::
    "crypto \<Rightarrow> (string \<Rightarrow> u64 result) \<Rightarrow> string option \<Rightarrow> string option \<Rightarrow> producer_plugin result" where
  "producer_initialize cr parse keys names =
     (case (keys, names) of
        (Some ks, Some ns) \<Rightarrow> read_keys cr parse (split_dash ks) (split_dash ns) new_producer_plugin
      | _ \<Rightarrow> Inr new_producer_plugin)"

subsection \<open>The timer\<close>

definition time_to_next_second :: "nat \<Rightarrow> nat" where
  "time_to_next_second now =
     (let t = 1000000 - now mod 1000000 in if t < 50000 then t + 1000000 else t)"

definition schedule_production_loop :: "nat \<Rightarrow> producer_plugin \<Rightarrow> producer_plugin" where
  "schedule_production_loop now p = p\<lparr>timer := Some (time_to_next_second now)\<rparr>"

definition producer_startup :: "nat \<Rightarrow> producer_plugin \<Rightarrow> p2p_state \<Rightarrow> producer_plugin \<times> p2p_state" where
  "producer_startup now p net =
     (if producers p \<noteq> []
      then (if production_enabled p then schedule_production_loop now p else p, set_block_production True net)
      else (p, net))"

subsection \<open>Producing\<close>

definition far_apart :: "u32 \<Rightarrow> u32 \<Rightarrow> bool" where
  "far_apart a b \<longleftrightarrow> \<bar>int (unat a) * 1000000 - int (unat b) * 1000000\<bar> > 500"

definition broadcast_block :: "signed_block \<Rightarrow> producer_node \<Rightarrow> producer_node" where
  "broadcast_block b s = s\<lparr>sent := sent s @ [b]\<rparr>"

text \<open>The key is the first of the map, so it is always found.\<close>

definition produce_in_slot :: "chain_env \<Rightarrow> u32 \<Rightarrow> u32 \<Rightarrow> u64 \<Rightarrow> (producer_node, block_production_condition) sx" where
  "produce_in_slot env now slot name =
     bnd (on_db (get_slot_time slot)) (\<lambda>scheduled.
     bnd (gets (\<lambda>s. private_keys (producing s))) (\<lambda>keys.
     case keys of
       [] \<Rightarrow> raise Undefined
     | (k, first_pk) # _ \<Rightarrow>
         (case map_of keys k of
            None \<Rightarrow> ret No_Private_Key
          | Some pk \<Rightarrow>
              if far_apart scheduled now then ret Lag
              else bnd (on_db (plugin_generate_block env now name pk 0)) (\<lambda>b.
                   seq (update (broadcast_block b)) (ret Produced)))))"

definition produce_if_synced :: "chain_env \<Rightarrow> u32 \<Rightarrow> (producer_node, block_production_condition) sx" where
  "produce_if_synced env now =
     bnd (on_db (get_slot_at_time now)) (\<lambda>slot.
     if slot = 0 then bnd (on_db (get_slot_time 1)) (\<lambda>_. ret Not_Time_Yet)
     else bnd (on_db (get_scheduled_producer slot)) (\<lambda>name.
          bnd (gets (\<lambda>s. producers (producing s))) (\<lambda>ps.
          if name \<notin> set ps then ret Not_My_Turn else produce_in_slot env now slot name)))"

definition enable_production :: "producer_node \<Rightarrow> producer_node" where
  "enable_production s = s\<lparr>producing := (producing s)\<lparr>production_enabled := True\<rparr>\<rparr>"

definition maybe_produce_block :: "chain_env \<Rightarrow> nat \<Rightarrow> (producer_node, block_production_condition) sx" where
  "maybe_produce_block env now_fine =
     (let now = seconds_of (now_fine + 500000) in
      bnd (gets (\<lambda>s. production_enabled (producing s))) (\<lambda>enabled.
      if enabled then produce_if_synced env now
      else bnd (on_db (get_slot_time 1)) (\<lambda>t.
           if now \<le> t then seq (update enable_production) (produce_if_synced env now)
           else ret Not_Synced)))"

text \<open>
  The handler of the timer. Before the genesis time, and after an exception that is no
  \<open>fc::exception\<close>, it returns without setting the timer again.
\<close>

definition rearm :: "nat \<Rightarrow> block_production_condition \<Rightarrow> (producer_node, block_production_condition) sx" where
  "rearm now c = seq (update (\<lambda>s. s\<lparr>producing := schedule_production_loop now (producing s)\<rparr>)) (ret c)"

definition production_outcome :: "chain_env \<Rightarrow> nat \<Rightarrow> (producer_node, bool \<times> block_production_condition) sx" where
  "production_outcome env now =
     catch_all
       (catch_fc (bnd (maybe_produce_block env now) (\<lambda>c. ret (True, c))) (\<lambda>_. ret (True, Exception_Producing_Block)))
       (\<lambda>_. ret (False, Exception_Producing_Block))"

definition block_production_loop ::
    "chain_env \<Rightarrow> nat \<Rightarrow> nat \<Rightarrow> nat \<Rightarrow> (producer_node, block_production_condition) sx" where
  "block_production_loop env first_now now last_now =
     seq (update (\<lambda>s. s\<lparr>producing := (producing s)\<lparr>timer := None\<rparr>\<rparr>))
       (if first_now < unat news_genesis_time * 1000000 then ret Wait_For_Genesis
        else bnd (production_outcome env now) (\<lambda>(again, c). if again then rearm last_now c else ret c))"

end
