(* ===== verification/Producer_Props.thy ===== *)
theory Producer_Props
  imports Producer_Plugin P2P_Props Produce_Props
begin

section \<open>The producer plugin: properties\<close>

text \<open>
  When a node produces a block and which one, and when its timer goes on.
\<close>

lemma on_db_run: "m (node_db s) = (r, d) \<Longrightarrow> on_db m s = (r, s\<lparr>node_db := d\<rparr>)"
  by (simp add: on_db_def)

lemma far_apart_iff: "far_apart a b \<longleftrightarrow> a \<noteq> b"
proof
  assume "far_apart a b"
  then show "a \<noteq> b" by (auto simp: far_apart_def)
next
  assume "a \<noteq> b"
  then have "unat a \<noteq> unat b" using word_unat_eq_iff [of a b] by blast
  then consider "unat a + 1 \<le> unat b" | "unat b + 1 \<le> unat a" by linarith
  then show "far_apart a b" unfolding far_apart_def by cases linarith+
qed

definition scheduled_of :: "global_property \<Rightarrow> u32 \<Rightarrow> u64" where
  "scheduled_of g n =
     [news_system_account_name, news_system_account_name + 1] ! (unat (current_aslot g + n) mod 2)"

lemma scheduled_run: "gpo_of d g \<Longrightarrow> get_scheduled_producer n d = (Inr (scheduled_of g n), d)"
  by (simp add: get_scheduled_producer_def bnd_simps get_gpo_run ret_def scheduled_of_def Let_def numeral_2_eq_2)

text \<open>The slot a node looks at, and what it does there.\<close>

definition slot_now :: "global_property \<Rightarrow> u32 \<Rightarrow> u32" where
  "slot_now g now = slot_of (slot_time g 1) now"

definition decision :: "global_property \<Rightarrow> u32 \<Rightarrow> u64 list \<Rightarrow> block_production_condition" where
  "decision g now ps =
     (if slot_now g now = 0 then Not_Time_Yet
      else if scheduled_of g (slot_now g now) \<notin> set ps then Not_My_Turn
      else if slot_time g (slot_now g now) \<noteq> now then Lag
      else Produced)"

definition generate_and_send :: "chain_env \<Rightarrow> u32 \<Rightarrow> u64 \<Rightarrow> bytes \<Rightarrow> (producer_node, block_production_condition) sx" where
  "generate_and_send env now name pk s =
     (case generate_block env now name pk 0 (node_db s) of
        (Inl e, d) \<Rightarrow> (Inl e, s\<lparr>node_db := d\<rparr>)
      | (Inr b, d) \<Rightarrow> (Inr Produced, s\<lparr>node_db := d, sent := sent s @ [b]\<rparr>))"

lemma capture_generate: "capture (generate_block env w n pk f) d = generate_block env w n pk f d"
  by (auto simp: generate_block_def with_skip_flags_def on_exit_def capture_def std_exception_def
      split: prod.splits sum.splits)

lemma generate_fields:
  assumes "generate_block env w p pk f d = (Inr b, e)"
  shows "timestamp b = w \<and> producer b = p"
proof -
  from assms obtain u where "generate_block_body env w p pk (d\<lparr>skip_flags := f\<rparr>) = (Inr b, u)"
    by (auto simp: generate_block_def with_skip_flags_def on_exit_def split: prod.splits)
  from generate_parts [OF this] show ?thesis by blast
qed

lemma slot_steps:
  assumes "gpo_of (node_db s) g"
  shows "on_db (get_slot_at_time now) s = (Inr (slot_now g now), s)"
    "on_db (get_slot_time n) s = (Inr (if n = 0 then 0 else slot_time g n), s)"
    "on_db (get_scheduled_producer n) s = (Inr (scheduled_of g n), s)"
  by (simp_all add: on_db_def slot_at_run [OF assms] slot_time_run [OF assms] scheduled_run [OF assms] slot_now_def)

lemma produce_run:
  assumes g: "gpo_of (node_db s) g" and k: "private_keys (producing s) = (k, pk) # ks"
  shows "produce_if_synced env now s =
    (if decision g now (producers (producing s)) = Produced
     then generate_and_send env now (scheduled_of g (slot_now g now)) pk s
     else (Inr (decision g now (producers (producing s))), s))"
proof -
  have gen: "bnd (on_db (plugin_generate_block env now name pk 0)) (\<lambda>b. seq (update (broadcast_block b)) (ret Produced)) s =
      generate_and_send env now name pk s" for name
    by (simp add: plugin_calls(3) bnd_def on_db_def generate_and_send_def capture_generate seq_def update_def ret_def broadcast_block_def
        split: prod.splits sum.splits)
  show ?thesis
    by (simp add: produce_if_synced_def produce_in_slot_def slot_steps [OF g] bnd_simps decision_def k ret_def
        sx_simps far_apart_iff gen)
qed

text \<open>
  What a node does when its timer fires. With production enabled (or now, the chain being at the
  present slot), the node looks at the slot of the time rounded to the nearest second: it waits
  if the slot has not come, or belongs to a producer it does not run, or began at another second;
  otherwise it generates the block of the scheduled producer for exactly that second with its first
  key, and broadcasts it. Only then does it touch the database.
\<close>

theorem production_decision:
  assumes g: "gpo_of (node_db s) g" and k: "private_keys (producing s) = (k, pk) # ks"
  shows "maybe_produce_block env t s =
    (let now = seconds_of (t + 500000); p = producing s; s' = if production_enabled p then s else enable_production s in
     if \<not> production_enabled p \<and> slot_time g 1 < now then (Inr Not_Synced, s)
     else if decision g now (producers p) = Produced
     then generate_and_send env now (scheduled_of g (slot_now g now)) pk s'
     else (Inr (decision g now (producers p)), s'))"
proof -
  have e: "gpo_of (node_db (enable_production s)) g" "private_keys (producing (enable_production s)) = (k, pk) # ks"
    "producers (producing (enable_production s)) = producers (producing s)"
    using g k by (simp_all add: enable_production_def)
  show ?thesis
    using produce_run [OF g k] produce_run [OF e(1,2)] e(3)
    by (auto simp: maybe_produce_block_def Let_def bnd_simps sx_simps slot_steps [OF g] not_le)
qed

text \<open>
  C14: A block is produced on time. A block that the node broadcasts stands at the beginning of its
  slot and the timer fired within half a second of it; its producer is the scheduled one, which the
  node runs; nothing else is broadcast, and without a block nothing at all.
\<close>

theorem produced_on_time:
  assumes g: "gpo_of (node_db s) g" and k: "private_keys (producing s) = (k, pk) # ks"
    and t: "(t + 500000) div 1000000 < 2 ^ 32"
    and run: "maybe_produce_block env t s = (Inr c, s')"
  shows "if c = Produced
    then \<exists>b n. sent s' = sent s @ [b] \<and> 0 < n \<and> timestamp b = slot_time g n \<and> producer b = scheduled_of g n \<and>
      producer b \<in> set (producers (producing s)) \<and>
      unat (timestamp b) * 1000000 \<le> t + 500000 \<and> t < unat (timestamp b) * 1000000 + 500000
    else sent s' = sent s \<and> node_db s' = node_db s"
proof -
  let ?now = "seconds_of (t + 500000)" and ?ps = "producers (producing s)"
  define s1 where "s1 = (if production_enabled (producing s) then s else enable_production s)"
  have s1: "sent s1 = sent s" "node_db s1 = node_db s" by (simp_all add: s1_def enable_production_def)
  have n: "unat ?now = (t + 500000) div 1000000" unfolding seconds_of_def using t by (rule unat_small)
  have no: "slot_now g ?now \<noteq> 0" "scheduled_of g (slot_now g ?now) \<in> set ?ps" "slot_time g (slot_now g ?now) = ?now"
    if "decision g ?now ?ps = Produced"
    using that by (auto simp: decision_def split: if_splits)
  show ?thesis
  proof (cases "decision g ?now ?ps = Produced \<and> (production_enabled (producing s) \<or> \<not> slot_time g 1 < ?now)")
    case False
    then have "c \<noteq> Produced" "s' = s \<or> s' = s1"
      using run production_decision [OF g k, of env t] by (auto simp: Let_def s1_def split: if_splits)
    with s1 show ?thesis by auto
  next
    case True
    then have "generate_and_send env ?now (scheduled_of g (slot_now g ?now)) pk s1 = (Inr c, s')"
      using run production_decision [OF g k, of env t] by (auto simp: Let_def s1_def)
    then obtain b d where b: "generate_block env ?now (scheduled_of g (slot_now g ?now)) pk 0 (node_db s) = (Inr b, d)"
      "c = Produced" "sent s' = sent s @ [b]"
      using s1 by (auto simp: generate_and_send_def split: prod.splits sum.splits)
    have bt: "timestamp b = ?now" "producer b = scheduled_of g (slot_now g ?now)"
      using generate_fields [OF b(1)] by simp_all
    have "unat ?now * 1000000 \<le> t + 500000 \<and> t < unat ?now * 1000000 + 500000" unfolding n by simp
    with no True b bt show ?thesis by (auto simp: word_greater_zero_iff)
  qed
qed

subsection \<open>The timer\<close>

text \<open>
  The timer is set for a whole second that is at least 50 milliseconds and less than 1.05
  seconds away.
\<close>

theorem timer_on_second:
  "(now + time_to_next_second now) mod 1000000 = 0 \<and> 50000 \<le> time_to_next_second now \<and> time_to_next_second now < 1050000"
proof -
  define q r where "q = now div 1000000" and "r = now mod 1000000"
  then have now: "now = 1000000 * q + r" "r < 1000000" by simp_all
  have "(now + (1000000 - r)) mod 1000000 = (1000000 * (q + 1)) mod 1000000"
    "(now + (1000000 - r + 1000000)) mod 1000000 = (1000000 * (q + 2)) mod 1000000"
    using now by (intro arg_cong [of _ _ "\<lambda>x. x mod 1000000"]; simp)+
  then have "(now + (1000000 - r)) mod 1000000 = 0" "(now + (1000000 - r + 1000000)) mod 1000000 = 0"
    by (simp_all only: mod_mult_self1_is_0)
  with now(2) show ?thesis unfolding time_to_next_second_def Let_def r_def [symmetric]
    by (simp split: if_splits) linarith
qed

lemma loop_timer:
  assumes "block_production_loop env first_now now last_now s = (Inr c, s')"
  shows "if first_now < unat news_genesis_time * 1000000
    then c = Wait_For_Genesis \<and> timer (producing s') = None
    else c \<noteq> Exception_Producing_Block \<longrightarrow> timer (producing s') = Some (time_to_next_second last_now)"
  using assms
  by (auto simp: block_production_loop_def seq_def bnd_def update_def ret_def rearm_def schedule_production_loop_def
      production_outcome_def catch_all_def catch_fc_def catch_sx_def raise_def
      split: prod.splits sum.splits if_splits)

definition idle_node :: producer_node where
  "idle_node =
     \<lparr>producing = new_producer_plugin\<lparr>private_keys := [([1], [2])], producers := [7]\<rparr>, node_db = sample_db, sent = []\<rparr>"

lemma idle_facts:
  "gpo_of (node_db idle_node) sample_gpo" "private_keys (producing idle_node) = ([1], [2]) # []"
  "production_enabled (producing idle_node)" "seconds_of (12000000 + 500000) = 12"
  "decision sample_gpo 12 (producers (producing idle_node)) = Not_My_Turn"
  using sample_gpo_of
  by (simp_all add: idle_node_def new_producer_plugin_def seconds_of_def decision_def scheduled_of_def slot_now_def
      slot_of_def slot_time_def sample_gpo_def news_block_interval_def news_system_account_name_def)

theorem production_decision_witness:
  "maybe_produce_block sample_env 12000000 idle_node = (Inr Not_My_Turn, idle_node)"
  using production_decision [OF idle_facts(1,2), of sample_env 12000000] idle_facts(3-5) by (simp add: Let_def)

theorem produced_on_time_witness: "sent (snd (maybe_produce_block sample_env 12000000 idle_node)) = []"
proof -
  have run: "maybe_produce_block sample_env 12000000 idle_node = (Inr Not_My_Turn, idle_node)"
    using produce_run [OF idle_facts(1,2), of sample_env 12] idle_facts(3-5)
    by (simp add: maybe_produce_block_def Let_def bnd_simps sx_simps)
  have "((12000000 :: nat) + 500000) div 1000000 < 2 ^ 32" by simp
  from produced_on_time [OF idle_facts(1,2) this run] run show ?thesis by (simp add: idle_node_def)
qed

end
