(* ===== verification/APIs.thy ===== *)
theory APIs
  imports P2P_Plugin History
begin

section \<open>The public calls\<close>

text \<open>
  The calls of \<open>plugins/apis\<close> on the database and on the write queues, with the hexadecimal text of
  \<open>fc/src/crypto/hex.cpp\<close>. Each call is made under the read lock or, where it writes, without it.
\<close>

subsection \<open>fc: hexadecimal text\<close>

definition hex_digit :: "nat \<Rightarrow> char" where
  "hex_digit n = ''0123456789abcdef'' ! n"

fun to_hex :: "bytes \<Rightarrow> string" where
  "to_hex [] = []"
| "to_hex (b # bs) = hex_digit (unat (drop_bit 4 b)) # hex_digit (unat (b AND 0x0F)) # to_hex bs"

definition from_hex_char :: "char \<Rightarrow> byte result" where
  "from_hex_char c =
     (let n = of_char c :: nat
      in if 48 \<le> n \<and> n \<le> 57 then Inr (word_of_nat (n - 48))
         else if 97 \<le> n \<and> n \<le> 102 then Inr (word_of_nat (n - 97 + 10))
         else if 65 \<le> n \<and> n \<le> 70 then Inr (word_of_nat (n - 65 + 10))
         else Inl Fc_Assert)"

text \<open>Into a buffer of the given length: the bytes written, where the text or the buffer ends.\<close>

fun from_hex :: "string \<Rightarrow> nat \<Rightarrow> bytes result" where
  "from_hex [] n = Inr []"
| "from_hex (c # cs) 0 = Inr []"
| "from_hex [c] (Suc n) = rbind (from_hex_char c) (\<lambda>h. Inr [push_bit 4 h])"
| "from_hex (c # d # cs) (Suc n) =
     rbind (from_hex_char c) (\<lambda>h.
     rbind (from_hex_char d) (\<lambda>l.
     rbind (from_hex cs n) (\<lambda>bs. Inr ((push_bit 4 h OR l) # bs))))"

subsection \<open>database_api\<close>

record account_view =
  av_name :: u64
  av_creator :: u64
  av_balance :: asset
  av_create_time :: u64

definition account_view_of :: "account_object \<Rightarrow> account_view" where
  "account_view_of a =
     \<lparr>av_name = ac_name a, av_creator = ac_creator a, av_balance = balance a, av_create_time = create_time a\<rparr>"

definition get_dynamic_global_property :: "(chain_db, global_property) sx" where
  "get_dynamic_global_property = get_global_property_object"

fun view_accounts :: "u64 list \<Rightarrow> (chain_db, account_view list) sx" where
  "view_accounts [] = ret []"
| "view_accounts (n # ns) =
     bnd (get_account n) (\<lambda>p. bnd (view_accounts ns) (\<lambda>vs. ret (account_view_of (snd p) # vs)))"

text \<open>The names come as a set, in increasing order.\<close>

definition get_accounts :: "u64 list \<Rightarrow> (chain_db, account_view list) sx" where
  "get_accounts ns = seq (check (length ns \<le> unat api_limit) Fc_Assert) (view_accounts ns)"

definition get_transactions_hex :: "signed_transaction \<Rightarrow> string result" where
  "get_transactions_hex t = rbind (pack_to_vector c_signed_transaction t) (\<lambda>bs. Inr (to_hex bs))"

definition detailed :: "crypto \<Rightarrow> signed_transaction \<Rightarrow> detailed_transaction" where
  "detailed cr t = \<lparr>dt_trx = t, dt_trx_id = transaction_id cr t, dt_block_num = 0, dt_transaction_num = 0\<rparr>"

definition database_get_transaction :: "crypto \<Rightarrow> bytes \<Rightarrow> (chain_db, detailed_transaction) sx" where
  "database_get_transaction cr k = bnd (get_recent_transaction k) (\<lambda>t. ret (detailed cr t))"

subsection \<open>block_api\<close>

definition get_block_header :: "u32 \<Rightarrow> (chain_db, block_header option) sx" where
  "get_block_header n = bnd (fetch_block_by_num n) (\<lambda>b. ret (map_option block_header.truncate b))"

definition get_block :: "u32 \<Rightarrow> (chain_db, signed_block option) sx" where
  "get_block n = bnd (fetch_block_by_num n) ret"

definition fetch_chunk :: "u32 \<Rightarrow> (chain_db, signed_block option) sx" where
  "fetch_chunk n = bnd (fetch_block_by_num n) ret"

subsection \<open>chain_api and network_broadcast_api\<close>

record push_return =
  push_success :: bool
  push_error :: "error option"

definition api_push_block :: "chain_env \<Rightarrow> signed_block \<Rightarrow> (chain_db, push_return) sx" where
  "api_push_block env b =
     catch_all (bnd (accept_block env b 0) (\<lambda>_. ret \<lparr>push_success = True, push_error = None\<rparr>))
       (\<lambda>e. ret \<lparr>push_success = False, push_error = Some e\<rparr>)"

definition api_push_transaction :: "chain_env \<Rightarrow> signed_transaction \<Rightarrow> (chain_db, push_return) sx" where
  "api_push_transaction env t =
     bnd (accept_transaction env t) (\<lambda>_. ret \<lparr>push_success = True, push_error = None\<rparr>)"

record network_node =
  net_db :: chain_db
  sent_transactions :: "signed_transaction list"

definition broadcast_transaction :: "chain_env \<Rightarrow> signed_transaction \<Rightarrow> (network_node, unit) sx" where
  "broadcast_transaction env t =
     seq (\<lambda>s. case accept_transaction env t (net_db s) of (r, d) \<Rightarrow> (r, s\<lparr>net_db := d\<rparr>))
         (update (\<lambda>s. s\<lparr>sent_transactions := sent_transactions s @ [t]\<rparr>))"

end
