(* ===== verification/API_Props.thy ===== *)
theory API_Props
  imports APIs P2P_Props Transaction_Props
begin

section \<open>The public calls: properties\<close>

text \<open>
  The hexadecimal text of a transaction is read back to it; the account call agrees with the
  ledger; only transactions the database took are sent on.
\<close>

lemma below16: "n < (16::nat) \<longleftrightarrow> n \<in> {0, 1, 2, 3, 4, 5, 6, 7, 8, 9, 10, 11, 12, 13, 14, 15}"
  by (simp only: insert_iff empty_iff) arith

lemma hex_digit_nibble: "n < 16 \<Longrightarrow> from_hex_char (hex_digit n) = Inr (word_of_nat n)"
  unfolding below16 by (elim insertE emptyE; simp add: from_hex_char_def hex_digit_def Let_def)

lemma nibble_parts:
  "(word_of_nat (unat (drop_bit 4 b)) :: byte) = drop_bit 4 b" "unat (drop_bit 4 b) < 16"
  "(word_of_nat (unat (b AND 0x0F)) :: byte) = b AND 0x0F" "unat (b AND 0x0F) < 16"
  for b :: byte
proof -
  have "unat (drop_bit 4 b) = unat b div 16" by (simp add: drop_bit_eq_div unat_div)
  with byte_bound [of b] show "unat (drop_bit 4 b) < 16" by simp
  have "b AND 0x0F = take_bit 4 b" by (simp add: take_bit_eq_mask mask_eq_exp_minus_1)
  then have "unat (b AND 0x0F) = unat b mod 16" by (simp add: take_bit_eq_mod unat_mod)
  then show "unat (b AND 0x0F) < 16" by simp
qed simp_all

lemma nibbles: "push_bit 4 (drop_bit 4 b) OR (b AND 0x0F) = (b :: byte)"
proof -
  have m: "b AND 0x0F = take_bit 4 b" by (simp add: take_bit_eq_mask mask_eq_exp_minus_1)
  show ?thesis unfolding m by (rule bit_eqI) (auto simp: bit_simps)
qed

lemma hex_read_back: "from_hex (to_hex bs) (length bs) = Inr bs \<and> length (to_hex bs) = 2 * length bs"
proof (induction bs)
  case (Cons b bs)
  with hex_digit_nibble [OF nibble_parts(2) [of b]] hex_digit_nibble [OF nibble_parts(4) [of b]] show ?case
    by (simp add: nibble_parts(1,3) nibbles)
qed simp

text \<open>
  The hexadecimal text of a transaction holds the transaction: what \<open>get_transactions_hex\<close>
  returns has two digits for each packed byte, and reading the digits and unpacking the bytes
  gives the transaction back.
\<close>

theorem transactions_hex_round_trip:
  assumes "signed_transaction_ok t" and "pack_size c_signed_transaction t < 2 ^ 31"
  shows "\<exists>h. get_transactions_hex t = Inr h \<and> length h = 2 * pack_size c_signed_transaction t \<and>
    rbind (from_hex h (length h div 2)) (\<lambda>bs. fst (c_get c_signed_transaction bs)) = Inr t"
proof -
  let ?bs = "packed c_signed_transaction t"
  have h: "get_transactions_hex t = Inr (to_hex ?bs)"
    using signed_transaction.pack_ok [OF assms(2)] by (simp add: get_transactions_hex_def)
  have "c_get c_signed_transaction ?bs = (Inr t, [])"
    using signed_transaction.law assms(1) unfolding round_trip_def by (metis append_Nil2)
  with h hex_read_back [of ?bs] show ?thesis by (simp add: pack_size_packed)
qed

theorem transactions_hex_round_trip_witness: "\<exists>h. get_transactions_hex no_transaction = Inr h \<and> length h = 24"
proof -
  have "signed_transaction_ok no_transaction"
    by (simp add: signed_transaction_ok_def transaction_ok_def sized_def no_transaction_def max_alloc_def)
  moreover have "pack_size c_signed_transaction no_transaction = 12"
  proof -
    have "put_varint (0 :: u64) = [[0]]" "put_varint (0 :: u32) = [[0]]" by (subst put_varint.simps; simp)+
    then show ?thesis
      by (simp add: pack_size_def c_signed_transaction_def c_transaction_def c_class_def c_pair_def c_word_def c_vector_def
          no_transaction_def transaction.defs put_size_def c_unsigned_int_def)
  qed
  ultimately show ?thesis using transactions_hex_round_trip [of no_transaction] by auto
qed

lemma view_accounts_run:
  assumes "chain_ok d" and "registered d"
  shows "view_accounts ns d = (Inr vs, e) \<Longrightarrow> e = d \<and> map av_name vs = ns \<and>
    (\<forall>v \<in> set vs. ledger d (av_name v) = Some (amount (av_balance v)))"
proof (induction ns arbitrary: vs)
  case (Cons n ns)
  from Cons.prems get_account_eq [OF assms, of n] obtain i a ws where
    a: "find_account_by n d = Inr (Some (i, a))" "view_accounts ns d = (Inr ws, e)" "vs = account_view_of a # ws"
    by (auto simp: bnd_Inr_iff ret_def split: sum.splits option.splits)
  then have "ac_name a = n" using find_account_iff [OF assms] by blast
  with a Cons.IH [OF a(2)] show ?case by (auto simp: account_view_of_def ledger_def)
qed (simp add: ret_def)

text \<open>
  The account call agrees with the ledger. At most a thousand names are taken; if all of them
  exist the answer has one account for each name in the order asked, each with the balance of
  the ledger, and nothing is changed; otherwise an exception is thrown.
\<close>

theorem get_accounts_ledger:
  assumes ok: "chain_ok d" "registered d"
  shows "case get_accounts ns d of
      (Inl x, e) \<Rightarrow> e = d \<and> (length ns > 1000 \<or> (\<exists>n \<in> set ns. ledger d n = None))
    | (Inr vs, e) \<Rightarrow> e = d \<and> length ns \<le> 1000 \<and> map av_name vs = ns \<and>
        list_all (\<lambda>v. ledger d (av_name v) = Some (amount (av_balance v))) vs"
proof -
  have fail: "e = d \<and> (\<exists>n \<in> set ns. ledger d n = None)" if "view_accounts ns d = (Inl x, e)" for x e
    using that
  proof (induction ns)
    case (Cons n ns)
    then show ?case using get_account_eq [OF ok, of n]
      by (auto simp: bnd_def ret_def ledger_def split: sum.splits option.splits prod.splits)
  qed (simp add: ret_def)
  have l: "unat api_limit = 1000" by (simp add: api_limit_def)
  show ?thesis
    using fail view_accounts_run [OF ok]
    by (auto simp: get_accounts_def l seq_def bnd_def check_def ret_def raise_def list_all_iff split: prod.splits sum.splits)
qed

text \<open>
  Only a transaction the database took is sent on: when \<open>broadcast_transaction\<close> returns, the
  database has pushed the transaction and it is sent to the network once; when it throws, nothing is sent.
\<close>

theorem broadcast_after_push:
  "case broadcast_transaction env t s of
     (r, s') \<Rightarrow> (r, net_db s') = capture (push_transaction env t 0) (net_db s) \<and>
       sent_transactions s' = sent_transactions s @ (if r = Inr () then [t] else [])"
  by (auto simp: broadcast_transaction_def plugin_calls(2) seq_def bnd_def update_def split: prod.splits sum.splits)

theorem get_accounts_ledger_witness:
  "case get_accounts [1, 3] sample_db of
      (Inl x, e) \<Rightarrow> e = sample_db
    | (Inr vs, e) \<Rightarrow> e = sample_db \<and> map av_name vs = [1, 3]"
  using get_accounts_ledger [OF sample_ok(1,2), of "[1, 3]"] by (auto split: prod.splits sum.splits)

end
