(* ===== verification/Application.thy ===== *)
theory Application
  imports Chain_Objects
begin

section \<open>The application: the life of the plugins\<close>

text \<open>
  \<open>appbase/include/app/application.hpp\<close>, \<open>plugin.hpp\<close> and \<open>appbase/src/application.cpp\<close>: plugins are
  registered with the plugins they require, initialised and started after them, and shut down in
  the opposite order. What a plugin does in its own \<open>plugin_initialize\<close>, \<open>plugin_startup\<close> and
  \<open>plugin_shutdown\<close> is given as the exception it throws, if any; the model records the calls.
\<close>

datatype lifecycle = Registered | Initialized | Started | Stopped

datatype hook = Initialize_Hook | Startup_Hook | Shutdown_Hook

text \<open>
  The plugins there are: their names, the plugins each requires, and the exceptions of their
  hooks. Registering or initialising walks along the requirements; it is given as many rounds
  as there are names.
\<close>

record plugin_set =
  plugin_names :: "string list"
  requires :: "string \<Rightarrow> string list"
  throws :: "hook \<Rightarrow> string \<Rightarrow> error option"

record application =
  plugins :: "string \<rightharpoonup> lifecycle"
  initialized_plugins :: "string list"
  running_plugins :: "string list"
  hooks_run :: "(hook \<times> string) list"

definition new_application :: application where
  "new_application = \<lparr>plugins = (\<lambda>_. None), initialized_plugins = [], running_plugins = [], hooks_run = []\<rparr>"

definition set_lifecycle :: "string \<Rightarrow> lifecycle \<Rightarrow> (application, unit) sx" where
  "set_lifecycle p l = update (\<lambda>s. s\<lparr>plugins := (plugins s)(p \<mapsto> l)\<rparr>)"

definition run_hook :: "plugin_set \<Rightarrow> hook \<Rightarrow> string \<Rightarrow> (application, unit) sx" where
  "run_hook ps h p =
     seq (update (\<lambda>s. s\<lparr>hooks_run := hooks_run s @ [(h, p)]\<rparr>))
         (case throws ps h p of None \<Rightarrow> ret () | Some e \<Rightarrow> raise e)"

subsection \<open>Registering\<close>

fun register_plugin :: "plugin_set \<Rightarrow> nat \<Rightarrow> string \<Rightarrow> (application, unit) sx" where
  "register_plugin ps fuel p =
     bnd (gets (\<lambda>s. plugins s p)) (\<lambda>found.
     if found \<noteq> None then ret ()
     else (case fuel of
             0 \<Rightarrow> raise Diverged
           | Suc k \<Rightarrow> seq (set_lifecycle p Registered) (each (register_plugin ps k) (requires ps p))))"

declare register_plugin.simps [simp del]

definition register_one :: "plugin_set \<Rightarrow> string \<Rightarrow> (application, unit) sx" where
  "register_one ps p = register_plugin ps (length (plugin_names ps)) p"

text \<open>A plugin that is not in the map has been erased: the call is on a dangling pointer.\<close>

definition lifecycle_of :: "string \<Rightarrow> (application, lifecycle) sx" where
  "lifecycle_of p = reads (\<lambda>s. case plugins s p of Some l \<Rightarrow> Inr l | None \<Rightarrow> Inl Undefined)"

subsection \<open>Initialising and starting\<close>

fun initialize :: "plugin_set \<Rightarrow> nat \<Rightarrow> string \<Rightarrow> (application, unit) sx" where
  "initialize ps fuel p =
     bnd (lifecycle_of p) (\<lambda>l.
     seq (if l = Registered
          then (case fuel of
                  0 \<Rightarrow> raise Diverged
                | Suc k \<Rightarrow>
                    seq (set_lifecycle p Initialized)
                   (seq (each (\<lambda>q. seq (register_one ps q) (initialize ps k q)) (requires ps p))
                   (seq (run_hook ps Initialize_Hook p)
                        (update (\<lambda>s. s\<lparr>initialized_plugins := initialized_plugins s @ [p]\<rparr>)))))
          else ret ())
    (bnd (lifecycle_of p) (\<lambda>l. check (l = Initialized) Runtime_Error)))"

declare initialize.simps [simp del]

fun startup :: "plugin_set \<Rightarrow> nat \<Rightarrow> string \<Rightarrow> (application, unit) sx" where
  "startup ps fuel p =
     bnd (lifecycle_of p) (\<lambda>l.
     seq (if l = Initialized
          then (case fuel of
                  0 \<Rightarrow> raise Diverged
                | Suc k \<Rightarrow>
                    seq (set_lifecycle p Started)
                   (seq (each (\<lambda>q. seq (register_one ps q) (startup ps k q)) (requires ps p))
                   (seq (run_hook ps Startup_Hook p)
                        (update (\<lambda>s. s\<lparr>running_plugins := running_plugins s @ [p]\<rparr>)))))
          else ret ())
    (bnd (lifecycle_of p) (\<lambda>l. check (l = Started) Runtime_Error)))"

declare startup.simps [simp del]

definition start_up :: "plugin_set \<Rightarrow> (application, unit) sx" where
  "start_up ps = bnd (gets initialized_plugins) (each (startup ps (length (plugin_names ps))))"

subsection \<open>Shutting down\<close>

definition shutdown_plugin :: "plugin_set \<Rightarrow> string \<Rightarrow> (application, unit) sx" where
  "shutdown_plugin ps p =
     bnd (lifecycle_of p) (\<lambda>l.
     if l = Started then seq (set_lifecycle p Stopped) (run_hook ps Shutdown_Hook p) else ret ())"

definition shutdown :: "plugin_set \<Rightarrow> (application, unit) sx" where
  "shutdown ps =
     bnd (gets running_plugins) (\<lambda>ps'.
     seq (each (shutdown_plugin ps) (rev ps'))
         (update (\<lambda>s. s\<lparr>running_plugins := [], initialized_plugins := [], plugins := (\<lambda>_. None)\<rparr>)))"

subsection \<open>Finding plugins, and the options that name them\<close>

text \<open>
  \<open>find_plugin<Plugin>\<close> reads the state of the plugin in the very case that there is none.
\<close>

definition find_plugin :: "string \<Rightarrow> (application, string) sx" where
  "find_plugin p = reads (\<lambda>s. if plugins s p = None then Inl Undefined else Inr p)"

definition get_plugin :: "string \<Rightarrow> (application, string) sx" where
  "get_plugin p = reads (\<lambda>s. if plugins s p = None then Inl Runtime_Error else Inr p)"

text \<open>The plugins named in the options, then those of the program; standard exceptions of the latter are logged.\<close>

definition initialize_autostart :: "plugin_set \<Rightarrow> string list \<Rightarrow> (application, unit) sx" where
  "initialize_autostart ps names =
     catch_sx
       (each (\<lambda>p. bnd (gets (\<lambda>s. plugins s p)) (\<lambda>l.
          if l = Some Registered then initialize ps (length (plugin_names ps)) p else ret ())) names)
       (\<lambda>e. if std_exception e then ret () else raise e)"

definition initialize_impl :: "plugin_set \<Rightarrow> string list \<Rightarrow> string list \<Rightarrow> (application, bool) sx" where
  "initialize_impl ps option_names autostart =
     seq (each (\<lambda>p. bnd (get_plugin p) (initialize ps (length (plugin_names ps)))) option_names)
    (seq (initialize_autostart ps autostart) (ret True))"

text \<open>The plugins of the program are looked up by name before the options are read.\<close>

definition initizlize :: "plugin_set \<Rightarrow> string list \<Rightarrow> string list \<Rightarrow> (application, bool) sx" where
  "initizlize ps option_names autostart =
     bnd (gets (\<lambda>s. filter (\<lambda>p. plugins s p \<noteq> None) autostart)) (initialize_impl ps option_names)"

text \<open>The life of a node: registering, initialising, starting, and shutting down when the io service ends.\<close>

definition run_program :: "plugin_set \<Rightarrow> string list \<Rightarrow> string list \<Rightarrow> string list \<Rightarrow> (application, unit) sx" where
  "run_program ps registered_names option_names autostart =
     seq (each (register_one ps) registered_names)
    (bnd (initizlize ps option_names autostart) (\<lambda>ok.
     if ok then seq (start_up ps) (shutdown ps) else ret ()))"

end
