(* ===== verification/Application_Props.thy ===== *)
theory Application_Props
  imports Application
begin

section \<open>The application: properties\<close>

text \<open>
  The hooks of the plugins run in an order that respects what they require, each once, and are shut
  down in the opposite order.
\<close>

definition ordered :: "('a \<Rightarrow> 'a list) \<Rightarrow> 'a list \<Rightarrow> bool" where
  "ordered req xs \<longleftrightarrow> (\<forall>i < length xs. set (req (xs ! i)) \<subseteq> set (take i xs))"

lemma ordered_snoc: "ordered req xs \<Longrightarrow> set (req p) \<subseteq> set xs \<Longrightarrow> ordered req (xs @ [p])"
  by (auto simp: ordered_def nth_append less_Suc_eq)

definition closed_map :: "plugin_set \<Rightarrow> (string \<rightharpoonup> lifecycle) \<Rightarrow> bool" where
  "closed_map ps m \<longleftrightarrow> (\<forall>p \<in> dom m. set (requires ps p) \<subseteq> dom m)"

definition well_founded_set :: "plugin_set \<Rightarrow> (string \<Rightarrow> nat) \<Rightarrow> bool" where
  "well_founded_set ps rank \<longleftrightarrow>
     (\<forall>p \<in> set (plugin_names ps). set (requires ps p) \<subseteq> set (plugin_names ps) \<and> rank p < length (plugin_names ps)) \<and>
     (\<forall>p. \<forall>q \<in> set (requires ps p). rank q < rank p) \<and> (\<forall>h p. throws ps h p = None)"

subsection \<open>Registering\<close>

definition count_if :: "(string \<Rightarrow> bool) \<Rightarrow> plugin_set \<Rightarrow> nat" where
  "count_if P ps = card {p \<in> set (plugin_names ps). P p}"

lemma count_le: "count_if P ps \<le> length (plugin_names ps)"
proof -
  have "count_if P ps \<le> card (set (plugin_names ps))" unfolding count_if_def by (intro card_mono) auto
  then show ?thesis using card_length [of "plugin_names ps"] by simp
qed

lemma count_mono: "(\<And>p. P p \<Longrightarrow> Q p) \<Longrightarrow> count_if P ps \<le> count_if Q ps"
  unfolding count_if_def by (intro card_mono) auto

lemma count_less:
  assumes "\<And>p. P p \<Longrightarrow> Q p" and "x \<in> set (plugin_names ps)" and "Q x" and "\<not> P x"
  shows "count_if P ps < count_if Q ps"
  unfolding count_if_def using assms by (intro psubset_card_mono) auto

definition registers :: "plugin_set \<Rightarrow> application \<Rightarrow> application \<Rightarrow> bool" where
  "registers ps s t \<longleftrightarrow>
     initialized_plugins t = initialized_plugins s \<and> running_plugins t = running_plugins s \<and> hooks_run t = hooks_run s \<and>
     map_le (plugins s) (plugins t) \<and>
     (\<forall>x \<in> dom (plugins t) - dom (plugins s). plugins t x = Some Registered \<and> set (requires ps x) \<subseteq> dom (plugins t))"

lemma registers_refl: "registers ps s s"
  by (simp add: registers_def)

lemma registers_trans: "registers ps s t \<Longrightarrow> registers ps t u \<Longrightarrow> registers ps s u"
proof -
  assume st: "registers ps s t" and tu: "registers ps t u"
  have le: "map_le (plugins s) (plugins t)" "map_le (plugins t) (plugins u)" using st tu by (simp_all add: registers_def)
  have "plugins u x = Some Registered \<and> set (requires ps x) \<subseteq> dom (plugins u)" if "x \<in> dom (plugins u) - dom (plugins s)" for x
  proof (cases "x \<in> dom (plugins t)")
    case True
    then have "plugins t x = Some Registered" "set (requires ps x) \<subseteq> dom (plugins t)"
      using st that by (auto simp: registers_def)
    with le(2) True show ?thesis using map_le_implies_dom_le [OF le(2)] by (auto simp: map_le_def)
  next
    case False
    with that tu show ?thesis by (auto simp: registers_def)
  qed
  then show ?thesis using st tu map_le_trans [OF le] by (simp add: registers_def)
qed

lemma map_le_upd_None: "m p = None \<Longrightarrow> map_le m (m(p \<mapsto> l))"
  unfolding map_le_def by auto

lemma register_known: "plugins s p \<noteq> None \<Longrightarrow> register_plugin ps fuel p s = (Inr (), s)"
  by (subst register_plugin.simps) (simp add: bnd_def gets_def ret_def)

lemma register_run:
  assumes cl: "\<forall>p \<in> set (plugin_names ps). set (requires ps p) \<subseteq> set (plugin_names ps)"
    and p: "p \<in> set (plugin_names ps)" and fuel: "count_if (\<lambda>q. plugins s q = None) ps \<le> fuel"
  shows "\<exists>t. register_plugin ps fuel p s = (Inr (), t) \<and> registers ps s t \<and> p \<in> dom (plugins t)"
  using p fuel
proof (induction fuel arbitrary: p s)
  case (0 p s)
  have "\<not> count_if (\<lambda>_. False) ps < count_if (\<lambda>q. plugins s q = None) ps" using 0 by linarith
  with 0(1) have "plugins s p \<noteq> None" using count_less [of "\<lambda>_. False" "\<lambda>q. plugins s q = None" p ps] by blast
  with register_known [of s p ps 0] registers_refl [of ps s] show ?case by auto
next
  case (Suc k p s)
  show ?case
  proof (cases "plugins s p")
    case (Some l)
    then show ?thesis using register_known [of s p ps "Suc k"] registers_refl [of ps s] by auto
  next
    case None
    let ?s = "s\<lparr>plugins := (plugins s)(p \<mapsto> Registered)\<rparr>"
    have less: "count_if (\<lambda>q. plugins ?s q = None) ps < count_if (\<lambda>q. plugins s q = None) ps"
      using count_less [of "\<lambda>q. plugins ?s q = None" "\<lambda>q. plugins s q = None" p ps] Suc.prems(1) None
      by (simp split: if_splits)
    have run: "\<exists>t. each (register_plugin ps k) qs u = (Inr (), t) \<and> registers ps u t \<and> set qs \<subseteq> dom (plugins t)"
      if "set qs \<subseteq> set (plugin_names ps)" "registers ps ?s u" for qs u
      using that
    proof (induction qs arbitrary: u)
      case (Cons q qs)
      have "plugins ?s x = None" if "plugins u x = None" for x
        using Cons.prems(2) that map_le_implies_dom_le [of "plugins ?s" "plugins u"] unfolding registers_def
        by (meson domIff subsetD)
      then have "count_if (\<lambda>x. plugins u x = None) ps \<le> count_if (\<lambda>x. plugins ?s x = None) ps"
        by (rule count_mono)
      then have "count_if (\<lambda>x. plugins u x = None) ps \<le> k" using less Suc.prems(2) by simp
      with Suc.IH [of q u] Cons.prems(1) obtain t where
        t: "register_plugin ps k q u = (Inr (), t)" "registers ps u t" "q \<in> dom (plugins t)" by auto
      from Cons.IH [of t] Cons.prems registers_trans [OF Cons.prems(2) t(2)] obtain v where
        v: "each (register_plugin ps k) qs t = (Inr (), v)" "registers ps t v" "set qs \<subseteq> dom (plugins v)" by auto
      have "q \<in> dom (plugins v)" using t(3) v(2) by (auto simp: registers_def dest: map_le_implies_dom_le)
      moreover have "each (register_plugin ps k) (q # qs) u = (Inr (), v)" using t(1) v(1) by (simp add: seq_simps(2))
      ultimately show ?case using registers_trans [OF t(2) v(2)] v(3) by auto
    qed (simp add: ret_def registers_refl)
    from run [of "requires ps p" ?s] cl Suc.prems(1) obtain t where
      t: "each (register_plugin ps k) (requires ps p) ?s = (Inr (), t)" "registers ps ?s t"
        "set (requires ps p) \<subseteq> dom (plugins t)" by (auto simp: registers_refl)
    have tp: "plugins t p = Some Registered" using t(2) by (auto simp: registers_def map_le_def dom_def)
    have "register_plugin ps (Suc k) p s = (Inr (), t)"
      using None t(1) by (subst register_plugin.simps) (simp add: bnd_def seq_def gets_def update_def set_lifecycle_def)
    moreover have "registers ps s t" unfolding registers_def
    proof (intro conjI ballI)
      show "map_le (plugins s) (plugins t)"
        using map_le_trans [of "plugins s" "plugins ?s" "plugins t"] t(2) None
        by (simp add: registers_def map_le_upd_None)
      show "plugins t x = Some Registered" if x: "x \<in> dom (plugins t) - dom (plugins s)" for x
        using x t(2) tp by (cases "x = p") (simp_all add: registers_def)
      show "set (requires ps x) \<subseteq> dom (plugins t)" if x: "x \<in> dom (plugins t) - dom (plugins s)" for x
        using x t(2,3) by (cases "x = p") (simp_all add: registers_def)
    qed (use t(2) in \<open>simp_all add: registers_def\<close>)
    ultimately show ?thesis using tp by auto
  qed
qed

lemma register_all:
  assumes cl: "\<forall>p \<in> set (plugin_names ps). set (requires ps p) \<subseteq> set (plugin_names ps)"
    and ns: "set ns \<subseteq> set (plugin_names ps)"
  shows "\<exists>t. each (register_one ps) ns s = (Inr (), t) \<and> registers ps s t \<and> set ns \<subseteq> dom (plugins t)"
  using ns
proof (induction ns arbitrary: s)
  case (Cons n ns)
  from register_run [OF cl, of n s "length (plugin_names ps)"] Cons.prems count_le
  obtain t where t: "register_one ps n s = (Inr (), t)" "registers ps s t" "n \<in> dom (plugins t)"
    by (auto simp: register_one_def)
  from Cons.IH [of t] Cons.prems obtain u where
    u: "each (register_one ps) ns t = (Inr (), u)" "registers ps t u" "set ns \<subseteq> dom (plugins u)" by auto
  have "n \<in> dom (plugins u)" using t(3) u(2) by (auto simp: registers_def dest: map_le_implies_dom_le)
  moreover have "each (register_one ps) (n # ns) s = (Inr (), u)" using t(1) u(1) by (simp add: seq_simps(2))
  ultimately show ?case using registers_trans [OF t(2) u(2)] u(3) by auto
qed (simp add: ret_def registers_refl)

subsection \<open>Initialising\<close>

text \<open>
  The state while the plugins of \<open>P\<close> wait for the plugins they require: the others that are
  initialised are in the list, in an order that respects the requirements.
\<close>

definition init_inv :: "plugin_set \<Rightarrow> string set \<Rightarrow> application \<Rightarrow> bool" where
  "init_inv ps P s \<longleftrightarrow>
     closed_map ps (plugins s) \<and> dom (plugins s) \<subseteq> set (plugin_names ps) \<and>
     (\<forall>p \<in> dom (plugins s). plugins s p = Some Registered \<or> plugins s p = Some Initialized) \<and>
     (\<forall>p. plugins s p = Some Initialized \<longleftrightarrow> p \<in> P \<union> set (initialized_plugins s)) \<and>
     P \<inter> set (initialized_plugins s) = {} \<and>
     distinct (initialized_plugins s) \<and> ordered (requires ps) (initialized_plugins s) \<and>
     hooks_run s = map (Pair Initialize_Hook) (initialized_plugins s) \<and> running_plugins s = []"

lemma lifecycle_known: "plugins s p = Some l \<Longrightarrow> lifecycle_of p s = (Inr l, s)"
  by (simp add: lifecycle_of_def reads_def)

lemma initialize_idle:
  assumes "plugins s p = Some Initialized"
  shows "initialize ps fuel p s = (Inr (), s)"
  using lifecycle_known [OF assms] by (subst initialize.simps) (simp add: bnd_def seq_def ret_def check_def)

lemma initialize_step:
  assumes reg: "plugins s p = Some Registered" and nt: "throws ps Initialize_Hook p = None"
    and rec: "each (\<lambda>q. seq (register_one ps q) (initialize ps k q)) (requires ps p)
                (s\<lparr>plugins := (plugins s)(p \<mapsto> Initialized)\<rparr>) = (Inr (), t)"
    and st: "plugins t p = Some Initialized"
  shows "initialize ps (Suc k) p s =
    (Inr (), t\<lparr>hooks_run := hooks_run t @ [(Initialize_Hook, p)], initialized_plugins := initialized_plugins t @ [p]\<rparr>)"
proof -
  have "lifecycle_of p (t\<lparr>hooks_run := hooks_run t @ [(Initialize_Hook, p)], initialized_plugins := initialized_plugins t @ [p]\<rparr>) =
      (Inr Initialized, t\<lparr>hooks_run := hooks_run t @ [(Initialize_Hook, p)], initialized_plugins := initialized_plugins t @ [p]\<rparr>)"
    using st by (intro lifecycle_known) simp
  with rec show ?thesis
    by (subst initialize.simps)
      (simp add: bnd_def seq_def set_lifecycle_def update_def run_hook_def nt ret_def check_def lifecycle_known [OF reg])
qed

definition init_grows :: "application \<Rightarrow> application \<Rightarrow> bool" where
  "init_grows s t \<longleftrightarrow> dom (plugins t) = dom (plugins s) \<and> set (initialized_plugins s) \<subseteq> set (initialized_plugins t)"

lemma init_grows_trans: "init_grows s t \<Longrightarrow> init_grows t u \<Longrightarrow> init_grows s u"
  by (auto simp: init_grows_def)

lemma init_inv_enter:
  assumes "init_inv ps P s" and "plugins s p = Some Registered"
  shows "init_inv ps (insert p P) (s\<lparr>plugins := (plugins s)(p \<mapsto> Initialized)\<rparr>)"
proof -
  have "plugins s p \<noteq> Some Initialized" using assms(2) by simp
  then have "p \<notin> P \<union> set (initialized_plugins s)" using assms(1) unfolding init_inv_def by blast
  moreover have "dom ((plugins s)(p \<mapsto> Initialized)) = dom (plugins s)" using assms(2) by (simp add: insert_absorb domI)
  ultimately show ?thesis using assms unfolding init_inv_def closed_map_def by auto
qed

lemma init_inv_leave:
  assumes "init_inv ps (insert p P) t" and "p \<notin> P" and "set (requires ps p) \<subseteq> set (initialized_plugins t)"
  shows "init_inv ps P
    (t\<lparr>hooks_run := hooks_run t @ [(Initialize_Hook, p)], initialized_plugins := initialized_plugins t @ [p]\<rparr>)"
  using assms unfolding init_inv_def by (auto simp: ordered_snoc)

lemma register_one_known: "p \<in> dom (plugins s) \<Longrightarrow> register_one ps p s = (Inr (), s)"
  unfolding register_one_def by (rule register_known) auto

lemma initialize_ok:
  assumes wf: "well_founded_set ps rank"
    and "init_inv ps P s" and "p \<in> dom (plugins s)" and "\<forall>x \<in> P. rank p < rank x" and "rank p < fuel"
  shows "\<exists>t. initialize ps fuel p s = (Inr (), t) \<and> init_inv ps P t \<and> init_grows s t \<and> p \<in> set (initialized_plugins t)"
  using assms(2-)
proof (induction fuel arbitrary: p s P)
  case (Suc k p s P)
  have notP: "p \<notin> P" using Suc.prems(3) by blast
  show ?case
  proof (cases "plugins s p = Some Registered")
    case False
    then have i: "plugins s p = Some Initialized" using Suc.prems(1,2) by (auto simp: init_inv_def)
    then have "p \<in> set (initialized_plugins s)" using Suc.prems(1) notP by (auto simp: init_inv_def)
    with initialize_idle [OF i] Suc.prems(1) show ?thesis by (auto simp: init_grows_def)
  next
    case True
    let ?s = "s\<lparr>plugins := (plugins s)(p \<mapsto> Initialized)\<rparr>"
    let ?f = "\<lambda>q. seq (register_one ps q) (initialize ps k q)"
    have run: "\<exists>t. each ?f qs u = (Inr (), t) \<and> init_inv ps (insert p P) t \<and> init_grows u t \<and> set qs \<subseteq> set (initialized_plugins t)"
      if "set qs \<subseteq> set (requires ps p)" "init_inv ps (insert p P) u" "set qs \<subseteq> dom (plugins u)" for qs u
      using that
    proof (induction qs arbitrary: u)
      case (Cons q qs)
      have rq: "rank q < rank p" using Cons.prems(1) wf by (simp add: well_founded_set_def)
      with Suc.prems(3,4) have "\<forall>x \<in> insert p P. rank q < rank x" "rank q < k" by auto
      with Suc.IH [of "insert p P" u q] Cons.prems obtain t where t: "initialize ps k q u = (Inr (), t)"
        "init_inv ps (insert p P) t" "init_grows u t" "q \<in> set (initialized_plugins t)" by auto
      have "?f q u = (Inr (), t)" using t(1) register_one_known [of q u ps] Cons.prems(3) by (simp add: seq_def bnd_def)
      moreover obtain v where v: "each ?f qs t = (Inr (), v)" "init_inv ps (insert p P) v" "init_grows t v"
        "set qs \<subseteq> set (initialized_plugins v)"
        using Cons.IH [of t] Cons.prems t(2,3) by (auto simp: init_grows_def)
      ultimately have "each ?f (q # qs) u = (Inr (), v)" by (simp add: seq_simps(2))
      with v t(4) init_grows_trans [OF t(3) v(3)] show ?case by (auto simp: init_grows_def)
    qed (simp add: ret_def init_grows_def)
    have "set (requires ps p) \<subseteq> dom (plugins ?s)" using Suc.prems(1,2) by (auto simp: init_inv_def closed_map_def)
    with run [of "requires ps p" ?s] init_inv_enter [OF Suc.prems(1) True] obtain t where
      t: "each ?f (requires ps p) ?s = (Inr (), t)" "init_inv ps (insert p P) t" "init_grows ?s t"
        "set (requires ps p) \<subseteq> set (initialized_plugins t)" by blast
    have st: "plugins t p = Some Initialized" using t(2) by (simp add: init_inv_def)
    have nt: "throws ps Initialize_Hook p = None" using wf by (simp add: well_founded_set_def)
    let ?t = "t\<lparr>hooks_run := hooks_run t @ [(Initialize_Hook, p)], initialized_plugins := initialized_plugins t @ [p]\<rparr>"
    have "init_grows s ?t" using t(3) True by (auto simp: init_grows_def)
    with initialize_step [OF True nt t(1) st] init_inv_leave [OF t(2) notP t(4)] show ?thesis by auto
  qed
qed simp

lemma initialize_named:
  assumes wf: "well_founded_set ps rank"
    and "init_inv ps {} s" and "set ns \<subseteq> dom (plugins s)"
  shows "\<exists>t. each (\<lambda>p. bnd (get_plugin p) (initialize ps (length (plugin_names ps)))) ns s = (Inr (), t) \<and>
           init_inv ps {} t \<and> init_grows s t \<and> set ns \<subseteq> set (initialized_plugins t)"
  using assms(2-)
proof (induction ns arbitrary: s)
  case (Cons n ns)
  have "rank n < length (plugin_names ps)" using wf Cons.prems by (auto simp: well_founded_set_def init_inv_def)
  with initialize_ok [OF wf Cons.prems(1), of n] Cons.prems(2) obtain t where
    t: "initialize ps (length (plugin_names ps)) n s = (Inr (), t)" "init_inv ps {} t" "init_grows s t"
      "n \<in> set (initialized_plugins t)" by auto
  have g: "bnd (get_plugin n) (initialize ps (length (plugin_names ps))) s = (Inr (), t)"
    using t(1) Cons.prems(2) by (auto simp: bnd_def get_plugin_def reads_def)
  from Cons.IH [OF t(2)] t(3) Cons.prems(2) obtain u where
    u: "each (\<lambda>p. bnd (get_plugin p) (initialize ps (length (plugin_names ps)))) ns t = (Inr (), u)"
      "init_inv ps {} u" "init_grows t u" "set ns \<subseteq> set (initialized_plugins u)" by (auto simp: init_grows_def)
  from g u(1) have "each (\<lambda>p. bnd (get_plugin p) (initialize ps (length (plugin_names ps)))) (n # ns) s = (Inr (), u)"
    by (simp add: seq_simps(2))
  with u t(4) init_grows_trans [OF t(3) u(3)] show ?case by (auto simp: init_grows_def)
qed (simp add: ret_def init_grows_def)

lemma initialize_programs:
  assumes wf: "well_founded_set ps rank"
    and "init_inv ps {} s" and "set ns \<subseteq> dom (plugins s)"
  shows "\<exists>t. each (\<lambda>p. bnd (gets (\<lambda>s. plugins s p)) (\<lambda>l.
           if l = Some Registered then initialize ps (length (plugin_names ps)) p else ret ())) ns s = (Inr (), t) \<and>
           init_inv ps {} t \<and> init_grows s t \<and> set ns \<subseteq> set (initialized_plugins t)"
  using assms(2-)
proof (induction ns arbitrary: s)
  case (Cons n ns)
  let ?f = "\<lambda>p. bnd (gets (\<lambda>s. plugins s p)) (\<lambda>l.
           if l = Some Registered then initialize ps (length (plugin_names ps)) p else ret ())"
  have r: "rank n < length (plugin_names ps)" using wf Cons.prems by (auto simp: well_founded_set_def init_inv_def)
  obtain t where t: "?f n s = (Inr (), t)" "init_inv ps {} t" "init_grows s t" "n \<in> set (initialized_plugins t)"
  proof (cases "plugins s n = Some Registered")
    case True
    from r initialize_ok [OF wf Cons.prems(1), of n "length (plugin_names ps)"] Cons.prems(2) obtain t where
      "initialize ps (length (plugin_names ps)) n s = (Inr (), t)" "init_inv ps {} t" "init_grows s t"
      "n \<in> set (initialized_plugins t)" by auto
    with True show ?thesis by (intro that [of t]) (simp_all add: bnd_def gets_def)
  next
    case False
    then have "plugins s n = Some Initialized" using Cons.prems by (auto simp: init_inv_def)
    then have "n \<in> set (initialized_plugins s)" using Cons.prems(1) by (auto simp: init_inv_def)
    with False Cons.prems(1) show ?thesis by (intro that [of s]) (simp_all add: bnd_def gets_def ret_def init_grows_def)
  qed
  from Cons.IH [OF t(2)] t(3) Cons.prems(2) obtain u where
    u: "each ?f ns t = (Inr (), u)" "init_inv ps {} u" "init_grows t u" "set ns \<subseteq> set (initialized_plugins u)"
    by (auto simp: init_grows_def)
  from t(1) u(1) have "each ?f (n # ns) s = (Inr (), u)" by (simp add: seq_simps(2))
  with u t(4) init_grows_trans [OF t(3) u(3)] show ?case by (auto simp: init_grows_def)
qed (simp add: ret_def init_grows_def)

subsection \<open>Starting and shutting down\<close>

definition start_inv :: "application \<Rightarrow> string list \<Rightarrow> application \<Rightarrow> bool" where
  "start_inv u xs s \<longleftrightarrow>
     plugins s = (\<lambda>x. if x \<in> set xs then Some Started else plugins u x) \<and> initialized_plugins s = initialized_plugins u \<and>
     running_plugins s = xs \<and> hooks_run s = hooks_run u @ map (Pair Startup_Hook) xs"

lemma startup_idle:
  assumes "plugins s p = Some Started"
  shows "startup ps fuel p s = (Inr (), s)"
  using lifecycle_known [OF assms] by (subst startup.simps) (simp add: bnd_def seq_def ret_def check_def)

lemma startup_required:
  "(\<forall>q \<in> set qs. plugins s q = Some Started) \<Longrightarrow>
   each (\<lambda>q. seq (register_one ps q) (startup ps k q)) qs s = (Inr (), s)"
proof (induction qs)
  case (Cons q qs)
  then have "register_one ps q s = (Inr (), s)" "startup ps k q s = (Inr (), s)"
    by (auto intro: register_one_known startup_idle)
  with Cons show ?case by (simp add: seq_def bnd_def)
qed (simp add: ret_def)

lemma startup_step:
  assumes st: "start_inv u xs s" and p: "p \<notin> set xs" "plugins u p = Some Initialized" "set (requires ps p) \<subseteq> set xs"
    and nt: "throws ps Startup_Hook p = None"
  shows "\<exists>t. startup ps (Suc k) p s = (Inr (), t) \<and> start_inv u (xs @ [p]) t"
proof -
  let ?s = "s\<lparr>plugins := (plugins s)(p \<mapsto> Started)\<rparr>"
  let ?t = "?s\<lparr>hooks_run := hooks_run ?s @ [(Startup_Hook, p)], running_plugins := running_plugins ?s @ [p]\<rparr>"
  have sp: "plugins s p = Some Initialized" using st p by (simp add: start_inv_def)
  have "each (\<lambda>q. seq (register_one ps q) (startup ps k q)) (requires ps p) ?s = (Inr (), ?s)"
    using st p(3) by (intro startup_required) (auto simp: start_inv_def)
  moreover have "lifecycle_of p ?t = (Inr Started, ?t)" by (intro lifecycle_known) simp
  ultimately have "startup ps (Suc k) p s = (Inr (), ?t)"
    by (subst startup.simps)
      (simp add: bnd_def seq_def set_lifecycle_def update_def run_hook_def nt ret_def check_def lifecycle_known [OF sp])
  moreover have "start_inv u (xs @ [p]) ?t" using st by (auto simp: start_inv_def)
  ultimately show ?thesis by blast
qed

lemma startup_all:
  assumes nt: "\<And>p. throws ps Startup_Hook p = None" and req: "ordered (requires ps) (xs @ ys)" and d: "distinct (xs @ ys)"
    and ini: "\<forall>x \<in> set ys. plugins u x = Some Initialized" and st: "start_inv u xs s" and k: "0 < k"
  shows "\<exists>t. each (startup ps k) ys s = (Inr (), t) \<and> start_inv u (xs @ ys) t"
  using req d ini st
proof (induction ys arbitrary: xs s)
  case (Cons y ys)
  have "set (requires ps y) \<subseteq> set xs"
    using spec [OF Cons.prems(1) [unfolded ordered_def], of "length xs"] by simp
  with Cons.prems startup_step [of u xs s y ps "k - 1"] nt k obtain t where
    t: "startup ps k y s = (Inr (), t)" "start_inv u (xs @ [y]) t" by auto
  from Cons.IH [of "xs @ [y]" t] Cons.prems t(2) obtain v where
    "each (startup ps k) ys t = (Inr (), v)" "start_inv u (xs @ y # ys) v" by auto
  with t(1) show ?case by (auto simp: seq_simps(2))
qed (simp add: ret_def)

lemma shutdown_all:
  assumes nt: "\<And>p. throws ps Shutdown_Hook p = None" and "distinct ys" and "\<forall>y \<in> set ys. plugins s y = Some Started"
  shows "\<exists>t. each (shutdown_plugin ps) ys s = (Inr (), t) \<and> hooks_run t = hooks_run s @ map (Pair Shutdown_Hook) ys"
  using assms(2-)
proof (induction ys arbitrary: s)
  case (Cons y ys)
  let ?t = "s\<lparr>plugins := (plugins s)(y \<mapsto> Stopped), hooks_run := hooks_run s @ [(Shutdown_Hook, y)]\<rparr>"
  have "shutdown_plugin ps y s = (Inr (), ?t)"
    using Cons.prems(2) lifecycle_known [of s y Started]
    by (simp add: shutdown_plugin_def bnd_def seq_def set_lifecycle_def update_def run_hook_def nt ret_def)
  moreover have "\<forall>x \<in> set ys. plugins ?t x = Some Started" using Cons.prems by auto
  with Cons.IH [of ?t] Cons.prems(1) obtain u where
    "each (shutdown_plugin ps) ys ?t = (Inr (), u)" "hooks_run u = hooks_run ?t @ map (Pair Shutdown_Hook) ys" by auto
  ultimately show ?case by (auto simp: seq_simps(2))
qed (simp add: ret_def)

lemma init_inv_registered:
  assumes wf: "well_founded_set ps rank" and r: "registers ps new_application s"
    and d: "dom (plugins s) \<subseteq> set (plugin_names ps)"
  shows "init_inv ps {} s"
proof -
  have reg: "plugins s x = Some Registered \<and> set (requires ps x) \<subseteq> dom (plugins s)" if "x \<in> dom (plugins s)" for x
    using r that by (simp add: registers_def new_application_def)
  then have "plugins s x \<noteq> Some Initialized" for x by force
  with reg r d show ?thesis unfolding init_inv_def registers_def closed_map_def
    by (simp add: new_application_def ordered_def)
qed

lemma register_bounded:
  assumes wf: "well_founded_set ps rank"
  shows "p \<in> set (plugin_names ps) \<Longrightarrow> dom (plugins s) \<subseteq> set (plugin_names ps) \<Longrightarrow>
    dom (plugins (snd (register_plugin ps k p s))) \<subseteq> set (plugin_names ps)"
proof (induction k arbitrary: p s)
  case 0
  then show ?case by (subst register_plugin.simps) (simp add: bnd_def gets_def ret_def raise_def)
next
  case (Suc k)
  have e: "dom (plugins (snd (each (register_plugin ps k) qs u))) \<subseteq> set (plugin_names ps)"
    if "set qs \<subseteq> set (plugin_names ps)" "dom (plugins u) \<subseteq> set (plugin_names ps)" for qs u
    using that
  proof (induction qs arbitrary: u)
    case (Cons q qs)
    with Suc.IH [of q u] show ?case
      by (cases "register_plugin ps k q u") (auto simp: seq_def bnd_def split: sum.splits)
  qed (simp add: ret_def)
  have "set (requires ps p) \<subseteq> set (plugin_names ps)" using wf Suc.prems(1) by (simp add: well_founded_set_def)
  then show ?case using e [of "requires ps p" "s\<lparr>plugins := (plugins s)(p \<mapsto> Registered)\<rparr>"] Suc.prems
    by (subst register_plugin.simps) (simp add: bnd_def seq_def gets_def ret_def update_def set_lifecycle_def)
qed

lemma register_all_bounded:
  assumes wf: "well_founded_set ps rank"
  shows "set ns \<subseteq> set (plugin_names ps) \<Longrightarrow> dom (plugins s) \<subseteq> set (plugin_names ps) \<Longrightarrow>
    dom (plugins (snd (each (register_one ps) ns s))) \<subseteq> set (plugin_names ps)"
proof (induction ns arbitrary: s)
  case (Cons n ns)
  with register_bounded [OF wf, of n s "length (plugin_names ps)"] show ?case
    by (cases "register_plugin ps (length (plugin_names ps)) n s") (auto simp: seq_def bnd_def register_one_def split: sum.splits)
qed (simp add: ret_def)

lemma initialize_autostart_ok:
  assumes "well_founded_set ps rank" and "init_inv ps {} s" and "set ns \<subseteq> dom (plugins s)"
  shows "\<exists>t. initialize_autostart ps ns s = (Inr (), t) \<and> init_inv ps {} t \<and> init_grows s t \<and> set ns \<subseteq> set (initialized_plugins t)"
  using initialize_programs [OF assms] unfolding initialize_autostart_def catch_sx_def by auto

lemma initialize_impl_ok:
  assumes wf: "well_founded_set ps rank" and "init_inv ps {} s" and "set os \<union> set ns \<subseteq> dom (plugins s)"
  shows "\<exists>t. initialize_impl ps os ns s = (Inr True, t) \<and> init_inv ps {} t \<and> set os \<union> set ns \<subseteq> set (initialized_plugins t)"
proof -
  from initialize_named [OF wf assms(2), of os] assms(3) obtain t where
    t: "each (\<lambda>p. bnd (get_plugin p) (initialize ps (length (plugin_names ps)))) os s = (Inr (), t)"
      "init_inv ps {} t" "init_grows s t" "set os \<subseteq> set (initialized_plugins t)" by auto
  from initialize_autostart_ok [OF wf t(2), of ns] assms(3) t(3) obtain u where
    u: "initialize_autostart ps ns t = (Inr (), u)" "init_inv ps {} u" "init_grows t u" "set ns \<subseteq> set (initialized_plugins u)"
    by (auto simp: init_grows_def)
  have "initialize_impl ps os ns s = (Inr True, u)"
    using t(1) u(1) by (simp add: initialize_impl_def seq_simps(2) ret_def)
  with u t(4) show ?thesis by (auto simp: init_grows_def)
qed

lemma start_up_ok:
  assumes wf: "well_founded_set ps rank" and inv: "init_inv ps {} s"
  shows "\<exists>t. start_up ps s = (Inr (), t) \<and> start_inv s (initialized_plugins s) t"
proof -
  have ini: "\<forall>x \<in> set (initialized_plugins s). plugins s x = Some Initialized" using inv by (simp add: init_inv_def)
  have "set (initialized_plugins s) \<subseteq> dom (plugins s)" using ini by auto
  then have "set (initialized_plugins s) \<subseteq> set (plugin_names ps)" using inv by (auto simp: init_inv_def)
  then have k: "initialized_plugins s = [] \<or> 0 < length (plugin_names ps)" by (cases "plugin_names ps") auto
  have st: "start_inv s [] s" using inv by (simp add: start_inv_def init_inv_def)
  have "\<exists>t. each (startup ps (length (plugin_names ps))) (initialized_plugins s) s = (Inr (), t) \<and>
      start_inv s ([] @ initialized_plugins s) t"
  proof (cases "initialized_plugins s = []")
    case True
    then show ?thesis using st by (simp add: ret_def)
  next
    case False
    with k show ?thesis using ini inv wf st by (intro startup_all) (auto simp: init_inv_def well_founded_set_def)
  qed
  then show ?thesis by (simp add: start_up_def bnd_def gets_def)
qed

lemma shutdown_ok:
  assumes wf: "well_founded_set ps rank" and inv: "init_inv ps {} u" and st: "start_inv u (initialized_plugins u) s"
  shows "\<exists>t. shutdown ps s = (Inr (), t) \<and> plugins t = (\<lambda>_. None) \<and>
    hooks_run t = map (Pair Initialize_Hook) (initialized_plugins u) @ map (Pair Startup_Hook) (initialized_plugins u) @
                  map (Pair Shutdown_Hook) (rev (initialized_plugins u))"
proof -
  have "distinct (rev (initialized_plugins u))" "\<forall>y \<in> set (rev (initialized_plugins u)). plugins s y = Some Started"
    using inv st by (simp_all add: init_inv_def start_inv_def)
  with shutdown_all [of ps "rev (initialized_plugins u)" s] wf obtain t where
    "each (shutdown_plugin ps) (rev (running_plugins s)) s = (Inr (), t)"
    "hooks_run t = hooks_run s @ map (Pair Shutdown_Hook) (rev (initialized_plugins u))"
    using st by (auto simp: well_founded_set_def start_inv_def)
  with inv st show ?thesis
    by (simp add: shutdown_def bnd_def gets_def seq_def update_def init_inv_def start_inv_def)
qed

text \<open>
  C36: The plugins of a node whose requirements have no cycle and whose hooks throw nothing are
  initialised once each, a plugin after all it requires; they are started in the same order when all
  are initialised, and shut down in the opposite order. They are all that the options and the program
  name, with what those require, and the application is empty at the end.
\<close>
theorem plugin_lifecycle:
  assumes "well_founded_set ps rank" and "set registered_names \<subseteq> set (plugin_names ps)"
    and "set option_names \<subseteq> set registered_names"
  shows "\<exists>xs t. run_program ps registered_names option_names autostart new_application = (Inr (), t) \<and>
    distinct xs \<and> ordered (requires ps) xs \<and> set option_names \<union> (set autostart \<inter> set registered_names) \<subseteq> set xs \<and>
    plugins t = (\<lambda>_. None) \<and>
    hooks_run t = map (Pair Initialize_Hook) xs @ map (Pair Startup_Hook) xs @ map (Pair Shutdown_Hook) (rev xs)"
proof -
  note wf = assms(1)
  from register_all [of ps registered_names new_application] wf assms(2) obtain r where
    r: "each (register_one ps) registered_names new_application = (Inr (), r)" "registers ps new_application r"
      "set registered_names \<subseteq> dom (plugins r)" by (auto simp: well_founded_set_def)
  let ?a = "filter (\<lambda>p. plugins r p \<noteq> None) autostart"
  have "dom (plugins r) \<subseteq> set (plugin_names ps)"
    using register_all_bounded [OF wf assms(2), of new_application] r(1) by (simp add: new_application_def)
  then have inv: "init_inv ps {} r" by (rule init_inv_registered [OF wf r(2)])
  have "set option_names \<union> set ?a \<subseteq> dom (plugins r)" using assms(3) r(3) by auto
  from initialize_impl_ok [OF wf inv this] obtain u where
    u: "initialize_impl ps option_names ?a r = (Inr True, u)" "init_inv ps {} u"
      "set option_names \<union> set ?a \<subseteq> set (initialized_plugins u)" by auto
  from start_up_ok [OF wf u(2)] obtain v where v: "start_up ps u = (Inr (), v)" "start_inv u (initialized_plugins u) v" by auto
  from shutdown_ok [OF wf u(2) v(2)] obtain t where t: "shutdown ps v = (Inr (), t)" "plugins t = (\<lambda>_. None)"
    "hooks_run t = map (Pair Initialize_Hook) (initialized_plugins u) @ map (Pair Startup_Hook) (initialized_plugins u) @
                   map (Pair Shutdown_Hook) (rev (initialized_plugins u))" by auto
  have "run_program ps registered_names option_names autostart new_application = (Inr (), t)"
    using r(1) u(1) v(1) t(1) by (simp add: run_program_def initizlize_def seq_def bnd_def gets_def)
  moreover have "set option_names \<union> (set autostart \<inter> set registered_names) \<subseteq> set (initialized_plugins u)"
    using u(3) r(3) by auto
  ultimately show ?thesis using t u(2) by (auto simp: init_inv_def)
qed

text \<open>Three plugins, the one named first requiring the two others.\<close>

definition demo_plugins :: plugin_set where
  "demo_plugins = \<lparr>plugin_names = [''p2p'', ''chain'', ''json_rpc''],
     requires = (\<lambda>p. if p = ''p2p'' then [''chain'', ''json_rpc''] else if p = ''chain'' then [''json_rpc''] else []),
     throws = (\<lambda>_ _. None)\<rparr>"

definition demo_rank :: "string \<Rightarrow> nat" where
  "demo_rank p = (if p = ''p2p'' then 2 else if p = ''chain'' then 1 else 0)"

theorem plugin_lifecycle_witness:
  "\<exists>xs t. run_program demo_plugins [''p2p''] [''p2p''] [''chain''] new_application = (Inr (), t) \<and>
    distinct xs \<and> ordered (requires demo_plugins) xs \<and> set [''p2p''] \<union> (set [''chain''] \<inter> set [''p2p'']) \<subseteq> set xs \<and>
    plugins t = (\<lambda>_. None) \<and>
    hooks_run t = map (Pair Initialize_Hook) xs @ map (Pair Startup_Hook) xs @ map (Pair Shutdown_Hook) (rev xs)"
proof (rule plugin_lifecycle [where rank = demo_rank])
  show "well_founded_set demo_plugins demo_rank"
    by (simp add: well_founded_set_def demo_plugins_def demo_rank_def)
qed (simp_all add: demo_plugins_def)

text \<open>
  A plugin whose own initialisation throws is left in the state of one that is initialised: a second
  call returns at once and does not run its hook, and as it is not in the list it is never started.
\<close>
lemma failed_initialize_sticks:
  assumes reg: "plugins s p = Some Registered" and none: "requires ps p = []" and thr: "throws ps Initialize_Hook p = Some e"
  shows "\<exists>t. initialize ps (Suc k) p s = (Inl e, t) \<and> initialize ps fuel p t = (Inr (), t) \<and>
    initialized_plugins t = initialized_plugins s"
proof -
  let ?t = "s\<lparr>plugins := (plugins s)(p \<mapsto> Initialized), hooks_run := hooks_run s @ [(Initialize_Hook, p)]\<rparr>"
  have "initialize ps (Suc k) p s = (Inl e, ?t)"
    by (subst initialize.simps)
      (simp add: bnd_def seq_def set_lifecycle_def update_def run_hook_def thr none ret_def raise_def lifecycle_known [OF reg])
  with initialize_idle [of ?t p ps fuel] show ?thesis by simp
qed

end
