(* ===== verification/Variants.thy ===== *)
theory Variants
  imports Base Chain_Objects
begin

section \<open>fc: variants\<close>

text \<open>
  \<open>fc/src/variant.cpp\<close> and \<open>variant_object.cpp\<close>: values of any type, the conversions between them,
  objects as lists of entries, and \<open>fc/src/crypto/base64.cpp\<close> for the text of blobs. A \<open>double\<close>
  is the 64 bits it is stored in; its arithmetic and texts are the record \<open>json_lib\<close>, with the numbers
  read by Boost.
\<close>

subsection \<open>Base 64\<close>

definition base64_chars :: string where
  "base64_chars = ''ABCDEFGHIJKLMNOPQRSTUVWXYZabcdefghijklmnopqrstuvwxyz0123456789+/''"

definition is_alnum :: "char \<Rightarrow> bool" where
  "is_alnum c \<longleftrightarrow> (let n = of_char c :: nat in (48 \<le> n \<and> n \<le> 57) \<or> (65 \<le> n \<and> n \<le> 90) \<or> (97 \<le> n \<and> n \<le> 122))"

definition is_base64 :: "char \<Rightarrow> bool" where
  "is_base64 c \<longleftrightarrow> is_alnum c \<or> c = CHR ''+'' \<or> c = CHR ''/''"

definition base64_char :: "byte \<Rightarrow> char" where
  "base64_char b = base64_chars ! unat b"

definition sextet0 :: "byte \<Rightarrow> byte" where
  "sextet0 a = drop_bit 2 (a AND 0xFC)"

definition sextet1 :: "byte \<Rightarrow> byte \<Rightarrow> byte" where
  "sextet1 a b = push_bit 4 (a AND 0x03) + drop_bit 4 (b AND 0xF0)"

definition sextet2 :: "byte \<Rightarrow> byte \<Rightarrow> byte" where
  "sextet2 b c = push_bit 2 (b AND 0x0F) + drop_bit 6 (c AND 0xC0)"

definition sextet3 :: "byte \<Rightarrow> byte" where
  "sextet3 c = c AND 0x3F"

text \<open>A last group of one or two bytes is filled up with zeros.\<close>

fun base64_encode :: "bytes \<Rightarrow> string" where
  "base64_encode [] = []"
| "base64_encode [a] = map base64_char [sextet0 a, sextet1 a 0] @ ''==''"
| "base64_encode [a, b] = map base64_char [sextet0 a, sextet1 a b, sextet2 b 0] @ ''=''"
| "base64_encode (a # b # c # bs) = map base64_char [sextet0 a, sextet1 a b, sextet2 b c, sextet3 c] @ base64_encode bs"

text \<open>The position of a character in the alphabet, of 64.\<close>

definition base64_index :: "char \<Rightarrow> byte" where
  "base64_index c = word_of_nat (length (takeWhile (\<lambda>d. d \<noteq> c) base64_chars))"

definition base64_byte0 :: "byte \<Rightarrow> byte \<Rightarrow> byte" where
  "base64_byte0 a b = push_bit 2 a + drop_bit 4 (b AND 0x30)"

definition base64_byte1 :: "byte \<Rightarrow> byte \<Rightarrow> byte" where
  "base64_byte1 b c = push_bit 4 (b AND 0xF) + drop_bit 2 (c AND 0x3C)"

definition base64_byte2 :: "byte \<Rightarrow> byte \<Rightarrow> byte" where
  "base64_byte2 c d = push_bit 6 (c AND 0x3) + d"

fun base64_groups :: "byte list \<Rightarrow> bytes" where
  "base64_groups (a # b # c # d # xs) =
     [base64_byte0 a b, base64_byte1 b c, base64_byte2 c d] @ base64_groups xs"
| "base64_groups [a, b, c] = [base64_byte0 a b, base64_byte1 b c]"
| "base64_groups [a, b] = [base64_byte0 a b]"
| "base64_groups [a] = []"
| "base64_groups [] = []"

definition base64_decode :: "string \<Rightarrow> bytes" where
  "base64_decode s = base64_groups (map base64_index (takeWhile (\<lambda>c. c \<noteq> CHR ''='' \<and> is_base64 c) s))"

subsection \<open>Values\<close>

datatype variant =
    Null
  | Int64 i64
  | Uint64 u64
  | Double u64
  | Bool bool
  | Str string
  | Array "variant list"
  | Object "(string \<times> variant) list"
  | Blob bytes

record json_lib = text_lib +
  lex_uint64 :: "string \<Rightarrow> u64 option"
  lex_double :: "string \<Rightarrow> u64 option"
  double_text :: "u64 \<Rightarrow> string"
  double_of_int64 :: "i64 \<Rightarrow> u64"
  double_of_uint64 :: "u64 \<Rightarrow> u64"
  int64_of_double :: "u64 \<Rightarrow> i64"
  uint64_of_double :: "u64 \<Rightarrow> u64"
  double_eq :: "u64 \<Rightarrow> u64 \<Rightarrow> bool"
  double_less :: "u64 \<Rightarrow> u64 \<Rightarrow> bool"
  double_leq :: "u64 \<Rightarrow> u64 \<Rightarrow> bool"
  double_plus :: "u64 \<Rightarrow> u64 \<Rightarrow> u64"
  double_minus :: "u64 \<Rightarrow> u64 \<Rightarrow> u64"
  double_times :: "u64 \<Rightarrow> u64 \<Rightarrow> u64"
  double_divide :: "u64 \<Rightarrow> u64 \<Rightarrow> u64"

text \<open>\<open>fc/src/string.cpp\<close>: numbers as text and back.\<close>

definition to_uint64 :: "'a json_lib_scheme \<Rightarrow> string \<Rightarrow> u64 result" where
  "to_uint64 lib s = (case lex_uint64 lib s of None \<Rightarrow> Inl Parse_Error | Some v \<Rightarrow> Inr v)"

definition to_double :: "'a json_lib_scheme \<Rightarrow> string \<Rightarrow> u64 result" where
  "to_double lib s = (case lex_double lib s of None \<Rightarrow> Inl Parse_Error | Some v \<Rightarrow> Inr v)"

definition int64_text :: "i64 \<Rightarrow> string" where
  "int64_text i = (if sint i < 0 then CHR ''-'' # decimal (nat (- sint i)) else decimal (nat (sint i)))"

definition uint64_text :: "u64 \<Rightarrow> string" where
  "uint64_text u = decimal (unat u)"

definition is_null :: "variant \<Rightarrow> bool" where "is_null v \<longleftrightarrow> v = Null"
definition is_string :: "variant \<Rightarrow> bool" where "is_string v \<longleftrightarrow> (case v of Str _ \<Rightarrow> True | _ \<Rightarrow> False)"
definition is_bool :: "variant \<Rightarrow> bool" where "is_bool v \<longleftrightarrow> (case v of Bool _ \<Rightarrow> True | _ \<Rightarrow> False)"
definition is_double :: "variant \<Rightarrow> bool" where "is_double v \<longleftrightarrow> (case v of Double _ \<Rightarrow> True | _ \<Rightarrow> False)"
definition is_uint64 :: "variant \<Rightarrow> bool" where "is_uint64 v \<longleftrightarrow> (case v of Uint64 _ \<Rightarrow> True | _ \<Rightarrow> False)"
definition is_int64 :: "variant \<Rightarrow> bool" where "is_int64 v \<longleftrightarrow> (case v of Int64 _ \<Rightarrow> True | _ \<Rightarrow> False)"
definition is_object :: "variant \<Rightarrow> bool" where "is_object v \<longleftrightarrow> (case v of Object _ \<Rightarrow> True | _ \<Rightarrow> False)"
definition is_array :: "variant \<Rightarrow> bool" where "is_array v \<longleftrightarrow> (case v of Array _ \<Rightarrow> True | _ \<Rightarrow> False)"
definition is_blob :: "variant \<Rightarrow> bool" where "is_blob v \<longleftrightarrow> (case v of Blob _ \<Rightarrow> True | _ \<Rightarrow> False)"

definition is_integer :: "variant \<Rightarrow> bool" where
  "is_integer v \<longleftrightarrow> is_int64 v \<or> is_uint64 v \<or> is_bool v"

definition is_numeric :: "variant \<Rightarrow> bool" where
  "is_numeric v \<longleftrightarrow> is_int64 v \<or> is_uint64 v \<or> is_double v \<or> is_bool v"

subsection \<open>Conversions\<close>

definition word_of_bool :: "bool \<Rightarrow> u64" where
  "word_of_bool b = (if b then 1 else 0)"

definition as_int64 :: "json_lib \<Rightarrow> variant \<Rightarrow> i64 result" where
  "as_int64 lib v =
     (case v of
        Str s \<Rightarrow> (case lex_int64 lib s of None \<Rightarrow> Inl Parse_Error | Some i \<Rightarrow> Inr i)
      | Double d \<Rightarrow> Inr (int64_of_double lib d)
      | Int64 i \<Rightarrow> Inr i
      | Uint64 u \<Rightarrow> Inr u
      | Bool b \<Rightarrow> Inr (word_of_bool b)
      | Null \<Rightarrow> Inr 0
      | _ \<Rightarrow> Inl Bad_Cast)"

definition as_uint64 :: "json_lib \<Rightarrow> variant \<Rightarrow> u64 result" where
  "as_uint64 lib v =
     (case v of
        Str s \<Rightarrow> to_uint64 lib s
      | Double d \<Rightarrow> Inr (uint64_of_double lib d)
      | Int64 i \<Rightarrow> Inr i
      | Uint64 u \<Rightarrow> Inr u
      | Bool b \<Rightarrow> Inr (word_of_bool b)
      | Null \<Rightarrow> Inr 0
      | _ \<Rightarrow> Inl Bad_Cast)"

definition as_double :: "json_lib \<Rightarrow> variant \<Rightarrow> u64 result" where
  "as_double lib v =
     (case v of
        Str s \<Rightarrow> to_double lib s
      | Double d \<Rightarrow> Inr d
      | Int64 i \<Rightarrow> Inr (double_of_int64 lib i)
      | Uint64 u \<Rightarrow> Inr (double_of_uint64 lib u)
      | Bool b \<Rightarrow> Inr (double_of_int64 lib (word_of_bool b))
      | Null \<Rightarrow> Inr (double_of_int64 lib 0)
      | _ \<Rightarrow> Inl Bad_Cast)"

definition as_bool :: "json_lib \<Rightarrow> variant \<Rightarrow> bool result" where
  "as_bool lib v =
     (case v of
        Str s \<Rightarrow> if s = ''true'' then Inr True else if s = ''false'' then Inr False else Inl Bad_Cast
      | Double d \<Rightarrow> Inr (\<not> double_eq lib d (double_of_int64 lib 0))
      | Int64 i \<Rightarrow> Inr (i \<noteq> 0)
      | Uint64 u \<Rightarrow> Inr (u \<noteq> 0)
      | Bool b \<Rightarrow> Inr b
      | Null \<Rightarrow> Inr False
      | _ \<Rightarrow> Inl Bad_Cast)"

definition blob_text :: "bytes \<Rightarrow> string" where
  "blob_text b = (if b \<noteq> [] then base64_encode b @ ''='' else [])"

definition as_string :: "json_lib \<Rightarrow> variant \<Rightarrow> string result" where
  "as_string lib v =
     (case v of
        Str s \<Rightarrow> Inr s
      | Double d \<Rightarrow> Inr (double_text lib d)
      | Int64 i \<Rightarrow> Inr (int64_text i)
      | Uint64 u \<Rightarrow> Inr (uint64_text u)
      | Bool b \<Rightarrow> Inr (if b then ''true'' else ''false'')
      | Blob b \<Rightarrow> Inr (blob_text b)
      | Null \<Rightarrow> Inr []
      | _ \<Rightarrow> Inl Bad_Cast)"

definition get_array :: "variant \<Rightarrow> variant list result" where
  "get_array v = (case v of Array vs \<Rightarrow> Inr vs | _ \<Rightarrow> Inl Bad_Cast)"

definition get_object_entries :: "variant \<Rightarrow> (string \<times> variant) list result" where
  "get_object_entries v = (case v of Object es \<Rightarrow> Inr es | _ \<Rightarrow> Inl Bad_Cast)"

definition get_string :: "variant \<Rightarrow> string result" where
  "get_string v = (case v of Str s \<Rightarrow> Inr s | _ \<Rightarrow> Inl Bad_Cast)"

definition get_blob :: "variant \<Rightarrow> bytes result" where
  "get_blob v = (case v of Blob b \<Rightarrow> Inr b | _ \<Rightarrow> Inl Bad_Cast)"

text \<open>Of a value stored in the variant itself, the eight bytes of its data are the blob.\<close>

definition data_bytes :: "u64 \<Rightarrow> bytes" where
  "data_bytes w = map (\<lambda>i. ucast (drop_bit (8 * i) w)) [0..<8]"

definition as_blob :: "variant \<Rightarrow> bytes result" where
  "as_blob v =
     (case v of
        Null \<Rightarrow> Inr []
      | Blob b \<Rightarrow> Inr b
      | Str s \<Rightarrow>
          if s = [] then Inr []
          else if last s = CHR ''='' then Inr (base64_decode s)
          else Inr (map (\<lambda>c. word_of_nat (of_char c)) s)
      | Object _ \<Rightarrow> Inl Bad_Cast
      | Array _ \<Rightarrow> Inl Bad_Cast
      | Int64 i \<Rightarrow> Inr (data_bytes i)
      | Uint64 u \<Rightarrow> Inr (data_bytes u)
      | Double d \<Rightarrow> Inr (data_bytes d)
      | Bool b \<Rightarrow> Inl Undefined)"

definition variant_at :: "nat \<Rightarrow> variant \<Rightarrow> variant result" where
  "variant_at i v = rbind (get_array v) (\<lambda>vs. if i < length vs then Inr (vs ! i) else Inl Undefined)"

definition variant_size :: "variant \<Rightarrow> nat result" where
  "variant_size v = rbind (get_array v) (\<lambda>vs. Inr (length vs))"

text \<open>Narrower integers are cut without a check.\<close>

definition from_variant_u32 :: "json_lib \<Rightarrow> variant \<Rightarrow> u32 result" where
  "from_variant_u32 lib v = rbind (as_uint64 lib v) (\<lambda>u. Inr (ucast u))"

definition from_variant_u16 :: "json_lib \<Rightarrow> variant \<Rightarrow> u16 result" where
  "from_variant_u16 lib v = rbind (as_uint64 lib v) (\<lambda>u. Inr (ucast u))"

definition from_variant_i32 :: "json_lib \<Rightarrow> variant \<Rightarrow> u32 result" where
  "from_variant_i32 lib v = rbind (as_int64 lib v) (\<lambda>u. Inr (ucast u))"

subsection \<open>Objects\<close>

text \<open>
  Keys are compared with the part of the key asked for that comes before its first null
  character: they are handed on as C strings.
\<close>

type_synonym entries = "(string \<times> variant) list"

definition c_str :: "string \<Rightarrow> string" where
  "c_str s = takeWhile (\<lambda>c. c \<noteq> CHR 0x00) s"

definition object_find :: "string \<Rightarrow> entries \<Rightarrow> variant option" where
  "object_find key es = map_of es (c_str key)"

definition object_contains :: "string \<Rightarrow> entries \<Rightarrow> bool" where
  "object_contains key es \<longleftrightarrow> object_find key es \<noteq> None"

definition object_at :: "string \<Rightarrow> entries \<Rightarrow> variant result" where
  "object_at key es = (case object_find key es of Some v \<Rightarrow> Inr v | None \<Rightarrow> Inl Key_Not_Found)"

fun set_first :: "string \<Rightarrow> variant \<Rightarrow> entries \<Rightarrow> entries" where
  "set_first k v [] = []"
| "set_first k v ((l, w) # es) = (if l = k then (l, v) # es else (l, w) # set_first k v es)"

definition object_set :: "string \<Rightarrow> variant \<Rightarrow> entries \<Rightarrow> entries" where
  "object_set key v es =
     (if object_find key es \<noteq> None then set_first (c_str key) v es else es @ [(key, v)])"

definition object_append :: "string \<Rightarrow> variant \<Rightarrow> entries \<Rightarrow> entries" where
  "object_append key v es = es @ [(key, v)]"

definition object_merge :: "entries \<Rightarrow> entries \<Rightarrow> entries" where
  "object_merge other es = fold (\<lambda>(k, v). object_set k v) other es"

fun object_erase :: "string \<Rightarrow> entries \<Rightarrow> entries" where
  "object_erase key [] = []"
| "object_erase key ((k, v) # es) = (if k = key then es else (k, v) # object_erase key es)"

text \<open>The access that may write appends an empty value under the C string of the key.\<close>

definition object_index :: "string \<Rightarrow> entries \<Rightarrow> variant \<times> entries" where
  "object_index key es =
     (case object_find key es of Some v \<Rightarrow> (v, es) | None \<Rightarrow> (Null, es @ [(c_str key, Null)]))"

subsection \<open>Operators\<close>

text \<open>Every operator converts both sides to the first of these types that one of them has.\<close>

definition promote ::
    "json_lib \<Rightarrow> (u64 \<Rightarrow> u64 \<Rightarrow> 'r result) \<Rightarrow> (i64 \<Rightarrow> i64 \<Rightarrow> 'r result) \<Rightarrow> (u64 \<Rightarrow> u64 \<Rightarrow> 'r result) \<Rightarrow> 'r result
     \<Rightarrow> variant \<Rightarrow> variant \<Rightarrow> 'r result" where
  "promote lib on_double on_int64 on_uint64 otherwise a b =
     (if is_double a \<or> is_double b then rbind (as_double lib a) (\<lambda>x. rbind (as_double lib b) (on_double x))
      else if is_int64 a \<or> is_int64 b then rbind (as_int64 lib a) (\<lambda>x. rbind (as_int64 lib b) (on_int64 x))
      else if is_uint64 a \<or> is_uint64 b then rbind (as_uint64 lib a) (\<lambda>x. rbind (as_uint64 lib b) (on_uint64 x))
      else otherwise)"

definition promote_string ::
    "json_lib \<Rightarrow> (string \<Rightarrow> string \<Rightarrow> 'r result) \<Rightarrow> (variant \<Rightarrow> variant \<Rightarrow> 'r result) \<Rightarrow> variant \<Rightarrow> variant \<Rightarrow> 'r result" where
  "promote_string lib on_string f a b =
     (if is_string a \<or> is_string b then rbind (as_string lib a) (\<lambda>x. rbind (as_string lib b) (on_string x)) else f a b)"

fun string_less :: "string \<Rightarrow> string \<Rightarrow> bool" where
  "string_less _ [] = False"
| "string_less [] (_ # _) = True"
| "string_less (c # s) (d # t) = ((of_char c :: nat) < of_char d \<or> (c = d \<and> string_less s t))"

definition variant_eq :: "json_lib \<Rightarrow> variant \<Rightarrow> variant \<Rightarrow> bool result" where
  "variant_eq lib = promote_string lib (\<lambda>x y. Inr (x = y))
     (promote lib (\<lambda>x y. Inr (double_eq lib x y)) (\<lambda>x y. Inr (x = y)) (\<lambda>x y. Inr (x = y)) (Inr False))"

definition variant_neq :: "json_lib \<Rightarrow> variant \<Rightarrow> variant \<Rightarrow> bool result" where
  "variant_neq lib = promote_string lib (\<lambda>x y. Inr (x \<noteq> y))
     (promote lib (\<lambda>x y. Inr (\<not> double_eq lib x y)) (\<lambda>x y. Inr (x \<noteq> y)) (\<lambda>x y. Inr (x \<noteq> y)) (Inr False))"

definition variant_not :: "json_lib \<Rightarrow> variant \<Rightarrow> bool result" where
  "variant_not lib a = rbind (as_bool lib a) (\<lambda>b. Inr (\<not> b))"

definition variant_less :: "json_lib \<Rightarrow> variant \<Rightarrow> variant \<Rightarrow> bool result" where
  "variant_less lib = promote_string lib (\<lambda>x y. Inr (string_less x y))
     (promote lib (\<lambda>x y. Inr (double_less lib x y)) (\<lambda>x y. Inr (sint x < sint y)) (\<lambda>x y. Inr (x < y)) (Inl Fc_Assert))"

definition variant_greater :: "json_lib \<Rightarrow> variant \<Rightarrow> variant \<Rightarrow> bool result" where
  "variant_greater lib = promote_string lib (\<lambda>x y. Inr (string_less y x))
     (promote lib (\<lambda>x y. Inr (double_less lib y x)) (\<lambda>x y. Inr (sint y < sint x)) (\<lambda>x y. Inr (y < x)) (Inl Fc_Assert))"

definition variant_leq :: "json_lib \<Rightarrow> variant \<Rightarrow> variant \<Rightarrow> bool result" where
  "variant_leq lib = promote_string lib (\<lambda>x y. Inr (\<not> string_less y x))
     (promote lib (\<lambda>x y. Inr (double_leq lib x y)) (\<lambda>x y. Inr (sint x \<le> sint y)) (\<lambda>x y. Inr (x \<le> y)) (Inl Fc_Assert))"

text \<open>
  Arrays: \<open>result\<close> has room reserved but no elements, so that the assignment to \<open>result[i]\<close> is undefined
  as soon as there is an element.
\<close>

definition arrays_elementwise :: "(variant \<Rightarrow> variant \<Rightarrow> variant result) \<Rightarrow> variant \<Rightarrow> variant \<Rightarrow> variant result" where
  "arrays_elementwise otherwise a b =
     (case (a, b) of
        (Array xs, Array ys) \<Rightarrow> if max (length xs) (length ys) = 0 then Inr (Array []) else Inl Undefined
      | _ \<Rightarrow> otherwise a b)"

definition variant_plus :: "json_lib \<Rightarrow> variant \<Rightarrow> variant \<Rightarrow> variant result" where
  "variant_plus lib = arrays_elementwise (promote_string lib (\<lambda>x y. Inr (Str (x @ y)))
     (promote lib (\<lambda>x y. Inr (Double (double_plus lib x y))) (\<lambda>x y. Inr (Int64 (x + y))) (\<lambda>x y. Inr (Uint64 (x + y))) (Inl Fc_Assert)))"

text \<open>There is no difference of strings: the operator converts them to variants and calls itself.\<close>

definition variant_minus :: "json_lib \<Rightarrow> variant \<Rightarrow> variant \<Rightarrow> variant result" where
  "variant_minus lib = arrays_elementwise (promote_string lib (\<lambda>x y. Inl Diverged)
     (promote lib (\<lambda>x y. Inr (Double (double_minus lib x y))) (\<lambda>x y. Inr (Int64 (x - y))) (\<lambda>x y. Inr (Uint64 (x - y))) (Inl Fc_Assert)))"

definition variant_times :: "json_lib \<Rightarrow> variant \<Rightarrow> variant \<Rightarrow> variant result" where
  "variant_times lib a b =
     promote lib (\<lambda>x y. Inr (Double (double_times lib x y))) (\<lambda>x y. Inr (Int64 (x * y))) (\<lambda>x y. Inr (Uint64 (x * y)))
       (arrays_elementwise (\<lambda>_ _. Inl Fc_Assert) a b) a b"

definition int64_divide :: "i64 \<Rightarrow> i64 \<Rightarrow> i64 result" where
  "int64_divide x y =
     (if y = 0 \<or> (sint x = - (2 ^ 63) \<and> sint y = - 1) then Inl Undefined
      else Inr (word_of_int (sgn (sint x) * sgn (sint y) * (\<bar>sint x\<bar> div \<bar>sint y\<bar>))))"

definition variant_divide :: "json_lib \<Rightarrow> variant \<Rightarrow> variant \<Rightarrow> variant result" where
  "variant_divide lib a b =
     promote lib (\<lambda>x y. Inr (Double (double_divide lib x y)))
       (\<lambda>x y. rbind (int64_divide x y) (\<lambda>z. Inr (Int64 z)))
       (\<lambda>x y. if y = 0 then Inl Undefined else Inr (Uint64 (x div y)))
       (arrays_elementwise (\<lambda>_ _. Inl Fc_Assert) a b) a b"

end
