(* ===== verification/Json.thy ===== *)
theory Json
  imports Variants
begin

section \<open>fc: JSON text\<close>

text \<open>
  \<open>fc/src/io/json.cpp\<close>: the parser on a string stream, which is the text that is left, and the
  printer. \<open>fc::stringstream\<close> throws at the end of the text, from \<open>peek\<close> and from \<open>get\<close>.
\<close>

subsection \<open>The stream\<close>

definition in_peek :: "(string, char) sx" where
  "in_peek s = (case s of [] \<Rightarrow> (Inl Eof, s) | c # _ \<Rightarrow> (Inr c, s))"

definition in_get :: "(string, char) sx" where
  "in_get s = (case s of [] \<Rightarrow> (Inl Eof, s) | c # t \<Rightarrow> (Inr c, t))"

abbreviation "quote_char \<equiv> CHR 0x22"
abbreviation "backslash \<equiv> CHR 0x5C"
abbreviation "tab_char \<equiv> CHR 0x09"
abbreviation "newline_char \<equiv> CHR 0x0A"
abbreviation "return_char \<equiv> CHR 0x0D"
abbreviation "null_char \<equiv> CHR 0x00"
abbreviation "end_char \<equiv> CHR 0x04"

subsection \<open>Reading\<close>

definition unescape :: "char \<Rightarrow> char" where
  "unescape c =
     (if c = CHR ''t'' then tab_char else if c = CHR ''n'' then newline_char
      else if c = CHR ''r'' then return_char else c)"

definition parse_escape :: "(string, char) sx" where
  "parse_escape =
     bnd in_peek (\<lambda>c.
     if c = backslash then seq in_get (bnd in_peek (\<lambda>d. seq in_get (ret (unescape d))))
     else raise Parse_Error)"

definition white_space :: "char \<Rightarrow> bool" where
  "white_space c \<longleftrightarrow> c \<in> {CHR '' '', tab_char, newline_char, return_char}"

fun skip_white_space_from :: "bool \<Rightarrow> (string, bool) sx" where
  "skip_white_space_from skipped [] = (Inl Eof, [])"
| "skip_white_space_from skipped (c # s) =
     (if white_space c then skip_white_space_from True s else (Inr skipped, c # s))"

definition skip_white_space :: "(string, bool) sx" where
  "skip_white_space = skip_white_space_from False"

lemma parse_escape_less: "parse_escape s = (Inr c, t) \<Longrightarrow> length t < length s"
  by (auto simp: parse_escape_def bnd_def seq_def in_peek_def in_get_def ret_def raise_def split: list.splits if_splits)

function string_loop :: "string \<Rightarrow> (string, string) sx" where
  "string_loop token s =
     (case s of
        [] \<Rightarrow> (Inl Eof, s)
      | c # t \<Rightarrow>
          if c = backslash
          then (case parse_escape s of (Inl e, u) \<Rightarrow> (Inl e, u) | (Inr d, u) \<Rightarrow> string_loop (token @ [d]) u)
          else if c = end_char then (Inl Parse_Error, s)
          else if c = quote_char then (Inr token, t)
          else string_loop (token @ [c]) t)"
  by pat_completeness auto
termination
  by (relation "measure (\<lambda>(token, s). length s)") (auto dest!: parse_escape_less [OF sym])

declare string_loop.simps [simp del]

definition string_from_stream :: "(string, string) sx" where
  "string_from_stream =
     bnd in_peek (\<lambda>c. if c \<noteq> quote_char then raise Parse_Error else seq in_get (string_loop []))"

function token_loop :: "string \<Rightarrow> (string, string) sx" where
  "token_loop token s =
     (case s of
        [] \<Rightarrow> (Inr token, s)
      | c # t \<Rightarrow>
          if c = backslash
          then (case parse_escape s of
                  (Inl e, u) \<Rightarrow> (if e = Eof then Inr token else Inl e, u)
                | (Inr d, u) \<Rightarrow> token_loop (token @ [d]) u)
          else if c \<in> {tab_char, CHR '' '', null_char, newline_char} then (Inr token, t)
          else if is_alnum c \<or> c \<in> {CHR ''_'', CHR ''-'', CHR ''.'', CHR '':'', CHR ''/''} then token_loop (token @ [c]) t
          else (Inr token, s))"
  by pat_completeness auto
termination
  by (relation "measure (\<lambda>(token, s). length s)") (auto dest!: parse_escape_less [OF sym])

declare token_loop.simps [simp del]

definition string_from_token :: "(string, string) sx" where
  "string_from_token = token_loop []"

text \<open>Numbers: the digits with what they hold, or a word that starts with digits.\<close>

definition is_number_char :: "char \<Rightarrow> bool" where
  "is_number_char c \<longleftrightarrow> (let n = of_char c :: nat in 48 \<le> n \<and> n \<le> 57)"

datatype number_token = Digits string bool | Word string

fun number_loop :: "string \<Rightarrow> bool \<Rightarrow> (string, number_token) sx" where
  "number_loop ss dot [] = (Inr (Digits ss dot), [])"
| "number_loop ss dot (c # s) =
     (if c = null_char then (Inr (Digits ss dot), c # s)
      else if c = CHR ''.'' then (if dot then (Inl Parse_Error, c # s) else number_loop (ss @ [c]) True s)
      else if is_number_char c then number_loop (ss @ [c]) dot s
      else if is_alnum c then (case string_from_token (c # s) of (Inl e, t) \<Rightarrow> (Inl e, t) | (Inr w, t) \<Rightarrow> (Inr (Word (ss @ w)), t))
      else (Inr (Digits ss dot), c # s))"

definition number_value :: "json_lib \<Rightarrow> bool \<Rightarrow> bool \<Rightarrow> number_token \<Rightarrow> variant result" where
  "number_value lib string_doubles neg n =
     (case n of
        Word w \<Rightarrow> Inr (Str w)
      | Digits str dot \<Rightarrow>
          if str = ''-.'' \<or> str = ''.'' then Inl Parse_Error
          else if dot then (if string_doubles then Inr (Str str) else rbind (to_double lib str) (\<lambda>d. Inr (Double d)))
          else if neg then (case lex_int64 lib str of None \<Rightarrow> Inl Parse_Error | Some i \<Rightarrow> Inr (Int64 i))
          else rbind (to_uint64 lib str) (\<lambda>u. Inr (Uint64 u)))"

definition number_from_stream :: "json_lib \<Rightarrow> bool \<Rightarrow> (string, variant) sx" where
  "number_from_stream lib string_doubles =
     bnd in_peek (\<lambda>c.
     if c = CHR ''-''
     then seq in_get (bnd (number_loop [c] False) (\<lambda>n. lift_r (number_value lib string_doubles True n)))
     else bnd (number_loop [] False) (\<lambda>n. lift_r (number_value lib string_doubles False n)))"

text \<open>Words: the letters of \<open>null\<close>, \<open>true\<close> and \<open>false\<close>, and whether the text ended.\<close>

fun word_loop :: "string \<Rightarrow> (string, string \<times> bool) sx" where
  "word_loop ss [] = (Inr (ss, True), [])"
| "word_loop ss (c # s) =
     (if c \<in> set ''nultrefas'' then word_loop (ss @ [c]) s else (Inr (ss, False), c # s))"

definition token_from_stream :: "(string, variant) sx" where
  "token_from_stream =
     bnd (word_loop []) (\<lambda>(str, received_eof).
     if str = ''null'' then ret Null
     else if str = ''true'' then ret (Bool True)
     else if str = ''false'' then ret (Bool False)
     else if received_eof then (if str = [] then raise Parse_Error else ret (Str str))
     else bnd string_from_token (\<lambda>w. ret (Str (str @ w))))"

definition eof_is_parse_error :: "(string, 'a) sx \<Rightarrow> (string, 'a) sx" where
  "eof_is_parse_error m = catch_sx m (\<lambda>e. raise (if e = Eof then Parse_Error else e))"

text \<open>
  The recursive descent, one round for each value and for each turn of a loop. The white space
  that the loop of \<open>variant_from_stream\<close> takes is what \<open>skip_white_space\<close> takes.
\<close>

fun variant_from_stream :: "json_lib \<Rightarrow> bool \<Rightarrow> nat \<Rightarrow> (string, variant) sx"
  and object_loop :: "json_lib \<Rightarrow> bool \<Rightarrow> nat \<Rightarrow> entries \<Rightarrow> (string, entries) sx"
  and array_loop :: "json_lib \<Rightarrow> bool \<Rightarrow> nat \<Rightarrow> variant list \<Rightarrow> (string, variant list) sx" where
  "variant_from_stream lib sd 0 = raise Diverged"
| "variant_from_stream lib sd (Suc k) =
     seq skip_white_space (seq skip_white_space (bnd in_peek (\<lambda>c.
     if c = quote_char then bnd string_from_stream (\<lambda>s. ret (Str s))
     else if c = CHR ''{''
     then bnd (eof_is_parse_error (seq in_get (seq skip_white_space (object_loop lib sd k [])))) (\<lambda>es. ret (Object es))
     else if c = CHR ''['' then bnd (seq in_get (seq skip_white_space (array_loop lib sd k []))) (\<lambda>vs. ret (Array vs))
     else if c = CHR ''-'' \<or> c = CHR ''.'' \<or> is_number_char c then number_from_stream lib sd
     else if c \<in> set ''ntf'' then token_from_stream
     else if c \<in> {end_char, CHR 0xFF, null_char} then raise Eof
     else seq string_from_token (raise Parse_Error))))"
| "object_loop lib sd 0 obj = raise Diverged"
| "object_loop lib sd (Suc k) obj =
     bnd in_peek (\<lambda>c.
     if c = CHR ''}'' then seq in_get (ret obj)
     else if c = CHR '','' then seq in_get (object_loop lib sd k obj)
     else bnd skip_white_space (\<lambda>skipped.
       if skipped then object_loop lib sd k obj
       else bnd string_from_stream (\<lambda>key.
         seq skip_white_space (bnd in_peek (\<lambda>d.
         if d \<noteq> CHR '':'' then raise Parse_Error
         else seq in_get (bnd (variant_from_stream lib sd k) (\<lambda>v.
              seq skip_white_space (object_loop lib sd k (object_append key v obj)))))))))"
| "array_loop lib sd 0 ar = raise Diverged"
| "array_loop lib sd (Suc k) ar =
     bnd in_peek (\<lambda>c.
     if c = CHR '']'' then seq in_get (ret ar)
     else if c = CHR '','' then seq in_get (array_loop lib sd k ar)
     else bnd skip_white_space (\<lambda>skipped.
       if skipped then array_loop lib sd k ar
       else bnd (variant_from_stream lib sd k) (\<lambda>v. seq skip_white_space (array_loop lib sd k (ar @ [v])))))"

declare variant_from_stream.simps [simp del] object_loop.simps [simp del] array_loop.simps [simp del]

definition stream_rounds :: "string \<Rightarrow> nat" where
  "stream_rounds s = 2 * length s + 1"

text \<open>
  The check before the descent counts brackets of each kind, wherever they stand.
\<close>

fun string_depth_from :: "int \<Rightarrow> int \<Rightarrow> string \<Rightarrow> unit result" where
  "string_depth_from open_object open_array [] = Inr ()"
| "string_depth_from open_object open_array (c # s) =
     (let o' = (if c = CHR ''{'' then open_object + 1 else if c = CHR ''}'' then open_object - 1 else open_object);
          a = (if c = CHR ''['' then open_array + 1 else if c = CHR '']'' then open_array - 1 else open_array)
      in if o' < 100 \<and> a < 100 then string_depth_from o' a s else Inl Fc_Assert)"

definition check_string_depth :: "string \<Rightarrow> unit result" where
  "check_string_depth = string_depth_from 0 0"

definition json_from_string :: "json_lib \<Rightarrow> bool \<Rightarrow> string \<Rightarrow> variant result" where
  "json_from_string lib string_doubles s =
     rbind (check_string_depth s) (\<lambda>_. fst (variant_from_stream lib string_doubles (stream_rounds s) s))"

definition json_is_valid :: "json_lib \<Rightarrow> bool \<Rightarrow> string \<Rightarrow> bool result" where
  "json_is_valid lib string_doubles s =
     (if s = [] then Inr False
      else (case variant_from_stream lib string_doubles (stream_rounds s) s of
              (Inl e, _) \<Rightarrow> Inl e | (Inr _, rest) \<Rightarrow> Inr (rest = [])))"

subsection \<open>Printing\<close>

definition hex_char :: "nat \<Rightarrow> char" where
  "hex_char n = (if n < 10 then char_of (48 + n) else char_of (87 + n))"

definition escape_char :: "char \<Rightarrow> string" where
  "escape_char c =
     (let n = of_char c :: nat in
      if n = 8 then [backslash, CHR ''b''] else if n = 12 then [backslash, CHR ''f'']
      else if n = 10 then [backslash, CHR ''n''] else if n = 13 then [backslash, CHR ''r'']
      else if n = 9 then [backslash, CHR ''t''] else if c = backslash then [backslash, backslash]
      else if c = quote_char then [backslash, quote_char]
      else if n < 32 then [backslash, CHR ''u'', CHR ''0'', CHR ''0'', hex_char (n div 16), hex_char (n mod 16)]
      else [c])"

definition escape_string :: "string \<Rightarrow> string" where
  "escape_string s = quote_char # concat (map escape_char s) @ [quote_char]"

definition large_text :: "bool \<Rightarrow> bool \<Rightarrow> string \<Rightarrow> string" where
  "large_text stringify large t = (if stringify \<and> large then quote_char # t @ [quote_char] else t)"

fun join_with :: "string \<Rightarrow> string list \<Rightarrow> string" where
  "join_with sep [] = []"
| "join_with sep [x] = x"
| "join_with sep (x # y # xs) = x @ sep @ join_with sep (y # xs)"

fun to_stream :: "json_lib \<Rightarrow> bool \<Rightarrow> variant \<Rightarrow> string" where
  "to_stream lib stringify Null = ''null''"
| "to_stream lib stringify (Int64 i) = large_text stringify (0xFFFFFFFF < sint i) (int64_text i)"
| "to_stream lib stringify (Uint64 u) = large_text stringify (0xFFFFFFFF < u) (uint64_text u)"
| "to_stream lib stringify (Double d) = large_text stringify True (double_text lib d)"
| "to_stream lib stringify (Bool b) = (if b then ''true'' else ''false'')"
| "to_stream lib stringify (Str s) = escape_string s"
| "to_stream lib stringify (Blob b) = escape_string (blob_text b)"
| "to_stream lib stringify (Array vs) = ''['' @ join_with '','' (map (to_stream lib stringify) vs) @ '']''"
| "to_stream lib stringify (Object es) =
     ''{'' @ join_with '','' (map (\<lambda>(k, v). escape_string k @ '':'' @ to_stream lib stringify v) es) @ ''}''"

definition json_to_string :: "json_lib \<Rightarrow> variant \<Rightarrow> string" where
  "json_to_string lib v = to_stream lib True v"

end
