(* ===== verification/Json_Rpc.thy ===== *)
theory Json_Rpc
  imports Json
begin

section \<open>The JSON-RPC plugin\<close>

text \<open>
  \<open>plugins/json_rpc/src/json_rpc_plugin.cpp\<close>: the registered calls, and a request from its text to the text
  of the response. The calls work on the state of the application, of any type. The text and
  the value that describe an exception are given (\<open>describe\<close>), as is the logger of requests.
\<close>

definition JSON_RPC_PARSE_ERROR :: int where "JSON_RPC_PARSE_ERROR = - 32700"
definition JSON_RPC_INVALID_REQUEST :: int where "JSON_RPC_INVALID_REQUEST = - 32600"
definition JSON_RPC_METHOD_NOT_FOUND :: int where "JSON_RPC_METHOD_NOT_FOUND = - 32601"
definition JSON_RPC_SERVER_ERROR :: int where "JSON_RPC_SERVER_ERROR = - 32000"
definition JSON_RPC_NO_PARAMS :: int where "JSON_RPC_NO_PARAMS = - 32001"
definition JSON_RPC_PARSE_PARAMS_ERROR :: int where "JSON_RPC_PARSE_PARAMS_ERROR = - 32002"
definition JSON_RPC_ERROR_DURING_CALL :: int where "JSON_RPC_ERROR_DURING_CALL = - 32003"

record json_rpc_error =
  code :: int
  message :: string
  data :: "variant option"

record json_rpc_response =
  result :: "variant option"
  error_part :: "json_rpc_error option"
  response_id :: variant

definition new_response :: json_rpc_response where
  "new_response = \<lparr>result = None, error_part = None, response_id = Null\<rparr>"

type_synonym 's api_method = "variant \<Rightarrow> ('s, variant) sx"
type_synonym signature = "variant \<times> variant"

record 's json_rpc_plugin =
  registered_apis :: "string \<rightharpoonup> (string \<rightharpoonup> 's api_method)"
  method_names :: "string list"
  method_sigs :: "string \<rightharpoonup> (string \<rightharpoonup> signature)"
  logger :: "(entries \<Rightarrow> json_rpc_response \<Rightarrow> ('s, unit) sx) option"
  describe :: "error \<Rightarrow> string \<times> variant"

subsection \<open>Registering and finding calls\<close>

definition map_of_maps_update :: "('a \<rightharpoonup> ('b \<rightharpoonup> 'c)) \<Rightarrow> 'a \<Rightarrow> 'b \<Rightarrow> 'c \<Rightarrow> 'a \<rightharpoonup> ('b \<rightharpoonup> 'c)" where
  "map_of_maps_update m a b c =
     m(a \<mapsto> (case m a of None \<Rightarrow> (\<lambda>_. None) | Some n \<Rightarrow> n)(b \<mapsto> c))"

definition add_api_method ::
    "string \<Rightarrow> string \<Rightarrow> 's api_method \<Rightarrow> signature \<Rightarrow> 's json_rpc_plugin \<Rightarrow> 's json_rpc_plugin" where
  "add_api_method api_name method_name api sig p =
     p\<lparr>registered_apis := map_of_maps_update (registered_apis p) api_name method_name api,
       method_sigs := map_of_maps_update (method_sigs p) api_name method_name sig,
       method_names := method_names p @ [api_name @ ''.'' @ method_name]\<rparr>"

definition find_api_method :: "'s json_rpc_plugin \<Rightarrow> string \<Rightarrow> string \<Rightarrow> 's api_method result" where
  "find_api_method p api m =
     (case registered_apis p api of
        None \<Rightarrow> Inl Fc_Assert
      | Some ms \<Rightarrow> (case ms m of None \<Rightarrow> Inl Fc_Assert | Some f \<Rightarrow> Inr f))"

fun insert_name :: "string \<Rightarrow> string list \<Rightarrow> string list" where
  "insert_name x [] = [x]"
| "insert_name x (y # ys) = (if string_less y x then y # insert_name x ys else x # y # ys)"

definition json_rpc_startup :: "'s json_rpc_plugin \<Rightarrow> 's json_rpc_plugin" where
  "json_rpc_startup p = p\<lparr>method_names := foldr insert_name (method_names p) []\<rparr>"

text \<open>\<open>boost::split\<close> at every point.\<close>

fun split_at :: "char \<Rightarrow> string \<Rightarrow> string list" where
  "split_at d [] = [[]]"
| "split_at d (c # s) =
     (if c = d then [] # split_at d s else (case split_at d s of [] \<Rightarrow> [[c]] | w # ws \<Rightarrow> (c # w) # ws))"

subsection \<open>A request\<close>

definition empty_params :: "json_lib \<Rightarrow> variant result" where
  "empty_params lib = json_from_string lib False ''{}''"

definition process_params ::
    "json_lib \<Rightarrow> 's json_rpc_plugin \<Rightarrow> string \<Rightarrow> entries \<Rightarrow> ('s api_method \<times> variant) result" where
  "process_params lib p m request =
     (if m = ''call''
      then rbind (assert_r (object_contains ''params'' request) Fc_Assert) (\<lambda>_.
           rbind (object_at ''params'' request) (\<lambda>params.
           rbind (if is_array params then get_array params else Inr []) (\<lambda>v.
           rbind (assert_r (length v = 2 \<or> length v = 3) Fc_Assert) (\<lambda>_.
           rbind (as_string lib (v ! 0)) (\<lambda>api.
           rbind (as_string lib (v ! 1)) (\<lambda>meth.
           rbind (find_api_method p api meth) (\<lambda>f.
           rbind (if length v = 3 then Inr (v ! 2) else empty_params lib) (\<lambda>args. Inr (f, args)))))))))
      else
           let v = split_at (CHR ''.'') m in
           rbind (assert_r (length v = 2) Fc_Assert) (\<lambda>_.
           rbind (find_api_method p (v ! 0) (v ! 1)) (\<lambda>f.
           rbind (if object_contains ''params'' request then object_at ''params'' request else empty_params lib)
             (\<lambda>args. Inr (f, args)))))"

text \<open>
  The statements of a request work on the state of the application and on the response; an
  exception leaves both as they are at that point.
\<close>

type_synonym ('s, 'a) rpc_sx = "('s \<times> json_rpc_response, 'a) sx"

definition in_app :: "('s, 'a) sx \<Rightarrow> ('s, 'a) rpc_sx" where
  "in_app m sr = (case m (fst sr) of (r, s) \<Rightarrow> (r, (s, snd sr)))"

definition on_response :: "(json_rpc_response \<Rightarrow> json_rpc_response) \<Rightarrow> ('s, unit) rpc_sx" where
  "on_response f = update (\<lambda>(s, r). (s, f r))"

definition set_error :: "int \<Rightarrow> string \<Rightarrow> variant option \<Rightarrow> ('s, unit) rpc_sx" where
  "set_error c m d = on_response (\<lambda>r. r\<lparr>error_part := Some \<lparr>code = c, message = m, data = d\<rparr>\<rparr>)"

definition set_fc_error :: "'s json_rpc_plugin \<Rightarrow> int \<Rightarrow> error \<Rightarrow> ('s, unit) rpc_sx" where
  "set_fc_error p c e = set_error c (fst (describe p e)) (Some (snd (describe p e)))"

definition catch_assert :: "('s, unit) rpc_sx \<Rightarrow> (error \<Rightarrow> ('s, unit) rpc_sx) \<Rightarrow> ('s, unit) rpc_sx" where
  "catch_assert m h = catch_sx m (\<lambda>e. if e = Fc_Assert then h e else raise e)"

definition in_quotes :: "string \<Rightarrow> string" where
  "in_quotes s = quote_char # s @ [quote_char]"

definition rpc_id :: "entries \<Rightarrow> ('s, unit) rpc_sx" where
  "rpc_id request =
     (case object_find ''id'' request of
        None \<Rightarrow> ret ()
      | Some v \<Rightarrow>
          if is_int64 v \<or> is_uint64 v \<or> is_string v then on_response (\<lambda>r. r\<lparr>response_id := v\<rparr>)
          else set_error JSON_RPC_INVALID_REQUEST (''Only integer value or string is allowed for member '' @ in_quotes ''id'') None)"

definition rpc_call :: "'s json_rpc_plugin \<Rightarrow> 's api_method option \<times> variant \<Rightarrow> ('s, unit) rpc_sx" where
  "rpc_call p call_args =
     catch_sx
       (case fst call_args of
          None \<Rightarrow> ret ()
        | Some f \<Rightarrow> bnd (in_app (f (snd call_args))) (\<lambda>v. on_response (\<lambda>r. r\<lparr>result := Some v\<rparr>)))
       (\<lambda>e. if e = Lock_Exception then set_error JSON_RPC_ERROR_DURING_CALL (fst (describe p e)) None
            else if e = Fc_Assert then set_fc_error p JSON_RPC_ERROR_DURING_CALL e
            else raise e)"

text \<open>\<open>call\<close> stays null when the parameters fail an assertion.\<close>

definition rpc_method :: "json_lib \<Rightarrow> 's json_rpc_plugin \<Rightarrow> string \<Rightarrow> entries \<Rightarrow> ('s, unit) rpc_sx" where
  "rpc_method lib p m request =
     catch_assert
       (if (m = ''call'' \<and> object_contains ''params'' request) \<or> m \<noteq> ''call''
        then (case process_params lib p m request of
                Inl e \<Rightarrow> if e = Fc_Assert then seq (set_fc_error p JSON_RPC_PARSE_PARAMS_ERROR e) (rpc_call p (None, Null)) else raise e
              | Inr (f, args) \<Rightarrow> rpc_call p (Some f, args))
        else set_error JSON_RPC_NO_PARAMS (''A member '' @ in_quotes ''params'' @ '' does not exist'') None)
       (set_fc_error p JSON_RPC_METHOD_NOT_FOUND)"

definition rpc_log :: "'s json_rpc_plugin \<Rightarrow> entries \<Rightarrow> ('s, unit) rpc_sx" where
  "rpc_log p request =
     bnd (gets snd) (\<lambda>r. case logger p of None \<Rightarrow> ret () | Some log \<Rightarrow> in_app (log request r))"

definition has_string :: "string \<Rightarrow> entries \<Rightarrow> string option" where
  "has_string key request = (case object_find key request of Some (Str s) \<Rightarrow> Some s | _ \<Rightarrow> None)"

definition rpc_jsonrpc :: "json_lib \<Rightarrow> 's json_rpc_plugin \<Rightarrow> entries \<Rightarrow> ('s, unit) rpc_sx" where
  "rpc_jsonrpc lib p request =
     seq (if has_string ''jsonrpc'' request = Some ''2.0''
          then (case has_string ''method'' request of
                  Some m \<Rightarrow> rpc_method lib p m request
                | None \<Rightarrow> set_error JSON_RPC_INVALID_REQUEST (''A member '' @ in_quotes ''method'' @ '' does not exist'') None)
          else set_error JSON_RPC_INVALID_REQUEST (''jsonrpc value is not '' @ in_quotes ''2.0'') None)
         (rpc_log p request)"

definition server_error :: "'s json_rpc_plugin \<Rightarrow> error \<Rightarrow> ('s, unit) rpc_sx" where
  "server_error p e =
     (if no_exception e then raise e
      else if std_exception e
      then set_error JSON_RPC_SERVER_ERROR ''Unknown error - parsing rpc message failed'' (Some (Str (fst (describe p e))))
      else set_fc_error p JSON_RPC_SERVER_ERROR e)"

definition rpc_body :: "json_lib \<Rightarrow> 's json_rpc_plugin \<Rightarrow> variant \<Rightarrow> ('s, unit) rpc_sx" where
  "rpc_body lib p msg =
     catch_sx
       (bnd (lift_r (get_object_entries msg)) (\<lambda>request.
        seq (rpc_id request)
            (catch_sx
               (bnd (gets (\<lambda>sr. error_part (snd sr))) (\<lambda>e. if e = None then rpc_jsonrpc lib p request else ret ()))
               (server_error p))))
       (\<lambda>e. if e = Parse_Error \<or> e = Bad_Cast then set_fc_error p JSON_RPC_PARSE_ERROR e else server_error p e)"

definition rpc :: "json_lib \<Rightarrow> 's json_rpc_plugin \<Rightarrow> variant \<Rightarrow> ('s, json_rpc_response) sx" where
  "rpc lib p msg s =
     (case rpc_body lib p msg (s, new_response) of
        (Inl e, (t, r)) \<Rightarrow> (Inl e, t)
      | (Inr _, (t, r)) \<Rightarrow> (Inr r, t))"

subsection \<open>Text to text\<close>

definition error_to_variant :: "json_rpc_error \<Rightarrow> variant" where
  "error_to_variant e =
     Object [(''code'', Int64 (word_of_int (code e))), (''message'', Str (message e)),
             (''data'', (case data e of None \<Rightarrow> Null | Some v \<Rightarrow> v))]"

definition response_to_variant :: "json_rpc_response \<Rightarrow> variant" where
  "response_to_variant r =
     Object [(''jsonrpc'', Str ''2.0''),
             (''result'', (case result r of None \<Rightarrow> Null | Some v \<Rightarrow> v)),
             (''error'', (case error_part r of None \<Rightarrow> Null | Some e \<Rightarrow> error_to_variant e)),
             (''id'', response_id r)]"

definition response_text :: "json_lib \<Rightarrow> json_rpc_response \<Rightarrow> string" where
  "response_text lib r = json_to_string lib (response_to_variant r)"

definition error_response :: "string \<Rightarrow> variant option \<Rightarrow> json_rpc_response" where
  "error_response m d = new_response\<lparr>error_part := Some \<lparr>code = JSON_RPC_SERVER_ERROR, message = m, data = d\<rparr>\<rparr>"

fun rpc_each :: "json_lib \<Rightarrow> 's json_rpc_plugin \<Rightarrow> variant list \<Rightarrow> ('s, json_rpc_response list) sx" where
  "rpc_each lib p [] = ret []"
| "rpc_each lib p (m # ms) = bnd (rpc lib p m) (\<lambda>r. bnd (rpc_each lib p ms) (\<lambda>rs. ret (r # rs)))"

definition call_body :: "json_lib \<Rightarrow> 's json_rpc_plugin \<Rightarrow> string \<Rightarrow> ('s, string) sx" where
  "call_body lib p body =
     bnd (lift_r (json_from_string lib False body)) (\<lambda>v.
     case v of
       Array msgs \<Rightarrow>
         if msgs \<noteq> []
         then bnd (rpc_each lib p msgs) (\<lambda>rs. ret (json_to_string lib (Array (map response_to_variant rs))))
         else ret (response_text lib (error_response ''Array is invalid'' None))
     | _ \<Rightarrow> bnd (rpc lib p v) (\<lambda>r. ret (response_text lib r)))"

definition json_rpc_call :: "json_lib \<Rightarrow> 's json_rpc_plugin \<Rightarrow> string \<Rightarrow> ('s, string) sx" where
  "json_rpc_call lib p body =
     catch_sx (call_body lib p body) (\<lambda>e.
       if no_exception e then raise e
       else if std_exception e then ret (response_text lib (error_response ''Unknown exception'' (Some (Str (fst (describe p e))))))
       else ret (response_text lib (error_response (fst (describe p e)) (Some (snd (describe p e))))))"

end
