(* ===== verification/Variant_Facts.thy ===== *)
theory Variant_Facts
  imports Variants
begin

section \<open>fc: variants, the text of blobs\<close>

text \<open>
  The groups of six bits of \<open>base64_encode\<close>, bit by bit, and the bytes \<open>base64_decode\<close> makes of them.
\<close>

subsection \<open>Base 64\<close>

lemma less_64: "(\<And>n. 6 \<le> n \<Longrightarrow> \<not> bit w n) \<Longrightarrow> (w :: byte) < 64"
proof -
  assume *: "\<And>n. 6 \<le> n \<Longrightarrow> \<not> bit w n"
  have "n < 6" if "bit w n" for n using * [of n] that by (cases "n < 6") auto
  then have "take_bit 6 w = w" by (intro bit_eqI) (auto simp: bit_take_bit_iff)
  then have "unat w = take_bit 6 (unat w)" by (metis unsigned_take_bit_eq)
  then have "unat w < 2 ^ 6" using take_bit_nat_less_exp [of 6 "unat w"] by simp
  then show ?thesis by (simp add: word_less_nat_alt)
qed

lemma byte_bitsI:
  assumes "list_all (\<lambda>n. bit (w :: byte) n = P n) [0..<8]" and "\<And>n. P n \<Longrightarrow> n < 8"
  shows "bit w n \<longleftrightarrow> P n"
proof (cases "n < 8")
  case True
  with assms(1) show ?thesis by (simp add: list_all_iff)
next
  case False
  with assms(2) show ?thesis using bit_imp_le_length [of w n] by auto
qed

lemma byte_masks:
  "bit (0xFC :: byte) n \<longleftrightarrow> 2 \<le> n \<and> n < 8" "bit (0x03 :: byte) n \<longleftrightarrow> n < 2"
  "bit (0xF0 :: byte) n \<longleftrightarrow> 4 \<le> n \<and> n < 8" "bit (0x0F :: byte) n \<longleftrightarrow> n < 4"
  "bit (0xC0 :: byte) n \<longleftrightarrow> 6 \<le> n \<and> n < 8" "bit (0x3F :: byte) n \<longleftrightarrow> n < 6"
  "bit (0x30 :: byte) n \<longleftrightarrow> 4 \<le> n \<and> n < 6" "bit (0x3C :: byte) n \<longleftrightarrow> 2 \<le> n \<and> n < 6"
  by (rule byte_bitsI, code_simp, simp)+

lemmas mask_bits = bit_or_iff bit_and_iff bit_push_bit_iff bit_drop_bit_eq o_apply byte_masks

lemma or_maskI: "(\<And>n. \<not> (bit a n \<and> bit b n)) \<Longrightarrow> a + b = a OR (b :: byte)"
  by (rule disjunctive_add_eq_or) (rule bit_eqI, simp add: bit_and_iff)

lemma sextet_bits:
  "bit (sextet0 a) n \<longleftrightarrow> n < 6 \<and> bit a (2 + n)"
  "bit (sextet1 a b) n \<longleftrightarrow> (4 \<le> n \<and> n < 6 \<and> bit a (n - 4)) \<or> (n < 4 \<and> bit b (4 + n))"
  "bit (sextet2 b c) n \<longleftrightarrow> (2 \<le> n \<and> n < 4 + 2 \<and> bit b (n - 2)) \<or> (n < 2 \<and> bit c (6 + n))"
  "bit (sextet3 c) n \<longleftrightarrow> n < 6 \<and> bit c n"
proof -
  have o1: "sextet1 a b = push_bit 4 (a AND 0x03) OR drop_bit 4 (b AND 0xF0 :: byte)"
    unfolding sextet1_def by (rule or_maskI) (unfold mask_bits, linarith)
  have o2: "sextet2 b c = push_bit 2 (b AND 0x0F) OR drop_bit 6 (c AND 0xC0 :: byte)"
    unfolding sextet2_def by (rule or_maskI) (unfold mask_bits, linarith)
  show "bit (sextet0 a) n \<longleftrightarrow> n < 6 \<and> bit a (2 + n)" unfolding sextet0_def mask_bits by auto
  show "bit (sextet1 a b) n \<longleftrightarrow> (4 \<le> n \<and> n < 6 \<and> bit a (n - 4)) \<or> (n < 4 \<and> bit b (4 + n))" unfolding o1 mask_bits by auto
  show "bit (sextet2 b c) n \<longleftrightarrow> (2 \<le> n \<and> n < 4 + 2 \<and> bit b (n - 2)) \<or> (n < 2 \<and> bit c (6 + n))" unfolding o2 mask_bits by auto
  show "bit (sextet3 c) n \<longleftrightarrow> n < 6 \<and> bit c n" unfolding sextet3_def mask_bits by auto
qed

lemma sextet_small: "sextet0 a < 64" "sextet1 a b < 64" "sextet2 b c < 64" "sextet3 c < 64"
  by (rule less_64; simp add: sextet_bits)+

lemma sextet_bytes:
  "base64_byte0 (sextet0 a) (sextet1 a b) = a"
  "base64_byte1 (sextet1 a b) (sextet2 b c) = b"
  "base64_byte2 (sextet2 b c) (sextet3 c) = c"
proof -
  have "base64_byte0 (sextet0 a) (sextet1 a b) = push_bit 2 (sextet0 a) OR drop_bit 4 (sextet1 a b AND 0x30)"
    unfolding base64_byte0_def by (rule or_maskI) (unfold mask_bits sextet_bits, linarith)
  also have "\<dots> = a" by (rule bit_eqI) (unfold mask_bits sextet_bits, auto simp: not_less simp del: add_2_eq_Suc add_2_eq_Suc')
  finally show "base64_byte0 (sextet0 a) (sextet1 a b) = a" .
  have "base64_byte1 (sextet1 a b) (sextet2 b c) = push_bit 4 (sextet1 a b AND 0xF) OR drop_bit 2 (sextet2 b c AND 0x3C)"
    unfolding base64_byte1_def by (rule or_maskI) (unfold mask_bits sextet_bits, linarith)
  also have "\<dots> = b" by (rule bit_eqI) (unfold mask_bits sextet_bits, auto simp: not_less simp del: add_2_eq_Suc add_2_eq_Suc')
  finally show "base64_byte1 (sextet1 a b) (sextet2 b c) = b" .
  have "base64_byte2 (sextet2 b c) (sextet3 c) = push_bit 6 (sextet2 b c AND 0x3) OR sextet3 c"
    unfolding base64_byte2_def by (rule or_maskI) (unfold mask_bits sextet_bits, linarith)
  also have "\<dots> = c" by (rule bit_eqI) (unfold mask_bits sextet_bits, auto simp: not_less simp del: add_2_eq_Suc add_2_eq_Suc')
  finally show "base64_byte2 (sextet2 b c) (sextet3 c) = c" .
qed

lemma base64_alphabet:
  "list_all (\<lambda>i. base64_index (base64_chars ! i) = word_of_nat i \<and> is_base64 (base64_chars ! i) \<and>
     base64_chars ! i \<noteq> CHR ''='') [0..<64]"
  by code_simp

lemma base64_char_facts:
  assumes "b < 64"
  shows "base64_index (base64_char b) = b \<and> is_base64 (base64_char b) \<and> base64_char b \<noteq> CHR ''=''"
proof -
  have "unat b \<in> set [0..<64]" using assms by (simp add: word_less_nat_alt)
  with base64_alphabet show ?thesis unfolding list_all_iff base64_char_def by simp
qed

lemma base64_text:
  "takeWhile (\<lambda>c. c \<noteq> CHR ''='' \<and> is_base64 c) (map base64_char bs @ s) =
     map base64_char bs @ takeWhile (\<lambda>c. c \<noteq> CHR ''='' \<and> is_base64 c) s" if "list_all (\<lambda>b. b < 64) bs"
  using that by (induction bs) (simp_all add: base64_char_facts)

lemma base64_decode_encode: "base64_decode (base64_encode bs @ ''='') = bs"
proof (induction bs rule: base64_encode.induct)
  case (4 a b c bs)
  then show ?case
    using base64_text [of "[sextet0 a, sextet1 a b, sextet2 b c, sextet3 c]" "base64_encode bs @ ''=''"]
    by (simp add: base64_decode_def sextet_small base64_char_facts sextet_bytes)
qed (simp_all add: base64_decode_def sextet_small base64_char_facts sextet_bytes)

end
