(* ===== verification/Json_Facts.thy ===== *)
theory Json_Facts
  imports Json Base_Facts Variant_Facts
begin

section \<open>Reading printed JSON\<close>

text \<open>
  What the parser reads from the text the printer writes: first strings, numbers and words, then
  values by induction, with as many rounds as \<open>stream_rounds\<close> gives.
\<close>

subsection \<open>The texts that are read back\<close>

definition plain_char :: "char \<Rightarrow> bool" where
  "plain_char c \<longleftrightarrow> (let n = of_char c :: nat in 32 \<le> n \<or> n = 9 \<or> n = 10 \<or> n = 13)"

definition plain_text :: "string \<Rightarrow> bool" where
  "plain_text s \<longleftrightarrow> list_all plain_char s"

definition unescaped_char :: "char \<Rightarrow> bool" where
  "unescaped_char c \<longleftrightarrow> c \<noteq> quote_char \<and> c \<noteq> backslash \<and> c \<noteq> end_char"

text \<open>What is read from the text of a value: the type of a number and of a blob is not kept.\<close>

fun reads_as :: "json_lib \<Rightarrow> bool \<Rightarrow> variant \<Rightarrow> variant" where
  "reads_as lib st Null = Null"
| "reads_as lib st (Int64 i) =
     (if st \<and> 0xFFFFFFFF < sint i then Str (int64_text i) else if sint i < 0 then Int64 i else Uint64 i)"
| "reads_as lib st (Uint64 u) = (if st \<and> 0xFFFFFFFF < u then Str (uint64_text u) else Uint64 u)"
| "reads_as lib st (Double d) = Str (double_text lib d)"
| "reads_as lib st (Bool b) = Bool b"
| "reads_as lib st (Str s) = Str s"
| "reads_as lib st (Blob b) = Str (blob_text b)"
| "reads_as lib st (Array vs) = Array (map (reads_as lib st) vs)"
| "reads_as lib st (Object es) = Object (map (\<lambda>(k, v). (k, reads_as lib st v)) es)"

fun printable :: "json_lib \<Rightarrow> bool \<Rightarrow> variant \<Rightarrow> bool" where
  "printable lib st Null = True"
| "printable lib st (Int64 i) = True"
| "printable lib st (Uint64 u) = True"
| "printable lib st (Double d) = (st \<and> list_all unescaped_char (double_text lib d))"
| "printable lib st (Bool b) = True"
| "printable lib st (Str s) = plain_text s"
| "printable lib st (Blob b) = True"
| "printable lib st (Array vs) = list_all (printable lib st) vs"
| "printable lib st (Object es) = list_all (\<lambda>(k, v). plain_text k \<and> printable lib st v) es"

definition json_lib_ok :: "json_lib \<Rightarrow> bool" where
  "json_lib_ok lib \<longleftrightarrow>
     (\<forall>n < 2 ^ 64. lex_uint64 lib (decimal n) = Some (word_of_nat n)) \<and>
     (\<forall>n \<le> 2 ^ 63. lex_int64 lib (CHR ''-'' # decimal n) = Some (- word_of_nat n))"

subsection \<open>Strings\<close>

lemma string_plain:
  assumes "unescaped_char c"
  shows "string_loop token (c # s) = string_loop (token @ [c]) s"
  using assms by (subst string_loop.simps) (simp add: unescaped_char_def)

lemma string_escaped: "string_loop token (backslash # c # s) = string_loop (token @ [unescape c]) s"
  by (subst string_loop.simps)
    (simp add: parse_escape_def bnd_def seq_def in_peek_def in_get_def ret_def)

lemma string_end: "string_loop token (quote_char # s) = (Inr token, s)"
  by (subst string_loop.simps) simp

lemma string_run: "list_all unescaped_char t \<Longrightarrow> string_loop token (t @ s) = string_loop (token @ t) s"
  by (induction t arbitrary: token) (simp_all add: string_plain)

lemma escape_char_run:
  assumes "plain_char c"
  shows "string_loop token (escape_char c @ s) = string_loop (token @ [c]) s"
proof -
  consider "c = tab_char" | "c = newline_char" | "c = return_char" | "c = backslash" | "c = quote_char"
    | "32 \<le> (of_char c :: nat)" "c \<noteq> backslash" "c \<noteq> quote_char"
  proof -
    have "of_char c \<in> {9, 10, 13 :: nat} \<or> 32 \<le> (of_char c :: nat)" using assms by (auto simp: plain_char_def Let_def)
    moreover have "c = char_of (of_char c :: nat)" by simp
    moreover have "char_of (9 :: nat) = tab_char" "char_of (10 :: nat) = newline_char" "char_of (13 :: nat) = return_char"
      by (simp_all add: char_of_def bit_Suc_0_iff)
    ultimately show ?thesis using that by (metis empty_iff insert_iff)
  qed
  then show ?thesis
  proof cases
    case 6
    then have "escape_char c = [c]" by (simp add: escape_char_def Let_def)
    moreover have "c \<noteq> end_char" using 6(1) by auto
    ultimately show ?thesis using 6 by (simp add: string_plain unescaped_char_def)
  qed (simp_all add: escape_char_def string_escaped unescape_def)
qed

lemma escaped_run: "plain_text t \<Longrightarrow> string_loop token (concat (map escape_char t) @ s) = string_loop (token @ t) s"
  by (induction t arbitrary: token) (simp_all add: plain_text_def escape_char_run)

lemma string_read: "plain_text t \<Longrightarrow> string_from_stream (escape_string t @ s) = (Inr t, s)"
  by (simp add: string_from_stream_def escape_string_def bnd_def seq_def in_peek_def in_get_def escaped_run string_end)

lemma quoted_read: "list_all unescaped_char t \<Longrightarrow> string_from_stream (quote_char # t @ quote_char # s) = (Inr t, s)"
  by (simp add: string_from_stream_def bnd_def seq_def in_peek_def in_get_def string_run string_end)

subsection \<open>Numbers and words\<close>

text \<open>What may follow a value inside an array or an object, or at the end of the text.\<close>

definition delimited :: "string \<Rightarrow> bool" where
  "delimited s \<longleftrightarrow> (case s of [] \<Rightarrow> True | c # _ \<Rightarrow> c \<in> set '',]}'')"

lemma number_char_digit: "is_number_char = is_digit"
  by (simp add: fun_eq_iff is_number_char_def is_digit_def Let_def)

lemma digit_not: "is_digit c \<Longrightarrow> c \<noteq> CHR ''.'' \<and> c \<noteq> null_char \<and> c \<noteq> CHR ''-'' \<and> c \<noteq> quote_char \<and> c \<noteq> CHR ''{'' \<and> c \<noteq> CHR ''[''"
  by (auto simp: is_digit_def)

lemma digits_run: "list_all is_digit t \<Longrightarrow> number_loop ss dot (t @ s) = number_loop (ss @ t) dot s"
  by (induction t arbitrary: ss) (simp_all add: number_char_digit digit_not)

lemma delimiter_number: "delimited s \<Longrightarrow> number_loop ss dot s = (Inr (Digits ss dot), s)"
  by (cases s) (auto simp: delimited_def is_number_char_def is_alnum_def)

lemma decimal_hd: "\<exists>c t. decimal n = c # t \<and> is_digit c"
  using decimal_digits [of n] by (cases "decimal n") auto

lemma natural_read:
  assumes lib: "json_lib_ok lib" and n: "n < 2 ^ 64" and s: "delimited s"
  shows "number_from_stream lib sd (decimal n @ s) = (Inr (Uint64 (word_of_nat n)), s)"
proof -
  obtain c t where c: "decimal n = c # t" "is_digit c" using decimal_hd by blast
  have "number_loop [] False (decimal n @ s) = (Inr (Digits (decimal n) False), s)"
    using decimal_digits [of n] by (simp add: digits_run delimiter_number [OF s])
  moreover have "decimal n \<noteq> ''.''" "decimal n \<noteq> ''-.''" using c by (auto dest: digit_not)
  moreover have "lex_uint64 lib (decimal n) = Some (word_of_nat n)" using lib n by (simp add: json_lib_ok_def)
  ultimately show ?thesis using c digit_not [OF c(2)]
    by (simp add: number_from_stream_def bnd_def in_peek_def lift_r_def number_value_def to_uint64_def)
qed

lemma negative_read:
  assumes lib: "json_lib_ok lib" and n: "n \<le> 2 ^ 63" and s: "delimited s"
  shows "number_from_stream lib sd (CHR ''-'' # decimal n @ s) = (Inr (Int64 (- word_of_nat n)), s)"
proof -
  obtain c t where c: "decimal n = c # t" "is_digit c" using decimal_hd by blast
  have "number_loop ''-'' False (decimal n @ s) = (Inr (Digits (CHR ''-'' # decimal n) False), s)"
    using decimal_digits [of n] by (simp add: digits_run delimiter_number [OF s])
  moreover have "decimal n \<noteq> ''.''" using c by (auto dest: digit_not)
  moreover have "lex_int64 lib (CHR ''-'' # decimal n) = Some (- word_of_nat n)" using lib n by (simp add: json_lib_ok_def)
  ultimately show ?thesis
    by (simp add: number_from_stream_def bnd_def seq_def in_peek_def in_get_def lift_r_def number_value_def)
qed

lemma uint64_read:
  assumes "json_lib_ok lib" and "delimited s"
  shows "number_from_stream lib sd (uint64_text u @ s) = (Inr (Uint64 u), s)"
proof -
  have "unat u < 2 ^ 64" using unat_bound [of u] by simp
  with natural_read [OF assms(1) _ assms(2)] show ?thesis by (simp add: uint64_text_def)
qed

lemma int64_read:
  assumes lib: "json_lib_ok lib" and s: "delimited s"
  shows "number_from_stream lib sd (int64_text i @ s) = (Inr (if sint i < 0 then Int64 i else Uint64 i), s)"
proof (cases "sint i < 0")
  case True
  have "- (2 ^ 63) \<le> sint i" using sint_ge [of i] by simp
  then have n: "nat (- sint i) \<le> 2 ^ 63" by (simp add: nat_le_iff)
  have "(word_of_nat (nat (- sint i)) :: i64) = word_of_int (- sint i)" using True by (intro of_nat_nat) simp
  also have "\<dots> = - i" by simp
  finally have "- word_of_nat (nat (- sint i)) = i" by simp
  with True negative_read [OF lib n s] show ?thesis by (simp add: int64_text_def)
next
  case False
  have "sint i < 2 ^ 63" using sint_less [of i] by simp
  then have n: "nat (sint i) < 2 ^ 64" using False by (simp add: nat_less_iff)
  have "(word_of_nat (nat (sint i)) :: i64) = i" 
    using False of_nat_nat [of "sint i", where ?'a = "64 word"] by simp
  with False natural_read [OF lib n s] show ?thesis by (simp add: int64_text_def)
qed

lemma delimiter_word: "delimited s \<Longrightarrow> word_loop ss s = (Inr (ss, s = []), s)"
  by (cases s) (auto simp: delimited_def)

lemma words_read:
  "delimited s \<Longrightarrow> token_from_stream (''null'' @ s) = (Inr Null, s)"
  "delimited s \<Longrightarrow> token_from_stream (''true'' @ s) = (Inr (Bool True), s)"
  "delimited s \<Longrightarrow> token_from_stream (''false'' @ s) = (Inr (Bool False), s)"
  by (simp_all add: token_from_stream_def bnd_def delimiter_word ret_def)

subsection \<open>Values\<close>

definition starts_value :: "string \<Rightarrow> bool" where
  "starts_value s \<longleftrightarrow>
     (case s of [] \<Rightarrow> False | c # _ \<Rightarrow> c \<in> {quote_char, CHR ''['', CHR ''{'', CHR ''-''} \<union> set ''ntf'' \<or> is_digit c)"

lemma skip_none: "s \<noteq> [] \<Longrightarrow> \<not> white_space (hd s) \<Longrightarrow> skip_white_space s = (Inr False, s)"
  by (cases s) (simp_all add: skip_white_space_def)

lemma digit_no_space: "is_digit c \<Longrightarrow> \<not> white_space c \<and> c \<notin> {CHR '','', CHR '']'', CHR ''}''}"
  by (auto simp: white_space_def is_digit_def)

lemma starts_value_cases:
  assumes "starts_value s"
  obtains c t where "s = c # t" "\<not> white_space c" "c \<notin> {CHR '','', CHR '']'', CHR ''}''}"
proof (cases s)
  case (Cons c t)
  have "\<not> white_space c \<and> c \<notin> {CHR '','', CHR '']'', CHR ''}''}"
    using assms Cons digit_no_space [of c] by (auto simp: starts_value_def white_space_def)
  with Cons that show ?thesis by blast
qed (use assms in \<open>simp add: starts_value_def\<close>)

lemma digits_start: "starts_value (decimal n @ s)"
  using decimal_hd [of n] by (auto simp: starts_value_def)

lemma int64_text_start: "starts_value (int64_text i @ s)"
  using digits_start [of _ s] by (auto simp: int64_text_def starts_value_def)

lemma to_stream_start: "printable lib st v \<Longrightarrow> starts_value (to_stream lib st v @ s)"
  using digits_start [of _ s] int64_text_start [of _ s]
  by (cases v) (auto simp: large_text_def escape_string_def uint64_text_def starts_value_def)

lemma delimited_skip:
  "delimited (c # s) \<Longrightarrow> skip_white_space (c # s) = (Inr False, c # s)"
  by (intro skip_none) (auto simp: delimited_def white_space_def)

lemma variant_dispatch:
  assumes "starts_value s"
  shows "variant_from_stream lib sd (Suc k) s =
    (let c = hd s in
     if c = quote_char then bnd string_from_stream (\<lambda>s. ret (Str s)) s
     else if c = CHR ''{''
     then bnd (eof_is_parse_error (seq in_get (seq skip_white_space (object_loop lib sd k [])))) (\<lambda>es. ret (Object es)) s
     else if c = CHR ''['' then bnd (seq in_get (seq skip_white_space (array_loop lib sd k []))) (\<lambda>vs. ret (Array vs)) s
     else if c = CHR ''-'' \<or> c = CHR ''.'' \<or> is_number_char c then number_from_stream lib sd s
     else token_from_stream s)"
proof -
  obtain c t where s: "s = c # t" "\<not> white_space c" using assms by (rule starts_value_cases)
  have "skip_white_space s = (Inr False, s)" using s by (intro skip_none) simp_all
  moreover have "c \<in> {quote_char, CHR ''['', CHR ''{'', CHR ''-''} \<union> set ''ntf'' \<or> is_digit c"
    using assms s by (simp add: starts_value_def)
  ultimately show ?thesis using s(1)
    by (subst variant_from_stream.simps) (auto simp: seq_def bnd_def in_peek_def number_char_digit)
qed

definition read_back :: "json_lib \<Rightarrow> bool \<Rightarrow> bool \<Rightarrow> variant \<Rightarrow> bool" where
  "read_back lib sd st v \<longleftrightarrow> printable lib st v \<and>
     (\<forall>fuel s. delimited s \<longrightarrow> stream_rounds (to_stream lib st v @ s) \<le> fuel \<longrightarrow>
        variant_from_stream lib sd fuel (to_stream lib st v @ s) = (Inr (reads_as lib st v), s))"

lemma read_backD:
  "read_back lib sd st v \<Longrightarrow> delimited s \<Longrightarrow> stream_rounds (to_stream lib st v @ s) \<le> fuel \<Longrightarrow>
   variant_from_stream lib sd fuel (to_stream lib st v @ s) = (Inr (reads_as lib st v), s)"
  by (simp add: read_back_def)

text \<open>The turn of a loop that reads one value.\<close>

lemma array_turn:
  assumes v: "read_back lib sd st v" and d: "delimited (c # s)"
    and fuel: "stream_rounds (to_stream lib st v @ c # s) \<le> k"
  shows "array_loop lib sd (Suc k) ar (to_stream lib st v @ c # s) = array_loop lib sd k (ar @ [reads_as lib st v]) (c # s)"
proof -
  have st: "starts_value (to_stream lib st v @ c # s)" using v by (intro to_stream_start) (simp add: read_back_def)
  then obtain e t where e: "to_stream lib st v @ c # s = e # t" "\<not> white_space e" "e \<notin> {CHR '','', CHR '']'', CHR ''}''}"
    by (rule starts_value_cases)
  have "skip_white_space (to_stream lib st v @ c # s) = (Inr False, to_stream lib st v @ c # s)"
    using e by (intro skip_none) simp_all
  with e(3) read_backD [OF v d fuel] delimited_skip [OF d] show ?thesis
    by (subst array_loop.simps) (simp add: bnd_def seq_def in_peek_def e(1))
qed

lemma array_comma: "array_loop lib sd (Suc k) ar (CHR '','' # s) = array_loop lib sd k ar s"
  by (subst array_loop.simps) (simp add: bnd_def seq_def in_peek_def in_get_def)

lemma array_close: "array_loop lib sd (Suc k) ar (CHR '']'' # s) = (Inr ar, s)"
  by (subst array_loop.simps) (simp add: bnd_def seq_def in_peek_def in_get_def ret_def)

lemma array_read:
  assumes "\<forall>v \<in> set vs. read_back lib sd st v"
    and "2 * length (join_with '','' (map (to_stream lib st) vs) @ '']'' @ s) + 2 \<le> k"
  shows "array_loop lib sd k ar (join_with '','' (map (to_stream lib st) vs) @ '']'' @ s) =
    (Inr (ar @ map (reads_as lib st) vs), s)"
  using assms
proof (induction vs arbitrary: k ar)
  case Nil
  then show ?case by (cases k) (simp_all add: array_close)
next
  case (Cons v vs)
  then obtain l where k: "k = Suc (Suc l)" by (cases k; cases "k - 1") auto
  have v: "read_back lib sd st v" using Cons.prems(1) by simp
  show ?case
  proof (cases vs)
    case Nil
    have "array_loop lib sd k ar (to_stream lib st v @ CHR '']'' # s) =
        array_loop lib sd (Suc l) (ar @ [reads_as lib st v]) (CHR '']'' # s)"
      using Cons.prems(2) Nil unfolding k
      by (intro array_turn [OF v]) (simp_all add: delimited_def stream_rounds_def)
    then show ?thesis using Nil by (simp add: array_close)
  next
    case (Cons w ws)
    let ?t = "join_with '','' (map (to_stream lib st) vs) @ '']'' @ s"
    have "array_loop lib sd k ar (to_stream lib st v @ CHR '','' # ?t) =
        array_loop lib sd (Suc l) (ar @ [reads_as lib st v]) (CHR '','' # ?t)"
      using Cons.prems(2) Cons unfolding k
      by (intro array_turn [OF v]) (simp_all add: delimited_def stream_rounds_def)
    also have "\<dots> = array_loop lib sd l (ar @ [reads_as lib st v]) ?t" by (rule array_comma)
    also have "\<dots> = (Inr ((ar @ [reads_as lib st v]) @ map (reads_as lib st) vs), s)"
      using Cons.prems Cons unfolding k by (intro Cons.IH) simp_all
    finally show ?thesis using Cons by simp
  qed
qed

definition entry_text :: "json_lib \<Rightarrow> bool \<Rightarrow> string \<times> variant \<Rightarrow> string" where
  "entry_text lib st e = escape_string (fst e) @ '':'' @ to_stream lib st (snd e)"

lemma entry_text_pair: "(\<lambda>(k, v). escape_string k @ '':'' @ to_stream lib st v) = entry_text lib st"
  by (simp add: fun_eq_iff entry_text_def split: prod.splits)

lemma entry_longer: "length (to_stream lib st v) < length (entry_text lib st (key, v))"
  by (simp add: entry_text_def)

lemma quote_not_space: "\<not> white_space quote_char"
  by (simp add: white_space_def)

lemma object_turn:
  assumes v: "read_back lib sd st v" and key: "plain_text key" and d: "delimited (c # s)"
    and fuel: "stream_rounds (to_stream lib st v @ c # s) \<le> k"
  shows "object_loop lib sd (Suc k) obj (entry_text lib st (key, v) @ c # s) =
    object_loop lib sd k (obj @ [(key, reads_as lib st v)]) (c # s)"
proof -
  let ?t = "to_stream lib st v @ c # s"
  have e: "entry_text lib st (key, v) @ c # s = escape_string key @ CHR '':'' # ?t" by (simp add: entry_text_def)
  have h: "\<exists>r. escape_string key @ CHR '':'' # ?t = quote_char # r" by (simp add: escape_string_def)
  then have sk: "skip_white_space (escape_string key @ CHR '':'' # ?t) = (Inr False, escape_string key @ CHR '':'' # ?t)"
    using quote_not_space by (intro skip_none) auto
  have sc: "skip_white_space (CHR '':'' # ?t) = (Inr False, CHR '':'' # ?t)" by (intro skip_none) (simp_all add: white_space_def)
  from h show ?thesis
    unfolding e using sk sc string_read [OF key, of "CHR '':'' # ?t"] read_backD [OF v d fuel] delimited_skip [OF d]
    by (subst object_loop.simps) (auto simp: bnd_def seq_def in_peek_def in_get_def object_append_def)
qed

lemma object_comma: "object_loop lib sd (Suc k) obj (CHR '','' # s) = object_loop lib sd k obj s"
  by (subst object_loop.simps) (simp add: bnd_def seq_def in_peek_def in_get_def)

lemma object_close: "object_loop lib sd (Suc k) obj (CHR ''}'' # s) = (Inr obj, s)"
  by (subst object_loop.simps) (simp add: bnd_def seq_def in_peek_def in_get_def ret_def)

lemma object_read:
  assumes "\<forall>(key, v) \<in> set es. plain_text key \<and> read_back lib sd st v"
    and "2 * length (join_with '','' (map (entry_text lib st) es) @ ''}'' @ s) + 2 \<le> k"
  shows "object_loop lib sd k obj (join_with '','' (map (entry_text lib st) es) @ ''}'' @ s) =
    (Inr (obj @ map (\<lambda>(key, v). (key, reads_as lib st v)) es), s)"
  using assms
proof (induction es arbitrary: k obj)
  case Nil
  then show ?case by (cases k) (simp_all add: object_close)
next
  case (Cons e es)
  obtain key v where e: "e = (key, v)" by (cases e)
  from Cons obtain l where k: "k = Suc (Suc l)" by (cases k; cases "k - 1") auto
  have v: "read_back lib sd st v" "plain_text key" using Cons.prems(1) e by simp_all
  show ?case
  proof (cases es)
    case Nil
    have "object_loop lib sd k obj (entry_text lib st (key, v) @ CHR ''}'' # s) =
        object_loop lib sd (Suc l) (obj @ [(key, reads_as lib st v)]) (CHR ''}'' # s)"
      using Cons.prems(2) Nil e unfolding k
      by (intro object_turn [OF v]) (simp_all add: delimited_def stream_rounds_def entry_text_def)
    then show ?thesis using Nil e by (simp add: object_close)
  next
    case (Cons w ws)
    let ?t = "join_with '','' (map (entry_text lib st) es) @ ''}'' @ s"
    have "object_loop lib sd k obj (entry_text lib st (key, v) @ CHR '','' # ?t) =
        object_loop lib sd (Suc l) (obj @ [(key, reads_as lib st v)]) (CHR '','' # ?t)"
      using Cons.prems(2) Cons e unfolding k
      using entry_longer [of lib st v key]
      by (intro object_turn [OF v]) (simp_all add: delimited_def stream_rounds_def)
    also have "\<dots> = object_loop lib sd l (obj @ [(key, reads_as lib st v)]) ?t" by (rule object_comma)
    also have "\<dots> = (Inr ((obj @ [(key, reads_as lib st v)]) @ map (\<lambda>(key, v). (key, reads_as lib st v)) es), s)"
      using Cons.prems Cons unfolding k by (intro Cons.IH) simp_all
    finally show ?thesis using Cons e by simp
  qed
qed

subsection \<open>All values\<close>

lemma base64_char_unescaped:
  assumes "b < 64"
  shows "unescaped_char (base64_char b) \<and> plain_char (base64_char b)"
proof -
  have "list_all (\<lambda>c. unescaped_char c \<and> plain_char c) base64_chars" by code_simp
  moreover have "unat b < length base64_chars"
    using assms unat_mono [of b 64] by (simp add: base64_chars_def)
  ultimately show ?thesis by (simp add: base64_char_def list_all_length)
qed

lemma equals_plain: "unescaped_char CHR ''='' \<and> plain_char CHR ''=''"
  by (simp add: unescaped_char_def plain_char_def)

lemma base64_plain: "list_all (\<lambda>c. unescaped_char c \<and> plain_char c) (base64_encode bs)"
  by (induction bs rule: base64_encode.induct)
    (simp_all add: base64_char_unescaped sextet_small equals_plain)

lemma blob_plain: "plain_text (blob_text b)"
proof -
  have "plain_text (base64_encode b)" using base64_plain [of b] by (simp add: plain_text_def list_all_iff)
  then show ?thesis by (simp add: blob_text_def plain_text_def plain_char_def)
qed

lemma decimal_unescaped: "list_all unescaped_char (decimal n)"
proof -
  have "unescaped_char c" if "is_digit c" for c using that by (auto simp: is_digit_def unescaped_char_def)
  then show ?thesis using decimal_digits [of n] by (auto simp: list_all_iff)
qed

lemma int64_text_unescaped: "list_all unescaped_char (int64_text i)"
  using decimal_unescaped by (auto simp: int64_text_def unescaped_char_def)

lemma string_dispatch:
  "variant_from_stream lib sd (Suc k) (quote_char # s) = bnd string_from_stream (\<lambda>s. ret (Str s)) (quote_char # s)"
  using variant_dispatch [of "quote_char # s" lib sd k] by (simp add: starts_value_def)

lemma quoted_value:
  assumes "list_all unescaped_char t" and "0 < fuel"
  shows "variant_from_stream lib sd fuel (quote_char # t @ quote_char # s) = (Inr (Str t), s)"
  using assms(2) string_dispatch [of lib sd "fuel - 1" "t @ quote_char # s"] quoted_read [OF assms(1), of s]
  by (simp add: bnd_def ret_def)

lemma string_value:
  assumes "plain_text t" and "0 < fuel"
  shows "variant_from_stream lib sd fuel (escape_string t @ s) = (Inr (Str t), s)"
proof -
  obtain r where "escape_string t @ s = quote_char # r" by (simp add: escape_string_def)
  with assms(2) string_dispatch [of lib sd "fuel - 1" r] string_read [OF assms(1), of s] show ?thesis
    by (simp add: bnd_def ret_def)
qed

lemma number_start:
  assumes "starts_value s" and "hd s = CHR ''-'' \<or> is_digit (hd s)" and "0 < fuel"
  shows "variant_from_stream lib sd fuel s = number_from_stream lib sd s"
  using variant_dispatch [OF assms(1), of lib sd "fuel - 1"] assms(2,3) digit_not [of "hd s"]
  by (auto simp: Let_def number_char_digit)

lemma uint64_value:
  assumes lib: "json_lib_ok lib" and s: "delimited s" and "0 < fuel"
  shows "variant_from_stream lib sd fuel (uint64_text u @ s) = (Inr (Uint64 u), s)"
proof -
  have "is_digit (hd (uint64_text u @ s))" using decimal_hd [of "unat u"] by (auto simp: uint64_text_def)
  with number_start [OF digits_start _ assms(3), of "unat u" s lib sd] uint64_read [OF lib s, of sd u] show ?thesis
    by (simp add: uint64_text_def)
qed

lemma int64_value:
  assumes lib: "json_lib_ok lib" and s: "delimited s" and "0 < fuel"
  shows "variant_from_stream lib sd fuel (int64_text i @ s) = (Inr (if sint i < 0 then Int64 i else Uint64 i), s)"
proof -
  have "hd (int64_text i @ s) = CHR ''-'' \<or> is_digit (hd (int64_text i @ s))"
    using decimal_hd [of "nat (sint i)"] by (auto simp: int64_text_def)
  with number_start [OF int64_text_start _ assms(3), of i s lib sd] int64_read [OF lib s, of sd i] show ?thesis by simp
qed

lemma word_value:
  assumes s: "delimited s" and w: "w \<in> {''null'', ''true'', ''false''}" and "0 < fuel"
  shows "variant_from_stream lib sd fuel (w @ s) = token_from_stream (w @ s)"
  using w variant_dispatch [of "w @ s" lib sd "fuel - 1"] assms(3)
  by (auto simp: starts_value_def is_number_char_def)

lemma constant_values:
  assumes "delimited s" and "0 < fuel"
  shows "variant_from_stream lib sd fuel (CHR ''n'' # CHR ''u'' # CHR ''l'' # CHR ''l'' # s) = (Inr Null, s)"
    "variant_from_stream lib sd fuel (CHR ''t'' # CHR ''r'' # CHR ''u'' # CHR ''e'' # s) = (Inr (Bool True), s)"
    "variant_from_stream lib sd fuel (CHR ''f'' # CHR ''a'' # CHR ''l'' # CHR ''s'' # CHR ''e'' # s) = (Inr (Bool False), s)"
  using word_value [OF assms(1) _ assms(2), of "''null''" lib sd] word_value [OF assms(1) _ assms(2), of "''true''" lib sd]
    word_value [OF assms(1) _ assms(2), of "''false''" lib sd] words_read [OF assms(1)]
  by simp_all

lemma uint64_text_unescaped: "list_all unescaped_char (uint64_text u)"
  by (simp add: uint64_text_def decimal_unescaped)

lemma array_start:
  "skip_white_space s = (Inr b, s) \<Longrightarrow> variant_from_stream lib sd (Suc k) (CHR ''['' # s) =
     bnd (array_loop lib sd k []) (\<lambda>vs. ret (Array vs)) s"
  using variant_dispatch [of "CHR ''['' # s" lib sd k]
  by (simp add: starts_value_def bnd_def seq_def in_get_def)

lemma object_start:
  "skip_white_space s = (Inr b, s) \<Longrightarrow> variant_from_stream lib sd (Suc k) (CHR ''{'' # s) =
     bnd (eof_is_parse_error (object_loop lib sd k [])) (\<lambda>es. ret (Object es)) s"
  using variant_dispatch [of "CHR ''{'' # s" lib sd k]
  by (simp add: starts_value_def bnd_def seq_def in_get_def eof_is_parse_error_def catch_sx_def)

lemma array_value:
  assumes "\<forall>v \<in> set vs. read_back lib sd st v" and "stream_rounds (to_stream lib st (Array vs) @ s) \<le> fuel"
  shows "variant_from_stream lib sd fuel (to_stream lib st (Array vs) @ s) = (Inr (reads_as lib st (Array vs)), s)"
proof -
  let ?t = "join_with '','' (map (to_stream lib st) vs) @ '']'' @ s"
  obtain k where k: "fuel = Suc k" using assms(2) by (cases fuel) (simp_all add: stream_rounds_def)
  have "\<exists>c r. ?t = c # r \<and> \<not> white_space c"
  proof (cases vs)
    case (Cons v ws)
    have "starts_value (to_stream lib st v @ r)" for r
      using assms(1) Cons by (intro to_stream_start) (simp add: read_back_def)
    then have "\<exists>c q. to_stream lib st v @ r = c # q \<and> \<not> white_space c" for r by (metis starts_value_cases)
    then show ?thesis using Cons by (cases ws) simp_all
  qed (simp add: white_space_def)
  then have "skip_white_space ?t = (Inr False, ?t)" by (intro skip_none) auto
  moreover have "array_loop lib sd k [] ?t = (Inr (map (reads_as lib st) vs), s)"
    using array_read [OF assms(1), of s k "[]"] assms(2) k by (simp add: stream_rounds_def)
  ultimately show ?thesis using array_start [of ?t False lib sd k] k by (simp add: bnd_def ret_def)
qed

lemma object_value:
  assumes "\<forall>(key, v) \<in> set es. plain_text key \<and> read_back lib sd st v"
    and "stream_rounds (to_stream lib st (Object es) @ s) \<le> fuel"
  shows "variant_from_stream lib sd fuel (to_stream lib st (Object es) @ s) = (Inr (reads_as lib st (Object es)), s)"
proof -
  let ?t = "join_with '','' (map (entry_text lib st) es) @ ''}'' @ s"
  obtain k where k: "fuel = Suc k" using assms(2) by (cases fuel) (simp_all add: stream_rounds_def)
  have "\<exists>c r. ?t = c # r \<and> \<not> white_space c"
    by (cases es; cases "tl es") (simp_all add: entry_text_def escape_string_def white_space_def)
  then have "skip_white_space ?t = (Inr False, ?t)" by (intro skip_none) auto
  moreover have "object_loop lib sd k [] ?t = (Inr (map (\<lambda>(key, v). (key, reads_as lib st v)) es), s)"
    using object_read [OF assms(1), of s k "[]"] assms(2) k
    unfolding stream_rounds_def to_stream.simps entry_text_pair by simp
  ultimately show ?thesis using object_start [of ?t False lib sd k] k unfolding to_stream.simps entry_text_pair
    by (simp add: bnd_def ret_def eof_is_parse_error_def catch_sx_def)
qed

theorem printed_read_back:
  assumes lib: "json_lib_ok lib"
  shows "printable lib st v \<Longrightarrow> read_back lib sd st v"
proof (induction v)
  case (Array vs)
  then have "\<forall>v \<in> set vs. read_back lib sd st v" by (simp add: list_all_iff)
  from array_value [OF this] Array.prems show ?case by (auto simp: read_back_def)
next
  case (Object es)
  have "\<forall>(key, v) \<in> set es. plain_text key \<and> read_back lib sd st v"
    using Object by (fastforce simp: list_all_iff)
  from object_value [OF this] Object.prems show ?case by (auto simp: read_back_def)
qed (auto simp: read_back_def stream_rounds_def large_text_def quoted_value uint64_text_unescaped int64_text_unescaped
    string_value blob_plain uint64_value [OF lib] int64_value [OF lib] constant_values)

end
