(* ===== verification/Json_Props.thy ===== *)
theory Json_Props
  imports Json_Facts
begin

section \<open>fc: JSON text, properties\<close>

text \<open>
  The parser ends on every text; what the printer writes is read back; the check of the depth
  does not bound the nesting.
\<close>

subsection \<open>The parser ends\<close>

text \<open>A reader that does not run out of rounds and takes at least \<open>d\<close> characters when it succeeds.\<close>

definition ends :: "nat \<Rightarrow> string \<Rightarrow> 'a result \<times> string \<Rightarrow> bool" where
  "ends d s r \<longleftrightarrow> (case r of (Inl e, t) \<Rightarrow> e \<noteq> Diverged | (Inr x, t) \<Rightarrow> length t + d \<le> length s)"

definition takes :: "nat \<Rightarrow> (string, 'a) sx \<Rightarrow> string \<Rightarrow> bool" where
  "takes d m s \<longleftrightarrow> ends d s (m s)"

lemmas takes_defs = takes_def ends_def

lemma ends_weaken: "ends d t r \<Longrightarrow> length t + c \<le> length s + d \<Longrightarrow> ends c s r"
  by (auto simp: ends_def split: prod.splits sum.splits)

lemma ends_simps [simp]:
  "ends d s (Inl e, t) \<longleftrightarrow> e \<noteq> Diverged" "ends d s (Inr x, t) \<longleftrightarrow> length t + d \<le> length s"
  by (simp_all add: ends_def)

lemma takes_weaken: "takes d m s \<Longrightarrow> c \<le> d \<Longrightarrow> takes c m s"
  unfolding takes_def by (erule ends_weaken) simp

lemma takes_ret [intro!]: "takes 0 (ret x) s"
  by (simp add: takes_def ret_def)

lemma takes_raise: "e \<noteq> Diverged \<Longrightarrow> takes d (raise e) s"
  by (simp add: takes_def raise_def)

lemma takes_get [intro!]: "takes 1 in_get s"
  by (simp add: takes_defs in_get_def split: list.splits)

lemma takes_bnd:
  assumes "takes c m s" and "\<And>x t. m s = (Inr x, t) \<Longrightarrow> length t + c \<le> length s \<Longrightarrow> takes (d - c) (f x) t"
  shows "takes d (bnd m f) s"
  using assms by (fastforce simp: takes_defs bnd_def split: prod.splits sum.splits)

lemma takes_seq:
  assumes "takes c m s" and "\<And>t. length t + c \<le> length s \<Longrightarrow> takes (d - c) n t"
  shows "takes d (seq m n) s"
  unfolding seq_def using assms by (blast intro: takes_bnd)

lemma takes_peek:
  assumes "\<And>c t. s = c # t \<Longrightarrow> takes d (f c) s"
  shows "takes d (bnd in_peek f) s"
  using assms by (cases s) (simp_all add: takes_defs bnd_def in_peek_def)

lemma takes_get_seq: "(\<And>c t. s = c # t \<Longrightarrow> takes (d - 1) n t) \<Longrightarrow> takes d (seq in_get n) s"
  by (cases s) (auto simp: takes_defs seq_def bnd_def in_get_def split: prod.splits sum.splits)

lemma takes_skip: "takes 0 skip_white_space s"
proof -
  have "ends 0 s (skip_white_space_from b s)" for b
  proof (induction s arbitrary: b)
    case (Cons c s)
    from Cons [of True] have "ends 0 (c # s) (skip_white_space_from True s)" by (rule ends_weaken) simp
    then show ?case by simp
  qed simp
  then show ?thesis by (simp add: skip_white_space_def takes_def)
qed

lemma takes_escape: "takes 1 parse_escape s"
  unfolding parse_escape_def
  by (auto simp: takes_defs bnd_def seq_def in_peek_def in_get_def ret_def raise_def split: list.splits)

lemma escape_eof: "parse_escape s = (Inl e, t) \<Longrightarrow> length t \<le> length s"
  by (auto simp: parse_escape_def bnd_def seq_def in_peek_def in_get_def ret_def raise_def split: list.splits if_splits)

lemma escape_fails: "parse_escape s = (Inl e, t) \<Longrightarrow> e \<noteq> Diverged"
  using takes_escape [of s] by (simp add: takes_def)

lemma escape_takes: "parse_escape s = (Inr c, t) \<Longrightarrow> length t < length s"
  using takes_escape [of s] by (simp add: takes_def)

lemma takes_string_loop: "takes 0 (string_loop token) s"
  unfolding takes_def
proof (induction token s rule: string_loop.induct)
  case (1 token s)
  show ?case
  proof (cases s)
    case (Cons c t)
    have next_char: "ends 0 s (string_loop (token @ [c]) t)" if "c \<noteq> backslash" "c \<noteq> end_char" "c \<noteq> quote_char"
      using 1(2) [OF Cons that] by (rule ends_weaken) (simp add: Cons)
    have "ends 0 s (string_loop (token @ [d]) u)" if "c = backslash" "parse_escape s = (Inr d, u)" for d u
      using 1(1) [OF Cons that(1) that(2) [symmetric] refl] by (rule ends_weaken) (use escape_takes [OF that(2)] in simp)
    then have "ends 0 s (string_loop token s)" if "c = backslash"
      using that Cons escape_fails [of s] unfolding string_loop.simps [of token s]
      by (cases "parse_escape s"; cases "fst (parse_escape s)") auto
    moreover have "ends 0 s (string_loop token s)" if "c \<noteq> backslash"
      using that Cons next_char unfolding string_loop.simps [of token s] by simp
    ultimately show ?thesis by blast
  qed (simp add: string_loop.simps)
qed

lemma takes_token_loop: "takes 0 (token_loop token) s"
  unfolding takes_def
proof (induction token s rule: token_loop.induct)
  case (1 token s)
  show ?case
  proof (cases s)
    case (Cons c t)
    have "ends 0 s (token_loop (token @ [c]) t)"
      if "c \<noteq> backslash" "c \<notin> {tab_char, CHR '' '', null_char, newline_char}"
        "is_alnum c \<or> c \<in> {CHR ''_'', CHR ''-'', CHR ''.'', CHR '':'', CHR ''/''}"
      using 1(2) [OF Cons that] by (rule ends_weaken) (simp add: Cons)
    then have other: "ends 0 s (token_loop token s)" if "c \<noteq> backslash"
      using that Cons unfolding token_loop.simps [of token s] by simp
    have "ends 0 s (token_loop (token @ [d]) u)" if "c = backslash" "parse_escape s = (Inr d, u)" for d u
      using 1(1) [OF Cons that(1) that(2) [symmetric] refl] by (rule ends_weaken) (use escape_takes [OF that(2)] in simp)
    then have "ends 0 s (token_loop token s)" if "c = backslash"
      using that Cons escape_fails [of s] escape_eof [of s] unfolding token_loop.simps [of token s]
      by (cases "parse_escape s"; cases "fst (parse_escape s)") auto
    with other show ?thesis by blast
  qed (simp add: token_loop.simps)
qed

lemma takes_string: "takes 1 string_from_stream s"
  unfolding string_from_stream_def
proof (rule takes_peek)
  fix c t
  have "takes 1 (seq in_get (string_loop [])) s" by (rule takes_get_seq) (simp add: takes_string_loop)
  then show "takes 1 (if c \<noteq> quote_char then raise Parse_Error else seq in_get (string_loop [])) s"
    by (simp add: takes_raise)
qed

lemma takes_token: "takes 0 string_from_token s"
  by (simp add: string_from_token_def takes_token_loop)

lemma ends_number_loop: "ends 0 s (number_loop ss dot s)"
proof (induction ss dot s rule: number_loop.induct)
  case (2 ss dot c s)
  have "ends 0 (c # s) (number_loop (ss @ [c]) True s)" if "c \<noteq> null_char" "c = CHR ''.''" "\<not> dot"
    using 2(1) [OF that] by (rule ends_weaken) simp
  moreover have "ends 0 (c # s) (number_loop (ss @ [c]) dot s)" if "c \<noteq> null_char" "c \<noteq> CHR ''.''" "is_number_char c"
    using 2(2) [OF that] by (rule ends_weaken) simp
  moreover have "ends 0 (c # s) (case string_from_token (c # s) of (Inl e, t) \<Rightarrow> (Inl e, t) | (Inr w, t) \<Rightarrow> (Inr (Word (ss @ w)), t))"
    using takes_token [of "c # s"] by (auto simp: takes_def split: prod.splits sum.splits)
  ultimately show ?case by simp
qed simp

lemma number_value_ends: "number_value lib sd neg n \<noteq> Inl Diverged"
  by (auto simp: number_value_def rbind_def to_double_def to_uint64_def split: number_token.splits option.splits sum.splits)

lemma takes_lift: "r \<noteq> Inl Diverged \<Longrightarrow> takes 0 (lift_r r) s"
  by (cases r) (auto simp: takes_def lift_r_def)

lemma takes_number:
  assumes "c = CHR ''-'' \<or> c = CHR ''.'' \<or> is_number_char c"
  shows "takes 1 (number_from_stream lib sd) (c # s)"
proof (cases "c = CHR ''-''")
  case True
  have "takes 0 (bnd (number_loop [c] False) (\<lambda>n. lift_r (number_value lib sd True n))) s"
    by (rule takes_bnd [where c = 0]) (simp_all add: takes_def ends_number_loop takes_lift [unfolded takes_def] number_value_ends)
  then have "takes 1 (seq in_get (bnd (number_loop [c] False) (\<lambda>n. lift_r (number_value lib sd True n)))) (c # s)"
    by (intro takes_get_seq) simp
  with True show ?thesis by (simp add: number_from_stream_def takes_def bnd_def in_peek_def)
next
  case False
  have "ends 1 (c # s) (number_loop [] False (c # s))"
  proof -
    have "c \<noteq> null_char" using assms by (auto simp: is_number_char_def)
    then have "number_loop [] False (c # s) = number_loop [c] (c = CHR ''.'') s" using assms False by auto
    with ends_number_loop [of s "[c]" "c = CHR ''.''"] show ?thesis by (auto elim: ends_weaken)
  qed
  then have "takes 1 (bnd (number_loop [] False) (\<lambda>n. lift_r (number_value lib sd False n))) (c # s)"
    by (intro takes_bnd [where c = 1]) (simp_all add: takes_def takes_lift [unfolded takes_def] number_value_ends)
  with False show ?thesis by (simp add: number_from_stream_def takes_def bnd_def in_peek_def)
qed

lemma ends_word_loop: "ends 0 s (word_loop ss s)"
proof (induction ss s rule: word_loop.induct)
  case (2 ss c s)
  then have "ends 0 (c # s) (word_loop (ss @ [c]) s)" if "c \<in> set ''nultrefas''"
    using that by (intro ends_weaken [OF 2]) simp_all
  then show ?case by simp
qed simp

lemma takes_word:
  assumes "c \<in> set ''ntf''"
  shows "takes 1 token_from_stream (c # s)"
proof -
  have "word_loop [] (c # s) = word_loop [c] s" using assms by auto
  then have w: "takes 1 (word_loop []) (c # s)"
    unfolding takes_def using ends_word_loop [of s "[c]"] by (metis ends_weaken add.commute le_refl length_Cons Suc_eq_plus1 plus_1_eq_Suc add_0)
  have "takes 0 (bnd string_from_token (\<lambda>w. ret (f w))) t" for f :: "string \<Rightarrow> variant" and t
    by (rule takes_bnd [OF takes_token]) auto
  then show ?thesis unfolding token_from_stream_def
    by (intro takes_bnd [OF w]) (auto intro: takes_raise split: prod.splits)
qed

lemma takes_eof_is_parse_error: "takes d m s \<Longrightarrow> takes d (eof_is_parse_error m) s"
  by (auto simp: takes_def eof_is_parse_error_def catch_sx_def raise_def split: prod.splits sum.splits)

lemma skip_takes: "skip_white_space s = (Inr b, t) \<Longrightarrow> length t + (if b then 1 else 0) \<le> length s"
proof -
  have "skip_white_space_from b' s = (Inr b, t) \<Longrightarrow> length t + (if b \<and> \<not> b' then 1 else 0) \<le> length s" for b'
    by (induction s arbitrary: b') (fastforce split: if_splits)+
  from this [of False] show "skip_white_space s = (Inr b, t) \<Longrightarrow> ?thesis" by (simp add: skip_white_space_def)
qed

lemma takes_object_loop:
  assumes v: "\<And>t. length t + 2 \<le> length s \<Longrightarrow> takes 1 (variant_from_stream lib sd k) t"
    and o: "\<And>t obj. length t < length s \<Longrightarrow> takes 1 (object_loop lib sd k obj) t"
  shows "takes 1 (object_loop lib sd (Suc k) obj) s"
  unfolding object_loop.simps
proof (rule takes_peek)
  fix c u
  assume s: "s = c # u"
  let ?read = "\<lambda>key. bnd (variant_from_stream lib sd k) (\<lambda>v. seq skip_white_space (object_loop lib sd k (object_append key v obj)))"
  let ?entry = "bnd string_from_stream (\<lambda>key. seq skip_white_space (bnd in_peek (\<lambda>d.
      if d \<noteq> CHR '':'' then raise Parse_Error else seq in_get (?read key))))"
  let ?turn = "bnd skip_white_space (\<lambda>skipped. if skipped then object_loop lib sd k obj else ?entry)"
  have read_takes: "takes 0 (?read key) t" if "length t + 2 \<le> length s" for key t
  proof (rule takes_bnd [OF v [OF that]])
    fix w and r :: string
    assume r: "length r + 1 \<le> length t"
    have "takes 0 (seq skip_white_space (object_loop lib sd k (object_append key w obj))) r"
      by (rule takes_seq [OF takes_skip]) (use r that in \<open>auto intro: takes_weaken [OF o]\<close>)
    then show "takes (0 - 1) (seq skip_white_space (object_loop lib sd k (object_append key w obj))) r" by simp
  qed
  have entry: "takes 1 ?entry t" if "length t \<le> length s" for t
  proof (rule takes_bnd [OF takes_string], simp, rule takes_seq [OF takes_skip], simp, rule takes_peek)
    fix key d and r q z :: string
    assume "Suc (length r) \<le> length t" "length q \<le> length r" "q = d # z"
    then have "takes 0 (seq in_get (?read key)) q" using that by (intro takes_get_seq) (auto intro!: read_takes)
    then show "takes 0 (if d \<noteq> CHR '':'' then raise Parse_Error else seq in_get (?read key)) q" by (simp add: takes_raise)
  qed
  have turn: "takes 1 ?turn s"
    by (rule takes_bnd [OF takes_skip]) (auto dest!: skip_takes intro!: o entry split: if_splits simp del: One_nat_def)
  have "takes 1 (seq in_get (object_loop lib sd k obj)) s" "takes 1 (seq in_get (ret obj)) s"
    using o [of u obj] s by (auto intro!: takes_get_seq takes_ret intro: takes_weaken)
  with turn show "takes 1 (if c = CHR ''}'' then seq in_get (ret obj)
      else if c = CHR '','' then seq in_get (object_loop lib sd k obj) else ?turn) s" by simp
qed

lemma takes_array_loop:
  assumes v: "\<And>t. length t \<le> length s \<Longrightarrow> takes 1 (variant_from_stream lib sd k) t"
    and o: "\<And>t ar. length t < length s \<Longrightarrow> takes 1 (array_loop lib sd k ar) t"
  shows "takes 1 (array_loop lib sd (Suc k) ar) s"
  unfolding array_loop.simps
proof (rule takes_peek)
  fix c u
  assume s: "s = c # u"
  let ?read = "bnd (variant_from_stream lib sd k) (\<lambda>v. seq skip_white_space (array_loop lib sd k (ar @ [v])))"
  let ?turn = "bnd skip_white_space (\<lambda>skipped. if skipped then array_loop lib sd k ar else ?read)"
  have entry: "takes 1 ?read t" if "length t \<le> length s" for t
  proof (rule takes_bnd [OF v [OF that]])
    fix w and r :: string
    assume r: "length r + 1 \<le> length t"
    have "takes 0 (seq skip_white_space (array_loop lib sd k (ar @ [w]))) r"
      by (rule takes_seq [OF takes_skip]) (use r that in \<open>auto intro: takes_weaken [OF o]\<close>)
    then show "takes (1 - 1) (seq skip_white_space (array_loop lib sd k (ar @ [w]))) r" by simp
  qed
  have turn: "takes 1 ?turn s"
    by (rule takes_bnd [OF takes_skip]) (auto dest!: skip_takes intro!: o entry split: if_splits simp del: One_nat_def)
  have "takes 1 (seq in_get (array_loop lib sd k ar)) s" "takes 1 (seq in_get (ret ar)) s"
    using o [of u ar] s by (auto intro!: takes_get_seq takes_ret intro: takes_weaken)
  with turn show "takes 1 (if c = CHR '']'' then seq in_get (ret ar)
      else if c = CHR '','' then seq in_get (array_loop lib sd k ar) else ?turn) s" by simp
qed

lemma takes_skip_seq: "(\<And>t. length t \<le> length s \<Longrightarrow> takes d n t) \<Longrightarrow> takes d (seq skip_white_space n) s"
  by (rule takes_seq [OF takes_skip]) simp

lemma takes_variant:
  assumes o: "\<And>t obj. length t < length s \<Longrightarrow> takes 1 (object_loop lib sd k obj) t"
    and a: "\<And>t ar. length t < length s \<Longrightarrow> takes 1 (array_loop lib sd k ar) t"
  shows "takes 1 (variant_from_stream lib sd (Suc k)) s"
  unfolding variant_from_stream.simps
proof (rule takes_skip_seq, rule takes_skip_seq, rule takes_peek)
  fix c and r t u :: string
  assume "length r \<le> length s" "length t \<le> length r" and t: "t = c # u"
  then have less: "length u < length s" by simp
  have obj: "takes 1 (seq in_get (seq skip_white_space (object_loop lib sd k []))) t"
    using less t by (intro takes_get_seq takes_seq [OF takes_skip]) (auto intro: takes_weaken [OF o])
  have arr: "takes 1 (seq in_get (seq skip_white_space (array_loop lib sd k []))) t"
    using less t by (intro takes_get_seq takes_seq [OF takes_skip]) (auto intro: takes_weaken [OF a])
  have "takes 1 (bnd (eof_is_parse_error (seq in_get (seq skip_white_space (object_loop lib sd k [])))) (\<lambda>es. ret (Object es))) t"
    "takes 1 (bnd (seq in_get (seq skip_white_space (array_loop lib sd k []))) (\<lambda>vs. ret (Array vs))) t"
    "takes 1 (bnd string_from_stream (\<lambda>s. ret (Str s))) t"
    using takes_bnd [OF takes_eof_is_parse_error [OF obj], of 1 "\<lambda>es. ret (Object es)"]
      takes_bnd [OF arr, of 1 "\<lambda>vs. ret (Array vs)"] takes_bnd [OF takes_string, of t 1 "\<lambda>s. ret (Str s)"] by auto
  moreover have "takes 1 (seq string_from_token (raise Parse_Error)) t"
    by (rule takes_seq [OF takes_token]) (simp add: takes_raise)
  ultimately show "takes 1 (if c = quote_char then bnd string_from_stream (\<lambda>s. ret (Str s))
     else if c = CHR ''{''
     then bnd (eof_is_parse_error (seq in_get (seq skip_white_space (object_loop lib sd k [])))) (\<lambda>es. ret (Object es))
     else if c = CHR ''['' then bnd (seq in_get (seq skip_white_space (array_loop lib sd k []))) (\<lambda>vs. ret (Array vs))
     else if c = CHR ''-'' \<or> c = CHR ''.'' \<or> is_number_char c then number_from_stream lib sd
     else if c \<in> set ''ntf'' then token_from_stream
     else if c \<in> {end_char, CHR 0xFF, null_char} then raise Eof
     else seq string_from_token (raise Parse_Error)) t"
    using takes_number [of c lib sd u] takes_word [of c u] takes_raise [of Eof 1 t] t by (auto simp del: One_nat_def)
qed

lemma descent_ends:
  "(stream_rounds s \<le> k \<longrightarrow> takes 1 (variant_from_stream lib sd k) s) \<and>
   (stream_rounds s + 1 \<le> k \<longrightarrow> (\<forall>obj. takes 1 (object_loop lib sd k obj) s) \<and> (\<forall>ar. takes 1 (array_loop lib sd k ar) s))"
proof (induction k arbitrary: s)
  case 0
  show ?case by (simp add: stream_rounds_def)
next
  case (Suc k)
  have "takes 1 (variant_from_stream lib sd k) t" if "2 * length t + 1 \<le> k" for t
    using Suc that by (simp add: stream_rounds_def)
  moreover have "takes 1 (object_loop lib sd k obj) t" "takes 1 (array_loop lib sd k ar) t" if "2 * length t + 2 \<le> k" for t obj ar
    using Suc that by (simp_all add: stream_rounds_def)
  ultimately show ?case unfolding stream_rounds_def
    by (auto intro!: takes_variant takes_object_loop takes_array_loop simp del: One_nat_def)
qed

text \<open>
  C31: The parser ends: on every text, from every stream, it returns a value or an exception of the
  code within twice as many rounds as there are characters, and one more.
\<close>
theorem json_parser_ends:
  "json_from_string lib sd s \<noteq> Inl Diverged \<and> fst (variant_from_stream lib sd (stream_rounds s + k) s) \<noteq> Inl Diverged"
proof -
  have v: "fst (variant_from_stream lib sd (stream_rounds s + k) s) \<noteq> Inl Diverged" for k
    using descent_ends [of s "stream_rounds s + k" lib sd] by (auto simp: takes_def ends_def split: prod.splits sum.splits)
  have d: "string_depth_from o' a s \<noteq> Inl Diverged" for o' a
    by (induction s arbitrary: o' a) (simp_all add: Let_def)
  then have "check_string_depth s \<noteq> Inl Diverged" by (simp add: check_string_depth_def)
  with v [of 0] v [of k] show ?thesis by (cases "check_string_depth s") (auto simp: json_from_string_def)
qed

subsection \<open>Printing and reading\<close>

text \<open>
  C35: What \<open>json::to_string\<close> writes, in either format, \<open>json::from_string\<close> reads back: the same strings, keys,
  arrays and objects, in the same order, and the same numbers, of the type their sign gives them
  or as strings if they are large and the format is the default. The strings may hold any characters
  but the control characters other than tabulator, newline and return, and the text must pass
  the check of its brackets.
\<close>
theorem json_text_round_trip:
  assumes "json_lib_ok lib" and "printable lib st v" and "check_string_depth (to_stream lib st v) = Inr ()"
  shows "json_from_string lib sd (to_stream lib st v) = Inr (reads_as lib st v)"
  using read_backD [OF printed_read_back [OF assms(1,2)], of "[]" _ sd] assms(3)
  by (simp add: json_from_string_def delimited_def)

definition demo_json_lib :: json_lib where
  "demo_json_lib = \<lparr>trim = (\<lambda>s. s), lex_int64 = (\<lambda>s. if hd s = CHR ''-'' then Some (- word_of_nat (dec_value (tl s))) else None),
     lex_uint64 = (\<lambda>s. Some (word_of_nat (dec_value s))), lex_double = (\<lambda>s. None), double_text = (\<lambda>d. ''0.0''),
     double_of_int64 = (\<lambda>i. i), double_of_uint64 = (\<lambda>u. u), int64_of_double = (\<lambda>d. d), uint64_of_double = (\<lambda>d. d),
     double_eq = (=), double_less = (<), double_leq = (\<le>), double_plus = (+), double_minus = (-), double_times = (*),
     double_divide = (div)\<rparr>"

lemma demo_json_lib_ok: "json_lib_ok demo_json_lib"
  by (simp add: json_lib_ok_def demo_json_lib_def dec_value_decimal)

definition demo_variant :: variant where
  "demo_variant = Object [(''id'', Uint64 7), (''params'', Array [Str [quote_char, CHR ''a'', newline_char], Int64 (- 3), Null, Blob [1, 2]]),
     (''ok'', Bool True)]"

lemma demo_variant_printable: "printable demo_json_lib True demo_variant"
  by (simp add: demo_variant_def plain_text_def plain_char_def)

lemma demo_variant_depth: "check_string_depth (to_stream demo_json_lib True demo_variant) = Inr ()"
  by code_simp

theorem json_text_round_trip_witness:
  "json_from_string demo_json_lib False (to_stream demo_json_lib True demo_variant) = Inr (reads_as demo_json_lib True demo_variant)"
  by (rule json_text_round_trip [OF demo_json_lib_ok demo_variant_printable demo_variant_depth])

text \<open>
  The control characters: the printer writes \<open>\b\<close>, \<open>\f\<close> and \<open>\u0001\<close>, of which the parser only drops the
  backslash.
\<close>
lemma control_characters_lost:
  "json_from_string lib sd (to_stream lib st (Str [CHR 0x08])) = Inr (Str ''b'')"
  "json_from_string lib sd (to_stream lib st (Str [CHR 0x01])) = Inr (Str ''u0001'')"
proof -
  have e: "escape_string [CHR 0x08] = [quote_char, backslash, CHR ''b'', quote_char]"
    "escape_string [CHR 0x01] = [quote_char, backslash, CHR ''u'', CHR ''0'', CHR ''0'', CHR ''0'', CHR ''1'', quote_char]"
    by code_simp+
  show "json_from_string lib sd (to_stream lib st (Str [CHR 0x08])) = Inr (Str ''b'')"
    using string_dispatch [of lib sd 8 "[backslash, CHR ''b'', quote_char]"]
    by (simp add: e json_from_string_def check_string_depth_def stream_rounds_def string_from_stream_def bnd_def seq_def
        in_peek_def in_get_def ret_def string_escaped string_end unescape_def)
  show "json_from_string lib sd (to_stream lib st (Str [CHR 0x01])) = Inr (Str ''u0001'')"
    using string_dispatch [of lib sd 16 "[backslash, CHR ''u'', CHR ''0'', CHR ''0'', CHR ''0'', CHR ''1'', quote_char]"]
    by (simp add: e json_from_string_def check_string_depth_def stream_rounds_def string_from_stream_def bnd_def seq_def
        in_peek_def in_get_def ret_def string_escaped string_end string_plain unescaped_char_def unescape_def)
qed

text \<open>
  The check of the depth counts the brackets inside strings too: after a string of closing brackets,
  arrays may be nested to any depth.
\<close>

fun nested :: "nat \<Rightarrow> variant" where
  "nested 0 = Array []"
| "nested (Suc n) = Array [nested n]"

definition deep :: "nat \<Rightarrow> variant" where
  "deep n = Array [Str (replicate n (CHR '']'')), nested n]"

lemma nested_text: "to_stream lib st (nested n) = replicate (Suc n) (CHR ''['') @ replicate (Suc n) (CHR '']'')"
  by (induction n) (simp_all add: replicate_append_same [symmetric])

lemma closing_text: "concat (map escape_char (replicate n (CHR '']''))) = replicate n (CHR '']'')"
  by (induction n) (simp_all add: escape_char_def)

lemma depth_closing: "a < 100 \<Longrightarrow> string_depth_from 0 a (replicate n (CHR '']'') @ s) = string_depth_from 0 (a - int n) s"
  by (induction n arbitrary: a) (simp_all add: algebra_simps)

lemma depth_opening: "a + int n < 100 \<Longrightarrow> string_depth_from 0 a (replicate n (CHR ''['') @ s) = string_depth_from 0 (a + int n) s"
  by (induction n arbitrary: a) (simp_all add: algebra_simps)

lemma nested_printable: "printable lib st (nested n)"
  by (induction n) simp_all

lemma depth_check_passed:
  assumes "json_lib_ok lib"
  shows "check_string_depth (to_stream lib st (deep n)) = Inr () \<and>
    json_from_string lib sd (to_stream lib st (deep n)) = Inr (deep n)"
proof -
  have t: "to_stream lib st (deep n) = ''['' @ [quote_char] @ replicate n (CHR '']'') @ [quote_char, CHR '',''] @
      replicate (Suc n) (CHR ''['') @ replicate (Suc n) (CHR '']'') @ '']''"
    using closing_text [of n] by (simp add: deep_def escape_string_def nested_text)
  let ?close = "replicate (Suc n) (CHR '']'') @ '']''" and ?open = "replicate (Suc n) (CHR ''['')"
  have "string_depth_from 0 1 (replicate n (CHR '']'') @ [quote_char, CHR '',''] @ ?open @ ?close) =
      string_depth_from 0 (1 - int n) ([quote_char, CHR '',''] @ ?open @ ?close)" by (rule depth_closing) simp
  also have "\<dots> = string_depth_from 0 (1 - int n) (?open @ ?close)" by simp
  also have "\<dots> = string_depth_from 0 (1 - int n + int (Suc n)) ?close" by (rule depth_opening) simp
  also have "\<dots> = string_depth_from 0 (1 - int n + int (Suc n) - int (Suc n)) '']''" by (rule depth_closing) simp
  finally have check: "check_string_depth (to_stream lib st (deep n)) = Inr ()"
    unfolding t check_string_depth_def by simp
  have "printable lib st (deep n)"
    by (simp add: deep_def nested_printable plain_text_def plain_char_def list_all_iff)
  moreover have "reads_as lib st (nested m) = nested m" for m by (induction m) simp_all
  then have "reads_as lib st (deep n) = deep n" by (simp add: deep_def)
  ultimately show ?thesis
    using read_backD [OF printed_read_back [OF assms], of st "deep n" "[]" _ sd] check
    by (simp add: json_from_string_def delimited_def)
qed

end
