(* ===== verification/Json_Rpc_Props.thy ===== *)
theory Json_Rpc_Props
  imports Json_Rpc Json_Props
begin

section \<open>The JSON-RPC plugin: properties\<close>

text \<open>
  Every request gets a response that holds a result or an error, under the id of the request; a
  call goes from the text of the request through the registered method to the text of its value.
\<close>

subsection \<open>The shape of a response\<close>

definition id_of :: "variant \<Rightarrow> variant" where
  "id_of msg =
     (case msg of
        Object es \<Rightarrow>
          (case object_find ''id'' es of
             Some v \<Rightarrow> if is_int64 v \<or> is_uint64 v \<or> is_string v then v else Null
           | None \<Rightarrow> Null)
      | _ \<Rightarrow> Null)"

definition one_answer :: "json_rpc_response \<Rightarrow> bool" where
  "one_answer r \<longleftrightarrow> (result r = None) \<noteq> (error_part r = None)"

text \<open>
  What a statement makes of a response that is still empty: an answer, or an exception that leaves
  it empty.
\<close>

definition answers :: "('s, unit) rpc_sx \<Rightarrow> bool" where
  "answers m \<longleftrightarrow> (\<forall>s r. result r = None \<longrightarrow> error_part r = None \<longrightarrow>
     (case m (s, r) of
        (Inl e, (t, q)) \<Rightarrow> q = r
      | (Inr _, (t, q)) \<Rightarrow> one_answer q \<and> response_id q = response_id r))"

lemma answersI:
  assumes "\<And>s r x t q. result r = None \<Longrightarrow> error_part r = None \<Longrightarrow> m (s, r) = (x, (t, q)) \<Longrightarrow>
    (case x of Inl e \<Rightarrow> q = r | Inr _ \<Rightarrow> one_answer q \<and> response_id q = response_id r)"
  shows "answers m"
  unfolding answers_def using assms by (fastforce split: prod.splits sum.splits)

lemma answersD:
  assumes "answers m" "m (s, r) = (x, (t, q))" "result r = None" "error_part r = None"
  shows "(case x of Inl e \<Rightarrow> q = r | Inr _ \<Rightarrow> one_answer q \<and> response_id q = response_id r)"
  using assms(1) [unfolded answers_def, rule_format, OF assms(3,4), of s] assms(2) by (cases x) simp_all

lemma answers_raise: "answers (raise e)"
  by (rule answersI) (auto simp: raise_def)

lemma answers_set_error: "answers (set_error c m d)"
  by (rule answersI) (auto simp: set_error_def on_response_def update_def one_answer_def)

lemma answers_fc_error: "answers (set_fc_error p c e)"
  by (simp add: set_fc_error_def answers_set_error)

lemma answers_catch:
  assumes m: "answers m" and h: "\<And>e. answers (h e)"
  shows "answers (catch_sx m h)"
proof (rule answersI)
  fix s r x t q
  assume r: "result r = None" "error_part r = None" and run: "catch_sx m h (s, r) = (x, (t, q))"
  obtain y u v where y: "m (s, r) = (y, (u, v))" by (metis surj_pair)
  from answersD [OF m y r] y run answersD [OF h _ r, of _ u x t q]
  show "case x of Inl e \<Rightarrow> q = r | Inr _ \<Rightarrow> one_answer q \<and> response_id q = response_id r"
    by (cases y) (auto simp: catch_sx_def)
qed

lemma answers_if: "answers m \<Longrightarrow> answers n \<Longrightarrow> answers (if b then m else n)"
  by simp

lemma answers_call: "answers (rpc_call p (Some f, v))"
proof -
  have "answers (bnd (in_app (f v)) (\<lambda>v. on_response (\<lambda>r. r\<lparr>result := Some v\<rparr>)))"
    by (rule answersI)
      (auto simp: bnd_def in_app_def on_response_def update_def one_answer_def split: prod.splits sum.splits)
  then show ?thesis unfolding rpc_call_def
    by (auto intro!: answers_catch answers_set_error answers_fc_error answers_raise)
qed

lemma answers_error_no_call: "answers (seq (set_fc_error p c e) (rpc_call q (None, v)))"
  by (rule answersI)
    (auto simp: seq_def bnd_def set_fc_error_def set_error_def on_response_def update_def rpc_call_def catch_sx_def ret_def one_answer_def)

lemma answers_method: "answers (rpc_method lib p m request)"
  unfolding rpc_method_def catch_assert_def
  by (intro answers_catch)
    (auto intro: answers_call answers_error_no_call answers_raise answers_set_error answers_fc_error split: sum.splits)

lemma answers_jsonrpc:
  assumes "logger p = None"
  shows "answers (rpc_jsonrpc lib p request)"
proof -
  have "rpc_log p request = (\<lambda>sr. (Inr (), sr))" for request
    using assms by (simp add: rpc_log_def bnd_def gets_def ret_def fun_eq_iff)
  then have "seq m (rpc_log p request) = m" for m :: "('a, unit) rpc_sx"
    by (auto simp: seq_def bnd_def fun_eq_iff split: prod.splits sum.splits)
  then show ?thesis unfolding rpc_jsonrpc_def
    by (auto intro: answers_method answers_set_error split: option.splits)
qed

lemma answers_server_error: "answers (server_error p e)"
  by (simp add: server_error_def answers_raise answers_set_error answers_fc_error)

lemma handlers_keep: "set_error c m d (s, r) = (Inr (), (s, r\<lparr>error_part := Some \<lparr>code = c, message = m, data = d\<rparr>\<rparr>))"
  by (simp add: set_error_def on_response_def update_def)

definition rpc_inner :: "json_lib \<Rightarrow> 's json_rpc_plugin \<Rightarrow> entries \<Rightarrow> ('s, unit) rpc_sx" where
  "rpc_inner lib p request =
     catch_sx
       (bnd (gets (\<lambda>sr. error_part (snd sr))) (\<lambda>e. if e = None then rpc_jsonrpc lib p request else ret ()))
       (server_error p)"

lemma server_error_raises: "server_error p e (s, r) = (Inl d, u) \<Longrightarrow> d = e \<and> no_exception e"
  by (auto simp: server_error_def raise_def set_fc_error_def handlers_keep split: if_splits)

lemma inner_raises:
  assumes "rpc_inner lib p request (s, r) = (Inl e, u)"
  shows "no_exception e"
  using assms unfolding rpc_inner_def catch_sx_def
  by (auto dest: server_error_raises split: prod.splits sum.splits)

lemma inner_answers:
  assumes "logger p = None" and "rpc_inner lib p request (s, r) = (Inr x, (t, q))" and "result r = None"
  shows "one_answer q \<and> response_id q = response_id r"
proof (cases "error_part r")
  case None
  have "answers (catch_sx (rpc_jsonrpc lib p request) (server_error p))"
    by (intro answers_catch answers_jsonrpc [OF assms(1)] answers_server_error)
  moreover have "catch_sx (rpc_jsonrpc lib p request) (server_error p) (s, r) = (Inr x, (t, q))"
    using assms(2) None by (simp add: rpc_inner_def catch_sx_def bnd_def gets_def)
  ultimately show ?thesis using assms(3) None by (auto dest: answersD)
next
  case (Some e)
  with assms(2,3) show ?thesis by (simp add: rpc_inner_def catch_sx_def bnd_def gets_def ret_def one_answer_def)
qed

lemma rpc_id_run:
  "\<exists>r. rpc_id request (s, new_response) = (Inr (), (s, r)) \<and> result r = None \<and> response_id r = id_of (Object request)"
  by (auto simp: rpc_id_def id_of_def handlers_keep on_response_def update_def ret_def new_response_def split: option.splits)

lemma rpc_run:
  "(\<exists>es r. msg = Object es \<and> rpc_id es (s, new_response) = (Inr (), (s, r)) \<and> result r = None \<and> response_id r = id_of msg \<and>
      rpc_body lib p msg (s, new_response) =
        (case rpc_inner lib p es (s, r) of (Inl e, u) \<Rightarrow> (Inl e, u) | (Inr x, u) \<Rightarrow> (Inr x, u))) \<or>
   ((\<forall>es. msg \<noteq> Object es) \<and> id_of msg = Null \<and> rpc_body lib p msg (s, new_response) = set_fc_error p JSON_RPC_PARSE_ERROR Bad_Cast (s, new_response))"
proof (cases "\<exists>es. msg = Object es")
  case True
  then obtain es where es: "msg = Object es" by blast
  from rpc_id_run [of es s] obtain r where
    r: "rpc_id es (s, new_response) = (Inr (), (s, r))" "result r = None" "response_id r = id_of msg" by (auto simp: es)
  have "rpc_body lib p msg (s, new_response) =
      (case rpc_inner lib p es (s, r) of (Inl e, u) \<Rightarrow> (Inl e, u) | (Inr x, u) \<Rightarrow> (Inr x, u))"
  proof -
    obtain x u where Pair: "rpc_inner lib p es (s, r) = (x, u)" by (metis surj_pair)
    have raised: "server_error p e u = (Inl e, u) \<and> e \<noteq> Parse_Error \<and> e \<noteq> Bad_Cast" if "x = Inl e" for e
      using inner_raises [of lib p es s r e u] Pair that
      by (auto simp: server_error_def raise_def no_exception_def)
    have "rpc_body lib p msg (s, new_response) =
        (case rpc_inner lib p es (s, r) of
           (Inl e, u) \<Rightarrow> (if e = Parse_Error \<or> e = Bad_Cast then set_fc_error p JSON_RPC_PARSE_ERROR e else server_error p e) u
         | (Inr x, u) \<Rightarrow> (Inr x, u))"
      unfolding rpc_body_def rpc_inner_def [symmetric]
      using r(1) by (simp add: catch_sx_def bnd_def seq_def lift_r_def get_object_entries_def es)
    with Pair raised show ?thesis by (cases x) auto
  qed
  with es r show ?thesis by blast
next
  case False
  then have "get_object_entries msg = Inl Bad_Cast" by (auto simp: get_object_entries_def split: variant.splits)
  then have "rpc_body lib p msg (s, new_response) = set_fc_error p JSON_RPC_PARSE_ERROR Bad_Cast (s, new_response)"
    by (simp add: rpc_body_def catch_sx_def bnd_def lift_r_def)
  moreover have "id_of msg = Null" using False by (auto simp: id_of_def split: variant.splits)
  ultimately show ?thesis using False by blast
qed

text \<open>
  C30: Responses. If no logger is set, the answer to any message holds a result or an error and never
  both, under the id of the request when that is a number or a string and null otherwise; no
  exception of the registered methods leaves \<open>rpc\<close>.
\<close>
theorem rpc_response:
  assumes "logger p = None"
  shows "case rpc lib p msg s of
      (Inl e, t) \<Rightarrow> no_exception e
    | (Inr r, t) \<Rightarrow> (result r = None) \<noteq> (error_part r = None) \<and> response_id r = id_of msg"
proof -
  consider es r where "msg = Object es" "result r = None" "response_id r = id_of msg"
      "rpc_body lib p msg (s, new_response) =
        (case rpc_inner lib p es (s, r) of (Inl e, u) \<Rightarrow> (Inl e, u) | (Inr x, u) \<Rightarrow> (Inr x, u))"
    | "id_of msg = Null" "rpc_body lib p msg (s, new_response) = set_fc_error p JSON_RPC_PARSE_ERROR Bad_Cast (s, new_response)"
    using rpc_run [of msg s lib p] by blast
  then show ?thesis
  proof cases
    case 1
    show ?thesis
    proof -
      obtain x u where "rpc_inner lib p es (s, r) = (x, u)" by (metis surj_pair)
      with 1 inner_raises [of lib p es s r _ u] inner_answers [OF assms, of lib es s r _ "fst u" "snd u"] show ?thesis
        by (cases x; cases u) (auto simp: rpc_def one_answer_def)
    qed
  next
    case 2
    then show ?thesis by (simp add: rpc_def set_fc_error_def handlers_keep new_response_def)
  qed
qed

subsection \<open>A call, from text to text\<close>

lemma split_at_none: "d \<notin> set s \<Longrightarrow> split_at d s = [s]"
  by (induction s) auto

lemma split_at_one: "d \<notin> set s \<Longrightarrow> d \<notin> set t \<Longrightarrow> split_at d (s @ d # t) = [s, t]"
  by (induction s) (auto simp: split_at_none)

lemma not_call: "CHR ''.'' \<in> set s \<Longrightarrow> s \<noteq> ''call''"
  by auto

definition request :: "string \<Rightarrow> variant \<Rightarrow> variant \<Rightarrow> variant" where
  "request m params i =
     Object [(''jsonrpc'', Str ''2.0''), (''method'', Str m), (''params'', params), (''id'', i)]"

lemma c_str_keys:
  "c_str ''jsonrpc'' = ''jsonrpc''" "c_str ''method'' = ''method''" "c_str ''params'' = ''params''" "c_str ''id'' = ''id''"
  by (simp_all add: c_str_def)

definition request_entries :: "string \<Rightarrow> variant \<Rightarrow> variant \<Rightarrow> entries" where
  "request_entries m params i = [(''jsonrpc'', Str ''2.0''), (''method'', Str m), (''params'', params), (''id'', i)]"

lemma request_parts:
  "has_string ''jsonrpc'' (request_entries m v i) = Some ''2.0''" "has_string ''method'' (request_entries m v i) = Some m"
  "object_at ''params'' (request_entries m v i) = Inr v" "object_contains ''params'' (request_entries m v i)"
  "object_find ''id'' (request_entries m v i) = Some i"
  by (simp_all add: has_string_def object_find_def object_at_def object_contains_def c_str_keys request_entries_def)

lemma call_params:
  assumes "CHR ''.'' \<notin> set api" and "CHR ''.'' \<notin> set m" and "find_api_method p api m = Inr f"
  shows "process_params lib p (api @ ''.'' @ m) (request_entries (api @ ''.'' @ m) v i) = Inr (f, v)"
proof -
  have "api @ ''.'' @ m \<noteq> ''call''" by (rule not_call) simp
  moreover have "split_at (CHR ''.'') (api @ ''.'' @ m) = [api, m]" using split_at_one [OF assms(1,2)] by simp
  ultimately show ?thesis using assms(3) unfolding process_params_def by (simp add: request_parts Let_def)
qed

lemma rpc_calls:
  assumes log: "logger p = None" and api: "CHR ''.'' \<notin> set api" "CHR ''.'' \<notin> set m" "find_api_method p api m = Inr f"
    and run: "f v s = (Inr w, t)" and i: "is_int64 i \<or> is_uint64 i \<or> is_string i"
  shows "rpc lib p (request (api @ ''.'' @ m) v i) s =
    (Inr \<lparr>result = Some w, error_part = None, response_id = i\<rparr>, t)"
proof -
  let ?es = "request_entries (api @ ''.'' @ m) v i"
  have id_step: "rpc_id ?es (s, new_response) = (Inr (), (s, new_response\<lparr>response_id := i\<rparr>))"
    using i by (simp add: rpc_id_def request_parts on_response_def update_def)
  have nc: "api @ ''.'' @ m \<noteq> ''call''" by (rule not_call) simp
  have "rpc_method lib p (api @ ''.'' @ m) ?es (s, new_response\<lparr>response_id := i\<rparr>) =
      (Inr (), (t, \<lparr>result = Some w, error_part = None, response_id = i\<rparr>))"
    using run nc unfolding rpc_method_def call_params [OF api]
    by (simp add: catch_assert_def catch_sx_def rpc_call_def bnd_def in_app_def on_response_def update_def new_response_def)
  then have "rpc_jsonrpc lib p ?es (s, new_response\<lparr>response_id := i\<rparr>) =
      (Inr (), (t, \<lparr>result = Some w, error_part = None, response_id = i\<rparr>))"
    using log by (simp add: rpc_jsonrpc_def request_parts seq_def bnd_def rpc_log_def gets_def ret_def)
  then have "rpc_inner lib p ?es (s, new_response\<lparr>response_id := i\<rparr>) =
      (Inr (), (t, \<lparr>result = Some w, error_part = None, response_id = i\<rparr>))"
    by (simp add: rpc_inner_def catch_sx_def bnd_def gets_def new_response_def)
  then show ?thesis using rpc_run [of "Object ?es" s lib p] id_step
    by (simp add: rpc_def request_def request_entries_def)
qed

lemma call_run:
  assumes "json_from_string lib False body = Inr (Object es)" and "rpc lib p (Object es) s = (Inr r, t)"
  shows "json_rpc_call lib p body s = (Inr (response_text lib r), t)"
  using assms by (simp add: json_rpc_call_def call_body_def catch_sx_def bnd_def lift_r_def ret_def)

text \<open>
  C34: A call, from text to text. The text of a request for a registered method, as the printer writes
  it, is answered with the text of the response that holds what the method returns for the
  parameters read back, under the id of the request, and leaves the state the method leaves.
\<close>
theorem call_answered:
  assumes "json_lib_ok lib" and "logger p = None"
    and "CHR ''.'' \<notin> set api" and "CHR ''.'' \<notin> set m" and "find_api_method p api m = Inr f"
    and "printable lib True (request (api @ ''.'' @ m) v i)" and "is_int64 i \<or> is_uint64 i \<or> is_string i"
    and "check_string_depth (json_to_string lib (request (api @ ''.'' @ m) v i)) = Inr ()"
    and "f (reads_as lib True v) s = (Inr w, t)"
  shows "json_rpc_call lib p (json_to_string lib (request (api @ ''.'' @ m) v i)) s =
    (Inr (json_to_string lib (Object [(''jsonrpc'', Str ''2.0''), (''result'', w), (''error'', Null), (''id'', reads_as lib True i)])), t)"
proof -
  let ?r = "request (api @ ''.'' @ m) v i"
  have "json_from_string lib False (json_to_string lib ?r) = Inr (reads_as lib True ?r)"
    using read_backD [OF printed_read_back [OF assms(1,6)], of "[]" _ False] assms(8)
    by (simp add: json_from_string_def json_to_string_def delimited_def)
  then have v: "json_from_string lib False (json_to_string lib ?r) =
      Inr (Object (request_entries (api @ ''.'' @ m) (reads_as lib True v) (reads_as lib True i)))"
    by (simp add: request_def request_entries_def)
  have "is_int64 (reads_as lib True i) \<or> is_uint64 (reads_as lib True i) \<or> is_string (reads_as lib True i)"
    using assms(7) by (cases i) (simp_all add: is_int64_def is_uint64_def is_string_def)
  then have "rpc lib p (request (api @ ''.'' @ m) (reads_as lib True v) (reads_as lib True i)) s =
      (Inr \<lparr>result = Some w, error_part = None, response_id = reads_as lib True i\<rparr>, t)"
    by (rule rpc_calls [OF assms(2,3,4,5,9)])
  then have "rpc lib p (Object (request_entries (api @ ''.'' @ m) (reads_as lib True v) (reads_as lib True i))) s =
      (Inr \<lparr>result = Some w, error_part = None, response_id = reads_as lib True i\<rparr>, t)"
    by (simp add: request_def request_entries_def)
  from call_run [OF v this] show ?thesis by (simp add: response_text_def response_to_variant_def)
qed

text \<open>A counter with one registered method, which adds its parameter and returns the sum.\<close>

definition demo_method :: "nat api_method" where
  "demo_method v n = (case v of Uint64 u \<Rightarrow> (Inr (Uint64 (word_of_nat (n + unat u))), n + unat u) | _ \<Rightarrow> (Inl Fc_Assert, n))"

definition demo_rpc :: "nat json_rpc_plugin" where
  "demo_rpc = add_api_method ''counter'' ''add'' demo_method (Null, Null)
     \<lparr>registered_apis = (\<lambda>_. None), method_names = [], method_sigs = (\<lambda>_. None), logger = None, describe = (\<lambda>_. ('''', Null))\<rparr>"

lemma demo_method_found: "find_api_method demo_rpc ''counter'' ''add'' = Inr demo_method"
  by (simp add: find_api_method_def demo_rpc_def add_api_method_def map_of_maps_update_def)

lemma demo_request_ok:
  "printable demo_json_lib True (request (''counter'' @ ''.'' @ ''add'') (Uint64 3) (Uint64 1))"
  "check_string_depth (json_to_string demo_json_lib (request (''counter'' @ ''.'' @ ''add'') (Uint64 3) (Uint64 1))) = Inr ()"
  by code_simp+

theorem rpc_response_witness:
  "case rpc demo_json_lib demo_rpc (Object [(''id'', Bool True)]) 4 of
      (Inl e, t) \<Rightarrow> no_exception e
    | (Inr r, t) \<Rightarrow> (result r = None) \<noteq> (error_part r = None) \<and> response_id r = id_of (Object [(''id'', Bool True)])"
  by (rule rpc_response) (simp add: demo_rpc_def add_api_method_def)

theorem call_answered_witness:
  "json_rpc_call demo_json_lib demo_rpc
     (json_to_string demo_json_lib (request (''counter'' @ ''.'' @ ''add'') (Uint64 3) (Uint64 1))) 4 =
   (Inr (json_to_string demo_json_lib (Object [(''jsonrpc'', Str ''2.0''), (''result'', Uint64 7), (''error'', Null),
      (''id'', reads_as demo_json_lib True (Uint64 1))])), 7)"
proof (rule call_answered [where f = demo_method])
  show "logger demo_rpc = None" by (simp add: demo_rpc_def add_api_method_def)
  show "demo_method (reads_as demo_json_lib True (Uint64 3)) 4 = (Inr (Uint64 7), 7)"
    by (simp add: demo_method_def)
qed (simp_all add: demo_json_lib_ok demo_method_found demo_request_ok is_uint64_def del: append.simps)

text \<open>
  The text of a request that is not JSON is answered as an error of the server, not of parsing.
\<close>
lemma parse_error_code:
  assumes "json_from_string lib False body = Inl Parse_Error"
  shows "json_rpc_call lib p body s =
    (Inr (response_text lib (error_response (fst (describe p Parse_Error)) (Some (snd (describe p Parse_Error))))), s)"
  using assms by (simp add: json_rpc_call_def call_body_def catch_sx_def bnd_def lift_r_def ret_def no_exception_def
      std_exception_def)

end
