(* ===== verification/Net_Types.thy ===== *)
theory Net_Types
  imports P2P_Plugin Chain_Types_Facts
begin

section \<open>The network: constants, messages and their encoding\<close>

text \<open>
  \<open>net/include/graphene/net/config.hpp\<close>, \<open>message.hpp\<close>, \<open>core_messages.hpp\<close> and \<open>core_messages.cpp\<close>. A message
  on the wire is a type and packed bytes; \<open>net_message\<close> is the structure they stand for. A
  \<open>time_point\<close> is its count of microseconds, a \<open>time_point_sec\<close> its 32-bit count of seconds.
\<close>

subsection \<open>Constants\<close>

definition net_protocol_version :: u32 where "net_protocol_version = 106"
definition max_message_size :: nat where "max_message_size = 1024 * 1024 * 2"
definition peer_disconnect_timeout :: int where "peer_disconnect_timeout = 20"
definition maximum_queued_bytes :: nat where "maximum_queued_bytes = 1024 * 1024"
definition cache_duration_in_blocks :: u32 where "cache_duration_in_blocks = 20"
definition future_sync_grace_sec :: u32 where "future_sync_grace_sec = 60 * 60"
definition max_inventory_minutes :: nat where "max_inventory_minutes = 2"
definition max_items_per_peer :: nat where "max_items_per_peer = 1000"
definition min_block_ids_to_prefetch :: nat where "min_block_ids_to_prefetch = 10000"
definition max_trx_per_second :: nat where "max_trx_per_second = 1000"
definition failed_terminate_timeout :: int where "failed_terminate_timeout = 120"
definition prune_failed_ids_minutes :: int where "prune_failed_ids_minutes = 15"
definition firewall_check_minutes :: int where "firewall_check_minutes = 5"
definition max_peerdb_size :: nat where "max_peerdb_size = 1000"
definition default_max_connections :: nat where "default_max_connections = 200"

lemmas net_config = net_protocol_version_def max_message_size_def peer_disconnect_timeout_def
  maximum_queued_bytes_def cache_duration_in_blocks_def future_sync_grace_sec_def
  max_inventory_minutes_def max_items_per_peer_def min_block_ids_to_prefetch_def
  max_trx_per_second_def failed_terminate_timeout_def prune_failed_ids_minutes_def
  firewall_check_minutes_def max_peerdb_size_def default_max_connections_def

definition seconds_us :: "int \<Rightarrow> int" where
  "seconds_us n = n * 1000000"

definition sec_of :: "int \<Rightarrow> u32" where
  "sec_of t = word_of_int (t div 1000000)"

subsection \<open>The structures\<close>

type_synonym endpoint = "u32 \<times> u16"
type_synonym net_item = "u32 \<times> bytes"

datatype rejection_reason =
    Unspecified | Different_Chain | Already_Connected | Connected_To_Self | Not_Accepting
  | Blocked | Invalid_Hello | Client_Too_Old

datatype peer_direction = Direction_Unknown | Inbound | Outbound
datatype firewalled_state = Firewall_Unknown | Firewalled | Not_Firewalled
datatype firewall_result = Unable_To_Check | Unable_To_Connect | Connection_Successful

record address_info =
  ai_endpoint :: endpoint
  ai_last_seen :: u32
  ai_latency :: int
  ai_node_id :: bytes
  ai_direction :: peer_direction
  ai_firewalled :: firewalled_state

text \<open>
  The members of the \<open>user_data\<close> object of a hello that are read back, each absent, present, or
  present and not convertible (reading it throws).
\<close>

record hello_data =
  hd_node_id :: "bytes result option"
  hd_git_unix :: "u32 result option"
  hd_last_fork :: "u32 result option"
  hd_chain_id :: "bytes result option"

record hello =
  h_user_agent :: string
  h_protocol :: u32
  h_inbound_address :: u32
  h_inbound_port :: u16
  h_outbound_port :: u16
  h_public_key :: bytes
  h_signed_secret :: bytes
  h_user_data :: hello_data

record rejection =
  rj_user_agent :: string
  rj_protocol :: u32
  rj_endpoint :: endpoint
  rj_reason :: rejection_reason
  rj_text :: string

datatype net_message =
    Block_Msg signed_block bytes
  | Item_Ids_Inventory u32 "bytes list"
  | Blockchain_Item_Ids u32 u32 "bytes list"
  | Fetch_Blockchain_Ids u32 "bytes list"
  | Fetch_Items u32 "bytes list"
  | Item_Not_Available net_item
  | Hello_Msg hello
  | Connection_Accepted
  | Connection_Rejected rejection
  | Address_Request
  | Address_Msg "address_info list"
  | Closing_Connection string bool "error option"
  | Current_Time_Request int
  | Current_Time_Reply int int int
  | Check_Firewall bytes endpoint
  | Check_Firewall_Reply bytes endpoint firewall_result
  | Current_Connections_Request
  | Current_Connections_Reply bytes
  | Other_Msg u32 bytes

definition trx_message_type :: u32 where "trx_message_type = 1000"
definition block_message_type :: u32 where "block_message_type = 1001"
definition core_message_type_first :: u32 where "core_message_type_first = 5000"
definition core_message_type_last :: u32 where "core_message_type_last = 5099"

fun net_type :: "net_message \<Rightarrow> u32" where
  "net_type (Block_Msg _ _) = block_message_type"
| "net_type (Item_Ids_Inventory _ _) = 5001"
| "net_type (Blockchain_Item_Ids _ _ _) = 5002"
| "net_type (Fetch_Blockchain_Ids _ _) = 5003"
| "net_type (Fetch_Items _ _) = 5004"
| "net_type (Item_Not_Available _) = 5005"
| "net_type (Hello_Msg _) = 5006"
| "net_type Connection_Accepted = 5007"
| "net_type (Connection_Rejected _) = 5008"
| "net_type Address_Request = 5009"
| "net_type (Address_Msg _) = 5010"
| "net_type (Closing_Connection _ _ _) = 5011"
| "net_type (Current_Time_Request _) = 5012"
| "net_type (Current_Time_Reply _ _ _) = 5013"
| "net_type (Check_Firewall _ _) = 5014"
| "net_type (Check_Firewall_Reply _ _ _) = 5015"
| "net_type Current_Connections_Request = 5016"
| "net_type (Current_Connections_Reply _) = 5017"
| "net_type (Other_Msg t _) = t"

subsection \<open>The encoding\<close>

definition c_hash :: "bytes codec" where
  "c_hash = c_array 20"

definition c_hashes :: "bytes list codec" where
  "c_hashes = c_vector c_hash"

definition c_trx_message :: "signed_transaction codec" where
  "c_trx_message = c_signed_transaction"

definition c_block_message :: "(signed_block \<times> bytes) codec" where
  "c_block_message = c_pair c_signed_block c_hash"

definition c_item_ids_inventory :: "(u32 \<times> bytes list) codec" where
  "c_item_ids_inventory = c_pair (c_word 4) c_hashes"

definition c_blockchain_item_ids :: "(u32 \<times> u32 \<times> bytes list) codec" where
  "c_blockchain_item_ids = c_pair (c_word 4) (c_pair (c_word 4) c_hashes)"

definition c_fetch_blockchain_ids :: "(u32 \<times> bytes list) codec" where
  "c_fetch_blockchain_ids = c_pair (c_word 4) c_hashes"

definition c_fetch_items :: "(u32 \<times> bytes list) codec" where
  "c_fetch_items = c_pair (c_word 4) c_hashes"

definition c_item_id :: "net_item codec" where
  "c_item_id = c_pair (c_word 4) c_hash"

definition c_endpoint :: "endpoint codec" where
  "c_endpoint = c_pair (c_word 4) (c_word 2)"

definition c_time :: "int codec" where
  "c_time = c_class (\<lambda>t. word_of_int t :: u64) sint 8 (c_word 8)"

definition c_time_reply :: "(int \<times> int \<times> int) codec" where
  "c_time_reply = c_pair c_time (c_pair c_time c_time)"

text \<open>
  An enumeration in one byte. A number that names no member is stored as it is; the model reads it
  as the first member, for which no branch of the code tests.
\<close>

definition direction_number :: "peer_direction \<Rightarrow> byte" where
  "direction_number d = (case d of Direction_Unknown \<Rightarrow> 0 | Inbound \<Rightarrow> 1 | Outbound \<Rightarrow> 2)"

definition direction_of :: "byte \<Rightarrow> peer_direction" where
  "direction_of n = (if n = 1 then Inbound else if n = 2 then Outbound else Direction_Unknown)"

definition firewalled_number :: "firewalled_state \<Rightarrow> byte" where
  "firewalled_number d = (case d of Firewall_Unknown \<Rightarrow> 0 | Firewalled \<Rightarrow> 1 | Not_Firewalled \<Rightarrow> 2)"

definition firewalled_of :: "byte \<Rightarrow> firewalled_state" where
  "firewalled_of n = (if n = 1 then Firewalled else if n = 2 then Not_Firewalled else Firewall_Unknown)"

definition firewall_result_number :: "firewall_result \<Rightarrow> byte" where
  "firewall_result_number d =
     (case d of Unable_To_Check \<Rightarrow> 0 | Unable_To_Connect \<Rightarrow> 1 | Connection_Successful \<Rightarrow> 2)"

definition firewall_result_of :: "byte \<Rightarrow> firewall_result" where
  "firewall_result_of n =
     (if n = 1 then Unable_To_Connect else if n = 2 then Connection_Successful else Unable_To_Check)"

definition c_address_info :: "address_info codec" where
  "c_address_info =
     c_class (\<lambda>a. (ai_endpoint a, ai_last_seen a, ai_latency a, ai_node_id a,
                 direction_number (ai_direction a), firewalled_number (ai_firewalled a)))
       (\<lambda>(a, b, c, d, e, f). \<lparr>ai_endpoint = a, ai_last_seen = b, ai_latency = c, ai_node_id = d,
                 ai_direction = direction_of e, ai_firewalled = firewalled_of f\<rparr>) 64
       (c_pair c_endpoint (c_pair (c_word 4) (c_pair c_time (c_pair (c_array 33) (c_pair (c_word 1) (c_word 1))))))"

definition c_addresses :: "address_info list codec" where
  "c_addresses = c_vector c_address_info"

definition c_check_firewall :: "(bytes \<times> endpoint) codec" where
  "c_check_firewall = c_pair (c_array 33) c_endpoint"

definition c_check_firewall_reply :: "(bytes \<times> endpoint \<times> firewall_result) codec" where
  "c_check_firewall_reply =
     c_pair (c_array 33) (c_pair c_endpoint
       (c_class firewall_result_number firewall_result_of 1 (c_word 1)))"

text \<open>\<open>message::as\<close>: the type must be that of the structure; bytes left over are ignored.\<close>

definition message_as :: "u32 \<Rightarrow> 'a codec \<Rightarrow> u32 \<times> bytes \<Rightarrow> 'a result" where
  "message_as t c m = (if fst m = t then fst (c_get c (snd m)) else Inl Fc_Assert)"

text \<open>
  What stays outside the model: the encoding of messages that carry a \<open>variant_object\<close>, an
  exception or a text. \<open>net_data\<close> is \<open>data\<close> of \<open>message(m)\<close>, and \<open>message_hash\<close> is \<open>message::id\<close>: the type is not hashed.
\<close>

fun net_data :: "(net_message \<Rightarrow> bytes) \<Rightarrow> net_message \<Rightarrow> bytes" where
  "net_data lib (Block_Msg b i) = packed c_block_message (b, i)"
| "net_data lib (Item_Ids_Inventory t hs) = packed c_item_ids_inventory (t, hs)"
| "net_data lib (Blockchain_Item_Ids n t hs) = packed c_blockchain_item_ids (n, t, hs)"
| "net_data lib (Fetch_Blockchain_Ids t hs) = packed c_fetch_blockchain_ids (t, hs)"
| "net_data lib (Fetch_Items t hs) = packed c_fetch_items (t, hs)"
| "net_data lib (Item_Not_Available i) = packed c_item_id i"
| "net_data lib Connection_Accepted = []"
| "net_data lib Address_Request = []"
| "net_data lib (Address_Msg as) = packed c_addresses as"
| "net_data lib (Current_Time_Request t) = packed c_time t"
| "net_data lib (Current_Time_Reply a b c) = packed c_time_reply (a, b, c)"
| "net_data lib (Check_Firewall i e) = packed c_check_firewall (i, e)"
| "net_data lib (Check_Firewall_Reply i e r) = packed c_check_firewall_reply (i, e, r)"
| "net_data lib Current_Connections_Request = []"
| "net_data lib (Other_Msg t d) = d"
| "net_data lib m = lib m"

text \<open>A transaction is sent and kept as packed bytes, and unpacked where it is used.\<close>

definition trx_msg :: "signed_transaction \<Rightarrow> net_message" where
  "trx_msg t = Other_Msg trx_message_type (packed c_trx_message t)"

definition message_hash :: "crypto \<Rightarrow> (net_message \<Rightarrow> bytes) \<Rightarrow> net_message \<Rightarrow> bytes" where
  "message_hash cr lib m = ripemd160 cr (net_data lib m)"

subsection \<open>Reading back\<close>

definition hashes_ok :: "bytes list \<Rightarrow> bool" where
  "hashes_ok hs \<longleftrightarrow> sized 20 (\<lambda>h. length h = 20) hs"

lemma rt_hash: "round_trip (\<lambda>h. length h = 20) c_hash"
  unfolding c_hash_def by (rule rt_array)

lemma rt_hashes: "round_trip hashes_ok c_hashes"
proof -
  have "c_sizeof c_hash = 20" by (simp add: c_hash_def c_array_def)
  then show ?thesis using rt_vector [OF rt_hash] by (simp add: c_hashes_def hashes_ok_def [abs_def])
qed

lemma rt_time: "round_trip (\<lambda>t. - (2 ^ 63) \<le> t \<and> t < 2 ^ 63) c_time"
  unfolding c_time_def
  by (rule rt_class [OF rt_word]) (simp_all add: signed_of_int signed_take_bit_int_eq_self)

lemma enum_numbers [simp]:
  "direction_of (direction_number d) = d" "firewalled_of (firewalled_number f) = f"
  "firewall_result_of (firewall_result_number r) = r"
  by (simp_all add: direction_of_def direction_number_def firewalled_of_def firewalled_number_def
    firewall_result_of_def firewall_result_number_def split: peer_direction.split
    firewalled_state.split firewall_result.split)

lemma rt_endpoint: "round_trip (\<lambda>_. True) c_endpoint"
  unfolding c_endpoint_def by (rule round_trip_mono [OF rt_pair [OF rt_word rt_word]]) auto

definition address_ok :: "address_info \<Rightarrow> bool" where
  "address_ok a \<longleftrightarrow> - (2 ^ 63) \<le> ai_latency a \<and> ai_latency a < 2 ^ 63 \<and> length (ai_node_id a) = 33"

lemma rt_address_info: "round_trip address_ok c_address_info"
  unfolding c_address_info_def
  by (rule rt_class [OF rt_pair [OF rt_endpoint rt_pair [OF rt_word rt_pair [OF rt_time rt_pair
        [OF rt_array rt_pair [OF rt_word rt_word]]]]]])
     (auto simp: address_ok_def)

text \<open>
  The cases of \<open>node_impl::on_message\<close> up to the call of the handler: the structure is read from the
  bytes. \<open>other\<close> reads those whose encoding stays outside the model.
\<close>

definition read_as :: "('a \<Rightarrow> net_message) \<Rightarrow> u32 \<Rightarrow> 'a codec \<Rightarrow> u32 \<times> bytes \<Rightarrow> net_message result" where
  "read_as f t c m = rbind (message_as t c m) (\<lambda>v. Inr (f v))"

definition read_message :: "(u32 \<times> bytes \<Rightarrow> net_message result) \<Rightarrow> u32 \<times> bytes \<Rightarrow> net_message result" where
  "read_message other m =
     (let t = fst m in
      if t = 1001 then read_as (\<lambda>(b, i). Block_Msg b i) 1001 c_block_message m
      else if t = 5001 then read_as (\<lambda>(k, hs). Item_Ids_Inventory k hs) 5001 c_item_ids_inventory m
      else if t = 5002 then read_as (\<lambda>(n, k, hs). Blockchain_Item_Ids n k hs) 5002 c_blockchain_item_ids m
      else if t = 5003 then read_as (\<lambda>(k, hs). Fetch_Blockchain_Ids k hs) 5003 c_fetch_blockchain_ids m
      else if t = 5004 then read_as (\<lambda>(k, hs). Fetch_Items k hs) 5004 c_fetch_items m
      else if t = 5005 then read_as Item_Not_Available 5005 c_item_id m
      else if t = 5007 then Inr Connection_Accepted
      else if t = 5009 then Inr Address_Request
      else if t = 5010 then read_as Address_Msg 5010 c_addresses m
      else if t = 5012 then read_as Current_Time_Request 5012 c_time m
      else if t = 5013 then read_as (\<lambda>(a, b, c). Current_Time_Reply a b c) 5013 c_time_reply m
      else if t = 5014 then read_as (\<lambda>(i, e). Check_Firewall i e) 5014 c_check_firewall m
      else if t = 5015 then read_as (\<lambda>(i, e, r). Check_Firewall_Reply i e r) 5015 c_check_firewall_reply m
      else if t = 5016 then Inr Current_Connections_Request
      else if t \<in> {5006, 5008, 5011, 5017} then other m
      else Inr (Other_Msg t (snd m)))"

text \<open>Which values a message must carry to come through the wire unchanged.\<close>

fun wire_ok :: "net_message \<Rightarrow> bool" where
  "wire_ok (Block_Msg b i) = (block_ok b \<and> length i = 20)"
| "wire_ok (Item_Ids_Inventory t hs) = hashes_ok hs"
| "wire_ok (Blockchain_Item_Ids n t hs) = hashes_ok hs"
| "wire_ok (Fetch_Blockchain_Ids t hs) = hashes_ok hs"
| "wire_ok (Fetch_Items t hs) = hashes_ok hs"
| "wire_ok (Item_Not_Available i) = (length (snd i) = 20)"
| "wire_ok (Address_Msg as) = sized 64 address_ok as"
| "wire_ok (Check_Firewall i e) = (length i = 33)"
| "wire_ok (Check_Firewall_Reply i e r) = (length i = 33)"
| "wire_ok (Current_Time_Request t) = (- (2 ^ 63) \<le> t \<and> t < 2 ^ 63)"
| "wire_ok (Current_Time_Reply a b c) = (\<forall>t \<in> {a, b, c}. - (2 ^ 63) \<le> t \<and> t < 2 ^ 63)"
| "wire_ok Connection_Accepted = True"
| "wire_ok Address_Request = True"
| "wire_ok Current_Connections_Request = True"
| "wire_ok (Other_Msg t d) = (t \<notin> {1001, 5001, 5002, 5003, 5004, 5005, 5006, 5007, 5008, 5009, 5010, 5011, 5012,
     5013, 5014, 5015, 5016, 5017})"
| "wire_ok m = False"

lemma read_as_packed:
  assumes "round_trip P c" and "P v"
  shows "read_as f t c (t, packed c v) = Inr (f v)"
  using round_tripD [OF assms, of "[]"] by (simp add: read_as_def message_as_def packed_def)

lemma rt_block_message: "round_trip (\<lambda>(b, i). block_ok b \<and> length i = 20) c_block_message"
  unfolding c_block_message_def by (rule rt_pair [OF rt_signed_block rt_hash])

lemma rt_typed_hashes: "round_trip (\<lambda>(t, hs). hashes_ok hs) (c_pair (c_word 4 :: u32 codec) c_hashes)"
  by (rule round_trip_mono [OF rt_pair [OF rt_word rt_hashes]]) auto

lemmas rt_item_ids_inventory = rt_typed_hashes [folded c_item_ids_inventory_def]
lemmas rt_fetch_blockchain_ids = rt_typed_hashes [folded c_fetch_blockchain_ids_def]
lemmas rt_fetch_items = rt_typed_hashes [folded c_fetch_items_def]

lemma rt_blockchain_item_ids: "round_trip (\<lambda>(n, t, hs). hashes_ok hs) c_blockchain_item_ids"
  unfolding c_blockchain_item_ids_def
  by (rule round_trip_mono [OF rt_pair [OF rt_word rt_typed_hashes]]) auto

lemma rt_item_id: "round_trip (\<lambda>(t, h). length h = 20) c_item_id"
  unfolding c_item_id_def by (rule round_trip_mono [OF rt_pair [OF rt_word rt_hash]]) auto

lemma rt_time_reply:
  "round_trip (\<lambda>(a, b, c). \<forall>t \<in> {a, b, c}. - (2 ^ 63) \<le> t \<and> t < 2 ^ 63) c_time_reply"
  unfolding c_time_reply_def
  by (rule round_trip_mono [OF rt_pair [OF rt_time rt_pair [OF rt_time rt_time]]]) auto

lemma rt_check_firewall: "round_trip (\<lambda>(i, e). length i = 33) c_check_firewall"
  unfolding c_check_firewall_def by (rule round_trip_mono [OF rt_pair [OF rt_array rt_endpoint]]) auto

text \<open>A message sent and received is the same message.\<close>

lemma message_through_wire:
  assumes "wire_ok m"
  shows "read_message other (net_type m, net_data lib m) = Inr m"
proof -
  note rts = read_as_packed [OF rt_block_message] read_as_packed [OF rt_item_ids_inventory]
    read_as_packed [OF rt_blockchain_item_ids] read_as_packed [OF rt_fetch_blockchain_ids]
    read_as_packed [OF rt_fetch_items] read_as_packed [OF rt_item_id] read_as_packed [OF rt_time]
    read_as_packed [OF rt_time_reply] read_as_packed [OF rt_check_firewall]
  have addr: "read_as Address_Msg 5010 c_addresses (5010, packed c_addresses as) = Inr (Address_Msg as)"
    if "sized 64 address_ok as" for as
    using read_as_packed [OF rt_vector [OF rt_address_info]] that
    by (simp add: c_addresses_def c_address_info_def c_class_def)
  have reply: "read_as (\<lambda>(i, e, r). Check_Firewall_Reply i e r) 5015 c_check_firewall_reply
      (5015, packed c_check_firewall_reply (i, e, r)) = Inr (Check_Firewall_Reply i e r)"
    if "length i = 33" for i e r
    unfolding c_check_firewall_reply_def
    by (rule trans [OF read_as_packed [OF rt_pair [OF rt_array rt_pair [OF rt_endpoint rt_class [OF rt_word]]]]])
       (use that in \<open>auto\<close>)
  from assms show ?thesis
    by (cases m) (auto simp: read_message_def block_message_type_def rts addr reply)
qed

end
