(* ===== verification/Peer_Database.thy ===== *)
theory Peer_Database
  imports Net_Types
begin

section \<open>The network: the peers that are known\<close>

text \<open>
  \<open>net/peer_database.cpp\<close>: records of peers under two indices, ordered by the time they were last
  seen and unique by endpoint. The list is the first index in its order. Reading and writing the
  JSON file is left out: \<open>open\<close> takes the records it holds.
\<close>

subsection \<open>An ordered index that allows equal keys\<close>

text \<open>
  Boost inserts after the equal keys; \<open>modify\<close> leaves an element whose new key still fits in its
  place and inserts it anew otherwise.
\<close>

definition index_insert :: "('a \<Rightarrow> 'k::linorder) \<Rightarrow> 'a \<Rightarrow> 'a list \<Rightarrow> 'a list" where
  "index_insert k x xs = takeWhile (\<lambda>y. k y \<le> k x) xs @ x # dropWhile (\<lambda>y. k y \<le> k x) xs"

definition index_place :: "('a \<Rightarrow> 'k::linorder) \<Rightarrow> 'a list \<Rightarrow> 'a \<Rightarrow> 'a list \<Rightarrow> 'a list" where
  "index_place k pre y post =
     (if (pre = [] \<or> k (last pre) \<le> k y) \<and> (post = [] \<or> k y \<le> k (hd post))
      then pre @ y # post else index_insert k y (pre @ post))"

definition index_modify :: "('a \<Rightarrow> 'k::linorder) \<Rightarrow> ('a \<Rightarrow> bool) \<Rightarrow> ('a \<Rightarrow> 'a) \<Rightarrow> 'a list \<Rightarrow> 'a list" where
  "index_modify k p f xs =
     (case dropWhile (\<lambda>x. \<not> p x) xs of
        [] \<Rightarrow> xs
      | x # post \<Rightarrow> index_place k (takeWhile (\<lambda>x. \<not> p x) xs) (f x) post)"

lemma set_index_insert: "set (index_insert k x xs) = insert x (set xs)"
  unfolding index_insert_def
  by (metis (no_types) Un_insert_right list.simps(15) set_append takeWhile_dropWhile_id)

lemma mset_index_insert: "length (index_insert k x xs) = Suc (length xs)"
  unfolding index_insert_def
  by (metis add_Suc_right length_Cons length_append takeWhile_dropWhile_id)

lemma sorted_index_insert:
  assumes "sorted (map k xs)"
  shows "sorted (map k (index_insert k x xs))"
  using assms
proof (induction xs)
  case Nil
  then show ?case by (simp add: index_insert_def)
next
  case (Cons y ys)
  show ?case
  proof (cases "k y \<le> k x")
    case True
    with Cons set_index_insert [of k x ys] show ?thesis
      by (auto simp: index_insert_def [of k x "y # ys"] index_insert_def [of k x ys])
  next
    case False
    with Cons.prems show ?thesis by (auto simp: index_insert_def)
  qed
qed

lemma set_index_place: "set (index_place k pre y post) = insert y (set pre \<union> set post)"
  by (auto simp: index_place_def set_index_insert)

lemma sorted_index_place:
  assumes s: "sorted (map k (pre @ post))"
  shows "sorted (map k (index_place k pre y post))"
proof (cases "(pre = [] \<or> k (last pre) \<le> k y) \<and> (post = [] \<or> k y \<le> k (hd post))")
  case True
  from s have pre: "sorted (map k pre)" and post: "sorted (map k post)" by (simp_all add: sorted_append)
  have "k z \<le> k y" if "z \<in> set pre" for z
    using True that pre by (cases pre rule: rev_cases) (auto simp: sorted_append intro: order_trans)
  moreover have "k y \<le> k z" if "z \<in> set post" for z
    using True that post by (cases post) force+
  ultimately show ?thesis
    using True s pre post by (auto simp: index_place_def sorted_append intro: order_trans)
next
  case False
  then show ?thesis using sorted_index_insert [OF s] by (auto simp: index_place_def)
qed

subsection \<open>The database\<close>

datatype disposition =
    Never_Attempted | Connection_Failed | Connection_Refused | Handshaking_Failed | Connection_Succeeded

record potential_peer =
  pp_endpoint :: endpoint
  pp_last_seen :: u32
  pp_disposition :: disposition
  pp_last_attempt :: u32
  pp_successes :: u32
  pp_failures :: u32
  pp_last_error :: "error option"

type_synonym peer_db = "potential_peer list"

definition new_potential_peer :: "endpoint \<Rightarrow> potential_peer" where
  "new_potential_peer e =
     \<lparr>pp_endpoint = e, pp_last_seen = 0, pp_disposition = Never_Attempted, pp_last_attempt = 0,
      pp_successes = 0, pp_failures = 0, pp_last_error = None\<rparr>"

definition lookup_endpoint :: "endpoint \<Rightarrow> peer_db \<Rightarrow> potential_peer option" where
  "lookup_endpoint e db = List.find (\<lambda>r. pp_endpoint r = e) db"

definition lookup_or_create :: "endpoint \<Rightarrow> peer_db \<Rightarrow> potential_peer" where
  "lookup_or_create e db =
     (case lookup_endpoint e db of Some r \<Rightarrow> r | None \<Rightarrow> new_potential_peer e)"

text \<open>\<open>insert\<close> has no effect when the endpoint is known.\<close>

definition insert_peer :: "potential_peer \<Rightarrow> peer_db \<Rightarrow> peer_db" where
  "insert_peer r db =
     (if lookup_endpoint (pp_endpoint r) db = None then index_insert pp_last_seen r db else db)"

definition erase_endpoint :: "endpoint \<Rightarrow> peer_db \<Rightarrow> peer_db" where
  "erase_endpoint e db = filter (\<lambda>r. pp_endpoint r \<noteq> e) db"

definition update_entry :: "potential_peer \<Rightarrow> peer_db \<Rightarrow> peer_db" where
  "update_entry r db =
     (if lookup_endpoint (pp_endpoint r) db \<noteq> None
      then index_modify pp_last_seen (\<lambda>q. pp_endpoint q = pp_endpoint r) (\<lambda>_. r) db
      else insert_peer r db)"

text \<open>
  \<open>open\<close>: a file that does not exist (\<open>None\<close>) or cannot be read (an exception) leaves the set as it is.
\<close>

definition open_peers :: "potential_peer list result option \<Rightarrow> peer_db \<Rightarrow> peer_db" where
  "open_peers file db =
     (case file of
        Some (Inr rs) \<Rightarrow>
          (let all = fold insert_peer rs db
           in if length all > max_peerdb_size then take max_peerdb_size all else all)
      | _ \<Rightarrow> db)"

definition close_peers :: "peer_db \<Rightarrow> potential_peer list \<times> peer_db" where
  "close_peers db = (db, [])"

subsection \<open>Well-formed databases\<close>

definition peer_db_ok :: "peer_db \<Rightarrow> bool" where
  "peer_db_ok db \<longleftrightarrow> sorted (map pp_last_seen db) \<and> distinct (map pp_endpoint db)"

lemma lookup_endpoint_None: "lookup_endpoint e db = None \<longleftrightarrow> e \<notin> pp_endpoint ` set db"
  by (auto simp: lookup_endpoint_def find_None_iff)

lemma lookup_endpoint_Some: "lookup_endpoint e db = Some r \<Longrightarrow> r \<in> set db \<and> pp_endpoint r = e"
  by (auto simp: lookup_endpoint_def find_Some_iff)

lemma lookup_endpoint_iff:
  "peer_db_ok db \<Longrightarrow> lookup_endpoint e db = Some r \<longleftrightarrow> r \<in> set db \<and> pp_endpoint r = e"
  using lookup_endpoint_None [of e db] lookup_endpoint_Some [of e db r]
  by (cases "lookup_endpoint e db")
     (auto simp: peer_db_ok_def distinct_map dest!: lookup_endpoint_Some dest: inj_onD)

lemma distinct_index_insert:
  assumes "distinct (map f xs)" and "f x \<notin> f ` set xs"
  shows "distinct (map f (index_insert k x xs))"
proof -
  let ?l = "takeWhile (\<lambda>y. k y \<le> k x) xs" and ?r = "dropWhile (\<lambda>y. k y \<le> k x) xs"
  have "distinct (map f ?l @ map f ?r)"
    using assms(1) by (metis map_append takeWhile_dropWhile_id)
  moreover have "f x \<notin> set (map f ?l @ map f ?r)"
    using assms(2) by (metis list.set_map map_append takeWhile_dropWhile_id)
  ultimately show ?thesis by (auto simp: index_insert_def)
qed

lemma peer_db_insert: "peer_db_ok db \<Longrightarrow> peer_db_ok (insert_peer r db)"
  by (auto simp: peer_db_ok_def insert_peer_def lookup_endpoint_None sorted_index_insert distinct_index_insert)

lemma peer_db_erase: "peer_db_ok db \<Longrightarrow> peer_db_ok (erase_endpoint e db)"
  by (auto simp: peer_db_ok_def erase_endpoint_def sorted_filter distinct_map_filter)

text \<open>An update replaces the record of its endpoint and leaves the others.\<close>

lemma update_known:
  assumes ok: "peer_db_ok db" and e: "lookup_endpoint (pp_endpoint r) db = Some q"
  shows "peer_db_ok (update_entry r db) \<and> set (update_entry r db) = insert r (set db - {q})"
proof -
  let ?np = "\<lambda>x. pp_endpoint x \<noteq> pp_endpoint r"
  from e obtain post where post: "dropWhile ?np db = q # post"
    by (auto simp: lookup_endpoint_def find_dropWhile comp_def split: list.splits)
  define pre where "pre = takeWhile ?np db"
  have db: "db = pre @ q # post" using takeWhile_dropWhile_id [of ?np db] post by (simp add: pre_def)
  have q: "pp_endpoint q = pp_endpoint r" using lookup_endpoint_Some [OF e] by simp
  have u: "update_entry r db = index_place pp_last_seen pre r post"
    using e post by (simp add: update_entry_def index_modify_def pre_def)
  have s: "sorted (map pp_last_seen (pre @ post))" and d: "distinct (map pp_endpoint (pre @ post))"
    and new: "pp_endpoint r \<notin> pp_endpoint ` set (pre @ post)"
    using ok q by (auto simp: peer_db_ok_def db sorted_append)
  then have q': "q \<notin> set (pre @ post)" using q by (metis imageI)
  have "distinct (map pp_endpoint (index_place pp_last_seen pre r post))"
    using distinct_index_insert [OF d new, of pp_last_seen] d new by (auto simp: index_place_def)
  moreover have "set (index_place pp_last_seen pre r post) = insert r (set db - {q})"
    using q' by (auto simp: set_index_place db)
  ultimately show ?thesis
    using sorted_index_place [OF s, of r] by (simp add: u peer_db_ok_def)
qed

lemma update_unknown:
  assumes "peer_db_ok db" and "lookup_endpoint (pp_endpoint r) db = None"
  shows "peer_db_ok (update_entry r db) \<and> set (update_entry r db) = insert r (set db)"
  using assms peer_db_insert [of db r] by (simp add: update_entry_def insert_peer_def set_index_insert)

lemma peer_db_update: "peer_db_ok db \<Longrightarrow> peer_db_ok (update_entry r db)"
  using update_known [of db r] update_unknown [of db r] by (cases "lookup_endpoint (pp_endpoint r) db") auto

lemma lookup_update:
  assumes ok: "peer_db_ok db"
  shows "lookup_endpoint e (update_entry r db) = (if e = pp_endpoint r then Some r else lookup_endpoint e db)"
proof -
  have u: "peer_db_ok (update_entry r db)" by (rule peer_db_update [OF ok])
  have set: "x \<in> set (update_entry r db) \<longleftrightarrow> x = r \<or> x \<in> set db \<and> pp_endpoint x \<noteq> pp_endpoint r" for x
  proof (cases "lookup_endpoint (pp_endpoint r) db")
    case None
    then show ?thesis using update_unknown [OF ok None] by (auto simp: lookup_endpoint_None rev_image_eqI)
  next
    case (Some q)
    then have "q \<in> set db" "pp_endpoint q = pp_endpoint r" by (auto dest: lookup_endpoint_Some)
    then show ?thesis using update_known [OF ok Some] ok
      by (auto simp: peer_db_ok_def distinct_map dest: inj_onD)
  qed
  show ?thesis
  proof (cases "e = pp_endpoint r")
    case True
    then show ?thesis using lookup_endpoint_iff [OF u, of e r] set by simp
  next
    case False
    have "lookup_endpoint e (update_entry r db) = Some x \<longleftrightarrow> lookup_endpoint e db = Some x" for x
      using False by (auto simp: lookup_endpoint_iff [OF u] lookup_endpoint_iff [OF ok] set)
    with False show ?thesis by simp (metis not_None_eq)
  qed
qed

lemma peer_db_inserts: "peer_db_ok db \<Longrightarrow> peer_db_ok (fold insert_peer rs db)"
  by (induction rs arbitrary: db) (auto intro: peer_db_insert)

lemma peer_db_open: "peer_db_ok db \<Longrightarrow> peer_db_ok (open_peers file db)"
  using peer_db_inserts [of db]
  by (auto simp: open_peers_def peer_db_ok_def Let_def take_map [symmetric] sorted_wrt_take
      split: option.splits sum.splits)

text \<open>
  Pruning keeps the records that were seen least recently: whatever \<open>open\<close> drops was seen no
  earlier than anything it keeps.
\<close>

lemma open_drops_newest:
  assumes "r \<in> set (drop max_peerdb_size (fold insert_peer rs []))" and "q \<in> set (open_peers (Some (Inr rs)) [])"
  shows "pp_last_seen q \<le> pp_last_seen r"
proof -
  let ?all = "fold insert_peer rs []"
  have "sorted (map pp_last_seen (take max_peerdb_size ?all @ drop max_peerdb_size ?all))"
    using peer_db_inserts [of "[]" rs] by (simp add: peer_db_ok_def)
  moreover have "q \<in> set (take max_peerdb_size ?all)"
    using assms by (auto simp: open_peers_def Let_def split: if_splits)
  ultimately show ?thesis using assms(1) unfolding map_append sorted_append by force
qed

end
