(* ===== verification/Peer_Connection.thy ===== *)
theory Peer_Connection
  imports Peer_Database
begin

section \<open>The network: a peer\<close>

text \<open>
  \<open>net/peer_connection.hpp\<close> and \<open>peer_connection.cpp\<close>: what the node knows of one peer, the queue of
  messages to it and the queries on it. Key exchange, the socket and the fibers are outside: a
  peer has whether its socket was closed and how far the task that empties its queue is.
\<close>

subsection \<open>State\<close>

datatype our_connection_state = Our_Disconnected | Our_Just_Connected | Our_Accepted | Our_Rejected
datatype their_connection_state = Their_Disconnected | Their_Just_Connected | Their_Accepted | Their_Rejected

datatype negotiation_status =
    Status_Disconnected | Status_Connecting | Status_Connected | Status_Accepting | Status_Accepted
  | Status_Hello_Sent | Status_Peer_Accepted | Status_Peer_Rejected | Status_Complete
  | Status_Closing | Status_Closed

text \<open>
  A queued message is a message, with or without the time to be written into it when it is sent,
  or the id of an item that is looked up then.
\<close>

datatype queued_message = Real_Queued net_message bool | Virtual_Queued net_item

datatype send_task = Task_None | Task_Running | Task_Done | Task_Cancelled

record firewall_check =
  expected_node_id :: bytes
  endpoint_to_test :: endpoint
  nodes_already_tested :: "bytes list"
  requesting_peer :: bytes

record peer =
  remote_endpoint :: "endpoint option"
  socket_endpoint :: endpoint
  socket_closed :: bool
  queued_messages :: "queued_message list"
  total_queued_size :: nat
  send_queued_task :: send_task
  connection_initiation_time :: int
  connection_closed_time :: int
  connection_terminated_time :: int
  last_message_received_time :: int
  last_message_sent_time :: int
  direction :: peer_direction
  is_firewalled :: firewalled_state
  clock_offset :: int
  round_trip_delay :: int
  our_state :: our_connection_state
  they_have_requested_close :: bool
  their_state :: their_connection_state
  we_have_requested_close :: bool
  status :: negotiation_status
  connection_closed_error :: "error option"
  node_public_key :: bytes
  node_id :: bytes
  protocol_version :: u32
  user_agent :: string
  git_unix_timestamp :: "u32 option"
  peer_chain_id :: "bytes option"
  inbound_address :: u32
  inbound_port :: u16
  outbound_port :: u16
  ids_of_items_to_get :: "bytes list"
  ids_being_processed :: "bytes set"
  unfetched_ids :: u32
  peer_needs_items :: bool
  we_need_items :: bool
  ids_requested :: "(bytes list \<times> int) option"
  last_sync_received_time :: int
  sync_requested :: "bytes set"
  last_block_seen :: bytes
  last_block_time_seen :: u32
  inhibit_fetching :: bool
  advertised_to_us :: "(net_item \<times> u32) list"
  advertised_to_peer :: "(net_item \<times> u32) list"
  items_requested :: "(net_item \<times> int) list"
  trx_inhibited_until :: int
  last_known_fork :: u32
  firewall_check_state :: "firewall_check option"
  handling_message :: bool

definition no_node_id :: bytes where
  "no_node_id = replicate 33 0"

definition new_peer :: "endpoint \<Rightarrow> peer" where
  "new_peer e =
     \<lparr>remote_endpoint = None, socket_endpoint = e, socket_closed = False, queued_messages = [],
      total_queued_size = 0, send_queued_task = Task_None, connection_initiation_time = 0,
      connection_closed_time = 0, connection_terminated_time = 0, last_message_received_time = 0,
      last_message_sent_time = 0, direction = Direction_Unknown, is_firewalled = Firewall_Unknown,
      clock_offset = 0, round_trip_delay = 0, our_state = Our_Disconnected,
      they_have_requested_close = False, their_state = Their_Disconnected,
      we_have_requested_close = False, status = Status_Disconnected, connection_closed_error = None,
      node_public_key = no_node_id, node_id = no_node_id, protocol_version = 0, user_agent = [],
      git_unix_timestamp = None, peer_chain_id = None, inbound_address = 0, inbound_port = 0,
      outbound_port = 0, ids_of_items_to_get = [], ids_being_processed = {}, unfetched_ids = 0,
      peer_needs_items = True, we_need_items = True, ids_requested = None,
      last_sync_received_time = 0, sync_requested = {}, last_block_seen = zero_id,
      last_block_time_seen = 0, inhibit_fetching = False, advertised_to_us = [],
      advertised_to_peer = [], items_requested = [], trx_inhibited_until = 0, last_known_fork = 0,
      firewall_check_state = None, handling_message = False\<rparr>"

subsection \<open>Queries\<close>

definition busy :: "peer \<Rightarrow> bool" where
  "busy p \<longleftrightarrow> items_requested p \<noteq> [] \<or> sync_requested p \<noteq> {} \<or> ids_requested p \<noteq> None"

definition idle :: "peer \<Rightarrow> bool" where
  "idle p \<longleftrightarrow> \<not> busy p"

definition trx_fetching_inhibited :: "int \<Rightarrow> peer \<Rightarrow> bool" where
  "trx_fetching_inhibited now p \<longleftrightarrow> trx_inhibited_until p > now"

definition endpoint_for_connecting :: "peer \<Rightarrow> endpoint option" where
  "endpoint_for_connecting p =
     (if inbound_port p \<noteq> 0 then Some (inbound_address p, inbound_port p) else None)"

definition performing_firewall_check :: "peer \<Rightarrow> bool" where
  "performing_firewall_check p \<longleftrightarrow>
     (case firewall_check_state p of None \<Rightarrow> False | Some f \<Rightarrow> requesting_peer f \<noteq> no_node_id)"

text \<open>Times beside items: one entry for each item, the first to come.\<close>

definition stamp_insert :: "'i \<Rightarrow> 't \<Rightarrow> ('i \<times> 't) list \<Rightarrow> ('i \<times> 't) list" where
  "stamp_insert i t m = (if i \<in> fst ` set m then m else m @ [(i, t)])"

definition drop_older :: "u32 \<Rightarrow> ('i \<times> u32) list \<Rightarrow> ('i \<times> u32) list" where
  "drop_older kept_since m = filter (\<lambda>(i, t). \<not> t < kept_since) m"

definition clear_old_inventory :: "int \<Rightarrow> peer \<Rightarrow> peer" where
  "clear_old_inventory now p =
     (let kept_since = sec_of (now - seconds_us (60 * int max_inventory_minutes))
      in p\<lparr>advertised_to_peer := drop_older kept_since (advertised_to_peer p),
           advertised_to_us := drop_older kept_since (advertised_to_us p)\<rparr>)"

definition inventory_full_for_trx :: "peer \<Rightarrow> bool" where
  "inventory_full_for_trx p \<longleftrightarrow>
     length (advertised_to_us p) > max_inventory_minutes * max_trx_per_second * 60"

definition inventory_full :: "peer \<Rightarrow> bool" where
  "inventory_full p \<longleftrightarrow>
     length (advertised_to_us p) > max_inventory_minutes * max_trx_per_second * 60
       + (max_inventory_minutes + 1) * 60 div news_block_interval"

subsection \<open>The queue of messages\<close>

text \<open>The time is written over the field named when the message was queued.\<close>

fun stamp_time :: "int \<Rightarrow> net_message \<Rightarrow> net_message" where
  "stamp_time now (Current_Time_Request t) = Current_Time_Request now"
| "stamp_time now (Current_Time_Reply a b c) = Current_Time_Reply a b now"
| "stamp_time now m = m"

definition queued_size :: "(net_message \<Rightarrow> bytes) \<Rightarrow> queued_message \<Rightarrow> nat" where
  "queued_size lib q = (case q of Real_Queued m _ \<Rightarrow> length (net_data lib m) | Virtual_Queued i \<Rightarrow> 24)"

definition queued_get :: "(net_item \<Rightarrow> net_message) \<Rightarrow> int \<Rightarrow> queued_message \<Rightarrow> net_message" where
  "queued_get lookup now q =
     (case q of Real_Queued m stamped \<Rightarrow> if stamped then stamp_time now m else m
              | Virtual_Queued i \<Rightarrow> lookup i)"

definition close_connection :: "int \<Rightarrow> peer \<Rightarrow> peer" where
  "close_connection now p =
     p\<lparr>status := Status_Closing,
       connection_terminated_time := (if connection_terminated_time p \<noteq> 0 then now else connection_terminated_time p),
       socket_closed := True\<rparr>"

definition send_queueable :: "(net_message \<Rightarrow> bytes) \<Rightarrow> int \<Rightarrow> queued_message \<Rightarrow> (peer, unit) sx" where
  "send_queueable lib now q p =
     (let p = p\<lparr>total_queued_size := total_queued_size p + queued_size lib q,
                queued_messages := queued_messages p @ [q]\<rparr>
      in if total_queued_size p > maximum_queued_bytes then (Inr (), close_connection now p)
         else if send_queued_task p = Task_Cancelled then (Inl Unhandled, p)
         else (Inr (), p\<lparr>send_queued_task := Task_Running\<rparr>))"

text \<open>The outcome of handing a message to the connection.\<close>

datatype send_outcome = Message_Sent | Send_Failed | Send_Std_Exception

text \<open>
  \<open>send_queued_messages_task\<close>: the messages handed to the connection and the peer after it. A failed
  send closes the connection with the queue as it is; a \<open>std::exception\<close> counts as sent.
\<close>

fun send_queued ::
    "(net_message \<Rightarrow> bytes) \<Rightarrow> (net_item \<Rightarrow> net_message) \<Rightarrow> (net_message \<Rightarrow> send_outcome) \<Rightarrow> int \<Rightarrow>
     queued_message list \<Rightarrow> peer \<Rightarrow> net_message list \<times> peer" where
  "send_queued lib lookup send now [] p = ([], p\<lparr>send_queued_task := Task_Done\<rparr>)"
| "send_queued lib lookup send now (q # qs) p =
     (let m = queued_get lookup now q in
      if send m = Send_Failed then ([m], (close_connection now p)\<lparr>send_queued_task := Task_Done\<rparr>)
      else (case send_queued lib lookup send now qs
                   (p\<lparr>last_message_sent_time := (if send m = Message_Sent then now else last_message_sent_time p),
                      total_queued_size := total_queued_size p - queued_size lib q,
                      queued_messages := qs\<rparr>) of
              (ms, p') \<Rightarrow> (m # ms, p')))"

definition send_queued_messages_task ::
    "(net_message \<Rightarrow> bytes) \<Rightarrow> (net_item \<Rightarrow> net_message) \<Rightarrow> (net_message \<Rightarrow> send_outcome) \<Rightarrow> int \<Rightarrow>
     peer \<Rightarrow> net_message list \<times> peer" where
  "send_queued_messages_task lib lookup send now p = send_queued lib lookup send now (queued_messages p) p"

subsection \<open>Connecting\<close>

text \<open>
  \<open>connected\<close> is whether the key exchange succeeded; if not, the exception goes on to the caller with
  the peer as it is.
\<close>

definition accept_connection :: "bool \<Rightarrow> endpoint \<Rightarrow> (peer, unit) sx" where
  "accept_connection connected local p =
     (let p = p\<lparr>direction := Inbound, status := Status_Accepting\<rparr>
      in if connected
         then (Inr (), p\<lparr>status := Status_Accepted, remote_endpoint := Some (socket_endpoint p),
                 inbound_address := fst local, inbound_port := snd local, outbound_port := snd local,
                 their_state := Their_Just_Connected, our_state := Our_Just_Connected\<rparr>)
         else (Inl Unhandled, p))"

definition connect_to :: "bool \<Rightarrow> endpoint \<Rightarrow> (peer, unit) sx" where
  "connect_to connected e p =
     (let p = p\<lparr>direction := Outbound, remote_endpoint := Some e, status := Status_Connecting\<rparr>
      in if connected
         then (Inr (), p\<lparr>status := Status_Connected, their_state := Their_Just_Connected,
                 our_state := Our_Just_Connected\<rparr>)
         else (Inl Unhandled, p))"

subsection \<open>Facts\<close>

text \<open>The bytes counted are those of the messages queued.\<close>

definition queue_counted :: "(net_message \<Rightarrow> bytes) \<Rightarrow> peer \<Rightarrow> bool" where
  "queue_counted lib p \<longleftrightarrow> total_queued_size p = sum_list (map (queued_size lib) (queued_messages p))"

lemma queue_counted_send:
  "queue_counted lib p \<Longrightarrow> queue_counted lib (snd (send_queueable lib now q p))"
  by (auto simp: queue_counted_def send_queueable_def close_connection_def Let_def)

lemma send_queued_counted:
  "queue_counted lib p \<Longrightarrow> queued_messages p = qs \<Longrightarrow>
   (case send_queued lib lookup send now qs p of (ms, p') \<Rightarrow> queue_counted lib p' \<and>
      (socket_closed p' = socket_closed p \<longrightarrow> socket_closed p \<or> queued_messages p' = []))"
proof (induction qs arbitrary: p)
  case Nil
  then show ?case by (simp add: queue_counted_def)
next
  case (Cons q qs)
  let ?p = "p\<lparr>last_message_sent_time := (if send (queued_get lookup now q) = Message_Sent then now else last_message_sent_time p),
      total_queued_size := total_queued_size p - queued_size lib q, queued_messages := qs\<rparr>"
  have "queue_counted lib ?p" using Cons.prems by (simp add: queue_counted_def)
  from Cons.IH [OF this] Cons.prems show ?case
    by (auto simp: Let_def close_connection_def queue_counted_def split: prod.splits)
qed

lemma stamp_insert_keys: "fst ` set (stamp_insert i t m) = insert i (fst ` set m)"
  by (auto simp: stamp_insert_def)

lemma drop_older_iff: "(i, t) \<in> set (drop_older kept_since m) \<longleftrightarrow> (i, t) \<in> set m \<and> \<not> t < kept_since"
  by (auto simp: drop_older_def)

text \<open>
  The time of closing is only set if it was set before: on a new peer, where it is zero, it stays
  zero for ever.
\<close>

lemma terminated_time_never_set:
  "connection_terminated_time p = 0 \<Longrightarrow> connection_terminated_time (close_connection now p) = 0"
  by (simp add: close_connection_def)

end
