(* ===== verification/Message_Cache.thy ===== *)
theory Message_Cache
  imports Net_Types
begin

section \<open>The network: the cache of messages\<close>

text \<open>
  \<open>blockchain_tied_message_cache\<close> of \<open>net/node.cpp\<close>: messages under their hash, kept for a number of
  accepted blocks. The list holds them in the order they came; among equal content hashes the
  index finds the oldest. Propagation data are the two times and the id of the peer.
\<close>

type_synonym propagation_data = "int \<times> int \<times> bytes"

record message_info =
  mi_hash :: bytes
  mi_body :: net_message
  mi_clock :: u32
  mi_propagation :: propagation_data
  mi_contents :: bytes

record message_cache =
  mc_infos :: "message_info list"
  mc_clock :: u32

definition empty_cache :: message_cache where
  "empty_cache = \<lparr>mc_infos = [], mc_clock = 0\<rparr>"

definition cache_block_accepted :: "message_cache \<Rightarrow> message_cache" where
  "cache_block_accepted c =
     (let clock = mc_clock c + 1;
          c = c\<lparr>mc_clock := clock\<rparr>
      in if clock > cache_duration_in_blocks
         then c\<lparr>mc_infos := filter (\<lambda>i. \<not> mi_clock i < clock - cache_duration_in_blocks) (mc_infos c)\<rparr>
         else c)"

definition cache_message ::
    "net_message \<Rightarrow> bytes \<Rightarrow> propagation_data \<Rightarrow> bytes \<Rightarrow> message_cache \<Rightarrow> message_cache" where
  "cache_message m h p contents c =
     (if h \<in> mi_hash ` set (mc_infos c) then c
      else c\<lparr>mc_infos := mc_infos c @
             [\<lparr>mi_hash = h, mi_body = m, mi_clock = mc_clock c, mi_propagation = p, mi_contents = contents\<rparr>]\<rparr>)"

definition cached_message :: "bytes \<Rightarrow> message_cache \<Rightarrow> net_message result" where
  "cached_message h c =
     (case List.find (\<lambda>i. mi_hash i = h) (mc_infos c) of
        Some i \<Rightarrow> Inr (mi_body i)
      | None \<Rightarrow> Inl Key_Not_Found)"

definition cached_propagation :: "bytes \<Rightarrow> message_cache \<Rightarrow> propagation_data result" where
  "cached_propagation contents c =
     (case (if contents \<noteq> zero_id then List.find (\<lambda>i. mi_contents i = contents) (mc_infos c) else None) of
        Some i \<Rightarrow> Inr (mi_propagation i)
      | None \<Rightarrow> Inl Key_Not_Found)"

subsection \<open>How long a message is kept\<close>

text \<open>Hashes are unique and nothing is stamped later than the clock.\<close>

definition cache_ok :: "message_cache \<Rightarrow> bool" where
  "cache_ok c \<longleftrightarrow> distinct (map mi_hash (mc_infos c)) \<and> (\<forall>i \<in> set (mc_infos c). mi_clock i \<le> mc_clock c)"

lemma cache_ok_message: "cache_ok c \<Longrightarrow> cache_ok (cache_message m h p x c)"
  by (auto simp: cache_ok_def cache_message_def)

lemma clock_step: "unat (mc_clock c) + 1 < 2 ^ 32 \<Longrightarrow> unat (mc_clock c + 1) = unat (mc_clock c) + 1"
  using unat_add_lem [of "mc_clock c" 1] by simp

lemma cache_ok_block:
  assumes "cache_ok c" and "unat (mc_clock c) + 1 < 2 ^ 32"
  shows "cache_ok (cache_block_accepted c)"
proof -
  have "mi_clock i \<le> mc_clock c + 1" if "mi_clock i \<le> mc_clock c" for i :: message_info
    using that clock_step [OF assms(2)] by (simp add: word_le_nat_alt)
  with assms(1) show ?thesis
    by (auto simp: cache_ok_def cache_block_accepted_def Let_def distinct_map_filter)
qed

lemma find_by_hash:
  "distinct (map mi_hash is) \<Longrightarrow> i \<in> set is \<Longrightarrow> mi_hash i = h \<Longrightarrow> List.find (\<lambda>i. mi_hash i = h) is = Some i"
  by (induction "is") (auto simp: rev_image_eqI)

text \<open>One more block: what was stamped more than 20 blocks ago goes, the rest stays.\<close>

lemma accepted_keeps:
  assumes "unat (mc_clock c) + 1 < 2 ^ 32"
  shows "i \<in> set (mc_infos (cache_block_accepted c)) \<longleftrightarrow>
      i \<in> set (mc_infos c) \<and> unat (mc_clock c) + 1 \<le> unat (mi_clock i) + 20"
proof (cases "mc_clock c + 1 > cache_duration_in_blocks")
  case True
  then have "20 < unat (mc_clock c) + 1"
    using clock_step [OF assms] by (simp add: cache_duration_in_blocks_def word_less_nat_alt)
  then have "unat (mc_clock c + 1 - 20) = unat (mc_clock c) + 1 - 20"
    using clock_step [OF assms] by (subst unat_sub) (simp_all add: word_le_nat_alt)
  then show ?thesis
    using True by (auto simp: cache_block_accepted_def Let_def word_less_nat_alt cache_duration_in_blocks_def not_less)
next
  case False
  then have "unat (mc_clock c) + 1 \<le> 20"
    using clock_step [OF assms] by (simp add: cache_duration_in_blocks_def word_less_nat_alt not_less)
  with False show ?thesis by (auto simp: cache_block_accepted_def Let_def)
qed

lemma accepted_clock: "mc_clock (cache_block_accepted c) = mc_clock c + 1"
  by (simp add: cache_block_accepted_def Let_def)

lemma accepted_many:
  assumes "unat (mc_clock c) + n < 2 ^ 32" and "cache_ok c"
  shows "cache_ok ((cache_block_accepted ^^ n) c) \<and>
    unat (mc_clock ((cache_block_accepted ^^ n) c)) = unat (mc_clock c) + n \<and>
    (i \<in> set (mc_infos ((cache_block_accepted ^^ n) c)) \<longleftrightarrow>
       i \<in> set (mc_infos c) \<and> (n = 0 \<or> unat (mc_clock c) + n \<le> unat (mi_clock i) + 20))"
  using assms(1)
proof (induction n)
  case 0
  then show ?case using assms(2) by simp
next
  case (Suc n)
  let ?d = "(cache_block_accepted ^^ n) c"
  from Suc have ih: "cache_ok ?d" "unat (mc_clock ?d) = unat (mc_clock c) + n"
    "i \<in> set (mc_infos ?d) \<longleftrightarrow> i \<in> set (mc_infos c) \<and> (n = 0 \<or> unat (mc_clock c) + n \<le> unat (mi_clock i) + 20)"
    by auto
  with Suc.prems have s: "unat (mc_clock ?d) + 1 < 2 ^ 32" by simp
  show ?case
    using cache_ok_block [OF ih(1) s] accepted_keeps [OF s, of i] accepted_clock [of ?d] clock_step [OF s] ih
    by auto
qed

text \<open>After the message is cached it is found for 20 blocks, and from the next on it is not.\<close>

lemma cached_for_20_blocks:
  assumes ok: "cache_ok c" and new: "h \<notin> mi_hash ` set (mc_infos c)"
    and clock: "unat (mc_clock c) + n < 2 ^ 32"
  shows "cached_message h ((cache_block_accepted ^^ n) (cache_message m h p x c)) =
    (if n \<le> 20 then Inr m else Inl Key_Not_Found)"
proof -
  let ?i = "\<lparr>mi_hash = h, mi_body = m, mi_clock = mc_clock c, mi_propagation = p, mi_contents = x\<rparr>"
  let ?c = "cache_message m h p x c" and ?d = "(cache_block_accepted ^^ n) (cache_message m h p x c)"
  have c: "mc_infos ?c = mc_infos c @ [?i]" "mc_clock ?c = mc_clock c"
    using new by (simp_all add: cache_message_def)
  have all: "j \<in> set (mc_infos ?d) \<longleftrightarrow>
      j \<in> set (mc_infos ?c) \<and> (n = 0 \<or> unat (mc_clock c) + n \<le> unat (mi_clock j) + 20)"
    and d: "cache_ok ?d" for j
    using accepted_many [of ?c n j] cache_ok_message [OF ok] clock by (auto simp: c)
  show ?thesis
  proof (cases "n \<le> 20")
    case True
    then have "?i \<in> set (mc_infos ?d)" by (simp add: all c)
    with d True show ?thesis
      using find_by_hash [of "mc_infos ?d" ?i h] by (simp add: cached_message_def cache_ok_def)
  next
    case False
    have "mi_hash j \<noteq> h" if "j \<in> set (mc_infos ?d)" for j
    proof -
      have "j \<in> set (mc_infos c) \<or> mi_clock j = mc_clock c" using that by (auto simp: all c)
      with that False new show ?thesis by (auto simp: all)
    qed
    then have "List.find (\<lambda>i. mi_hash i = h) (mc_infos ?d) = None" by (auto simp: find_None_iff)
    with False show ?thesis by (simp add: cached_message_def)
  qed
qed

end
