(* ===== verification/Frames.thy ===== *)
theory Frames
  imports Net_Types
begin

section \<open>The network: messages on a connection\<close>

text \<open>
  \<open>net/message_oriented_connection.cpp\<close>: a message is sent as its eight-byte header and its data,
  padded to a multiple of 16 bytes, and read back in a loop that hands each message to the peer.
  The channel below (key exchange and cipher, \<open>stcp_socket.cpp\<close>) carries bytes in order; how it cuts
  and encrypts them is not modelled. A read past the end of what arrived is an end of file.
\<close>

record frame_message =
  fm_size :: u32
  fm_type :: u32
  fm_data :: bytes

definition message_of :: "u32 \<Rightarrow> bytes \<Rightarrow> frame_message" where
  "message_of t d = \<lparr>fm_size = word_of_nat (length d), fm_type = t, fm_data = d\<rparr>"

text \<open>The header as it lies in memory. Copying more bytes than \<open>data\<close> has is undefined.\<close>

definition header_bytes :: "frame_message \<Rightarrow> bytes" where
  "header_bytes m = le_bytes 4 (unat (fm_size m)) @ le_bytes 4 (unat (fm_type m))"

definition send_frame :: "frame_message \<Rightarrow> bytes result" where
  "send_frame m =
     (let n = 8 + unat (fm_size m);
          padded = 16 * ((n + 15) div 16)
      in if unat (fm_size m) \<le> length (fm_data m)
         then Inr (header_bytes m @ take (unat (fm_size m)) (fm_data m) @ replicate (padded - n) 0)
         else Inl Undefined)"

definition sock_read :: "nat \<Rightarrow> (bytes, bytes) sx" where
  "sock_read n s = (if n \<le> length s then (Inr (take n s), drop n s) else (Inl Eof, []))"

text \<open>The size is subtracted from as 32-bit unsigned; eight bytes of data come with the header.\<close>

definition bytes_left :: "u32 \<Rightarrow> u32" where
  "bytes_left sz = 16 * ((sz - 8 + 15) div 16)"

definition resize_data :: "nat \<Rightarrow> bytes \<Rightarrow> bytes" where
  "resize_data n d = take n d @ replicate (n - length d) 0"

definition read_frame :: "(bytes, frame_message) sx" where
  "read_frame =
     bnd (sock_read 16) (\<lambda>buffer.
     let sz = word_of_nat (of_le (take 4 buffer));
         t = word_of_nat (of_le (take 4 (drop 4 buffer)))
     in seq (check (unat sz \<le> max_message_size) Fc_Assert)
          (bnd (if bytes_left sz \<noteq> 0 then sock_read (unat (bytes_left sz)) else ret []) (\<lambda>more.
           ret \<lparr>fm_size = sz, fm_type = t, fm_data = resize_data (unat sz) (drop 8 buffer @ more)\<rparr>)))"

lemma sock_read_shrinks: "sock_read n s = (Inr d, t) \<Longrightarrow> length t + n = length s"
  by (auto simp: sock_read_def split: if_splits)

lemma read_frame_shrinks: "read_frame s = (Inr m, t) \<Longrightarrow> length t < length s"
  by (auto simp: read_frame_def bnd_Inr_iff seq_Inr_iff check_def ret_def raise_def Let_def
      dest!: sock_read_shrinks split: if_splits)

text \<open>The loop goes on until an exception ends it; the delegate's state stays as it was then.\<close>

function read_loop :: "(frame_message \<Rightarrow> ('s, unit) sx) \<Rightarrow> 's \<Rightarrow> bytes \<Rightarrow> error \<times> 's" where
  "read_loop deliver s bs =
     (case read_frame bs of
        (Inl e, _) \<Rightarrow> (e, s)
      | (Inr m, rest) \<Rightarrow>
          (case deliver m s of
             (Inl e, s') \<Rightarrow> (e, s')
           | (Inr _, s') \<Rightarrow> read_loop deliver s' rest))"
  by pat_completeness auto

termination
  by (relation "measure (\<lambda>(d, s, bs). length bs)") (auto dest: read_frame_shrinks [OF sym])

declare read_loop.simps [simp del]

text \<open>
  What follows the loop: the peer is told that the connection closed, and anything but an end of
  file is thrown again as unhandled.
\<close>

definition run_connection ::
    "(frame_message \<Rightarrow> ('s, unit) sx) \<Rightarrow> ('s \<Rightarrow> 's) \<Rightarrow> bytes \<Rightarrow> ('s, unit) sx" where
  "run_connection deliver closed bs s =
     (case read_loop deliver s bs of
        (e, s') \<Rightarrow> (if e = Eof then Inr () else Inl Unhandled, closed s'))"

subsection \<open>What is sent is read\<close>

definition sendable :: "frame_message \<Rightarrow> bool" where
  "sendable m \<longleftrightarrow> unat (fm_size m) = length (fm_data m) \<and> length (fm_data m) \<le> max_message_size"

lemma sendable_message_of: "length d \<le> max_message_size \<Longrightarrow> sendable (message_of t d)"
  by (simp add: sendable_def message_of_def max_message_size_def unat_of_nat)

text \<open>The reader asks for as many bytes as the writer padded to.\<close>

lemma bytes_left_nat:
  assumes "unat sz \<le> max_message_size"
  shows "unat (bytes_left sz) = 16 * ((unat sz + 7) div 16)"
proof -
  have s: "unat (sz + 7) = unat sz + 7"
    using assms unat_add_lem [of sz 7] by (simp add: max_message_size_def)
  have "sz - 8 + 15 = sz + 7" by simp
  moreover have "16 * ((unat sz + 7) div 16) < 2 ^ 32"
    using assms by (simp add: max_message_size_def)
  ultimately show ?thesis
    using s by (simp add: bytes_left_def unat_word_ariths unat_div)
qed

lemma read_back_frame:
  assumes "sendable m"
  shows "\<exists>f. send_frame m = Inr f \<and> read_frame (f @ rest) = (Inr m, rest)"
proof -
  let ?d = "fm_data m" and ?n = "length (fm_data m)"
  have n: "unat (fm_size m) = ?n" "?n \<le> max_message_size" using assms by (auto simp: sendable_def)
  let ?pad = "16 * ((8 + ?n + 15) div 16) - (8 + ?n)"
  let ?body = "?d @ replicate ?pad 0"
  have f: "send_frame m = Inr (header_bytes m @ ?body)"
    using n by (simp add: send_frame_def Let_def add.commute)
  have h: "length (header_bytes m) = 8"
    by (simp add: header_bytes_def)
  have b: "length ?body = 8 + 16 * ((?n + 7) div 16)"
  proof -
    have "(8 + ?n + 15) div 16 = 1 + (?n + 7) div 16" by linarith
    moreover have "8 + ?n \<le> 16 * ((8 + ?n + 15) div 16)" by linarith
    ultimately show ?thesis by simp
  qed
  let ?all = "(header_bytes m @ ?body) @ rest"
  have first: "sock_read 16 ?all = (Inr (header_bytes m @ take 8 ?body), drop 8 ?body @ rest)"
    using h b by (simp add: sock_read_def)
  have size: "word_of_nat (of_le (take 4 (header_bytes m @ x))) = fm_size m"
    and kind: "word_of_nat (of_le (take 4 (drop 4 (header_bytes m @ x)))) = fm_type m" for x
    using of_le_bytes [of 4 "unat (fm_size m)"] of_le_bytes [of 4 "unat (fm_type m)"]
      unat_bound [of "fm_size m"] unat_bound [of "fm_type m"]
    by (simp_all add: header_bytes_def)
  have more: "(if bytes_left (fm_size m) \<noteq> 0 then sock_read (unat (bytes_left (fm_size m))) else ret []) (drop 8 ?body @ rest)
      = (Inr (drop 8 ?body), rest)"
  proof -
    have l: "unat (bytes_left (fm_size m)) = length (drop 8 ?body)"
      using b bytes_left_nat [of "fm_size m"] n by simp
    then have "bytes_left (fm_size m) = 0 \<longleftrightarrow> drop 8 ?body = []"
      by (metis length_0_conv unat_0 unat_eq_zero)
    with l show ?thesis by (auto simp: sock_read_def ret_def)
  qed
  have data: "resize_data (unat (fm_size m)) (drop 8 (header_bytes m @ take 8 ?body) @ drop 8 ?body) = ?d"
  proof -
    have "drop 8 (header_bytes m @ take 8 ?body) @ drop 8 ?body = ?body"
      using h append_take_drop_id [of 8 ?body] by simp
    then show ?thesis using n by (simp add: resize_data_def)
  qed
  have c: "check (unat (fm_size m) \<le> max_message_size) Fc_Assert x = (Inr (), x)" for x :: bytes
    using n by (simp add: check_def ret_def)
  have "read_frame ?all = (Inr m, rest)"
    unfolding read_frame_def bnd_def first Let_def
    by (simp only: prod.case sum.case size kind seq_def bnd_def c more ret_def data) simp
  with f show ?thesis by auto
qed

definition frame_bytes :: "frame_message \<Rightarrow> bytes" where
  "frame_bytes m = (case send_frame m of Inr f \<Rightarrow> f | Inl _ \<Rightarrow> [])"

lemma read_frame_bytes: "sendable m \<Longrightarrow> read_frame (frame_bytes m @ rest) = (Inr m, rest)"
  using read_back_frame [of m rest] by (auto simp: frame_bytes_def)

lemma read_loop_frames:
  "list_all sendable ms \<Longrightarrow>
   read_loop deliver s (concat (map frame_bytes ms) @ rest) =
     (case each deliver ms s of (Inl e, s') \<Rightarrow> (e, s') | (Inr _, s') \<Rightarrow> read_loop deliver s' rest)"
proof (induction ms arbitrary: s)
  case Nil
  then show ?case by (simp add: ret_def)
next
  case (Cons m ms)
  then have m: "read_frame ((frame_bytes m @ concat (map frame_bytes ms)) @ rest)
      = (Inr m, concat (map frame_bytes ms) @ rest)"
    by (simp add: read_frame_bytes)
  show ?case
    using Cons by (simp add: read_loop.simps [of deliver s] m [simplified] seq_def bnd_def split: prod.splits sum.splits)
qed

lemma read_loop_end: "length bs < 16 \<Longrightarrow> read_loop deliver s bs = (Eof, s)"
  by (subst read_loop.simps) (simp add: read_frame_def bnd_def sock_read_def)

end
