(* ===== verification/Node.thy ===== *)
theory Node
  imports Peer_Connection Message_Cache Frames
begin

section \<open>The network node: state, connections, disconnecting\<close>

text \<open>
  \<open>node_impl\<close> of \<open>net/node.cpp\<close>. Peers are created once and shared by pointer: \<open>peers\<close> holds them and
  the sets of connections hold indices into it, in the order in which they are iterated (an
  \<open>unordered_set\<close> leaves it open; a new element goes to the end). The calls to the node delegate are the
  record \<open>delegate\<close> over the state of the chain, which the node carries along. A handler runs to its
  end before the next: the fibers that may run while it waits for the delegate or for a task are
  not interleaved. Tasks that the code starts and does not wait for are steps of their own. The
  time is that of the step.
\<close>

subsection \<open>The delegate and the surroundings\<close>

record 'c delegate =
  dg_chain_id :: bytes
  dg_has_item :: "net_item \<Rightarrow> ('c, bool) sx"
  dg_handle_block :: "signed_block \<Rightarrow> bytes \<Rightarrow> bool \<Rightarrow> ('c, bytes list) sx"
  dg_handle_transaction :: "signed_transaction \<Rightarrow> ('c, unit) sx"
  dg_handle_message :: "net_message \<Rightarrow> ('c, unit) sx"
  dg_block_ids :: "bytes list \<Rightarrow> ('c, bytes list \<times> u32) sx"
  dg_item :: "net_item \<Rightarrow> ('c, net_message) sx"
  dg_synopsis :: "bytes \<Rightarrow> u32 \<Rightarrow> ('c, bytes list) sx"
  dg_block_number :: "bytes \<Rightarrow> u32"
  dg_block_time :: "bytes \<Rightarrow> ('c, u32) sx"
  dg_blockchain_now :: u32
  dg_head_id :: "('c, bytes) sx"
  dg_estimate_fork :: "u32 \<Rightarrow> u32"

record 'c node_env =
  ne_now :: int
  ne_crypto :: crypto
  ne_lib :: "net_message \<Rightarrow> bytes"
  ne_delegate :: "'c delegate"
  ne_secret :: "nat \<Rightarrow> bytes"

text \<open>
  \<open>ne_secret\<close> is the secret shared with each peer after the key exchange. The exceptions that are \<open>fc::exception\<close>s, and those that no handler of the node
  catches.
\<close>

definition uncaught :: "error \<Rightarrow> bool" where
  "uncaught e \<longleftrightarrow> e \<in> {Undefined, Diverged}"

definition fc_exception :: "error \<Rightarrow> bool" where
  "fc_exception e \<longleftrightarrow> e \<notin> {Undefined, Diverged, Logic_Error, Out_Of_Range, Runtime_Error, Lock_Exception}"

subsection \<open>State\<close>

record node_configuration =
  accepts_incoming :: bool
  desired_connections :: u32
  maximum_connections :: u32
  retry_timeout :: u32
  inactivity_timeout :: u32
  advertising_disabled :: bool
  max_blocks_at_once :: nat
  max_prefetch :: nat
  max_blocks_per_peer :: nat
  ignored_request_timeout :: int

definition default_configuration :: node_configuration where
  "default_configuration =
     \<lparr>accepts_incoming = True, desired_connections = 20, maximum_connections = 200, retry_timeout = 30,
      inactivity_timeout = 500, advertising_disabled = False, max_blocks_at_once = 200,
      max_prefetch = 10 * 200, max_blocks_per_peer = 200, ignored_request_timeout = 10000000\<rparr>"

record fetch_item =
  fi_item :: net_item
  fi_number :: u32
  fi_time :: int

type_synonym block_message = "signed_block \<times> bytes"

record 'c node =
  chain :: 'c
  configuration :: node_configuration
  peers :: "peer list"
  handshaking :: "nat list"
  active_peers :: "nat list"
  closing :: "nat list"
  terminating :: "nat list"
  peers_to_delete :: "nat list"
  node_firewalled :: firewalled_state
  visible_endpoint :: "endpoint option"
  last_firewall_check :: int
  peer_db :: "potential_peer list"
  peer_db_updated :: bool
  add_once :: "endpoint list"
  own_node_id :: bytes
  own_public_key :: bytes
  own_private_key :: bytes
  listening_endpoint :: endpoint
  own_user_agent :: string
  allowed_peers :: "bytes list"
  sync_fetch_updated :: bool
  active_sync_requests :: "(bytes \<times> int) list"
  new_received_blocks :: "block_message list"
  received_blocks :: "block_message list"
  backlog_scheduled :: bool
  suspend_fetching :: bool
  blocks_in_progress :: "block_message list"
  items_fetch_updated :: bool
  sequence_counter :: u32
  items_to_fetch :: "fetch_item list"
  recently_failed :: "(net_item \<times> u32) list"
  new_inventory :: "net_item list"
  recent_accepted :: "bytes list"
  sync_item_type :: u32
  total_unfetched :: u32
  hard_fork_blocks :: "u32 list"
  message_cache :: message_cache
  last_reported_connections :: u32
  shutting_down :: bool
  being_processed :: "bytes list"

text \<open>The delegate runs on its own state; a peer's statement on that peer.\<close>

definition call :: "('c, 'a) sx \<Rightarrow> ('c node, 'a) sx" where
  "call m s = (case m (chain s) of (r, c) \<Rightarrow> (r, s\<lparr>chain := c\<rparr>))"

definition the_peer :: "nat \<Rightarrow> 'c node \<Rightarrow> peer" where
  "the_peer a s = peers s ! a"

definition on_peer :: "nat \<Rightarrow> (peer, 'a) sx \<Rightarrow> ('c node, 'a) sx" where
  "on_peer a m s = (case m (peers s ! a) of (r, p) \<Rightarrow> (r, s\<lparr>peers := (peers s)[a := p]\<rparr>))"

definition set_peer :: "nat \<Rightarrow> (peer \<Rightarrow> peer) \<Rightarrow> ('c node, unit) sx" where
  "set_peer a f = on_peer a (update f)"

definition ask_peer :: "nat \<Rightarrow> (peer \<Rightarrow> 'a) \<Rightarrow> ('c node, 'a) sx" where
  "ask_peer a f = gets (\<lambda>s. f (the_peer a s))"

definition send :: "'c node_env \<Rightarrow> nat \<Rightarrow> net_message \<Rightarrow> ('c node, unit) sx" where
  "send env a m = on_peer a (send_queueable (ne_lib env) (ne_now env) (Real_Queued m False))"

definition send_stamped :: "'c node_env \<Rightarrow> nat \<Rightarrow> net_message \<Rightarrow> ('c node, unit) sx" where
  "send_stamped env a m = on_peer a (send_queueable (ne_lib env) (ne_now env) (Real_Queued m True))"

definition send_item :: "'c node_env \<Rightarrow> nat \<Rightarrow> net_item \<Rightarrow> ('c node, unit) sx" where
  "send_item env a i = on_peer a (send_queueable (ne_lib env) (ne_now env) (Virtual_Queued i))"

definition set_insert :: "'x \<Rightarrow> 'x list \<Rightarrow> 'x list" where
  "set_insert x xs = (if x \<in> set xs then xs else xs @ [x])"

subsection \<open>Triggers\<close>

definition trigger_connect_loop :: "('c node, unit) sx" where
  "trigger_connect_loop = update (\<lambda>s. s\<lparr>peer_db_updated := True\<rparr>)"

definition trigger_fetch_sync_items_loop :: "('c node, unit) sx" where
  "trigger_fetch_sync_items_loop = update (\<lambda>s. s\<lparr>sync_fetch_updated := True\<rparr>)"

definition trigger_fetch_items_loop :: "('c node, unit) sx" where
  "trigger_fetch_items_loop = update (\<lambda>s. s\<lparr>items_fetch_updated := True\<rparr>)"

definition trigger_backlog :: "('c node, unit) sx" where
  "trigger_backlog = update (\<lambda>s. if shutting_down s then s else s\<lparr>backlog_scheduled := True\<rparr>)"

subsection \<open>The sets of connections\<close>

definition move_peer_to_active_list :: "nat \<Rightarrow> ('c node, unit) sx" where
  "move_peer_to_active_list a = update (\<lambda>s. s\<lparr>
     active_peers := set_insert a (active_peers s), handshaking := removeAll a (handshaking s),
     closing := removeAll a (closing s), terminating := removeAll a (terminating s)\<rparr>)"

definition move_peer_to_closing_list :: "nat \<Rightarrow> ('c node, unit) sx" where
  "move_peer_to_closing_list a = update (\<lambda>s. s\<lparr>
     active_peers := removeAll a (active_peers s), handshaking := removeAll a (handshaking s),
     closing := set_insert a (closing s), terminating := removeAll a (terminating s)\<rparr>)"

definition move_peer_to_terminating_list :: "nat \<Rightarrow> ('c node, unit) sx" where
  "move_peer_to_terminating_list a = update (\<lambda>s. s\<lparr>
     active_peers := removeAll a (active_peers s), handshaking := removeAll a (handshaking s),
     closing := removeAll a (closing s), terminating := set_insert a (terminating s)\<rparr>)"

definition number_of_connections :: "'c node \<Rightarrow> u32" where
  "number_of_connections s = word_of_nat (length (handshaking s) + length (active_peers s))"

definition is_accepting_new_connections :: "'c node \<Rightarrow> bool" where
  "is_accepting_new_connections s \<longleftrightarrow>
     \<not> shutting_down s \<and> number_of_connections s \<le> maximum_connections (configuration s)"

definition is_wanting_new_connections :: "'c node \<Rightarrow> bool" where
  "is_wanting_new_connections s \<longleftrightarrow>
     \<not> shutting_down s \<and> number_of_connections s < desired_connections (configuration s)"

definition get_peer_by_node_id :: "bytes \<Rightarrow> 'c node \<Rightarrow> nat option" where
  "get_peer_by_node_id i s =
     List.find (\<lambda>a. i = node_id (the_peer a s)) (active_peers s @ handshaking s)"

definition is_already_connected_to_id :: "bytes \<Rightarrow> 'c node \<Rightarrow> bool" where
  "is_already_connected_to_id i s \<longleftrightarrow>
     i = own_node_id s \<or> (\<exists>a \<in> set (active_peers s). i = node_id (the_peer a s)) \<or>
     (\<exists>a \<in> set (handshaking s). i = node_id (the_peer a s))"

definition get_connection_to_endpoint :: "endpoint \<Rightarrow> 'c node \<Rightarrow> nat option" where
  "get_connection_to_endpoint e s =
     List.find (\<lambda>a. remote_endpoint (the_peer a s) = Some e) (active_peers s @ handshaking s)"

definition is_connection_in_progress :: "endpoint \<Rightarrow> 'c node \<Rightarrow> bool" where
  "is_connection_in_progress e s \<longleftrightarrow> get_connection_to_endpoint e s \<noteq> None"

text \<open>The task of deletion is asked for at once and runs later; it empties the list.\<close>

definition schedule_peer_for_deletion :: "nat \<Rightarrow> ('c node, unit) sx" where
  "schedule_peer_for_deletion a = update (\<lambda>s. s\<lparr>peers_to_delete := peers_to_delete s @ [a]\<rparr>)"

definition delayed_peer_deletion_task :: "('c node, unit) sx" where
  "delayed_peer_deletion_task = update (\<lambda>s. s\<lparr>peers_to_delete := []\<rparr>)"

definition report_connection_count :: "('c node, unit) sx" where
  "report_connection_count = update (\<lambda>s. s\<lparr>last_reported_connections := word_of_nat (length (active_peers s))\<rparr>)"

subsection \<open>The database of peers\<close>

definition update_known_peer :: "endpoint \<Rightarrow> (potential_peer \<Rightarrow> potential_peer) \<Rightarrow> ('c node, unit) sx" where
  "update_known_peer e f = update (\<lambda>s.
     case lookup_endpoint e (peer_db s) of
       Some r \<Rightarrow> s\<lparr>peer_db := update_entry (f r) (peer_db s)\<rparr>
     | None \<Rightarrow> s)"

definition update_or_create_peer :: "endpoint \<Rightarrow> (potential_peer \<Rightarrow> potential_peer) \<Rightarrow> ('c node, unit) sx" where
  "update_or_create_peer e f =
     update (\<lambda>s. s\<lparr>peer_db := update_entry (f (lookup_or_create e (peer_db s))) (peer_db s)\<rparr>)"

fun merge_addresses :: "address_info list \<Rightarrow> potential_peer list \<Rightarrow> bool \<times> potential_peer list" where
  "merge_addresses [] db = (False, db)"
| "merge_addresses (a # as) db =
     (if ai_firewalled a = Not_Firewalled
      then let r = lookup_or_create (ai_endpoint a) db;
               newer = ai_last_seen a > pp_last_seen r;
               r = r\<lparr>pp_last_seen := max (ai_last_seen a) (pp_last_seen r)\<rparr>
           in case merge_addresses as (update_entry r db) of (later, db') \<Rightarrow> (newer \<or> later, db')
      else merge_addresses as db)"

definition merge_address_info :: "address_info list \<Rightarrow> ('c node, bool) sx" where
  "merge_address_info as =
     bnd (gets peer_db) (\<lambda>db. case merge_addresses as db of
       (newer, db') \<Rightarrow> seq (update (\<lambda>s. s\<lparr>peer_db := db'\<rparr>)) (ret newer))"

subsection \<open>Disconnecting\<close>

definition record_last_error :: "'c node_env \<Rightarrow> error option \<Rightarrow> nat \<Rightarrow> ('c node, unit) sx" where
  "record_last_error env err a =
     bnd (ask_peer a endpoint_for_connecting) (\<lambda>ep.
       case ep of
         None \<Rightarrow> ret ()
       | Some e \<Rightarrow> update_known_peer e (\<lambda>r. r\<lparr>pp_last_seen := sec_of (ne_now env),
             pp_last_error := Some (case err of Some x \<Rightarrow> x | None \<Rightarrow> Unhandled)\<rparr>))"

definition disconnect_from_peer ::
    "'c node_env \<Rightarrow> nat \<Rightarrow> string \<Rightarrow> bool \<Rightarrow> error option \<Rightarrow> ('c node, unit) sx" where
  "disconnect_from_peer env a reason by_error err =
     seq (move_peer_to_closing_list a)
      (bnd (ask_peer a they_have_requested_close) (\<lambda>requested.
       if requested then set_peer a (close_connection (ne_now env))
       else seq (record_last_error env err a)
             (seq (set_peer a (\<lambda>p. p\<lparr>we_have_requested_close := True, connection_closed_time := ne_now env\<rparr>))
               (send env a (Closing_Connection reason by_error err)))))"

text \<open>Hard forks: a sorted list of block numbers.\<close>

definition is_hard_fork_block :: "u32 \<Rightarrow> 'c node \<Rightarrow> bool" where
  "is_hard_fork_block n s \<longleftrightarrow> n \<in> set (hard_fork_blocks s)"

definition next_known_hard_fork :: "u32 \<Rightarrow> 'c node \<Rightarrow> u32" where
  "next_known_hard_fork n s =
     (case dropWhile (\<lambda>k. k \<le> n) (hard_fork_blocks s) of [] \<Rightarrow> 0 | k # _ \<Rightarrow> k)"

end
