(* ===== verification/Node_Sync.thy ===== *)
theory Node_Sync
  imports Node
begin

section \<open>The network node: synchronising\<close>

text \<open>
  \<open>net/node.cpp\<close>, the messages that let two nodes agree on the chain: a synopsis of what one has, the
  ids that follow it, the requests for the blocks. The blocks themselves are in \<open>Node_Blocks\<close>.
\<close>

subsection \<open>The synopsis for a peer\<close>

text \<open>
  The loop that adds ids of blocks the peer has told us about, in 32-bit arithmetic. Round \<open>k\<close> looks at
  number \<open>low\<close>; an index past the list fails an assertion.
\<close>

fun synopsis_tail :: "nat \<Rightarrow> bytes list \<Rightarrow> u32 \<Rightarrow> u32 \<Rightarrow> u32 \<Rightarrow> bytes list result" where
  "synopsis_tail fuel ids first high low =
     rbind (if first \<le> low
            then (if unat (low - first) < length ids then Inr [ids ! unat (low - first)] else Inl Fc_Assert)
            else Inr []) (\<lambda>here.
     let low' = low + (high - low + 2) div 2
     in if low' \<le> high
        then (case fuel of
                0 \<Rightarrow> Inl Diverged
              | Suc k \<Rightarrow> rbind (synopsis_tail k ids first high low') (\<lambda>further. Inr (here @ further)))
        else Inr here)"

declare synopsis_tail.simps [simp del]

definition create_blockchain_synopsis_for_peer :: "'c node_env \<Rightarrow> nat \<Rightarrow> ('c node, bytes list) sx" where
  "create_blockchain_synopsis_for_peer env a =
     (let dg = ne_delegate env in
      bnd (ask_peer a last_block_seen) (\<lambda>reference.
      bnd (ask_peer a ids_of_items_to_get) (\<lambda>ids.
      let after = word_of_nat (length ids) in
      bnd (call (dg_synopsis dg reference after)) (\<lambda>synopsis.
      if after = 0 then ret synopsis
      else let first = dg_block_number dg (hd ids);
               high = first + word_of_nat (length ids) - 1;
               low = (if synopsis = [] then 1 else dg_block_number dg (hd synopsis))
           in bnd (lift_r (synopsis_tail 32 ids first high low)) (\<lambda>further. ret (synopsis @ further))))))"

definition fetch_next_batch_of_item_ids :: "'c node_env \<Rightarrow> nat \<Rightarrow> bool \<Rightarrow> ('c node, unit) sx" where
  "fetch_next_batch_of_item_ids env a reset =
     seq (if reset
          then seq (set_peer a (\<lambda>p. p\<lparr>last_block_seen := zero_id\<rparr>))
                (bnd (call (dg_block_time (ne_delegate env) zero_id)) (\<lambda>t.
                 set_peer a (\<lambda>p. p\<lparr>last_block_time_seen := t\<rparr>)))
          else ret ())
      (catch_sx
        (bnd (create_blockchain_synopsis_for_peer env a) (\<lambda>synopsis.
         bnd (gets sync_item_type) (\<lambda>t.
         seq (set_peer a (\<lambda>p. p\<lparr>ids_requested := Some (synopsis, ne_now env)\<rparr>))
             (send env a (Fetch_Blockchain_Ids t synopsis)))))
        (\<lambda>e. if e = Older_Than_Undo_History
             then disconnect_from_peer env a ''You are on a fork I'm unable to switch to'' False None
             else raise e))"

definition start_synchronizing_with_peer :: "'c node_env \<Rightarrow> nat \<Rightarrow> ('c node, unit) sx" where
  "start_synchronizing_with_peer env a =
     seq (set_peer a (\<lambda>p. p\<lparr>ids_of_items_to_get := [], unfetched_ids := 0, we_need_items := True,
            last_block_seen := zero_id\<rparr>))
      (bnd (call (dg_block_time (ne_delegate env) zero_id)) (\<lambda>t.
       seq (set_peer a (\<lambda>p. p\<lparr>last_block_time_seen := t, inhibit_fetching := False\<rparr>))
           (fetch_next_batch_of_item_ids env a False)))"

definition new_peer_just_added :: "'c node_env \<Rightarrow> nat \<Rightarrow> ('c node, unit) sx" where
  "new_peer_just_added env a =
     seq (send_stamped env a (Current_Time_Request 0))
      (seq (start_synchronizing_with_peer env a) report_connection_count)"

definition sync_from :: "net_item \<Rightarrow> u32 list \<Rightarrow> ('c node, unit) sx" where
  "sync_from current forks =
     update (\<lambda>s. s\<lparr>recent_accepted := [snd current], sync_item_type := fst current, hard_fork_blocks := forks\<rparr>)"

subsection \<open>A peer asks for ids\<close>

definition move_synced_peer :: "'c node_env \<Rightarrow> nat \<Rightarrow> ('c node, unit) sx" where
  "move_synced_peer env a =
     bnd (ask_peer a (\<lambda>p. (direction p, endpoint_for_connecting p))) (\<lambda>(d, ep).
     bnd (gets (\<lambda>s. a \<in> set (handshaking s))) (\<lambda>shaking.
     if d = Inbound \<and> shaking
     then seq (case ep of
                 None \<Rightarrow> ret ()
               | Some e \<Rightarrow> update_or_create_peer e (\<lambda>r. r\<lparr>pp_disposition := Connection_Succeeded\<rparr>))
           (seq (move_peer_to_active_list a) (new_peer_just_added env a))
     else ret ()))"

definition restart_if_behind :: "'c node_env \<Rightarrow> nat \<Rightarrow> u32 \<Rightarrow> bytes list \<Rightarrow> ('c node, unit) sx" where
  "restart_if_behind env a t synopsis =
     bnd (ask_peer a we_need_items) (\<lambda>need.
     if \<not> need \<and> synopsis \<noteq> []
     then bnd (call (dg_has_item (ne_delegate env) (t, last synopsis))) (\<lambda>has.
          if has then ret () else start_synchronizing_with_peer env a)
     else ret ())"

text \<open>
  Both branches of the code end in the same test whether to start synchronising again. An
  unreachable fork counts as an empty chain.
\<close>

definition on_fetch_blockchain_item_ids :: "'c node_env \<Rightarrow> nat \<Rightarrow> u32 \<Rightarrow> bytes list \<Rightarrow> ('c node, unit) sx" where
  "on_fetch_blockchain_item_ids env a t synopsis =
     bnd (catch_sx (call (dg_block_ids (ne_delegate env) synopsis))
            (\<lambda>e. if e = Unreachable_Fork then ret ([], 0) else raise e)) (\<lambda>(ids, remaining).
     bnd (ask_peer a inhibit_fetching) (\<lambda>inhibited.
     let in_sync = ids = [] \<or> (synopsis \<noteq> [] \<and> length ids = 1 \<and> last ids \<in> set synopsis);
         disconnect = ids \<noteq> [] \<and> in_sync \<and> inhibited
     in seq (set_peer a (\<lambda>p. p\<lparr>peer_needs_items := \<not> in_sync\<rparr>))
         (seq (restart_if_behind env a t synopsis)
          (seq (send env a (Blockchain_Item_Ids remaining t ids))
            (if disconnect
             then disconnect_from_peer env a ''you are on a fork that I'm unable to switch to'' False None
             else move_synced_peer env a)))))"

subsection \<open>A peer answers with ids\<close>

definition unsynced_block_count :: "'c node \<Rightarrow> u32" where
  "unsynced_block_count s =
     fold (\<lambda>a m. max m (word_of_nat (length (ids_of_items_to_get (the_peer a s))) + unfetched_ids (the_peer a s)))
       (active_peers s) 0"

text \<open>The answer must be consecutive, and start at one of the blocks we named, or at block 1.\<close>

fun sequential_from :: "('h \<Rightarrow> u32) \<Rightarrow> u32 \<Rightarrow> 'h list \<Rightarrow> bool" where
  "sequential_from number n [] \<longleftrightarrow> True"
| "sequential_from number n (h # hs) \<longleftrightarrow> number h = n \<and> sequential_from number (n + 1) hs"

definition valid_answer :: "(bytes \<Rightarrow> u32) \<Rightarrow> bytes list \<Rightarrow> bytes list \<Rightarrow> bool" where
  "valid_answer number synopsis ids \<longleftrightarrow>
     (case ids of
        [] \<Rightarrow> True
      | i # is \<Rightarrow> sequential_from number (number i + 1) is \<and>
                 (if synopsis = [] then number i = 1 else i \<in> set synopsis))"

text \<open>Ids that the chain already has are dropped, the last of them remembered.\<close>

fun flush_known :: "'c node_env \<Rightarrow> nat \<Rightarrow> u32 \<Rightarrow> bytes list \<Rightarrow> ('c node, bytes list) sx" where
  "flush_known env a t [] = ret []"
| "flush_known env a t (h # hs) =
     bnd (call (dg_has_item (ne_delegate env) (t, h))) (\<lambda>has.
     if has
     then seq (set_peer a (\<lambda>p. p\<lparr>last_block_seen := h\<rparr>))
           (bnd (call (dg_block_time (ne_delegate env) h)) (\<lambda>time.
            seq (set_peer a (\<lambda>p. p\<lparr>last_block_time_seen := time\<rparr>)) (flush_known env a t hs)))
     else ret (h # hs))"

definition first_for_other :: "nat \<Rightarrow> bytes \<Rightarrow> 'c node \<Rightarrow> bool" where
  "first_for_other a h s \<longleftrightarrow>
     (\<exists>b \<in> set (active_peers s). b \<noteq> a \<and> ids_of_items_to_get (the_peer b s) \<noteq> [] \<and>
        hd (ids_of_items_to_get (the_peer b s)) = h)"

text \<open>
  The new ids continue the old ones at the last id in common. Without one, the first new id is a
  block the chain is expected to have.
\<close>

definition pop_back_to :: "bytes \<Rightarrow> bytes list \<Rightarrow> bytes list" where
  "pop_back_to h hs = rev (dropWhile (\<lambda>x. x \<noteq> h) (rev hs))"

definition join_ids :: "'c node_env \<Rightarrow> nat \<Rightarrow> bytes list \<Rightarrow> ('c node, bytes list) sx" where
  "join_ids env a ids =
     bnd (ask_peer a ids_of_items_to_get) (\<lambda>old.
     let old' = pop_back_to (hd ids) old in
     if old' = []
     then seq (set_peer a (\<lambda>p. p\<lparr>ids_of_items_to_get := [], last_block_seen := hd ids\<rparr>))
           (bnd (call (dg_block_time (ne_delegate env) (hd ids))) (\<lambda>time.
            seq (set_peer a (\<lambda>p. p\<lparr>last_block_time_seen := time\<rparr>)) (ret (tl ids))))
     else seq (set_peer a (\<lambda>p. p\<lparr>ids_of_items_to_get := butlast old'\<rparr>)) (ret ids))"

definition received_ids :: "'c node_env \<Rightarrow> nat \<Rightarrow> u32 \<Rightarrow> bytes list \<Rightarrow> ('c node, bytes list) sx" where
  "received_ids env a t ids =
     (if ids = [] then ret []
      else bnd (ask_peer a ids_of_items_to_get) (\<lambda>old.
           if old = []
           then bnd (gets (first_for_other a (hd ids))) (\<lambda>other.
                if other then ret ids else flush_known env a t ids)
           else join_ids env a ids))"

definition minimum_last_time :: "peer \<Rightarrow> u32" where
  "minimum_last_time p = last_block_time_seen p + unfetched_ids p * word_of_nat news_block_interval"

definition update_unsynced_count :: "('c node, unit) sx" where
  "update_unsynced_count = update (\<lambda>s. s\<lparr>total_unfetched := unsynced_block_count s\<rparr>)"

definition next_sync_step :: "'c node_env \<Rightarrow> nat \<Rightarrow> u32 \<Rightarrow> ('c node, unit) sx" where
  "next_sync_step env a remaining =
     bnd (ask_peer a (\<lambda>p. length (ids_of_items_to_get p))) (\<lambda>n.
     if (if remaining \<noteq> 0 then n > min_block_ids_to_prefetch else n > 0)
     then trigger_fetch_sync_items_loop
     else fetch_next_batch_of_item_ids env a False)"

definition take_ids :: "'c node_env \<Rightarrow> nat \<Rightarrow> u32 \<Rightarrow> u32 \<Rightarrow> bytes list \<Rightarrow> ('c node, unit) sx" where
  "take_ids env a remaining t ids =
     seq (set_peer a (\<lambda>p. p\<lparr>unfetched_ids := remaining\<rparr>))
      (bnd (received_ids env a t ids) (\<lambda>new_ids.
       seq (set_peer a (\<lambda>p. p\<lparr>ids_of_items_to_get := ids_of_items_to_get p @ new_ids, unfetched_ids := remaining\<rparr>))
        (bnd (ask_peer a minimum_last_time) (\<lambda>time.
         if time > dg_blockchain_now (ne_delegate env) + future_sync_grace_sec
         then disconnect_from_peer env a ''You offered me a list of more sync blocks than could possibly exist'' True (Some Unhandled)
         else seq update_unsynced_count (next_sync_step env a remaining)))))"

text \<open>
  The number of unsynced blocks is also reported to the delegate, which ignores it.
  An answer that was not asked for is ignored; an invalid one ends the connection. An exception
  after the request was cleared is logged only.
\<close>

definition on_blockchain_item_ids :: "'c node_env \<Rightarrow> nat \<Rightarrow> u32 \<Rightarrow> u32 \<Rightarrow> bytes list \<Rightarrow> ('c node, unit) sx" where
  "on_blockchain_item_ids env a remaining t ids =
     (let dg = ne_delegate env in
      bnd (ask_peer a ids_requested) (\<lambda>request.
      case request of
        None \<Rightarrow> ret ()
      | Some (synopsis, _) \<Rightarrow>
          if \<not> valid_answer (dg_block_number dg) synopsis ids
          then disconnect_from_peer env a ''You gave an invalid response to my request for sync blocks'' True (Some Unhandled)
          else seq (set_peer a (\<lambda>p. p\<lparr>ids_requested := None\<rparr>))
           (catch_sx
             (bnd (ask_peer a (\<lambda>p. ids_of_items_to_get p = [] \<and> unfetched_ids p = 0)) (\<lambda>nothing_left.
              bnd (if remaining = 0 \<and> length ids = 1 then call (dg_has_item dg (t, hd ids)) else ret (ids = [])) (\<lambda>seen.
              if remaining = 0 \<and> (ids = [] \<or> length ids = 1 \<and> seen) \<and> nothing_left
              then seq (set_peer a (\<lambda>p. p\<lparr>we_need_items := False\<rparr>)) update_unsynced_count
              else take_ids env a remaining t ids)))
             (\<lambda>e. if uncaught e then raise e else ret ()))))"

subsection \<open>Asking for blocks\<close>

definition have_already_received_sync_item :: "bytes \<Rightarrow> 'c node \<Rightarrow> bool" where
  "have_already_received_sync_item h s \<longleftrightarrow>
     (\<exists>m \<in> set (received_blocks s). snd m = h) \<or> (\<exists>m \<in> set (new_received_blocks s). snd m = h)"

text \<open>What one peer is asked for: its ids that nobody is asked for yet, as far as the limit allows.\<close>

fun blocks_to_request :: "(bytes \<Rightarrow> bool) \<Rightarrow> nat \<Rightarrow> bytes list \<Rightarrow> bytes set \<Rightarrow> bytes list \<Rightarrow> bytes list" where
  "blocks_to_request busy_with limit [] taken asked = asked"
| "blocks_to_request busy_with limit (h # hs) taken asked =
     (if \<not> busy_with h \<and> h \<notin> taken
      then (if length asked + 1 \<ge> limit then asked @ [h]
            else blocks_to_request busy_with limit hs (insert h taken) (asked @ [h]))
      else blocks_to_request busy_with limit hs taken asked)"

definition already_requested :: "'c node \<Rightarrow> bytes \<Rightarrow> bool" where
  "already_requested s h \<longleftrightarrow> have_already_received_sync_item h s \<or> h \<in> fst ` set (active_sync_requests s)"

definition syncing_peer :: "'c node \<Rightarrow> nat \<Rightarrow> bool" where
  "syncing_peer s a \<longleftrightarrow> we_need_items (the_peer a s) \<and> idle (the_peer a s) \<and> \<not> inhibit_fetching (the_peer a s)"

fun sync_requests :: "'c node \<Rightarrow> nat list \<Rightarrow> bytes set \<Rightarrow> (nat \<times> bytes list) list" where
  "sync_requests s [] taken = []"
| "sync_requests s (a # as) taken =
     (if syncing_peer s a
      then let asked = blocks_to_request (already_requested s) (max_blocks_per_peer (configuration s))
                         (ids_of_items_to_get (the_peer a s)) taken []
           in if asked = [] then sync_requests s as taken
              else (a, asked) # sync_requests s as (taken \<union> set asked)
      else sync_requests s as taken)"

definition request_sync_items_from_peer :: "'c node_env \<Rightarrow> nat \<times> bytes list \<Rightarrow> ('c node, unit) sx" where
  "request_sync_items_from_peer env r =
     (case r of (a, hs) \<Rightarrow>
        seq (update (\<lambda>s. s\<lparr>active_sync_requests := fold (\<lambda>h m. stamp_insert h (ne_now env) m) hs (active_sync_requests s)\<rparr>))
         (seq (set_peer a (\<lambda>p. p\<lparr>last_sync_received_time := (if hs = [] then last_sync_received_time p else ne_now env),
                 sync_requested := sync_requested p \<union> set hs\<rparr>))
           (send env a (Fetch_Items block_message_type hs))))"

text \<open>One iteration of the loop; the requests go out in the order of the peers' addresses.\<close>

definition fetch_sync_items :: "'c node_env \<Rightarrow> ('c node, unit) sx" where
  "fetch_sync_items env =
     seq (update (\<lambda>s. s\<lparr>sync_fetch_updated := False\<rparr>))
      (bnd (gets suspend_fetching) (\<lambda>suspended.
       if suspended then ret ()
       else bnd (gets (\<lambda>s. sync_requests s (active_peers s) {})) (\<lambda>rs.
            each (request_sync_items_from_peer env) (sort_key fst rs))))"

end
