(* ===== verification/Node_Items.thy ===== *)
theory Node_Items
  imports Node_Sync
begin

section \<open>The network node: items\<close>

text \<open>
  \<open>net/node.cpp\<close>, normal operation: peers advertise the hashes of messages, the node asks one of them
  for each, passes what it gets to the delegate and advertises it further. The three loops of
  the code (fetching, advertising, ending inactive connections) are one definition for an iteration.
\<close>

subsection \<open>The items to fetch\<close>

text \<open>Blocks before transactions, then in the order of the counter, which may wrap.\<close>

definition fetched_before :: "fetch_item \<Rightarrow> fetch_item \<Rightarrow> bool" where
  "fetched_before x y \<longleftrightarrow>
     (if fst (fi_item x) \<noteq> fst (fi_item y) then fst (fi_item x) > fst (fi_item y)
      else sint (fi_number y - fi_number x) > 0)"

text \<open>Unique by item and by order.\<close>

definition insert_fetch_item :: "fetch_item \<Rightarrow> fetch_item list \<Rightarrow> fetch_item list" where
  "insert_fetch_item x xs =
     (if fi_item x \<in> fi_item ` set xs \<or> (\<exists>y \<in> set xs. \<not> fetched_before x y \<and> \<not> fetched_before y x) then xs
      else takeWhile (\<lambda>y. fetched_before y x) xs @ x # dropWhile (\<lambda>y. fetched_before y x) xs)"

definition want_item :: "int \<Rightarrow> net_item \<Rightarrow> ('c node, unit) sx" where
  "want_item now i = update (\<lambda>s. s\<lparr>
     items_to_fetch := insert_fetch_item \<lparr>fi_item = i, fi_number = sequence_counter s, fi_time = now\<rparr> (items_to_fetch s),
     sequence_counter := sequence_counter s + 1\<rparr>)"

definition advertised_by :: "net_item \<Rightarrow> 'c node \<Rightarrow> nat \<Rightarrow> bool" where
  "advertised_by i s a \<longleftrightarrow> i \<in> fst ` set (advertised_to_us (the_peer a s))"

definition is_item_in_any_inventory :: "net_item \<Rightarrow> 'c node \<Rightarrow> bool" where
  "is_item_in_any_inventory i s \<longleftrightarrow> (\<exists>a \<in> set (active_peers s). advertised_by i s a)"

subsection \<open>Advertised items\<close>

text \<open>
  The loop over the active peers stops at the first that we advertised the item to; whether one was
  asked for it is known for the peers before.
\<close>

definition we_advertised :: "net_item \<Rightarrow> 'c node \<Rightarrow> bool" where
  "we_advertised i s \<longleftrightarrow> (\<exists>a \<in> set (active_peers s). i \<in> fst ` set (advertised_to_peer (the_peer a s)))"

definition we_requested :: "net_item \<Rightarrow> 'c node \<Rightarrow> bool" where
  "we_requested i s \<longleftrightarrow> (\<exists>a \<in> set (active_peers s). i \<in> fst ` set (items_requested (the_peer a s)))"

definition refresh_time :: "net_item \<Rightarrow> int \<Rightarrow> fetch_item list \<Rightarrow> fetch_item list" where
  "refresh_time i now xs = map (\<lambda>x. if fi_item x = i then x\<lparr>fi_time := now\<rparr> else x) xs"

definition note_wanted :: "'c node_env \<Rightarrow> net_item \<Rightarrow> ('c node, unit) sx" where
  "note_wanted env i =
     bnd (gets (\<lambda>s. (we_requested i s, i \<in> fst ` set (recently_failed s), i \<in> fi_item ` set (items_to_fetch s)))) (\<lambda>(requested, failed, known).
     if requested \<or> failed then ret ()
     else if known then update (\<lambda>s. s\<lparr>items_to_fetch := refresh_time i (ne_now env) (items_to_fetch s)\<rparr>)
     else seq (want_item (ne_now env) i) trigger_fetch_items_loop)"

fun take_inventory :: "'c node_env \<Rightarrow> nat \<Rightarrow> u32 \<Rightarrow> bytes list \<Rightarrow> ('c node, unit) sx" where
  "take_inventory env a t [] = ret ()"
| "take_inventory env a t (h # hs) =
     bnd (gets (\<lambda>s. h \<in> set (being_processed s) \<or> (t, h) \<in> set (new_inventory s) \<or> we_advertised (t, h) s)) (\<lambda>known.
     if known then take_inventory env a t hs
     else bnd (ask_peer a (\<lambda>p. t = trx_message_type \<and> inventory_full_for_trx p \<or> inventory_full p)) (\<lambda>full.
          if full then ret ()
          else seq (set_peer a (\<lambda>p. p\<lparr>advertised_to_us := stamp_insert (t, h) (sec_of (ne_now env)) (advertised_to_us p)\<rparr>))
                (seq (note_wanted env (t, h)) (take_inventory env a t hs))))"

definition on_item_ids_inventory :: "'c node_env \<Rightarrow> nat \<Rightarrow> u32 \<Rightarrow> bytes list \<Rightarrow> ('c node, unit) sx" where
  "on_item_ids_inventory env a t hs =
     seq (set_peer a (clear_old_inventory (ne_now env))) (take_inventory env a t hs)"

subsection \<open>One iteration of fetching\<close>

text \<open>
  The idle peers with the items assigned to each, ordered by their number; a peer that gets one more is
  placed anew by the rules of the index. \<open>choose\<close> walks them for an item: the first peer that has room and
  advertised it takes it; a peer whose transactions are put off is passed over, and the earliest
  time it can be asked again is noted.
\<close>

type_synonym assignment = "nat \<times> net_item list"

definition assigned :: "assignment \<Rightarrow> nat" where
  "assigned x = length (snd x)"

fun choose_peer :: "int \<Rightarrow> 'c node \<Rightarrow> net_item \<Rightarrow> assignment list \<Rightarrow> int option \<Rightarrow> nat option \<times> int option" where
  "choose_peer now s i [] wake = (None, wake)"
| "choose_peer now s i ((a, is) # xs) wake =
     (if length is < max_items_per_peer \<and> advertised_by i s a
      then (if fst i = trx_message_type \<and> trx_fetching_inhibited now (the_peer a s)
            then choose_peer now s i xs (Some (case wake of None \<Rightarrow> trx_inhibited_until (the_peer a s)
                                                         | Some w \<Rightarrow> min (trx_inhibited_until (the_peer a s)) w))
            else (Some a, wake))
      else choose_peer now s i xs wake)"

definition assign :: "nat \<Rightarrow> net_item \<Rightarrow> assignment list \<Rightarrow> assignment list" where
  "assign a i xs = index_modify assigned (\<lambda>x. fst x = a) (\<lambda>(b, is). (b, is @ [i])) xs"

text \<open>The loop over the items: what is too old goes, what finds a peer goes to it, the rest is kept.\<close>

fun assign_items ::
    "int \<Rightarrow> int \<Rightarrow> 'c node \<Rightarrow> fetch_item list \<Rightarrow> assignment list \<Rightarrow> int option \<Rightarrow>
     fetch_item list \<times> assignment list \<times> int option" where
  "assign_items now from_time s [] xs wake = ([], xs, wake)"
| "assign_items now from_time s (x # rest) xs wake =
     (if fi_time x < from_time then assign_items now from_time s rest xs wake
      else case choose_peer now s (fi_item x) xs wake of
             (Some a, wake') \<Rightarrow> assign_items now from_time s rest (assign a (fi_item x) xs) wake'
           | (None, wake') \<Rightarrow>
               (case assign_items now from_time s rest xs wake' of (kept, xs', w) \<Rightarrow> (x # kept, xs', w)))"

text \<open>The requests to one peer, one message for each type in the order of the types.\<close>

definition types_of :: "net_item list \<Rightarrow> u32 list" where
  "types_of is = sort (remdups (map fst is))"

definition request_items_from_peer :: "'c node_env \<Rightarrow> assignment \<Rightarrow> ('c node, unit) sx" where
  "request_items_from_peer env x =
     (case x of (a, is) \<Rightarrow>
        each (\<lambda>t. send env a (Fetch_Items t (map snd (filter (\<lambda>i. fst i = t) is)))) (types_of is))"

definition note_requests :: "'c node_env \<Rightarrow> assignment \<Rightarrow> ('c node, unit) sx" where
  "note_requests env x =
     (case x of (a, is) \<Rightarrow>
        set_peer a (\<lambda>p. p\<lparr>items_requested := fold (\<lambda>i m. stamp_insert i (ne_now env) m) is (items_requested p)\<rparr>))"

definition idle_assignments :: "'c node \<Rightarrow> assignment list" where
  "idle_assignments s = map (\<lambda>a. (a, [])) (filter (\<lambda>a. idle (the_peer a s)) (active_peers s))"

definition oldest_to_fetch :: "int \<Rightarrow> int" where
  "oldest_to_fetch now = now - seconds_us (int news_block_interval * uint cache_duration_in_blocks)"

definition fetch_items :: "'c node_env \<Rightarrow> ('c node, int option) sx" where
  "fetch_items env =
     seq (update (\<lambda>s. s\<lparr>items_fetch_updated := False\<rparr>))
      (bnd (gets (\<lambda>s. assign_items (ne_now env) (oldest_to_fetch (ne_now env)) s (items_to_fetch s) (idle_assignments s) None)) (\<lambda>(kept, xs, wake).
       seq (update (\<lambda>s. s\<lparr>items_to_fetch := kept\<rparr>))
        (seq (each (note_requests env) xs)
          (seq (each (request_items_from_peer env) (sort_key fst xs)) (ret wake)))))"

subsection \<open>One iteration of advertising\<close>

definition fresh_for :: "peer \<Rightarrow> net_item list \<Rightarrow> net_item list" where
  "fresh_for p is =
     filter (\<lambda>i. i \<notin> fst ` set (advertised_to_peer p) \<and> i \<notin> fst ` set (advertised_to_us p)) is"

definition inventory_messages :: "net_item list \<Rightarrow> net_message list" where
  "inventory_messages is =
     map (\<lambda>t. Item_Ids_Inventory t (map snd (filter (\<lambda>i. fst i = t) is))) (types_of is)"

definition advertise_to_peer :: "'c node_env \<Rightarrow> net_item list \<Rightarrow> nat \<Rightarrow> ('c node, nat \<times> net_message list) sx" where
  "advertise_to_peer env is a =
     bnd (ask_peer a (\<lambda>p. if peer_needs_items p then [] else fresh_for p is)) (\<lambda>fresh.
     seq (set_peer a (\<lambda>p. clear_old_inventory (ne_now env) (p\<lparr>advertised_to_peer :=
            fold (\<lambda>i m. stamp_insert i (sec_of (ne_now env)) m) fresh (advertised_to_peer p)\<rparr>)))
       (ret (a, inventory_messages fresh)))"

fun collect :: "('x \<Rightarrow> ('s, 'y) sx) \<Rightarrow> 'x list \<Rightarrow> ('s, 'y list) sx" where
  "collect f [] = ret []"
| "collect f (x # xs) = bnd (f x) (\<lambda>y. bnd (collect f xs) (\<lambda>ys. ret (y # ys)))"

definition advertise_inventory :: "'c node_env \<Rightarrow> ('c node, unit) sx" where
  "advertise_inventory env =
     bnd (gets new_inventory) (\<lambda>is.
     seq (update (\<lambda>s. s\<lparr>new_inventory := []\<rparr>))
      (bnd (gets active_peers) (\<lambda>as.
       bnd (collect (advertise_to_peer env is) as) (\<lambda>ms.
       each (\<lambda>(a, msgs). each (send env a) msgs) ms))))"

subsection \<open>Broadcasting\<close>

definition push_recent :: "bytes \<Rightarrow> bytes list \<Rightarrow> bytes list" where
  "push_recent h hs = drop (length hs + 1 - default_max_connections) (hs @ [h])"

definition contents_id :: "crypto \<Rightarrow> net_message \<Rightarrow> bytes result" where
  "contents_id cr m =
     (case m of
        Block_Msg b i \<Rightarrow> Inr i
      | Other_Msg t d \<Rightarrow>
          if t = trx_message_type
          then rbind (message_as trx_message_type c_trx_message (t, d)) (\<lambda>x. Inr (transaction_id cr x))
          else Inr zero_id
      | _ \<Rightarrow> Inr zero_id)"

text \<open>\<open>h\<close> is the id of the message, the hash of its bytes.\<close>

definition broadcast_with :: "'c node_env \<Rightarrow> net_message \<Rightarrow> bytes \<Rightarrow> propagation_data \<Rightarrow> ('c node, unit) sx" where
  "broadcast_with env m h prop =
     bnd (lift_r (contents_id (ne_crypto env) m)) (\<lambda>contents.
     update (\<lambda>s. s\<lparr>
       recent_accepted := (case m of Block_Msg b i \<Rightarrow> push_recent i (recent_accepted s) | _ \<Rightarrow> recent_accepted s),
       message_cache := cache_message m h prop contents (message_cache s),
       new_inventory := set_insert (net_type m, h) (new_inventory s)\<rparr>))"

definition broadcast :: "'c node_env \<Rightarrow> net_message \<Rightarrow> ('c node, unit) sx" where
  "broadcast env m =
     bnd (gets own_node_id) (\<lambda>i.
     broadcast_with env m (message_hash (ne_crypto env) (ne_lib env) m) (ne_now env, ne_now env, i))"

subsection \<open>Items asked for and items missing\<close>

definition key_not_found_as_none :: "('s, 'a) sx \<Rightarrow> ('s, 'a option) sx" where
  "key_not_found_as_none m =
     catch_sx (bnd m (\<lambda>x. ret (Some x))) (\<lambda>e. if e = Key_Not_Found then ret None else raise e)"

definition find_message :: "'c node_env \<Rightarrow> net_item \<Rightarrow> ('c node, net_message) sx" where
  "find_message env i =
     bnd (key_not_found_as_none (bnd (gets (\<lambda>s. cached_message (snd i) (message_cache s))) lift_r)) (\<lambda>cached.
     case cached of
       Some m \<Rightarrow> ret m
     | None \<Rightarrow> bnd (key_not_found_as_none (call (dg_item (ne_delegate env) i))) (\<lambda>m.
         ret (case m of Some x \<Rightarrow> x | None \<Rightarrow> Item_Not_Available i)))"

text \<open>\<open>get_message_for_item\<close>: when a queued item is sent.\<close>

definition get_message_for_item :: "'c node_env \<Rightarrow> net_item \<Rightarrow> ('c node, net_message) sx" where
  "get_message_for_item env i = find_message env i"

definition send_reply :: "'c node_env \<Rightarrow> nat \<Rightarrow> net_message \<Rightarrow> ('c node, unit) sx" where
  "send_reply env a m =
     (case m of Block_Msg b i \<Rightarrow> send_item env a (block_message_type, i) | _ \<Rightarrow> send env a m)"

text \<open>
  The messages are found first, then all are sent. A found message under the type of blocks is
  read as a block; if it is none, reading it throws.
\<close>

definition block_replies :: "u32 \<Rightarrow> net_message list \<Rightarrow> (signed_block \<times> bytes) option result" where
  "block_replies t ms =
     (let found = filter (\<lambda>m. case m of Item_Not_Available _ \<Rightarrow> False | _ \<Rightarrow> True) ms
      in if t = block_message_type \<and> found \<noteq> []
         then (case last found of Block_Msg b i \<Rightarrow> Inr (Some (b, i)) | _ \<Rightarrow> Inl Fc_Assert)
         else Inr None)"

definition on_fetch_items :: "'c node_env \<Rightarrow> nat \<Rightarrow> u32 \<Rightarrow> bytes list \<Rightarrow> ('c node, unit) sx" where
  "on_fetch_items env a t hs =
     bnd (collect (\<lambda>h. find_message env (t, h)) hs) (\<lambda>ms.
     bnd (lift_r (block_replies t ms)) (\<lambda>last_block.
     seq (case last_block of
            None \<Rightarrow> ret ()
          | Some (b, i) \<Rightarrow>
              seq (set_peer a (\<lambda>p. p\<lparr>last_block_seen := i\<rparr>))
               (bnd (call (dg_block_time (ne_delegate env) i)) (\<lambda>time.
                set_peer a (\<lambda>p. p\<lparr>last_block_time_seen := time\<rparr>))))
       (each (send_reply env a) ms)))"

definition on_item_not_available :: "'c node_env \<Rightarrow> nat \<Rightarrow> net_item \<Rightarrow> ('c node, unit) sx" where
  "on_item_not_available env a i =
     bnd (ask_peer a (\<lambda>p. (i \<in> fst ` set (items_requested p), snd i \<in> sync_requested p, peer_needs_items p))) (\<lambda>(regular, sync, needs).
     if regular
     then seq (set_peer a (\<lambda>p. p\<lparr>items_requested := filter (\<lambda>x. fst x \<noteq> i) (items_requested p),
                 advertised_to_us := filter (\<lambda>x. fst x \<noteq> i) (advertised_to_us p)\<rparr>))
           (bnd (gets (is_item_in_any_inventory i)) (\<lambda>other.
            seq (if other then want_item (ne_now env) i else ret ()) trigger_fetch_items_loop))
     else if sync
     then seq (set_peer a (\<lambda>p. p\<lparr>sync_requested := sync_requested p - {snd i}\<rparr>))
           (seq (if needs then set_peer a (\<lambda>p. p\<lparr>inhibit_fetching := True\<rparr>)
                 else disconnect_from_peer env a ''You are missing a sync item you claim to have, your database is probably corrupted. Try --rebuild-index.'' True (Some Unhandled))
             trigger_fetch_sync_items_loop)
     else ret ())"

subsection \<open>Ordinary messages\<close>

text \<open>A transaction, or a message of a type outside the protocol.\<close>

definition deliver_message :: "'c node_env \<Rightarrow> net_message \<Rightarrow> ('c node, unit) sx" where
  "deliver_message env m =
     (case m of
        Other_Msg t d \<Rightarrow>
          if t = trx_message_type
          then bnd (lift_r (message_as trx_message_type c_trx_message (t, d))) (\<lambda>x.
               call (dg_handle_transaction (ne_delegate env) x))
          else call (dg_handle_message (ne_delegate env) m)
      | _ \<Rightarrow> call (dg_handle_message (ne_delegate env) m))"

definition process_ordinary_message :: "'c node_env \<Rightarrow> nat \<Rightarrow> net_message \<Rightarrow> bytes \<Rightarrow> ('c node, unit) sx" where
  "process_ordinary_message env a m h =
     (let i = (net_type m, h) in
      bnd (ask_peer a (\<lambda>p. i \<in> fst ` set (items_requested p))) (\<lambda>asked.
      if \<not> asked
      then disconnect_from_peer env a ''You sent me a message that I didn't request'' True (Some Unhandled)
      else seq (set_peer a (\<lambda>p. p\<lparr>items_requested := filter (\<lambda>x. fst x \<noteq> i) (items_requested p)\<rparr>))
       (bnd (ask_peer a idle) (\<lambda>free.
        seq (if free then trigger_fetch_items_loop else ret ())
         (bnd (catch_sx (bnd (deliver_message env m) (\<lambda>_. ret True))
                (\<lambda>e. if fc_exception e
                     then seq (update (\<lambda>s. s\<lparr>recently_failed := stamp_insert i (sec_of (ne_now env)) (recently_failed s)\<rparr>))
                              (ret False)
                     else raise e)) (\<lambda>accepted.
          if accepted
          then bnd (ask_peer a node_id) (\<lambda>n. broadcast_with env m h (ne_now env, ne_now env, n))
          else ret ()))))))"

end
