(* ===== verification/Node_Blocks.thy ===== *)
theory Node_Blocks
  imports Node_Items
begin

section \<open>The network node: blocks\<close>

text \<open>
  \<open>net/node.cpp\<close>: what happens to a block that arrives, in normal operation and while synchronising. Sync
  blocks wait until one is the next block some peer named, then they are handed to the
  delegate by tasks of their own, \<open>blocks_in_progress\<close>; \<open>run_block_task\<close> is the run of one of them.
\<close>

subsection \<open>Sync blocks handed to the delegate\<close>

text \<open>What becomes of a peer after an accepted block, and what is still to be done with it.\<close>

datatype peer_action = No_Action | Disconnect_Fork | Next_Batch | Restart_Sync

definition too_old_for_fork :: "'c node \<Rightarrow> u32 \<Rightarrow> peer \<Rightarrow> bool" where
  "too_old_for_fork s n p \<longleftrightarrow>
     last_known_fork p \<noteq> 0 \<and> next_known_hard_fork (last_known_fork p) s \<noteq> 0 \<and>
     next_known_hard_fork (last_known_fork p) s \<le> n"

definition after_accepted :: "'c node \<Rightarrow> signed_block \<Rightarrow> bytes \<Rightarrow> peer \<Rightarrow> peer_action \<times> peer" where
  "after_accepted s b i p =
     (if is_hard_fork_block (block_num b) s \<and> too_old_for_fork s (block_num b) p then (Disconnect_Fork, p)
      else if ids_of_items_to_get p = [] \<and> ids_being_processed p = {}
      then (if \<not> peer_needs_items p \<and> \<not> we_need_items p then Restart_Sync else No_Action, p)
      else if i \<in> ids_being_processed p
      then (let p = p\<lparr>last_block_seen := i, last_block_time_seen := timestamp b,
                      ids_being_processed := ids_being_processed p - {i}\<rparr>
            in (if ids_of_items_to_get p = [] \<and> unfetched_ids p = 0 \<and> ids_being_processed p = {}
                then Next_Batch else No_Action, p))
      else (No_Action, p))"

definition each_active :: "('c node \<Rightarrow> peer \<Rightarrow> 'a \<times> peer) \<Rightarrow> ('c node, (nat \<times> 'a) list) sx" where
  "each_active f =
     bnd (gets active_peers) (\<lambda>as.
     collect (\<lambda>a. bnd (gets (\<lambda>s. f s (the_peer a s))) (\<lambda>(x, p).
                   seq (set_peer a (\<lambda>_. p)) (ret (a, x)))) as)"

definition with_action :: "'a \<Rightarrow> (nat \<times> 'a) list \<Rightarrow> nat list" where
  "with_action x as = sort (map fst (filter (\<lambda>y. snd y = x) as))"

text \<open>After a rejected block: peers that named it are disconnected, or no longer fetched from.\<close>

definition after_rejected :: "bool \<Rightarrow> bytes \<Rightarrow> peer \<Rightarrow> peer_action \<times> peer" where
  "after_rejected discontinue i p =
     (if i \<in> ids_being_processed p
      then (if discontinue then (No_Action, p\<lparr>inhibit_fetching := True\<rparr>) else (Disconnect_Fork, p))
      else (No_Action, p))"

definition fork_reason :: string where
  "fork_reason = ''You need to upgrade your client due to hard fork at block ''"

definition send_sync_block_to_node_delegate :: "'c node_env \<Rightarrow> block_message \<Rightarrow> ('c node, unit) sx" where
  "send_sync_block_to_node_delegate env m =
     (case m of (b, i) \<Rightarrow>
      bnd (catch_sx
             (bnd (call (dg_handle_block (ne_delegate env) b i True)) (\<lambda>_.
              seq (update (\<lambda>s. s\<lparr>recent_accepted := push_recent i (recent_accepted s)\<rparr>)) (ret None)))
             (\<lambda>e. if fc_exception e then ret (Some e) else raise e)) (\<lambda>outcome.
      bnd (case outcome of
             None \<Rightarrow> seq (update (\<lambda>s. s\<lparr>total_unfetched := total_unfetched s - 1\<rparr>))
                       (each_active (\<lambda>s p. after_accepted s b i p))
           | Some e \<Rightarrow> each_active (\<lambda>s p. after_rejected (e = Older_Than_Undo_History) i p)) (\<lambda>actions.
      seq (each (\<lambda>a. disconnect_from_peer env a
                   (if outcome = None then fork_reason @ decimal (unat (block_num b))
                    else ''You offered us a block that we reject as invalid'') True
                   (Some (case outcome of None \<Rightarrow> Unhandled | Some e \<Rightarrow> e))) (with_action Disconnect_Fork actions))
       (seq (each (\<lambda>a. fetch_next_batch_of_item_ids env a False) (with_action Next_Batch actions))
        (seq (each (start_synchronizing_with_peer env) (with_action Restart_Sync actions))
          trigger_backlog)))))"

text \<open>A task among those in progress is run and leaves the list.\<close>

definition run_block_task :: "'c node_env \<Rightarrow> nat \<Rightarrow> ('c node, unit) sx" where
  "run_block_task env k =
     bnd (gets blocks_in_progress) (\<lambda>ms.
     if k < length ms
     then seq (update (\<lambda>s. s\<lparr>blocks_in_progress := take k ms @ drop (Suc k) ms\<rparr>))
           (send_sync_block_to_node_delegate env (ms ! k))
     else ret ())"

subsection \<open>The backlog of sync blocks\<close>

definition is_next_for :: "bytes \<Rightarrow> peer \<Rightarrow> bool" where
  "is_next_for i p \<longleftrightarrow> ids_of_items_to_get p \<noteq> [] \<and> hd (ids_of_items_to_get p) = i"

definition take_next :: "bytes \<Rightarrow> peer \<Rightarrow> bool \<times> peer" where
  "take_next i p =
     (if is_next_for i p
      then (True, p\<lparr>ids_of_items_to_get := tl (ids_of_items_to_get p), ids_being_processed := insert i (ids_being_processed p)\<rparr>)
      else (False, p))"

definition forget_processed :: "bytes \<Rightarrow> peer \<Rightarrow> bool \<times> peer" where
  "forget_processed i p =
     (if i \<in> ids_being_processed p
      then (let p = p\<lparr>ids_being_processed := ids_being_processed p - {i}\<rparr>
            in (ids_of_items_to_get p = [] \<and> unfetched_ids p = 0 \<and> ids_being_processed p = {}, p))
      else (False, p))"

text \<open>
  The first waiting block that some peer names next leaves every such peer's list. If it was
  accepted already it is only forgotten by the peers, and it stays among the waiting blocks.
  The result says whether a task was started.
\<close>

definition first_ready :: "'c node \<Rightarrow> block_message option" where
  "first_ready s = List.find (\<lambda>m. \<exists>a \<in> set (active_peers s). is_next_for (snd m) (the_peer a s)) (received_blocks s)"

definition process_one_block :: "'c node_env \<Rightarrow> ('c node, bool) sx" where
  "process_one_block env =
     bnd (gets first_ready) (\<lambda>ready.
     case ready of
       None \<Rightarrow> ret False
     | Some m \<Rightarrow>
         bnd (each_active (\<lambda>s p. take_next (snd m) p)) (\<lambda>_.
         bnd (gets (\<lambda>s. snd m \<in> set (recent_accepted s))) (\<lambda>known.
         if \<not> known
         then seq (update (\<lambda>s. s\<lparr>received_blocks := remove1 m (received_blocks s),
                       blocks_in_progress := blocks_in_progress s @ [m]\<rparr>)) (ret True)
         else bnd (each_active (\<lambda>s p. forget_processed (snd m) p)) (\<lambda>done.
              seq (each (\<lambda>a. fetch_next_batch_of_item_ids env a False) (map fst (filter snd done))) (ret False)))))"

text \<open>Each round but the last starts a task, and the tasks are limited.\<close>

fun backlog_rounds :: "'c node_env \<Rightarrow> nat \<Rightarrow> ('c node, unit) sx" where
  "backlog_rounds env 0 = raise Diverged"
| "backlog_rounds env (Suc k) =
     seq (update (\<lambda>s. s\<lparr>received_blocks := rev (new_received_blocks s) @ received_blocks s, new_received_blocks := []\<rparr>))
      (bnd (process_one_block env) (\<lambda>started.
       bnd (gets (\<lambda>s. length (blocks_in_progress s) \<ge> max_blocks_at_once (configuration s))) (\<lambda>full.
       if full
       then update (\<lambda>s. if length (received_blocks s) \<ge> max_prefetch (configuration s)
                        then s\<lparr>suspend_fetching := True\<rparr> else s)
       else if started then backlog_rounds env k else ret ())))"

definition process_backlog_of_sync_blocks :: "'c node_env \<Rightarrow> ('c node, unit) sx" where
  "process_backlog_of_sync_blocks env =
     seq (update (\<lambda>s. s\<lparr>backlog_scheduled := False\<rparr>))
      (bnd (gets (\<lambda>s. length (blocks_in_progress s) \<ge> max_blocks_at_once (configuration s))) (\<lambda>full.
       if full then ret ()
       else seq (update (\<lambda>s. s\<lparr>suspend_fetching := False\<rparr>))
        (bnd (gets (\<lambda>s. max_blocks_at_once (configuration s))) (\<lambda>n.
         seq (backlog_rounds env (Suc n))
          (bnd (gets suspend_fetching) (\<lambda>suspended.
           if suspended then ret () else trigger_fetch_sync_items_loop))))))"

subsection \<open>A block arrives\<close>

definition process_block_during_sync :: "block_message \<Rightarrow> ('c node, unit) sx" where
  "process_block_during_sync m =
     seq (update (\<lambda>s. s\<lparr>new_received_blocks := m # new_received_blocks s\<rparr>)) trigger_backlog"

definition note_block_seen :: "'c node_env \<Rightarrow> net_item \<Rightarrow> block_message \<Rightarrow> peer \<Rightarrow> unit \<times> peer" where
  "note_block_seen env i m p =
     ((), clear_old_inventory (ne_now env)
        (if i \<in> fst ` set (advertised_to_us p)
         then p\<lparr>last_block_seen := snd m, last_block_time_seen := timestamp (fst m)\<rparr> else p))"

text \<open>
  A block that is new is handed to the delegate; while that runs its hash counts as being processed,
  and it stays so when the delegate throws. An accepted block is advertised to the other peers.
\<close>

definition push_normal_block :: "'c node_env \<Rightarrow> nat \<Rightarrow> block_message \<Rightarrow> bytes \<Rightarrow> ('c node, nat list) sx" where
  "push_normal_block env a m h =
     (case m of (b, i) \<Rightarrow>
      bnd (gets (\<lambda>s. i \<in> set (recent_accepted s))) (\<lambda>known.
      seq (if known then ret ()
           else seq (update (\<lambda>s. s\<lparr>being_processed := set_insert h (being_processed s)\<rparr>))
                 (bnd (call (dg_handle_block (ne_delegate env) b i False)) (\<lambda>contained.
                  update (\<lambda>s. s\<lparr>being_processed := removeAll h (being_processed s),
                     recent_accepted := push_recent i (recent_accepted s),
                     items_to_fetch := filter (\<lambda>x. fi_item x \<notin> (\<lambda>c. (trx_message_type, c)) ` set contained) (items_to_fetch s)\<rparr>))))
       (seq (bnd (each_active (\<lambda>s p. note_block_seen env (block_message_type, h) m p)) (\<lambda>_. ret ()))
        (bnd (ask_peer a node_id) (\<lambda>n.
         seq (broadcast_with env (Block_Msg b i) (message_hash (ne_crypto env) (ne_lib env) (Block_Msg b i))
                (ne_now env, if known then 0 else ne_now env, n))
          (seq (update (\<lambda>s. s\<lparr>message_cache := cache_block_accepted (message_cache s)\<rparr>))
            (gets (\<lambda>s. if is_hard_fork_block (block_num b) s
                       then filter (\<lambda>c. too_old_for_fork s (block_num b) (the_peer c s)) (active_peers s)
                       else []))))))))"

definition offered_first :: "bytes \<Rightarrow> 'c node \<Rightarrow> nat list" where
  "offered_first i s = filter (\<lambda>c. is_next_for i (the_peer c s)) (active_peers s)"

definition process_block_during_normal_operation ::
    "'c node_env \<Rightarrow> nat \<Rightarrow> block_message \<Rightarrow> bytes \<Rightarrow> ('c node, unit) sx" where
  "process_block_during_normal_operation env a m h =
     bnd (catch_sx
            (bnd (push_normal_block env a m h) (\<lambda>old. ret (None, old)))
            (\<lambda>e. if fc_exception e \<and> e \<noteq> Net_Unlinkable_Block
                 then gets (\<lambda>s. (Some e, set_insert a (offered_first (snd m) s)))
                 else if e = Net_Unlinkable_Block then ret (Some e, []) else raise e)) (\<lambda>(outcome, bad).
     if outcome = Some Net_Unlinkable_Block then start_synchronizing_with_peer env a
     else each (\<lambda>c. disconnect_from_peer env c
                  (if outcome = None then fork_reason @ decimal (unat (block_num (fst m)))
                   else ''You offered me a block that I have deemed to be invalid'') True
                  (Some (case outcome of None \<Rightarrow> Unhandled | Some e \<Rightarrow> e))) (sort bad))"

definition after_sync_block :: "'c node_env \<Rightarrow> nat \<Rightarrow> ('c node, unit) sx" where
  "after_sync_block env a =
     bnd (ask_peer a (\<lambda>p. (idle p, unfetched_ids p > 0 \<and> length (ids_of_items_to_get p) < min_block_ids_to_prefetch))) (\<lambda>(free, need_ids).
     if \<not> free then ret ()
     else if need_ids then fetch_next_batch_of_item_ids env a False
     else trigger_fetch_sync_items_loop)"

text \<open>
  A block is known by the hash of its message if it was asked for in normal operation, and by the
  id that the message claims if it was asked for while synchronising. An exception in the second
  case is logged, and then the peer is disconnected as if it had not been asked.
\<close>

definition process_block_message :: "'c node_env \<Rightarrow> nat \<Rightarrow> signed_block \<Rightarrow> bytes \<Rightarrow> bytes \<Rightarrow> ('c node, unit) sx" where
  "process_block_message env a b i h =
     (let unwanted = disconnect_from_peer env a ''You sent me a block that I didn't ask for'' True (Some Unhandled)
      in bnd (ask_peer a (\<lambda>p. ((block_message_type, h) \<in> fst ` set (items_requested p), i \<in> sync_requested p))) (\<lambda>(regular, sync).
         if regular
         then seq (set_peer a (\<lambda>p. p\<lparr>items_requested := filter (\<lambda>x. fst x \<noteq> (block_message_type, h)) (items_requested p)\<rparr>))
               (seq (process_block_during_normal_operation env a (b, i) h)
                (bnd (ask_peer a idle) (\<lambda>free. if free then trigger_fetch_items_loop else ret ())))
         else if sync
         then seq (set_peer a (\<lambda>p. p\<lparr>sync_requested := sync_requested p - {i}, last_sync_received_time := ne_now env\<rparr>))
               (seq (update (\<lambda>s. s\<lparr>active_sync_requests := filter (\<lambda>x. fst x \<noteq> i) (active_sync_requests s)\<rparr>))
                (catch_sx (seq (process_block_during_sync (b, i)) (after_sync_block env a))
                  (\<lambda>e. if uncaught e then raise e else unwanted)))
         else unwanted))"

end
