(* ===== verification/Node_Peers.thy ===== *)
theory Node_Peers
  imports Node_Blocks
begin

section \<open>The network node: connections\<close>

text \<open>
  \<open>net/node.cpp\<close>: how a connection begins (hello, acceptance, rejection, addresses), how it is kept and
  how it ends, the check of firewalls, and the dispatch of messages. Addresses of strings and
  revisions in a hello that are only shown to the user are left out.
\<close>

subsection \<open>Hello\<close>

definition send_hello_message :: "'c node_env \<Rightarrow> endpoint \<Rightarrow> nat \<Rightarrow> ('c node, unit) sx" where
  "send_hello_message env local a =
     (let cr = ne_crypto env; dg = ne_delegate env in
      seq (set_peer a (\<lambda>p. p\<lparr>status := Status_Hello_Sent\<rparr>))
       (bnd (call (dg_head_id dg)) (\<lambda>head.
        bnd (call (dg_block_time dg head)) (\<lambda>_.
        bnd (gets (\<lambda>s.
          let port = (if accepts_incoming (configuration s) then snd (listening_endpoint s) else 0);
              (ep, port) = (case visible_endpoint s of
                              Some e \<Rightarrow> if node_firewalled s = Not_Firewalled then (e, snd e) else (local, port)
                            | None \<Rightarrow> (local, port))
          in \<lparr>h_user_agent = own_user_agent s, h_protocol = net_protocol_version,
              h_inbound_address = fst ep, h_inbound_port = port, h_outbound_port = snd ep,
              h_public_key = own_public_key s,
              h_signed_secret = sign_compact cr (own_private_key s) (sha256 cr (ne_secret env a)),
              h_user_data = \<lparr>hd_node_id = Some (Inr (own_node_id s)), hd_git_unix = None,
                 hd_last_fork = (if hard_fork_blocks s = [] then None else Some (Inr (last (hard_fork_blocks s)))),
                 hd_chain_id = Some (Inr (dg_chain_id dg))\<rparr>\<rparr>)) (\<lambda>h.
        send env a (Hello_Msg h))))))"

definition read_member :: "'v result option \<Rightarrow> ('v \<Rightarrow> peer \<Rightarrow> peer) \<Rightarrow> nat \<Rightarrow> ('c node, unit) sx" where
  "read_member v f a =
     (case v of None \<Rightarrow> ret () | Some (Inl e) \<Rightarrow> raise e | Some (Inr x) \<Rightarrow> set_peer a (f x))"

definition parse_hello_user_data :: "nat \<Rightarrow> hello_data \<Rightarrow> ('c node, unit) sx" where
  "parse_hello_user_data a d =
     seq (read_member (hd_git_unix d) (\<lambda>x p. p\<lparr>git_unix_timestamp := Some x\<rparr>) a)
      (seq (read_member (hd_node_id d) (\<lambda>x p. p\<lparr>node_id := x\<rparr>) a)
        (seq (read_member (hd_last_fork d) (\<lambda>x p. p\<lparr>last_known_fork := x\<rparr>) a)
          (read_member (hd_chain_id d) (\<lambda>x p. p\<lparr>peer_chain_id := Some x\<rparr>) a)))"

definition claimed_node_id :: "hello \<Rightarrow> bytes" where
  "claimed_node_id h = (case hd_node_id (h_user_data h) of Some (Inr i) \<Rightarrow> i | _ \<Rightarrow> h_public_key h)"

definition store_hello :: "hello \<Rightarrow> peer \<Rightarrow> peer" where
  "store_hello h p =
     p\<lparr>user_agent := h_user_agent h, node_public_key := h_public_key h, node_id := h_public_key h,
       protocol_version := h_protocol h, inbound_address := h_inbound_address h,
       inbound_port := h_inbound_port h, outbound_port := h_outbound_port h\<rparr>"

definition guess_fork :: "'c node_env \<Rightarrow> peer \<Rightarrow> peer" where
  "guess_fork env p =
     (case git_unix_timestamp p of
        Some t \<Rightarrow> if last_known_fork p = 0 then p\<lparr>last_known_fork := dg_estimate_fork (ne_delegate env) t\<rparr> else p
      | None \<Rightarrow> p)"

definition reject_hello :: "'c node_env \<Rightarrow> nat \<Rightarrow> rejection_reason \<Rightarrow> string \<Rightarrow> ('c node, unit) sx" where
  "reject_hello env a reason txt =
     bnd (gets own_user_agent) (\<lambda>agent.
     bnd (ask_peer a socket_endpoint) (\<lambda>e.
     seq (set_peer a (\<lambda>p. p\<lparr>their_state := Their_Rejected\<rparr>))
         (send env a (Connection_Rejected \<lparr>rj_user_agent = agent, rj_protocol = net_protocol_version,
            rj_endpoint = e, rj_reason = reason, rj_text = txt\<rparr>))))"

text \<open>A peer that sees itself as we see it is not behind a firewall, if it takes connections.\<close>

definition note_firewalled :: "nat \<Rightarrow> ('c node, unit) sx" where
  "note_firewalled a =
     bnd (ask_peer a (\<lambda>p. (socket_endpoint p, inbound_address p, inbound_port p, outbound_port p))) (\<lambda>(e, addr, port, out).
     if e = (addr, out) \<and> port \<noteq> 0
     then seq (update_or_create_peer (addr, port) (\<lambda>r. r)) (set_peer a (\<lambda>p. p\<lparr>is_firewalled := Not_Firewalled\<rparr>))
     else set_peer a (\<lambda>p. p\<lparr>is_firewalled := Firewalled\<rparr>))"

definition outdated_text :: "u32 \<Rightarrow> u32 \<Rightarrow> string" where
  "outdated_text n head =
     ''Your client is outdated -- you can only understand blocks up to #'' @ decimal (unat n) @
     '', but I'm already on block #'' @ decimal (unat head)"

definition answer_hello :: "'c node_env \<Rightarrow> nat \<Rightarrow> bool \<Rightarrow> ('c node, unit) sx" where
  "answer_hello env a already =
     bnd (gets (\<lambda>s. (own_node_id s = node_id (the_peer a s),
                    allowed_peers s \<noteq> [] \<and> node_id (the_peer a s) \<notin> set (allowed_peers s)))) (\<lambda>(self, blocked).
     if already
     then reject_hello env a (if self then Connected_To_Self else Already_Connected)
            (if self then ''I'm connecting to myself'' else ''I'm already connected to you'')
     else if blocked then reject_hello env a Blocked ''you are not in my allowed_peers list''
     else seq (note_firewalled a)
       (bnd (gets is_accepting_new_connections) (\<lambda>accepting.
        if \<not> accepting
        then reject_hello env a Not_Accepting ''not accepting any more incoming connections''
        else seq (set_peer a (\<lambda>p. p\<lparr>their_state := Their_Accepted\<rparr>)) (send env a Connection_Accepted))))"

definition decide_hello :: "'c node_env \<Rightarrow> nat \<Rightarrow> bool \<Rightarrow> bool \<Rightarrow> ('c node, unit) sx" where
  "decide_hello env a genuine already =
     (let dg = ne_delegate env in
      if \<not> genuine
      then seq (reject_hello env a Invalid_Hello ''Invalid signature in hello message'')
               (disconnect_from_peer env a ''Invalid signature in hello message'' False None)
      else bnd (gets (\<lambda>s. if last_known_fork (the_peer a s) = 0 then 0
                           else next_known_hard_fork (last_known_fork (the_peer a s)) s)) (\<lambda>fork.
       bnd (if fork = 0 then ret 0 else bnd (call (dg_head_id dg)) (\<lambda>i. ret (dg_block_number dg i))) (\<lambda>head.
       if fork \<noteq> 0 \<and> fork < head
       then seq (reject_hello env a Unspecified (outdated_text fork head))
                (disconnect_from_peer env a ''Your client is too old, please upgrade'' False None)
       else bnd (ask_peer a (\<lambda>p. peer_chain_id p = Some (dg_chain_id dg))) (\<lambda>same_chain.
        if \<not> same_chain
        then seq (reject_hello env a Different_Chain ''Your client is running a different chain id'')
                 (disconnect_from_peer env a ''Your client is on a different chain, please specify different seed nodes'' False None)
        else answer_hello env a already))))"

definition on_hello :: "'c node_env \<Rightarrow> nat \<Rightarrow> hello \<Rightarrow> ('c node, unit) sx" where
  "on_hello env a h =
     bnd (gets (is_already_connected_to_id (claimed_node_id h))) (\<lambda>already.
     bnd (lift_r (recover (ne_crypto env) (h_signed_secret h) (sha256 (ne_crypto env) (ne_secret env a)))) (\<lambda>key.
     seq (set_peer a (store_hello h))
      (seq (parse_hello_user_data a (h_user_data h))
       (seq (set_peer a (guess_fork env))
        (bnd (ask_peer a their_state) (\<lambda>st.
         if st = Their_Just_Connected
         then decide_hello env a (h_public_key h = key) already
         else disconnect_from_peer env a ''Received a unexpected hello_message'' False None))))))"

subsection \<open>Answers to our hello, addresses\<close>

definition on_connection_accepted :: "'c node_env \<Rightarrow> nat \<Rightarrow> ('c node, unit) sx" where
  "on_connection_accepted env a =
     seq (set_peer a (\<lambda>p. p\<lparr>status := Status_Peer_Accepted, our_state := Our_Accepted\<rparr>))
      (seq (send env a Address_Request)
       (bnd (gets (\<lambda>s. node_firewalled s = Firewall_Unknown \<and>
               last_firewall_check s < ne_now env - seconds_us (60 * firewall_check_minutes) \<and>
               protocol_version (the_peer a s) \<ge> 106)) (\<lambda>ask.
        if ask
        then seq (set_peer a (\<lambda>p. p\<lparr>firewall_check_state := Some \<lparr>expected_node_id = no_node_id,
                    endpoint_to_test = (0, 0), nodes_already_tested = [], requesting_peer = no_node_id\<rparr>\<rparr>))
              (seq (send env a (Check_Firewall no_node_id (0, 0)))
                (update (\<lambda>s. s\<lparr>last_firewall_check := ne_now env\<rparr>)))
        else ret ())))"

definition on_connection_rejected :: "'c node_env \<Rightarrow> nat \<Rightarrow> rejection \<Rightarrow> ('c node, unit) sx" where
  "on_connection_rejected env a r =
     bnd (ask_peer a (\<lambda>p. (our_state p, socket_endpoint p))) (\<lambda>(st, e).
     if st = Our_Just_Connected
     then seq (if rj_reason r = Connected_To_Self
               then seq (update (\<lambda>s. s\<lparr>peer_db := erase_endpoint e (peer_db s)\<rparr>))
                     (seq (move_peer_to_closing_list a) (set_peer a (close_connection (ne_now env))))
               else update_known_peer e (\<lambda>r. r\<lparr>pp_disposition := Connection_Refused,
                      pp_last_attempt := sec_of (ne_now env)\<rparr>))
           (seq (set_peer a (\<lambda>p. p\<lparr>status := Status_Peer_Rejected, our_state := Our_Rejected\<rparr>))
             (send env a Address_Request))
     else raise Fc_Assert)"

definition address_of :: "'c node_env \<Rightarrow> peer \<Rightarrow> address_info" where
  "address_of env p =
     \<lparr>ai_endpoint = the (remote_endpoint p), ai_last_seen = sec_of (ne_now env), ai_latency = round_trip_delay p,
      ai_node_id = node_id p, ai_direction = direction p, ai_firewalled = is_firewalled p\<rparr>"

definition list_address :: "'c node_env \<Rightarrow> nat \<Rightarrow> ('c node, address_info) sx" where
  "list_address env a =
     bnd (ask_peer a remote_endpoint) (\<lambda>ep.
     case ep of
       None \<Rightarrow> raise Undefined
     | Some e \<Rightarrow> seq (update_known_peer e (\<lambda>r. r\<lparr>pp_last_seen := sec_of (ne_now env)\<rparr>)) (ask_peer a (address_of env)))"

definition on_address_request :: "'c node_env \<Rightarrow> nat \<Rightarrow> ('c node, unit) sx" where
  "on_address_request env a =
     bnd (gets (\<lambda>s. if advertising_disabled (configuration s) then [] else active_peers s)) (\<lambda>as.
     bnd (collect (list_address env) as) (\<lambda>addresses. send env a (Address_Msg addresses)))"

definition on_address :: "'c node_env \<Rightarrow> nat \<Rightarrow> address_info list \<Rightarrow> ('c node, unit) sx" where
  "on_address env a as =
     bnd (merge_address_info (map (\<lambda>x. x\<lparr>ai_last_seen := sec_of (ne_now env)\<rparr>) as)) (\<lambda>newer.
     seq (if newer then trigger_connect_loop else ret ())
      (bnd (gets (\<lambda>s. a \<in> set (handshaking s))) (\<lambda>shaking.
       if \<not> shaking then ret ()
       else bnd (ask_peer a (\<lambda>p. (our_state p, their_state p, endpoint_for_connecting p))) (\<lambda>(ours, theirs, ep).
        if ours = Our_Rejected
        then disconnect_from_peer env a ''You rejected my connection request (hello message) so I'm disconnecting'' False None
        else if theirs = Their_Rejected
        then disconnect_from_peer env a ''I rejected your connection request (hello message) so I'm disconnecting'' False None
        else seq (case ep of
                    None \<Rightarrow> ret ()
                  | Some e \<Rightarrow> update_known_peer e (\<lambda>r. r\<lparr>pp_disposition := Connection_Succeeded\<rparr>))
              (seq (set_peer a (\<lambda>p. p\<lparr>status := Status_Complete\<rparr>))
               (seq (move_peer_to_active_list a) (new_peer_just_added env a)))))))"

subsection \<open>Firewall checks\<close>

definition can_check :: "firewall_check \<Rightarrow> peer \<Rightarrow> bool" where
  "can_check f p \<longleftrightarrow>
     expected_node_id f \<noteq> node_id p \<and> firewall_check_state p = None \<and>
     node_id p \<notin> set (nodes_already_tested f) \<and> protocol_version p \<ge> 106"

definition forward_firewall_check :: "'c node_env \<Rightarrow> firewall_check \<Rightarrow> ('c node, unit) sx" where
  "forward_firewall_check env f =
     bnd (gets (\<lambda>s. List.find (\<lambda>b. can_check f (the_peer b s)) (active_peers s))) (\<lambda>helper.
     case helper of
       Some b \<Rightarrow>
         seq (set_peer b (\<lambda>p. p\<lparr>firewall_check_state :=
                Some (f\<lparr>nodes_already_tested := nodes_already_tested f @ [node_id p]\<rparr>)\<rparr>))
             (send env b (Check_Firewall (expected_node_id f) (endpoint_to_test f)))
     | None \<Rightarrow>
         bnd (gets (get_peer_by_node_id (expected_node_id f))) (\<lambda>origin.
         case origin of
           None \<Rightarrow> ret ()
         | Some b \<Rightarrow> send env b (Check_Firewall_Reply (expected_node_id f) (endpoint_to_test f) Unable_To_Check)))"

text \<open>Connecting begins with the peer among the handshaking ones; the task is \<open>connect_to_task\<close>.\<close>

definition initiate_connect_to :: "'c node_env \<Rightarrow> peer \<Rightarrow> ('c node, nat) sx" where
  "initiate_connect_to env p =
     bnd (gets (\<lambda>s. length (peers s))) (\<lambda>a.
     seq (update (\<lambda>s. s\<lparr>peers := peers s @ [p\<lparr>connection_initiation_time := ne_now env\<rparr>],
                        handshaking := handshaking s @ [a]\<rparr>)) (ret a))"

definition connect_to_endpoint :: "'c node_env \<Rightarrow> endpoint \<Rightarrow> ('c node, unit) sx" where
  "connect_to_endpoint env e =
     bnd (gets (is_connection_in_progress e)) (\<lambda>busy.
     if busy then raise Unhandled
     else bnd (initiate_connect_to env ((new_peer e)\<lparr>remote_endpoint := Some e\<rparr>)) (\<lambda>_. ret ()))"

text \<open>The reply of the first branch of the code is made and not sent.\<close>

definition on_check_firewall :: "'c node_env \<Rightarrow> nat \<Rightarrow> bytes \<Rightarrow> endpoint \<Rightarrow> ('c node, unit) sx" where
  "on_check_firewall env a i e =
     bnd (ask_peer a (\<lambda>p. p)) (\<lambda>p.
     if i = no_node_id \<and> e = (0, 0)
     then forward_firewall_check env
            \<lparr>expected_node_id = node_id p,
             endpoint_to_test = (if inbound_port p \<noteq> outbound_port p then (fst (socket_endpoint p), inbound_port p)
                                 else socket_endpoint p),
             nodes_already_tested = [], requesting_peer = node_id p\<rparr>
     else bnd (gets (\<lambda>s. is_already_connected_to_id i s \<or> is_connection_in_progress e s)) (\<lambda>connected.
          if connected then ret ()
          else bnd (initiate_connect_to env ((new_peer e)\<lparr>remote_endpoint := Some e, firewall_check_state :=
                      Some \<lparr>expected_node_id = i, endpoint_to_test = e, nodes_already_tested = [],
                            requesting_peer = node_id p\<rparr>\<rparr>)) (\<lambda>_. ret ())))"

definition on_check_firewall_reply ::
    "'c node_env \<Rightarrow> nat \<Rightarrow> bytes \<Rightarrow> endpoint \<Rightarrow> firewall_result \<Rightarrow> ('c node, unit) sx" where
  "on_check_firewall_reply env a i e r =
     bnd (ask_peer a firewall_check_state) (\<lambda>st.
     case st of
       None \<Rightarrow> ret ()
     | Some f \<Rightarrow>
         if requesting_peer f \<noteq> no_node_id
         then (if r \<noteq> Unable_To_Check
               then bnd (gets (get_peer_by_node_id (requesting_peer f))) (\<lambda>origin.
                    seq (case origin of
                           None \<Rightarrow> ret ()
                         | Some b \<Rightarrow>
                             bnd (ask_peer b is_firewalled) (\<lambda>fw.
                             seq (if r = Connection_Successful \<and> fw \<noteq> Not_Firewalled
                                  then seq (set_peer b (\<lambda>p. p\<lparr>is_firewalled := Not_Firewalled\<rparr>))
                                        (bnd (ask_peer a endpoint_for_connecting) (\<lambda>ep.
                                         case ep of
                                           None \<Rightarrow> ret ()
                                         | Some x \<Rightarrow> update_or_create_peer x (\<lambda>r. r\<lparr>pp_last_seen := sec_of (ne_now env)\<rparr>)))
                                  else ret ())
                               (send env b (Check_Firewall_Reply i e r))))
                      (set_peer a (\<lambda>p. p\<lparr>firewall_check_state := None\<rparr>)))
               else seq (set_peer a (\<lambda>p. p\<lparr>firewall_check_state := None\<rparr>)) (forward_firewall_check env f))
         else seq (update (\<lambda>s.
                if r = Connection_Successful then s\<lparr>node_firewalled := Not_Firewalled, visible_endpoint := Some e\<rparr>
                else if r = Unable_To_Connect then s\<lparr>node_firewalled := Firewalled, visible_endpoint := None\<rparr>
                else s)) (set_peer a (\<lambda>p. p\<lparr>firewall_check_state := None\<rparr>)))"

subsection \<open>Times\<close>

definition half :: "int \<Rightarrow> int" where
  "half z = (if z < 0 then - ((- z) div 2) else z div 2)"

definition on_current_time_request :: "'c node_env \<Rightarrow> nat \<Rightarrow> int \<Rightarrow> ('c node, unit) sx" where
  "on_current_time_request env a sent = send_stamped env a (Current_Time_Reply sent (ne_now env) 0)"

definition on_current_time_reply :: "'c node_env \<Rightarrow> nat \<Rightarrow> int \<Rightarrow> int \<Rightarrow> int \<Rightarrow> ('c node, unit) sx" where
  "on_current_time_reply env a sent received transmitted =
     set_peer a (\<lambda>p. p\<lparr>clock_offset := half ((received - sent) + (transmitted - ne_now env)),
       round_trip_delay := (ne_now env - sent) - (transmitted - received)\<rparr>)"

subsection \<open>Closing\<close>

definition on_closing_connection :: "'c node_env \<Rightarrow> nat \<Rightarrow> ('c node, unit) sx" where
  "on_closing_connection env a =
     seq (set_peer a (\<lambda>p. p\<lparr>they_have_requested_close := True\<rparr>))
      (bnd (ask_peer a we_have_requested_close) (\<lambda>requested.
       if requested then set_peer a (close_connection (ne_now env)) else ret ()))"

text \<open>The items that were asked of the peer are asked of others.\<close>

definition reschedule_items :: "'c node_env \<Rightarrow> nat \<Rightarrow> ('c node, unit) sx" where
  "reschedule_items env a =
     bnd (ask_peer a (\<lambda>p. (sync_requested p, map fst (items_requested p)))) (\<lambda>(blocks, is).
     seq (if blocks \<noteq> {}
          then seq (update (\<lambda>s. s\<lparr>active_sync_requests := filter (\<lambda>x. fst x \<notin> blocks) (active_sync_requests s)\<rparr>))
                   trigger_fetch_sync_items_loop
          else ret ())
      (if is \<noteq> []
       then seq (each (\<lambda>i. bnd (gets (is_item_in_any_inventory i)) (\<lambda>other.
                   if other then want_item (ne_now env) i else ret ())) is) trigger_fetch_items_loop
       else ret ()))"

definition leave_connection_sets :: "nat \<Rightarrow> ('c node, unit) sx" where
  "leave_connection_sets a = update (\<lambda>s. s\<lparr>
     active_peers := removeAll a (active_peers s), handshaking := removeAll a (handshaking s),
     closing := removeAll a (closing s), terminating := removeAll a (terminating s)\<rparr>)"

definition on_connection_closed :: "'c node_env \<Rightarrow> nat \<Rightarrow> ('c node, unit) sx" where
  "on_connection_closed env a =
     bnd (ask_peer a (\<lambda>p. (endpoint_for_connecting p, connection_closed_error p, remote_endpoint p))) (\<lambda>(ep, err, rem).
     bnd (gets (\<lambda>s. a \<in> set (active_peers s))) (\<lambda>was_active.
     seq (case (ep, err) of
            (Some e, Some x) \<Rightarrow> update_known_peer e (\<lambda>r. r\<lparr>pp_last_error := Some x\<rparr>)
          | _ \<Rightarrow> ret ())
      (seq (leave_connection_sets a)
       (seq (case ep of
               Some e \<Rightarrow> if was_active \<and> rem \<noteq> None
                         then update_known_peer e (\<lambda>r. r\<lparr>pp_last_seen := sec_of (ne_now env)\<rparr>) else ret ()
             | None \<Rightarrow> ret ())
        (seq trigger_connect_loop
         (seq report_connection_count
          (bnd (ask_peer a firewall_check_state) (\<lambda>st.
           seq (case st of
                  Some f \<Rightarrow> if requesting_peer f \<noteq> no_node_id
                            then seq (set_peer a (\<lambda>p. p\<lparr>firewall_check_state := None\<rparr>)) (forward_firewall_check env f)
                            else ret ()
                | None \<Rightarrow> ret ())
            (seq (reschedule_items env a) (schedule_peer_for_deletion a))))))))))"

subsection \<open>Inactive connections\<close>

definition handshake_timed_out :: "int \<Rightarrow> peer \<Rightarrow> bool" where
  "handshake_timed_out limit p \<longleftrightarrow>
     connection_initiation_time p < limit \<and> last_message_received_time p < limit \<and>
     last_message_sent_time p < limit"

record inactive_peers =
  gently :: "nat list"
  forcibly :: "nat list"
  keep_alive :: "nat list"

text \<open>
  The walk over the active peers. A peer that made no progress on its sync items ends the walk: the
  \<open>break\<close> leaves the loop over the peers.
\<close>

definition request_timed_out :: "int \<Rightarrow> peer \<Rightarrow> bool" where
  "request_timed_out ignored p \<longleftrightarrow>
     (case ids_requested p of Some (_, t) \<Rightarrow> t < ignored | None \<Rightarrow> False) \<or>
     (\<exists>x \<in> set (items_requested p). snd x < ignored)"

definition sync_stalled :: "peer \<Rightarrow> bool" where
  "sync_stalled p \<longleftrightarrow>
     we_need_items p \<and> \<not> handling_message p \<and> ids_requested p = None \<and> ids_of_items_to_get p = []"

fun sort_active :: "int \<Rightarrow> int \<Rightarrow> int \<Rightarrow> 'c node \<Rightarrow> nat list \<Rightarrow> inactive_peers" where
  "sort_active inactive keep ignored s [] = \<lparr>gently = [], forcibly = [], keep_alive = []\<rparr>"
| "sort_active inactive keep ignored s (a # as) =
     (let p = the_peer a s; r = sort_active inactive keep ignored s as in
      if connection_initiation_time p < inactive \<and> last_message_received_time p < inactive
      then r\<lparr>gently := a # gently r\<rparr>
      else if sync_requested p \<noteq> {} \<and> last_sync_received_time p < ignored
      then \<lparr>gently = [], forcibly = [], keep_alive = []\<rparr>
      else if request_timed_out ignored p then r\<lparr>forcibly := a # forcibly r\<rparr>
      else if connection_initiation_time p < keep \<and> last_message_received_time p < keep
      then r\<lparr>keep_alive := a # keep_alive r\<rparr>
      else if sync_stalled p then r\<lparr>forcibly := a # forcibly r\<rparr>
      else r)"

definition active_disconnect_timeout :: int where
  "active_disconnect_timeout = 10 * int news_block_interval"

definition inactive_of :: "'c node_env \<Rightarrow> 'c node \<Rightarrow> inactive_peers" where
  "inactive_of env s =
     (let now = ne_now env;
          r = sort_active (now - seconds_us active_disconnect_timeout) (now - seconds_us (active_disconnect_timeout div 2))
                (now - ignored_request_timeout (configuration s)) s (active_peers s);
          shaking = filter (\<lambda>a. handshake_timed_out (now - seconds_us (uint (inactivity_timeout (configuration s)))) (the_peer a s))
                      (handshaking s);
          slow = filter (\<lambda>a. connection_closed_time (the_peer a s) < now - seconds_us peer_disconnect_timeout) (closing s)
      in r\<lparr>forcibly := shaking @ forcibly r @ slow\<rparr>)"

definition failed_to_terminate :: "'c node_env \<Rightarrow> peer \<Rightarrow> bool" where
  "failed_to_terminate env p \<longleftrightarrow>
     connection_terminated_time p \<noteq> 0 \<and>
     connection_terminated_time p < ne_now env - seconds_us failed_terminate_timeout"

definition terminate_inactive_connections :: "'c node_env \<Rightarrow> ('c node, unit) sx" where
  "terminate_inactive_connections env =
     bnd (gets (inactive_of env)) (\<lambda>r.
     bnd (gets (\<lambda>s. filter (\<lambda>a. a \<in> set (handshaking s)) (forcibly r))) (\<lambda>shaking.
     bnd (gets (\<lambda>s. filter (\<lambda>a. failed_to_terminate env (the_peer a s)) (terminating s))) (\<lambda>dead.
     seq (each (\<lambda>a. set_peer a (\<lambda>p. p\<lparr>connection_closed_error := Some Unhandled\<rparr>)) shaking)
      (seq (each (\<lambda>a. seq (update (\<lambda>s. s\<lparr>terminating := removeAll a (terminating s)\<rparr>)) (schedule_peer_for_deletion a)) dead)
       (seq (each (\<lambda>a. seq (move_peer_to_terminating_list a) (set_peer a (close_connection (ne_now env)))) (forcibly r))
        (seq (each (\<lambda>a. disconnect_from_peer env a ''Disconnecting due to inactivity'' False (Some Unhandled)) (gently r))
         (each (\<lambda>a. send_stamped env a (Current_Time_Request 0)) (keep_alive r))))))))"

definition fetch_updated_peer_lists :: "'c node_env \<Rightarrow> ('c node, unit) sx" where
  "fetch_updated_peer_lists env =
     bnd (gets active_peers) (\<lambda>as.
     seq (each (\<lambda>a. catch_sx (send env a Address_Request) (\<lambda>e. if fc_exception e then ret () else raise e)) as)
       (update (\<lambda>s. s\<lparr>recently_failed :=
          drop_older (sec_of (ne_now env - seconds_us (60 * prune_failed_ids_minutes))) (recently_failed s)\<rparr>)))"

subsection \<open>Connecting\<close>

definition wants_to_connect :: "'c node_env \<Rightarrow> 'c node \<Rightarrow> potential_peer \<Rightarrow> bool" where
  "wants_to_connect env s r \<longleftrightarrow>
     \<not> is_connection_in_progress (pp_endpoint r) s \<and>
     (pp_disposition r \<notin> {Connection_Failed, Connection_Refused, Handshaking_Failed} \<or>
      ne_now env - seconds_us (uint (pp_last_attempt r)) > seconds_us (uint ((pp_failures r + 1) * retry_timeout (configuration s))))"

fun connect_pass :: "'c node_env \<Rightarrow> potential_peer list \<Rightarrow> ('c node, bool) sx" where
  "connect_pass env [] = ret False"
| "connect_pass env (r # rs) =
     bnd (gets (\<lambda>s. (is_wanting_new_connections s, wants_to_connect env s r))) (\<lambda>(wanting, try_it).
     if \<not> wanting then ret False
     else if try_it then bnd (connect_to_endpoint env (pp_endpoint r)) (\<lambda>_. bnd (connect_pass env rs) (\<lambda>_. ret True))
     else connect_pass env rs)"

text \<open>
  One pass of the connecting loop: endpoints to be tried once, then the database in the order of
  the times last seen. The result says whether a connection was begun.
\<close>

definition connect_once :: "'c node_env \<Rightarrow> ('c node, bool) sx" where
  "connect_once env =
     bnd (gets add_once) (\<lambda>once.
     seq (update (\<lambda>s. s\<lparr>add_once := []\<rparr>))
      (seq (each (\<lambda>e. bnd (gets (is_connection_in_progress e)) (\<lambda>busy.
              if busy then ret () else connect_to_endpoint env e)) once)
       (bnd (gets is_wanting_new_connections) (\<lambda>wanting.
        if \<not> wanting then ret False
        else seq (update (\<lambda>s. s\<lparr>peer_db_updated := False\<rparr>)) (bnd (gets peer_db) (connect_pass env))))))"

definition add_node :: "'c node_env \<Rightarrow> endpoint \<Rightarrow> ('c node, unit) sx" where
  "add_node env e =
     seq (update (\<lambda>s.
       let r = lookup_or_create e (peer_db s);
           r = r\<lparr>pp_last_attempt := min (pp_last_attempt r)
                   (sec_of (ne_now env - seconds_us (uint (retry_timeout (configuration s)))))\<rparr>
       in s\<lparr>add_once := add_once s @ [e], peer_db := update_entry r (peer_db s)\<rparr>)) trigger_connect_loop"

definition connect_to_task :: "'c node_env \<Rightarrow> bool \<Rightarrow> endpoint \<Rightarrow> nat \<Rightarrow> endpoint \<Rightarrow> ('c node, unit) sx" where
  "connect_to_task env connected local a e =
     (let now = sec_of (ne_now env) in
      bnd (ask_peer a performing_firewall_check) (\<lambda>checking.
      seq (if checking then ret ()
           else update_or_create_peer e (\<lambda>r. r\<lparr>pp_disposition := Connection_Failed, pp_last_attempt := now\<rparr>))
       (bnd (catch_sx (seq (on_peer a (connect_to connected e))
              (seq (set_peer a (\<lambda>p. p\<lparr>is_firewalled := Not_Firewalled\<rparr>))
               (seq (update_or_create_peer e (\<lambda>r. r\<lparr>pp_disposition := Handshaking_Failed,
                       pp_successes := pp_successes r + 1, pp_last_seen := now\<rparr>)) (ret None))))
             (\<lambda>x. if fc_exception x then ret (Some x) else raise x)) (\<lambda>failed.
        bnd (ask_peer a connection_closed_error) (\<lambda>closed_error.
        seq (case failed of
               Some x \<Rightarrow> if checking then ret ()
                 else update_or_create_peer e (\<lambda>r. r\<lparr>pp_disposition := Connection_Failed, pp_failures := pp_failures r + 1,
                        pp_last_error := Some (case closed_error of Some y \<Rightarrow> y | None \<Rightarrow> x)\<rparr>)
             | None \<Rightarrow> ret ())
         (seq (bnd (ask_peer a firewall_check_state) (\<lambda>st.
               case st of
                 Some f \<Rightarrow> if requesting_peer f \<noteq> no_node_id
                   then bnd (gets (get_peer_by_node_id (requesting_peer f))) (\<lambda>origin.
                        case origin of
                          None \<Rightarrow> ret ()
                        | Some b \<Rightarrow> send env b (Check_Firewall_Reply (expected_node_id f) (endpoint_to_test f)
                            (if failed \<noteq> None then Unable_To_Connect else Connection_Successful)))
                   else ret ()
               | None \<Rightarrow> ret ()))
          (if failed \<noteq> None \<or> checking
           then seq (leave_connection_sets a)
                 (seq trigger_connect_loop
                  (seq (schedule_peer_for_deletion a)
                    (case failed of Some x \<Rightarrow> raise x | None \<Rightarrow> ret ())))
           else seq (bnd (gets (\<lambda>s. if accepts_incoming (configuration s) then snd (listening_endpoint s) else 0)) (\<lambda>port.
                     set_peer a (\<lambda>p. p\<lparr>inbound_address := fst local, inbound_port := port, outbound_port := snd local,
                       our_state := Our_Just_Connected, their_state := Their_Just_Connected\<rparr>)))
                 (send_hello_message env local a))))))))"

definition accept_peer :: "'c node_env \<Rightarrow> endpoint \<Rightarrow> ('c node, nat option) sx" where
  "accept_peer env e =
     bnd (gets shutting_down) (\<lambda>down.
     if down then ret None else bnd (initiate_connect_to env (new_peer e)) (\<lambda>a. ret (Some a)))"

definition accept_connection_task :: "'c node_env \<Rightarrow> bool \<Rightarrow> endpoint \<Rightarrow> nat \<Rightarrow> ('c node, unit) sx" where
  "accept_connection_task env connected local a =
     seq (on_peer a (accept_connection connected local)) (send_hello_message env local a)"

definition set_allowed_peers :: "'c node_env \<Rightarrow> bytes list \<Rightarrow> ('c node, unit) sx" where
  "set_allowed_peers env is =
     seq (update (\<lambda>s. s\<lparr>allowed_peers := is\<rparr>))
      (bnd (gets (\<lambda>s. if is = [] then [] else filter (\<lambda>a. node_id (the_peer a s) \<notin> set is) (active_peers s)))
        (each (\<lambda>a. disconnect_from_peer env a ''My allowed_peers list has changed, and you're no longer allowed.  Bye.'' False None)))"

subsection \<open>Dispatch\<close>

definition on_message :: "'c node_env \<Rightarrow> ('c node \<Rightarrow> bytes) \<Rightarrow> nat \<Rightarrow> net_message \<Rightarrow> bytes \<Rightarrow> ('c node, unit) sx" where
  "on_message env connections a m h =
     (case m of
        Hello_Msg hello \<Rightarrow> on_hello env a hello
      | Connection_Accepted \<Rightarrow> on_connection_accepted env a
      | Connection_Rejected r \<Rightarrow> on_connection_rejected env a r
      | Address_Request \<Rightarrow> on_address_request env a
      | Address_Msg as \<Rightarrow> on_address env a as
      | Fetch_Blockchain_Ids t hs \<Rightarrow> on_fetch_blockchain_item_ids env a t hs
      | Blockchain_Item_Ids n t hs \<Rightarrow> on_blockchain_item_ids env a n t hs
      | Fetch_Items t hs \<Rightarrow> on_fetch_items env a t hs
      | Item_Not_Available i \<Rightarrow> on_item_not_available env a i
      | Item_Ids_Inventory t hs \<Rightarrow> on_item_ids_inventory env a t hs
      | Closing_Connection _ _ _ \<Rightarrow> on_closing_connection env a
      | Block_Msg b i \<Rightarrow> process_block_message env a b i h
      | Current_Time_Request t \<Rightarrow> on_current_time_request env a t
      | Current_Time_Reply x y z \<Rightarrow> on_current_time_reply env a x y z
      | Check_Firewall i e \<Rightarrow> on_check_firewall env a i e
      | Check_Firewall_Reply i e r \<Rightarrow> on_check_firewall_reply env a i e r
      | Current_Connections_Request \<Rightarrow> bnd (gets connections) (\<lambda>d. send env a (Current_Connections_Reply d))
      | Current_Connections_Reply _ \<Rightarrow> ret ()
      | Other_Msg t d \<Rightarrow>
          if t < core_message_type_first \<or> t > core_message_type_last
          then process_ordinary_message env a m h else ret ())"

text \<open>\<open>peer_connection::on_message\<close>, and the loop that reads from the peer's connection.\<close>

definition peer_on_message :: "'c node_env \<Rightarrow> ('c node \<Rightarrow> bytes) \<Rightarrow> nat \<Rightarrow> bytes \<Rightarrow> net_message \<Rightarrow> ('c node, unit) sx" where
  "peer_on_message env connections a h m =
     seq (set_peer a (\<lambda>p. p\<lparr>handling_message := True\<rparr>))
       (on_exit (on_message env connections a m h)
         (\<lambda>s. s\<lparr>peers := (peers s)[a := (peers s ! a)\<lparr>handling_message := False\<rparr>]\<rparr>))"

definition receive_frame ::
    "'c node_env \<Rightarrow> ('c node \<Rightarrow> bytes) \<Rightarrow> (u32 \<times> bytes \<Rightarrow> net_message result) \<Rightarrow> nat \<Rightarrow> frame_message \<Rightarrow> ('c node, unit) sx" where
  "receive_frame env connections other a f =
     seq (set_peer a (\<lambda>p. p\<lparr>last_message_received_time := ne_now env\<rparr>))
      (bnd (lift_r (read_message other (fm_type f, fm_data f))) (peer_on_message env connections a (ripemd160 (ne_crypto env) (fm_data f))))"

text \<open>The task that sends what is queued for a peer; \<open>outcome\<close> is that of handing a message to the socket.\<close>

definition run_send_task ::
    "'c node_env \<Rightarrow> (net_item \<Rightarrow> net_message) \<Rightarrow> (net_message \<Rightarrow> send_outcome) \<Rightarrow> nat \<Rightarrow> ('c node, net_message list) sx" where
  "run_send_task env lookup outcome a =
     on_peer a (\<lambda>p. case send_queued_messages_task (ne_lib env) lookup outcome (ne_now env) p of (ms, p') \<Rightarrow> (Inr ms, p'))"

definition run_peer ::
    "'c node_env \<Rightarrow> ('c node \<Rightarrow> bytes) \<Rightarrow> (u32 \<times> bytes \<Rightarrow> net_message result) \<Rightarrow> nat \<Rightarrow> bytes \<Rightarrow> ('c node, unit) sx" where
  "run_peer env connections other a =
     run_connection (receive_frame env connections other a)
       (\<lambda>s. snd (seq (set_peer a (\<lambda>p. p\<lparr>status := Status_Closed\<rparr>)) (on_connection_closed env a) s))"

end
