(* ===== verification/Node_Facts.thy ===== *)
theory Node_Facts
  imports Node_Peers
begin

section \<open>The network node: every state that can be reached\<close>

text \<open>
  A connection is in one of the four sets at most, and every index in them is that of a peer; the ids
  a peer has named are those of consecutive blocks, the size counted for its queue is right, and the
  time of its ending is not set. Each statement of the node keeps this; the rules below follow the
  way the code composes statements. \<open>node_step\<close> is what may happen between two states of a node.
\<close>

subsection \<open>Rules\<close>

definition connections_ok :: "'c node \<Rightarrow> bool" where
  "connections_ok s \<longleftrightarrow>
     distinct (handshaking s @ active_peers s @ closing s @ terminating s) \<and>
     set (handshaking s @ active_peers s @ closing s @ terminating s) \<subseteq> {..<length (peers s)}"

text \<open>
  Of every peer: the ids it has named and we have not got yet are those of consecutive blocks, what is
  queued for it is what is counted, and the time of its ending is not set.
\<close>

fun consecutive :: "('h \<Rightarrow> u32) \<Rightarrow> 'h list \<Rightarrow> bool" where
  "consecutive number [] \<longleftrightarrow> True"
| "consecutive number (h # hs) \<longleftrightarrow> sequential_from number (number h + 1) hs"

lemma consecutive_Cons:
  "consecutive number (h # hs) \<longleftrightarrow> consecutive number hs \<and> (hs \<noteq> [] \<longrightarrow> number (hd hs) = number h + 1)"
  by (cases hs) auto

lemma consecutive_append:
  "consecutive number (xs @ ys) \<longleftrightarrow> consecutive number xs \<and> consecutive number ys \<and>
     (xs \<noteq> [] \<and> ys \<noteq> [] \<longrightarrow> number (hd ys) = number (last xs) + 1)"
proof (induction xs)
  case (Cons x xs)
  then show ?case by (cases xs) (auto simp: consecutive_Cons simp del: consecutive.simps(2))
qed simp

lemma consecutive_tl: "consecutive number hs \<Longrightarrow> consecutive number (tl hs)"
  by (cases hs) (simp_all add: consecutive_Cons del: consecutive.simps(2))

lemma consecutive_butlast: "consecutive number hs \<Longrightarrow> consecutive number (butlast hs)"
  by (cases hs rule: rev_cases) (simp_all add: consecutive_append)

lemma consecutive_drop: "consecutive number hs \<Longrightarrow> consecutive number (drop k hs)"
  using consecutive_append [of number "take k hs" "drop k hs"] by simp

lemma valid_answer_consecutive: "valid_answer number synopsis hs \<Longrightarrow> consecutive number hs"
  by (cases hs) (simp_all add: valid_answer_def)

text \<open>The old ids up to one that the new ones begin with.\<close>

lemma pop_back_to_spec:
  assumes "pop_back_to h hs \<noteq> []"
  shows "\<exists>rest. hs = pop_back_to h hs @ rest" and "last (pop_back_to h hs) = h"
proof -
  have "hs = rev (dropWhile (\<lambda>x. x \<noteq> h) (rev hs)) @ rev (takeWhile (\<lambda>x. x \<noteq> h) (rev hs))"
    by (metis rev_append rev_rev_ident takeWhile_dropWhile_id)
  then show "\<exists>rest. hs = pop_back_to h hs @ rest" by (auto simp: pop_back_to_def)
  have "dropWhile (\<lambda>x. x \<noteq> h) (rev hs) \<noteq> []" using assms by (simp add: pop_back_to_def)
  then have "hd (dropWhile (\<lambda>x. x \<noteq> h) (rev hs)) = h" using hd_dropWhile by blast
  with assms show "last (pop_back_to h hs) = h" by (simp add: pop_back_to_def last_rev)
qed

lemma joined_consecutive:
  assumes "consecutive number old" and "consecutive number hs" and "pop_back_to (hd hs) old \<noteq> []" and "hs \<noteq> []"
  shows "consecutive number (butlast (pop_back_to (hd hs) old) @ hs)"
proof -
  let ?p = "pop_back_to (hd hs) old"
  obtain rest where "old = ?p @ rest" and l: "last ?p = hd hs"
    using pop_back_to_spec [OF assms(3)] by auto
  with assms(1) have p: "consecutive number ?p" by (metis consecutive_append)
  have q: "?p = butlast ?p @ [hd hs]" using append_butlast_last_id [OF assms(3)] l by simp
  with p have "consecutive number (butlast ?p @ [hd hs])" by simp
  with assms(2,4) show ?thesis by (auto simp: consecutive_append)
qed

definition peer_ok :: "'c node_env \<Rightarrow> peer \<Rightarrow> bool" where
  "peer_ok env p \<longleftrightarrow>
     consecutive (dg_block_number (ne_delegate env)) (ids_of_items_to_get p) \<and>
     queue_counted (ne_lib env) p \<and> connection_terminated_time p = 0"

definition good :: "'c node_env \<Rightarrow> nat \<Rightarrow> 'c node \<Rightarrow> bool" where
  "good env n s \<longleftrightarrow> connections_ok s \<and> n \<le> length (peers s) \<and> (\<forall>p \<in> set (peers s). peer_ok env p)"

named_theorems node_rules \<open>statements of the node that keep the sets of connections\<close>

lemma keeps_if: "(b \<Longrightarrow> keeps P m) \<Longrightarrow> (\<not> b \<Longrightarrow> keeps P n) \<Longrightarrow> keeps P (if b then m else n)"
  by simp

lemma keeps_option: "keeps P m \<Longrightarrow> (\<And>x. keeps P (f x)) \<Longrightarrow> keeps P (case v of None \<Rightarrow> m | Some x \<Rightarrow> f x)"
  by (cases v) simp_all

lemma keeps_sum: "(\<And>x. keeps P (f x)) \<Longrightarrow> (\<And>x. keeps P (g x)) \<Longrightarrow> keeps P (case v of Inl x \<Rightarrow> f x | Inr x \<Rightarrow> g x)"
  by (cases v) simp_all

lemma keeps_prod: "(\<And>x y. keeps P (f x y)) \<Longrightarrow> keeps P (case v of (x, y) \<Rightarrow> f x y)"
  by (cases v) simp

lemma keeps_collect: "(\<And>x. x \<in> set xs \<Longrightarrow> keeps P (f x)) \<Longrightarrow> keeps P (collect f xs)"
  by (induction xs) (auto intro!: keeps_bnd keeps_ret)

lemmas [node_rules] = keeps_ret keeps_raise keeps_gets keeps_check keeps_lift_r keeps_bnd keeps_seq
  keeps_each keeps_catch keeps_if keeps_option keeps_sum keeps_prod keeps_collect

text \<open>What a statement finds in the state holds of the state the rest begins in.\<close>

lemma good_snapshot:
  assumes "\<And>s. good env n s \<Longrightarrow> keeps (good env (length (peers s))) (f (g s))"
  shows "keeps (good env n) (bnd (gets g) f)"
proof -
  have "good env n (snd (bnd (gets g) f s))" if s: "good env n s" for s
  proof -
    have "good env (length (peers s)) s" using s by (simp add: good_def)
    then have "good env (length (peers s)) (snd (f (g s) s))" using assms [OF s] by (simp add: keeps_def)
    moreover have "n \<le> length (peers s)" using s by (simp add: good_def)
    ultimately show ?thesis by (simp add: bnd_def gets_def good_def)
  qed
  then show ?thesis by (simp add: keeps_def)
qed

lemma good_weaken: "keeps (good env n) m \<Longrightarrow> good env n s \<Longrightarrow> good env n (snd (m s))"
  by (simp add: keeps_def)

text \<open>A change outside the sets and the peers.\<close>

definition same_connections :: "'c node \<Rightarrow> 'c node \<Rightarrow> bool" where
  "same_connections s t \<longleftrightarrow>
     handshaking t = handshaking s \<and> active_peers t = active_peers s \<and> closing t = closing s \<and>
     terminating t = terminating s \<and> peers t = peers s"

lemma same_good: "same_connections s t \<Longrightarrow> good env n s \<Longrightarrow> good env n t"
  by (simp add: same_connections_def good_def connections_ok_def)

lemma keeps_same: "(\<And>s. same_connections s (snd (m s))) \<Longrightarrow> keeps (good env n) m"
  unfolding keeps_def using same_good by blast

lemma good_update [node_rules]: "(\<And>s. same_connections s (f s)) \<Longrightarrow> keeps (good env n) (update f)"
  by (rule keeps_same) (simp add: update_def)

lemma good_call [node_rules]: "keeps (good env n) (call m)"
  by (rule keeps_same) (simp add: call_def same_connections_def split: prod.split)

text \<open>A statement on one peer.\<close>

lemma good_put_peer:
  assumes "good env n s" and "peer_ok env (peers s ! a) \<Longrightarrow> peer_ok env p"
  shows "good env n (s\<lparr>peers := (peers s)[a := p]\<rparr>)"
proof (cases "a < length (peers s)")
  case True
  with assms have p: "peer_ok env p" by (simp add: good_def)
  then have "\<forall>q \<in> set ((peers s)[a := p]). peer_ok env q"
    using set_update_subset_insert [of "peers s" a p] assms(1) by (auto simp: good_def)
  moreover from assms(1) have "connections_ok (s\<lparr>peers := (peers s)[a := p]\<rparr>)"
    by (simp add: good_def connections_ok_def)
  ultimately show ?thesis using assms(1) by (simp add: good_def)
next
  case False
  then have "(peers s)[a := p] = peers s" by (simp add: list_update_beyond)
  with assms(1) show ?thesis by (simp add: good_def connections_ok_def)
qed

lemma good_on_peer:
  assumes "\<And>p. peer_ok env p \<Longrightarrow> peer_ok env (snd (m p))"
  shows "keeps (good env n) (on_peer a m)"
  unfolding keeps_def on_peer_def using assms by (auto intro!: good_put_peer split: prod.split) (metis snd_conv)

lemma good_set_peer [node_rules]:
  "(\<And>p. peer_ok env p \<Longrightarrow> peer_ok env (f p)) \<Longrightarrow> keeps (good env n) (set_peer a f)"
  unfolding set_peer_def by (rule good_on_peer) (simp add: update_def)

lemma peer_ok_updates [simp]:
  "peer_ok env (remote_endpoint_update f1 p) \<longleftrightarrow> peer_ok env p"
  "peer_ok env (socket_endpoint_update f2 p) \<longleftrightarrow> peer_ok env p"
  "peer_ok env (socket_closed_update f3 p) \<longleftrightarrow> peer_ok env p"
  "peer_ok env (send_queued_task_update f4 p) \<longleftrightarrow> peer_ok env p"
  "peer_ok env (connection_initiation_time_update f5 p) \<longleftrightarrow> peer_ok env p"
  "peer_ok env (connection_closed_time_update f6 p) \<longleftrightarrow> peer_ok env p"
  "peer_ok env (last_message_received_time_update f7 p) \<longleftrightarrow> peer_ok env p"
  "peer_ok env (last_message_sent_time_update f8 p) \<longleftrightarrow> peer_ok env p"
  "peer_ok env (direction_update f9 p) \<longleftrightarrow> peer_ok env p"
  "peer_ok env (is_firewalled_update f10 p) \<longleftrightarrow> peer_ok env p"
  "peer_ok env (clock_offset_update f11 p) \<longleftrightarrow> peer_ok env p"
  "peer_ok env (round_trip_delay_update f12 p) \<longleftrightarrow> peer_ok env p"
  "peer_ok env (our_state_update f13 p) \<longleftrightarrow> peer_ok env p"
  "peer_ok env (they_have_requested_close_update f14 p) \<longleftrightarrow> peer_ok env p"
  "peer_ok env (their_state_update f15 p) \<longleftrightarrow> peer_ok env p"
  "peer_ok env (we_have_requested_close_update f16 p) \<longleftrightarrow> peer_ok env p"
  "peer_ok env (status_update f17 p) \<longleftrightarrow> peer_ok env p"
  "peer_ok env (connection_closed_error_update f18 p) \<longleftrightarrow> peer_ok env p"
  "peer_ok env (node_public_key_update f19 p) \<longleftrightarrow> peer_ok env p"
  "peer_ok env (node_id_update f20 p) \<longleftrightarrow> peer_ok env p"
  "peer_ok env (protocol_version_update f21 p) \<longleftrightarrow> peer_ok env p"
  "peer_ok env (user_agent_update f22 p) \<longleftrightarrow> peer_ok env p"
  "peer_ok env (git_unix_timestamp_update f23 p) \<longleftrightarrow> peer_ok env p"
  "peer_ok env (peer_chain_id_update f24 p) \<longleftrightarrow> peer_ok env p"
  "peer_ok env (inbound_address_update f25 p) \<longleftrightarrow> peer_ok env p"
  "peer_ok env (inbound_port_update f26 p) \<longleftrightarrow> peer_ok env p"
  "peer_ok env (outbound_port_update f27 p) \<longleftrightarrow> peer_ok env p"
  "peer_ok env (ids_being_processed_update f28 p) \<longleftrightarrow> peer_ok env p"
  "peer_ok env (unfetched_ids_update f29 p) \<longleftrightarrow> peer_ok env p"
  "peer_ok env (peer_needs_items_update f30 p) \<longleftrightarrow> peer_ok env p"
  "peer_ok env (we_need_items_update f31 p) \<longleftrightarrow> peer_ok env p"
  "peer_ok env (ids_requested_update f32 p) \<longleftrightarrow> peer_ok env p"
  "peer_ok env (last_sync_received_time_update f33 p) \<longleftrightarrow> peer_ok env p"
  "peer_ok env (sync_requested_update f34 p) \<longleftrightarrow> peer_ok env p"
  "peer_ok env (last_block_seen_update f35 p) \<longleftrightarrow> peer_ok env p"
  "peer_ok env (last_block_time_seen_update f36 p) \<longleftrightarrow> peer_ok env p"
  "peer_ok env (inhibit_fetching_update f37 p) \<longleftrightarrow> peer_ok env p"
  "peer_ok env (advertised_to_us_update f38 p) \<longleftrightarrow> peer_ok env p"
  "peer_ok env (advertised_to_peer_update f39 p) \<longleftrightarrow> peer_ok env p"
  "peer_ok env (items_requested_update f40 p) \<longleftrightarrow> peer_ok env p"
  "peer_ok env (trx_inhibited_until_update f41 p) \<longleftrightarrow> peer_ok env p"
  "peer_ok env (last_known_fork_update f42 p) \<longleftrightarrow> peer_ok env p"
  "peer_ok env (firewall_check_state_update f43 p) \<longleftrightarrow> peer_ok env p"
  "peer_ok env (handling_message_update f44 p) \<longleftrightarrow> peer_ok env p"
  by (simp_all add: peer_ok_def queue_counted_def)

lemma peer_ok_no_ids [simp]: "peer_ok env p \<Longrightarrow> peer_ok env (p\<lparr>ids_of_items_to_get := []\<rparr>)"
  by (simp add: peer_ok_def queue_counted_def)

lemma peer_ok_fields [simp]:
  "peer_ok env p \<Longrightarrow> peer_ok env (close_connection now p)"
  "peer_ok env (clear_old_inventory now p) \<longleftrightarrow> peer_ok env p"
  by (simp_all add: peer_ok_def close_connection_def clear_old_inventory_def queue_counted_def Let_def)

lemma good_peer_statements [node_rules]:
  "keeps (good env n) (ask_peer a g)" "keeps (good env n) (send env a m)"
  "keeps (good env n) (send_stamped env a m)" "keeps (good env n) (send_item env a i)"
proof -
  have q: "peer_ok env (snd (send_queueable (ne_lib env) (ne_now env) x p))" if "peer_ok env p" for x p
    using that queue_counted_send [of "ne_lib env" p "ne_now env" x]
    by (auto simp: peer_ok_def send_queueable_def close_connection_def Let_def)
  show "keeps (good env n) (send env a m)" "keeps (good env n) (send_stamped env a m)" "keeps (good env n) (send_item env a i)"
    unfolding send_def send_stamped_def send_item_def by (rule good_on_peer, rule q, assumption)+
  show "keeps (good env n) (ask_peer a g)"
    unfolding ask_peer_def by (rule node_rules)
qed

text \<open>A peer goes from whichever set it is in to another, or to none.\<close>

lemma move_ok:
  assumes "connections_ok s" and "a < length (peers s)"
  shows
    "connections_ok (s\<lparr>active_peers := set_insert a (active_peers s), handshaking := removeAll a (handshaking s),
       closing := removeAll a (closing s), terminating := removeAll a (terminating s)\<rparr>)"
    "connections_ok (s\<lparr>active_peers := removeAll a (active_peers s), handshaking := removeAll a (handshaking s),
       closing := set_insert a (closing s), terminating := removeAll a (terminating s)\<rparr>)"
    "connections_ok (s\<lparr>active_peers := removeAll a (active_peers s), handshaking := removeAll a (handshaking s),
       closing := removeAll a (closing s), terminating := set_insert a (terminating s)\<rparr>)"
    "connections_ok (s\<lparr>active_peers := removeAll a (active_peers s), handshaking := removeAll a (handshaking s),
       closing := removeAll a (closing s), terminating := removeAll a (terminating s)\<rparr>)"
  using assms by (auto simp: connections_ok_def set_insert_def distinct_removeAll)

lemma good_move:
  assumes "a < n" and "\<And>s. connections_ok s \<Longrightarrow> a < length (peers s) \<Longrightarrow> connections_ok (f s) \<and> peers (f s) = peers s"
  shows "keeps (good env n) (update f)"
  using assms by (simp add: keeps_def good_def update_def)

lemma good_moves [node_rules]:
  assumes "a < n"
  shows "keeps (good env n) (move_peer_to_active_list a)" "keeps (good env n) (move_peer_to_closing_list a)"
    "keeps (good env n) (move_peer_to_terminating_list a)" "keeps (good env n) (leave_connection_sets a)"
  unfolding move_peer_to_active_list_def move_peer_to_closing_list_def move_peer_to_terminating_list_def
    leave_connection_sets_def
  by (rule good_move [OF assms], simp add: move_ok)+

lemma good_initiate [node_rules]:
  assumes p: "peer_ok env p"
  shows "keeps (good env n) (initiate_connect_to env p)"
proof -
  let ?p = "p\<lparr>connection_initiation_time := ne_now env\<rparr>"
  have "good env n (s\<lparr>peers := peers s @ [?p], handshaking := handshaking s @ [length (peers s)]\<rparr>)" if s: "good env n s" for s
  proof -
    from s have "length (peers s) \<notin> set (handshaking s @ active_peers s @ closing s @ terminating s)"
      by (auto simp: good_def connections_ok_def)
    with s have "connections_ok (s\<lparr>peers := peers s @ [?p], handshaking := handshaking s @ [length (peers s)]\<rparr>)"
      by (auto simp: good_def connections_ok_def)
    with s p show ?thesis by (simp add: good_def)
  qed
  then show ?thesis by (simp add: keeps_def initiate_connect_to_def bnd_def seq_def gets_def update_def ret_def)
qed

lemma peer_ok_new [simp]: "peer_ok env (new_peer e)"
  by (simp add: peer_ok_def new_peer_def queue_counted_def)

lemma good_simple [node_rules]:
  "keeps (good env n) trigger_connect_loop" "keeps (good env n) trigger_fetch_sync_items_loop"
  "keeps (good env n) trigger_fetch_items_loop" "keeps (good env n) trigger_backlog"
  "keeps (good env n) report_connection_count" "keeps (good env n) (schedule_peer_for_deletion a)"
  "keeps (good env n) (update_known_peer e f)" "keeps (good env n) (update_or_create_peer e f)"
  "keeps (good env n) (merge_address_info as)" "keeps (good env n) update_unsynced_count"
  "keeps (good env n) (want_item now i)" "keeps (good env n) (broadcast_with env m h prop)"
  "keeps (good env n) (process_block_during_sync bm)" "keeps (good env n) (sync_from i ks)"
  unfolding trigger_connect_loop_def trigger_fetch_sync_items_loop_def trigger_fetch_items_loop_def
    trigger_backlog_def report_connection_count_def schedule_peer_for_deletion_def
    update_known_peer_def update_or_create_peer_def merge_address_info_def update_unsynced_count_def
    want_item_def broadcast_with_def process_block_during_sync_def sync_from_def
  by (intro node_rules; simp add: same_connections_def split: option.split)+

lemma good_disconnect [node_rules]: "a < n \<Longrightarrow> keeps (good env n) (disconnect_from_peer env a reason e err)"
  unfolding disconnect_from_peer_def record_last_error_def by (intro node_rules; simp)

subsection \<open>Handlers\<close>

lemma good_sync [node_rules]:
  assumes a: "a < n"
  shows "keeps (good env n) (create_blockchain_synopsis_for_peer env a)"
    "keeps (good env n) (fetch_next_batch_of_item_ids env a reset)"
    "keeps (good env n) (start_synchronizing_with_peer env a)"
    "keeps (good env n) (new_peer_just_added env a)"
proof -
  show s: "keeps (good env n) (create_blockchain_synopsis_for_peer env a)"
    unfolding create_blockchain_synopsis_for_peer_def Let_def by (intro node_rules; simp)
  show f: "keeps (good env n) (fetch_next_batch_of_item_ids env a reset)" for reset
    unfolding fetch_next_batch_of_item_ids_def by (intro node_rules s a; simp)
  show t: "keeps (good env n) (start_synchronizing_with_peer env a)"
    unfolding start_synchronizing_with_peer_def by (intro node_rules f; simp)
  show "keeps (good env n) (new_peer_just_added env a)"
    unfolding new_peer_just_added_def by (intro node_rules t; simp)
qed

lemma good_fetch_ids [node_rules]: "a < n \<Longrightarrow> keeps (good env n) (on_fetch_blockchain_item_ids env a t synopsis)"
  unfolding on_fetch_blockchain_item_ids_def restart_if_behind_def move_synced_peer_def Let_def
  by (intro node_rules; auto)

lemma good_flush [node_rules]: "keeps (good env n) (flush_known env a t hs)"
  by (induction hs) (auto intro!: node_rules)

text \<open>What of an answer is new continues the ids that are left of the old ones.\<close>

lemma set_peer_runs: "set_peer a f s = (Inr (), s\<lparr>peers := (peers s)[a := f (peers s ! a)]\<rparr>)"
  by (simp add: set_peer_def on_peer_def update_def)

lemma flush_known_returns:
  "flush_known env a t hs s = (Inr new, s') \<Longrightarrow> length (peers s') = length (peers s) \<and>
   (\<exists>k. new = drop k hs) \<and> (a < length (peers s) \<longrightarrow> ids_of_items_to_get (the_peer a s') = ids_of_items_to_get (the_peer a s))"
proof (induction hs arbitrary: s)
  case Nil
  then show ?case by (simp add: ret_def)
next
  case (Cons h hs)
  obtain r1 c1 where c1: "dg_has_item (ne_delegate env) (t, h) (chain s) = (r1, c1)" by fastforce
  show ?case
  proof (cases r1)
    case (Inl e)
    with Cons.prems c1 show ?thesis by (simp add: bnd_def call_def)
  next
    case (Inr has)
    show ?thesis
    proof (cases has)
      case False
      with Cons.prems c1 Inr show ?thesis by (auto simp: bnd_def call_def ret_def the_peer_def intro: exI [of _ 0])
    next
      case True
      obtain r2 c2 where c2: "dg_block_time (ne_delegate env) h c1 = (r2, c2)" by fastforce
      show ?thesis
      proof (cases r2)
        case (Inl e)
        with True Cons.prems c1 c2 Inr show ?thesis by (simp add: bnd_def seq_def call_def set_peer_runs)
      next
        case time: (Inr time)
        obtain s1 where s1: "flush_known env a t hs s1 = (Inr new, s')" "length (peers s1) = length (peers s)"
          "a < length (peers s) \<Longrightarrow> ids_of_items_to_get (the_peer a s1) = ids_of_items_to_get (the_peer a s)"
          using True Cons.prems c1 c2 Inr time
          by (simp add: bnd_def seq_def call_def set_peer_runs) (auto simp: the_peer_def intro!: that)
        from Cons.IH [OF s1(1)] s1 show ?thesis by (auto intro: exI [of _ "Suc k" for k])
      qed
    qed
  qed
qed

lemma received_ids_spec:
  assumes s: "good env n s" and a: "a < n" and hs: "consecutive (dg_block_number (ne_delegate env)) hs"
    and run: "received_ids env a t hs s = (r, s')"
  shows "good env n s' \<and> (\<forall>new. r = Inr new \<longrightarrow>
    consecutive (dg_block_number (ne_delegate env)) (ids_of_items_to_get (the_peer a s') @ new))"
proof -
  let ?old = "ids_of_items_to_get (the_peer a s)" and ?c = "consecutive (dg_block_number (ne_delegate env))"
  have l: "a < length (peers s)" using s a by (simp add: good_def)
  with s have old: "?c ?old" by (auto simp: good_def peer_ok_def the_peer_def)
  show ?thesis
  proof (cases "hs = [] \<or> ?old = []")
    case True
    show ?thesis
    proof (cases "hs = [] \<or> first_for_other a (hd hs) s")
      case True
      with run \<open>hs = [] \<or> ?old = []\<close> have "s' = s" "r = Inr hs"
        by (auto simp: received_ids_def ret_def bnd_def ask_peer_def gets_def split: if_splits)
      moreover have "?c (?old @ hs)" using old hs \<open>hs = [] \<or> ?old = []\<close> by auto
      ultimately show ?thesis using s by simp
    next
      case False
      with True run have f: "flush_known env a t hs s = (r, s')"
        by (simp add: received_ids_def bnd_def ask_peer_def gets_def)
      from keepsD [OF good_flush s f] flush_known_returns [of env a t hs s _ s'] f l True False hs
      show ?thesis by (auto simp: consecutive_drop)
    qed
  next
    case False
    then have j: "join_ids env a hs s = (r, s')"
      using run by (simp add: received_ids_def bnd_def ask_peer_def gets_def)
    let ?p = "pop_back_to (hd hs) ?old"
    show ?thesis
    proof (cases "?p = []")
      case True
      let ?m = "seq (set_peer a (\<lambda>p. p\<lparr>ids_of_items_to_get := [], last_block_seen := hd hs\<rparr>))
           (bnd (call (dg_block_time (ne_delegate env) (hd hs))) (\<lambda>time.
            seq (set_peer a (\<lambda>p. p\<lparr>last_block_time_seen := time\<rparr>)) (ret (tl hs)))) :: ('a node, bytes list) sx"
      from True j have m: "?m s = (r, s')"
        by (simp add: join_ids_def bnd_def ask_peer_def gets_def Let_def)
      have "keeps (good env n) ?m" by (intro node_rules; simp)
      from keepsD [OF this s m] have "good env n s'" .
      moreover have "new = tl hs \<and> ids_of_items_to_get (the_peer a s') = []" if r: "r = Inr new" for new
      proof -
        obtain r1 c1 where c: "dg_block_time (ne_delegate env) (hd hs) (chain s) = (r1, c1)" by fastforce
        show ?thesis
        proof (cases r1)
          case (Inl e)
          with m c r show ?thesis by (simp add: bnd_def seq_def call_def set_peer_runs)
        next
          case (Inr time)
          with m c r have "new = tl hs"
            "peers s' = ((peers s)[a := (peers s ! a)\<lparr>ids_of_items_to_get := [], last_block_seen := hd hs\<rparr>])
               [a := (peers s ! a)\<lparr>ids_of_items_to_get := [], last_block_seen := hd hs, last_block_time_seen := time\<rparr>]"
            using l by (auto simp: bnd_def seq_def call_def set_peer_runs ret_def)
          with l show ?thesis by (simp add: the_peer_def)
        qed
      qed
      ultimately show ?thesis using consecutive_tl [OF hs] by (metis append_Nil)
    next
      case p: False
      with j have e: "r = Inr hs" "s' = s\<lparr>peers := (peers s)[a := (peers s ! a)\<lparr>ids_of_items_to_get := butlast ?p\<rparr>]\<rparr>"
        by (simp_all add: join_ids_def bnd_def seq_def ask_peer_def gets_def ret_def set_peer_runs)
      from joined_consecutive [OF old hs p] False have c: "?c (butlast ?p @ hs)" by blast
      then have "?c (butlast ?p)" by (simp add: consecutive_append)
      then have "good env n s'" unfolding e
        by (intro good_put_peer s) (simp add: peer_ok_def queue_counted_def)
      with c l show ?thesis by (simp add: e the_peer_def)
    qed
  qed
qed

lemma good_take_ids:
  assumes a: "a < n" and hs: "consecutive (dg_block_number (ne_delegate env)) hs"
  shows "keeps (good env n) (take_ids env a remaining t hs)"
proof -
  have k: "keeps (good env n) (bnd (ask_peer a minimum_last_time) (\<lambda>time.
         if time > dg_blockchain_now (ne_delegate env) + future_sync_grace_sec
         then disconnect_from_peer env a ''You offered me a list of more sync blocks than could possibly exist'' True (Some Unhandled)
         else seq update_unsynced_count (next_sync_step env a remaining)))"
    unfolding next_sync_step_def using a by (intro node_rules)
  have "keeps (good env n) (bnd (received_ids env a t hs) (\<lambda>new.
      seq (set_peer a (\<lambda>p. p\<lparr>ids_of_items_to_get := ids_of_items_to_get p @ new, unfetched_ids := remaining\<rparr>)) m))"
    if m: "keeps (good env n) m" for m
    unfolding keeps_def
  proof (intro allI impI)
    fix s
    assume s: "good env n s"
    obtain r s' where run: "received_ids env a t hs s = (r, s')" by fastforce
    note spec = received_ids_spec [OF s a hs run]
    show "good env n (snd (bnd (received_ids env a t hs) (\<lambda>new.
      seq (set_peer a (\<lambda>p. p\<lparr>ids_of_items_to_get := ids_of_items_to_get p @ new, unfetched_ids := remaining\<rparr>)) m) s))"
    proof (cases r)
      case (Inl e)
      with run spec show ?thesis by (simp add: bnd_def)
    next
      case (Inr new)
      let ?p = "(peers s' ! a)\<lparr>ids_of_items_to_get := ids_of_items_to_get (peers s' ! a) @ new, unfetched_ids := remaining\<rparr>"
      from Inr spec have "good env n (s'\<lparr>peers := (peers s')[a := ?p]\<rparr>)"
        by (intro good_put_peer) (auto simp: peer_ok_def queue_counted_def the_peer_def)
      with m have "good env n (snd (m (s'\<lparr>peers := (peers s')[a := ?p]\<rparr>)))" by (simp add: keeps_def)
      with Inr run show ?thesis by (simp add: bnd_def seq_def set_peer_runs)
    qed
  qed
  from this [OF k] have "keeps (good env n) (bnd (received_ids env a t hs) (\<lambda>new.
      seq (set_peer a (\<lambda>p. p\<lparr>ids_of_items_to_get := ids_of_items_to_get p @ new, unfetched_ids := remaining\<rparr>))
        (bnd (ask_peer a minimum_last_time) (\<lambda>time.
         if time > dg_blockchain_now (ne_delegate env) + future_sync_grace_sec
         then disconnect_from_peer env a ''You offered me a list of more sync blocks than could possibly exist'' True (Some Unhandled)
         else seq update_unsynced_count (next_sync_step env a remaining)))))" .
  then show ?thesis
    unfolding take_ids_def by (intro keeps_seq good_set_peer; simp)
qed

lemma good_item_ids [node_rules]:
  assumes "a < n"
  shows "keeps (good env n) (on_blockchain_item_ids env a remaining t hs)"
proof -
  note take = good_take_ids [OF assms valid_answer_consecutive, of env _ hs remaining t]
  show ?thesis
    unfolding on_blockchain_item_ids_def Let_def
    by (intro node_rules take; simp add: assms)
qed

lemma good_fetch_sync [node_rules]: "keeps (good env n) (fetch_sync_items env)"
  unfolding fetch_sync_items_def request_sync_items_from_peer_def
  by (intro node_rules; auto simp: same_connections_def)

lemma good_inventory [node_rules]: "keeps (good env n) (on_item_ids_inventory env a t hs)"
proof -
  have "keeps (good env n) (take_inventory env a t hs)"
    by (induction hs) (auto intro!: node_rules simp: note_wanted_def same_connections_def)
  then show ?thesis unfolding on_item_ids_inventory_def by (intro node_rules; simp)
qed

lemma good_fetch_items [node_rules]: "keeps (good env n) (fetch_items env)"
  unfolding fetch_items_def note_requests_def request_items_from_peer_def
  by (intro node_rules; auto simp: same_connections_def)

lemma good_advertise [node_rules]: "keeps (good env n) (advertise_inventory env)"
  unfolding advertise_inventory_def advertise_to_peer_def
  by (intro node_rules; auto simp: same_connections_def)

lemma good_items [node_rules]:
  assumes "a < n"
  shows "keeps (good env n) (on_fetch_items env a t hs)" "keeps (good env n) (on_item_not_available env a i)"
    "keeps (good env n) (process_ordinary_message env a m h)"
  using assms unfolding on_fetch_items_def find_message_def key_not_found_as_none_def send_reply_def
    on_item_not_available_def process_ordinary_message_def deliver_message_def Let_def
  by (auto intro!: node_rules simp: same_connections_def split: net_message.split)

text \<open>Peers taken from the set of active ones exist.\<close>

lemma active_known: "good env n s \<Longrightarrow> a \<in> set (active_peers s) \<Longrightarrow> a < length (peers s)"
  by (auto simp: good_def connections_ok_def)

lemma set_insert_iff [simp]: "x \<in> set (set_insert y ys) \<longleftrightarrow> x = y \<or> x \<in> set ys"
  by (auto simp: set_insert_def)

lemma good_collect:
  assumes "\<And>x. x \<in> set xs \<Longrightarrow> keeps (good env n) (f x)"
    and "\<And>ys. map fst ys = xs \<Longrightarrow> keeps (good env n) (g ys)"
    and "\<And>x s y t. f x s = (Inr y, t) \<Longrightarrow> fst y = x"
  shows "keeps (good env n) (bnd (collect f xs) g)"
proof -
  have v: "collect f xs s = (Inr ys, t) \<Longrightarrow> map fst ys = xs" for s ys t
  proof (induction xs arbitrary: s ys)
    case Nil
    then show ?case by (simp add: ret_def)
  next
    case (Cons x xs)
    then show ?case by (auto simp: bnd_Inr_iff ret_def dest: assms(3))
  qed
  have "good env n (snd (bnd (collect f xs) g s))" if s: "good env n s" for s
  proof -
    have c: "good env n (snd (collect f xs s))"
      using good_weaken [OF keeps_collect [of xs "good env n" f] s] assms(1) by blast
    show ?thesis
    proof (cases "collect f xs s")
      case (Pair r t)
      with c v assms(2) show ?thesis by (cases r) (auto simp: bnd_def keeps_def)
    qed
  qed
  then show ?thesis by (simp add: keeps_def)
qed

lemma good_each_step:
  assumes "\<And>s p. peer_ok env p \<Longrightarrow> peer_ok env (snd (f s p))"
  shows "keeps (good env n) (bnd (gets (\<lambda>s. f s (the_peer a s))) (\<lambda>(x, p). seq (set_peer a (\<lambda>_. p)) (ret (a, x))))"
  using assms
  by (auto simp: keeps_def bnd_def seq_def gets_def ret_def set_peer_runs the_peer_def split: prod.split
      intro!: good_put_peer) (metis snd_conv)

lemma good_each_active:
  fixes g :: "(nat \<times> 'x) list \<Rightarrow> ('c node, 'y) sx"
  assumes f: "\<And>s p. peer_ok env p \<Longrightarrow> peer_ok env (snd (f s p))"
    and "\<And>N as. n \<le> N \<Longrightarrow> (\<And>a x. (a, x) \<in> set as \<Longrightarrow> a < N) \<Longrightarrow> keeps (good env N) (g as)"
  shows "keeps (good env n) (bnd (each_active f) g)"
  unfolding each_active_def bnd_assoc
proof (rule good_snapshot, rule good_collect)
  fix s :: "'c node" and ys :: "(nat \<times> 'x) list"
  assume s: "good env n s" and ys: "map fst ys = active_peers s"
  show "keeps (good env (length (peers s))) (g ys)"
  proof (rule assms(2))
    show "n \<le> length (peers s)" using s by (simp add: good_def)
    show "a < length (peers s)" if "(a, x) \<in> set ys" for a x
      using active_known [OF s, of a] that by (force simp: ys [symmetric])
  qed
qed (auto intro!: good_each_step f simp: bnd_Inr_iff seq_Inr_iff ret_def split: prod.splits)

lemma bnd_seq: "bnd (seq m k) g = seq m (bnd k g)"
  by (simp add: seq_def bnd_assoc)

lemma good_each_active_only [node_rules]:
  "(\<And>s p. peer_ok env p \<Longrightarrow> peer_ok env (snd (f s p))) \<Longrightarrow> keeps (good env n) (each_active f)"
  unfolding each_active_def by (intro node_rules good_each_step; simp)

lemma peer_ok_actions [simp]:
  assumes "peer_ok env p"
  shows "peer_ok env (snd (after_accepted s b i p))" "peer_ok env (snd (after_rejected d i p))"
    "peer_ok env (snd (take_next i p))" "peer_ok env (snd (forget_processed i p))"
    "peer_ok env (snd (note_block_seen env x m p))"
proof -
  have "peer_ok env (p\<lparr>ids_of_items_to_get := tl (ids_of_items_to_get p)\<rparr>)"
    using assms by (simp add: peer_ok_def queue_counted_def consecutive_tl)
  with assms show "peer_ok env (snd (take_next i p))" by (simp add: take_next_def)
qed (use assms in \<open>simp_all add: after_accepted_def after_rejected_def forget_processed_def note_block_seen_def Let_def\<close>)

lemma with_action_known: "(\<And>b x. (b, x) \<in> set as \<Longrightarrow> b < N) \<Longrightarrow> a \<in> set (with_action x as) \<Longrightarrow> a < N"
  by (auto simp: with_action_def)

lemma good_sync_block [node_rules]: "keeps (good env n) (send_sync_block_to_node_delegate env m)"
proof -
  have fin: "keeps (good env N)
      (seq (each (\<lambda>a. disconnect_from_peer env a reason True err) (with_action Disconnect_Fork as))
       (seq (each (\<lambda>a. fetch_next_batch_of_item_ids env a False) (with_action Next_Batch as))
        (seq (each (start_synchronizing_with_peer env) (with_action Restart_Sync as)) trigger_backlog)))"
    if "\<And>a x. (a, x) \<in> set as \<Longrightarrow> a < N" for N as reason err
    using with_action_known [OF that] by (auto intro!: node_rules)
  have out: "keeps (good env n) (bnd (case outcome of None \<Rightarrow> seq (update u) (each_active f) | Some e \<Rightarrow> each_active (g e)) k)"
    if "keeps (good env n) (bnd (each_active f) k)" "\<And>e. keeps (good env n) (bnd (each_active (g e)) k)"
      "\<And>s. same_connections s (u s)"
    for outcome :: "error option" and f g k u
    using that by (cases outcome) (simp_all add: bnd_seq keeps_seq good_update)
  show ?thesis
    unfolding send_sync_block_to_node_delegate_def
    by (intro node_rules out good_each_active fin) (auto simp: same_connections_def)
qed

lemma good_run_block_task [node_rules]: "keeps (good env n) (run_block_task env k)"
  unfolding run_block_task_def by (intro node_rules; auto simp: same_connections_def)

lemma good_process_one [node_rules]: "keeps (good env n) (process_one_block env)"
proof -
  have fin: "keeps (good env N) (seq (each (\<lambda>a. fetch_next_batch_of_item_ids env a False) (map fst (filter snd as))) (ret False))"
    if "\<And>a x. (a, x) \<in> set as \<Longrightarrow> a < N" for N and as :: "(nat \<times> bool) list"
    using that by (auto intro!: node_rules)
  show ?thesis
    unfolding process_one_block_def
    by (intro node_rules good_each_active fin) (auto simp: same_connections_def)
qed

lemma good_rounds [node_rules]: "keeps (good env n) (backlog_rounds env k)"
  by (induction k) (auto intro!: node_rules simp: same_connections_def)

lemma good_backlog [node_rules]: "keeps (good env n) (process_backlog_of_sync_blocks env)"
  unfolding process_backlog_of_sync_blocks_def
  by (intro node_rules; auto simp: same_connections_def)

lemma good_post:
  assumes m: "keeps (good env n) m"
    and f: "\<And>s x t. good env n s \<Longrightarrow> good env n t \<Longrightarrow> m s = (Inr x, t) \<Longrightarrow> keeps (good env (length (peers t))) (f x)"
  shows "keeps (good env n) (bnd m f)"
proof -
  have "good env n (snd (bnd m f s))" if s: "good env n s" for s
  proof (cases "m s")
    case (Pair r t)
    with good_weaken [OF m s] have t: "good env n t" by simp
    then have "good env (length (peers t)) t" and "n \<le> length (peers t)" by (simp_all add: good_def)
    with Pair t f [OF s t] show ?thesis by (cases r) (auto simp: bnd_def keeps_def good_def intro: order_trans)
  qed
  then show ?thesis by (simp add: keeps_def)
qed

lemma good_push_normal [node_rules]: "keeps (good env n) (push_normal_block env a m h)"
  unfolding push_normal_block_def by (intro node_rules; auto simp: same_connections_def)

lemma push_normal_returns:
  "push_normal_block env a m h s = (Inr old, t) \<Longrightarrow> set old \<subseteq> set (active_peers t)"
  by (auto simp: push_normal_block_def bnd_Inr_iff seq_Inr_iff gets_def split: prod.splits if_splits)

lemma good_normal_block [node_rules]:
  assumes a: "a < n"
  shows "keeps (good env n) (process_block_during_normal_operation env a m h)"
  unfolding process_block_during_normal_operation_def
proof (rule good_post)
  show "keeps (good env n) (catch_sx (bnd (push_normal_block env a m h) (\<lambda>old. ret (None, old)))
     (\<lambda>e. if fc_exception e \<and> e \<noteq> Net_Unlinkable_Block then gets (\<lambda>s. (Some e, set_insert a (offered_first (snd m) s)))
         else if e = Net_Unlinkable_Block then ret (Some e, []) else raise e))"
    by (intro node_rules; simp)
next
  fix s x t
  assume t: "good env n t"
    and run: "catch_sx (bnd (push_normal_block env a m h) (\<lambda>old. ret (None, old)))
     (\<lambda>e. if fc_exception e \<and> e \<noteq> Net_Unlinkable_Block then gets (\<lambda>s. (Some e, set_insert a (offered_first (snd m) s)))
         else if e = Net_Unlinkable_Block then ret (Some e, []) else raise e) s = (Inr x, t)"
  then have "set (snd x) \<subseteq> insert a (set (active_peers t))"
    by (auto simp: catch_sx_def bnd_def ret_def gets_def raise_def offered_first_def dest: subsetD [OF push_normal_returns]
        split: prod.splits sum.splits if_splits)
  moreover have "a < length (peers t)" using a t by (simp add: good_def)
  ultimately have "c < length (peers t)" if "c \<in> set (snd x)" for c
    using that active_known [OF t, of c] by auto
  with \<open>a < length (peers t)\<close> show "keeps (good env (length (peers t))) (case x of (outcome, cs) \<Rightarrow>
      if outcome = Some Net_Unlinkable_Block then start_synchronizing_with_peer env a
      else each (\<lambda>c. disconnect_from_peer env c
             (if outcome = None then fork_reason @ decimal (unat (block_num (fst m)))
              else ''You offered me a block that I have deemed to be invalid'') True
             (Some (case outcome of None \<Rightarrow> Unhandled | Some e \<Rightarrow> e))) (sort cs))"
    by (cases x) (auto intro!: node_rules)
qed

lemma good_block_message [node_rules]: "a < n \<Longrightarrow> keeps (good env n) (process_block_message env a b i h)"
  unfolding process_block_message_def after_sync_block_def Let_def
  by (intro node_rules; auto simp: same_connections_def)

lemma peer_ok_hello [simp]:
  "peer_ok env (store_hello h p) \<longleftrightarrow> peer_ok env p" "peer_ok env p \<Longrightarrow> peer_ok env (guess_fork env p)"
  by (simp_all add: store_hello_def guess_fork_def split: option.split)

lemma good_hello [node_rules]:
  assumes "a < n"
  shows "keeps (good env n) (send_hello_message env local a)" "keeps (good env n) (on_hello env a h)"
  using assms unfolding send_hello_message_def on_hello_def parse_hello_user_data_def read_member_def
    decide_hello_def reject_hello_def answer_hello_def note_firewalled_def Let_def
  by (auto intro!: node_rules)

lemma good_answers [node_rules]:
  assumes "a < n"
  shows "keeps (good env n) (on_connection_accepted env a)" "keeps (good env n) (on_connection_rejected env a r)"
    "keeps (good env n) (on_address_request env a)" "keeps (good env n) (on_address env a as)"
  using assms unfolding on_connection_accepted_def on_connection_rejected_def on_address_request_def
    list_address_def on_address_def
  by (auto intro!: node_rules simp: same_connections_def)

lemma good_firewall [node_rules]:
  "keeps (good env n) (forward_firewall_check env f)" "keeps (good env n) (connect_to_endpoint env e)"
  "keeps (good env n) (on_check_firewall env a i e)" "keeps (good env n) (on_check_firewall_reply env a i e r)"
proof -
  show f: "keeps (good env n) (forward_firewall_check env f)" for f
    unfolding forward_firewall_check_def by (intro node_rules; simp)
  show "keeps (good env n) (connect_to_endpoint env e)"
    unfolding connect_to_endpoint_def by (intro node_rules; simp)
  show "keeps (good env n) (on_check_firewall env a i e)"
    unfolding on_check_firewall_def by (intro node_rules f; simp)
  show "keeps (good env n) (on_check_firewall_reply env a i e r)"
    unfolding on_check_firewall_reply_def by (intro node_rules f; auto simp: same_connections_def)
qed

lemma good_closed [node_rules]:
  assumes "a < n"
  shows "keeps (good env n) (on_closing_connection env a)" "keeps (good env n) (on_connection_closed env a)"
  using assms unfolding on_closing_connection_def on_connection_closed_def reschedule_items_def
  by (auto intro!: node_rules simp: same_connections_def)

lemma sort_active_sets:
  "a \<in> set (gently (sort_active i k g s as)) \<Longrightarrow> a \<in> set as"
  "a \<in> set (forcibly (sort_active i k g s as)) \<Longrightarrow> a \<in> set as"
  by (induction as) (auto simp: Let_def split: if_splits)

lemma inactive_sets:
  "a \<in> set (gently (inactive_of env s)) \<union> set (forcibly (inactive_of env s)) \<Longrightarrow>
   a \<in> set (handshaking s) \<union> set (active_peers s) \<union> set (closing s)"
  by (auto simp: inactive_of_def Let_def dest: sort_active_sets)

lemma good_terminate [node_rules]:
  fixes env :: "'c node_env"
  shows "keeps (good env n) (terminate_inactive_connections env)"
  unfolding terminate_inactive_connections_def
proof (rule good_snapshot, rule node_rules, rule node_rules, rule node_rules)
  fix s :: "'c node"
  assume s: "good env n s"
  let ?N = "length (peers s)"
  have k: "a < ?N" if "a \<in> set (gently (inactive_of env s)) \<union> set (forcibly (inactive_of env s))" for a
    using inactive_sets [OF that] s by (auto simp: good_def connections_ok_def)
  show "keeps (good env ?N) (seq (each (\<lambda>a. set_peer a (\<lambda>p. p\<lparr>connection_closed_error := Some Unhandled\<rparr>)) x)
      (seq (each (\<lambda>a. seq (update (\<lambda>s. s\<lparr>terminating := removeAll a (terminating s)\<rparr>)) (schedule_peer_for_deletion a)) xa)
       (seq (each (\<lambda>a. seq (move_peer_to_terminating_list a) (set_peer a (close_connection (ne_now env)))) (forcibly (inactive_of env s)))
        (seq (each (\<lambda>a. disconnect_from_peer env a ''Disconnecting due to inactivity'' False (Some Unhandled)) (gently (inactive_of env s)))
         (each (\<lambda>a. send_stamped env a (Current_Time_Request 0)) (keep_alive (inactive_of env s)))))))"
    for x xa
  proof -
    have t: "keeps (good env ?N) (update (\<lambda>s. s\<lparr>terminating := removeAll a (terminating s)\<rparr>))" for a
      by (auto simp: keeps_def update_def good_def connections_ok_def distinct_removeAll)
    show ?thesis using k
      by (intro keeps_seq keeps_each t good_simple good_peer_statements good_set_peer good_moves good_disconnect) auto
  qed
qed (rule node_rules)

lemma good_lists [node_rules]: "keeps (good env n) (fetch_updated_peer_lists env)"
  unfolding fetch_updated_peer_lists_def by (intro node_rules; auto simp: same_connections_def)

lemma good_connect [node_rules]:
  "keeps (good env n) (connect_once env)" "keeps (good env n) (add_node env e)" "keeps (good env n) (accept_peer env e)"
  "keeps (good env n) (set_allowed_peers env is)" "keeps (good env n) delayed_peer_deletion_task"
proof -
  have pass: "keeps (good env n) (connect_pass env rs)" for rs
    by (induction rs) (auto intro!: node_rules)
  show "keeps (good env n) (connect_once env)"
    unfolding connect_once_def by (intro node_rules pass; auto simp: same_connections_def)
  show "keeps (good env n) (add_node env e)"
    unfolding add_node_def by (intro node_rules; auto simp: same_connections_def Let_def)
  show "keeps (good env n) (accept_peer env e)"
    unfolding accept_peer_def by (intro node_rules; simp)
  show "keeps (good env n) (set_allowed_peers env is)"
    unfolding set_allowed_peers_def
  proof (rule keeps_seq, rule good_update)
    show "keeps (good env n) (bnd (gets (\<lambda>s. if is = [] then [] else filter (\<lambda>a. node_id (the_peer a s) \<notin> set is) (active_peers s)))
        (each (\<lambda>a. disconnect_from_peer env a ''My allowed_peers list has changed, and you're no longer allowed.  Bye.'' False None)))"
      by (rule good_snapshot, rule keeps_each, rule good_disconnect) (auto dest: active_known split: if_splits)
  qed (simp add: same_connections_def)
  show "keeps (good env n) delayed_peer_deletion_task"
    unfolding delayed_peer_deletion_task_def by (rule good_update) (simp add: same_connections_def)
qed

lemma good_sockets [node_rules]:
  "keeps (good env n) (on_peer a (connect_to c e))" "keeps (good env n) (on_peer a (accept_connection c local))"
  by (rule good_on_peer, simp add: connect_to_def accept_connection_def Let_def)+

lemma good_connect_tasks [node_rules]:
  assumes "a < n"
  shows "keeps (good env n) (connect_to_task env c local a e)" "keeps (good env n) (accept_connection_task env c local a)"
proof -
  note hello = good_hello(1) [OF assms]
  show "keeps (good env n) (connect_to_task env c local a e)"
    unfolding connect_to_task_def Let_def by (intro node_rules hello assms; simp)
  show "keeps (good env n) (accept_connection_task env c local a)"
    unfolding accept_connection_task_def by (intro node_rules hello; simp)
qed

lemma good_message [node_rules]:
  assumes "a < n"
  shows "keeps (good env n) (peer_on_message env connections a h m)"
proof -
  have m: "keeps (good env n) (on_message env connections a m h)"
    unfolding on_message_def using assms by (cases m) (auto intro!: node_rules simp: on_current_time_request_def on_current_time_reply_def)
  show ?thesis
    unfolding peer_on_message_def
    by (intro node_rules keeps_on_exit m; simp add: good_put_peer)
qed

lemma good_receive [node_rules]: "a < n \<Longrightarrow> keeps (good env n) (receive_frame env connections other a f)"
  unfolding receive_frame_def by (intro node_rules; simp)

lemma send_queued_fields:
  "ids_of_items_to_get (snd (send_queued lib lookup outcome now qs p)) = ids_of_items_to_get p \<and>
   (connection_terminated_time p = 0 \<longrightarrow> connection_terminated_time (snd (send_queued lib lookup outcome now qs p)) = 0)"
  by (induction qs arbitrary: p) (simp_all add: Let_def close_connection_def split_beta)

lemma good_send_task [node_rules]: "keeps (good env n) (run_send_task env lookup outcome a)"
  unfolding run_send_task_def
proof (rule good_on_peer)
  fix p
  assume p: "peer_ok env p"
  let ?r = "send_queued (ne_lib env) lookup outcome (ne_now env) (queued_messages p) p"
  from send_queued_counted [of "ne_lib env" p, OF _ refl, of lookup outcome "ne_now env"] p
  have "queue_counted (ne_lib env) (snd ?r)" by (auto simp: peer_ok_def split: prod.splits)
  with p have "peer_ok env (snd ?r)"
    using send_queued_fields [of "ne_lib env" lookup outcome "ne_now env" "queued_messages p" p]
    by (simp add: peer_ok_def)
  then show "peer_ok env (snd (case send_queued_messages_task (ne_lib env) lookup outcome (ne_now env) p of (ms, p') \<Rightarrow> (Inr ms, p')))"
    by (simp add: send_queued_messages_task_def split_beta)
qed

subsection \<open>Runs of the node\<close>

text \<open>
  A step is the handling of a message, the end of a connection, an iteration of a loop or the run of a
  task, each with its own time and surroundings.
\<close>

definition speaks :: "(bytes \<Rightarrow> u32) \<Rightarrow> (net_message \<Rightarrow> bytes) \<Rightarrow> 'c node_env \<Rightarrow> bool" where
  "speaks number lib env \<longleftrightarrow> dg_block_number (ne_delegate env) = number \<and> ne_lib env = lib"

inductive node_step :: "(bytes \<Rightarrow> u32) \<Rightarrow> (net_message \<Rightarrow> bytes) \<Rightarrow> 'c node \<Rightarrow> 'c node \<Rightarrow> bool" for number lib where
  message: "speaks number lib env \<Longrightarrow> a < length (peers s) \<Longrightarrow> node_step number lib s (snd (receive_frame env connections other a f s))"
| sending: "speaks number lib env \<Longrightarrow> node_step number lib s (snd (run_send_task env lookup outcome a s))"
| closed: "speaks number lib env \<Longrightarrow> a < length (peers s) \<Longrightarrow> node_step number lib s (snd (on_connection_closed env a s))"
| sync_loop: "speaks number lib env \<Longrightarrow> node_step number lib s (snd (fetch_sync_items env s))"
| item_loop: "speaks number lib env \<Longrightarrow> node_step number lib s (snd (fetch_items env s))"
| advertise_loop: "speaks number lib env \<Longrightarrow> node_step number lib s (snd (advertise_inventory env s))"
| terminate_loop: "speaks number lib env \<Longrightarrow> node_step number lib s (snd (terminate_inactive_connections env s))"
| list_loop: "speaks number lib env \<Longrightarrow> node_step number lib s (snd (fetch_updated_peer_lists env s))"
| connect_loop: "speaks number lib env \<Longrightarrow> node_step number lib s (snd (connect_once env s))"
| backlog: "speaks number lib env \<Longrightarrow> node_step number lib s (snd (process_backlog_of_sync_blocks env s))"
| block_task: "speaks number lib env \<Longrightarrow> node_step number lib s (snd (run_block_task env k s))"
| connect_task: "speaks number lib env \<Longrightarrow> a < length (peers s) \<Longrightarrow> node_step number lib s (snd (connect_to_task env c local a e s))"
| accept_loop: "speaks number lib env \<Longrightarrow> node_step number lib s (snd (accept_peer env e s))"
| accept_task: "speaks number lib env \<Longrightarrow> a < length (peers s) \<Longrightarrow> node_step number lib s (snd (accept_connection_task env c local a s))"
| broadcasting: "speaks number lib env \<Longrightarrow> node_step number lib s (snd (broadcast env m s))"
| adding: "speaks number lib env \<Longrightarrow> node_step number lib s (snd (add_node env e s))"
| allowing: "speaks number lib env \<Longrightarrow> node_step number lib s (snd (set_allowed_peers env is s))"
| deleting: "node_step number lib s (snd (delayed_peer_deletion_task s))"
| syncing: "node_step number lib s (snd (sync_from i ks s))"

text \<open>What holds of every node that runs.\<close>

definition node_ok :: "(bytes \<Rightarrow> u32) \<Rightarrow> (net_message \<Rightarrow> bytes) \<Rightarrow> 'c node \<Rightarrow> bool" where
  "node_ok number lib s \<longleftrightarrow> connections_ok s \<and>
     (\<forall>p \<in> set (peers s). consecutive number (ids_of_items_to_get p) \<and> queue_counted lib p \<and> connection_terminated_time p = 0)"

lemma good_iff: "speaks number lib env \<Longrightarrow> good env n s \<longleftrightarrow> node_ok number lib s \<and> n \<le> length (peers s)"
  by (auto simp: good_def node_ok_def peer_ok_def speaks_def)

lemma good_broadcast [node_rules]: "keeps (good env n) (broadcast env m)"
  unfolding broadcast_def by (intro node_rules)

lemma ok_after:
  assumes "speaks number lib env" and "keeps (good env n) m" and "n \<le> length (peers s)" and "node_ok number lib s"
  shows "node_ok number lib (snd (m s))"
  using assms(2-4) by (simp add: keeps_def good_iff [OF assms(1)])

lemma step_ok: "node_step number lib s t \<Longrightarrow> node_ok number lib s \<Longrightarrow> node_ok number lib t"
proof (induction rule: node_step.induct)
  case (message env a s connections other f)
  then show ?case by (intro ok_after [OF _ good_receive [of a "Suc a"]]) auto
next
  case (closed env a s)
  then show ?case by (intro ok_after [OF _ good_closed(2) [of a "Suc a"]]) auto
next
  case (connect_task env a s c local e)
  then show ?case by (intro ok_after [OF _ good_connect_tasks(1) [of a "Suc a"]]) auto
next
  case (accept_task env a s c local)
  then show ?case by (intro ok_after [OF _ good_connect_tasks(2) [of a "Suc a"]]) auto
next
  case (deleting s)
  then show ?case by (simp add: delayed_peer_deletion_task_def update_def node_ok_def connections_ok_def)
next
  case (syncing s i ks)
  then show ?case by (simp add: sync_from_def update_def node_ok_def connections_ok_def)
qed (erule ok_after [where n = 0], rule node_rules, simp, assumption)+

text \<open>The node when it is made.\<close>

definition new_node :: "'c \<Rightarrow> bytes \<Rightarrow> bytes \<Rightarrow> bytes \<Rightarrow> string \<Rightarrow> endpoint \<Rightarrow> 'c node" where
  "new_node c i pub priv agent listen =
     \<lparr>chain = c, configuration = default_configuration, peers = [], handshaking = [], active_peers = [],
      closing = [], terminating = [], peers_to_delete = [], node_firewalled = Firewall_Unknown,
      visible_endpoint = None, last_firewall_check = 0, peer_db = [], peer_db_updated = False,
      add_once = [], own_node_id = i, own_public_key = pub, own_private_key = priv,
      listening_endpoint = listen, own_user_agent = agent, allowed_peers = [], sync_fetch_updated = False,
      active_sync_requests = [], new_received_blocks = [], received_blocks = [],
      backlog_scheduled = False, suspend_fetching = False, blocks_in_progress = [],
      items_fetch_updated = False, sequence_counter = 0, items_to_fetch = [], recently_failed = [],
      new_inventory = [], recent_accepted = [], sync_item_type = 0, total_unfetched = 0,
      hard_fork_blocks = [], message_cache = empty_cache, last_reported_connections = 0,
      shutting_down = False, being_processed = []\<rparr>"

lemma new_node_ok: "node_ok number lib (new_node c i pub priv agent listen)"
  by (simp add: new_node_def node_ok_def connections_ok_def)

lemma reachable_ok: "(node_step number lib)\<^sup>*\<^sup>* (new_node c i pub priv agent listen) s \<Longrightarrow> node_ok number lib s"
  by (induction rule: rtranclp_induct) (auto intro: new_node_ok step_ok)

end
