(* ===== verification/Node_Requests.thy ===== *)
theory Node_Requests
  imports Node_Facts "HOL-Library.Multiset"
begin

section \<open>The network node: what is asked of whom\<close>

text \<open>
  One pass over the peers decides which sync blocks each is asked for, one pass over the wanted items
  which peer is asked for each. Both are described by what they give out: nothing twice, nothing
  that is not on offer, nothing beyond the limit, nothing lost.
\<close>

subsection \<open>Sync blocks\<close>

lemma blocks_to_request_spec:
  assumes "distinct asked" and "set asked \<subseteq> taken" and "length asked < limit"
  shows "\<exists>more. blocks_to_request busy_with limit hs taken asked = asked @ more \<and>
    distinct (asked @ more) \<and> set more \<inter> taken = {} \<and> set more \<subseteq> set hs \<and>
    (\<forall>h \<in> set more. \<not> busy_with h) \<and> length (asked @ more) \<le> limit \<and>
    (length (asked @ more) = limit \<or> (\<forall>h \<in> set hs. busy_with h \<or> h \<in> taken \<or> h \<in> set more))"
  using assms
proof (induction hs arbitrary: taken asked)
  case Nil
  then show ?case by simp
next
  case (Cons h hs)
  show ?case
  proof (cases "\<not> busy_with h \<and> h \<notin> taken")
    case fresh: True
    show ?thesis
    proof (cases "length asked + 1 \<ge> limit")
      case True
      with fresh Cons.prems show ?thesis by (intro exI [of _ "[h]"]) auto
    next
      case False
      have "distinct (asked @ [h])" "set (asked @ [h]) \<subseteq> insert h taken" "length (asked @ [h]) < limit"
        using fresh False Cons.prems by auto
      from Cons.IH [OF this] obtain more where
        "blocks_to_request busy_with limit hs (insert h taken) (asked @ [h]) = (asked @ [h]) @ more"
        "distinct ((asked @ [h]) @ more)" "set more \<inter> insert h taken = {}" "set more \<subseteq> set hs"
        "\<forall>h \<in> set more. \<not> busy_with h" "length ((asked @ [h]) @ more) \<le> limit"
        "length ((asked @ [h]) @ more) = limit \<or> (\<forall>x \<in> set hs. busy_with x \<or> x \<in> insert h taken \<or> x \<in> set more)"
        by blast
      with fresh False show ?thesis by (intro exI [of _ "h # more"]) auto
    qed
  next
    case False
    from Cons.IH [OF Cons.prems] obtain more where
      "blocks_to_request busy_with limit hs taken asked = asked @ more"
      "distinct (asked @ more)" "set more \<inter> taken = {}" "set more \<subseteq> set hs"
      "\<forall>h \<in> set more. \<not> busy_with h" "length (asked @ more) \<le> limit"
      "length (asked @ more) = limit \<or> (\<forall>x \<in> set hs. busy_with x \<or> x \<in> taken \<or> x \<in> set more)"
      by blast
    with False show ?thesis by (intro exI [of _ more]) auto
  qed
qed

abbreviation peer_limit :: "'c node \<Rightarrow> nat" where
  "peer_limit s \<equiv> max_blocks_per_peer (configuration s)"

lemma blocks_asked:
  assumes "0 < peer_limit s"
  obtains asked where
    "blocks_to_request (already_requested s) (peer_limit s) (ids_of_items_to_get (the_peer a s)) taken [] = asked"
    "distinct asked" "set asked \<inter> taken = {}" "set asked \<subseteq> set (ids_of_items_to_get (the_peer a s))"
    "\<forall>h \<in> set asked. \<not> already_requested s h" "length asked \<le> peer_limit s"
    "length asked = peer_limit s \<or>
     (\<forall>h \<in> set (ids_of_items_to_get (the_peer a s)). already_requested s h \<or> h \<in> taken \<or> h \<in> set asked)"
  using blocks_to_request_spec [of "[]" taken "peer_limit s" "already_requested s" "ids_of_items_to_get (the_peer a s)"] assms
  by auto

text \<open>What one pass must give out.\<close>

definition good_requests :: "'c node \<Rightarrow> nat list \<Rightarrow> bytes set \<Rightarrow> (nat \<times> bytes list) list \<Rightarrow> bool" where
  "good_requests s as taken rs \<longleftrightarrow>
     distinct (concat (map snd rs)) \<and> distinct (map fst rs) \<and>
     (\<forall>(a, hs) \<in> set rs. a \<in> set as \<and> syncing_peer s a \<and> hs \<noteq> [] \<and> length hs \<le> peer_limit s \<and>
        set hs \<subseteq> set (ids_of_items_to_get (the_peer a s)) \<and> (\<forall>h \<in> set hs. \<not> already_requested s h \<and> h \<notin> taken)) \<and>
     (\<forall>a \<in> set as. syncing_peer s a \<longrightarrow>
        (\<exists>hs. (a, hs) \<in> set rs \<and> length hs = peer_limit s) \<or>
        (\<forall>h \<in> set (ids_of_items_to_get (the_peer a s)).
           already_requested s h \<or> h \<in> taken \<or> h \<in> set (concat (map snd rs))))"

lemma good_requests_skip:
  assumes "good_requests s as taken rs" and "sync_requests s (a # as) taken = rs"
    and "\<forall>h \<in> set (ids_of_items_to_get (the_peer a s)). already_requested s h \<or> h \<in> taken"
  shows "good_requests s (a # as) taken (sync_requests s (a # as) taken)"
  using assms by (simp add: good_requests_def) blast

lemma sync_requests_good:
  assumes "0 < peer_limit s" and "distinct as"
  shows "good_requests s as taken (sync_requests s as taken)"
  using assms(2)
proof (induction as arbitrary: taken)
  case Nil
  then show ?case by (simp add: good_requests_def)
next
  case (Cons a as)
  show ?case
  proof (cases "syncing_peer s a")
    case False
    from Cons have "good_requests s as taken (sync_requests s as taken)" by simp
    with False show ?thesis unfolding good_requests_def by auto
  next
    case True
    obtain asked where b: "blocks_to_request (already_requested s) (peer_limit s) (ids_of_items_to_get (the_peer a s)) taken [] = asked"
      and k: "distinct asked" "set asked \<inter> taken = {}" "set asked \<subseteq> set (ids_of_items_to_get (the_peer a s))"
        "\<forall>h \<in> set asked. \<not> already_requested s h" "length asked \<le> peer_limit s"
        "length asked = peer_limit s \<or>
         (\<forall>h \<in> set (ids_of_items_to_get (the_peer a s)). already_requested s h \<or> h \<in> taken \<or> h \<in> set asked)"
      by (rule blocks_asked [OF assms(1), of a taken])
    let ?rest = "sync_requests s as (taken \<union> set asked)"
    from Cons have r: "good_requests s as (taken \<union> set asked) ?rest" by simp
    show ?thesis
    proof (cases "asked = []")
      case True
      with k(6) assms(1) have "\<forall>h \<in> set (ids_of_items_to_get (the_peer a s)). already_requested s h \<or> h \<in> taken" by simp
      moreover have "sync_requests s (a # as) taken = ?rest" "taken \<union> set asked = taken"
        using b True \<open>syncing_peer s a\<close> by simp_all
      ultimately show ?thesis by (intro good_requests_skip) (use r in simp_all)
    next
      case False
      have e: "sync_requests s (a # as) taken = (a, asked) # ?rest"
        using False True b by simp
      note parts = r [unfolded good_requests_def, THEN conjunct1]
        r [unfolded good_requests_def, THEN conjunct2, THEN conjunct1]
        r [unfolded good_requests_def, THEN conjunct2, THEN conjunct2, THEN conjunct1]
        r [unfolded good_requests_def, THEN conjunct2, THEN conjunct2, THEN conjunct2]
      have d: "set asked \<inter> set (concat (map snd ?rest)) = {}"
        using parts(3) by fastforce
      have f: "a \<notin> set (map fst ?rest)"
        using parts(3) Cons.prems by fastforce
      show ?thesis
        unfolding e good_requests_def
      proof (intro conjI)
        show "distinct (concat (map snd ((a, asked) # ?rest)))" using parts(1) d k(1) by auto
        show "distinct (map fst ((a, asked) # ?rest))" using parts(2) f by simp
        show "\<forall>(c, hs) \<in> set ((a, asked) # ?rest). c \<in> set (a # as) \<and> syncing_peer s c \<and> hs \<noteq> [] \<and>
            length hs \<le> peer_limit s \<and> set hs \<subseteq> set (ids_of_items_to_get (the_peer c s)) \<and>
            (\<forall>h \<in> set hs. \<not> already_requested s h \<and> h \<notin> taken)"
          using parts(3) k True False by auto
        show "\<forall>c \<in> set (a # as). syncing_peer s c \<longrightarrow>
            (\<exists>hs. (c, hs) \<in> set ((a, asked) # ?rest) \<and> length hs = peer_limit s) \<or>
            (\<forall>h \<in> set (ids_of_items_to_get (the_peer c s)). already_requested s h \<or> h \<in> taken \<or>
               h \<in> set (concat (map snd ((a, asked) # ?rest))))"
        proof (intro ballI impI)
          fix c
          assume c: "c \<in> set (a # as)" "syncing_peer s c"
          show "(\<exists>hs. (c, hs) \<in> set ((a, asked) # ?rest) \<and> length hs = peer_limit s) \<or>
            (\<forall>h \<in> set (ids_of_items_to_get (the_peer c s)). already_requested s h \<or> h \<in> taken \<or>
               h \<in> set (concat (map snd ((a, asked) # ?rest))))"
          proof (cases "c = a")
            case True
            with k(6) show ?thesis by auto
          next
            case False
            with c have "c \<in> set as" by simp
            with parts(4) c(2) show ?thesis by fastforce
          qed
        qed
      qed
    qed
  qed
qed

subsection \<open>Items\<close>

lemma mset_index_place: "mset (index_place k pre y post) = add_mset y (mset pre + mset post)"
proof -
  have "mset (takeWhile P xs) + mset (dropWhile P xs) = mset xs" for P and xs :: "'a list"
    by (metis mset_append takeWhile_dropWhile_id)
  then show ?thesis by (auto simp: index_place_def index_insert_def)
qed

lemma mset_assign:
  assumes "distinct (map fst xs)" and "(a, is) \<in> set xs"
  shows "mset (assign a i xs) = add_mset (a, is @ [i]) (mset xs - {#(a, is)#})"
proof -
  from assms(2) obtain pre post where xs: "xs = pre @ (a, is) # post" by (auto simp: in_set_conv_decomp)
  with assms(1) have "\<forall>x \<in> set pre. fst x \<noteq> a" by force
  then have "takeWhile (\<lambda>x. fst x \<noteq> a) xs = pre" "dropWhile (\<lambda>x. fst x \<noteq> a) xs = (a, is) # post"
    by (simp_all add: xs takeWhile_append dropWhile_append)
  then show ?thesis by (simp add: assign_def index_modify_def mset_index_place xs)
qed

lemma assign_spec:
  assumes "distinct (map fst xs)" and "(a, is) \<in> set xs"
  shows "distinct (map fst (assign a i xs))"
    and "(b, js) \<in> set (assign a i xs) \<longleftrightarrow> (if b = a then js = is @ [i] else (b, js) \<in> set xs)"
    and "mset (concat (map snd (assign a i xs))) = add_mset i (mset (concat (map snd xs)))"
proof -
  from assms(2) obtain pre post where xs: "xs = pre @ (a, is) # post" by (auto simp: in_set_conv_decomp)
  define M where "M = mset pre + mset post"
  have n: "mset (assign a i xs) = add_mset (a, is @ [i]) M" and M: "mset xs = add_mset (a, is) M"
    using mset_assign [OF assms, of i] by (simp_all add: xs M_def)
  have "mset (map fst (assign a i xs)) = mset (map fst xs)" by (simp add: n M)
  then show "distinct (map fst (assign a i xs))"
    using assms(1) by (metis mset_eq_imp_distinct_iff)
  have o: "fst x \<noteq> a" if "x \<in># M" for x
    using that assms(1) by (cases x) (force simp: xs M_def)
  have s: "set (assign a i xs) = insert (a, is @ [i]) (set_mset M)" "set xs = insert (a, is) (set_mset M)"
    using n M by (metis set_mset_add_mset_insert set_mset_mset)+
  show "(b, js) \<in> set (assign a i xs) \<longleftrightarrow> (if b = a then js = is @ [i] else (b, js) \<in> set xs)"
    using o [of "(b, js)"] by (auto simp: s)
  have c: "mset (concat (map snd ys)) = (\<Sum>x \<in># mset ys. mset (snd x))" for ys :: "(nat \<times> net_item list) list"
    by (induction ys) simp_all
  show "mset (concat (map snd (assign a i xs))) = add_mset i (mset (concat (map snd xs)))"
    by (simp only: c n M) simp
qed

text \<open>Whether a peer may be asked for an item now.\<close>

definition may_ask :: "int \<Rightarrow> 'c node \<Rightarrow> net_item \<Rightarrow> nat \<Rightarrow> bool" where
  "may_ask now s i a \<longleftrightarrow>
     advertised_by i s a \<and> \<not> (fst i = trx_message_type \<and> trx_fetching_inhibited now (the_peer a s))"

lemma choose_peer_step:
  "\<exists>w. choose_peer now s i ((a, is) # xs) wake =
     (if length is < max_items_per_peer \<and> may_ask now s i a then (Some a, wake) else choose_peer now s i xs w)"
  by (auto simp: may_ask_def)

declare choose_peer.simps(2) [simp del]

lemma choose_peer_Some:
  "choose_peer now s i xs wake = (Some a, w) \<Longrightarrow>
   \<exists>is. (a, is) \<in> set xs \<and> length is < max_items_per_peer \<and> may_ask now s i a"
proof (induction xs arbitrary: wake)
  case (Cons x xs)
  obtain b js where x: "x = (b, js)" by fastforce
  from choose_peer_step [of now s i b js xs wake] Cons.prems x obtain w' where
    "length js < max_items_per_peer \<and> may_ask now s i b \<and> b = a \<or> choose_peer now s i xs w' = (Some a, w)"
    by (metis option.inject prod.inject)
  with Cons.IH [of w'] x show ?case by auto
qed simp

lemma choose_peer_None:
  "choose_peer now s i xs wake = (None, w) \<Longrightarrow> (a, is) \<in> set xs \<Longrightarrow> may_ask now s i a \<Longrightarrow>
   max_items_per_peer \<le> length is"
proof (induction xs arbitrary: wake)
  case (Cons x xs)
  obtain b js where x: "x = (b, js)" by fastforce
  from choose_peer_step [of now s i b js xs wake] Cons.prems(1) x obtain w' where
    "\<not> (length js < max_items_per_peer \<and> may_ask now s i b)" "choose_peer now s i xs w' = (None, w)"
    by (metis option.distinct(1) prod.inject)
  with Cons.IH [of w'] Cons.prems x show ?case by auto
qed simp

text \<open>What a pass over the items makes of the assignments before it.\<close>

definition good_assignment ::
    "int \<Rightarrow> 'c node \<Rightarrow> fetch_item list \<Rightarrow> assignment list \<Rightarrow> fetch_item list \<Rightarrow> assignment list \<Rightarrow> bool" where
  "good_assignment now s young xs kept ys \<longleftrightarrow>
     distinct (map fst ys) \<and> fst ` set ys = fst ` set xs \<and>
     (\<forall>a is. (a, is) \<in> set xs \<longrightarrow> (\<exists>more. (a, is @ more) \<in> set ys \<and>
        length (is @ more) \<le> max_items_per_peer \<and> (\<forall>i \<in> set more. may_ask now s i a))) \<and>
     (\<forall>x \<in> set kept. \<forall>(a, is) \<in> set ys. may_ask now s (fi_item x) a \<longrightarrow> length is = max_items_per_peer) \<and>
     mset (concat (map snd ys)) + mset (map fi_item kept) = mset (concat (map snd xs)) + mset (map fi_item young)"

lemma assign_items_good:
  assumes "distinct (map fst xs)" and "\<forall>(a, is) \<in> set xs. length is \<le> max_items_per_peer"
    and "assign_items now limit s items xs wake = (kept, ys, w)"
  shows "good_assignment now s (filter (\<lambda>x. \<not> fi_time x < limit) items) xs kept ys"
  using assms
proof (induction items arbitrary: xs wake kept)
  case Nil
  then have "kept = []" "ys = xs" by simp_all
  with Nil(1,2) show ?case by (auto simp: good_assignment_def intro!: exI [of _ "[]"])
next
  case (Cons x items)
  show ?case
  proof (cases "fi_time x < limit")
    case True
    with Cons show ?thesis by simp
  next
    case young: False
    show ?thesis
    proof (cases "choose_peer now s (fi_item x) xs wake")
      case (Pair found wake')
      show ?thesis
      proof (cases found)
        case None
        with young Pair Cons.prems(3) obtain kept' where
          r: "assign_items now limit s items xs wake' = (kept', ys, w)" and k: "kept = x # kept'"
          by (auto split: prod.splits)
        from Cons.IH [OF Cons.prems(1,2) r]
        have g: "good_assignment now s (filter (\<lambda>x. \<not> fi_time x < limit) items) xs kept' ys" .
        have "length js = max_items_per_peer" if js: "(a, js) \<in> set ys" and m: "may_ask now s (fi_item x) a" for a js
        proof -
          from g have "fst ` set ys = fst ` set xs" by (simp add: good_assignment_def)
          with js obtain "is" where "is": "(a, is) \<in> set xs" by force
          with g obtain more where more: "(a, is @ more) \<in> set ys" "length (is @ more) \<le> max_items_per_peer"
            unfolding good_assignment_def by blast
          from g have "distinct (map fst ys)" by (simp add: good_assignment_def)
          from eq_key_imp_eq_value [OF this js more(1)] have "js = is @ more" .
          with more choose_peer_None [OF Pair [unfolded None] "is" m] show ?thesis by simp
        qed
        then have "\<forall>(b, js) \<in> set ys. may_ask now s (fi_item x) b \<longrightarrow> length js = max_items_per_peer" by blast
        with g k young show ?thesis by (simp add: good_assignment_def)
      next
        case (Some a)
        from choose_peer_Some [OF Pair [unfolded Some]] obtain "is" where
          "is": "(a, is) \<in> set xs" "length is < max_items_per_peer" "may_ask now s (fi_item x) a" by blast
        note n = assign_spec [OF Cons.prems(1) "is"(1), where i = "fi_item x"]
        have r: "assign_items now limit s items (assign a (fi_item x) xs) wake' = (kept, ys, w)"
          using young Pair Some Cons.prems(3) by simp
        have l: "\<forall>(b, js) \<in> set (assign a (fi_item x) xs). length js \<le> max_items_per_peer"
          using n(2) "is"(2) Cons.prems(2) by (auto split: if_splits)
        from Cons.IH [OF n(1) l r]
        have g: "good_assignment now s (filter (\<lambda>x. \<not> fi_time x < limit) items) (assign a (fi_item x) xs) kept ys" .
        have f: "fst ` set (assign a (fi_item x) xs) = fst ` set xs"
        proof (intro set_eqI)
          fix b
          have "b \<in> fst ` set zs \<longleftrightarrow> (\<exists>js. (b, js) \<in> set zs)" for zs :: "assignment list" by force
          with n(2) "is"(1) show "b \<in> fst ` set (assign a (fi_item x) xs) \<longleftrightarrow> b \<in> fst ` set xs"
            by (cases "b = a") auto
        qed
        have e: "\<exists>more. (b, js @ more) \<in> set ys \<and> length (js @ more) \<le> max_items_per_peer \<and> (\<forall>i \<in> set more. may_ask now s i b)"
          if b: "(b, js) \<in> set xs" for b js
        proof (cases "b = a")
          case True
          with b "is"(1) Cons.prems(1) have "js = is" by (auto dest: eq_key_imp_eq_value)
          have "(a, is @ [fi_item x]) \<in> set (assign a (fi_item x) xs)" by (simp add: n(2))
          with g obtain more where "(a, (is @ [fi_item x]) @ more) \<in> set ys"
            "length ((is @ [fi_item x]) @ more) \<le> max_items_per_peer" "\<forall>i \<in> set more. may_ask now s i a"
            unfolding good_assignment_def by blast
          with True \<open>js = is\<close> "is"(3) show ?thesis by (intro exI [of _ "fi_item x # more"]) simp
        next
          case False
          with b have "(b, js) \<in> set (assign a (fi_item x) xs)" by (simp add: n(2))
          with g show ?thesis unfolding good_assignment_def by blast
        qed
        from e have e': "\<forall>b js. (b, js) \<in> set xs \<longrightarrow> (\<exists>more. (b, js @ more) \<in> set ys \<and>
            length (js @ more) \<le> max_items_per_peer \<and> (\<forall>i \<in> set more. may_ask now s i b))" by blast
        from g have "distinct (map fst ys)" "fst ` set ys = fst ` set xs"
          "\<forall>x \<in> set kept. \<forall>(a, is) \<in> set ys. may_ask now s (fi_item x) a \<longrightarrow> length is = max_items_per_peer"
          "mset (concat (map snd ys)) + mset (map fi_item kept) = mset (concat (map snd xs)) +
             mset (map fi_item (filter (\<lambda>x. \<not> fi_time x < limit) (x # items)))"
          using f n(3) young by (simp_all add: good_assignment_def)
        with e' show ?thesis
          unfolding good_assignment_def by blast
      qed
    qed
  qed
qed

end
