(* ===== verification/Node_Views.thy ===== *)
theory Node_Views
  imports Node_Requests
begin

section \<open>The network node: parts of the state that statements leave alone\<close>

text \<open>
  A view is a part of the node's state outside the peers, the sets of connections, the chain and the
  database of peers. Sending, disconnecting and asking for ids do not change it; three views are
  used: the sync blocks on hand, the identity and settings of the node, and what it has received.
\<close>

locale node_view =
  fixes view :: "'c node \<Rightarrow> 'v"
  assumes view_peers: "view (s\<lparr>peers := ps\<rparr>) = view s"
    and view_chain: "view (s\<lparr>chain := c\<rparr>) = view s"
    and view_db: "view (s\<lparr>peer_db := db\<rparr>) = view s"
    and view_sets: "view (s\<lparr>active_peers := a1, handshaking := a2, closing := a3, terminating := a4\<rparr>) = view s"
begin

abbreviation same :: "'v \<Rightarrow> ('c node, 'x) sx \<Rightarrow> bool" where
  "same v m \<equiv> keeps (\<lambda>s. view s = v) m"

lemma same_call: "same v (call m)"
  by (simp add: keeps_def call_def view_chain split: prod.split)

lemma same_on_peer: "same v (on_peer a m)"
  by (simp add: keeps_def on_peer_def view_peers split: prod.split)

lemma same_update: "(\<And>s. view (f s) = view s) \<Longrightarrow> same v (update f)"
  by (simp add: keeps_def update_def)

lemmas same_rules = keeps_ret keeps_raise keeps_gets keeps_check keeps_lift_r keeps_bnd keeps_seq
  keeps_each keeps_catch keeps_if keeps_option keeps_sum keeps_prod keeps_collect same_call same_on_peer

lemma same_peer: "same v (set_peer a f)" "same v (ask_peer a g)" "same v (send env a m)"
    "same v (send_stamped env a m)"
  unfolding set_peer_def ask_peer_def send_def send_stamped_def by (intro same_rules)+

lemma same_database: "same v (update_known_peer e f)" "same v (update_or_create_peer e f)"
  unfolding update_known_peer_def update_or_create_peer_def
  by (rule same_update, simp add: view_db split: option.split)+

lemma same_moves: "same v (move_peer_to_closing_list a)" "same v (move_peer_to_active_list a)"
  unfolding move_peer_to_closing_list_def move_peer_to_active_list_def
  by (rule same_update, rule view_sets)+

lemma same_disconnect: "same v (disconnect_from_peer env a reason e err)"
  unfolding disconnect_from_peer_def record_last_error_def
  by (intro same_rules same_peer same_database same_moves)

lemma same_fetch_ids: "same v (fetch_next_batch_of_item_ids env a reset)"
  unfolding fetch_next_batch_of_item_ids_def create_blockchain_synopsis_for_peer_def Let_def
  by (intro same_rules same_peer same_disconnect)

lemma same_each_active: "same v (each_active f)"
  unfolding each_active_def by (intro same_rules same_peer)

end

text \<open>The sync blocks that wait or are handed in, with the limits on them.\<close>

definition sync_part :: "'c node \<Rightarrow> node_configuration \<times> block_message list \<times> block_message list \<times> block_message list" where
  "sync_part s = (configuration s, new_received_blocks s, received_blocks s, blocks_in_progress s)"

interpretation sv: node_view sync_part
  by unfold_locales (simp_all add: sync_part_def)

text \<open>Who the node is and whom it lets in.\<close>

definition settings :: "'c node \<Rightarrow> node_configuration \<times> bytes list \<times> bytes \<times> u32 list \<times> bool" where
  "settings s = (configuration s, allowed_peers s, own_node_id s, hard_fork_blocks s, shutting_down s)"

interpretation tv: node_view settings
  by unfold_locales (simp_all add: settings_def)

text \<open>What was received from others: items, blocks, messages.\<close>

definition received_part :: "'c node \<Rightarrow>
    fetch_item list \<times> net_item list \<times> message_cache \<times> block_message list \<times> block_message list \<times> block_message list" where
  "received_part s = (items_to_fetch s, new_inventory s, message_cache s, new_received_blocks s, received_blocks s, blocks_in_progress s)"

interpretation rv: node_view received_part
  by unfold_locales (simp_all add: received_part_def)

subsection \<open>How statements run\<close>

lemma keeps_snd: "keeps P m \<Longrightarrow> P s \<Longrightarrow> P (snd (m s))"
  by (simp add: keeps_def)

lemma bnd_lift: "bnd (lift_r (Inr x)) f = f x"
  by (simp add: fun_eq_iff bnd_def lift_r_def)

lemma bnd_gets: "bnd (gets g) f s = f (g s) s"
  by (simp add: bnd_def gets_def)

lemma bnd_ask_peer: "bnd (ask_peer a g) f s = f (g (the_peer a s)) s"
  by (simp add: ask_peer_def bnd_gets)

lemma seq_set_peer: "seq (set_peer a f) m s = m (s\<lparr>peers := (peers s)[a := f (the_peer a s)]\<rparr>)"
  by (simp add: seq_def bnd_def set_peer_runs the_peer_def)

lemmas node_runs = bnd_lift bnd_gets bnd_ask_peer seq_set_peer

end
