(* ===== verification/Node_Handshake.thy ===== *)
theory Node_Handshake
  imports Node_Views Base_Props
begin

section \<open>The network node: whom it accepts\<close>

text \<open>
  When the answer to a hello is an acceptance. The lemmas follow \<open>on_hello\<close> and show of every other way
  through it that the peer stays undecided. At the end stand a node and its surroundings that the
  examples of this theory and of the next run on.
\<close>

subsection \<open>Statements that decide nothing\<close>

text \<open>A change of the peer \<open>a\<close> that leaves what we decided of it.\<close>

definition undecided :: "nat \<Rightarrow> 'c node \<Rightarrow> bool" where
  "undecided a s \<longleftrightarrow> a < length (peers s) \<and> their_state (the_peer a s) \<noteq> Their_Accepted"

lemma undecided_on_peer:
  assumes "\<And>p. their_state p \<noteq> Their_Accepted \<Longrightarrow> their_state (snd (m p)) \<noteq> Their_Accepted"
  shows "keeps (undecided a :: 'c node \<Rightarrow> bool) (on_peer a m)"
proof -
  have "undecided a (snd (on_peer a m s))" if u: "undecided a s" for s :: "'c node"
  proof -
    obtain r p where p: "m (peers s ! a) = (r, p)" by fastforce
    from u p assms [of "peers s ! a"] have "their_state p \<noteq> Their_Accepted" by (simp add: undecided_def the_peer_def)
    with u p show ?thesis by (simp add: undecided_def the_peer_def on_peer_def)
  qed
  then show ?thesis by (simp add: keeps_def)
qed

lemma undecided_set_peer:
  "(\<And>p. their_state p \<noteq> Their_Accepted \<Longrightarrow> their_state (f p) \<noteq> Their_Accepted) \<Longrightarrow> keeps (undecided a) (set_peer a f)"
  unfolding set_peer_def by (rule undecided_on_peer) (simp add: update_def)

lemma undecided_other: "(\<And>s. peers (f s) = peers s) \<Longrightarrow> keeps (undecided a) (update f)"
  by (simp add: keeps_def update_def undecided_def the_peer_def)

lemma undecided_statements:
  "keeps (undecided a) (send env a m)" "keeps (undecided a) (ask_peer a g)" "keeps (undecided a) (call c)"
  "keeps (undecided a) (update_known_peer e h)" "keeps (undecided a) (update_or_create_peer e h)"
  "keeps (undecided a) (move_peer_to_closing_list a)"
proof -
  show "keeps (undecided a) (send env a m)"
    unfolding send_def by (rule undecided_on_peer) (simp add: send_queueable_def close_connection_def Let_def)
  show "keeps (undecided a) (ask_peer a g)" unfolding ask_peer_def by (rule keeps_gets)
  show "keeps (undecided a) (call c)"
    by (simp add: keeps_def call_def undecided_def the_peer_def split: prod.split)
  show "keeps (undecided a) (update_known_peer e h)" "keeps (undecided a) (update_or_create_peer e h)"
    "keeps (undecided a) (move_peer_to_closing_list a)"
    unfolding update_known_peer_def update_or_create_peer_def move_peer_to_closing_list_def
    by (rule undecided_other, simp split: option.split)+
qed

lemmas undecided_rules = keeps_ret keeps_raise keeps_gets keeps_check keeps_lift_r keeps_bnd keeps_seq
  keeps_each keeps_if keeps_option keeps_sum keeps_prod undecided_statements

lemma undecided_disconnect: "keeps (undecided a) (disconnect_from_peer env a reason e err)"
  unfolding disconnect_from_peer_def record_last_error_def
  by (intro undecided_rules undecided_set_peer; simp add: close_connection_def Let_def)

lemma undecided_reject: "keeps (undecided a) (reject_hello env a reason txt)"
  unfolding reject_hello_def by (intro undecided_rules undecided_set_peer; simp)

lemma undecided_parse: "keeps (undecided a) (parse_hello_user_data a d)"
  unfolding parse_hello_user_data_def read_member_def by (intro undecided_rules undecided_set_peer; simp)

text \<open>What the data of a hello leaves in the peer.\<close>

definition told :: "'v result option \<Rightarrow> 'v \<Rightarrow> 'v" where
  "told v x = (case v of Some (Inr y) \<Rightarrow> y | _ \<Rightarrow> x)"

definition taken_in :: "'v result option \<Rightarrow> ('v \<Rightarrow> peer \<Rightarrow> peer) \<Rightarrow> peer \<Rightarrow> peer" where
  "taken_in v f p = (case v of Some (Inr x) \<Rightarrow> f x p | _ \<Rightarrow> p)"

lemma read_member_runs:
  assumes "read_member v f a s = (Inr u, t)"
  shows "t = s\<lparr>peers := (peers s)[a := taken_in v f (peers s ! a)]\<rparr>"
  using assms by (auto simp: read_member_def set_peer_runs taken_in_def ret_def raise_def split: option.splits sum.splits)

lemma taken_in_fields:
  "(\<And>x p. g (f x p) = g p) \<Longrightarrow> g (taken_in v f p) = g p"
  by (simp add: taken_in_def split: option.split sum.split)

lemma parse_runs:
  assumes run: "parse_hello_user_data a d s = (Inr u, t)" and a: "a < length (peers s)"
  shows "\<exists>p. t = s\<lparr>peers := (peers s)[a := p]\<rparr> \<and> their_state p = their_state (the_peer a s) \<and>
    node_id p = told (hd_node_id d) (node_id (the_peer a s)) \<and>
    peer_chain_id p = told (map_option (map_sum id Some) (hd_chain_id d)) (peer_chain_id (the_peer a s))"
proof -
  let ?p1 = "taken_in (hd_git_unix d) (\<lambda>x p. p\<lparr>git_unix_timestamp := Some x\<rparr>) (peers s ! a)"
  let ?p2 = "taken_in (hd_node_id d) (\<lambda>x p. p\<lparr>node_id := x\<rparr>) ?p1"
  let ?p3 = "taken_in (hd_last_fork d) (\<lambda>x p. p\<lparr>last_known_fork := x\<rparr>) ?p2"
  let ?p4 = "taken_in (hd_chain_id d) (\<lambda>x p. p\<lparr>peer_chain_id := Some x\<rparr>) ?p3"
  have "t = s\<lparr>peers := (peers s)[a := ?p4]\<rparr>"
    using run a unfolding parse_hello_user_data_def seq_Inr_iff
    by (auto dest!: read_member_runs)
  moreover have "their_state ?p4 = their_state (the_peer a s)"
    by (simp add: taken_in_fields the_peer_def)
  moreover have "node_id ?p4 = told (hd_node_id d) (node_id (the_peer a s))"
    by (simp add: taken_in_def told_def the_peer_def split: option.split sum.split)
  moreover have "peer_chain_id ?p4 = told (map_option (map_sum id Some) (hd_chain_id d)) (peer_chain_id (the_peer a s))"
    by (simp add: taken_in_def told_def the_peer_def split: option.split sum.split)
  ultimately show ?thesis by blast
qed

subsection \<open>The answer\<close>

text \<open>When the answer is an acceptance.\<close>

lemma note_firewalled_runs:
  assumes "note_firewalled a s = (r, t)"
  shows "r = Inr ()" "is_accepting_new_connections t = is_accepting_new_connections s"
proof -
  have "r = Inr () \<and> shutting_down t = shutting_down s \<and> handshaking t = handshaking s \<and>
      active_peers t = active_peers s \<and> configuration t = configuration s"
    using assms unfolding note_firewalled_def node_runs
    by (auto simp: update_or_create_peer_def seq_def bnd_def update_def set_peer_runs split: if_splits prod.splits)
  then show "r = Inr ()" "is_accepting_new_connections t = is_accepting_new_connections s"
    by (simp_all add: is_accepting_new_connections_def number_of_connections_def)
qed

lemma answer_accepted:
  assumes u: "undecided a s" and no: "\<not> undecided a (snd (answer_hello env a already s))"
  shows "\<not> already \<and> (allowed_peers s = [] \<or> node_id (the_peer a s) \<in> set (allowed_peers s)) \<and>
    is_accepting_new_connections s"
proof -
  have free: "\<not> (already \<or> allowed_peers s \<noteq> [] \<and> node_id (the_peer a s) \<notin> set (allowed_peers s))"
  proof
    assume "already \<or> allowed_peers s \<noteq> [] \<and> node_id (the_peer a s) \<notin> set (allowed_peers s)"
    then have "\<exists>x t. answer_hello env a already s = reject_hello env a x t s"
      unfolding answer_hello_def node_runs prod.case
      by (cases already) (simp_all only: if_True if_False simp_thms, (intro exI, rule refl)+)
    then obtain x t where "answer_hello env a already s = reject_hello env a x t s" by (elim exE)
    with no keeps_snd [OF undecided_reject u, of env x t] show False by (simp only:) simp
  qed
  have k: "keeps (undecided a) (note_firewalled a)"
    unfolding note_firewalled_def by (intro undecided_rules undecided_set_peer; simp)
  obtain r t where t: "note_firewalled a s = (r, t)" by fastforce
  from keepsD [OF k u t] have u': "undecided a t" .
  have run: "answer_hello env a already s = (if \<not> is_accepting_new_connections t
        then reject_hello env a Not_Accepting ''not accepting any more incoming connections''
        else seq (set_peer a (\<lambda>p. p\<lparr>their_state := Their_Accepted\<rparr>)) (send env a Connection_Accepted)) t"
    using free t note_firewalled_runs(1) [OF t]
    by (simp only: answer_hello_def node_runs seq_simps(2) prod.case de_Morgan_disj if_False simp_thms)
  with no keeps_snd [OF undecided_reject u'] have "is_accepting_new_connections t" by (auto split: if_splits)
  with free note_firewalled_runs(2) [OF t] show ?thesis by simp
qed

lemma decide_accepted:
  assumes u: "undecided a s" and no: "\<not> undecided a (snd (decide_hello env a genuine already s))"
  shows "genuine \<and> peer_chain_id (the_peer a s) = Some (dg_chain_id (ne_delegate env)) \<and> \<not> already \<and>
    (allowed_peers s = [] \<or> node_id (the_peer a s) \<in> set (allowed_peers s)) \<and> is_accepting_new_connections s"
proof -
  let ?dg = "ne_delegate env" and ?fork = "if last_known_fork (the_peer a s) = 0 then 0
                           else next_known_hard_fork (last_known_fork (the_peer a s)) s"
  let ?head = "if ?fork = 0 then ret 0 else bnd (call (dg_head_id ?dg)) (\<lambda>i. ret (dg_block_number ?dg i))"
  have genuine: genuine
    using no keeps_snd [OF keeps_seq [OF undecided_reject undecided_disconnect] u]
    by (auto simp: decide_hello_def Let_def split: if_splits)
  obtain r t where t: "?head s = (r, t)" by fastforce
  then have c: "t = s\<lparr>chain := chain t\<rparr>"
    by (auto simp: ret_def bnd_def call_def split: if_splits prod.splits sum.splits)
  have p: "the_peer a t = the_peer a s" by (subst c) (simp add: the_peer_def)
  have u': "undecided a t" using u by (subst c) (simp add: undecided_def the_peer_def)
  obtain head where "r = Inr head"
    using t u' no genuine by (cases r) (auto simp: decide_hello_def node_runs Let_def bnd_simps)
  then have run: "decide_hello env a genuine already s = (if ?fork \<noteq> 0 \<and> ?fork < head
       then seq (reject_hello env a Unspecified (outdated_text ?fork head))
                (disconnect_from_peer env a ''Your client is too old, please upgrade'' False None)
       else if peer_chain_id (the_peer a s) \<noteq> Some (dg_chain_id ?dg)
        then seq (reject_hello env a Different_Chain ''Your client is running a different chain id'')
                 (disconnect_from_peer env a ''Your client is on a different chain, please specify different seed nodes'' False None)
        else answer_hello env a already) t"
    using genuine t p by (simp add: decide_hello_def node_runs Let_def bnd_simps(2))
  then have chain: "peer_chain_id (the_peer a s) = Some (dg_chain_id ?dg)"
    and run: "decide_hello env a genuine already s = answer_hello env a already t"
    using no keeps_snd [OF keeps_seq [OF undecided_reject undecided_disconnect] u'] by (auto split: if_splits)
  from answer_accepted [OF u', of env already] no run
  have "\<not> already \<and> (allowed_peers t = [] \<or> node_id (the_peer a t) \<in> set (allowed_peers t)) \<and>
    is_accepting_new_connections t" by simp
  moreover have "allowed_peers t = allowed_peers s" "is_accepting_new_connections t = is_accepting_new_connections s"
    by (subst c, simp add: is_accepting_new_connections_def number_of_connections_def)+
  ultimately show ?thesis using genuine chain p by simp
qed

text \<open>
  C21: A hello is answered with our acceptance only if it is the first of the connection; the key in it is the one that signed
  the secret of this connection; we are not connected to the id it claims; it names our chain; the id it claims
  is among the allowed peers, if there are any; and we accept new connections.
\<close>

theorem hello_accepted:
  fixes env :: "'c node_env"
  assumes a: "a < length (peers s)" and before: "their_state (the_peer a s) \<noteq> Their_Accepted"
    and after: "their_state (the_peer a (snd (on_hello env a h s))) = Their_Accepted"
  shows "their_state (the_peer a s) = Their_Just_Connected \<and>
    recover (ne_crypto env) (h_signed_secret h) (sha256 (ne_crypto env) (ne_secret env a)) = Inr (h_public_key h) \<and>
    \<not> is_already_connected_to_id (claimed_node_id h) s \<and>
    told (map_option (map_sum id Some) (hd_chain_id (h_user_data h))) (peer_chain_id (the_peer a s))
      = Some (dg_chain_id (ne_delegate env)) \<and>
    (allowed_peers s = [] \<or> claimed_node_id h \<in> set (allowed_peers s)) \<and> is_accepting_new_connections s"
proof -
  define already where "already = is_already_connected_to_id (claimed_node_id h) s"
  have no: "\<not> undecided a (snd (on_hello env a h s))" using after by (simp add: undecided_def)
  have u: "undecided a s" using a before by (simp add: undecided_def)
  obtain key where key: "recover (ne_crypto env) (h_signed_secret h) (sha256 (ne_crypto env) (ne_secret env a)) = Inr key"
    using no u by (cases "recover (ne_crypto env) (h_signed_secret h) (sha256 (ne_crypto env) (ne_secret env a))")
      (auto simp: on_hello_def bnd_def gets_def lift_r_def)
  define s1 where "s1 = s\<lparr>peers := (peers s)[a := store_hello h (the_peer a s)]\<rparr>"
  obtain r2 s2 where s2: "parse_hello_user_data a (h_user_data h) s1 = (r2, s2)" by fastforce
  have u1: "undecided a s1" using u by (simp add: s1_def undecided_def the_peer_def store_hello_def)
  have run: "on_hello env a h s = seq (parse_hello_user_data a (h_user_data h))
       (seq (set_peer a (guess_fork env))
        (bnd (ask_peer a their_state) (\<lambda>st.
         if st = Their_Just_Connected
         then decide_hello env a (h_public_key h = key) already
         else disconnect_from_peer env a ''Received a unexpected hello_message'' False None))) s1"
    by (simp only: on_hello_def node_runs key s1_def already_def)
  from keepsD [OF undecided_parse u1 s2] have u2: "undecided a s2" .
  with no run s2 obtain u where "r2 = Inr u" by (cases r2) (auto simp: seq_simps)
  from parse_runs [OF s2 [unfolded this]] a obtain p where p: "s2 = s1\<lparr>peers := (peers s1)[a := p]\<rparr>"
    "their_state p = their_state (the_peer a s)" "node_id p = claimed_node_id h"
    "peer_chain_id p = told (map_option (map_sum id Some) (hd_chain_id (h_user_data h))) (peer_chain_id (the_peer a s))"
    by (auto simp: s1_def the_peer_def store_hello_def told_def claimed_node_id_def)
  define q where "q = guess_fork env p"
  define s3 where "s3 = s\<lparr>peers := (peers s)[a := q]\<rparr>"
  have q: "their_state q = their_state (the_peer a s)" "node_id q = claimed_node_id h"
    "peer_chain_id q = told (map_option (map_sum id Some) (hd_chain_id (h_user_data h))) (peer_chain_id (the_peer a s))"
    using p by (simp_all add: q_def guess_fork_def split: option.split)
  have u3: "undecided a s3" using a before q(1) by (simp add: undecided_def s3_def the_peer_def)
  have run: "on_hello env a h s = (if their_state (the_peer a s) = Their_Just_Connected
         then decide_hello env a (h_public_key h = key) already
         else disconnect_from_peer env a ''Received a unexpected hello_message'' False None) s3"
    using run s2 \<open>r2 = Inr u\<close> p(1) a q(1)
    by (simp add: seq_simps(2) node_runs s3_def q_def s1_def the_peer_def)
  then have first: "their_state (the_peer a s) = Their_Just_Connected"
    using no keeps_snd [OF undecided_disconnect u3] by (auto split: if_splits)
  with run have run: "on_hello env a h s = decide_hello env a (h_public_key h = key) already s3" by simp
  from decide_accepted [OF u3, of env "h_public_key h = key" already] run no
  have "h_public_key h = key \<and> peer_chain_id (the_peer a s3) = Some (dg_chain_id (ne_delegate env)) \<and> \<not> already \<and>
    (allowed_peers s3 = [] \<or> node_id (the_peer a s3) \<in> set (allowed_peers s3)) \<and> is_accepting_new_connections s3" by simp
  moreover have "the_peer a s3 = q" "allowed_peers s3 = allowed_peers s"
      "is_accepting_new_connections s3 = is_accepting_new_connections s"
    using a by (simp_all add: s3_def the_peer_def is_accepting_new_connections_def number_of_connections_def)
  ultimately show ?thesis
    using first key q(2,3) by (simp add: already_def)
qed

subsection \<open>A node with one connection\<close>

definition quiet_delegate :: "unit delegate" where
  "quiet_delegate =
     \<lparr>dg_chain_id = [9], dg_has_item = (\<lambda>i. ret False), dg_handle_block = (\<lambda>b i m. ret []),
      dg_handle_transaction = (\<lambda>t. ret ()), dg_handle_message = (\<lambda>m. ret ()), dg_block_ids = (\<lambda>hs. ret ([], 0)),
      dg_item = (\<lambda>i. raise Key_Not_Found), dg_synopsis = (\<lambda>h n. ret []), dg_block_number = (\<lambda>h. 0),
      dg_block_time = (\<lambda>h. ret 0), dg_blockchain_now = 0, dg_head_id = ret [], dg_estimate_fork = (\<lambda>t. 0)\<rparr>"

definition quiet_env :: "unit node_env" where
  "quiet_env = \<lparr>ne_now = 0, ne_crypto = demo_crypto, ne_lib = (\<lambda>m. []), ne_delegate = quiet_delegate, ne_secret = (\<lambda>a. [])\<rparr>"

definition fresh_node :: "unit node" where
  "fresh_node = new_node () [1] [] [] [] (0, 0)"

definition one_peer :: "unit node" where
  "one_peer = fresh_node\<lparr>peers := [(new_peer (1, 2))\<lparr>their_state := Their_Just_Connected\<rparr>], handshaking := [0]\<rparr>"

definition plain_hello :: hello where
  "plain_hello =
     \<lparr>h_user_agent = [], h_protocol = 106, h_inbound_address = 1, h_inbound_port = 2, h_outbound_port = 2,
      h_public_key = replicate 33 7, h_signed_secret = replicate 33 7,
      h_user_data = \<lparr>hd_node_id = Some (Inr [5]), hd_git_unix = None, hd_last_fork = None, hd_chain_id = Some (Inr [9])\<rparr>\<rparr>"

lemmas sample_node = quiet_delegate_def quiet_env_def fresh_node_def one_peer_def new_node_def new_peer_def
  the_peer_def connections_ok_def default_configuration_def

lemma plain_hello_accepted:
  "their_state (the_peer 0 (snd (on_hello quiet_env 0 plain_hello one_peer))) = Their_Accepted"
proof -
  let ?p = "(new_peer (1, 2))\<lparr>their_state := Their_Just_Connected\<rparr>"
  have key: "recover (ne_crypto quiet_env) (h_signed_secret plain_hello) (sha256 (ne_crypto quiet_env) (ne_secret quiet_env 0))
      = Inr (h_public_key plain_hello)"
    by (simp add: quiet_env_def demo_crypto_def plain_hello_def)
  have free: "\<not> is_already_connected_to_id (claimed_node_id plain_hello) one_peer"
    by (auto simp: is_already_connected_to_id_def claimed_node_id_def plain_hello_def sample_node no_node_id_def
        dest: arg_cong [of _ _ length])
  let ?q = "(store_hello plain_hello ?p)\<lparr>node_id := [5], peer_chain_id := Some [9]\<rparr>"
  let ?s = "one_peer\<lparr>peers := [?q]\<rparr>"
  have "is_already_connected_to_id (claimed_node_id plain_hello) one_peer = False" using free by blast
  then have "on_hello quiet_env 0 plain_hello one_peer = decide_hello quiet_env 0 True False ?s"
    by (simp only: on_hello_def node_runs key)
      (simp add: parse_hello_user_data_def read_member_def plain_hello_def node_runs sx_simps seq_set_peer store_hello_def
        one_peer_def fresh_node_def new_node_def the_peer_def set_peer_runs guess_fork_def new_peer_def)
  also have "\<dots> = answer_hello quiet_env 0 False ?s"
    by (simp add: decide_hello_def node_runs sx_simps the_peer_def store_hello_def new_peer_def quiet_env_def quiet_delegate_def Let_def)
  finally have run: "on_hello quiet_env 0 plain_hello one_peer = answer_hello quiet_env 0 False ?s" .
  obtain db where fw: "note_firewalled 0 ?s = (Inr (), ?s\<lparr>peer_db := db, peers := [?q\<lparr>is_firewalled := Not_Firewalled\<rparr>]\<rparr>)"
    by (simp add: note_firewalled_def node_runs update_or_create_peer_def sx_simps set_peer_runs the_peer_def
        store_hello_def plain_hello_def new_peer_def)
  have "answer_hello quiet_env 0 False ?s = seq (set_peer 0 (\<lambda>p. p\<lparr>their_state := Their_Accepted\<rparr>)) (send quiet_env 0 Connection_Accepted)
      (?s\<lparr>peer_db := db, peers := [?q\<lparr>is_firewalled := Not_Firewalled\<rparr>]\<rparr>)"
    by (simp add: answer_hello_def node_runs seq_simps(2) [where m = "note_firewalled 0" and s = ?s, OF fw] is_accepting_new_connections_def number_of_connections_def)
      (simp add: one_peer_def fresh_node_def new_node_def default_configuration_def)
  with run show ?thesis
    by (simp add: node_runs send_def on_peer_def send_queueable_def the_peer_def close_connection_def Let_def split: prod.split)
qed

theorem hello_accepted_witness:
  "\<not> is_already_connected_to_id (claimed_node_id plain_hello) one_peer \<and> is_accepting_new_connections one_peer"
  using hello_accepted [of 0 one_peer quiet_env plain_hello] plain_hello_accepted
  by (simp add: sample_node)

end
