(* ===== verification/Node_Ends.thy ===== *)
theory Node_Ends
  imports Node_Blocks
begin

section \<open>The network node: statements that end\<close>

text \<open>
  A statement of the node's ends when it does not run out of the steps a loop in it is given. What is asked of
  peers that name no further ids runs no loop of the node's own, only the delegate's synopsis.
\<close>

subsection \<open>Runs that end, keep \<open>P\<close>, and return a value with \<open>Q\<close>\<close>

definition ends :: "('s \<Rightarrow> bool) \<Rightarrow> ('s, 'a) sx \<Rightarrow> ('a \<Rightarrow> bool) \<Rightarrow> bool" where
  "ends P m Q \<longleftrightarrow> (\<forall>s r t. P s \<longrightarrow> m s = (r, t) \<longrightarrow>
     P t \<and> (case r of Inl e \<Rightarrow> e \<noteq> Diverged | Inr x \<Rightarrow> Q x))"

lemma endsI:
  assumes "\<And>s r t. P s \<Longrightarrow> m s = (r, t) \<Longrightarrow> P t \<and> (case r of Inl e \<Rightarrow> e \<noteq> Diverged | Inr x \<Rightarrow> Q x)"
  shows "ends P m Q"
  using assms by (simp add: ends_def)

lemma endsD:
  assumes "ends P m Q" and "P s" and "m s = (r, t)"
  shows "P t \<and> (case r of Inl e \<Rightarrow> e \<noteq> Diverged | Inr x \<Rightarrow> Q x)"
  using assms unfolding ends_def by simp

lemma ends_value:
  assumes m: "ends P m Q" and "\<And>x. Q x \<Longrightarrow> R x"
  shows "ends P m R"
proof (rule endsI)
  fix s r t
  assume "P s" "m s = (r, t)"
  from endsD [OF m this] assms(2) show "P t \<and> (case r of Inl e \<Rightarrow> e \<noteq> Diverged | Inr x \<Rightarrow> R x)"
    by (cases r) simp_all
qed

lemma ends_ret: "Q x \<Longrightarrow> ends P (ret x) Q"
  by (simp add: ends_def ret_def)

lemma ends_raise: "e \<noteq> Diverged \<Longrightarrow> ends P (raise e) Q"
  by (simp add: ends_def raise_def)

lemma ends_gets: "(\<And>s. P s \<Longrightarrow> Q (f s)) \<Longrightarrow> ends P (gets f) Q"
  by (simp add: ends_def gets_def)

lemma ends_update: "(\<And>s. P s \<Longrightarrow> P (f s)) \<Longrightarrow> ends P (update f) (\<lambda>_. True)"
  by (simp add: ends_def update_def)

lemma ends_bnd:
  assumes m: "ends P m R" and f: "\<And>x. R x \<Longrightarrow> ends P (f x) Q"
  shows "ends P (bnd m f) Q"
proof (rule endsI)
  fix s r t
  assume s: "P s" and run: "bnd m f s = (r, t)"
  obtain q u where q: "m s = (q, u)" by (cases "m s")
  note u = endsD [OF m s q]
  show "P t \<and> (case r of Inl e \<Rightarrow> e \<noteq> Diverged | Inr x \<Rightarrow> Q x)"
  proof (cases q)
    case (Inl e)
    with run q u show ?thesis by (auto simp: bnd_def)
  next
    case (Inr x)
    with run q u endsD [OF f, of x u r t] show ?thesis by (simp add: bnd_def)
  qed
qed

lemma ends_seq: "ends P m (\<lambda>_. True) \<Longrightarrow> ends P n Q \<Longrightarrow> ends P (seq m n) Q"
  unfolding seq_def by (rule ends_bnd)

lemma ends_catch:
  assumes m: "ends P m Q" and h: "\<And>e. e \<noteq> Diverged \<Longrightarrow> ends P (h e) Q"
  shows "ends P (catch_sx m h) Q"
proof (rule endsI)
  fix s r t
  assume s: "P s" and run: "catch_sx m h s = (r, t)"
  obtain q u where q: "m s = (q, u)" by (cases "m s")
  note u = endsD [OF m s q]
  show "P t \<and> (case r of Inl e \<Rightarrow> e \<noteq> Diverged | Inr x \<Rightarrow> Q x)"
  proof (cases q)
    case (Inl e)
    with run q u endsD [OF h, of e u r t] show ?thesis by (simp add: catch_sx_def)
  next
    case (Inr x)
    with run q u show ?thesis by (auto simp: catch_sx_def)
  qed
qed

lemma ends_if: "(b \<Longrightarrow> ends P m Q) \<Longrightarrow> (\<not> b \<Longrightarrow> ends P n Q) \<Longrightarrow> ends P (if b then m else n) Q"
  by simp

lemma ends_option:
  "(x = None \<Longrightarrow> ends P m Q) \<Longrightarrow> (\<And>y. x = Some y \<Longrightarrow> ends P (f y) Q) \<Longrightarrow> ends P (case x of None \<Rightarrow> m | Some y \<Rightarrow> f y) Q"
  by (cases x) simp_all

lemma ends_each: "(\<And>x. x \<in> set xs \<Longrightarrow> ends P (f x) (\<lambda>_. True)) \<Longrightarrow> ends P (each f xs) (\<lambda>_. True)"
  by (induction xs) (auto intro: ends_ret ends_seq)

lemma ends_collect: "(\<And>x. ends P (f x) Q) \<Longrightarrow> ends P (collect f xs) (list_all Q)"
proof (induction xs)
  case (Cons x xs)
  from Cons.IH [OF Cons.prems] show ?case
    unfolding collect.simps by (intro ends_bnd [OF Cons.prems] ends_bnd [of P "collect f xs"] ends_ret) simp_all
qed (simp add: ends_ret)

text \<open>What holds for every value of a part of the state holds of all states.\<close>

lemma ends_any: "(\<And>v. ends (\<lambda>s. part s = v) m Q) \<Longrightarrow> ends (\<lambda>_. True) m Q"
  unfolding ends_def by blast

subsection \<open>The ids each peer has named\<close>

definition wanted_ids :: "'c node \<Rightarrow> nat \<Rightarrow> bytes list" where
  "wanted_ids s a = ids_of_items_to_get (the_peer a s)"

abbreviation wants :: "(nat \<Rightarrow> bytes list) \<Rightarrow> 'c node \<Rightarrow> bool" where
  "wants v s \<equiv> wanted_ids s = v"

lemma wanted_ids_same: "peers t = peers s \<Longrightarrow> wanted_ids t = wanted_ids s"
  by (simp add: wanted_ids_def the_peer_def fun_eq_iff)

lemma wanted_ids_set:
  "ids_of_items_to_get p = ids_of_items_to_get (peers s ! a) \<Longrightarrow>
   wanted_ids (s\<lparr>peers := (peers s)[a := p]\<rparr>) = wanted_ids s"
  by (cases "a < length (peers s)") (auto simp: wanted_ids_def the_peer_def nth_list_update list_update_beyond fun_eq_iff)

lemma ends_on_peer:
  assumes "\<And>p r q. m p = (r, q) \<Longrightarrow> ids_of_items_to_get q = ids_of_items_to_get p \<and> r \<noteq> Inl Diverged"
  shows "ends (wants v) (on_peer a m) (\<lambda>_. True)"
proof (rule endsI)
  fix s r t
  assume v: "wants v s" and run: "on_peer a m s = (r, t)"
  obtain q p where q: "m (peers s ! a) = (q, p)" by (cases "m (peers s ! a)")
  with run have t: "r = q" "t = s\<lparr>peers := (peers s)[a := p]\<rparr>" by (simp_all add: on_peer_def)
  from assms [OF q] have "wanted_ids t = wanted_ids s" "r \<noteq> Inl Diverged" by (simp_all add: t wanted_ids_set)
  with v show "wants v t \<and> (case r of Inl e \<Rightarrow> e \<noteq> Diverged | Inr x \<Rightarrow> True)"
    by (auto split: sum.split)
qed

lemma ends_set_peer: "(\<And>p. ids_of_items_to_get (f p) = ids_of_items_to_get p) \<Longrightarrow> ends (wants v) (set_peer a f) (\<lambda>_. True)"
  unfolding set_peer_def by (rule ends_on_peer) (auto simp: update_def)

lemma ends_send: "ends (wants v) (send env a m) (\<lambda>_. True)"
  unfolding send_def by (rule ends_on_peer) (auto simp: send_queueable_def close_connection_def Let_def split: if_splits)

lemma ends_move: "ends (wants v) (move_peer_to_closing_list a) (\<lambda>_. True)"
  unfolding move_peer_to_closing_list_def by (rule ends_update) (auto intro: wanted_ids_same [THEN trans])

lemma ends_record: "ends (wants v) (record_last_error env err a) (\<lambda>_. True)"
proof -
  have "ends (wants v) (update_known_peer e f) (\<lambda>_. True)" for e f
    unfolding update_known_peer_def
    by (rule ends_update) (auto intro: wanted_ids_same [THEN trans] split: option.split)
  then show ?thesis
    unfolding record_last_error_def ask_peer_def by (intro ends_bnd [where R = "\<lambda>_. True"] ends_gets ends_option ends_ret TrueI)
qed

lemma ends_disconnect: "ends (wants v) (disconnect_from_peer env a reason b err) (\<lambda>_. True)"
  unfolding disconnect_from_peer_def ask_peer_def
  by (intro ends_seq ends_bnd [where R = "\<lambda>_. True"] ends_gets ends_if ends_move ends_record ends_send ends_set_peer TrueI)
     (simp_all add: close_connection_def)

lemma ends_call:
  assumes "\<And>c. fst (m c) \<noteq> Inl Diverged"
  shows "ends (wants v) (call m) (\<lambda>_. True)"
proof (rule endsI)
  fix s r t
  assume v: "wants v s" and run: "call m s = (r, t)"
  then have t: "r = fst (m (chain s))" "peers t = peers s" by (auto simp: call_def split: prod.splits)
  then have "r \<noteq> Inl Diverged" using assms [of "chain s"] by simp
  moreover have "wants v t" using v wanted_ids_same [OF t(2)] by simp
  ultimately show "wants v t \<and> (case r of Inl e \<Rightarrow> e \<noteq> Diverged | Inr x \<Rightarrow> True)"
    by (simp split: sum.split) blast
qed

subsection \<open>A round of the backlog\<close>

definition synopsis_returns :: "'c node_env \<Rightarrow> bool" where
  "synopsis_returns env \<longleftrightarrow> (\<forall>i n c. fst (dg_synopsis (ne_delegate env) i n c) \<noteq> Inl Diverged)"

text \<open>A peer without ids to get is asked for more with the synopsis of the delegate as it is.\<close>

lemma ends_fetch_ids:
  assumes d: "synopsis_returns env" and none: "v a = []"
  shows "ends (wants v) (fetch_next_batch_of_item_ids env a False) (\<lambda>_. True)"
proof -
  have ids: "ends (wants v) (ask_peer a ids_of_items_to_get) (\<lambda>ids. ids = [])"
    unfolding ask_peer_def by (rule ends_gets) (use none in \<open>auto simp: wanted_ids_def\<close>)
  have call: "ends (wants v) (call (dg_synopsis (ne_delegate env) i n)) (\<lambda>_. True)" for i n
    by (rule ends_call) (use d in \<open>simp add: synopsis_returns_def\<close>)
  have seen: "ends (wants v) (ask_peer a last_block_seen) (\<lambda>_. True)"
    unfolding ask_peer_def by (rule ends_gets) simp
  have syn: "ends (wants v) (create_blockchain_synopsis_for_peer env a) (\<lambda>_. True)"
    unfolding create_blockchain_synopsis_for_peer_def Let_def
    by (intro ends_bnd [OF seen] ends_bnd [OF ids] ends_bnd [OF call]) (simp add: ends_ret)
  show ?thesis
    unfolding fetch_next_batch_of_item_ids_def
    by (simp only: if_False)
       (intro ends_seq ends_ret ends_catch ends_bnd [OF syn] ends_bnd [where R = "\<lambda>_. True"] ends_gets ends_set_peer ends_send
          ends_if ends_disconnect ends_raise TrueI; simp)
qed

lemma ends_forget:
  "ends (wants v) (each_active (\<lambda>s p. forget_processed i p)) (list_all (\<lambda>(a, x). x \<longrightarrow> v a = []))"
proof -
  have one: "ends (wants v) (bnd (gets (\<lambda>s. forget_processed i (the_peer a s)))
      (\<lambda>(x, p). seq (set_peer a (\<lambda>_. p)) (ret (a, x)))) (\<lambda>(a, x). x \<longrightarrow> v a = [])" for a
  proof (rule endsI)
    fix s r t
    assume s: "wants v s"
      and run: "bnd (gets (\<lambda>s. forget_processed i (the_peer a s))) (\<lambda>(x, p). seq (set_peer a (\<lambda>_. p)) (ret (a, x))) s = (r, t)"
    obtain x p where f: "forget_processed i (the_peer a s) = (x, p)" by fastforce
    then have p: "ids_of_items_to_get p = ids_of_items_to_get (the_peer a s)" "x \<longrightarrow> ids_of_items_to_get (the_peer a s) = []"
      by (auto simp: forget_processed_def Let_def split: if_splits)
    from run f have t: "r = Inr (a, x)" "t = s\<lparr>peers := (peers s)[a := p]\<rparr>"
      by (auto simp: bnd_def gets_def seq_def set_peer_def on_peer_def update_def ret_def)
    have "wanted_ids t = wanted_ids s" unfolding t(2) by (rule wanted_ids_set) (use p(1) in \<open>simp add: the_peer_def\<close>)
    with s p(2) t(1) show "wants v t \<and> (case r of Inl e \<Rightarrow> e \<noteq> Diverged | Inr (a, x) \<Rightarrow> x \<longrightarrow> v a = [])"
      by (auto simp: wanted_ids_def)
  qed
  show ?thesis
    unfolding each_active_def by (intro ends_bnd [where R = "\<lambda>_. True"] ends_gets ends_collect one TrueI)
qed

lemma ends_take: "ends (\<lambda>_. True) (each_active (\<lambda>s p. take_next i p)) (\<lambda>_. True)"
proof -
  have one: "ends (\<lambda>_. True) (bnd (gets (\<lambda>s. take_next i (the_peer a s)))
      (\<lambda>(x, p). seq (set_peer a (\<lambda>_. p)) (ret (a, x)))) (\<lambda>_. True)" for a
    by (rule endsI) (auto simp: bnd_def gets_def seq_def set_peer_def on_peer_def update_def ret_def split: prod.splits)
  have "ends (\<lambda>_. True) (each_active (\<lambda>s p. take_next i p)) (list_all (\<lambda>_. True))"
    unfolding each_active_def by (intro ends_bnd [where R = "\<lambda>_. True"] ends_gets ends_collect one TrueI)
  then show ?thesis by (rule ends_value) simp
qed

lemma process_one_ends:
  assumes d: "synopsis_returns env"
  shows "fst (process_one_block env s) \<noteq> Inl Diverged"
proof -
  have forget: "ends (\<lambda>_. True) (bnd (each_active (\<lambda>s p. forget_processed i p)) (\<lambda>done.
      seq (each (\<lambda>a. fetch_next_batch_of_item_ids env a False) (map fst (filter snd done))) (ret False))) (\<lambda>_. True)" for i
  proof (rule ends_any)
    fix v :: "nat \<Rightarrow> bytes list"
    show "ends (wants v) (bnd (each_active (\<lambda>s p. forget_processed i p)) (\<lambda>done.
        seq (each (\<lambda>a. fetch_next_batch_of_item_ids env a False) (map fst (filter snd done))) (ret False))) (\<lambda>_. True)"
      by (intro ends_bnd [OF ends_forget] ends_seq ends_each ends_fetch_ids [OF d] ends_ret TrueI)
         (auto simp: list_all_iff)
  qed
  have "ends (\<lambda>_. True) (process_one_block env) (\<lambda>_. True)"
    unfolding process_one_block_def
    by (intro ends_bnd [where R = "\<lambda>_. True"] ends_gets ends_option ends_ret ends_take ends_if ends_seq ends_update forget TrueI)
  then show ?thesis by (cases "process_one_block env s") (auto dest: endsD)
qed

end
