(* ===== verification/Node_Props.thy ===== *)
theory Node_Props
  imports Node_Handshake Node_Ends
begin

section \<open>The network node: properties\<close>

text \<open>
  What holds of the node in every state, what one pass of its loops asks of whom, what becomes of
  blocks and messages that arrive, and whom it accepts.
\<close>

subsection \<open>Every state\<close>

text \<open>
  C18: In every state the node can reach, whatever messages arrive, connections end and loops run: a connection is in
  at most one of the four sets and every one of them exists; the ids each peer has named and that are still to be
  fetched are those of consecutive blocks; and the size counted for the queue of each peer is that of the messages in it.
\<close>

theorem node_reachable:
  assumes "(node_step number lib)\<^sup>*\<^sup>* (new_node c i pub priv agent listen) s"
  shows "distinct (handshaking s @ active_peers s @ closing s @ terminating s) \<and>
    (\<forall>a \<in> set (handshaking s @ active_peers s @ closing s @ terminating s). a < length (peers s)) \<and>
    (\<forall>p \<in> set (peers s). consecutive number (ids_of_items_to_get p) \<and>
       total_queued_size p = sum_list (map (queued_size lib) (queued_messages p)))"
  using reachable_ok [OF assms] by (auto simp: node_ok_def connections_ok_def queue_counted_def)

theorem node_reachable_witness:
  "distinct (handshaking (snd (accept_peer quiet_env (1, 2) fresh_node)))"
proof -
  have "node_step (\<lambda>h. 0) (\<lambda>m. []) fresh_node (snd (accept_peer quiet_env (1, 2) fresh_node))"
    by (rule node_step.accept_loop) (simp add: speaks_def quiet_env_def quiet_delegate_def)
  from node_reachable [OF r_into_rtranclp [where r = "node_step (\<lambda>h. 0) (\<lambda>m. [])", OF this [unfolded fresh_node_def]]]
  show ?thesis by (simp add: fresh_node_def)
qed

text \<open>The time a connection was ended is never set, so no terminating connection is given up.\<close>

lemma terminating_never_deleted:
  assumes "(node_step number lib)\<^sup>*\<^sup>* (new_node c i pub priv agent listen) s" and "a \<in> set (terminating s)"
  shows "\<not> failed_to_terminate env (the_peer a s)"
  using reachable_ok [OF assms(1)] assms(2)
  by (auto simp: node_ok_def connections_ok_def failed_to_terminate_def the_peer_def)

subsection \<open>One pass of the loops\<close>

text \<open>
  C19: One pass of the loop that fetches sync blocks asks no block twice, of no two peers; it asks only idle active peers that we
  sync with, each at most the limit of blocks, only for blocks the peer has named and that are neither on hand nor
  asked for; and it leaves a block out only if every such peer that named it is asked for as many as the limit allows.
\<close>

theorem sync_requests_exact:
  assumes "connections_ok s" and "0 < peer_limit s"
  defines "rs \<equiv> sync_requests s (active_peers s) {}"
  shows "distinct (concat (map snd rs)) \<and> distinct (map fst rs) \<and>
    (\<forall>(a, hs) \<in> set rs. a \<in> set (active_peers s) \<and> syncing_peer s a \<and> hs \<noteq> [] \<and> length hs \<le> peer_limit s \<and>
       (\<forall>h \<in> set hs. h \<in> set (ids_of_items_to_get (the_peer a s)) \<and> \<not> already_requested s h)) \<and>
    (\<forall>a \<in> set (active_peers s). syncing_peer s a \<longrightarrow>
       (\<exists>hs. (a, hs) \<in> set rs \<and> length hs = peer_limit s) \<or>
       (\<forall>h \<in> set (ids_of_items_to_get (the_peer a s)). already_requested s h \<or> h \<in> set (concat (map snd rs))))"
proof -
  have "distinct (active_peers s)" using assms(1) by (simp add: connections_ok_def)
  from sync_requests_good [OF assms(2) this, of "{}"] have g: "good_requests s (active_peers s) {} rs" by (simp add: rs_def)
  then have "\<forall>(a, hs) \<in> set rs. a \<in> set (active_peers s) \<and> syncing_peer s a \<and> hs \<noteq> [] \<and> length hs \<le> peer_limit s \<and>
       (\<forall>h \<in> set hs. h \<in> set (ids_of_items_to_get (the_peer a s)) \<and> \<not> already_requested s h)"
    unfolding good_requests_def by blast
  with g show ?thesis unfolding good_requests_def by auto
qed

text \<open>Two peers that name the same two blocks: the first is asked for both.\<close>

definition naming_peer :: peer where
  "naming_peer = (new_peer (1, 2))\<lparr>ids_of_items_to_get := [[1], [2]]\<rparr>"

definition syncing_node :: "unit node" where
  "syncing_node = fresh_node\<lparr>peers := [naming_peer, naming_peer], active_peers := [0, 1]\<rparr>"

theorem sync_requests_exact_witness:
  "distinct (concat (map snd (sync_requests syncing_node (active_peers syncing_node) {}))) \<and>
   syncing_peer syncing_node 0"
proof -
  have "connections_ok syncing_node" "0 < peer_limit syncing_node"
    by (simp_all add: syncing_node_def sample_node)
  from sync_requests_exact [OF this] show ?thesis
    by (simp add: syncing_peer_def syncing_node_def naming_peer_def the_peer_def new_peer_def idle_def busy_def)
qed

text \<open>
  C26: One pass of the loop that fetches items gives each item to a peer that is idle, advertised it and may be asked
  for it now, at most 1000 to a peer; every item that is not too old is given to exactly one peer or kept, and it is kept
  only if every peer that could be asked for it has its 1000.
\<close>

theorem items_assigned:
  assumes "connections_ok s"
    and "assign_items now limit s items (idle_assignments s) None = (kept, xs, wake)"
  shows "(\<forall>(a, is) \<in> set xs. a \<in> set (active_peers s) \<and> idle (the_peer a s) \<and> length is \<le> 1000 \<and>
      (\<forall>i \<in> set is. may_ask now s i a)) \<and>
    mset (concat (map snd xs)) + mset (map fi_item kept) = mset (map fi_item (filter (\<lambda>x. limit \<le> fi_time x) items)) \<and>
    (\<forall>x \<in> set kept. \<forall>a \<in> set (active_peers s). idle (the_peer a s) \<and> may_ask now s (fi_item x) a \<longrightarrow>
      (\<exists>is. (a, is) \<in> set xs \<and> length is = 1000))"
proof -
  let ?xs = "idle_assignments s"
  have d: "distinct (map fst ?xs)" and l: "\<forall>(a, is) \<in> set ?xs. length is \<le> max_items_per_peer"
    using assms(1) by (auto simp: idle_assignments_def connections_ok_def comp_def)
  have e: "(a, is) \<in> set ?xs \<longleftrightarrow> a \<in> set (active_peers s) \<and> idle (the_peer a s) \<and> is = []" for a "is"
    by (auto simp: idle_assignments_def)
  from assign_items_good [OF d l assms(2)]
  have g: "good_assignment now s (filter (\<lambda>x. \<not> fi_time x < limit) items) ?xs kept xs" .
  have m: "max_items_per_peer = 1000" by (simp add: max_items_per_peer_def)
  have one: "a \<in> set (active_peers s) \<and> idle (the_peer a s) \<and> length is \<le> 1000 \<and> (\<forall>i \<in> set is. may_ask now s i a)"
    if "(a, is) \<in> set xs" for a "is"
  proof -
    from g have "fst ` set xs = fst ` set ?xs" "distinct (map fst xs)" by (simp_all add: good_assignment_def)
    with that have a: "(a, []) \<in> set ?xs" by (force simp: e)
    with g obtain more where "(a, more) \<in> set xs" "length more \<le> 1000" "\<forall>i \<in> set more. may_ask now s i a"
      unfolding good_assignment_def m by (metis append_Nil)
    with that \<open>distinct (map fst xs)\<close> a show ?thesis by (auto dest: eq_key_imp_eq_value simp: e)
  qed
  have full: "\<exists>is. (a, is) \<in> set xs \<and> length is = 1000"
    if x: "x \<in> set kept" and a: "a \<in> set (active_peers s)" "idle (the_peer a s)" "may_ask now s (fi_item x) a" for x a
  proof -
    from a have "(a, []) \<in> set ?xs" by (simp add: e)
    with g obtain more where "(a, more) \<in> set xs" unfolding good_assignment_def by (metis append_Nil)
    with g x a(3) show ?thesis unfolding good_assignment_def m by blast
  qed
  have "concat (map snd ?xs) = []" by (auto simp: idle_assignments_def)
  with g have "mset (concat (map snd xs)) + mset (map fi_item kept) = mset (map fi_item (filter (\<lambda>x. limit \<le> fi_time x) items))"
    by (simp add: good_assignment_def not_less)
  with one full show ?thesis by blast
qed

definition offering_node :: "unit node" where
  "offering_node = fresh_node\<lparr>peers := [(new_peer (1, 2))\<lparr>advertised_to_us := [((1000, [3]), 0)]\<rparr>], active_peers := [0]\<rparr>"

theorem items_assigned_witness:
  "idle (the_peer 0 offering_node) \<and> may_ask 10 offering_node (1000, [3]) 0"
proof -
  have ok: "connections_ok offering_node" by (simp add: offering_node_def sample_node)
  have run: "assign_items 10 0 offering_node [\<lparr>fi_item = (1000, [3]), fi_number = 0, fi_time = 5\<rparr>]
      (idle_assignments offering_node) None = ([], [(0, [(1000, [3])])], None)"
    by code_simp
  from items_assigned [OF ok run] show ?thesis by simp
qed

subsection \<open>What was not asked for\<close>

lemma disconnect_leaves:
  "chain (snd (disconnect_from_peer env a reason e err s)) = chain s"
  "a \<notin> set (active_peers (snd (disconnect_from_peer env a reason e err s)))"
  "a \<notin> set (handshaking (snd (disconnect_from_peer env a reason e err s)))"
  "a \<in> set (closing (snd (disconnect_from_peer env a reason e err s)))"
proof -
  have "keeps (\<lambda>t. chain t = chain s \<and> a \<notin> set (active_peers t) \<and> a \<notin> set (handshaking t) \<and> a \<in> set (closing t))
      (bnd (ask_peer a they_have_requested_close) (\<lambda>requested.
       if requested then set_peer a (close_connection (ne_now env))
       else seq (record_last_error env err a)
             (seq (set_peer a (\<lambda>p. p\<lparr>we_have_requested_close := True, connection_closed_time := ne_now env\<rparr>))
               (send env a (Closing_Connection reason e err)))))"
    (is "keeps ?P ?m")
  proof -
    have p: "keeps ?P (on_peer a m)" for m :: "(peer, 'x) sx"
      by (auto simp: keeps_def on_peer_def split: prod.split)
    have u: "keeps ?P (update_known_peer x f)" for x f
      by (auto simp: keeps_def update_known_peer_def update_def split: option.split)
    show ?thesis
      unfolding record_last_error_def ask_peer_def set_peer_def send_def
      by (intro keeps_bnd keeps_seq keeps_if keeps_option keeps_ret keeps_gets p u)
  qed
  moreover let ?s = "s\<lparr>active_peers := removeAll a (active_peers s), handshaking := removeAll a (handshaking s),
     closing := set_insert a (closing s), terminating := removeAll a (terminating s)\<rparr>"
  have "move_peer_to_closing_list a s = (Inr (), ?s)"
    by (simp add: move_peer_to_closing_list_def update_def)
  then have "disconnect_from_peer env a reason e err s = ?m ?s"
    by (simp only: disconnect_from_peer_def seq_simps(2))
  moreover have "?P ?s" by simp
  ultimately have "?P (snd (disconnect_from_peer env a reason e err s))"
    by (simp only: keeps_def) blast
  then show "chain (snd (disconnect_from_peer env a reason e err s)) = chain s"
    "a \<notin> set (active_peers (snd (disconnect_from_peer env a reason e err s)))"
    "a \<notin> set (handshaking (snd (disconnect_from_peer env a reason e err s)))"
    "a \<in> set (closing (snd (disconnect_from_peer env a reason e err s)))"
    by blast+
qed

text \<open>What a peer sends that it was not asked for: the message of an item, or a block under an id.\<close>

definition unasked :: "peer \<Rightarrow> net_message \<Rightarrow> bytes \<Rightarrow> bool" where
  "unasked p m h \<longleftrightarrow>
     (case m of
        Block_Msg b i \<Rightarrow> (block_message_type, h) \<notin> fst ` set (items_requested p) \<and> i \<notin> sync_requested p
      | Other_Msg t d \<Rightarrow> (t < core_message_type_first \<or> t > core_message_type_last) \<and> (t, h) \<notin> fst ` set (items_requested p)
      | _ \<Rightarrow> False)"

text \<open>
  C20: A block, transaction or other message that a peer was not asked for never reaches the chain: the chain, the items to
  fetch, the blocks on hand, the cache and what is advertised to others stay as they were, and the peer is disconnected.
\<close>

theorem unasked_refused:
  fixes env :: "'c node_env" and connections :: "'c node \<Rightarrow> bytes"
  assumes "unasked (the_peer a s) m h"
  defines "t \<equiv> snd (on_message env connections a m h s)"
  shows "chain t = chain s \<and> received_part t = received_part s \<and>
    a \<notin> set (active_peers t) \<and> a \<notin> set (handshaking t) \<and> a \<in> set (closing t)"
proof -
  obtain reason where t: "t = snd (disconnect_from_peer env a reason True (Some Unhandled) s)"
    using assms
    by (cases m) (auto simp: unasked_def on_message_def process_block_message_def process_ordinary_message_def
        ask_peer_def bnd_def gets_def Let_def)
  have "received_part t = received_part s"
    using rv.same_disconnect [of "received_part s" env a reason True "Some Unhandled"] by (simp add: t keeps_def)
  then show ?thesis by (simp add: t disconnect_leaves)
qed

theorem unasked_refused_witness:
  "chain (snd (on_message quiet_env (\<lambda>s. []) 0 (Other_Msg 1000 [7]) [8] one_peer)) = chain one_peer"
  using unasked_refused [of 0 one_peer "Other_Msg 1000 [7]" "[8]" quiet_env "\<lambda>s. []"]
  by (simp add: unasked_def sample_node core_message_type_first_def)

subsection \<open>Messages come through\<close>

definition framed :: "(net_message \<Rightarrow> bytes) \<Rightarrow> net_message \<Rightarrow> bytes" where
  "framed lib m = frame_bytes (message_of (net_type m) (net_data lib m))"

text \<open>
  C28: Messages framed one after the other and read from a connection are handled one by one in that order, each as it
  was sent and under the hash of its bytes, until the bytes end or a handler throws; then the loop ends with the
  exception, the first one, and with the state at that point. (Comments in the loop call such errors
  warnings and say that it should go on after them; its handler rethrows them.)
\<close>

theorem messages_handled_in_order:
  fixes env :: "'c node_env"
  assumes "list_all wire_ok ms" and "\<forall>m \<in> set ms. length (net_data lib m) \<le> max_message_size"
  shows "read_loop (receive_frame env connections other a) s (concat (map (framed lib) ms)) =
    (case each (\<lambda>m. seq (set_peer a (\<lambda>p. p\<lparr>last_message_received_time := ne_now env\<rparr>))
                       (peer_on_message env connections a (message_hash (ne_crypto env) lib m) m)) ms s of
       (Inl e, t) \<Rightarrow> (e, t)
     | (Inr _, t) \<Rightarrow> (Eof, t))"
proof -
  let ?f = "\<lambda>m. message_of (net_type m) (net_data lib m)"
  let ?h = "\<lambda>m. seq (set_peer a (\<lambda>p. p\<lparr>last_message_received_time := ne_now env\<rparr>))
                       (peer_on_message env connections a (message_hash (ne_crypto env) lib m) m)"
  have ok: "list_all sendable (map ?f ms)"
    using assms(2) by (auto simp: list_all_iff sendable_message_of)
  have one: "receive_frame env connections other a (?f m) = ?h m" if "wire_ok m" for m
    by (simp add: receive_frame_def message_of_def message_hash_def message_through_wire [OF that] bnd_lift)
  have "each (receive_frame env connections other a) (map ?f ms) = each ?h ms"
    using assms(1) by (induction ms) (simp_all add: one)
  moreover have "concat (map (framed lib) ms) = concat (map frame_bytes (map ?f ms)) @ []"
    by (simp add: framed_def [abs_def] comp_def)
  ultimately show ?thesis
    by (simp only: read_loop_frames [OF ok] read_loop_end [of "[]", simplified])
qed

theorem messages_handled_in_order_witness:
  "read_loop (receive_frame quiet_env (\<lambda>s. []) (\<lambda>d. Inl Unhandled) 0) one_peer
     (concat (map (framed (\<lambda>m. [])) [Connection_Accepted, Address_Request])) =
   (case each (\<lambda>m. seq (set_peer 0 (\<lambda>p. p\<lparr>last_message_received_time := ne_now quiet_env\<rparr>))
       (peer_on_message quiet_env (\<lambda>s. []) 0 (message_hash (ne_crypto quiet_env) (\<lambda>m. []) m) m))
       [Connection_Accepted, Address_Request] one_peer of
      (Inl e, t) \<Rightarrow> (e, t)
    | (Inr _, t) \<Rightarrow> (Eof, t))"
  by (rule messages_handled_in_order) (simp_all add: max_message_size_def)

subsection \<open>The backlog\<close>

text \<open>The blocks on hand: received, sorted in, and handed to tasks.\<close>

definition blocks_on_hand :: "'c node \<Rightarrow> block_message multiset" where
  "blocks_on_hand s = mset (new_received_blocks s) + mset (received_blocks s) + mset (blocks_in_progress s)"

definition held :: "node_configuration \<Rightarrow> block_message multiset \<Rightarrow> nat \<Rightarrow> 'c node \<Rightarrow> bool" where
  "held c M n s \<longleftrightarrow> configuration s = c \<and> blocks_on_hand s = M \<and> length (blocks_in_progress s) = n"

lemma held_same: "sync_part t = sync_part s \<Longrightarrow> held c M n t \<longleftrightarrow> held c M n s"
  by (auto simp: held_def blocks_on_hand_def sync_part_def)

lemma keeps_held:
  fixes m :: "('c node, 'x) sx"
  assumes "\<And>v. keeps (\<lambda>s. sync_part s = v) m"
  shows "keeps (held c M n) m"
  unfolding keeps_def
proof (intro allI impI)
  fix s :: "'c node"
  assume "held c M n s"
  moreover have "sync_part (snd (m s)) = sync_part s"
    using assms [of "sync_part s"] unfolding keeps_def by blast
  ultimately show "held c M n (snd (m s))" using held_same by blast
qed

text \<open>One round starts at most one task, and the block of it was on hand.\<close>

lemma first_ready_received: "first_ready s = Some m \<Longrightarrow> m \<in> set (received_blocks s)"
  by (auto simp: first_ready_def find_Some_iff)

lemma process_one_held:
  assumes "held c M n s"
  shows "case process_one_block env s of (r, t) \<Rightarrow> held c M (if r = Inr True then Suc n else n) t"
proof (cases "first_ready s")
  case None
  with assms show ?thesis by (simp add: process_one_block_def bnd_gets ret_def)
next
  case (Some m)
  define taking where "taking = each_active (\<lambda>(s :: 'a node). take_next (snd m))"
  obtain r1 s1 where e: "taking s = (r1, s1)" by fastforce
  note taking_def [symmetric, simp]
  have "keeps (\<lambda>x. sync_part x = sync_part s) taking"
    unfolding taking_def by (rule sv.same_each_active)
  from keepsD [OF this refl e] have v: "sync_part s1 = sync_part s" .
  then have m: "m \<in> set (received_blocks s1)" using first_ready_received [OF Some] by (simp add: sync_part_def)
  have s1: "held c M n s1" using held_same [OF v] assms by blast
  show ?thesis
  proof (cases r1)
    case (Inl x)
    with Some have "process_one_block env s = (Inl x, s1)"
      by (simp add: process_one_block_def bnd_gets bnd_simps(1) [of taking s, OF e [unfolded Inl]])
    with s1 show ?thesis by simp
  next
    case (Inr ys)
    note run = bnd_simps(2) [of taking s, OF e [unfolded Inr]]
    show ?thesis
    proof (cases "snd m \<in> set (recent_accepted s1)")
      case False
      let ?t = "s1\<lparr>received_blocks := remove1 m (received_blocks s1), blocks_in_progress := blocks_in_progress s1 @ [m]\<rparr>"
      have "process_one_block env s = seq (update (\<lambda>s. s\<lparr>received_blocks := remove1 m (received_blocks s),
          blocks_in_progress := blocks_in_progress s @ [m]\<rparr>)) (ret True) s1"
        using Some False by (simp add: process_one_block_def bnd_gets run)
      then have "process_one_block env s = (Inr True, ?t)"
        by (simp add: seq_def bnd_def update_def ret_def)
      moreover have "held c M (Suc n) ?t" using s1 m by (auto simp: held_def blocks_on_hand_def)
      ultimately show ?thesis by simp
    next
      case True
      let ?rest = "bnd (each_active (\<lambda>s p. forget_processed (snd m) p)) (\<lambda>done.
            seq (each (\<lambda>a. fetch_next_batch_of_item_ids env a False) (map fst (filter snd done))) (ret False))"
      have k: "keeps (held c M n) ?rest"
        by (rule keeps_held) (intro sv.same_rules sv.same_each_active sv.same_fetch_ids)
      have p: "process_one_block env s = ?rest s1"
        using Some True by (simp add: process_one_block_def bnd_gets run)
      obtain r2 t where t: "?rest s1 = (r2, t)" by fastforce
      from keepsD [OF k s1 t] have "held c M n t" .
      moreover from t have "r2 \<noteq> Inr True"
        by (auto simp: bnd_Inr_iff seq_Inr_iff ret_def)
      ultimately show ?thesis by (simp add: p t)
    qed
  qed
qed

lemma rounds_run:
  assumes "held c M n s"
  obtains r t where "held c M (if r = Inr True then Suc n else n) t"
    "\<And>k. backlog_rounds env (Suc k) s =
      (case r of Inl e \<Rightarrow> (Inl e, t)
       | Inr started \<Rightarrow> if (if started then Suc n else n) \<ge> max_blocks_at_once c
           then (Inr (), if length (received_blocks t) \<ge> max_prefetch c then t\<lparr>suspend_fetching := True\<rparr> else t)
           else if started then backlog_rounds env k t else (Inr (), t))"
    "synopsis_returns env \<Longrightarrow> r \<noteq> Inl Diverged"
proof -
  let ?s = "s\<lparr>received_blocks := rev (new_received_blocks s) @ received_blocks s, new_received_blocks := []\<rparr>"
  obtain r t where p: "process_one_block env ?s = (r, t)" by fastforce
  have "held c M n ?s" using assms by (auto simp: held_def blocks_on_hand_def)
  from process_one_held [OF this, of env] p have t: "held c M (if r = Inr True then Suc n else n) t" by simp
  show ?thesis
  proof (rule that [OF t])
    show "backlog_rounds env (Suc k) s =
      (case r of Inl e \<Rightarrow> (Inl e, t)
       | Inr started \<Rightarrow> if (if started then Suc n else n) \<ge> max_blocks_at_once c
           then (Inr (), if length (received_blocks t) \<ge> max_prefetch c then t\<lparr>suspend_fetching := True\<rparr> else t)
           else if started then backlog_rounds env k t else (Inr (), t))" for k
      using t by (cases r) (auto simp: seq_def bnd_def update_def gets_def p ret_def held_def split: if_splits)
    show "synopsis_returns env \<Longrightarrow> r \<noteq> Inl Diverged" using process_one_ends [of env ?s] p by simp
  qed
qed

lemma rounds_held:
  assumes "held c M n s" and "n < max_blocks_at_once c"
  shows "case backlog_rounds env k s of (r, u) \<Rightarrow>
    configuration u = c \<and> blocks_on_hand u = M \<and> length (blocks_in_progress u) \<le> max_blocks_at_once c"
  using assms
proof (induction k arbitrary: n s)
  case 0
  then show ?case by (simp add: raise_def held_def)
next
  case (Suc k)
  obtain r t where t: "held c M (if r = Inr True then Suc n else n) t" and run: "backlog_rounds env (Suc k) s =
      (case r of Inl e \<Rightarrow> (Inl e, t)
       | Inr started \<Rightarrow> if (if started then Suc n else n) \<ge> max_blocks_at_once c
           then (Inr (), if length (received_blocks t) \<ge> max_prefetch c then t\<lparr>suspend_fetching := True\<rparr> else t)
           else if started then backlog_rounds env k t else (Inr (), t))"
    by (rule rounds_run [OF Suc.prems(1), of env]) blast
  show ?case
  proof (cases "r = Inr True \<and> Suc n < max_blocks_at_once c")
    case True
    with t have "held c M (Suc n) t" by simp
    from Suc.IH [OF this] True run show ?thesis by simp
  next
    case False
    with t Suc.prems(2) have "configuration t = c" "blocks_on_hand t = M" "length (blocks_in_progress t) \<le> max_blocks_at_once c"
      by (auto simp: held_def split: if_splits)
    with False show ?thesis
      unfolding run by (cases r) (auto simp: blocks_on_hand_def simp del: backlog_rounds.simps)
  qed
qed

text \<open>More rounds than there are free tasks change nothing: the last round never asks for another.\<close>

lemma rounds_enough:
  assumes "held c M n s" and "max_blocks_at_once c \<le> n + k"
  shows "backlog_rounds env (Suc (k + j)) s = backlog_rounds env (Suc k) s"
  using assms
proof (induction k arbitrary: n s)
  case 0
  obtain r t where run: "\<And>k. backlog_rounds env (Suc k) s =
      (case r of Inl e \<Rightarrow> (Inl e, t)
       | Inr started \<Rightarrow> if (if started then Suc n else n) \<ge> max_blocks_at_once c
           then (Inr (), if length (received_blocks t) \<ge> max_prefetch c then t\<lparr>suspend_fetching := True\<rparr> else t)
           else if started then backlog_rounds env k t else (Inr (), t))"
    by (rule rounds_run [OF 0(1), of env]) blast
  with 0(2) show ?case by (cases r) (auto simp del: backlog_rounds.simps)
next
  case (Suc k)
  obtain r t where t: "held c M (if r = Inr True then Suc n else n) t" and run: "\<And>k. backlog_rounds env (Suc k) s =
      (case r of Inl e \<Rightarrow> (Inl e, t)
       | Inr started \<Rightarrow> if (if started then Suc n else n) \<ge> max_blocks_at_once c
           then (Inr (), if length (received_blocks t) \<ge> max_prefetch c then t\<lparr>suspend_fetching := True\<rparr> else t)
           else if started then backlog_rounds env k t else (Inr (), t))"
    by (rule rounds_run [OF Suc.prems(1), of env]) blast
  show ?case
  proof (cases "r = Inr True")
    case True
    with t have "held c M (Suc n) t" by simp
    from Suc.IH [OF this] Suc.prems(2) True show ?thesis
      unfolding run by (simp add: add_Suc_right [symmetric] del: backlog_rounds.simps add_Suc_right)
  next
    case False
    then show ?thesis
      unfolding run by (cases r) (auto simp del: backlog_rounds.simps)
  qed
qed

text \<open>With as many rounds as there are free tasks the loop ends by itself.\<close>

lemma rounds_end:
  assumes "synopsis_returns env" and "held c M n s" and "max_blocks_at_once c \<le> n + k"
  shows "fst (backlog_rounds env (Suc k) s) \<noteq> Inl Diverged"
  using assms(2,3)
proof (induction k arbitrary: n s)
  case 0
  obtain r t where run: "\<And>k. backlog_rounds env (Suc k) s =
      (case r of Inl e \<Rightarrow> (Inl e, t)
       | Inr started \<Rightarrow> if (if started then Suc n else n) \<ge> max_blocks_at_once c
           then (Inr (), if length (received_blocks t) \<ge> max_prefetch c then t\<lparr>suspend_fetching := True\<rparr> else t)
           else if started then backlog_rounds env k t else (Inr (), t))" and r: "r \<noteq> Inl Diverged"
    by (rule rounds_run [OF 0(1), of env]) (use assms(1) in blast)
  with 0(2) show ?case by (cases r) (auto simp del: backlog_rounds.simps)
next
  case (Suc k)
  obtain r t where t: "held c M (if r = Inr True then Suc n else n) t" and run: "\<And>k. backlog_rounds env (Suc k) s =
      (case r of Inl e \<Rightarrow> (Inl e, t)
       | Inr started \<Rightarrow> if (if started then Suc n else n) \<ge> max_blocks_at_once c
           then (Inr (), if length (received_blocks t) \<ge> max_prefetch c then t\<lparr>suspend_fetching := True\<rparr> else t)
           else if started then backlog_rounds env k t else (Inr (), t))" and r: "r \<noteq> Inl Diverged"
    by (rule rounds_run [OF Suc.prems(1), of env]) (use assms(1) in blast)
  show ?case
  proof (cases "r = Inr True")
    case True
    with t have "held c M (Suc n) t" by simp
    from Suc.IH [OF this] Suc.prems(2) have "fst (backlog_rounds env (Suc k) t) \<noteq> Inl Diverged" by simp
    with True show ?thesis unfolding run by (simp del: backlog_rounds.simps)
  next
    case False
    with r show ?thesis
      unfolding run by (cases r) (auto simp del: backlog_rounds.simps)
  qed
qed

text \<open>
  C27: Handling the backlog of sync blocks loses no block and doubles none: each is among the received ones or handed to a
  task; the tasks never exceed the limit by its doing. It ends, provided the delegate's synopsis does: it does not run
  out of the rounds of the model, one more than there can be tasks, and further rounds would change nothing.
\<close>

theorem backlog_bounded:
  fixes s :: "'c node" and env :: "'c node_env"
  defines "t \<equiv> snd (process_backlog_of_sync_blocks env s)"
  shows "blocks_on_hand t = blocks_on_hand s \<and>
    length (blocks_in_progress t) \<le> max (length (blocks_in_progress s)) (max_blocks_at_once (configuration s)) \<and>
    (\<forall>k. backlog_rounds env (Suc (max_blocks_at_once (configuration s) + k)) s =
         backlog_rounds env (Suc (max_blocks_at_once (configuration s))) s) \<and>
    (synopsis_returns env \<longrightarrow> fst (process_backlog_of_sync_blocks env s) \<noteq> Inl Diverged)"
proof (intro conjI)
  show "\<forall>k. backlog_rounds env (Suc (max_blocks_at_once (configuration s) + k)) s =
         backlog_rounds env (Suc (max_blocks_at_once (configuration s))) s"
    by (intro allI rounds_enough) (auto simp: held_def)
next
  let ?after = "bnd (gets suspend_fetching) (\<lambda>suspended. if suspended then ret () else trigger_fetch_sync_items_loop)"
  let ?s = "s\<lparr>backlog_scheduled := False, suspend_fetching := False\<rparr>" and ?n = "max_blocks_at_once (configuration s)"
  show "synopsis_returns env \<longrightarrow> fst (process_backlog_of_sync_blocks env s) \<noteq> Inl Diverged"
  proof (intro impI, cases "length (blocks_in_progress s) < ?n")
    case False
    then show "fst (process_backlog_of_sync_blocks env s) \<noteq> Inl Diverged"
      by (simp add: process_backlog_of_sync_blocks_def seq_def bnd_def update_def gets_def ret_def)
  next
    case True
    assume d: "synopsis_returns env"
    have "held (configuration s) (blocks_on_hand s) (length (blocks_in_progress s)) ?s"
      by (simp_all add: held_def blocks_on_hand_def)
    from rounds_end [OF d this, of ?n] have "fst (backlog_rounds env (Suc ?n) ?s) \<noteq> Inl Diverged" by simp
    moreover have "fst (?after u) = Inr ()" for u :: "'c node"
      by (simp add: bnd_def gets_def ret_def trigger_fetch_sync_items_loop_def update_def)
    moreover have "process_backlog_of_sync_blocks env s = seq (backlog_rounds env (Suc ?n)) ?after ?s"
      using True by (simp add: process_backlog_of_sync_blocks_def seq_def bnd_def update_def gets_def del: backlog_rounds.simps)
    ultimately show "fst (process_backlog_of_sync_blocks env s) \<noteq> Inl Diverged"
      by (cases "backlog_rounds env (Suc ?n) ?s"; cases "fst (backlog_rounds env (Suc ?n) ?s)")
         (auto simp: seq_simps simp del: backlog_rounds.simps)
  qed
next
  have "blocks_on_hand t = blocks_on_hand s \<and>
    length (blocks_in_progress t) \<le> max (length (blocks_in_progress s)) (max_blocks_at_once (configuration s))"
  proof (cases "length (blocks_in_progress s) < max_blocks_at_once (configuration s)")
  case False
  then have "t = s\<lparr>backlog_scheduled := False\<rparr>"
    by (simp add: t_def process_backlog_of_sync_blocks_def seq_def bnd_def update_def gets_def ret_def)
  with False show ?thesis by (simp add: blocks_on_hand_def)
next
  case True
  let ?s = "s\<lparr>backlog_scheduled := False, suspend_fetching := False\<rparr>" and ?n = "max_blocks_at_once (configuration s)"
  let ?after = "bnd (gets suspend_fetching) (\<lambda>suspended. if suspended then ret () else trigger_fetch_sync_items_loop)"
  have h': "held (configuration s) (blocks_on_hand s) (length (blocks_in_progress s)) ?s"
    by (simp_all add: held_def blocks_on_hand_def)
  obtain r u where run: "backlog_rounds env (Suc ?n) ?s = (r, u)" by fastforce
  define n where "n = length (blocks_in_progress u)"
  from rounds_held [OF h' True, of env "Suc ?n"] run
  have n: "n \<le> ?n" "held (configuration s) (blocks_on_hand s) n u" by (simp_all add: n_def held_def)
  have "keeps (held (configuration s) (blocks_on_hand s) n) ?after"
    by (auto simp: keeps_def bnd_def gets_def ret_def trigger_fetch_sync_items_loop_def update_def held_def blocks_on_hand_def)
  moreover have t: "t = snd (seq (backlog_rounds env (Suc ?n)) ?after ?s)"
    using True by (simp add: t_def process_backlog_of_sync_blocks_def seq_def bnd_def update_def gets_def del: backlog_rounds.simps)
  ultimately have "held (configuration s) (blocks_on_hand s) n t"
    using n(2) run by (cases r) (auto simp: seq_simps keeps_def simp del: backlog_rounds.simps)
  with n(1) show ?thesis by (auto simp: held_def)
  qed
  then show "blocks_on_hand t = blocks_on_hand s"
    and "length (blocks_in_progress t) \<le> max (length (blocks_in_progress s)) (max_blocks_at_once (configuration s))"
    by blast+
qed

theorem backlog_bounded_witness:
  "fst (process_backlog_of_sync_blocks quiet_env one_peer) \<noteq> Inl Diverged"
  using backlog_bounded [where env = quiet_env and s = one_peer]
  by (simp add: synopsis_returns_def quiet_env_def quiet_delegate_def ret_def)

end
