(* ===== verification/Spec2Isabelle.thy ===== *)
theory Spec2Isabelle
  imports Chainbase_Props Base_Props Chain_Types_Props Merkle_Props Fork_DB_Props Block_Log_Props Slot_Props Produce_Props Push_Cases History_Props Chain_Plugin_Props P2P_Props Producer_Props API_Props Application_Props Json_Rpc_Props Node_Props
begin

text \<open>
  A verification library of the NEWS chain, a delegated blockchain node in C++ (\<open>src/libraries\<close>).
  File names below are relative to \<open>src/libraries\<close>; the theories are named in capitals.

  THE PROGRAM. A node keeps the state of the chain (accounts, transactions, block summaries, global
  properties) as objects in a memory-mapped database with undo sessions (\<open>chainbase\<close>), the recent
  blocks as a tree (\<open>fork_database.cpp\<close>) and the irreversible ones in an append-only file
  (\<open>block_log.cpp\<close>). \<open>chain/database.cpp\<close> joins the three: it applies blocks and transactions in
  sessions, switches forks, produces blocks, runs the hardfork schedule, opens and reindexes.
  Everything that is hashed, stored or sent is encoded by \<open>fc/io/raw.hpp\<close>. Around the database,
  the plugins: \<open>chain_plugin\<close> serialises all writes through two queues, \<open>p2p_plugin\<close> answers
  the network node, \<open>producer_plugin\<close> produces a block when its slot comes, \<open>account_history\<close> records
  operations, and \<open>plugins/apis\<close> are the public calls, which \<open>plugins/json_rpc\<close> answers as JSON text.
  \<open>net\<close> is the network node: it keeps the connections, brings itself and its peers up to date, passes
  blocks and transactions on, and hands what it receives to the delegate, the p2p plugin.

  THE MODEL. Code becomes functions in the monad \<open>sx\<close> of PRELUDE: a statement maps the state to an
  exception or a value and to the state reached, so what was modified before a throw stays
  modified, as in C++. Machine integers are words and wrap as the machine does. Pointers that are
  compared or shared (fork items, write contexts) are indices into lists that only grow. The
  exceptions are the values of \<open>error\<close>; \<open>Undefined\<close> stands for undefined behaviour of C++ and
  \<open>Diverged\<close> for a loop that used up its rounds; no handler catches these two.

  THE THEORIES, in the order of the program's layers.
  \<^item> UNDO_INDEX, CHAINBASE: \<open>chainbase/chainbase.hpp\<close>, one \<open>generic_index\<close> and the database of all
    indices: create, modify, remove, undo sessions, squash, commit, undo. UNDO_FACTS,
    UNDO_THEOREMS and CHAINBASE_THEOREMS read an index as the list of its snapshots and prove each
    operation a step on that list; UNDO_STORE holds the interface \<open>undo_store\<close> that the chain
    relies on, interpreted by one index and by the database. Claims: CHAINBASE_PROPS.
  \<^item> RAW, RAW_FACTS, RAW_CODECS: \<open>fc/io/raw.hpp\<close>, \<open>datastream.hpp\<close>, \<open>varint.hpp\<close>: a codec is a writer, a
    reader and the C++ size; the locale \<open>codec_law\<close> is what a stored format promises and is
    interpreted for keys, operations, transactions and blocks.
  \<^item> BASE58, BASE, BASE_FACTS, BASE_PROPS: \<open>base58.cpp\<close>, \<open>fc/safe.hpp\<close> and \<open>news/base\<close> (assets,
    versions, keys, constants), with exact results of the checked arithmetic.
  \<^item> CHAIN_TYPES and its FACTS and PROPS, MERKLE_PROPS: \<open>news/base/operation.hpp\<close>, \<open>transaction.cpp\<close>,
    \<open>block.cpp\<close>: operations, transactions, blocks, ids, signatures, the authority check, Merkle roots.
  \<^item> FORK_DB, FORK_DB_FACTS, FORK_DB_PROPS: \<open>chain/fork_database.cpp\<close>; the invariant \<open>fork_inv\<close> (a
    forest with consecutive numbers) over every reachable state, and the walks along it.
  \<^item> BLOCK_LOG, BLOCK_LOG_FACTS, BLOCK_LOG_OPEN, BLOCK_LOG_PROPS: \<open>chain/block_log.cpp\<close> with the two
    files as byte lists and streams with their failure bits; the locale \<open>numbered_log\<close>.
  \<^item> CHAIN_OBJECTS, EVALUATORS, DATABASE, PUSH_BLOCK: \<open>chain/database.cpp\<close>, \<open>news_eveluator.cpp\<close> and the
    object headers: the record \<open>chain_db\<close> holds the members of \<open>database\<close>; queries, evaluators,
    transactions, the steps of a block, then pushing, popping, switching forks, producing,
    genesis, opening and reindexing.
  \<^item> CHAIN_EFFECTS: the locale \<open>effect\<close> (a relation between the states around a statement that every
    way of composing statements keeps), interpreted for the writes of the chain. TRANSACTION_FACTS,
    BLOCK_FACTS, LEDGER: what transactions and blocks do to the store, and the accounts as a map
    from names to balances. DEMO_CHAIN is a small chain for the witnesses.
  \<^item> LEDGER_PROPS, TRANSACTION_PROPS, BLOCK_PROPS, SLOT_PROPS, ACCEPT_PROPS, PUSH_PROPS, PRODUCE_PROPS,
    SWITCH_FACTS, PUSH_CASES: the claims about the chain: exact effect of the operations, atomicity of
    transactions and blocks, conservation of the supply, slots, hardforks, acceptance of an empty
    block, popping, producing, and the outcomes of a pushed block. \<open>history_ok\<close> is what holds between whole
    blocks: the chain invariant now, and the state of the block before below every block.
  \<^item> HISTORY, HISTORY_PROPS: \<open>plugins/account_history\<close> and its API.
  \<^item> CHAIN_PLUGIN, CHAIN_PLUGIN_PROPS: \<open>plugins/chain_plugin\<close>: the queues and their thread as a
    state machine whose steps interleave with submissions (\<open>plugin_run\<close>); sequential execution
    (\<open>serial\<close>) as the specification it refines, order, answers in bounded time, stopping.
  \<^item> P2P_PLUGIN, P2P_PROPS: \<open>plugins/p2p\<close>, the calls the network node makes: blocks and
    transactions handed in, items, ids after a synopsis, the synopsis.
  \<^item> PRODUCER_PLUGIN, PRODUCER_PROPS: \<open>plugins/producer_plugin\<close>: keys, the decision to produce, the timer.
  \<^item> APIS, API_PROPS: \<open>plugins/apis\<close> and \<open>fc/src/crypto/hex.cpp\<close>: the public calls.
  \<^item> APPLICATION, APPLICATION_PROPS: \<open>appbase\<close> and \<open>main\<close> of \<open>programs/base\<close>: registering,
    initialising, starting and shutting down the plugins in the order of what they require.
  \<^item> VARIANTS, VARIANT_FACTS: \<open>fc/src/variant.cpp\<close>, \<open>variant_object.cpp\<close>: the values JSON stands for and
    their conversions. JSON, JSON_FACTS, JSON_PROPS: \<open>fc/src/io/json.cpp\<close>, the writer and the
    recursive descent of the default parser. JSON_RPC, JSON_RPC_PROPS: \<open>plugins/json_rpc\<close>: requests,
    batches, the table of methods, answers and errors.
  \<^item> NET_TYPES, FRAMES: the messages of \<open>net/core_messages.hpp\<close> with their bytes, and
    \<open>message_oriented_connection.cpp\<close>: what is written for a message and the loop that reads.
    PEER_DATABASE: \<open>peer_database.cpp\<close>. MESSAGE_CACHE: the cache of \<open>node.cpp\<close>. PEER_CONNECTION:
    \<open>peer_connection.cpp\<close>, the state of one peer and its queue.
  \<^item> NODE, NODE_SYNC, NODE_ITEMS, NODE_BLOCKS, NODE_PEERS: \<open>node_impl\<close> of \<open>net/node.cpp\<close>. The record
    \<open>node\<close> holds its members, \<open>delegate\<close> the calls it makes; every handler of a message and every
    iteration of a loop is a statement. NODE_FACTS: \<open>node_step\<close>, what may happen between two states
    of the node, and the invariant of all reachable ones. NODE_REQUESTS: what one pass asks of
    whom. NODE_VIEWS: the locale \<open>node_view\<close> of parts of the state that statements leave alone.
    NODE_ENDS: statements that do not run out of rounds. NODE_HANDSHAKE, NODE_PROPS: the claims about
    the node.

  ROUNDS OF LOOPS. Loops over data are structural recursion. A walk along \<open>prev\<close> in the fork
  database has as many rounds as there are items: numbers fall along it (\<open>walk_down_ok\<close>,
  \<open>walk_both_ok\<close>). Reading the log back has as many rounds as the file has bytes. The expiry and
  hardfork loops have as many as there are objects and hardforks (\<open>clear_expired_exact\<close>,
  \<open>hardforks_all_due\<close>: never \<open>Diverged\<close>). The synopsis has 32 rounds beyond the first, enough because
  every step halves the distance of two 32-bit numbers (\<open>halving_length\<close>); only a count that wraps
  makes it run for ever (\<open>synopsis_wrap_diverges\<close>). The thread of the queues runs for ever by
  design; its claims count steps. Registering and initialising plugins goes no deeper than there
  are plugins (\<open>register_run\<close>, \<open>initialize_ok\<close>). The descent into a JSON text of n characters has 2 n + 1
  rounds (\<open>json_parser_ends\<close>). The backlog of sync blocks has one round more than tasks may run; it
  ends within them (\<open>rounds_end\<close>), and more change nothing (\<open>rounds_enough\<close>). The synopsis a peer is sent has 32 rounds, as the one above.

  PARAMETERS. Hash functions, signatures and key recovery (OpenSSL, secp256k1) are the record
  \<open>crypto\<close>, Boost's text conversions the record \<open>text_lib\<close> or an argument; the clock, the memory of the
  mapped file, whether assertions are compiled in (\<open>asserts_on\<close>), and the connected handlers are the
  record \<open>chain_env\<close> or arguments of the step. Number
  conversions of JSON are the record \<open>json_lib\<close>. The network node takes the delegate, the time, the
  encoding of the messages that hold variants (\<open>ne_lib\<close>), the secret shared with each peer and the
  outcome of every socket operation as arguments of its steps.

  NOT MODELLED. The memory-mapped file, locks and lock time-outs (a call runs alone or under the
  write lock); logging; the uses of \<open>assert\<close> other than the one on the slot of a block, which state facts
  about threads, sessions and members of the same object; option parsing; the Boost timer. Of the network node: sockets and the key
  exchange, what other fibers do while a handler waits for the delegate, the loops of bandwidth and
  status, its configuration file, listening and closing down. Of JSON: the relaxed and the strict
  parser and pretty printing. The web server, the fc runtime (threads, files, HTTP, SSH,
  compression) and the wrappers of cryptographic libraries: input and output, concurrency
  primitives or third-party code. Tests and the command-line program are not part of the node.
\<close>

end
